(* ===== verification/Prelude.thy ===== *)
theory Prelude
  imports Main "HOL-Library.Word"
begin

text \<open>
  Shared vocabulary of the development: machine integers at the widths of the C code
  (\<open>u8\<close>, \<open>u16\<close>, \<open>u32\<close>, \<open>u64\<close> of \<open>src/mininet-wifi/hostap/src/utils/common.h\<close>), byte
  buffers as lists, the memory operations the code uses (\<open>os_memset\<close>, \<open>os_memcpy\<close> into a
  buffer, byte-wise XOR), the big-endian accessors \<open>WPA_GET_BE32\<close> and \<open>WPA_PUT_BE*\<close>, and
  the generic lemmas the components share.  Named collections: \<open>byte_simps\<close> (lengths and
  cancellation of buffer operations), \<open>w32_simps\<close> (a 32-bit word seen as four bytes).
\<close>

unbundle bit_operations_syntax

section \<open>Machine integers and buffers\<close>

type_synonym u8 = "8 word"
type_synonym u16 = "16 word"
type_synonym u32 = "32 word"
type_synonym u64 = "64 word"
type_synonym bytes = "u8 list"

named_theorems byte_simps
named_theorems w32_simps

text \<open>
  \<open>os_memcmp_const\<close> and \<open>os_memcmp\<close> used as equality tests become equality of lists.
  A buffer read \<open>p + off\<close> of \<open>n\<close> bytes is \<open>get_bytes\<close>; \<open>os_memcpy(p + off, src, n)\<close> is
  \<open>put_bytes\<close>; \<open>for (i = 0; i < n; i++) a[i] ^= b[i]\<close> is \<open>xor_bytes\<close>.
\<close>

definition get_bytes :: "bytes \<Rightarrow> nat \<Rightarrow> nat \<Rightarrow> bytes" where
  "get_bytes buf off n = take n (drop off buf)"

definition put_bytes :: "bytes \<Rightarrow> nat \<Rightarrow> bytes \<Rightarrow> bytes" where
  "put_bytes buf off src = take off buf @ src @ drop (off + length src) buf"

definition xor_bytes :: "bytes \<Rightarrow> bytes \<Rightarrow> bytes" where
  "xor_bytes a b = map2 (XOR) a b"

lemma length_get_bytes [byte_simps]: "length (get_bytes buf off n) = min n (length buf - off)"
  by (simp add: get_bytes_def)

lemma length_put_bytes [byte_simps]:
  "off + length src \<le> length buf \<Longrightarrow> length (put_bytes buf off src) = length buf"
  by (simp add: put_bytes_def)

lemma length_xor_bytes [byte_simps]: "length (xor_bytes a b) = min (length a) (length b)"
  by (simp add: xor_bytes_def)

lemma nth_xor_bytes [byte_simps]:
  "i < length a \<Longrightarrow> i < length b \<Longrightarrow> xor_bytes a b ! i = a ! i XOR b ! i"
  by (simp add: xor_bytes_def)

lemma get_put_same [byte_simps]:
  "off + length src \<le> length buf \<Longrightarrow> n = length src \<Longrightarrow> get_bytes (put_bytes buf off src) off n = src"
  by (simp add: get_bytes_def put_bytes_def)

lemma put_bytes_put_same [byte_simps]:
  "off + length src \<le> length buf \<Longrightarrow> length src' = length src \<Longrightarrow>
   put_bytes (put_bytes buf off src) off src' = put_bytes buf off src'"
  by (simp add: put_bytes_def)

lemma put_get_same [byte_simps]:
  "off + n \<le> length buf \<Longrightarrow> put_bytes buf off (get_bytes buf off n) = buf"
  by (simp add: put_bytes_def get_bytes_def)
    (metis append_take_drop_id drop_drop add.commute)

lemma xor_bytes_cancel [byte_simps]:
  "length a \<le> length b \<Longrightarrow> xor_bytes (xor_bytes a b) b = a"
  by (rule nth_equalityI) (auto simp: byte_simps xor.assoc)

lemma xor_bytes_cancel2 [byte_simps]:
  "length a \<le> length b \<Longrightarrow> xor_bytes (xor_bytes b a) b = a"
  by (rule nth_equalityI) (auto simp: byte_simps xor.left_commute xor.assoc)

lemma xor_bytes_commute: "xor_bytes a b = xor_bytes b a"
  by (rule nth_equalityI) (auto simp: byte_simps xor.commute)

lemma xor_bytes_append:
  "length a = length c \<Longrightarrow> xor_bytes (a @ b) (c @ d) = xor_bytes a c @ xor_bytes b d"
  by (simp add: xor_bytes_def)

lemma xor_bytes_Nil [simp]: "xor_bytes [] b = []" "xor_bytes a [] = []"
  by (simp_all add: xor_bytes_def)

lemma xor_bytes_Cons [simp]: "xor_bytes (x # a) (y # b) = (x XOR y) # xor_bytes a b"
  by (simp add: xor_bytes_def)

lemma take_xor_bytes: "take n (xor_bytes a b) = xor_bytes (take n a) (take n b)"
  by (simp add: xor_bytes_def take_map take_zip)

lemma drop_xor_bytes: "drop n (xor_bytes a b) = xor_bytes (drop n a) (drop n b)"
  by (simp add: xor_bytes_def drop_map drop_zip)

lemma xor_bytes_assoc: "xor_bytes (xor_bytes a b) c = xor_bytes a (xor_bytes b c)"
  by (rule nth_equalityI) (auto simp: byte_simps xor.assoc)

text \<open>
  What a C function that may read out of bounds does: \<open>Fault\<close> is the out-of-bounds access
  (undefined behaviour), \<open>Ret r\<close> a return with error code \<open>r\<close>, \<open>Ok x\<close> success with output \<open>x\<close>.
\<close>

datatype 'a outcome = Fault | Ret int | Ok 'a

text \<open>\<open>if (f(..)) return r;\<close> followed by the rest of the function.\<close>

definition or_fail :: "int \<Rightarrow> 'a outcome \<Rightarrow> ('a \<Rightarrow> 'b outcome) \<Rightarrow> 'b outcome" where
  "or_fail r m f = (case m of Fault \<Rightarrow> Fault | Ret _ \<Rightarrow> Ret r | Ok x \<Rightarrow> f x)"

lemma or_fail_simps [simp]:
  "or_fail r Fault f = Fault" "or_fail r (Ret r') f = Ret r" "or_fail r (Ok x) f = f x"
  by (simp_all add: or_fail_def)

lemma or_fail_Ok_iff: "or_fail r m f = Ok y \<longleftrightarrow> (\<exists>x. m = Ok x \<and> f x = Ok y)"
  by (simp add: or_fail_def split: outcome.split)

text \<open>The number a buffer denotes, most significant byte first.\<close>

definition be_nat :: "bytes \<Rightarrow> nat" where
  "be_nat bs = foldl (\<lambda>v b. v * 256 + unat b) 0 bs"

fun le_nat :: "bytes \<Rightarrow> nat" where
  "le_nat [] = 0"
| "le_nat (b # bs) = unat b + 256 * le_nat bs"

lemma be_nat_rev: "be_nat (rev bs) = le_nat bs"
  by (induction bs) (simp_all add: be_nat_def)

lemma le_nat_less: "le_nat bs < 256 ^ length bs"
proof (induction bs)
  case (Cons b bs)
  have "unat b < 256" using unsigned_less [of b] by simp
  moreover have "256 * (le_nat bs + 1) \<le> 256 * 256 ^ length bs"
    using Cons by (intro mult_le_mono2) simp
  ultimately show ?case by (simp del: unsigned_less)
qed simp

lemma be_nat_le_nat: "be_nat bs = le_nat (rev bs)"
  using be_nat_rev [of "rev bs"] by simp

lemma le_nat_append: "le_nat (a @ b) = le_nat a + 256 ^ length a * le_nat b"
  by (induction a) (simp_all add: algebra_simps)

lemma be_nat_Cons: "be_nat (x # xs) = unat x * 256 ^ length xs + be_nat xs"
  by (simp add: be_nat_le_nat le_nat_append)

lemma be_nat_less: "be_nat bs < 256 ^ length bs"
  using le_nat_less [of "rev bs"] by (simp add: be_nat_le_nat)

section \<open>32-bit words as four bytes\<close>

text \<open>\<open>w32 a b c d\<close> is the big-endian composition that \<open>GETU32\<close> and \<open>WPA_GET_BE32\<close> compute.\<close>

definition w32 :: "u8 \<Rightarrow> u8 \<Rightarrow> u8 \<Rightarrow> u8 \<Rightarrow> u32" where
  "w32 a b c d = push_bit 24 (ucast a) XOR push_bit 16 (ucast b) XOR push_bit 8 (ucast c) XOR ucast d"

lemma bit_u8D: "bit (x :: u8) n \<Longrightarrow> n < 8"
  using bit_imp_le_length by fastforce

lemma ucast_ucast_u8 [simp]: "ucast (ucast (x :: u8) :: u32) = x"
  by (rule bit_word_eqI) (auto simp: bit_simps)

lemma bit_w32: "bit (w32 a b c d) n \<longleftrightarrow>
  (if n < 8 then bit d n else if n < 16 then bit c (n - 8)
   else if n < 24 then bit b (n - 16) else n < 32 \<and> bit a (n - 24))"
  by (auto simp: w32_def bit_simps dest: bit_u8D)

lemma w32_byte3 [w32_simps]: "ucast (drop_bit 24 (w32 a b c d)) = a"
  by (rule bit_word_eqI) (auto simp: bit_w32 bit_simps)

lemma w32_byte2 [w32_simps]: "ucast (drop_bit 16 (w32 a b c d)) = b"
  by (rule bit_word_eqI) (auto simp: bit_w32 bit_simps)

lemma w32_byte1 [w32_simps]: "ucast (drop_bit 8 (w32 a b c d)) = c"
  by (rule bit_word_eqI) (auto simp: bit_w32 bit_simps)

lemma w32_byte0 [w32_simps]: "ucast (w32 a b c d) = d"
  by (rule bit_word_eqI) (auto simp: bit_w32 bit_simps)

lemma w32_xor [w32_simps]:
  "w32 a b c d XOR w32 a' b' c' d' = w32 (a XOR a') (b XOR b') (c XOR c') (d XOR d')"
  by (rule bit_word_eqI) (simp add: bit_w32 bit_simps)

lemma and_255_mask: "(x :: 'a::len word) AND 255 = take_bit 8 x"
proof -
  have "(255 :: 'a word) = mask 8"
    by (simp add: mask_eq_exp_minus_1)
  then show ?thesis
    by (simp add: take_bit_eq_mask)
qed

lemma unat_and_255: "unat (x AND 255 :: u32) = unat (ucast x :: u8)"
  by (simp add: and_255_mask unsigned_ucast_eq unsigned_take_bit_eq)

lemma w32_split: "w = w32 (ucast (drop_bit 24 w)) (ucast (drop_bit 16 w)) (ucast (drop_bit 8 w)) (ucast w)"
  by (rule bit_word_eqI) (auto simp: bit_w32 bit_simps)

lemma w32_exhaust: obtains a b c d where "w = w32 a b c d"
  using w32_split by blast

lemma w32_inject [simp]: "w32 a b c d = w32 a' b' c' d' \<longleftrightarrow> a = a' \<and> b = b' \<and> c = c' \<and> d = d'"
  by (metis w32_byte0 w32_byte1 w32_byte2 w32_byte3)

text \<open>\<open>WPA_GET_BE32\<close> and the \<open>WPA_PUT_BE\<close> family of \<open>src/utils/common.h\<close>.\<close>

definition WPA_GET_BE32 :: "bytes \<Rightarrow> u32" where
  "WPA_GET_BE32 a = push_bit 24 (ucast (a ! 0)) OR push_bit 16 (ucast (a ! 1))
     OR push_bit 8 (ucast (a ! 2)) OR ucast (a ! 3)"

definition WPA_PUT_BE16 :: "u16 \<Rightarrow> bytes" where
  "WPA_PUT_BE16 val = [ucast (drop_bit 8 val), ucast val]"

definition WPA_PUT_BE32 :: "u32 \<Rightarrow> bytes" where
  "WPA_PUT_BE32 val = [ucast (drop_bit 24 val), ucast (drop_bit 16 val), ucast (drop_bit 8 val), ucast val]"

definition WPA_PUT_LE16 :: "u16 \<Rightarrow> bytes" where
  "WPA_PUT_LE16 val = [ucast (val AND 0xff), ucast (drop_bit 8 val)]"

definition WPA_PUT_BE64 :: "u64 \<Rightarrow> bytes" where
  "WPA_PUT_BE64 val = map (\<lambda>k. ucast (drop_bit k val)) [56, 48, 40, 32, 24, 16, 8, 0]"

lemma length_put_be [byte_simps]:
  "length (WPA_PUT_BE16 v) = 2" "length (WPA_PUT_BE32 w) = 4" "length (WPA_PUT_BE64 x) = 8"
  by (simp_all add: WPA_PUT_BE16_def WPA_PUT_BE32_def WPA_PUT_BE64_def)

lemma WPA_GET_BE32_w32: "WPA_GET_BE32 a = w32 (a ! 0) (a ! 1) (a ! 2) (a ! 3)"
  by (rule bit_word_eqI) (auto simp: WPA_GET_BE32_def bit_w32 bit_simps dest: bit_u8D)

lemma WPA_PUT_BE32_w32 [w32_simps]: "WPA_PUT_BE32 (w32 a b c d) = [a, b, c, d]"
  by (simp add: WPA_PUT_BE32_def w32_simps)

lemma list_length_4E:
  assumes "length xs = 4" obtains a b c d where "xs = [a, b, c, d]"
  using assms by (auto simp: length_Suc_conv eval_nat_numeral)

lemma list_length_16E:
  assumes "length xs = 16"
  obtains a0 a1 a2 a3 a4 a5 a6 a7 a8 a9 a10 a11 a12 a13 a14 a15
  where "xs = [a0, a1, a2, a3, a4, a5, a6, a7, a8, a9, a10, a11, a12, a13, a14, a15]"
  using assms by (auto simp: length_Suc_conv eval_nat_numeral)

section \<open>Blocks\<close>

text \<open>Splitting a buffer into consecutive pieces of \<open>n\<close> bytes, as the block loops walk it.\<close>

lemma take_drop_len: "n \<le> length xs \<Longrightarrow> length (take n xs) = n \<and> take n xs @ drop n xs = xs"
  by simp

text \<open>
  There are finitely many blocks of a given length, so a map that is undone by another
  one on them is itself a left inverse: the pigeonhole step behind
  ``decryption accepts only what encryption produces''.
\<close>

lemma finite_blocks: "finite {b :: bytes. length b = n}"
  using finite_lists_length_eq [of "UNIV :: u8 set" n] by simp

lemma left_inverse_is_right_inverse:
  fixes f g :: "bytes \<Rightarrow> bytes"
  assumes f: "\<And>b. length b = n \<Longrightarrow> length (f b) = n"
    and gf: "\<And>b. length b = n \<Longrightarrow> g (f b) = b"
    and b: "length b = n"
  shows "f (g b) = b"
proof -
  let ?B = "{b :: bytes. length b = n}"
  have "inj_on f ?B"
    by (rule inj_on_inverseI [where g = g]) (simp add: gf)
  moreover have "f ` ?B \<subseteq> ?B" using f by auto
  ultimately have "f ` ?B = ?B"
    by (intro endo_inj_surj finite_blocks)
  with b obtain c where "length c = n" "b = f c" by blast
  then show ?thesis by (simp add: gf)
qed

end
