(* ===== verification/BlockCipher.thy ===== *)
theory BlockCipher
  imports Prelude
begin

text \<open>
  The interface between the AES modes and the block cipher: \<open>aes_encrypt_init\<close>,
  \<open>aes_encrypt\<close>, \<open>aes_decrypt_init\<close> and \<open>aes_decrypt\<close> as declared in
  \<open>src/mininet-wifi/hostap/src/crypto/aes.h\<close>.  The modes reach AES only through these calls, so
  their lemmas are proved once from the laws below; \<open>Aes\<close> discharges the laws for the
  table-driven implementation.
\<close>

locale block_cipher =
  fixes e_init :: "bytes \<Rightarrow> nat \<Rightarrow> 'e option"
    and enc :: "'e \<Rightarrow> bytes \<Rightarrow> bytes"
  assumes length_enc [simp, byte_simps]: "length (enc e b) = 16"

locale invertible_cipher = block_cipher +
  fixes d_init :: "bytes \<Rightarrow> nat \<Rightarrow> 'd option"
    and dec :: "'d \<Rightarrow> bytes \<Rightarrow> bytes"
  assumes length_dec [simp, byte_simps]: "length (dec d b) = 16"
    and d_init_iff: "d_init key len = None \<longleftrightarrow> e_init key len = None"
    and dec_enc: "e_init key len = Some e \<Longrightarrow> d_init key len = Some d \<Longrightarrow> length b = 16 \<Longrightarrow>
      dec d (enc e b) = b"
begin

text \<open>Encryption permutes the blocks, so it undoes decryption as well.\<close>

lemma enc_dec:
  assumes "e_init key len = Some e" "d_init key len = Some d" "length b = 16"
  shows "enc e (dec d b) = b"
  by (rule left_inverse_is_right_inverse [where n = 16]) (use assms dec_enc in auto)

lemma enc_eq_iff:
  assumes "e_init key len = Some e" "d_init key len = Some d" "length b = 16" "length c = 16"
  shows "enc e b = c \<longleftrightarrow> b = dec d c"
  using assms dec_enc enc_dec by metis

end

end
