(* ===== verification/Aes.thy ===== *)
theory Aes
  imports AesTables BlockCipher
begin

text \<open>
  The AES block cipher of \<open>src/mininet-wifi/hostap/src/crypto\<close>: the access macros of \<open>aes_i.h\<close>
  (\<open>AES_SMALL_TABLES\<close> branch), key expansion (\<open>aes-internal.c\<close>), encryption
  (\<open>aes-internal-enc.c\<close>) and decryption (\<open>aes-internal-dec.c\<close>), in the rolled form that is
  compiled without \<open>FULL_UNROLL\<close>.  The round-key array and the round count stored at
  \<open>rk[AES_PRIV_NR_POS]\<close> form the record \<open>aes_ctx\<close>; \<open>os_malloc\<close> is taken to succeed.
  The main result is that decryption undoes encryption for every accepted key.
\<close>

unbundle bit_operations_syntax

section \<open>Table access\<close>

text \<open>\<open>TD0k\<close> to \<open>TD3k\<close> are the macros \<open>TD0_\<close> to \<open>TD3_\<close>.\<close>

definition RCON :: "nat \<Rightarrow> u32" where
  "RCON i = push_bit 24 (ucast (rcons ! i))"

definition TE0 :: "u32 \<Rightarrow> u32" where
  "TE0 i = Te0 ! unat (drop_bit 24 i AND 0xff)"

definition TE1 :: "u32 \<Rightarrow> u32" where
  "TE1 i = rotr (Te0 ! unat (drop_bit 16 i AND 0xff)) 8"

definition TE2 :: "u32 \<Rightarrow> u32" where
  "TE2 i = rotr (Te0 ! unat (drop_bit 8 i AND 0xff)) 16"

definition TE3 :: "u32 \<Rightarrow> u32" where
  "TE3 i = rotr (Te0 ! unat (i AND 0xff)) 24"

definition TE41 :: "u32 \<Rightarrow> u32" where
  "TE41 i = push_bit 8 (Te0 ! unat (drop_bit 24 i AND 0xff)) AND 0xff000000"

definition TE42 :: "u32 \<Rightarrow> u32" where
  "TE42 i = (Te0 ! unat (drop_bit 16 i AND 0xff)) AND 0x00ff0000"

definition TE43 :: "u32 \<Rightarrow> u32" where
  "TE43 i = (Te0 ! unat (drop_bit 8 i AND 0xff)) AND 0x0000ff00"

definition TE44 :: "u32 \<Rightarrow> u32" where
  "TE44 i = drop_bit 8 (Te0 ! unat (i AND 0xff)) AND 0x000000ff"

definition TE421 :: "u32 \<Rightarrow> u32" where
  "TE421 i = push_bit 8 (Te0 ! unat (drop_bit 16 i AND 0xff)) AND 0xff000000"

definition TE432 :: "u32 \<Rightarrow> u32" where
  "TE432 i = (Te0 ! unat (drop_bit 8 i AND 0xff)) AND 0x00ff0000"

definition TE443 :: "u32 \<Rightarrow> u32" where
  "TE443 i = (Te0 ! unat (i AND 0xff)) AND 0x0000ff00"

definition TE414 :: "u32 \<Rightarrow> u32" where
  "TE414 i = drop_bit 8 (Te0 ! unat (drop_bit 24 i AND 0xff)) AND 0x000000ff"

definition TE411 :: "u32 \<Rightarrow> u32" where
  "TE411 i = push_bit 8 (Te0 ! unat (drop_bit 24 i AND 0xff)) AND 0xff000000"

definition TE422 :: "u32 \<Rightarrow> u32" where
  "TE422 i = (Te0 ! unat (drop_bit 16 i AND 0xff)) AND 0x00ff0000"

definition TE433 :: "u32 \<Rightarrow> u32" where
  "TE433 i = (Te0 ! unat (drop_bit 8 i AND 0xff)) AND 0x0000ff00"

definition TE444 :: "u32 \<Rightarrow> u32" where
  "TE444 i = drop_bit 8 (Te0 ! unat (i AND 0xff)) AND 0x000000ff"

definition TE4 :: "u32 \<Rightarrow> u32" where
  "TE4 i = drop_bit 8 (Te0 ! unat i) AND 0x000000ff"

definition TD0 :: "u32 \<Rightarrow> u32" where
  "TD0 i = Td0 ! unat (drop_bit 24 i AND 0xff)"

definition TD1 :: "u32 \<Rightarrow> u32" where
  "TD1 i = rotr (Td0 ! unat (drop_bit 16 i AND 0xff)) 8"

definition TD2 :: "u32 \<Rightarrow> u32" where
  "TD2 i = rotr (Td0 ! unat (drop_bit 8 i AND 0xff)) 16"

definition TD3 :: "u32 \<Rightarrow> u32" where
  "TD3 i = rotr (Td0 ! unat (i AND 0xff)) 24"

definition TD41 :: "u32 \<Rightarrow> u32" where
  "TD41 i = push_bit 24 (ucast (Td4s ! unat (drop_bit 24 i AND 0xff)))"

definition TD42 :: "u32 \<Rightarrow> u32" where
  "TD42 i = push_bit 16 (ucast (Td4s ! unat (drop_bit 16 i AND 0xff)))"

definition TD43 :: "u32 \<Rightarrow> u32" where
  "TD43 i = push_bit 8 (ucast (Td4s ! unat (drop_bit 8 i AND 0xff)))"

definition TD44 :: "u32 \<Rightarrow> u32" where
  "TD44 i = ucast (Td4s ! unat (i AND 0xff))"

definition TD0k :: "u32 \<Rightarrow> u32" where
  "TD0k i = Td0 ! unat (i AND 0xff)"

definition TD1k :: "u32 \<Rightarrow> u32" where
  "TD1k i = rotr (Td0 ! unat (i AND 0xff)) 8"

definition TD2k :: "u32 \<Rightarrow> u32" where
  "TD2k i = rotr (Td0 ! unat (i AND 0xff)) 16"

definition TD3k :: "u32 \<Rightarrow> u32" where
  "TD3k i = rotr (Td0 ! unat (i AND 0xff)) 24"

definition GETU32 :: "bytes \<Rightarrow> nat \<Rightarrow> u32" where
  "GETU32 pt off = push_bit 24 (ucast (pt ! off)) XOR push_bit 16 (ucast (pt ! (off + 1)))
     XOR push_bit 8 (ucast (pt ! (off + 2))) XOR ucast (pt ! (off + 3))"

definition PUTU32 :: "u32 \<Rightarrow> bytes" where
  "PUTU32 st = [ucast (drop_bit 24 st), ucast (drop_bit 16 st), ucast (drop_bit 8 st), ucast st]"

section \<open>Key expansion\<close>

text \<open>
  \<open>rk\<close> is the part of the array written so far; the loops of the code advance the pointer
  \<open>rk\<close> by 4, 6 or 8 words per iteration, so word \<open>k\<close> of iteration \<open>i\<close> is \<open>rk[p + k]\<close> with
  \<open>p\<close> the advance times \<open>i\<close>.
\<close>

definition key_core :: "u32 \<Rightarrow> nat \<Rightarrow> u32" where
  "key_core temp i = TE421 temp XOR TE432 temp XOR TE443 temp XOR TE414 temp XOR RCON i"

definition ks128_step :: "nat \<Rightarrow> u32 list \<Rightarrow> u32 list" where
  "ks128_step i rk =
     (let p = 4 * i; temp = rk ! (p + 3);
          r4 = rk ! p XOR key_core temp i;
          r5 = rk ! (p + 1) XOR r4;
          r6 = rk ! (p + 2) XOR r5;
          r7 = rk ! (p + 3) XOR r6
      in rk @ [r4, r5, r6, r7])"

definition ks192_step :: "nat \<Rightarrow> u32 list \<Rightarrow> u32 list" where
  "ks192_step i rk =
     (let p = 6 * i; temp = rk ! (p + 5);
          r6 = rk ! p XOR key_core temp i;
          r7 = rk ! (p + 1) XOR r6;
          r8 = rk ! (p + 2) XOR r7;
          r9 = rk ! (p + 3) XOR r8
      in if i = 7 then rk @ [r6, r7, r8, r9]
         else let r10 = rk ! (p + 4) XOR r9; r11 = rk ! (p + 5) XOR r10
              in rk @ [r6, r7, r8, r9, r10, r11])"

definition ks256_step :: "nat \<Rightarrow> u32 list \<Rightarrow> u32 list" where
  "ks256_step i rk =
     (let p = 8 * i; temp = rk ! (p + 7);
          r8 = rk ! p XOR key_core temp i;
          r9 = rk ! (p + 1) XOR r8;
          r10 = rk ! (p + 2) XOR r9;
          r11 = rk ! (p + 3) XOR r10
      in if i = 6 then rk @ [r8, r9, r10, r11]
         else let r12 = rk ! (p + 4) XOR TE411 r11 XOR TE422 r11 XOR TE433 r11 XOR TE444 r11;
                  r13 = rk ! (p + 5) XOR r12;
                  r14 = rk ! (p + 6) XOR r13;
                  r15 = rk ! (p + 7) XOR r14
              in rk @ [r8, r9, r10, r11, r12, r13, r14, r15])"

text \<open>\<open>None\<close> is the return value \<open>-1\<close> for a key length other than 128, 192 or 256 bits.\<close>

definition rijndaelKeySetupEnc :: "bytes \<Rightarrow> nat \<Rightarrow> (nat \<times> u32 list) option" where
  "rijndaelKeySetupEnc cipherKey keyBits =
     (if keyBits = 128 then
        Some (10, fold ks128_step [0..<10] (map (GETU32 cipherKey) [0, 4, 8, 12]))
      else if keyBits = 192 then
        Some (12, fold ks192_step [0..<8] (map (GETU32 cipherKey) [0, 4, 8, 12, 16, 20]))
      else if keyBits = 256 then
        Some (14, fold ks256_step [0..<7] (map (GETU32 cipherKey) [0, 4, 8, 12, 16, 20, 24, 28]))
      else None)"

record aes_ctx =
  ctx_rk :: "u32 list"
  ctx_nr :: nat

section \<open>Encryption\<close>

type_synonym aes_state = "u32 \<times> u32 \<times> u32 \<times> u32"

fun enc_round :: "u32 list \<Rightarrow> nat \<Rightarrow> aes_state \<Rightarrow> aes_state" where
  "enc_round rk i (s0, s1, s2, s3) =
     (TE0 s0 XOR TE1 s1 XOR TE2 s2 XOR TE3 s3 XOR rk ! (4 * i),
      TE0 s1 XOR TE1 s2 XOR TE2 s3 XOR TE3 s0 XOR rk ! (4 * i + 1),
      TE0 s2 XOR TE1 s3 XOR TE2 s0 XOR TE3 s1 XOR rk ! (4 * i + 2),
      TE0 s3 XOR TE1 s0 XOR TE2 s1 XOR TE3 s2 XOR rk ! (4 * i + 3))"

text \<open>
  The loop \<open>for (;;) { ROUND(1,t,s); rk += 8; if (--r == 0) break; ROUND(0,s,t); }\<close> that
  encryption and decryption share, over the round macro \<open>rnd\<close> and the counter \<open>r\<close>; the result
  is \<open>t\<close> and the advanced pointer.  It starts with \<open>r = Nr >> 1\<close>, which is 5, 6 or 7.
\<close>

fun round_loop :: "(u32 list \<Rightarrow> nat \<Rightarrow> aes_state \<Rightarrow> aes_state) \<Rightarrow> nat \<Rightarrow> u32 list \<Rightarrow> aes_state \<Rightarrow>
    aes_state \<times> u32 list" where
  "round_loop rnd r rk s =
     (let t = rnd rk 1 s; rk' = drop 8 rk
      in if r \<le> 1 then (t, rk') else round_loop rnd (r - 1) rk' (rnd rk' 0 t))"

declare round_loop.simps [simp del]

fun enc_last :: "u32 list \<Rightarrow> aes_state \<Rightarrow> bytes" where
  "enc_last rk (t0, t1, t2, t3) =
     PUTU32 (TE41 t0 XOR TE42 t1 XOR TE43 t2 XOR TE44 t3 XOR rk ! 0) @
     PUTU32 (TE41 t1 XOR TE42 t2 XOR TE43 t3 XOR TE44 t0 XOR rk ! 1) @
     PUTU32 (TE41 t2 XOR TE42 t3 XOR TE43 t0 XOR TE44 t1 XOR rk ! 2) @
     PUTU32 (TE41 t3 XOR TE42 t0 XOR TE43 t1 XOR TE44 t2 XOR rk ! 3)"

definition load_state :: "u32 list \<Rightarrow> bytes \<Rightarrow> aes_state" where
  "load_state rk pt = (GETU32 pt 0 XOR rk ! 0, GETU32 pt 4 XOR rk ! 1,
     GETU32 pt 8 XOR rk ! 2, GETU32 pt 12 XOR rk ! 3)"

definition rijndaelEncrypt :: "u32 list \<Rightarrow> nat \<Rightarrow> bytes \<Rightarrow> bytes" where
  "rijndaelEncrypt rk Nr pt =
     (let (t, rk') = round_loop enc_round (Nr div 2) rk (load_state rk pt) in enc_last rk' t)"

text \<open>The code passes \<open>len * 8\<close> to an \<open>int\<close>; a \<open>size_t\<close> length that this narrowing would map to 128, 192 or 256 is outside the model.\<close>

definition aes_encrypt_init :: "bytes \<Rightarrow> nat \<Rightarrow> aes_ctx option" where
  "aes_encrypt_init key len =
     (case rijndaelKeySetupEnc key (len * 8) of
        None \<Rightarrow> None
      | Some (res, rk) \<Rightarrow> Some \<lparr>ctx_rk = rk, ctx_nr = res\<rparr>)"

definition aes_encrypt :: "aes_ctx \<Rightarrow> bytes \<Rightarrow> bytes" where
  "aes_encrypt ctx plain = rijndaelEncrypt (ctx_rk ctx) (ctx_nr ctx) plain"

definition aes_128_encrypt_block :: "bytes \<Rightarrow> bytes \<Rightarrow> bytes option" where
  "aes_128_encrypt_block key inb =
     (case aes_encrypt_init key 16 of None \<Rightarrow> None | Some ctx \<Rightarrow> Some (aes_encrypt ctx inb))"

section \<open>Decryption\<close>

text \<open>Inverting the order of the round keys: the swap loop with its two indices.\<close>

definition swap4 :: "u32 list \<Rightarrow> nat \<Rightarrow> nat \<Rightarrow> u32 list" where
  "swap4 rk i j = fold (\<lambda>k r. r[i + k := r ! (j + k), j + k := r ! (i + k)]) [0, 1, 2, 3] rk"

function swap_round_keys :: "nat \<Rightarrow> nat \<Rightarrow> u32 list \<Rightarrow> u32 list" where
  "swap_round_keys i j rk = (if i < j then swap_round_keys (i + 4) (j - 4) (swap4 rk i j) else rk)"
  by pat_completeness auto
termination
  by (relation "measure (\<lambda>(i, j, rk). j - i)") auto

declare swap_round_keys.simps [simp del]

definition dec_mix :: "u32 \<Rightarrow> u32" where
  "dec_mix w = TD0k (TE4 (drop_bit 24 w)) XOR TD1k (TE4 (drop_bit 16 w AND 0xff)) XOR
     TD2k (TE4 (drop_bit 8 w AND 0xff)) XOR TD3k (TE4 (w AND 0xff))"

definition rijndaelKeySetupDec :: "bytes \<Rightarrow> nat \<Rightarrow> (nat \<times> u32 list) option" where
  "rijndaelKeySetupDec cipherKey keyBits =
     (case rijndaelKeySetupEnc cipherKey keyBits of
        None \<Rightarrow> None
      | Some (Nr, rk) \<Rightarrow>
          Some (Nr, fold (\<lambda>i r. fold (\<lambda>j r'. r'[4 * i + j := dec_mix (r' ! (4 * i + j))]) [0..<4] r)
                      [1..<Nr] (swap_round_keys 0 (4 * Nr) rk)))"

definition aes_decrypt_init :: "bytes \<Rightarrow> nat \<Rightarrow> aes_ctx option" where
  "aes_decrypt_init key len =
     (case rijndaelKeySetupDec key (len * 8) of
        None \<Rightarrow> None
      | Some (res, rk) \<Rightarrow> Some \<lparr>ctx_rk = rk, ctx_nr = res\<rparr>)"

fun dec_round :: "u32 list \<Rightarrow> nat \<Rightarrow> aes_state \<Rightarrow> aes_state" where
  "dec_round rk i (s0, s1, s2, s3) =
     (TD0 s0 XOR TD1 s3 XOR TD2 s2 XOR TD3 s1 XOR rk ! (4 * i),
      TD0 s1 XOR TD1 s0 XOR TD2 s3 XOR TD3 s2 XOR rk ! (4 * i + 1),
      TD0 s2 XOR TD1 s1 XOR TD2 s0 XOR TD3 s3 XOR rk ! (4 * i + 2),
      TD0 s3 XOR TD1 s2 XOR TD2 s1 XOR TD3 s0 XOR rk ! (4 * i + 3))"

fun dec_last :: "u32 list \<Rightarrow> aes_state \<Rightarrow> bytes" where
  "dec_last rk (t0, t1, t2, t3) =
     PUTU32 (TD41 t0 XOR TD42 t3 XOR TD43 t2 XOR TD44 t1 XOR rk ! 0) @
     PUTU32 (TD41 t1 XOR TD42 t0 XOR TD43 t3 XOR TD44 t2 XOR rk ! 1) @
     PUTU32 (TD41 t2 XOR TD42 t1 XOR TD43 t0 XOR TD44 t3 XOR rk ! 2) @
     PUTU32 (TD41 t3 XOR TD42 t2 XOR TD43 t1 XOR TD44 t0 XOR rk ! 3)"

definition rijndaelDecrypt :: "u32 list \<Rightarrow> nat \<Rightarrow> bytes \<Rightarrow> bytes" where
  "rijndaelDecrypt rk Nr ct =
     (let (t, rk') = round_loop dec_round (Nr div 2) rk (load_state rk ct) in dec_last rk' t)"

definition aes_decrypt :: "aes_ctx \<Rightarrow> bytes \<Rightarrow> bytes" where
  "aes_decrypt ctx crypt = rijndaelDecrypt (ctx_rk ctx) (ctx_nr ctx) crypt"

section \<open>Decryption undoes encryption\<close>

text \<open>The bytes of a column, most significant first.\<close>

abbreviation b3 :: "u32 \<Rightarrow> u8" where "b3 w \<equiv> ucast (drop_bit 24 w)"
abbreviation b2 :: "u32 \<Rightarrow> u8" where "b2 w \<equiv> ucast (drop_bit 16 w)"
abbreviation b1 :: "u32 \<Rightarrow> u8" where "b1 w \<equiv> ucast (drop_bit 8 w)"
abbreviation b0 :: "u32 \<Rightarrow> u8" where "b0 w \<equiv> ucast w"

lemma index_bytes [w32_simps]:
  "unat (drop_bit 24 w AND 0xff :: u32) = unat (b3 w)"
  "unat (drop_bit 16 w AND 0xff :: u32) = unat (b2 w)"
  "unat (drop_bit 8 w AND 0xff :: u32) = unat (b1 w)"
  "unat (w AND 0xff :: u32) = unat (b0 w)"
  by (simp_all add: unat_and_255)

lemma mc_col_masks:
  "push_bit 8 (mc_col s) AND 0xff000000 = w32 s 0 0 0"
  "mc_col s AND 0x00ff0000 = w32 0 s 0 0"
  "mc_col s AND 0x0000ff00 = w32 0 0 s 0"
  "drop_bit 8 (mc_col s) AND 0x000000ff = w32 0 0 0 s"
proof -
  have m: "(0xff000000 :: u32) = push_bit 24 (mask 8)" "(0x00ff0000 :: u32) = push_bit 16 (mask 8)"
    "(0x0000ff00 :: u32) = push_bit 8 (mask 8)" "(0x000000ff :: u32) = mask 8"
    by (simp_all add: mask_eq_exp_minus_1)
  show "push_bit 8 (mc_col s) AND 0xff000000 = w32 s 0 0 0"
    unfolding m by (rule bit_word_eqI) (auto simp: bit_w32 mc_col_def bit_simps)
  show "mc_col s AND 0x00ff0000 = w32 0 s 0 0"
    unfolding m by (rule bit_word_eqI) (auto simp: bit_w32 mc_col_def bit_simps)
  show "mc_col s AND 0x0000ff00 = w32 0 0 s 0"
    unfolding m by (rule bit_word_eqI) (auto simp: bit_w32 mc_col_def bit_simps)
  show "drop_bit 8 (mc_col s) AND 0x000000ff = w32 0 0 0 s"
    unfolding m by (rule bit_word_eqI) (auto simp: bit_w32 mc_col_def bit_simps)
qed

lemma unat_ucast_u8 [simp]: "unat (ucast (x :: u8) :: u32) = unat x"
  using unat_u8_less [of x] by (simp add: unsigned_ucast_eq take_bit_nat_eq_self_iff del: unat_u8_less)

lemma w32_of_byte:
  "push_bit 24 (ucast x) = w32 x 0 0 0" "push_bit 16 (ucast x) = w32 0 x 0 0"
  "push_bit 8 (ucast x) = w32 0 0 x 0" "ucast x = w32 0 0 0 x"
  by (simp_all add: w32_def)

lemma te4_eqs:
  "TE41 w = w32 (sub_byte (b3 w)) 0 0 0" "TE42 w = w32 0 (sub_byte (b2 w)) 0 0"
  "TE43 w = w32 0 0 (sub_byte (b1 w)) 0" "TE44 w = w32 0 0 0 (sub_byte (b0 w))"
  by (simp_all only: TE41_def TE42_def TE43_def TE44_def index_bytes Te0_nth mc_col_masks)

lemma td4_eqs:
  "TD41 w = w32 (inv_sub_byte (b3 w)) 0 0 0" "TD42 w = w32 0 (inv_sub_byte (b2 w)) 0 0"
  "TD43 w = w32 0 0 (inv_sub_byte (b1 w)) 0" "TD44 w = w32 0 0 0 (inv_sub_byte (b0 w))"
  unfolding TD41_def TD42_def TD43_def TD44_def index_bytes
  by (simp_all only: inv_sub_byte_def w32_of_byte(1) w32_of_byte(2) w32_of_byte(3))
    (rule w32_of_byte(4))

lemma te_mix: "TE0 v XOR TE1 w XOR TE2 x XOR TE3 y XOR k =
    mix_bytes mc_col (sub_byte (b3 v)) (sub_byte (b2 w)) (sub_byte (b1 x)) (sub_byte (b0 y)) XOR k"
  by (simp only: xor.assoc TE0_def TE1_def TE2_def TE3_def index_bytes Te0_nth mix_bytes_def)

lemma td_mix: "TD0 v XOR TD1 w XOR TD2 x XOR TD3 y XOR k =
    inv_mix_column (w32 (inv_sub_byte (b3 v)) (inv_sub_byte (b2 w)) (inv_sub_byte (b1 x)) (inv_sub_byte (b0 y))) XOR k"
  by (simp only: xor.assoc TD0_def TD1_def TD2_def TD3_def index_bytes Td0_nth inv_mix_column_w32 mix_bytes_def)

lemma TE4_byte: "ucast (TE4 w) = sub_byte (ucast w)" if "w = ucast (x :: u8)" for w :: u32
proof -
  have "unat w = unat x" using that by simp
  then show ?thesis
    using that by (simp add: TE4_def Te0_nth mc_col_masks w32_simps)
qed

lemma dec_mix_eq: "dec_mix w = inv_mix_column w"
proof -
  obtain a b c d where w: "w = w32 a b c d" by (rule w32_exhaust)
  have e: "drop_bit 24 w = ucast a" "drop_bit 16 w AND 0xff = ucast b" "drop_bit 8 w AND 0xff = ucast c"
    "w AND 0xff = ucast d"
    unfolding w and_255_mask by (rule bit_word_eqI, auto simp: bit_w32 bit_simps dest: bit_u8D)+
  have td: "TD0k v = imc_col (inv_sub_byte (ucast v))" "TD1k v = rotr (imc_col (inv_sub_byte (ucast v))) 8"
     "TD2k v = rotr (imc_col (inv_sub_byte (ucast v))) 16" "TD3k v = rotr (imc_col (inv_sub_byte (ucast v))) 24" for v
    by (simp_all add: TD0k_def TD1k_def TD2k_def TD3k_def unat_and_255 Td0_nth)
  show ?thesis
    unfolding dec_mix_def e td TE4_byte [OF refl] 
    by (simp add: w inv_mix_column_w32 mix_bytes_def)
qed

text \<open>
  One round in two parts: \<open>sub_shift\<close> (SubBytes and ShiftRows) and the column mixing, with
  the round key added by \<open>xor4\<close>.
\<close>

fun sub_shift :: "aes_state \<Rightarrow> aes_state" where
  "sub_shift (s0, s1, s2, s3) =
     (w32 (sub_byte (b3 s0)) (sub_byte (b2 s1)) (sub_byte (b1 s2)) (sub_byte (b0 s3)),
      w32 (sub_byte (b3 s1)) (sub_byte (b2 s2)) (sub_byte (b1 s3)) (sub_byte (b0 s0)),
      w32 (sub_byte (b3 s2)) (sub_byte (b2 s3)) (sub_byte (b1 s0)) (sub_byte (b0 s1)),
      w32 (sub_byte (b3 s3)) (sub_byte (b2 s0)) (sub_byte (b1 s1)) (sub_byte (b0 s2)))"

fun inv_sub_shift :: "aes_state \<Rightarrow> aes_state" where
  "inv_sub_shift (s0, s1, s2, s3) =
     (w32 (inv_sub_byte (b3 s0)) (inv_sub_byte (b2 s3)) (inv_sub_byte (b1 s2)) (inv_sub_byte (b0 s1)),
      w32 (inv_sub_byte (b3 s1)) (inv_sub_byte (b2 s0)) (inv_sub_byte (b1 s3)) (inv_sub_byte (b0 s2)),
      w32 (inv_sub_byte (b3 s2)) (inv_sub_byte (b2 s1)) (inv_sub_byte (b1 s0)) (inv_sub_byte (b0 s3)),
      w32 (inv_sub_byte (b3 s3)) (inv_sub_byte (b2 s2)) (inv_sub_byte (b1 s1)) (inv_sub_byte (b0 s0)))"

fun map4 :: "(u32 \<Rightarrow> u32) \<Rightarrow> aes_state \<Rightarrow> aes_state" where
  "map4 f (s0, s1, s2, s3) = (f s0, f s1, f s2, f s3)"

fun xor4 :: "aes_state \<Rightarrow> aes_state \<Rightarrow> aes_state" where
  "xor4 (s0, s1, s2, s3) (t0, t1, t2, t3) = (s0 XOR t0, s1 XOR t1, s2 XOR t2, s3 XOR t3)"

definition mix_column :: "u32 \<Rightarrow> u32" where
  "mix_column w = mix_bytes mc_col (b3 w) (b2 w) (b1 w) (b0 w)"

definition round_key :: "u32 list \<Rightarrow> nat \<Rightarrow> aes_state" where
  "round_key rk i = (rk ! (4 * i), rk ! (4 * i + 1), rk ! (4 * i + 2), rk ! (4 * i + 3))"

lemma inv_sub_shift_sub_shift [simp]: "inv_sub_shift (sub_shift s) = s"
  by (cases s rule: sub_shift.cases) (simp add: w32_simps flip: w32_split)

lemma xor4_cancel [simp]: "xor4 (xor4 s k) k = s"
  by (cases "(s, k)" rule: xor4.cases) (simp add: xor.assoc)

lemma map4_inv_mix_xor: "map4 inv_mix_column (xor4 s k) = xor4 (map4 inv_mix_column s) (map4 inv_mix_column k)"
  by (cases "(s, k)" rule: xor4.cases) (simp add: inv_mix_column_xor)

lemma map4_inv_mix_mix [simp]: "map4 inv_mix_column (map4 mix_column s) = s"
  by (cases s rule: sub_shift.cases) (simp add: mix_column_def inv_mix_mix flip: w32_split)

lemma enc_round_eq: "enc_round rk i s = xor4 (map4 mix_column (sub_shift s)) (round_key rk i)"
  by (cases s rule: sub_shift.cases) (simp add: te_mix round_key_def mix_column_def w32_simps)

lemma dec_round_eq: "dec_round rk i s = xor4 (map4 inv_mix_column (inv_sub_shift s)) (round_key rk i)"
  by (cases s rule: sub_shift.cases) (simp add: td_mix round_key_def)

text \<open>A decryption round with the mixed key steps back over one encryption round.\<close>

lemma dec_round_step:
  assumes "round_key drk j = map4 inv_mix_column (round_key rk i)"
  shows "dec_round drk j (sub_shift (enc_round rk i s)) = sub_shift s"
  by (simp add: dec_round_eq enc_round_eq assms map4_inv_mix_xor)

text \<open>The round loops as folds over the round numbers.\<close>

lemma round_key_drop: "8 \<le> length rk \<Longrightarrow> round_key (drop 8 rk) i = round_key rk (i + 2)"
  by (simp add: round_key_def algebra_simps)

lemma enc_round_drop: "8 \<le> length rk \<Longrightarrow> enc_round (drop 8 rk) i = enc_round rk (i + 2)"
  by (rule ext) (simp only: enc_round_eq round_key_drop)

lemma dec_round_drop: "8 \<le> length rk \<Longrightarrow> dec_round (drop 8 rk) i = dec_round rk (i + 2)"
  by (rule ext) (simp only: dec_round_eq round_key_drop)

lemma round_loop_fold:
  assumes rnd: "\<And>rk i. 8 \<le> length rk \<Longrightarrow> rnd (drop 8 rk) i = rnd rk (i + 2)"
    and "0 < r" "8 * r \<le> length rk"
  shows "round_loop rnd r rk s = (fold (rnd rk) [1..<2 * r] s, drop (8 * r) rk)"
  using assms(2,3)
proof (induction r arbitrary: rk s)
  case 0
  then show ?case by simp
next
  case (Suc r)
  show ?case
  proof (cases "r = 0")
    case True
    then show ?thesis by (subst round_loop.simps) (simp add: numeral_2_eq_2 upt_rec)
  next
    case False
    with Suc.prems have r: "0 < r" "8 \<le> length rk" "8 * r \<le> length (drop 8 rk)" by simp_all
    have shift: "fold (rnd (drop 8 rk)) [1..<2 * r] t = fold (rnd rk) [3..<2 * Suc r] t" for t
    proof -
      have "rnd (drop 8 rk) = (\<lambda>i. rnd rk (i + 2))"
        using r by (simp add: fun_eq_iff rnd)
      moreover have "[3..<2 * Suc r] = map (\<lambda>i. i + 2) [1..<2 * r]"
        by (intro nth_equalityI) (auto simp: algebra_simps simp del: upt_Suc)
      ultimately show ?thesis by (simp add: fold_map o_def)
    qed
    have two: "rnd (drop 8 rk) 0 = rnd rk 2"
      using rnd [of rk 0] r by (simp add: numeral_2_eq_2)
    have up: "[1..<2 * Suc r] = 1 # 2 # [3..<2 * Suc r]"
      using r by (simp add: upt_conv_Cons numeral_3_eq_3 numeral_2_eq_2)
    have "round_loop rnd (Suc r) rk s = round_loop rnd r (drop 8 rk) (rnd rk 2 (rnd rk 1 s))"
      using r by (subst round_loop.simps) (simp add: two Let_def)
    also have "\<dots> = (fold (rnd rk) [1..<2 * Suc r] s, drop (8 * Suc r) rk)"
      using Suc.IH [OF r(1,3)] by (simp only: shift up fold_simps drop_drop) (simp add: algebra_simps)
    finally show ?thesis .
  qed
qed

text \<open>Undoing a run of rounds, the last one first.\<close>

lemma dec_fold:
  assumes key: "\<And>i. 0 < i \<Longrightarrow> i < N \<Longrightarrow> round_key drk i = map4 inv_mix_column (round_key rk (N - i))"
    and "n < N"
  shows "fold (dec_round drk) [1..<Suc n] (sub_shift (fold (enc_round rk) [1..<N] s)) =
    sub_shift (fold (enc_round rk) [1..<N - n] s)"
  using \<open>n < N\<close>
proof (induction n)
  case 0
  then show ?case by simp
next
  case (Suc n)
  then have N: "N - n = Suc (N - Suc n)" "0 < N - Suc n" by auto
  have k: "round_key drk (Suc n) = map4 inv_mix_column (round_key rk (N - Suc n))"
    using key Suc.prems by simp
  show ?case
    using Suc N by (simp add: dec_round_step [OF k])
qed

text \<open>Blocks and states.\<close>

definition state_bytes :: "aes_state \<Rightarrow> bytes" where
  "state_bytes s = (case s of (s0, s1, s2, s3) \<Rightarrow> PUTU32 s0 @ PUTU32 s1 @ PUTU32 s2 @ PUTU32 s3)"

definition bytes_state :: "bytes \<Rightarrow> aes_state" where
  "bytes_state b = (GETU32 b 0, GETU32 b 4, GETU32 b 8, GETU32 b 12)"

lemma GETU32_w32: "GETU32 b off = w32 (b ! off) (b ! (off + 1)) (b ! (off + 2)) (b ! (off + 3))"
  by (simp add: GETU32_def w32_def)

lemma PUTU32_w32: "PUTU32 (w32 a b c d) = [a, b, c, d]"
  by (simp add: PUTU32_def w32_simps)

lemma length_PUTU32 [simp]: "length (PUTU32 w) = 4"
  by (simp add: PUTU32_def)

lemma length_state_bytes [simp]: "length (state_bytes s) = 16"
  by (simp add: state_bytes_def split: prod.split)

lemma state_bytes_bytes_state: "length b = 16 \<Longrightarrow> state_bytes (bytes_state b) = b"
  by (elim list_length_16E) (simp add: state_bytes_def bytes_state_def GETU32_w32 PUTU32_w32)

lemma bytes_state_state_bytes [simp]: "bytes_state (state_bytes s) = s"
proof (cases s)
  case (fields s0 s1 s2 s3)
  then show ?thesis
    by (cases s0 rule: w32_exhaust, cases s1 rule: w32_exhaust, cases s2 rule: w32_exhaust,
        cases s3 rule: w32_exhaust)
      (simp add: state_bytes_def bytes_state_def GETU32_w32 PUTU32_w32)
qed

lemma load_state_eq: "load_state rk b = xor4 (bytes_state b) (round_key rk 0)"
  by (simp add: load_state_def bytes_state_def round_key_def numeral_2_eq_2)

lemma enc_last_eq: "enc_last rk t = state_bytes (xor4 (sub_shift t) (round_key rk 0))"
  by (cases t rule: sub_shift.cases)
    (simp add: te4_eqs state_bytes_def round_key_def w32_simps numeral_2_eq_2 flip: xor.assoc)

lemma dec_last_eq: "dec_last rk t = state_bytes (xor4 (inv_sub_shift t) (round_key rk 0))"
  by (cases t rule: sub_shift.cases)
    (simp add: td4_eqs state_bytes_def round_key_def w32_simps numeral_2_eq_2 flip: xor.assoc)

text \<open>The decryption key schedule: reversed, with the inner keys mixed.\<close>

lemma idx_ne:
  "4 * a \<noteq> Suc (4 * r)" "4 * a \<noteq> Suc (Suc (4 * r))" "4 * a \<noteq> 4 * r + 3"
  "Suc (4 * a) \<noteq> 4 * r" "Suc (Suc (4 * a)) \<noteq> 4 * r" "4 * a + 3 \<noteq> 4 * r"
  "Suc (4 * a) \<noteq> 4 * r + 3" "Suc (Suc (4 * a)) \<noteq> 4 * r + 3"
  "4 * r + 3 \<noteq> Suc (4 * a)" "4 * r + 3 \<noteq> Suc (Suc (4 * a))" for a r :: nat
  by presburger+

lemma length_swap4 [simp]: "length (swap4 rk i j) = length rk"
  by (simp add: swap4_def)

lemma length_swap_round_keys [simp]: "length (swap_round_keys i j rk) = length rk"
  by (induction i j rk rule: swap_round_keys.induct) (subst swap_round_keys.simps, simp)

lemma round_key_swap4:
  assumes "a < b" "4 * b + 4 \<le> length rk"
  shows "round_key (swap4 rk (4 * a) (4 * b)) r =
    (if r = a then round_key rk b else if r = b then round_key rk a else round_key rk r)"
proof -
  consider "r = a" "r \<noteq> b" | "r = b" "r \<noteq> a" | "r \<noteq> a" "r \<noteq> b" using assms by blast
  then show ?thesis
    using assms by cases (simp_all add: swap4_def round_key_def nth_list_update idx_ne)
qed

lemma round_key_swap_round_keys:
  assumes "4 * b + 4 \<le> length rk"
  shows "round_key (swap_round_keys (4 * a) (4 * b) rk) r =
    (if a \<le> r \<and> r \<le> b then round_key rk (a + b - r) else round_key rk r)"
  using assms
proof (induction "b - a" arbitrary: a b rk rule: less_induct)
  case less
  show ?case
  proof (cases "a < b")
    case True
    have "round_key (swap_round_keys (4 * a) (4 * b) rk) r =
        round_key (swap_round_keys (4 * Suc a) (4 * (b - 1)) (swap4 rk (4 * a) (4 * b))) r"
      using True by (subst swap_round_keys.simps) (simp add: algebra_simps)
    also have "\<dots> = (if Suc a \<le> r \<and> r \<le> b - 1 then round_key (swap4 rk (4 * a) (4 * b)) (Suc a + (b - 1) - r)
        else round_key (swap4 rk (4 * a) (4 * b)) r)"
      by (rule less.hyps) (use True less.prems in auto)
    also have "\<dots> = (if a \<le> r \<and> r \<le> b then round_key rk (a + b - r) else round_key rk r)"
      using True less.prems by (auto simp: round_key_swap4)
    finally show ?thesis .
  next
    case False
    then show ?thesis by (subst swap_round_keys.simps) (auto dest: antisym)
  qed
qed

definition mix_inner_keys :: "nat \<Rightarrow> u32 list \<Rightarrow> u32 list" where
  "mix_inner_keys N = fold (\<lambda>i r. fold (\<lambda>j r'. r'[4 * i + j := dec_mix (r' ! (4 * i + j))]) [0..<4] r) [1..<N]"

lemma mix_one_key:
  assumes "4 * i + 4 \<le> length rk"
  shows "round_key (fold (\<lambda>j r'. r'[4 * i + j := dec_mix (r' ! (4 * i + j))]) [0..<4] rk) r =
    (if r = i then map4 inv_mix_column (round_key rk r) else round_key rk r)"
proof -
  have u: "[0..<4] = [0, 1, 2, 3 :: nat]" by (simp add: upt_rec)
  show ?thesis
    using assms
    by (cases "r = i") (simp_all add: u round_key_def nth_list_update idx_ne dec_mix_eq)
qed

lemma length_fold_update:
  "(\<And>i r. length (f i r) = length r) \<Longrightarrow> length (fold f is rk) = length rk"
  by (induction "is" arbitrary: rk) auto

lemma length_mix_inner_keys [simp]: "length (mix_inner_keys N rk) = length rk"
  unfolding mix_inner_keys_def by (intro length_fold_update) simp

lemma round_key_mix_inner_keys:
  assumes "4 * N \<le> length rk"
  shows "round_key (mix_inner_keys N rk) r =
    (if 0 < r \<and> r < N then map4 inv_mix_column (round_key rk r) else round_key rk r)"
  using assms
proof (induction N arbitrary: r)
  case 0
  then show ?case by (simp add: mix_inner_keys_def)
next
  case (Suc N)
  show ?case
  proof (cases "N = 0")
    case True
    then show ?thesis by (auto simp: mix_inner_keys_def)
  next
    case False
    then have "mix_inner_keys (Suc N) rk =
        fold (\<lambda>j r'. r'[4 * N + j := dec_mix (r' ! (4 * N + j))]) [0..<4] (mix_inner_keys N rk)"
      by (simp add: mix_inner_keys_def)
    moreover have "4 * N + 4 \<le> length (mix_inner_keys N rk)" using Suc.prems by simp
    ultimately show ?thesis
      using Suc False by (simp only: mix_one_key) auto
  qed
qed
lemma setup_enc_shape:
  assumes "rijndaelKeySetupEnc key bits = Some (N, rk)"
  shows "N = 10 \<or> N = 12 \<or> N = 14" "length rk = 4 * N + 4"
proof -
  have l128: "length (ks128_step i r) = length r + 4" for i r
    by (simp add: ks128_step_def Let_def)
  have l192: "length (ks192_step i r) = length r + (if i = 7 then 4 else 6)" for i r
    by (simp add: ks192_step_def Let_def)
  have l256: "length (ks256_step i r) = length r + (if i = 6 then 4 else 8)" for i r
    by (simp add: ks256_step_def Let_def)
  have u: "[0..<10] = [0, 1, 2, 3, 4, 5, 6, 7, 8, 9 :: nat]" "[0..<8] = [0, 1, 2, 3, 4, 5, 6, 7 :: nat]"
    "[0..<7] = [0, 1, 2, 3, 4, 5, 6 :: nat]"
    by (simp_all add: upt_rec)
  show "N = 10 \<or> N = 12 \<or> N = 14" "length rk = 4 * N + 4"
    using assms by (auto simp: rijndaelKeySetupEnc_def u l128 l192 l256 split: if_splits)
qed

lemma setup_dec_keys:
  assumes "rijndaelKeySetupEnc key bits = Some (N, rk)"
  obtains drk where "rijndaelKeySetupDec key bits = Some (N, drk)" "length drk = length rk"
    "\<And>r. r \<le> N \<Longrightarrow> round_key drk r =
       (if 0 < r \<and> r < N then map4 inv_mix_column (round_key rk (N - r)) else round_key rk (N - r))"
proof
  let ?drk = "mix_inner_keys N (swap_round_keys 0 (4 * N) rk)"
  show "rijndaelKeySetupDec key bits = Some (N, ?drk)"
    using assms by (simp add: rijndaelKeySetupDec_def mix_inner_keys_def)
  show "length ?drk = length rk" by simp
  show "round_key ?drk r =
       (if 0 < r \<and> r < N then map4 inv_mix_column (round_key rk (N - r)) else round_key rk (N - r))"
    if "r \<le> N" for r
  proof -
    have "round_key (swap_round_keys 0 (4 * N) rk) r = round_key rk (N - r)"
      using that setup_enc_shape(2) [OF assms] round_key_swap_round_keys [of N rk 0 r] by simp
    moreover have "4 * N \<le> length (swap_round_keys 0 (4 * N) rk)"
      using setup_enc_shape(2) [OF assms] by simp
    ultimately show ?thesis by (simp only: round_key_mix_inner_keys)
  qed
qed

lemma rijndaelEncrypt_eq:
  assumes "N = 2 * m" "0 < m" "length rk = 4 * N + 4"
  shows "rijndaelEncrypt rk N b = state_bytes (xor4 (sub_shift (fold (enc_round rk) [1..<N]
    (xor4 (bytes_state b) (round_key rk 0)))) (round_key rk N))"
proof -
  have "round_key (drop (8 * m) rk) 0 = round_key rk N"
    using assms by (simp add: round_key_def algebra_simps)
  then show ?thesis
    using assms by (simp add: rijndaelEncrypt_def round_loop_fold [where rnd = enc_round, OF enc_round_drop] load_state_eq
        enc_last_eq)
qed

lemma rijndaelDecrypt_eq:
  assumes "N = 2 * m" "0 < m" "length rk = 4 * N + 4"
  shows "rijndaelDecrypt rk N b = state_bytes (xor4 (inv_sub_shift (fold (dec_round rk) [1..<N]
    (xor4 (bytes_state b) (round_key rk 0)))) (round_key rk N))"
proof -
  have "round_key (drop (8 * m) rk) 0 = round_key rk N"
    using assms by (simp add: round_key_def algebra_simps)
  then show ?thesis
    using assms by (simp add: rijndaelDecrypt_def round_loop_fold [where rnd = dec_round, OF dec_round_drop] load_state_eq
        dec_last_eq)
qed

lemma rijndael_inverse:
  assumes enc: "rijndaelKeySetupEnc key bits = Some (N, rk)"
    and dec: "rijndaelKeySetupDec key bits = Some (N', drk)"
    and b: "length b = 16"
  shows "N' = N" "rijndaelDecrypt drk N (rijndaelEncrypt rk N b) = b"
proof -
  have keys: "N' = N \<and> length drk = length rk \<and> (\<forall>r \<le> N. round_key drk r =
       (if 0 < r \<and> r < N then map4 inv_mix_column (round_key rk (N - r)) else round_key rk (N - r)))"
    using setup_dec_keys [OF enc] dec by (metis option.inject prod.inject)
  then show "N' = N" by simp
  obtain m where m: "N = 2 * m" "0 < m" "length rk = 4 * N + 4"
    using setup_enc_shape [OF enc] by (metis (no_types) even_numeral evenE gr0I mult_is_0 zero_neq_numeral)
  let ?init = "xor4 (bytes_state b) (round_key rk 0)"
  let ?fin = "fold (enc_round rk) [1..<N] ?init"
  have "fold (dec_round drk) [1..<Suc (N - 1)] (sub_shift ?fin) = sub_shift (fold (enc_round rk) [1..<N - (N - 1)] ?init)"
    by (rule dec_fold) (use keys m in auto)
  then have "fold (dec_round drk) [1..<N] (sub_shift ?fin) = sub_shift ?init"
    using m by simp
  moreover have "round_key drk 0 = round_key rk N" "round_key drk N = round_key rk 0"
    using keys by auto
  moreover have "length drk = 4 * N + 4" using keys m by simp
  ultimately show "rijndaelDecrypt drk N (rijndaelEncrypt rk N b) = b"
    using b by (simp only: rijndaelEncrypt_eq [OF m] rijndaelDecrypt_eq [OF m(1,2)]
        bytes_state_state_bytes xor4_cancel inv_sub_shift_sub_shift state_bytes_bytes_state)
qed

lemma length_aes_encrypt [simp]: "length (aes_encrypt ctx b) = 16"
  by (simp add: aes_encrypt_def rijndaelEncrypt_def enc_last_eq split: prod.split)

lemma length_aes_decrypt [simp]: "length (aes_decrypt ctx b) = 16"
  by (simp add: aes_decrypt_def rijndaelDecrypt_def dec_last_eq split: prod.split)

section \<open>AES as a block cipher\<close>

interpretation aes: invertible_cipher aes_encrypt_init aes_encrypt aes_decrypt_init aes_decrypt
proof unfold_locales
  fix key len
  show "aes_decrypt_init key len = None \<longleftrightarrow> aes_encrypt_init key len = None"
    by (auto simp: aes_decrypt_init_def aes_encrypt_init_def rijndaelKeySetupDec_def split: option.splits)
next
  fix key len e d b
  assume "aes_encrypt_init key len = Some e" "aes_decrypt_init key len = Some d" "length (b :: bytes) = 16"
  then show "aes_decrypt d (aes_encrypt e b) = b"
    by (auto simp: aes_decrypt_init_def aes_encrypt_init_def aes_decrypt_def
        aes_encrypt_def split: option.splits) (metis rijndael_inverse)
qed simp_all

lemma aes_encrypt_init_16 [simp]: "aes_encrypt_init key 16 \<noteq> None" "aes_encrypt_init key 24 \<noteq> None"
    "aes_encrypt_init key 32 \<noteq> None"
  by (simp_all add: aes_encrypt_init_def rijndaelKeySetupEnc_def)

lemma aes_encrypt_init_None: "aes_encrypt_init key len = None \<longleftrightarrow> len \<notin> {16, 24, 32}"
  by (auto simp: aes_encrypt_init_def rijndaelKeySetupEnc_def)

text \<open>
  C22: AES decryption undoes encryption: for every key length the code accepts (16, 24 or 32
  bytes; any other is refused by both set-up functions) and every 16-byte block, the
  decryption context built from the same key maps the ciphertext block back to the
  plaintext block, and encrypting a decrypted block restores it as well.
\<close>

theorem aes_decrypt_encrypt:
  assumes "aes_encrypt_init key len = Some e" "aes_decrypt_init key len = Some d" "length b = 16"
  shows "aes_decrypt d (aes_encrypt e b) = b \<and> aes_encrypt e (aes_decrypt d b) = b \<and> len \<in> {16, 24, 32}"
  using assms aes.dec_enc aes.enc_dec aes_encrypt_init_None [of key len] by auto

theorem aes_decrypt_encrypt_witness:
  "\<exists>e d. aes_encrypt_init (replicate 16 7) 16 = Some e \<and> aes_decrypt_init (replicate 16 7) 16 = Some d \<and>
     aes_decrypt d (aes_encrypt e (replicate 16 1)) = replicate 16 1"
proof -
  obtain e where e: "aes_encrypt_init (replicate 16 7) 16 = Some e"
    using aes_encrypt_init_16(1) by blast
  then obtain d where d: "aes_decrypt_init (replicate 16 7) 16 = Some d"
    using aes.d_init_iff [of "replicate 16 7" 16] by auto
  from aes_decrypt_encrypt [OF e d, of "replicate 16 1"] e d show ?thesis by auto
qed

end
