(* ===== verification/AesWrap.thy ===== *)
theory AesWrap
  imports Aes
begin

text \<open>
  AES Key Wrap (RFC 3394): \<open>aes_wrap\<close> of \<open>src/mininet-wifi/hostap/src/crypto/aes-wrap.c\<close> and
  \<open>aes_unwrap\<close> of \<open>aes-unwrap.c\<close>, which protect the group key in the 4-way handshake.
  The output buffers are byte lists: \<open>cipher\<close> holds \<open>A | R[1] | \<dots> | R[n]\<close>, and \<open>r\<close> walks it in
  steps of 8 bytes, so register \<open>R[i]\<close> is the slice at offset \<open>8 * i\<close>.  Each function returns
  the C return value together with the final contents of its output buffer.
\<close>

unbundle bit_operations_syntax

section \<open>Definitions\<close>

text \<open>\<open>a[7] ^= t; a[6] ^= t >> 8; a[5] ^= t >> 16; a[4] ^= t >> 24\<close> on the first 8 bytes.\<close>

definition xor_t :: "bytes \<Rightarrow> u32 \<Rightarrow> bytes" where
  "xor_t a t = a[7 := a ! 7 XOR ucast t, 6 := a ! 6 XOR ucast (drop_bit 8 t),
     5 := a ! 5 XOR ucast (drop_bit 16 t), 4 := a ! 4 XOR ucast (drop_bit 24 t)]"

definition wrap_step :: "(bytes \<Rightarrow> bytes) \<Rightarrow> nat \<Rightarrow> nat \<times> nat \<Rightarrow> bytes \<Rightarrow> bytes" where
  "wrap_step E n = (\<lambda>(j, i) cipher.
     let b = E (get_bytes cipher 0 8 @ get_bytes cipher (8 * i) 8);
         t = word_of_nat (n * j + i)
     in put_bytes (put_bytes cipher 0 (xor_t (take 8 b) t)) (8 * i) (drop 8 b))"

definition wrap_order :: "nat \<Rightarrow> (nat \<times> nat) list" where
  "wrap_order n = concat (map (\<lambda>j. map (Pair j) [1..<n + 1]) [0..<6])"

definition aes_wrap :: "bytes \<Rightarrow> nat \<Rightarrow> nat \<Rightarrow> bytes \<Rightarrow> int \<times> bytes" where
  "aes_wrap kek kek_len n plain =
     (let cipher = replicate 8 0xa6 @ take (8 * n) plain
      in case aes_encrypt_init kek kek_len of
           None \<Rightarrow> (- 1, cipher)
         | Some ctx \<Rightarrow> (0, fold (wrap_step (aes_encrypt ctx) n) (wrap_order n) cipher))"

definition unwrap_step :: "(bytes \<Rightarrow> bytes) \<Rightarrow> nat \<Rightarrow> nat \<times> nat \<Rightarrow> bytes \<times> bytes \<Rightarrow> bytes \<times> bytes" where
  "unwrap_step D n = (\<lambda>(j, i) (a, plain).
     let t = word_of_nat (n * j + i);
         b = D (xor_t a t @ get_bytes plain (8 * (i - 1)) 8)
     in (take 8 b, put_bytes plain (8 * (i - 1)) (drop 8 b)))"

definition unwrap_order :: "nat \<Rightarrow> (nat \<times> nat) list" where
  "unwrap_order n = concat (map (\<lambda>j. map (Pair j) (rev [1..<n + 1])) (rev [0..<6]))"

definition aes_unwrap :: "bytes \<Rightarrow> nat \<Rightarrow> nat \<Rightarrow> bytes \<Rightarrow> int \<times> bytes" where
  "aes_unwrap kek kek_len n cipher =
     (let plain = get_bytes cipher 8 (8 * n)
      in case aes_decrypt_init kek kek_len of
           None \<Rightarrow> (- 1, plain)
         | Some ctx \<Rightarrow>
             let (a, r) = fold (unwrap_step (aes_decrypt ctx) n) (unwrap_order n) (take 8 cipher, plain)
             in (if list_all (\<lambda>x. x = 0xa6) (take 8 a) then 0 else - 1, r))"

section \<open>One step backwards and forwards\<close>

lemma length_xor_t [simp, byte_simps]: "length (xor_t a t) = length a"
  by (simp add: xor_t_def)

lemma xor_t_xor_t [simp]: "8 \<le> length a \<Longrightarrow> xor_t (xor_t a t) t = a"
  by (rule nth_equalityI) (auto simp: xor_t_def nth_list_update xor.assoc)

text \<open>The unwrapping state \<open>(a, plain)\<close> of a wrapping buffer.\<close>

definition split_a :: "bytes \<Rightarrow> bytes \<times> bytes" where
  "split_a cipher = (take 8 cipher, drop 8 cipher)"

lemma split_a_append: "length a = 8 \<Longrightarrow> split_a (a @ p) = (a, p)"
  by (simp add: split_a_def)

lemma wrap_buffer:
  assumes "length c = 8 * n + 8" obtains a p where "c = a @ p" "length a = 8" "length p = 8 * n"
  using assms by (intro that [of "take 8 c" "drop 8 c"]) auto

lemma put_bytes_append_left: "length src = length a \<Longrightarrow> put_bytes (a @ p) 0 src = src @ p"
  by (simp add: put_bytes_def)

lemma put_bytes_append_right:
  "length a \<le> off \<Longrightarrow> put_bytes (a @ p) off src = a @ put_bytes p (off - length a) src"
  by (simp add: put_bytes_def)

lemma get_bytes_append_right: "length a \<le> off \<Longrightarrow> get_bytes (a @ p) off n = get_bytes p (off - length a) n"
  by (simp add: get_bytes_def)

lemma get_bytes_append_left: "length a = n \<Longrightarrow> get_bytes (a @ p) 0 n = a"
  by (simp add: get_bytes_def)

lemmas wrap_buffer_simps = put_bytes_append_left put_bytes_append_right get_bytes_append_right
  get_bytes_append_left

lemma wrap_step_split:
  assumes "length a = 8" "length p = 8 * n" "1 \<le> i" "i \<le> n" "\<And>b. length (E b) = 16"
  shows "wrap_step E n (j, i) (a @ p) =
    (let b = E (a @ get_bytes p (8 * (i - 1)) 8)
     in xor_t (take 8 b) (word_of_nat (n * j + i)) @ put_bytes p (8 * (i - 1)) (drop 8 b))"
proof -
  have "8 * i - 8 = 8 * (i - 1)" "8 \<le> 8 * i" using assms by auto
  then show ?thesis
    using assms by (simp add: wrap_step_def wrap_buffer_simps Let_def)
qed

lemma unwrap_step_eq:
  "unwrap_step D n (j, i) (a, p) =
    (let b = D (xor_t a (word_of_nat (n * j + i)) @ get_bytes p (8 * (i - 1)) 8)
     in (take 8 b, put_bytes p (8 * (i - 1)) (drop 8 b)))"
  by (simp add: unwrap_step_def Let_def)

text \<open>The loops meet every pair of round and register once, in opposite orders.\<close>

lemma unwrap_order_rev: "unwrap_order n = rev (wrap_order n)"
  by (simp add: unwrap_order_def wrap_order_def rev_concat rev_map o_def)

lemma wrap_order_bounds: "set (wrap_order n) \<subseteq> {(j, i). 1 \<le> i \<and> i \<le> n}"
  by (auto simp: wrap_order_def)

context invertible_cipher
begin

lemma slice_reg: "length p = 8 * n \<Longrightarrow> 1 \<le> i \<Longrightarrow> i \<le> n \<Longrightarrow> length (get_bytes p (8 * (i - Suc 0)) 8) = 8"
  by (cases i) (auto simp: byte_simps)

lemma put_reg: "length p = 8 * n \<Longrightarrow> 1 \<le> i \<Longrightarrow> i \<le> n \<Longrightarrow> length b = 8 \<Longrightarrow>
    length (put_bytes p (8 * (i - Suc 0)) b) = 8 * n"
  by (cases i) (auto simp: byte_simps)

lemma length_wrap_step:
  assumes "length c = 8 * n + 8" "1 \<le> i" "i \<le> n"
  shows "length (wrap_step (enc e) n (j, i) c) = 8 * n + 8"
  using assms(1)
  by (rule wrap_buffer) (use assms in \<open>simp add: wrap_step_split put_reg Let_def\<close>)

lemma unwrap_wrap_step:
  assumes ctx: "e_init key len = Some e" "d_init key len = Some d"
    and "length c = 8 * n + 8" "1 \<le> i" "i \<le> n"
  shows "unwrap_step (dec d) n (j, i) (split_a (wrap_step (enc e) n (j, i) c)) = split_a c"
proof -
  obtain a p where c: "c = a @ p" "length a = 8" "length p = 8 * n"
    using assms(3) by (rule wrap_buffer)
  let ?o = "8 * (i - 1)" let ?t = "word_of_nat (n * j + i) :: u32" let ?r = "get_bytes p ?o 8"
  let ?b = "enc e (a @ ?r)"
  have o: "?o + 8 \<le> length p" using assms c by (cases i) auto
  have "split_a (wrap_step (enc e) n (j, i) c) = (xor_t (take 8 ?b) ?t, put_bytes p ?o (drop 8 ?b))"
    using assms c by (simp add: wrap_step_split split_a_append Let_def)
  moreover have "dec d (take 8 ?b @ drop 8 ?b) = a @ ?r"
    using dec_enc [OF ctx, of "a @ ?r"] c o by (simp add: byte_simps)
  ultimately show ?thesis
    using c o by (simp add: unwrap_step_eq Let_def split_a_append byte_simps)
qed

lemma wrap_unwrap_step:
  assumes ctx: "e_init key len = Some e" "d_init key len = Some d"
    and ap: "length a = 8" "length p = 8 * n" "1 \<le> i" "i \<le> n"
    and s: "unwrap_step (dec d) n (j, i) (a, p) = (a', p')"
  shows "wrap_step (enc e) n (j, i) (a' @ p') = a @ p" "length a' = 8" "length p' = 8 * n"
proof -
  let ?o = "8 * (i - 1)" let ?t = "word_of_nat (n * j + i) :: u32" let ?r = "get_bytes p ?o 8"
  let ?b = "dec d (xor_t a ?t @ ?r)"
  have o: "?o + 8 \<le> length p" using ap by (cases i) auto
  have s': "a' = take 8 ?b" "p' = put_bytes p ?o (drop 8 ?b)"
    using s by (auto simp: unwrap_step_eq Let_def)
  show l: "length a' = 8" "length p' = 8 * n"
    using s' ap o by (simp_all add: byte_simps)
  have "enc e (take 8 ?b @ drop 8 ?b) = xor_t a ?t @ ?r"
    using enc_dec [OF ctx, of "xor_t a ?t @ ?r"] ap o by (simp add: byte_simps)
  then show "wrap_step (enc e) n (j, i) (a' @ p') = a @ p"
    using l ap o by (simp add: wrap_step_split Let_def s' byte_simps)
qed

lemma length_fold_wrap:
  "set xs \<subseteq> {(j, i). 1 \<le> i \<and> i \<le> n} \<Longrightarrow> length c = 8 * n + 8 \<Longrightarrow>
    length (fold (wrap_step (enc e) n) xs c) = 8 * n + 8"
  by (induction xs arbitrary: c) (auto simp: length_wrap_step)

lemma unwrap_fold_wrap:
  assumes "e_init key len = Some e" "d_init key len = Some d"
    and "set xs \<subseteq> {(j, i). 1 \<le> i \<and> i \<le> n}" "length c = 8 * n + 8"
  shows "fold (unwrap_step (dec d) n) (rev xs) (split_a (fold (wrap_step (enc e) n) xs c)) = split_a c"
  using assms(3,4)
proof (induction xs arbitrary: c)
  case Nil
  then show ?case by simp
next
  case (Cons x xs)
  obtain j i where x: "x = (j, i)" by fastforce
  then have b: "1 \<le> i" "i \<le> n" using Cons.prems by auto
  have "fold (unwrap_step (dec d) n) (rev xs) (split_a (fold (wrap_step (enc e) n) xs
      (wrap_step (enc e) n x c))) = split_a (wrap_step (enc e) n x c)"
    by (rule Cons.IH) (use Cons.prems b x in \<open>auto simp: length_wrap_step\<close>)
  then show ?case
    using unwrap_wrap_step [OF assms(1,2) Cons.prems(2) b] by (simp add: x)
qed

lemma wrap_fold_unwrap:
  assumes "e_init key len = Some e" "d_init key len = Some d"
    and "set xs \<subseteq> {(j, i). 1 \<le> i \<and> i \<le> n}" "length a = 8" "length p = 8 * n"
    and "fold (unwrap_step (dec d) n) (rev xs) (a, p) = (a', p')"
  shows "fold (wrap_step (enc e) n) xs (a' @ p') = a @ p \<and> length a' = 8 \<and> length p' = 8 * n"
  using assms(3-6)
proof (induction xs arbitrary: a' p')
  case Nil
  then show ?case by simp
next
  case (Cons x xs)
  obtain j i where x: "x = (j, i)" by fastforce
  then have b: "1 \<le> i" "i \<le> n" using Cons.prems by auto
  obtain a1 p1 where s: "fold (unwrap_step (dec d) n) (rev xs) (a, p) = (a1, p1)" by fastforce
  with Cons have IH: "fold (wrap_step (enc e) n) xs (a1 @ p1) = a @ p" "length a1 = 8" "length p1 = 8 * n"
    by auto
  have "unwrap_step (dec d) n (j, i) (a1, p1) = (a', p')"
    using Cons.prems(4) s x by simp
  from wrap_unwrap_step [OF assms(1,2) IH(2,3) b this] IH(1) show ?case
    by (simp add: x)
qed

end

section \<open>The wrapped key\<close>

lemma aes_unwrap_wrap_ctx:
  assumes "aes_encrypt_init kek len = Some e" "aes_decrypt_init kek len = Some d" "length plain = 8 * n"
  shows "aes_unwrap kek len n (snd (aes_wrap kek len n plain)) = (0, plain)"
proof -
  let ?c = "replicate 8 0xa6 @ plain :: bytes"
  let ?w = "fold (wrap_step (aes_encrypt e) n) (wrap_order n) ?c"
  have w: "length ?w = 8 * n + 8"
    by (rule aes.length_fold_wrap) (use assms wrap_order_bounds in auto)
  have "fold (unwrap_step (aes_decrypt d) n) (unwrap_order n) (split_a ?w) = split_a ?c"
    unfolding unwrap_order_rev
    by (rule aes.unwrap_fold_wrap) (use assms wrap_order_bounds in auto)
  then have "fold (unwrap_step (aes_decrypt d) n) (unwrap_order n) (take 8 ?w, get_bytes ?w 8 (8 * n)) =
      (replicate 8 0xa6, plain)"
    using w by (simp add: split_a_append) (simp add: split_a_def get_bytes_def)
  then show ?thesis
    using assms by (simp add: aes_unwrap_def aes_wrap_def list_all_iff)
qed

lemma aes_wrap_ok:
  assumes "len \<in> {16, 24, 32}" "length plain = 8 * n"
  obtains c where "aes_wrap kek len n plain = (0, c)" "length c = 8 * n + 8"
proof -
  obtain e where e: "aes_encrypt_init kek len = Some e"
    using assms(1) aes_encrypt_init_None [of kek len] by auto
  have "length (fold (wrap_step (aes_encrypt e) n) (wrap_order n) (replicate 8 0xa6 @ plain)) = 8 * n + 8"
    by (rule aes.length_fold_wrap) (use assms wrap_order_bounds in auto)
  with that e assms(2) show ?thesis by (simp add: aes_wrap_def)
qed

text \<open>
  C23: Key wrap round trip and integrity: for a key-encryption key of 16, 24 or 32 bytes,
  \<open>aes_unwrap\<close> succeeds with plaintext \<open>plain\<close> exactly on the ciphertext \<open>aes_wrap\<close> produces for
  \<open>plain\<close>; every other ciphertext of the right length is either refused or belongs to
  another plaintext.
\<close>

theorem aes_unwrap_iff_wrap:
  assumes "len \<in> {16, 24, 32}" "length cipher = 8 * n + 8" "length plain = 8 * n"
  shows "aes_unwrap kek len n cipher = (0, plain) \<longleftrightarrow> aes_wrap kek len n plain = (0, cipher)"
proof -
  obtain e where e: "aes_encrypt_init kek len = Some e"
    using assms(1) aes_encrypt_init_None [of kek len] by auto
  then obtain d where d: "aes_decrypt_init kek len = Some d"
    using aes.d_init_iff [of kek len] by auto
  show ?thesis
  proof
    assume u: "aes_unwrap kek len n cipher = (0, plain)"
    obtain a p where ap: "fold (unwrap_step (aes_decrypt d) n) (rev (wrap_order n)) (take 8 cipher, drop 8 cipher) = (a, p)"
      by fastforce
    have w: "fold (wrap_step (aes_encrypt e) n) (wrap_order n) (a @ p) = take 8 cipher @ drop 8 cipher \<and>
        length a = 8 \<and> length p = 8 * n"
      by (rule aes.wrap_fold_unwrap [OF e d _ _ _ ap]) (use wrap_order_bounds assms in auto)
    have "get_bytes cipher 8 (8 * n) = drop 8 cipher" using assms by (simp add: get_bytes_def)
    with u ap d have "list_all (\<lambda>x. x = 0xa6) (take 8 a)" "p = plain"
      by (auto simp: aes_unwrap_def unwrap_order_rev split: if_splits)
    moreover from this w have "a = replicate 8 0xa6"
      by (intro replicate_eqI) (auto simp: list_all_iff)
    ultimately show "aes_wrap kek len n plain = (0, cipher)"
      using w e assms by (simp add: aes_wrap_def)
  next
    assume "aes_wrap kek len n plain = (0, cipher)"
    then show "aes_unwrap kek len n cipher = (0, plain)"
      using aes_unwrap_wrap_ctx [OF e d assms(3)] by simp
  qed
qed

theorem aes_unwrap_iff_wrap_witness:
  "\<exists>c. aes_wrap (replicate 16 3) 16 2 (replicate 16 1) = (0, c) \<and>
     aes_unwrap (replicate 16 3) 16 2 c = (0, replicate 16 1)"
proof -
  obtain c where c: "aes_wrap (replicate 16 3) 16 2 (replicate 16 1) = (0, c)" "length c = 8 * 2 + 8"
    by (rule aes_wrap_ok [of 16 "replicate 16 1" 2 "replicate 16 3"]) auto
  with aes_unwrap_iff_wrap [of 16 c 2 "replicate 16 1" "replicate 16 3"] show ?thesis by auto
qed

end
