(* ===== verification/AesModes.thy ===== *)
theory AesModes
  imports Aes
begin

text \<open>
  Counter mode (\<open>aes-ctr.c\<close>) and CBC (\<open>aes-cbc.c\<close>) of \<open>src/mininet-wifi/hostap/src/crypto\<close>.
  Both work in place on \<open>data\<close>; each function returns the C return value and the final
  contents of \<open>data\<close>.
\<close>

unbundle bit_operations_syntax

section \<open>Counter mode\<close>

text \<open>
  \<open>for (i = AES_BLOCK_SIZE - 1; i >= 0; i--) { counter[i]++; if (counter[i]) break; }\<close>:
  \<open>inc_le\<close> runs over the reversed counter.
\<close>

fun inc_le :: "bytes \<Rightarrow> bytes" where
  "inc_le [] = []"
| "inc_le (c # cs) = (let c' = c + 1 in if c' \<noteq> 0 then c' # cs else c' # inc_le cs)"

definition inc_counter :: "bytes \<Rightarrow> bytes" where
  "inc_counter counter = rev (inc_le (rev counter))"

function ctr_loop :: "(bytes \<Rightarrow> bytes) \<Rightarrow> bytes \<Rightarrow> bytes \<Rightarrow> bytes" where
  "ctr_loop E counter data =
     (if data = [] then []
      else let buf = E counter;
               len = (if length data < 16 then length data else 16)
           in xor_bytes (take len data) (take len buf) @
              ctr_loop E (inc_counter counter) (drop len data))"
  by pat_completeness auto
termination
  by (relation "measure (\<lambda>(E, counter, data). length data)") auto

declare ctr_loop.simps [simp del]

definition aes_ctr_encrypt :: "bytes \<Rightarrow> nat \<Rightarrow> bytes \<Rightarrow> bytes \<Rightarrow> int \<times> bytes" where
  "aes_ctr_encrypt key key_len nonce data =
     (case aes_encrypt_init key key_len of
        None \<Rightarrow> (- 1, data)
      | Some ctx \<Rightarrow> (0, ctr_loop (aes_encrypt ctx) (take 16 nonce) data))"

definition aes_128_ctr_encrypt :: "bytes \<Rightarrow> bytes \<Rightarrow> bytes \<Rightarrow> int \<times> bytes" where
  "aes_128_ctr_encrypt key nonce data = aes_ctr_encrypt key 16 nonce data"

section \<open>Cipher block chaining\<close>

text \<open>The loops over \<open>blocks = data_len / AES_BLOCK_SIZE\<close>; bytes after the last whole block stay as they are.\<close>

fun cbc_encrypt_loop :: "(bytes \<Rightarrow> bytes) \<Rightarrow> nat \<Rightarrow> bytes \<Rightarrow> bytes \<Rightarrow> bytes" where
  "cbc_encrypt_loop E 0 cbc data = data"
| "cbc_encrypt_loop E (Suc blocks) cbc data =
     (let cbc' = E (xor_bytes cbc (take 16 data))
      in cbc' @ cbc_encrypt_loop E blocks cbc' (drop 16 data))"

definition aes_128_cbc_encrypt :: "bytes \<Rightarrow> bytes \<Rightarrow> bytes \<Rightarrow> int \<times> bytes" where
  "aes_128_cbc_encrypt key iv data =
     (case aes_encrypt_init key 16 of
        None \<Rightarrow> (- 1, data)
      | Some ctx \<Rightarrow> (0, cbc_encrypt_loop (aes_encrypt ctx) (length data div 16) (take 16 iv) data))"

fun cbc_decrypt_loop :: "(bytes \<Rightarrow> bytes) \<Rightarrow> nat \<Rightarrow> bytes \<Rightarrow> bytes \<Rightarrow> bytes" where
  "cbc_decrypt_loop D 0 cbc data = data"
| "cbc_decrypt_loop D (Suc blocks) cbc data =
     (let tmp = take 16 data
      in xor_bytes (D tmp) cbc @ cbc_decrypt_loop D blocks tmp (drop 16 data))"

definition aes_128_cbc_decrypt :: "bytes \<Rightarrow> bytes \<Rightarrow> bytes \<Rightarrow> int \<times> bytes" where
  "aes_128_cbc_decrypt key iv data =
     (case aes_decrypt_init key 16 of
        None \<Rightarrow> (- 1, data)
      | Some ctx \<Rightarrow> (0, cbc_decrypt_loop (aes_decrypt ctx) (length data div 16) (take 16 iv) data))"

section \<open>The counter\<close>

lemma length_inc_le [simp]: "length (inc_le cs) = length cs"
  by (induction cs) (auto simp: Let_def)

lemma length_inc_counter [simp]: "length (inc_counter c) = length c"
  by (simp add: inc_counter_def)

lemma le_nat_inc_le: "le_nat (inc_le cs) = (le_nat cs + 1) mod 256 ^ length cs"
proof (induction cs)
  case Nil
  then show ?case by simp
next
  case (Cons c cs)
  show ?case
  proof (cases "c + 1 = 0")
    case True
    then have "c = - 1" by (simp flip: eq_neg_iff_add_eq_0)
    moreover have "(- 1 :: u8) = 255" by simp
    ultimately have c: "unat c = 255" by simp
    have "(le_nat (c # cs) + 1) mod 256 ^ length (c # cs) = (256 * (le_nat cs + 1)) mod (256 * 256 ^ length cs)"
      by (simp add: c)
    also have "\<dots> = 256 * le_nat (inc_le cs)"
      by (simp only: mult_mod_right Cons)
    finally show ?thesis using True by (simp add: Let_def)
  next
    case False
    then have "unat (c + 1) = unat c + 1"
      using unatSuc [of c] by (simp add: add.commute)
    moreover have "le_nat ((c + 1) # cs) < 256 ^ length ((c + 1) # cs)" by (rule le_nat_less)
    ultimately show ?thesis using False by (simp add: Let_def)
  qed
qed

lemma be_nat_inc_counter: "be_nat (inc_counter c) = (be_nat c + 1) mod 256 ^ length c"
  by (simp add: inc_counter_def be_nat_le_nat le_nat_inc_le)

lemma length_inc_pow [simp]: "length ((inc_counter ^^ k) c) = length c"
  by (induction k) auto

lemma be_nat_inc_pow: "be_nat ((inc_counter ^^ k) c) = (be_nat c + k) mod 256 ^ length c"
proof (induction k)
  case 0
  then show ?case using le_nat_less [of "rev c"] by (simp add: be_nat_le_nat)
next
  case (Suc k)
  then show ?case by (simp add: be_nat_inc_counter mod_simps)
qed

context block_cipher
begin

lemma length_ctr_loop [simp]: "length (ctr_loop (enc e) c data) = length data"
proof (induction "enc e" c data rule: ctr_loop.induct)
  case (1 c data)
  then show ?case by (subst ctr_loop.simps) (auto simp: Let_def byte_simps)
qed

text \<open>Byte \<open>i\<close> is masked by byte \<open>i mod 16\<close> of the block of counter \<open>c + i div 16\<close>.\<close>

lemma nth_ctr_loop:
  "i < length data \<Longrightarrow> ctr_loop (enc e) c data ! i = data ! i XOR enc e ((inc_counter ^^ (i div 16)) c) ! (i mod 16)"
proof (induction "enc e" c data arbitrary: i rule: ctr_loop.induct)
  case (1 c data)
  let ?len = "if length data < 16 then length data else 16"
  have ne: "data \<noteq> []" using 1(2) by auto
  show ?case
  proof (cases "i < ?len")
    case True
    then have "i < 16" by (auto split: if_splits)
    then show ?thesis
      using ne True by (subst ctr_loop.simps) (auto simp: Let_def nth_append byte_simps)
  next
    case False
    then have len: "?len = 16" "16 \<le> i" using 1(2) by (auto split: if_splits)
    have i: "i div 16 = Suc ((i - 16) div 16)" "(i - 16) mod 16 = i mod 16"
      using len(2) by (simp_all add: le_div_geq le_mod_geq)
    have "ctr_loop (enc e) c data ! i = ctr_loop (enc e) (inc_counter c) (drop 16 data) ! (i - 16)"
      using ne len 1(2) by (subst ctr_loop.simps) (auto simp: Let_def nth_append byte_simps)
    also have "\<dots> = drop 16 data ! (i - 16) XOR enc e ((inc_counter ^^ ((i - 16) div 16)) (inc_counter c)) ! ((i - 16) mod 16)"
      using 1(1) [OF ne refl refl, of "i - 16"] len 1(2) by simp
    finally show ?thesis using len 1(2) i by (simp add: funpow_swap1)
  qed
qed

lemma ctr_loop_involution: "ctr_loop (enc e) c (ctr_loop (enc e) c data) = data"
  by (rule nth_equalityI) (simp_all add: nth_ctr_loop xor.assoc)

end

context invertible_cipher
begin

lemma cbc_inverse:
  assumes "e_init key len = Some e" "d_init key len = Some d"
    and "length iv = 16" "16 * blocks \<le> length data"
  shows "cbc_decrypt_loop (dec d) blocks iv (cbc_encrypt_loop (enc e) blocks iv data) = data"
  using assms(3,4)
proof (induction blocks arbitrary: iv data)
  case 0
  then show ?case by simp
next
  case (Suc blocks)
  then show ?case
    using dec_enc [OF assms(1,2), of "xor_bytes iv (take 16 data)"]
    by (simp add: Let_def byte_simps xor_bytes_commute [of iv])
qed

lemma length_cbc_encrypt_loop:
  "16 * blocks \<le> length data \<Longrightarrow> length (cbc_encrypt_loop (enc e) blocks iv data) = length data"
  by (induction blocks arbitrary: iv data) (auto simp: Let_def byte_simps)

end

lemma aes_ctr_ok:
  assumes "len \<in> {16, 24, 32}"
  obtains out where "aes_ctr_encrypt key len nonce data = (0, out)" "length out = length data"
    "aes_ctr_encrypt key len nonce out = (0, data)"
proof -
  obtain ctx where "aes_encrypt_init key len = Some ctx"
    using assms aes_encrypt_init_None [of key len] by auto
  then show ?thesis
    by (intro that [of "ctr_loop (aes_encrypt ctx) (take 16 nonce) data"])
      (simp_all add: aes_ctr_encrypt_def aes.ctr_loop_involution)
qed

lemma ctr_128_ok:
  obtains out where "aes_128_ctr_encrypt key nonce data = (0, out)" "length out = length data"
    "aes_128_ctr_encrypt key nonce out = (0, data)"
  unfolding aes_128_ctr_encrypt_def by (rule aes_ctr_ok [of 16]) auto

text \<open>
  Counter mode is its own inverse and uses the counter as a 128-bit big-endian number:
  encrypting twice with the same key and nonce restores the data, and byte \<open>i\<close> of the result
  is byte \<open>i\<close> of the data masked with byte \<open>i mod 16\<close> of the encryption of a counter block
  whose value is the nonce plus \<open>i div 16\<close>, modulo \<open>2 ^ 128\<close>.
\<close>

theorem aes_ctr_correct:
  assumes "aes_encrypt_init key key_len = Some ctx" "length nonce = 16"
    and "aes_ctr_encrypt key key_len nonce data = (ret, out)"
  shows "ret = 0 \<and> length out = length data \<and> aes_ctr_encrypt key key_len nonce out = (0, data) \<and>
    (\<forall>i < length data. \<exists>block. length block = 16 \<and> be_nat block = (be_nat nonce + i div 16) mod 2 ^ 128 \<and>
       out ! i = data ! i XOR aes_encrypt ctx block ! (i mod 16))"
proof -
  have out: "ret = 0" "out = ctr_loop (aes_encrypt ctx) nonce data"
    using assms by (auto simp: aes_ctr_encrypt_def)
  have "\<exists>block. length block = 16 \<and> be_nat block = (be_nat nonce + i div 16) mod 2 ^ 128 \<and>
       out ! i = data ! i XOR aes_encrypt ctx block ! (i mod 16)" if "i < length data" for i
    by (rule exI [of _ "(inc_counter ^^ (i div 16)) nonce"])
      (use that assms out in \<open>simp add: be_nat_inc_pow aes.nth_ctr_loop\<close>)
  then show ?thesis
    using out assms by (simp add: aes_ctr_encrypt_def aes.ctr_loop_involution)
qed

theorem aes_ctr_correct_witness:
  "\<exists>ctx out. aes_encrypt_init (replicate 32 9) 32 = Some ctx \<and>
     aes_ctr_encrypt (replicate 32 9) 32 (replicate 16 255) (replicate 20 1) = (0, out) \<and>
     aes_ctr_encrypt (replicate 32 9) 32 (replicate 16 255) out = (0, replicate 20 1)"
proof -
  obtain ctx where c: "aes_encrypt_init (replicate 32 9) 32 = Some ctx"
    using aes_encrypt_init_16(3) by blast
  obtain ret out where o: "aes_ctr_encrypt (replicate 32 9) 32 (replicate 16 255) (replicate 20 1) = (ret, out)"
    by fastforce
  from aes_ctr_correct [OF c _ o] c o show ?thesis by auto
qed

text \<open>
  CBC decryption undoes CBC encryption under the same key and initialization vector for
  data of any length; the bytes after the last whole block, which neither function touches,
  are restored as well.
\<close>

theorem aes_128_cbc_roundtrip:
  assumes "length iv = 16" "aes_128_cbc_encrypt key iv data = (ret, out)"
  shows "ret = 0 \<and> length out = length data \<and> aes_128_cbc_decrypt key iv out = (0, data)"
proof -
  obtain e where e: "aes_encrypt_init key 16 = Some e"
    using aes_encrypt_init_16(1) by blast
  then obtain d where d: "aes_decrypt_init key 16 = Some d"
    using aes.d_init_iff [of key 16] by auto
  from assms(2) e have out: "ret = 0" "out = cbc_encrypt_loop (aes_encrypt e) (length data div 16) (take 16 iv) data"
    by (auto simp: aes_128_cbc_encrypt_def)
  moreover have "16 * (length data div 16) \<le> length data" by simp
  ultimately show ?thesis
    using e d assms(1) by (simp add: aes_128_cbc_decrypt_def aes.length_cbc_encrypt_loop aes.cbc_inverse [OF e d])
qed

theorem aes_128_cbc_roundtrip_witness:
  "\<exists>out. aes_128_cbc_encrypt (replicate 16 2) (replicate 16 5) (replicate 35 1) = (0, out) \<and>
     aes_128_cbc_decrypt (replicate 16 2) (replicate 16 5) out = (0, replicate 35 1)"
proof -
  obtain ret out where o: "aes_128_cbc_encrypt (replicate 16 2) (replicate 16 5) (replicate 35 1) = (ret, out)"
    by fastforce
  from aes_128_cbc_roundtrip [OF _ o] o show ?thesis by auto
qed

end
