(* ===== verification/Omac1.thy ===== *)
theory Omac1
  imports Aes
begin

text \<open>
  One-key CBC MAC (CMAC): \<open>omac1_aes_vector\<close> and its wrappers of
  \<open>src/mininet-wifi/hostap/src/crypto/aes-omac1.c\<close>.  The message is a vector of elements and
  the code walks it with the pointers \<open>pos\<close> and \<open>end\<close>; the cursor of the model is the rest of
  the current element and the elements after it.  Reading at the end of an element is the
  outcome \<open>Fault\<close>.  The result is compared with CMAC of the concatenated message.
\<close>

unbundle bit_operations_syntax

section \<open>Definitions\<close>

definition gf_mulx :: "bytes \<Rightarrow> bytes" where
  "gf_mulx pad =
     (let carry = pad ! 0 AND 0x80;
          pad1 = map (\<lambda>i. push_bit 1 (pad ! i) OR drop_bit 7 (pad ! (i + 1))) [0..<15] @
            [push_bit 1 (pad ! 15)]
      in if carry \<noteq> 0 then pad1[15 := pad1 ! 15 XOR 0x87] else pad1)"

type_synonym cursor = "bytes \<times> bytes list"

text \<open>
  \<open>*pos++; if (pos >= end) { if (stop) break; e++; pos = addr[e]; end = pos + len[e]; }\<close>,
  \<open>None\<close> when it reads at \<open>pos = end\<close> or takes \<open>addr[e]\<close> past the last element.
\<close>

definition next_byte :: "bool \<Rightarrow> cursor \<Rightarrow> (u8 \<times> cursor) option" where
  "next_byte stop cur =
     (case cur of
        ([], later) \<Rightarrow> None
      | (x # rest, later) \<Rightarrow>
          if rest \<noteq> [] \<or> stop then Some (x, (rest, later))
          else (case later of [] \<Rightarrow> None | y # ys \<Rightarrow> Some (x, (y, ys))))"

text \<open>
  The inner loop from index \<open>i\<close> for \<open>m\<close> more bytes; \<open>final\<close> says that the message ends with
  this block (\<open>left == AES_BLOCK_SIZE\<close> in the first loop, always in the second one).
\<close>

fun absorb :: "nat \<Rightarrow> nat \<Rightarrow> bool \<Rightarrow> bytes \<Rightarrow> cursor \<Rightarrow> (bytes \<times> cursor) option" where
  "absorb 0 i final cbc cur = Some (cbc, cur)"
| "absorb (Suc m) i final cbc cur =
     (case next_byte (m = 0 \<and> final) cur of
        None \<Rightarrow> None
      | Some (x, cur') \<Rightarrow> absorb m (Suc i) final (cbc[i := cbc ! i XOR x]) cur')"

function omac_blocks :: "(bytes \<Rightarrow> bytes) \<Rightarrow> nat \<Rightarrow> bytes \<Rightarrow> cursor \<Rightarrow> (nat \<times> bytes \<times> cursor) option" where
  "omac_blocks E left cbc cur =
     (if 16 \<le> left then
        (case absorb 16 0 (left = 16) cbc cur of
           None \<Rightarrow> None
         | Some (cbc', cur') \<Rightarrow>
             omac_blocks E (left - 16) (if left > 16 then E cbc' else cbc') cur')
      else Some (left, cbc, cur))"
  by pat_completeness auto
termination
  by (relation "measure (\<lambda>(E, left, cbc, cur). left)") auto

declare omac_blocks.simps [simp del]

text \<open>\<open>addr\<close> is read at index 0 before the loop, so an empty vector is out of bounds.\<close>

definition omac1_vector_ctx :: "(bytes \<Rightarrow> bytes) \<Rightarrow> bytes list \<Rightarrow> bytes outcome" where
  "omac1_vector_ctx E addr =
     (let total_len = length (concat addr) in
      case addr of
        [] \<Rightarrow> Fault
      | a0 # rest \<Rightarrow>
          (case omac_blocks E total_len (replicate 16 0) (a0, rest) of
             None \<Rightarrow> Fault
           | Some (left, cbc, cur) \<Rightarrow>
               let pad = gf_mulx (E (replicate 16 0)) in
               if left \<noteq> 0 \<or> total_len = 0 then
                 (case absorb left 0 True cbc cur of
                    None \<Rightarrow> Fault
                  | Some (cbc', cur') \<Rightarrow>
                      let cbc'' = cbc'[left := cbc' ! left XOR 0x80]
                      in Ok (E (xor_bytes (gf_mulx pad) cbc'')))
               else Ok (E (xor_bytes pad cbc))))"

definition omac1_aes_vector :: "bytes \<Rightarrow> nat \<Rightarrow> bytes list \<Rightarrow> bytes outcome" where
  "omac1_aes_vector key key_len addr =
     (case aes_encrypt_init key key_len of
        None \<Rightarrow> Ret (- 1)
      | Some ctx \<Rightarrow> omac1_vector_ctx (aes_encrypt ctx) addr)"

definition omac1_aes_128_vector :: "bytes \<Rightarrow> bytes list \<Rightarrow> bytes outcome" where
  "omac1_aes_128_vector key addr = omac1_aes_vector key 16 addr"

definition omac1_aes_128 :: "bytes \<Rightarrow> bytes \<Rightarrow> bytes outcome" where
  "omac1_aes_128 key data = omac1_aes_128_vector key [data]"

definition omac1_aes_256 :: "bytes \<Rightarrow> bytes \<Rightarrow> bytes outcome" where
  "omac1_aes_256 key data = omac1_aes_vector key 32 [data]"

section \<open>CMAC of a contiguous message\<close>

text \<open>
  The reference: chain all blocks but the last, then mask the last one with the first
  subkey when it is full and with the second one after \<open>10*\<close> padding when it is not.
\<close>

function cmac_chain :: "(bytes \<Rightarrow> bytes) \<Rightarrow> bytes \<Rightarrow> bytes \<Rightarrow> bytes \<times> bytes" where
  "cmac_chain E x msg =
     (if 16 < length msg then cmac_chain E (E (xor_bytes x (take 16 msg))) (drop 16 msg) else (x, msg))"
  by pat_completeness auto
termination
  by (relation "measure (\<lambda>(E, x, msg). length msg)") auto

declare cmac_chain.simps [simp del]

definition cmac_pad :: "bytes \<Rightarrow> bytes" where
  "cmac_pad m = m @ 0x80 # replicate (15 - length m) 0"

definition cmac :: "(bytes \<Rightarrow> bytes) \<Rightarrow> bytes \<Rightarrow> bytes" where
  "cmac E msg =
     (let k1 = gf_mulx (E (replicate 16 0)); (x, m) = cmac_chain E (replicate 16 0) msg
      in if length m = 16 then E (xor_bytes k1 (xor_bytes x m))
         else E (xor_bytes (gf_mulx k1) (xor_bytes x (cmac_pad m))))"

section \<open>Walking the vector\<close>

text \<open>
  A vector is readable when no empty element comes before a non-empty one; the bytes left
  to read are those of the cursor.
\<close>

fun readable :: "bytes list \<Rightarrow> bool" where
  "readable [] = True"
| "readable (a # as) = (if a = [] then concat as = [] else readable as)"

definition rest_bytes :: "cursor \<Rightarrow> bytes" where
  "rest_bytes cur = fst cur @ concat (snd cur)"

definition cursor_ok :: "cursor \<Rightarrow> bool" where
  "cursor_ok cur = readable (fst cur # snd cur)"

lemma readable_concat: "readable (a # as) \<Longrightarrow> a = [] \<Longrightarrow> concat as = []"
  by simp

lemma next_byte_ok:
  assumes "cursor_ok cur" "rest_bytes cur \<noteq> []" "stop \<longleftrightarrow> length (rest_bytes cur) = 1"
  obtains cur' where "next_byte stop cur = Some (hd (rest_bytes cur), cur')" "cursor_ok cur'"
    "rest_bytes cur' = tl (rest_bytes cur)"
proof -
  obtain c later where cur: "cur = (c, later)" by fastforce
  then obtain x rest where c: "c = x # rest"
    using assms by (cases c) (auto simp: cursor_ok_def rest_bytes_def)
  show ?thesis
  proof (cases "rest \<noteq> [] \<or> stop")
    case True
    with assms cur c show ?thesis
      by (intro that [of "(rest, later)"]) (auto simp: next_byte_def cursor_ok_def rest_bytes_def)
  next
    case False
    with assms cur c obtain y ys where "later = y # ys"
      by (cases later) (auto simp: rest_bytes_def)
    with False assms cur c show ?thesis
      by (intro that [of "(y, ys)"]) (auto simp: next_byte_def cursor_ok_def rest_bytes_def)
  qed
qed

lemma absorb_ok:
  assumes "cursor_ok cur" "m \<le> length (rest_bytes cur)" "final \<longleftrightarrow> length (rest_bytes cur) = m"
    and "i + m \<le> length cbc"
  obtains cur' where "cursor_ok cur'" "rest_bytes cur' = drop m (rest_bytes cur)"
    "absorb m i final cbc cur =
       Some (put_bytes cbc i (xor_bytes (get_bytes cbc i m) (take m (rest_bytes cur))), cur')"
  using assms
proof (induction m arbitrary: i cbc cur thesis)
  case 0
  show ?case by (rule "0.prems"(1)) (use "0.prems" in \<open>auto simp: put_bytes_def\<close>)
next
  case (Suc m)
  let ?stop = "m = 0 \<and> final"
  have stop: "?stop \<longleftrightarrow> length (rest_bytes cur) = 1" using Suc.prems by auto
  have ne: "rest_bytes cur \<noteq> []" using Suc.prems by auto
  obtain cur1 where n: "next_byte ?stop cur = Some (hd (rest_bytes cur), cur1)" "cursor_ok cur1"
    "rest_bytes cur1 = tl (rest_bytes cur)"
    using next_byte_ok [OF Suc.prems(2) ne stop] by blast
  let ?cbc = "cbc[i := cbc ! i XOR hd (rest_bytes cur)]"
  have fin: "final \<longleftrightarrow> length (rest_bytes cur1) = m" using Suc.prems n ne by auto
  obtain cur' where c': "cursor_ok cur'" "rest_bytes cur' = drop m (rest_bytes cur1)"
    "absorb m (Suc i) final ?cbc cur1 =
      Some (put_bytes ?cbc (Suc i) (xor_bytes (get_bytes ?cbc (Suc i) m) (take m (rest_bytes cur1))), cur')"
    by (rule Suc.IH [OF _ n(2) _ fin, of "Suc i" ?cbc]) (use Suc.prems n in auto)
  obtain r rs where r: "rest_bytes cur = r # rs" using ne by (cases "rest_bytes cur") auto
  have "put_bytes ?cbc (Suc i) (xor_bytes (get_bytes ?cbc (Suc i) m) (take m rs)) =
      put_bytes cbc i (xor_bytes (get_bytes cbc i (Suc m)) (take (Suc m) (r # rs)))"
  proof -
    have "i < length cbc" using Suc.prems by simp
    then obtain pre x post where "cbc = pre @ x # post" "length pre = i"
      using id_take_nth_drop [of i cbc] by (intro that [of "take i cbc"]) auto
    then show ?thesis
      by (auto simp: put_bytes_def get_bytes_def xor_bytes_def r)
  qed
  then show ?case
    using Suc.prems(1) [OF c'(1)] n c' r by simp
qed

lemma next_byte_bad:
  assumes "\<not> cursor_ok cur" "stop \<longrightarrow> length (rest_bytes cur) = 1" "next_byte stop cur = Some (x, cur')"
  shows "\<not> cursor_ok cur' \<and> length (rest_bytes cur') + 1 = length (rest_bytes cur)"
proof -
  obtain c later where cur: "cur = (c, later)" by fastforce
  then obtain rest where c: "c = x # rest"
    using assms(3) by (cases c) (auto simp: next_byte_def split: if_splits list.splits)
  have ns: "\<not> stop"
  proof
    assume stop
    with assms(2) cur c have "rest = [] \<and> concat later = []" by (auto simp: rest_bytes_def)
    moreover have "concat as = [] \<Longrightarrow> readable as" for as by (induction as) auto
    ultimately show False using assms(1) cur c by (auto simp: cursor_ok_def)
  qed
  show ?thesis
    using assms(1,3) cur c ns by (auto simp: next_byte_def cursor_ok_def rest_bytes_def split: if_splits list.splits)
qed

lemma absorb_bad:
  assumes "\<not> cursor_ok cur" "final \<longrightarrow> m = length (rest_bytes cur)" "absorb m i final cbc cur = Some (cbc', cur')"
  shows "\<not> cursor_ok cur' \<and> length (rest_bytes cur') + m = length (rest_bytes cur)"
  using assms
proof (induction m arbitrary: i cbc cur)
  case 0
  then show ?case by simp
next
  case (Suc m)
  obtain x cur1 where n: "next_byte (m = 0 \<and> final) cur = Some (x, cur1)"
      "absorb m (Suc i) final (cbc[i := cbc ! i XOR x]) cur1 = Some (cbc', cur')"
    using Suc.prems(3) by (auto split: option.splits)
  have b: "\<not> cursor_ok cur1 \<and> length (rest_bytes cur1) + 1 = length (rest_bytes cur)"
    by (rule next_byte_bad [OF Suc.prems(1) _ n(1)]) (use Suc.prems(2) in auto)
  have "\<not> cursor_ok cur' \<and> length (rest_bytes cur') + m = length (rest_bytes cur1)"
    by (rule Suc.IH [OF _ _ n(2)]) (use b Suc.prems(2) in auto)
  with b show ?case by auto
qed

lemma rest_Nil_ok: "rest_bytes cur = [] \<Longrightarrow> cursor_ok cur"
proof -
  have "concat as = [] \<Longrightarrow> readable as" for as by (induction as) auto
  then show "rest_bytes cur = [] \<Longrightarrow> cursor_ok cur" by (simp add: rest_bytes_def cursor_ok_def)
qed

lemma omac_blocks_bad:
  assumes "\<not> cursor_ok cur" "left = length (rest_bytes cur)" "omac_blocks E left cbc cur = Some (left', cbc', cur')"
  shows "\<not> cursor_ok cur' \<and> left' = length (rest_bytes cur')"
  using assms
proof (induction E left cbc cur rule: omac_blocks.induct)
  case (1 E left cbc cur)
  show ?case
  proof (cases "16 \<le> left")
    case True
    obtain cbc1 cur1 where a: "absorb 16 0 (left = 16) cbc cur = Some (cbc1, cur1)"
      "omac_blocks E (left - 16) (if left > 16 then E cbc1 else cbc1) cur1 = Some (left', cbc', cur')"
      using 1(4) True by (subst (asm) omac_blocks.simps) (auto split: option.splits)
    have "\<not> cursor_ok cur1 \<and> length (rest_bytes cur1) + 16 = length (rest_bytes cur)"
      by (rule absorb_bad [OF 1(2) _ a(1)]) (use 1(3) in auto)
    then show ?thesis
      using 1(1) [OF True a(1) refl _ _ a(2)] 1(3) by (metis add_diff_cancel_right')
  next
    case False
    with 1(2-4) show ?thesis by (subst (asm) omac_blocks.simps) auto
  qed
qed

lemma omac1_vector_fault:
  assumes "\<not> readable addr"
  shows "omac1_vector_ctx E addr = Fault"
proof (cases addr)
  case Nil
  then show ?thesis by (simp add: omac1_vector_ctx_def)
next
  case (Cons a0 rest)
  have bad: "\<not> cursor_ok (a0, rest)" "length (concat addr) = length (rest_bytes (a0, rest))"
    using assms Cons by (auto simp: cursor_ok_def rest_bytes_def)
  show ?thesis
  proof (cases "omac_blocks E (length (concat addr)) (replicate 16 0) (a0, rest)")
    case None
    then show ?thesis using Cons by (simp add: omac1_vector_ctx_def)
  next
    case (Some r)
    obtain left cbc cur where r: "r = (left, cbc, cur)" by (cases r) auto
    have b: "\<not> cursor_ok cur \<and> left = length (rest_bytes cur)"
      by (rule omac_blocks_bad [OF bad(1)]) (use bad Some r in auto)
    have "absorb left 0 True cbc cur = None"
    proof (rule ccontr)
      assume "absorb left 0 True cbc cur \<noteq> None"
      then obtain cbc' cur' where "absorb left 0 True cbc cur = Some (cbc', cur')" by auto
      from absorb_bad [OF _ _ this] b rest_Nil_ok show False by fastforce
    qed
    moreover have "left \<noteq> 0" using b rest_Nil_ok [of cur] by auto
    ultimately show ?thesis using Cons Some r by (simp add: omac1_vector_ctx_def)
  qed
qed

context block_cipher
begin

lemma omac_blocks_ok:
  assumes "cursor_ok cur" "left = length (rest_bytes cur)" "length cbc = 16"
    and "cmac_chain (enc e) cbc (rest_bytes cur) = (x, m)"
  shows "\<exists>cur'. cursor_ok cur' \<and> length x = 16 \<and> length m \<le> 16 \<and> omac_blocks (enc e) left cbc cur =
    (if length m = 16 then Some (0, xor_bytes x m, cur') else Some (length m, x, cur')) \<and>
    rest_bytes cur' = (if length m = 16 then [] else m)"
  using assms
proof (induction "enc e" left cbc cur rule: omac_blocks.induct)
  case (1 left cbc cur)
  show ?case
  proof (cases "16 \<le> left")
    case False
    with 1(3,5) have "x = cbc" "m = rest_bytes cur"
      by (simp_all add: cmac_chain.simps [of _ cbc "rest_bytes cur"])
    moreover have "omac_blocks (enc e) left cbc cur = Some (left, cbc, cur)"
      using False by (subst omac_blocks.simps) simp
    ultimately show ?thesis
      using False 1(2-4) by (intro exI [of _ cur]) auto
  next
    case True
    obtain cur1 where c1: "cursor_ok cur1" "rest_bytes cur1 = drop 16 (rest_bytes cur)"
      "absorb 16 0 (left = 16) cbc cur =
         Some (put_bytes cbc 0 (xor_bytes (get_bytes cbc 0 16) (take 16 (rest_bytes cur))), cur1)"
      by (rule absorb_ok [OF 1(2), of 16 "left = 16" 0 cbc]) (use True 1(3,4) in auto)
    let ?cbc = "xor_bytes cbc (take 16 (rest_bytes cur))"
    have put: "put_bytes cbc 0 (xor_bytes (get_bytes cbc 0 16) (take 16 (rest_bytes cur))) = ?cbc"
      using 1(3,4) True by (simp add: put_bytes_def get_bytes_def byte_simps)
    have step: "omac_blocks (enc e) left cbc cur =
        omac_blocks (enc e) (left - 16) (if left > 16 then enc e ?cbc else ?cbc) cur1"
      using True c1(3) put by (subst omac_blocks.simps) simp
    show ?thesis
    proof (cases "left = 16")
      case True
      with 1(3,5) have "x = cbc" "m = rest_bytes cur"
        by (simp_all add: cmac_chain.simps [of _ cbc "rest_bytes cur"])
      moreover have "omac_blocks (enc e) left cbc cur = Some (0, ?cbc, cur1)"
        using step True by (simp add: omac_blocks.simps [of _ 0])
      ultimately show ?thesis
        using True c1 1(3,4) by (intro exI [of _ cur1]) auto
    next
      case False
      with True have gt: "16 < left" by simp
      then have "cmac_chain (enc e) (enc e ?cbc) (rest_bytes cur1) = (x, m)"
        using 1(3,5) c1(2) by (simp add: cmac_chain.simps [of _ cbc "rest_bytes cur"])
      then show ?thesis
        using 1(1) [OF True c1(3) refl c1(1)] put gt step 1(3) c1(2) by simp
    qed
  qed
qed

lemma cmac_chain_nonempty: "msg \<noteq> [] \<Longrightarrow> snd (cmac_chain E x msg) \<noteq> []"
proof (induction E x msg rule: cmac_chain.induct)
  case (1 E x msg)
  then show ?case by (subst cmac_chain.simps) simp
qed

lemma omac_tail:
  assumes "length x = 16" "length m < 16"
  shows "(let c = put_bytes x 0 (xor_bytes (get_bytes x 0 (length m)) m)
    in c[length m := c ! length m XOR 0x80]) = xor_bytes x (cmac_pad m)"
  using assms
  by (intro nth_equalityI)
    (auto simp: Let_def put_bytes_def get_bytes_def cmac_pad_def byte_simps nth_list_update nth_append
      nth_Cons split: nat.split)

lemma omac1_vector_ok:
  assumes "readable addr" "addr \<noteq> []"
  shows "omac1_vector_ctx (enc e) addr = Ok (cmac (enc e) (concat addr))"
proof -
  obtain a0 rest where a: "addr = a0 # rest" using assms(2) by (cases addr) auto
  obtain x m where xm: "cmac_chain (enc e) (replicate 16 0) (concat addr) = (x, m)" by fastforce
  have c: "cursor_ok (a0, rest)" "rest_bytes (a0, rest) = concat addr"
    using assms a by (auto simp: cursor_ok_def rest_bytes_def)
  obtain cur where cur: "cursor_ok cur" "length x = 16" "length m \<le> 16"
    "omac_blocks (enc e) (length (concat addr)) (replicate 16 0) (a0, rest) =
      (if length m = 16 then Some (0, xor_bytes x m, cur) else Some (length m, x, cur))"
    "rest_bytes cur = (if length m = 16 then [] else m)"
    using omac_blocks_ok [OF c(1), of "length (concat addr)" "replicate 16 0" e x m] c(2) xm by auto
  show ?thesis
  proof (cases "length m = 16")
    case True
    have "concat addr \<noteq> []"
    proof
      assume "concat addr = []"
      with xm have "cmac_chain (enc e) (replicate 16 0) [] = (x, m)" by simp
      then have "m = []" by (simp add: cmac_chain.simps)
      with True show False by simp
    qed
    then show ?thesis
      using True cur a xm by (auto simp: omac1_vector_ctx_def cmac_def Let_def)
  next
    case False
    then have m: "length m < 16" using cur by simp
    obtain cur' where "absorb (length m) 0 True x cur =
        Some (put_bytes x 0 (xor_bytes (get_bytes x 0 (length m)) m), cur')"
      by (rule absorb_ok [OF cur(1), of "length m" True 0 x]) (use cur False in auto)
    moreover have "length m = 0 \<longrightarrow> concat addr = []"
      using xm cmac_chain_nonempty [of "concat addr" "enc e" "replicate 16 0"] by auto
    moreover have "(put_bytes x 0 (xor_bytes (get_bytes x 0 (length m)) m))[length m :=
        put_bytes x 0 (xor_bytes (get_bytes x 0 (length m)) m) ! length m XOR 0x80] = xor_bytes x (cmac_pad m)"
      using omac_tail [OF cur(2) m] by (simp add: Let_def)
    ultimately show ?thesis
      using False cur a xm m by (simp add: omac1_vector_ctx_def cmac_def Let_def)
  qed
qed

end

lemma length_cmac [simp]: "length (cmac (aes_encrypt ctx) msg) = 16"
  by (simp add: cmac_def Let_def split: prod.split)

lemma omac1_single:
  assumes "aes_encrypt_init key len = Some ctx"
  shows "omac1_aes_vector key len [m] = Ok (cmac (aes_encrypt ctx) m)"
  using assms by (simp add: omac1_aes_vector_def aes.omac1_vector_ok)

text \<open>
  C25: The element-wise walk of \<open>omac1_aes_vector\<close> computes CMAC of the concatenated message, and
  faults exactly on vectors it must not be given: for an accepted key the result is
  \<open>cmac (concat addr)\<close> when the vector has an element and no empty element precedes a
  non-empty one, and an out-of-bounds read otherwise.
\<close>

theorem omac1_aes_vector_cmac:
  assumes "aes_encrypt_init key key_len = Some ctx"
  shows "omac1_aes_vector key key_len addr =
    (if addr \<noteq> [] \<and> readable addr then Ok (cmac (aes_encrypt ctx) (concat addr)) else Fault)"
proof -
  have "omac1_vector_ctx E [] = Fault" for E
    by (simp add: omac1_vector_ctx_def)
  then show ?thesis
    using assms aes.omac1_vector_ok omac1_vector_fault by (auto simp: omac1_aes_vector_def)
qed

theorem omac1_aes_vector_cmac_witness:
  "(\<exists>ctx. aes_encrypt_init (replicate 16 4) 16 = Some ctx \<and>
     omac1_aes_vector (replicate 16 4) 16 [[1, 2], [3], []] = Ok (cmac (aes_encrypt ctx) [1, 2, 3])) \<and>
   omac1_aes_vector (replicate 16 4) 16 [[], [3]] = Fault"
proof -
  obtain ctx where c: "aes_encrypt_init (replicate 16 4) 16 = Some ctx"
    using aes_encrypt_init_16(1) by blast
  with omac1_aes_vector_cmac [OF c, of "[[1, 2], [3], []]"] omac1_aes_vector_cmac [OF c, of "[[], [3]]"]
  show ?thesis by simp
qed

end
