(* ===== verification/AesEax.thy ===== *)
theory AesEax
  imports AesModes Omac1
begin

text \<open>
  EAX authenticated encryption: \<open>aes_128_eax_encrypt\<close> and \<open>aes_128_eax_decrypt\<close> of
  \<open>src/mininet-wifi/hostap/src/crypto/aes-eax.c\<close>.  The scratch buffer \<open>buf\<close> holds fifteen zero
  bytes, the domain byte 0, 1 or 2 and the authenticated string.  \<open>Ok (data, tag)\<close> and
  \<open>Ok data\<close> are the return value 0 with the buffers written; \<open>os_malloc\<close> succeeds.
\<close>

unbundle bit_operations_syntax

definition eax_mac :: "bytes \<Rightarrow> u8 \<Rightarrow> bytes \<Rightarrow> bytes outcome" where
  "eax_mac key t str = omac1_aes_128 key (replicate 15 0 @ [t] @ str)"

definition aes_128_eax_encrypt :: "bytes \<Rightarrow> bytes \<Rightarrow> bytes \<Rightarrow> bytes \<Rightarrow> (bytes \<times> bytes) outcome" where
  "aes_128_eax_encrypt key nonce hdr data =
     or_fail (- 1) (eax_mac key 0 nonce) (\<lambda>nonce_mac.
     or_fail (- 1) (eax_mac key 1 hdr) (\<lambda>hdr_mac.
       case aes_128_ctr_encrypt key nonce_mac data of (ret, data') \<Rightarrow>
         if ret \<noteq> 0 then Ret (- 1)
         else or_fail (- 1) (eax_mac key 2 data') (\<lambda>data_mac.
           Ok (data', xor_bytes (xor_bytes nonce_mac data_mac) hdr_mac))))"

definition aes_128_eax_decrypt :: "bytes \<Rightarrow> bytes \<Rightarrow> bytes \<Rightarrow> bytes \<Rightarrow> bytes \<Rightarrow> bytes outcome" where
  "aes_128_eax_decrypt key nonce hdr data tag =
     or_fail (- 1) (eax_mac key 0 nonce) (\<lambda>nonce_mac.
     or_fail (- 1) (eax_mac key 1 hdr) (\<lambda>hdr_mac.
     or_fail (- 1) (eax_mac key 2 data) (\<lambda>data_mac.
       if take 16 tag \<noteq> xor_bytes (xor_bytes nonce_mac data_mac) hdr_mac then Ret (- 2)
       else case aes_128_ctr_encrypt key nonce_mac data of (ret, data') \<Rightarrow>
         if ret \<noteq> 0 then Ret ret else Ok data')))"

lemma eax_mac_ok:
  obtains mac where "eax_mac key t str = Ok mac" "length mac = 16"
proof -
  obtain ctx where "aes_encrypt_init key 16 = Some ctx" using aes_encrypt_init_16(1) by blast
  then have "eax_mac key t str = Ok (cmac (aes_encrypt ctx) (replicate 15 0 @ [t] @ str))"
    by (simp add: eax_mac_def omac1_aes_128_def omac1_aes_128_vector_def omac1_aes_vector_def
        aes.omac1_vector_ok)
  then show ?thesis by (intro that) auto
qed

text \<open>
  EAX authenticity and round trip: decryption returns plaintext \<open>data\<close> for a ciphertext and
  a 16-byte tag exactly when encryption of \<open>data\<close> under the same key, nonce and header
  produces that ciphertext and tag; every other pair is refused with \<open>-2\<close>, before anything
  is decrypted.
\<close>

theorem aes_128_eax_decrypt_iff:
  assumes "length tag = 16"
  shows "(aes_128_eax_decrypt key nonce hdr crypt tag = Ok data \<longleftrightarrow>
      aes_128_eax_encrypt key nonce hdr data = Ok (crypt, tag)) \<and>
    (aes_128_eax_decrypt key nonce hdr crypt tag = Ret (- 2) \<longleftrightarrow>
      (\<nexists>d. aes_128_eax_encrypt key nonce hdr d = Ok (crypt, tag)))"
proof -
  obtain nm where nm: "eax_mac key 0 nonce = Ok nm" by (rule eax_mac_ok)
  obtain hm where hm: "eax_mac key 1 hdr = Ok hm" by (rule eax_mac_ok)
  obtain cm where cm: "eax_mac key 2 crypt = Ok cm" by (rule eax_mac_ok)
  obtain d where d: "aes_128_ctr_encrypt key nm crypt = (0, d)" "aes_128_ctr_encrypt key nm d = (0, crypt)"
    by (rule ctr_128_ok)
  have inj: "aes_128_ctr_encrypt key nm d' = (0, crypt) \<Longrightarrow> d' = d" for d'
    using ctr_128_ok [of key nm d'] d by (metis prod.inject)
  have enc: "aes_128_eax_encrypt key nonce hdr d' = Ok (crypt, tag) \<longleftrightarrow>
      d' = d \<and> tag = xor_bytes (xor_bytes nm cm) hm" for d'
  proof -
    obtain c' where c': "aes_128_ctr_encrypt key nm d' = (0, c')" by (rule ctr_128_ok)
    obtain m where m: "eax_mac key 2 c' = Ok m" by (rule eax_mac_ok)
    have "aes_128_eax_encrypt key nonce hdr d' = Ok (c', xor_bytes (xor_bytes nm m) hm)"
      using nm hm c' m by (simp add: aes_128_eax_encrypt_def)
    then show ?thesis
      using d(2) c' m cm inj [of d'] by auto
  qed
  have dec: "aes_128_eax_decrypt key nonce hdr crypt tag =
      (if tag \<noteq> xor_bytes (xor_bytes nm cm) hm then Ret (- 2) else Ok d)"
    using nm hm cm d assms by (simp add: aes_128_eax_decrypt_def)
  show ?thesis
    using enc dec by auto
qed

theorem aes_128_eax_decrypt_iff_witness:
  "\<exists>c t. aes_128_eax_encrypt (replicate 16 1) [1, 2] [3] [4, 5, 6] = Ok (c, t) \<and>
     aes_128_eax_decrypt (replicate 16 1) [1, 2] [3] c t = Ok [4, 5, 6]"
proof -
  obtain nm where nm: "eax_mac (replicate 16 1) 0 [1, 2] = Ok nm" "length nm = 16" by (rule eax_mac_ok)
  obtain hm where hm: "eax_mac (replicate 16 1) 1 [3] = Ok hm" "length hm = 16" by (rule eax_mac_ok)
  obtain c where c: "aes_128_ctr_encrypt (replicate 16 1) nm [4, 5, 6] = (0, c)" by (rule ctr_128_ok)
  obtain cm where cm: "eax_mac (replicate 16 1) 2 c = Ok cm" "length cm = 16" by (rule eax_mac_ok)
  let ?t = "xor_bytes (xor_bytes nm cm) hm"
  have e: "aes_128_eax_encrypt (replicate 16 1) [1, 2] [3] [4, 5, 6] = Ok (c, ?t)"
    using nm hm c cm by (simp add: aes_128_eax_encrypt_def)
  have "length ?t = 16" using nm hm cm by (simp add: byte_simps)
  from aes_128_eax_decrypt_iff [OF this, of "replicate 16 1" "[1, 2]" "[3]" c "[4, 5, 6]"] e show ?thesis by blast
qed

end
