(* ===== verification/AesSiv.thy ===== *)
theory AesSiv
  imports AesModes Omac1
begin

text \<open>
  SIV mode (RFC 5297), used for FILS and FT key protection: \<open>aes_siv_encrypt\<close> and
  \<open>aes_siv_decrypt\<close> of \<open>src/mininet-wifi/hostap/src/crypto/aes-siv.c\<close> with their helpers.
  \<open>Ok out\<close> is the return value 0 with the output buffer; \<open>os_memdup\<close> succeeds.
\<close>

unbundle bit_operations_syntax

section \<open>Definitions\<close>

definition dbl :: "bytes \<Rightarrow> bytes" where
  "dbl pad =
     (let carry = pad ! 0 AND 0x80;
          pad1 = map (\<lambda>i. push_bit 1 (pad ! i) OR drop_bit 7 (pad ! (i + 1))) [0..<15] @
            [push_bit 1 (pad ! 15)]
      in if carry \<noteq> 0 then pad1[15 := pad1 ! 15 XOR 0x87] else pad1)"

definition xorend :: "bytes \<Rightarrow> bytes \<Rightarrow> bytes" where
  "xorend a b =
     (if length a < length b then a
      else take (length a - length b) a @ xor_bytes (drop (length a - length b) a) b)"

definition pad_block :: "bytes \<Rightarrow> bytes" where
  "pad_block addr =
     (if length addr < 16 then addr @ [0x80] @ replicate (15 - length addr) 0 else addr)"

fun s2v_loop :: "bytes \<Rightarrow> nat \<Rightarrow> bytes \<Rightarrow> bytes list \<Rightarrow> bytes outcome" where
  "s2v_loop key key_len tmp [] = Ok tmp"
| "s2v_loop key key_len tmp (a # as) =
     (case omac1_aes_vector key key_len [a] of
        Fault \<Rightarrow> Fault
      | Ret ret \<Rightarrow> Ret ret
      | Ok tmp2 \<Rightarrow> s2v_loop key key_len (xor_bytes (dbl tmp) tmp2) as)"

definition aes_s2v :: "bytes \<Rightarrow> nat \<Rightarrow> bytes list \<Rightarrow> bytes outcome" where
  "aes_s2v key key_len addr =
     (if addr = [] then omac1_aes_vector key key_len [replicate 15 0 @ [1]]
      else
        (case omac1_aes_vector key key_len [replicate 16 0] of
           Fault \<Rightarrow> Fault
         | Ret ret \<Rightarrow> Ret ret
         | Ok tmp0 \<Rightarrow>
             (case s2v_loop key key_len tmp0 (butlast addr) of
                Fault \<Rightarrow> Fault
              | Ret ret \<Rightarrow> Ret ret
              | Ok tmp \<Rightarrow>
                  if 16 \<le> length (last addr) then omac1_aes_vector key key_len [xorend (last addr) tmp]
                  else omac1_aes_vector key key_len [xor_bytes (dbl tmp) (pad_block (last addr))])))"

text \<open>\<open>v[8] &= 0x7f; v[12] &= 0x7f\<close>.\<close>

definition siv_ctr :: "bytes \<Rightarrow> bytes" where
  "siv_ctr v = v[8 := v ! 8 AND 0x7f, 12 := v ! 12 AND 0x7f]"

definition aes_siv_encrypt :: "bytes \<Rightarrow> nat \<Rightarrow> bytes \<Rightarrow> bytes list \<Rightarrow> bytes outcome" where
  "aes_siv_encrypt key key_len pw addr =
     (if length addr > 5 \<or> (key_len \<noteq> 32 \<and> key_len \<noteq> 48 \<and> key_len \<noteq> 64) then Ret (- 1)
      else let half = key_len div 2; k1 = key; k2 = drop half key in
        or_fail (- 1) (aes_s2v k1 half (addr @ [pw])) (\<lambda>v.
          case aes_ctr_encrypt k2 half (siv_ctr v) pw of (ret, crypt_pw) \<Rightarrow>
            if ret \<noteq> 0 then Ret ret else Ok (v @ crypt_pw)))"

definition aes_siv_decrypt :: "bytes \<Rightarrow> nat \<Rightarrow> bytes \<Rightarrow> bytes list \<Rightarrow> bytes outcome" where
  "aes_siv_decrypt key key_len iv_crypt addr =
     (if length iv_crypt < 16 \<or> length addr > 5 \<or> (key_len \<noteq> 32 \<and> key_len \<noteq> 48 \<and> key_len \<noteq> 64) then Ret (- 1)
      else let half = key_len div 2; k1 = key; k2 = drop half key;
               iv = siv_ctr (take 16 iv_crypt) in
        case aes_ctr_encrypt k2 half iv (drop 16 iv_crypt) of (ret, out) \<Rightarrow>
          if ret \<noteq> 0 then Ret ret
          else
            (case aes_s2v k1 half (addr @ [out]) of
               Fault \<Rightarrow> Fault
             | Ret ret \<Rightarrow> Ret ret
             | Ok check \<Rightarrow> if check = take 16 iv_crypt then Ok out else Ret (- 1)))"

section \<open>Results\<close>

lemma dbl_gf_mulx: "dbl = gf_mulx"
  by (simp add: fun_eq_iff dbl_def gf_mulx_def)

lemma s2v_loop_ok:
  assumes "aes_encrypt_init key len = Some ctx"
  shows "\<exists>tmp'. s2v_loop key len tmp as = Ok tmp'"
  by (induction "as" arbitrary: tmp) (simp_all add: omac1_single [OF assms])

lemma aes_s2v_ok:
  assumes "len \<in> {16, 24, 32}"
  obtains v where "aes_s2v key len addr = Ok v" "length v = 16"
proof -
  obtain ctx where c: "aes_encrypt_init key len = Some ctx"
    using assms aes_encrypt_init_None [of key len] by auto
  obtain t where "s2v_loop key len (cmac (aes_encrypt ctx) (replicate 16 0)) (butlast addr) = Ok t"
    using s2v_loop_ok [OF c] by blast
  then have "\<exists>v. aes_s2v key len addr = Ok v \<and> length v = 16"
    by (simp add: aes_s2v_def omac1_single [OF c])
  with that show ?thesis by blast
qed

text \<open>
  SIV authenticity and round trip: with a key of 32, 48 or 64 bytes and at most five
  associated-data elements, \<open>aes_siv_decrypt\<close> returns plaintext \<open>pw\<close> exactly on the output of
  \<open>aes_siv_encrypt\<close> for \<open>pw\<close>, which is 16 bytes longer than \<open>pw\<close>; with any other key length or
  number of elements both functions return \<open>-1\<close>.
\<close>

theorem aes_siv_decrypt_iff:
  "(aes_siv_decrypt key key_len c addr = Ok pw \<longleftrightarrow> aes_siv_encrypt key key_len pw addr = Ok c) \<and>
   (if key_len \<in> {32, 48, 64} \<and> length addr \<le> 5
    then \<exists>c'. aes_siv_encrypt key key_len pw addr = Ok c' \<and> length c' = length pw + 16
    else aes_siv_encrypt key key_len pw addr = Ret (- 1) \<and> aes_siv_decrypt key key_len c addr = Ret (- 1))"
proof (cases "key_len \<in> {32, 48, 64} \<and> length addr \<le> 5")
  case False
  then show ?thesis by (auto simp: aes_siv_encrypt_def aes_siv_decrypt_def)
next
  case True
  let ?h = "key_len div 2" let ?k2 = "drop ?h key"
  have h: "?h \<in> {16, 24, 32}" using True by auto
  have ok: "\<not> (length addr > 5 \<or> (key_len \<noteq> 32 \<and> key_len \<noteq> 48 \<and> key_len \<noteq> 64))" using True by auto
  obtain v where v: "aes_s2v key ?h (addr @ [pw]) = Ok v" "length v = 16"
    by (rule aes_s2v_ok [OF h])
  obtain x where x: "aes_ctr_encrypt ?k2 ?h (siv_ctr v) pw = (0, x)" "length x = length pw"
    "aes_ctr_encrypt ?k2 ?h (siv_ctr v) x = (0, pw)"
    by (rule aes_ctr_ok [OF h])
  have enc: "aes_siv_encrypt key key_len pw addr = Ok (v @ x)"
    using ok v x by (simp add: aes_siv_encrypt_def Let_def)
  have "aes_siv_decrypt key key_len c addr = Ok pw \<longleftrightarrow> c = v @ x"
  proof
    assume d: "aes_siv_decrypt key key_len c addr = Ok pw"
    obtain y where y: "aes_ctr_encrypt ?k2 ?h (siv_ctr (take 16 c)) (drop 16 c) = (0, y)"
      "aes_ctr_encrypt ?k2 ?h (siv_ctr (take 16 c)) y = (0, drop 16 c)"
      by (rule aes_ctr_ok [OF h])
    have "y = pw" "take 16 c = v" "16 \<le> length c"
      using d ok y v by (auto simp: aes_siv_decrypt_def Let_def split: if_splits outcome.splits)
    moreover from this x y have "drop 16 c = x" by simp
    ultimately show "c = v @ x" by (metis append_take_drop_id)
  next
    assume "c = v @ x"
    then show "aes_siv_decrypt key key_len c addr = Ok pw"
      using ok v x by (simp add: aes_siv_decrypt_def Let_def)
  qed
  with enc True v x show ?thesis by auto
qed

theorem aes_siv_decrypt_iff_witness:
  "\<exists>c. aes_siv_encrypt (replicate 32 1) 32 [4, 5, 6] [[7], [8, 9]] = Ok c \<and> length c = 19 \<and>
     aes_siv_decrypt (replicate 32 1) 32 c [[7], [8, 9]] = Ok [4, 5, 6]"
proof -
  obtain c where "aes_siv_encrypt (replicate 32 1) 32 [4, 5, 6] [[7], [8, 9]] = Ok c" "length c = 19"
    using aes_siv_decrypt_iff [of "replicate 32 1" 32 "[]" "[[7], [8, 9]]" "[4, 5, 6]"] by auto
  with aes_siv_decrypt_iff [of "replicate 32 1" 32 c "[[7], [8, 9]]" "[4, 5, 6]"] show ?thesis by blast
qed

end
