(* ===== verification/AesCcm.thy ===== *)
theory AesCcm
  imports Aes
begin

text \<open>
  Counter with CBC-MAC: \<open>src/mininet-wifi/hostap/src/crypto/aes-ccm.c\<close>.  The code fixes
  \<open>L = 2\<close> and so do the definitions.  \<open>out\<close> is the caller's whole output buffer:
  \<open>aes_encrypt(aes, a, out)\<close> always writes 16 bytes, so a last partial block needs room for a
  whole one and leaves key stream behind the data; a smaller buffer is the outcome \<open>Fault\<close>.
  \<open>nonce\<close> has at least 13 bytes.
\<close>

unbundle bit_operations_syntax

section \<open>Definitions\<close>

text \<open>The flags byte of block \<open>B_0\<close>; \<open>((M - 2) / 2) << 3\<close> is computed in \<open>size_t\<close>.\<close>

definition ccm_flags :: "nat \<Rightarrow> nat \<Rightarrow> u8" where
  "ccm_flags M aad_len =
     (if aad_len \<noteq> 0 then 0x40 else 0) OR ucast (push_bit 3 ((of_nat M - 2 :: u64) div 2)) OR 1"

definition aes_ccm_auth_start :: "(bytes \<Rightarrow> bytes) \<Rightarrow> nat \<Rightarrow> bytes \<Rightarrow> bytes \<Rightarrow> nat \<Rightarrow> bytes" where
  "aes_ccm_auth_start E M nonce aad plain_len =
     (let b = [ccm_flags M (length aad)] @ take 13 nonce @ WPA_PUT_BE16 (of_nat plain_len);
          x1 = E b
      in if aad = [] then x1
         else
           let aad_buf = WPA_PUT_BE16 (of_nat (length aad)) @ aad @ replicate (30 - length aad) 0;
               x2 = E (xor_bytes (take 16 aad_buf) x1)
           in if length aad > 14 then E (xor_bytes (get_bytes aad_buf 16 16) x2) else x2)"

fun aes_ccm_auth_blocks :: "(bytes \<Rightarrow> bytes) \<Rightarrow> nat \<Rightarrow> bytes \<Rightarrow> bytes \<Rightarrow> bytes \<times> bytes" where
  "aes_ccm_auth_blocks E 0 data x = (x, data)"
| "aes_ccm_auth_blocks E (Suc n) data x =
     aes_ccm_auth_blocks E n (drop 16 data) (E (xor_bytes x (take 16 data)))"

definition aes_ccm_auth :: "(bytes \<Rightarrow> bytes) \<Rightarrow> bytes \<Rightarrow> bytes \<Rightarrow> bytes" where
  "aes_ccm_auth E data x =
     (let last = length data mod 16;
          (x', data') = aes_ccm_auth_blocks E (length data div 16) data x
      in if last \<noteq> 0 then E (put_bytes x' 0 (xor_bytes (take last x') (take last data'))) else x')"

definition aes_ccm_encr_start :: "bytes \<Rightarrow> bytes" where
  "aes_ccm_encr_start nonce = [1] @ take 13 nonce @ [0, 0]"

definition set_ctr :: "bytes \<Rightarrow> nat \<Rightarrow> bytes" where
  "set_ctr a i = put_bytes a 14 (WPA_PUT_BE16 (of_nat i))"

definition ccm_encr_block :: "(bytes \<Rightarrow> bytes) \<Rightarrow> bytes \<Rightarrow> nat \<Rightarrow> bytes \<times> bytes \<Rightarrow> bytes \<times> bytes" where
  "ccm_encr_block E inp i s =
     (case s of (out, a) \<Rightarrow>
        let a' = set_ctr a i; off = 16 * (i - 1)
        in (put_bytes out off (xor_bytes (E a') (get_bytes inp off 16)), a'))"

definition aes_ccm_encr :: "(bytes \<Rightarrow> bytes) \<Rightarrow> bytes \<Rightarrow> bytes \<Rightarrow> bytes \<Rightarrow> (bytes \<times> bytes) outcome" where
  "aes_ccm_encr E inp out a =
     (let last = length inp mod 16; n = length inp div 16
      in if length out < 16 * ((length inp + 15) div 16) then Fault
         else
           let (out1, a1) = fold (ccm_encr_block E inp) [1..<Suc n] (out, a)
           in if last \<noteq> 0 then
                let a2 = set_ctr a1 (Suc n); out2 = put_bytes out1 (16 * n) (E a2)
                in Ok (put_bytes out2 (16 * n)
                         (xor_bytes (get_bytes out2 (16 * n) last) (get_bytes inp (16 * n) last)), a2)
              else Ok (out1, a1))"

definition aes_ccm_encr_auth :: "(bytes \<Rightarrow> bytes) \<Rightarrow> nat \<Rightarrow> bytes \<Rightarrow> bytes \<Rightarrow> bytes" where
  "aes_ccm_encr_auth E M x a =
     (let tmp = E (set_ctr a 0) in map (\<lambda>i. x ! i XOR tmp ! i) [0..<M])"

definition aes_ccm_decr_auth :: "(bytes \<Rightarrow> bytes) \<Rightarrow> nat \<Rightarrow> bytes \<Rightarrow> bytes \<Rightarrow> bytes" where
  "aes_ccm_decr_auth E M a auth =
     (let tmp = E (set_ctr a 0) in map (\<lambda>i. auth ! i XOR tmp ! i) [0..<M])"

definition aes_ccm_ae :: "bytes \<Rightarrow> nat \<Rightarrow> bytes \<Rightarrow> nat \<Rightarrow> bytes \<Rightarrow> bytes \<Rightarrow> bytes \<Rightarrow> (bytes \<times> bytes) outcome" where
  "aes_ccm_ae key key_len nonce M plain aad crypt =
     (if length aad > 30 \<or> M > 16 then Ret (- 1)
      else
        case aes_encrypt_init key key_len of
          None \<Rightarrow> Ret (- 1)
        | Some ctx \<Rightarrow>
            let E = aes_encrypt ctx;
                x = aes_ccm_auth E plain (aes_ccm_auth_start E M nonce aad (length plain));
                a = aes_ccm_encr_start nonce
            in case aes_ccm_encr E plain crypt a of
                 Fault \<Rightarrow> Fault
               | Ret r \<Rightarrow> Ret r
               | Ok (crypt', a') \<Rightarrow> Ok (crypt', aes_ccm_encr_auth E M x a'))"

definition aes_ccm_ad :: "bytes \<Rightarrow> nat \<Rightarrow> bytes \<Rightarrow> nat \<Rightarrow> bytes \<Rightarrow> bytes \<Rightarrow> bytes \<Rightarrow> bytes \<Rightarrow> bytes outcome" where
  "aes_ccm_ad key key_len nonce M crypt aad auth plain =
     (if length aad > 30 \<or> M > 16 then Ret (- 1)
      else
        case aes_encrypt_init key key_len of
          None \<Rightarrow> Ret (- 1)
        | Some ctx \<Rightarrow>
            let E = aes_encrypt ctx;
                a = aes_ccm_encr_start nonce;
                t = aes_ccm_decr_auth E M a auth
            in case aes_ccm_encr E crypt plain (set_ctr a 0) of
                 Fault \<Rightarrow> Fault
               | Ret r \<Rightarrow> Ret r
               | Ok (plain', a') \<Rightarrow>
                   let x = aes_ccm_auth E (take (length crypt) plain')
                             (aes_ccm_auth_start E M nonce aad (length crypt))
                   in if take M x \<noteq> t then Ret (- 1) else Ok plain')"

section \<open>The key stream\<close>

lemma set_ctr_set_ctr [simp]: "length a = 16 \<Longrightarrow> set_ctr (set_ctr a i) j = set_ctr a j"
  by (simp add: set_ctr_def byte_simps)

lemma length_set_ctr [simp]: "length a = 16 \<Longrightarrow> length (set_ctr a i) = 16"
  by (simp add: set_ctr_def byte_simps)

lemma nth_put_bytes:
  "off + length src \<le> length buf \<Longrightarrow> j < length buf \<Longrightarrow>
   put_bytes buf off src ! j = (if off \<le> j \<and> j < off + length src then src ! (j - off) else buf ! j)"
  by (auto simp: put_bytes_def nth_append)

lemma nth_put_bytes_lt: "j < off \<Longrightarrow> off \<le> length buf \<Longrightarrow> put_bytes buf off src ! j = buf ! j"
  by (simp add: put_bytes_def nth_append)

lemma nth_mask_tail:
  "k < m \<Longrightarrow> m \<le> length a \<Longrightarrow> off + m \<le> length inp \<Longrightarrow>
   xor_bytes (take m a) (get_bytes inp off m) ! k = a ! k XOR inp ! (off + k)"
  by (subst nth_xor_bytes) (auto simp: get_bytes_def)

definition ccm_stream :: "(bytes \<Rightarrow> bytes) \<Rightarrow> bytes \<Rightarrow> nat \<Rightarrow> u8" where
  "ccm_stream E a j = E (set_ctr a (Suc (j div 16))) ! (j mod 16)"

definition ccm_mask :: "(bytes \<Rightarrow> bytes) \<Rightarrow> bytes \<Rightarrow> bytes \<Rightarrow> bytes" where
  "ccm_mask E a inp = map (\<lambda>j. ccm_stream E a j XOR inp ! j) [0..<length inp]"

lemma round_up_16:
  "16 * (((n :: nat) + 15) div 16) = (if n mod 16 = 0 then 16 * (n div 16) else 16 * (n div 16) + 16)"
proof -
  define q r where "q = n div 16" and "r = n mod 16"
  then have n: "n = 16 * q + r" and r: "r < 16" by simp_all
  have "(n + 15) div 16 = q + (r + 15) div 16" by (simp add: n add.assoc)
  moreover have "(r + 15) div 16 = (if r = 0 then 0 else 1)" using r by (auto simp: div_nat_eqI)
  ultimately show ?thesis by (simp flip: q_def r_def)
qed

context block_cipher
begin

lemma ccm_blocks_ok:
  assumes "length a = 16" "16 * n \<le> length inp" "16 * n \<le> length out"
  shows "\<exists>out' a'. fold (ccm_encr_block (enc e) inp) [1..<Suc n] (out, a) = (out', a') \<and>
    length out' = length out \<and> length a' = 16 \<and> (\<forall>i. set_ctr a' i = set_ctr a i) \<and>
    (\<forall>j < length out. out' ! j = (if j < 16 * n then ccm_stream (enc e) a j XOR inp ! j else out ! j))"
  using assms
proof (induction n)
  case 0
  then show ?case by simp
next
  case (Suc n)
  then obtain out' a' where I: "fold (ccm_encr_block (enc e) inp) [1..<Suc n] (out, a) = (out', a')"
    "length out' = length out" "length a' = 16" "\<forall>i. set_ctr a' i = set_ctr a i"
    "\<forall>j < length out. out' ! j = (if j < 16 * n then ccm_stream (enc e) a j XOR inp ! j else out ! j)"
    by fastforce
  let ?blk = "xor_bytes (enc e (set_ctr a (Suc n))) (get_bytes inp (16 * n) 16)"
  have len: "length ?blk = 16" using Suc.prems by (simp add: byte_simps)
  have "fold (ccm_encr_block (enc e) inp) [1..<Suc (Suc n)] (out, a) = (put_bytes out' (16 * n) ?blk, set_ctr a (Suc n))"
    using I(1,4) by (simp add: ccm_encr_block_def Let_def)
  moreover have "put_bytes out' (16 * n) ?blk ! j =
      (if j < 16 * Suc n then ccm_stream (enc e) a j XOR inp ! j else out ! j)" if j: "j < length out" for j
  proof (cases "16 * n \<le> j \<and> j < 16 * Suc n")
    case True
    then have d: "j div 16 = n" "j mod 16 = j - 16 * n" by (auto simp: div_nat_eqI modulo_nat_def)
    with True j Suc.prems len I(2) show ?thesis
      by (simp add: nth_put_bytes nth_xor_bytes ccm_stream_def length_get_bytes) (simp add: get_bytes_def)
  next
    case False
    with I(2,5) j Suc.prems len show ?thesis by (auto simp: nth_put_bytes)
  qed
  ultimately show ?case
    using I(2) Suc.prems len by (auto simp: length_put_bytes)
qed

lemma ccm_encr_ok:
  assumes "length a = 16" "16 * ((length inp + 15) div 16) \<le> length out"
  obtains out' a' where "aes_ccm_encr (enc e) inp out a = Ok (out', a')" "length out' = length out"
    "set_ctr a' 0 = set_ctr a 0"
    "take (length inp) out' = ccm_mask (enc e) a inp"
proof -
  let ?n = "length inp div 16" let ?last = "length inp mod 16"
  have up: "16 * ((length inp + 15) div 16) = (if ?last = 0 then 16 * ?n else 16 * ?n + 16)"
    "length inp = 16 * ?n + ?last"
    by (rule round_up_16) simp
  then have n: "16 * ?n \<le> length inp" "16 * ?n \<le> length out" using assms(2) by (auto split: if_splits)
  obtain out1 a1 where b: "fold (ccm_encr_block (enc e) inp) [1..<Suc ?n] (out, a) = (out1, a1)"
    "length out1 = length out" "length a1 = 16" "\<forall>i. set_ctr a1 i = set_ctr a i"
    "\<forall>j < length out. out1 ! j = (if j < 16 * ?n then ccm_stream (enc e) a j XOR inp ! j else out ! j)"
    using ccm_blocks_ok [OF assms(1) n] by blast
  show ?thesis
  proof (cases "?last = 0")
    case True
    show ?thesis
    proof (rule that)
      show "aes_ccm_encr (enc e) inp out a = Ok (out1, a1)"
        using True assms(2) b(1) by (simp add: aes_ccm_encr_def Let_def)
      show "take (length inp) out1 = ccm_mask (enc e) a inp"
        unfolding ccm_mask_def using True up b n by (intro nth_equalityI) auto
    qed (use b in auto)
  next
    case False
    let ?a2 = "set_ctr a (Suc ?n)"
    let ?out2 = "put_bytes out1 (16 * ?n) (enc e ?a2)"
    let ?w = "xor_bytes (get_bytes ?out2 (16 * ?n) ?last) (get_bytes inp (16 * ?n) ?last)"
    let ?out3 = "put_bytes ?out2 (16 * ?n) ?w"
    have room: "16 * ?n + 16 \<le> length out1" "?last < 16"
      using False up assms(2) b(2) by auto
    have fits: "length inp \<le> length out"
      using up(2) room b(2) by linarith
    have l2: "length ?out2 = length out" using room b(2) by (simp add: length_put_bytes)
    have g: "get_bytes ?out2 (16 * ?n) ?last = take ?last (enc e ?a2)"
      using room by (simp add: get_bytes_def put_bytes_def)
    have lw: "length ?w = ?last" unfolding g using room by (simp add: byte_simps minus_mult_div_eq_mod)
    show ?thesis
    proof (rule that)
      show "aes_ccm_encr (enc e) inp out a = Ok (?out3, ?a2)"
        using False assms(2) b(1,4) by (simp add: aes_ccm_encr_def Let_def)
      show l3: "length ?out3 = length out"
        using room lw l2 b(2) by (simp add: length_put_bytes)
      show "set_ctr ?a2 0 = set_ctr a 0" using assms(1) by simp
      show "take (length inp) ?out3 = ccm_mask (enc e) a inp"
        unfolding ccm_mask_def
      proof (rule nth_equalityI)
        show "length (take (length inp) ?out3) = length (map (\<lambda>j. ccm_stream (enc e) a j XOR inp ! j) [0..<length inp])"
          unfolding length_take l3 using fits by simp
        fix j assume "j < length (take (length inp) ?out3)"
        then have j: "j < length inp" "j < length out" using l3 by auto
        show "take (length inp) ?out3 ! j = map (\<lambda>j. ccm_stream (enc e) a j XOR inp ! j) [0..<length inp] ! j"
        proof (cases "j < 16 * ?n")
          case True
          then show ?thesis
            using j b(2,5) room(1) l2 by (simp add: nth_put_bytes_lt)
        next
          case ge: False
          have d3: "j - 16 * ?n < ?last" using ge j(1) up(2) by linarith
          have d1: "j div 16 = ?n" by (rule div_nat_eqI) (use ge d3 room(2) in \<open>simp, linarith?\<close>)+
          have "j mod 16 = j - 16 * ?n" unfolding d1 [symmetric] by (rule minus_mult_div_eq_mod [symmetric])
          note d = d1 this d3
          have "?out3 ! j = ?w ! (j - 16 * ?n)"
            by (subst nth_put_bytes) (use ge d3 j(2) room lw l2 b(2) in linarith | simp)+
          also have "\<dots> = enc e ?a2 ! (j - 16 * ?n) XOR inp ! j"
            unfolding g by (subst nth_mask_tail) (use d3 ge room(2) up(2) in auto)
          finally show ?thesis using j d by (simp add: ccm_stream_def)
        qed
      qed
    qed
  qed
qed

end

text \<open>Masking with the key stream is an involution, and so is masking the tag.\<close>

lemma ccm_mask_involution: "ccm_mask E a (ccm_mask E a inp) = inp"
  by (rule nth_equalityI) (simp_all add: ccm_mask_def xor.left_commute [of "ccm_stream E a _"] flip: xor.assoc)

lemma ccm_mask_eq_iff: "ccm_mask E a p = c \<longleftrightarrow> p = ccm_mask E a c"
  using ccm_mask_involution by metis

lemma length_ccm_mask [simp]: "length (ccm_mask E a inp) = length inp"
  by (simp add: ccm_mask_def)

lemma xor_tag_swap:
  assumes "length x = 16" "length t = 16" "length auth = M" "M \<le> 16"
  shows "take M x = map (\<lambda>i. auth ! i XOR t ! i) [0..<M] \<longleftrightarrow> auth = map (\<lambda>i. x ! i XOR t ! i) [0..<M]"
proof -
  have b: "(x ! i = auth ! i XOR t ! i) = (auth ! i = x ! i XOR t ! i)" for i
    by (auto simp: xor.assoc)
  show ?thesis
    using assms by (auto simp: list_eq_iff_nth_eq b)
qed

context block_cipher
begin

lemma length_auth_blocks:
  "length x = 16 \<Longrightarrow> 16 * n \<le> length data \<Longrightarrow> length (fst (aes_ccm_auth_blocks (enc e) n data x)) = 16"
  by (induction n arbitrary: data x) auto

lemma length_ccm_auth [simp]:
  assumes "length x = 16" shows "length (aes_ccm_auth (enc e) data x) = 16"
proof (cases "aes_ccm_auth_blocks (enc e) (length data div 16) data x")
  case (Pair x' data')
  then show ?thesis
    using length_auth_blocks [OF assms, of "length data div 16" data e] by (simp add: aes_ccm_auth_def Let_def)
qed

lemma length_ccm_auth_start [simp]: "length (aes_ccm_auth_start (enc e) M nonce aad n) = 16"
  by (simp add: aes_ccm_auth_start_def Let_def)

end

lemma length_encr_start [simp]: "13 \<le> length nonce \<Longrightarrow> length (aes_ccm_encr_start nonce) = 16"
  by (simp add: aes_ccm_encr_start_def)

text \<open>What the two functions compute when the buffer has room.\<close>

lemma ccm_ae_ok:
  assumes "aes_encrypt_init key key_len = Some ctx" "length aad \<le> 30" "M \<le> 16"
    and "13 \<le> length nonce" "16 * ((length plain + 15) div 16) \<le> length buf"
  defines "E \<equiv> aes_encrypt ctx" and "a \<equiv> aes_ccm_encr_start nonce"
  obtains out where
    "aes_ccm_ae key key_len nonce M plain aad buf = Ok (out, map (\<lambda>i.
       aes_ccm_auth E plain (aes_ccm_auth_start E M nonce aad (length plain)) ! i XOR E (set_ctr a 0) ! i) [0..<M])"
    "take (length plain) out = ccm_mask E a plain"
proof -
  have la: "length a = 16" using assms by (simp add: a_def)
  obtain out a' where "aes_ccm_encr E plain buf a = Ok (out, a')" "set_ctr a' 0 = set_ctr a 0"
    "take (length plain) out = ccm_mask E a plain"
    unfolding E_def by (rule aes.ccm_encr_ok [OF la assms(5), of ctx]) blast
  then show ?thesis
    using assms(1-3) by (intro that) (auto simp: aes_ccm_ae_def aes_ccm_encr_auth_def Let_def E_def a_def)
qed

lemma ccm_ad_ok:
  assumes "aes_encrypt_init key key_len = Some ctx" "length aad \<le> 30" "M \<le> 16"
    and "13 \<le> length nonce" "16 * ((length crypt + 15) div 16) \<le> length buf" "length auth = M"
  defines "E \<equiv> aes_encrypt ctx" and "a \<equiv> aes_ccm_encr_start nonce"
  obtains out where "take (length crypt) out = ccm_mask E a crypt"
    "aes_ccm_ad key key_len nonce M crypt aad auth buf =
      (if auth = map (\<lambda>i. aes_ccm_auth E (ccm_mask E a crypt)
            (aes_ccm_auth_start E M nonce aad (length crypt)) ! i XOR E (set_ctr a 0) ! i) [0..<M]
       then Ok out else Ret (- 1))"
proof -
  have la: "length a = 16" using assms by (simp add: a_def)
  then have la': "length (set_ctr a 0) = 16" by simp
  have st: "ccm_stream E (set_ctr a 0) = ccm_stream E a"
    using la by (simp add: ccm_stream_def fun_eq_iff)
  obtain out a' where o: "aes_ccm_encr E crypt buf (set_ctr a 0) = Ok (out, a')"
    "take (length crypt) out = ccm_mask E (set_ctr a 0) crypt"
    unfolding E_def by (rule aes.ccm_encr_ok [OF la' assms(5), of ctx]) blast
  note o = this [unfolded ccm_mask_def st, folded ccm_mask_def]
  let ?x = "aes_ccm_auth E (ccm_mask E a crypt) (aes_ccm_auth_start E M nonce aad (length crypt))"
  have "length ?x = 16" "length (E (set_ctr a 0)) = 16" by (simp_all add: E_def)
  note sw = xor_tag_swap [OF this assms(6,3)]
  have "aes_ccm_ad key key_len nonce M crypt aad auth buf =
      (if take M ?x \<noteq> map (\<lambda>i. auth ! i XOR E (set_ctr a 0) ! i) [0..<M] then Ret (- 1) else Ok out)"
    using assms(1-3) o by (simp add: aes_ccm_ad_def aes_ccm_decr_auth_def Let_def E_def a_def)
  then show ?thesis
    using o(2) by (intro that [of out]) (simp_all add: sw)
qed

lemma ccm_rejects:
  assumes "aes_encrypt_init key key_len = None \<or> 30 < length aad \<or> 16 < M"
  shows "aes_ccm_ae key key_len nonce M plain aad buf = Ret (- 1)"
    "aes_ccm_ad key key_len nonce M crypt aad auth buf = Ret (- 1)"
  using assms by (auto simp: aes_ccm_ae_def aes_ccm_ad_def)

text \<open>
  CCM authenticity and round trip.  With a 13-byte nonce, a tag of \<open>M\<close> bytes and an output
  buffer rounded up to whole blocks, \<open>aes_ccm_ad\<close> accepts a ciphertext and tag and leaves
  \<open>plain\<close> in the buffer exactly when \<open>aes_ccm_ae\<close> of \<open>plain\<close> with the same key, nonce and
  associated data gives that ciphertext and tag.
\<close>

theorem aes_ccm_ad_iff:
  assumes "13 \<le> length nonce" "length crypt = length plain" "length auth = M"
    and "16 * ((length plain + 15) div 16) \<le> length buf"
  shows "(\<exists>out. aes_ccm_ad key key_len nonce M crypt aad auth buf = Ok out \<and> take (length crypt) out = plain) \<longleftrightarrow>
    (\<exists>out. aes_ccm_ae key key_len nonce M plain aad buf = Ok (out, auth) \<and> take (length plain) out = crypt)"
proof (cases "aes_encrypt_init key key_len = None \<or> 30 < length aad \<or> 16 < M")
  case True
  then show ?thesis by (simp add: ccm_rejects)
next
  case False
  then obtain ctx where c: "aes_encrypt_init key key_len = Some ctx" "length aad \<le> 30" "M \<le> 16" by auto
  let ?E = "aes_encrypt ctx" let ?a = "aes_ccm_encr_start nonce"
  let ?tag = "\<lambda>p. map (\<lambda>i. aes_ccm_auth ?E p (aes_ccm_auth_start ?E M nonce aad (length p)) ! i XOR
    ?E (set_ctr ?a 0) ! i) [0..<M]"
  obtain o1 where o1: "aes_ccm_ae key key_len nonce M plain aad buf = Ok (o1, ?tag plain)"
    "take (length plain) o1 = ccm_mask ?E ?a plain"
    by (rule ccm_ae_ok [OF c assms(1,4)])
  have room: "16 * ((length crypt + 15) div 16) \<le> length buf" using assms(2,4) by simp
  obtain o2 where o2: "take (length crypt) o2 = ccm_mask ?E ?a crypt"
    "aes_ccm_ad key key_len nonce M crypt aad auth buf =
      (if auth = ?tag (ccm_mask ?E ?a crypt) then Ok o2 else Ret (- 1))"
    by (rule ccm_ad_ok [OF c assms(1) room assms(3)]) (simp add: assms(2))
  show ?thesis
    using o1 o2 ccm_mask_eq_iff [of ?E ?a plain crypt] by auto
qed

theorem aes_ccm_ad_iff_witness:
  "\<exists>c t out. length c = 3 \<and> length t = 8 \<and>
     aes_ccm_ad (replicate 16 1) 16 (replicate 13 2) 8 c [9] t (replicate 16 0) = Ok out \<and> take 3 out = [4, 5, 6]"
proof -
  obtain ctx where c: "aes_encrypt_init (replicate 16 1) 16 = Some ctx"
    using aes_encrypt_init_16(1) by blast
  let ?m = "ccm_mask (aes_encrypt ctx) (aes_ccm_encr_start (replicate 13 2)) [4, 5, 6]"
  have "\<exists>out t. aes_ccm_ae (replicate 16 1) 16 (replicate 13 2) 8 [4, 5, 6] [9] (replicate 16 0) = Ok (out, t) \<and>
      take 3 out = ?m \<and> length t = 8"
    by (rule ccm_ae_ok [OF c, of "[9]" 8 "replicate 13 2" "[4, 5, 6]" "replicate 16 0"])
      (simp_all add: numeral_3_eq_3)
  then obtain out t where o: "take 3 out = ?m"
    "aes_ccm_ae (replicate 16 1) 16 (replicate 13 2) 8 [4, 5, 6] [9] (replicate 16 0) = Ok (out, t)" "length t = 8"
    by blast
  let ?c = "take 3 out"
  have l: "length ?c = 3" by (simp only: o(1) length_ccm_mask) simp
  with aes_ccm_ad_iff [of "replicate 13 2" ?c "[4, 5, 6]" t 8 "replicate 16 0" "replicate 16 1" 16 "[9]"] o(2,3)
  obtain out2 where "aes_ccm_ad (replicate 16 1) 16 (replicate 13 2) 8 ?c [9] t (replicate 16 0) = Ok out2"
    "take 3 out2 = [4, 5, 6]" by (auto simp: numeral_3_eq_3)
  with l o(3) show ?thesis by blast
qed

text \<open>
  The buffer contract of CCM: with accepted arguments the functions write out of bounds
  exactly when the output buffer is shorter than the data rounded up to whole blocks, although
  only \<open>length plain\<close> bytes of it are output.
\<close>

theorem aes_ccm_overrun_iff:
  assumes "13 \<le> length nonce"
  shows "(aes_ccm_ae key key_len nonce M plain aad buf = Fault \<longleftrightarrow>
      key_len \<in> {16, 24, 32} \<and> length aad \<le> 30 \<and> M \<le> 16 \<and> length buf < 16 * ((length plain + 15) div 16)) \<and>
    (length auth = M \<longrightarrow>
     (aes_ccm_ad key key_len nonce M plain aad auth buf = Fault \<longleftrightarrow>
      key_len \<in> {16, 24, 32} \<and> length aad \<le> 30 \<and> M \<le> 16 \<and> length buf < 16 * ((length plain + 15) div 16)))"
proof (cases "aes_encrypt_init key key_len = None \<or> 30 < length aad \<or> 16 < M")
  case True
  then show ?thesis
    using aes_encrypt_init_None [of key key_len] by (auto simp: ccm_rejects)
next
  case False
  then obtain ctx where c: "aes_encrypt_init key key_len = Some ctx" "length aad \<le> 30" "M \<le> 16" by auto
  then have k: "key_len \<in> {16, 24, 32}" using aes_encrypt_init_None [of key key_len] by auto
  show ?thesis
  proof (cases "length buf < 16 * ((length plain + 15) div 16)")
    case True
    with c k show ?thesis
      by (simp add: aes_ccm_ae_def aes_ccm_ad_def aes_ccm_encr_def Let_def)
  next
    case False
    then have room: "16 * ((length plain + 15) div 16) \<le> length buf" by simp
    obtain o1 t where "aes_ccm_ae key key_len nonce M plain aad buf = Ok (o1, t)"
      by (rule ccm_ae_ok [OF c assms room])
    moreover have "length auth = M \<Longrightarrow> aes_ccm_ad key key_len nonce M plain aad auth buf \<noteq> Fault"
      by (rule ccm_ad_ok [OF c assms room, of auth]) auto
    ultimately show ?thesis using False by auto
  qed
qed

theorem aes_ccm_overrun_iff_witness:
  "aes_ccm_ae (replicate 16 1) 16 (replicate 13 2) 8 [4, 5, 6] [9] (replicate 3 0) = Fault"
  using aes_ccm_overrun_iff [of "replicate 13 2" "replicate 16 1" 16 8 "[4, 5, 6]" "[9]" "replicate 3 0" "replicate 8 0"]
  by simp

end
