(* ===== verification/AesGcm.thy ===== *)
theory AesGcm
  imports Aes
begin

text \<open>
  Galois/Counter Mode and GMAC: \<open>src/mininet-wifi/hostap/src/crypto/aes-gcm.c\<close>.  Blocks are
  lists of 16 bytes; the in-place block helpers return the new block, \<open>aes_gctr\<close> the output
  buffer.  \<open>Ret (-1)\<close> is a refused key length or tag.
\<close>

unbundle bit_operations_syntax

section \<open>Definitions\<close>

definition inc32 :: "bytes \<Rightarrow> bytes" where
  "inc32 block = put_bytes block 12 (WPA_PUT_BE32 (WPA_GET_BE32 (drop 12 block) + 1))"

text \<open>One of the four word shifts of \<open>shift_right_block\<close>: bit 31 comes from the byte before.\<close>

definition shift_word :: "nat \<Rightarrow> bool \<Rightarrow> bytes \<Rightarrow> bytes" where
  "shift_word off carry v =
     (let val = drop_bit 1 (WPA_GET_BE32 (drop off v))
      in put_bytes v off (WPA_PUT_BE32 (if carry then val OR 0x80000000 else val)))"

definition shift_right_block :: "bytes \<Rightarrow> bytes" where
  "shift_right_block v =
     (let v1 = shift_word 12 (v ! 11 AND 1 \<noteq> 0) v;
          v2 = shift_word 8 (v1 ! 7 AND 1 \<noteq> 0) v1;
          v3 = shift_word 4 (v2 ! 3 AND 1 \<noteq> 0) v2
      in shift_word 0 False v3)"

definition gf_next :: "bytes \<Rightarrow> bytes" where
  "gf_next v =
     (if v ! 15 AND 1 \<noteq> 0 then let v' = shift_right_block v in v'[0 := v' ! 0 XOR 0xe1]
      else shift_right_block v)"

definition gf_step :: "bytes \<Rightarrow> nat \<Rightarrow> nat \<Rightarrow> bytes \<times> bytes \<Rightarrow> bytes \<times> bytes" where
  "gf_step x i j s =
     (case s of (z, v) \<Rightarrow>
        (if x ! i AND push_bit (7 - j) 1 \<noteq> 0 then xor_bytes z v else z, gf_next v))"

definition gf_mult :: "bytes \<Rightarrow> bytes \<Rightarrow> bytes" where
  "gf_mult x y =
     fst (fold (\<lambda>i. fold (gf_step x i) [0..<8]) [0..<16] (replicate 16 0, take 16 y))"

fun ghash_blocks :: "bytes \<Rightarrow> nat \<Rightarrow> bytes \<Rightarrow> bytes \<Rightarrow> bytes" where
  "ghash_blocks h 0 x y = y"
| "ghash_blocks h (Suc m) x y = ghash_blocks h m (drop 16 x) (gf_mult (xor_bytes y (take 16 x)) h)"

definition ghash :: "bytes \<Rightarrow> bytes \<Rightarrow> bytes \<Rightarrow> bytes" where
  "ghash h x y =
     (let m = length x div 16; y1 = ghash_blocks h m x y; tail = drop (16 * m) x
      in if tail \<noteq> [] then gf_mult (xor_bytes y1 (tail @ replicate (16 - length tail) 0)) h else y1)"

fun gctr_loop :: "(bytes \<Rightarrow> bytes) \<Rightarrow> nat \<Rightarrow> bytes \<Rightarrow> bytes \<Rightarrow> bytes" where
  "gctr_loop E 0 cb x = xor_bytes x (take (length x) (E cb))"
| "gctr_loop E (Suc n) cb x = xor_bytes (E cb) (take 16 x) @ gctr_loop E n (inc32 cb) (drop 16 x)"

definition aes_gctr :: "(bytes \<Rightarrow> bytes) \<Rightarrow> bytes \<Rightarrow> bytes \<Rightarrow> bytes" where
  "aes_gctr E icb x = (if x = [] then [] else gctr_loop E (length x div 16) (take 16 icb) x)"

definition aes_gcm_init_hash_subkey :: "bytes \<Rightarrow> nat \<Rightarrow> (aes_ctx \<times> bytes) option" where
  "aes_gcm_init_hash_subkey key key_len =
     (case aes_encrypt_init key key_len of
        None \<Rightarrow> None
      | Some ctx \<Rightarrow> Some (ctx, aes_encrypt ctx (replicate 16 0)))"

definition aes_gcm_prepare_j0 :: "bytes \<Rightarrow> bytes \<Rightarrow> bytes" where
  "aes_gcm_prepare_j0 iv H =
     (if length iv = 12 then (iv @ replicate 4 0)[15 := 1]
      else ghash H (WPA_PUT_BE64 0 @ WPA_PUT_BE64 (of_nat (length iv) * 8)) (ghash H iv (replicate 16 0)))"

definition aes_gcm_gctr :: "(bytes \<Rightarrow> bytes) \<Rightarrow> bytes \<Rightarrow> bytes \<Rightarrow> bytes" where
  "aes_gcm_gctr E J0 inp = (if inp = [] then [] else aes_gctr E (inc32 (take 16 J0)) inp)"

definition aes_gcm_ghash :: "bytes \<Rightarrow> bytes \<Rightarrow> bytes \<Rightarrow> bytes" where
  "aes_gcm_ghash H aad crypt =
     ghash H (WPA_PUT_BE64 (of_nat (length aad) * 8) @ WPA_PUT_BE64 (of_nat (length crypt) * 8))
       (ghash H crypt (ghash H aad (replicate 16 0)))"

definition aes_gcm_ae :: "bytes \<Rightarrow> nat \<Rightarrow> bytes \<Rightarrow> bytes \<Rightarrow> bytes \<Rightarrow> (bytes \<times> bytes) outcome" where
  "aes_gcm_ae key key_len iv plain aad =
     (case aes_gcm_init_hash_subkey key key_len of
        None \<Rightarrow> Ret (- 1)
      | Some (ctx, H) \<Rightarrow>
          let J0 = aes_gcm_prepare_j0 iv H;
              crypt = aes_gcm_gctr (aes_encrypt ctx) J0 plain;
              S = aes_gcm_ghash H aad crypt
          in Ok (crypt, aes_gctr (aes_encrypt ctx) J0 S))"

definition aes_gcm_ad :: "bytes \<Rightarrow> nat \<Rightarrow> bytes \<Rightarrow> bytes \<Rightarrow> bytes \<Rightarrow> bytes \<Rightarrow> bytes outcome" where
  "aes_gcm_ad key key_len iv crypt aad tag =
     (case aes_gcm_init_hash_subkey key key_len of
        None \<Rightarrow> Ret (- 1)
      | Some (ctx, H) \<Rightarrow>
          let J0 = aes_gcm_prepare_j0 iv H;
              plain = aes_gcm_gctr (aes_encrypt ctx) J0 crypt;
              S = aes_gcm_ghash H aad crypt;
              T = aes_gctr (aes_encrypt ctx) J0 S
          in if take 16 tag \<noteq> T then Ret (- 1) else Ok plain)"

definition aes_gmac :: "bytes \<Rightarrow> nat \<Rightarrow> bytes \<Rightarrow> bytes \<Rightarrow> bytes outcome" where
  "aes_gmac key key_len iv aad =
     (case aes_gcm_ae key key_len iv [] aad of Fault \<Rightarrow> Fault | Ret r \<Rightarrow> Ret r | Ok (crypt, tag) \<Rightarrow> Ok tag)"

section \<open>Multiplication in the field of 2 to the 128 elements\<close>

text \<open>Bit \<open>k\<close> of a block in the order of the mode: bit 0 is the most significant bit of byte 0.\<close>

definition bbit :: "bytes \<Rightarrow> nat \<Rightarrow> bool" where
  "bbit b k = bit (b ! (k div 8)) (7 - k mod 8)"

lemma block_eqI:
  assumes "length a = 16" "length b = 16" "\<And>k. k < 128 \<Longrightarrow> bbit a k = bbit b k"
  shows "a = b"
proof (rule nth_equalityI)
  fix i assume "i < length a"
  then have i: "i < 16" using assms by simp
  show "a ! i = b ! i"
  proof (rule bit_word_eqI)
    fix n assume "n < LENGTH(8)"
    then have n: "n < 8" by simp
    let ?k = "8 * i + (7 - n)"
    have "?k div 8 = i" using n by (simp add: div_nat_eqI)
    moreover have "?k mod 8 = 7 - n" using n by (subst mod_mult_self4) simp
    ultimately
    show "bit (a ! i) n = bit (b ! i) n"
      using assms(3) [of ?k] i n by (simp add: bbit_def)
  qed
qed (use assms in simp)

lemma bbit_xor [simp]:
  "length a = 16 \<Longrightarrow> length b = 16 \<Longrightarrow> k < 128 \<Longrightarrow> bbit (xor_bytes a b) k = (bbit a k \<noteq> bbit b k)"
  by (simp add: bbit_def nth_xor_bytes bit_xor_iff)

lemma bbit_zero [simp]: "k < 128 \<Longrightarrow> \<not> bbit (replicate 16 0) k"
  by (simp add: bbit_def)

lemma and_bit_nonzero: "(x :: u8) AND push_bit n 1 \<noteq> 0 \<longleftrightarrow> bit x n"
  using bit_iff_and_push_bit_not_eq_0 [of x n] by simp

text \<open>The shift as one list of bytes.\<close>

definition shr :: "u8 \<Rightarrow> u8 \<Rightarrow> u8" where
  "shr hi x = drop_bit 1 x OR (if bit hi 0 then 0x80 else 0)"

lemma and_1_bit0: "((x :: u8) AND 1 \<noteq> 0) = bit x 0"
  using and_bit_nonzero [of x 0] by simp

lemma bit_0x80: "bit (0x80 :: u8) n \<longleftrightarrow> n = 7"
proof -
  have m: "(0x80 :: u8) = push_bit 7 1" by simp
  show ?thesis unfolding m bit_push_bit_iff by (auto simp: bit_1_iff)
qed

lemma bit_0x80000000: "bit (0x80000000 :: u32) n \<longleftrightarrow> n = 31"
proof -
  have m: "(0x80000000 :: u32) = push_bit 31 1" by simp
  show ?thesis unfolding m bit_push_bit_iff by (auto simp: bit_1_iff)
qed

lemma bit_shr: "bit (shr hi x) n \<longleftrightarrow> (if n = 7 then bit hi 0 else bit x (Suc n))"
  by (auto simp: shr_def bit_or_iff bit_drop_bit_eq bit_0x80 simp del: bit_numeral_word_iff dest: bit_u8D)

lemma shift_word_w32:
  "WPA_PUT_BE32 (if carry then drop_bit 1 (w32 a b c d) OR 0x80000000 else drop_bit 1 (w32 a b c d)) =
     [shr (if carry then 1 else 0) a, shr a b, shr b c, shr c d]"
proof -
  have s: "\<not> n < k \<Longrightarrow> Suc (n - k) = Suc n - k" for n k :: nat by simp
  have e: "(if carry then drop_bit 1 (w32 a b c d) OR 0x80000000 else drop_bit 1 (w32 a b c d)) =
      w32 (shr (if carry then 1 else 0) a) (shr a b) (shr b c) (shr c d)"
    by (rule bit_word_eqI)
      (auto simp: bit_w32 bit_shr bit_or_iff bit_drop_bit_eq bit_0x80000000 s bit_1_iff simp del: bit_numeral_word_iff dest: bit_u8D)
  show ?thesis unfolding e by (rule WPA_PUT_BE32_w32)
qed

text \<open>\<open>shift_right_block\<close> is the shift of the whole 128-bit block by one.\<close>

lemma shift_right_block_bytes:
  "shift_right_block [a0, a1, a2, a3, a4, a5, a6, a7, a8, a9, a10, a11, a12, a13, a14, a15] =
     [shr 0 a0, shr a0 a1, shr a1 a2, shr a2 a3, shr a3 a4, shr a4 a5, shr a5 a6, shr a6 a7,
      shr a7 a8, shr a8 a9, shr a9 a10, shr a10 a11, shr a11 a12, shr a12 a13, shr a13 a14, shr a14 a15]"
proof -
  have c: "shr (if x AND 1 \<noteq> 0 then 1 else 0) y = shr x y" for x y
    by (simp add: shr_def and_1_bit0)
  have f: "shr (if False then 1 else 0) y = shr 0 y" for y by simp
  show ?thesis
    by (simp only: shift_right_block_def shift_word_def Let_def WPA_GET_BE32_w32 shift_word_w32 c f)
      (simp add: put_bytes_def c f)
qed

lemma length_shift_right_block [simp]:
  assumes "length v = 16" shows "length (shift_right_block v) = 16"
  using assms by (rule list_length_16E) (simp add: shift_right_block_bytes)

lemma bbit_shift_right_block:
  assumes "length v = 16" "k < 128"
  shows "bbit (shift_right_block v) k \<longleftrightarrow> 0 < k \<and> bbit v (k - 1)"
proof -
  have nth: "shift_right_block v ! i = shr (if i = 0 then 0 else v ! (i - 1)) (v ! i)" if "i < 16" for i
    using assms(1) by (rule list_length_16E)
      (use that in \<open>auto simp: shift_right_block_bytes less_Suc_eq numeral_eq_Suc\<close>)
  have i: "k div 8 < 16" using assms(2) by simp
  show ?thesis
  proof (cases "k mod 8 = 0")
    case True
    then obtain q where q: "k = 8 * q" by (metis mod_0_imp_dvd dvdE)
    have "0 < q \<Longrightarrow> (8 * q - 1) div 8 = q - 1 \<and> (8 * q - 1) mod 8 = 7" by (cases q) simp_all
    with q i show ?thesis
      by (auto simp: bbit_def nth bit_shr)
  next
    case False
    then have "Suc (7 - k mod 8) = 7 - (k - 1) mod 8" "(k - 1) div 8 = k div 8" "0 < k"
      by (cases k; simp add: mod_Suc div_Suc split: if_splits)+
    moreover have "7 - k mod 8 \<noteq> 7" using False by simp
    ultimately show ?thesis using i
      by (simp add: bbit_def nth bit_shr)
  qed
qed

lemma length_gf_next [simp]: "length v = 16 \<Longrightarrow> length (gf_next v) = 16"
  by (simp add: gf_next_def Let_def)

lemma bit_0xe1: "bit (0xe1 :: u8) n \<longleftrightarrow> n \<in> {0, 5, 6, 7}"
proof (cases "n < 8")
  case True
  then show ?thesis by (auto simp: less_Suc_eq numeral_eq_Suc)
next
  case False
  then show ?thesis by (auto dest: bit_u8D)
qed

text \<open>Multiplication by x: the shift, and the reduction by bits 0, 1, 2 and 7 when bit 127 falls out.\<close>

lemma bbit_gf_next:
  assumes "length v = 16" "k < 128"
  shows "bbit (gf_next v) k \<longleftrightarrow> (0 < k \<and> bbit v (k - 1)) \<noteq> (bbit v 127 \<and> k \<in> {0, 1, 2, 7})"
proof -
  have c: "v ! 15 AND 1 \<noteq> 0 \<longleftrightarrow> bbit v 127" by (simp only: and_1_bit0) (simp add: bbit_def)
  have k: "k div 8 = 0 \<longleftrightarrow> k < 8" by auto
  have "bbit ((shift_right_block v)[0 := shift_right_block v ! 0 XOR 0xe1]) k \<longleftrightarrow>
      bbit (shift_right_block v) k \<noteq> (k \<in> {0, 1, 2, 7})"
    using assms
    by (auto simp: bbit_def nth_list_update k bit_xor_iff bit_0xe1 simp del: bit_numeral_word_iff)
  then show ?thesis
    using assms by (simp only: gf_next_def c Let_def) (simp add: bbit_shift_right_block)
qed

text \<open>Sums of blocks (XOR), with the laws that turn the two loops into a symmetric double sum.\<close>

abbreviation zblock :: bytes where "zblock \<equiv> replicate 16 0"

definition pick :: "bool \<Rightarrow> bytes \<Rightarrow> bytes" where
  "pick b v = (if b then v else zblock)"

primrec xsum :: "nat \<Rightarrow> (nat \<Rightarrow> bytes) \<Rightarrow> bytes" where
  "xsum 0 f = zblock"
| "xsum (Suc n) f = xor_bytes (xsum n f) (f n)"

lemma length_pick [simp]: "length v = 16 \<Longrightarrow> length (pick b v) = 16"
  by (simp add: pick_def)

lemma length_xsum [simp]: "(\<And>i. length (f i) = 16) \<Longrightarrow> length (xsum n f) = 16"
  by (induction n) (simp_all add: length_xor_bytes)

lemma length_xor16 [simp]: "length a = 16 \<Longrightarrow> length b = 16 \<Longrightarrow> length (xor_bytes a b) = 16"
  by (simp add: length_xor_bytes)

lemma xor_zblock [simp]: "length a = 16 \<Longrightarrow> xor_bytes a zblock = a" "length a = 16 \<Longrightarrow> xor_bytes zblock a = a"
  by (rule nth_equalityI; simp add: nth_xor_bytes)+

lemma xor_self: "length a = 16 \<Longrightarrow> xor_bytes a a = zblock"
  by (rule nth_equalityI) (simp_all add: nth_xor_bytes)

lemma xor_bytes_left_commute: "xor_bytes a (xor_bytes b c) = xor_bytes b (xor_bytes a c)"
  by (metis xor_bytes_assoc xor_bytes_commute)

lemmas xor_ac = xor_bytes_assoc xor_bytes_commute xor_bytes_left_commute

lemma xsum_cong: "(\<And>i. i < n \<Longrightarrow> f i = g i) \<Longrightarrow> xsum n f = xsum n g"
  by (induction n) simp_all

lemma xsum_xor:
  "(\<And>i. length (f i) = 16) \<Longrightarrow> (\<And>i. length (g i) = 16) \<Longrightarrow>
   xsum n (\<lambda>i. xor_bytes (f i) (g i)) = xor_bytes (xsum n f) (xsum n g)"
  by (induction n) (simp_all add: xor_ac)

lemma xsum_zero [simp]: "xsum n (\<lambda>i. zblock) = zblock"
  by (induction n) simp_all

lemma xsum_swap:
  "(\<And>i j. length (f i j) = 16) \<Longrightarrow>
   xsum n (\<lambda>i. xsum m (f i)) = xsum m (\<lambda>j. xsum n (\<lambda>i. f i j))"
  by (induction n) (simp_all add: xsum_xor)

lemma pick_xsum: "pick b (xsum n f) = xsum n (\<lambda>i. pick b (f i))"
  by (simp add: pick_def)

lemma gf_next_linear:
  assumes "length a = 16" "length b = 16"
  shows "gf_next (xor_bytes a b) = xor_bytes (gf_next a) (gf_next b)"
  by (rule block_eqI) (use assms in \<open>auto simp: bbit_gf_next\<close>)

lemma gf_next_zero [simp]: "gf_next zblock = zblock"
  by (rule block_eqI) (auto simp: bbit_gf_next)

lemma gf_next_pick: "gf_next (pick b v) = pick b (gf_next v)"
  by (simp add: pick_def)

lemma gf_next_xsum:
  "(\<And>i. length (f i) = 16) \<Longrightarrow> gf_next (xsum n f) = xsum n (\<lambda>i. gf_next (f i))"
  by (induction n) (simp_all add: gf_next_linear)

lemma length_gf_pow [simp]: "length v = 16 \<Longrightarrow> length ((gf_next ^^ k) v) = 16"
  by (induction k) simp_all

lemma gf_pow_linear:
  "length a = 16 \<Longrightarrow> length b = 16 \<Longrightarrow>
   (gf_next ^^ k) (xor_bytes a b) = xor_bytes ((gf_next ^^ k) a) ((gf_next ^^ k) b)"
  by (induction k) (simp_all add: gf_next_linear)

lemma gf_pow_xsum:
  "(\<And>i. length (f i) = 16) \<Longrightarrow> (gf_next ^^ k) (xsum n f) = xsum n (\<lambda>i. (gf_next ^^ k) (f i))"
  by (induction k) (simp_all add: gf_next_xsum)

lemma gf_pow_pick: "(gf_next ^^ k) (pick b v) = pick b ((gf_next ^^ k) v)"
  by (induction k) (simp_all add: gf_next_pick)

text \<open>The element 1 is the block with bit 0 alone, and its multiples by powers of x are the unit blocks.\<close>

definition gf_one :: bytes where
  "gf_one = 0x80 # replicate 15 0"

lemma length_gf_one [simp]: "length gf_one = 16"
  by (simp add: gf_one_def)

lemma bbit_gf_one: "k < 128 \<Longrightarrow> bbit gf_one k \<longleftrightarrow> k = 0"
  by (auto simp: bbit_def gf_one_def nth_Cons bit_0x80 simp del: bit_numeral_word_iff replicate.simps
      split: nat.split)

lemma bbit_unit: "j < 128 \<Longrightarrow> k < 128 \<Longrightarrow> bbit ((gf_next ^^ j) gf_one) k \<longleftrightarrow> k = j"
proof (induction j arbitrary: k)
  case 0
  then show ?case by (simp add: bbit_gf_one)
next
  case (Suc j)
  then show ?case by (auto simp: bbit_gf_next)
qed

lemma bbit_xsum_units:
  "k < 128 \<Longrightarrow> n \<le> 128 \<Longrightarrow>
   bbit (xsum n (\<lambda>j. pick (p j) ((gf_next ^^ j) gf_one))) k \<longleftrightarrow> k < n \<and> p k"
  by (induction n) (auto simp: pick_def bbit_unit less_Suc_eq)

lemma block_as_units:
  "length y = 16 \<Longrightarrow> y = xsum 128 (\<lambda>j. pick (bbit y j) ((gf_next ^^ j) gf_one))"
  by (rule block_eqI) (simp_all add: bbit_xsum_units)

text \<open>The two nested loops are one sum over the bits of \<open>x\<close>.\<close>

lemma gf_step_bbit:
  assumes "length z = 16" "length v = 16" "j < 8"
  shows "gf_step x i j (z, v) = (xor_bytes z (pick (bbit x (8 * i + j)) v), gf_next v)"
proof -
  have "(8 * i + j) div 8 = i" "(8 * i + j) mod 8 = j" using assms(3) by (simp_all add: div_nat_eqI)
  then have "x ! i AND push_bit (7 - j) 1 \<noteq> 0 \<longleftrightarrow> bbit x (8 * i + j)"
    by (simp only: and_bit_nonzero bbit_def)
  with assms show ?thesis by (auto simp: gf_step_def pick_def)
qed

lemma gf_inner:
  assumes "length z = 16" "length v = 16" "n \<le> 8"
  shows "fold (gf_step x i) [0..<n] (z, v) =
    (xor_bytes z (xsum n (\<lambda>j. pick (bbit x (8 * i + j)) ((gf_next ^^ j) v))), (gf_next ^^ n) v)"
  using assms(3) by (induction n) (simp_all add: assms(1,2) gf_step_bbit xor_bytes_assoc)

lemma xsum_add: "(\<And>i. length (f i) = 16) \<Longrightarrow> xsum (m + n) f = xor_bytes (xsum m f) (xsum n (\<lambda>j. f (m + j)))"
  by (induction n) (simp_all add: xor_bytes_assoc)

lemma gf_outer:
  assumes "length v = 16"
  shows "fold (\<lambda>i. fold (gf_step x i) [0..<8]) [0..<n] (zblock, v) =
    (xsum (8 * n) (\<lambda>j. pick (bbit x j) ((gf_next ^^ j) v)), (gf_next ^^ (8 * n)) v)"
proof (induction n)
  case 0
  then show ?case by simp
next
  case (Suc n)
  let ?f = "\<lambda>j. pick (bbit x j) ((gf_next ^^ j) v)"
  have "xsum (8 * Suc n) ?f = xor_bytes (xsum (8 * n) ?f) (xsum 8 (\<lambda>j. ?f (8 * n + j)))"
    using xsum_add [of ?f "8 * n" 8] assms by (simp add: add.commute)
  moreover have "(gf_next ^^ (8 * n + j)) v = (gf_next ^^ j) ((gf_next ^^ (8 * n)) v)" for j
    by (metis add.commute comp_apply funpow_add)
  moreover have "8 * Suc n = 8 * n + 8" by simp
  moreover have "[0..<Suc n] = [0..<n] @ [n]" by simp
  moreover have "(gf_next ^^ 8) ((gf_next ^^ (8 * n)) v) = (gf_next ^^ (8 * n + 8)) v"
    by (metis add.commute comp_apply funpow_add)
  ultimately show ?case
    using Suc assms by (simp only: fold_append fold_simps comp_apply) (simp add: gf_inner)
qed

lemma gf_mult_sum:
  "length y = 16 \<Longrightarrow> gf_mult x y = xsum 128 (\<lambda>i. pick (bbit x i) ((gf_next ^^ i) y))"
  using gf_outer [of y x 16] by (simp add: gf_mult_def del: replicate.simps)

lemma length_gf_mult [simp]: "length y = 16 \<Longrightarrow> length (gf_mult x y) = 16"
  by (simp add: gf_mult_sum)

text \<open>
  \<open>gf_mult\<close> is a multiplication: commutative, additive in each argument (so distributive
  over XOR, the addition of the field), with the block \<open>80 00 .. 00\<close> as its unit.
\<close>

theorem gf_mult_ring:
  assumes "length x = 16" "length x' = 16" "length y = 16"
  shows "gf_mult x y = gf_mult y x \<and>
    gf_mult (xor_bytes x x') y = xor_bytes (gf_mult x y) (gf_mult x' y) \<and>
    gf_mult (0x80 # replicate 15 0) y = y"
proof (intro conjI)
  let ?e = "\<lambda>k. (gf_next ^^ k) gf_one"
  have double: "gf_mult a b = xsum 128 (\<lambda>i. xsum 128 (\<lambda>j. pick (bbit a i \<and> bbit b j) (?e (i + j))))"
    if "length b = 16" for a b
  proof -
    have "pick (bbit a i) ((gf_next ^^ i) b) = xsum 128 (\<lambda>j. pick (bbit a i \<and> bbit b j) (?e (i + j)))" for i
    proof -
      have "(gf_next ^^ i) b = xsum 128 (\<lambda>j. pick (bbit b j) (?e (i + j)))"
        by (subst block_as_units [OF that]) (simp add: gf_pow_xsum gf_pow_pick funpow_add)
      moreover have "pick p (pick q v) = pick (p \<and> q) v" for p q v by (simp add: pick_def)
      ultimately show ?thesis by (simp only: pick_xsum)
    qed
    then show ?thesis by (simp only: gf_mult_sum [OF that])
  qed
  show "gf_mult x y = gf_mult y x"
    unfolding double [OF assms(3)] double [OF assms(1)]
    by (subst xsum_swap) (simp_all add: conj_commute add.commute)
  have "pick (bbit (xor_bytes x x') i) v = xor_bytes (pick (bbit x i) v) (pick (bbit x' i) v)"
    if "i < 128" "length v = 16" for i v
    using that assms by (auto simp: pick_def xor_self)
  then show "gf_mult (xor_bytes x x') y = xor_bytes (gf_mult x y) (gf_mult x' y)"
    unfolding gf_mult_sum [OF assms(3)] using assms
    by (subst xsum_xor [symmetric]) (auto intro: xsum_cong)
  have "xsum (Suc n) (\<lambda>i. pick (bbit gf_one i) ((gf_next ^^ i) y)) = y" if "n < 128" for n
    using that by (induction n) (simp_all add: assms pick_def bbit_gf_one)
  from this [of 127] show "gf_mult (0x80 # replicate 15 0) y = y"
    by (simp only: gf_mult_sum [OF assms(3)] gf_one_def) simp
qed

theorem gf_mult_ring_witness:
  "gf_mult (replicate 16 3) (replicate 16 5) = gf_mult (replicate 16 5) (replicate 16 3)"
  using gf_mult_ring [of "replicate 16 3" "replicate 16 7" "replicate 16 5"] by simp

section \<open>Authenticated encryption\<close>

lemma length_inc32 [simp]: "length block = 16 \<Longrightarrow> length (inc32 block) = 16"
  by (simp add: inc32_def byte_simps)

lemma length_ghash_blocks [simp]:
  "length h = 16 \<Longrightarrow> length y = 16 \<Longrightarrow> length (ghash_blocks h m x y) = 16"
  by (induction m arbitrary: x y) simp_all

lemma length_ghash [simp]: "length h = 16 \<Longrightarrow> length y = 16 \<Longrightarrow> length (ghash h x y) = 16"
  by (simp add: ghash_def Let_def)

context block_cipher
begin

lemma gctr_loop_involution:
  "n = length x div 16 \<Longrightarrow>
   gctr_loop (enc e) n cb (gctr_loop (enc e) n cb x) = x \<and> length (gctr_loop (enc e) n cb x) = length x"
proof (induction n arbitrary: cb x)
  case 0
  then have "length x < 16" by (metis div_eq_0_iff zero_neq_numeral)
  then show ?case by (simp add: byte_simps)
next
  case (Suc n)
  then have len: "16 \<le> length x" by (metis Suc_neq_Zero div_less not_le)
  then have n: "n = length (drop 16 x) div 16" using Suc.prems by (simp add: le_div_geq)
  let ?b = "xor_bytes (enc e cb) (take 16 x)"
  have b: "length ?b = 16" "xor_bytes (enc e cb) ?b = take 16 x"
    using len xor_bytes_cancel [of "take 16 x" "enc e cb"] by (simp_all add: length_xor_bytes xor_bytes_commute)
  show ?case
    using Suc.IH [OF n, of "inc32 cb"] b len by simp
qed

lemma aes_gctr_involution: "aes_gctr (enc e) icb (aes_gctr (enc e) icb x) = x"
  and length_aes_gctr [simp]: "length (aes_gctr (enc e) icb x) = length x"
  using gctr_loop_involution [of "length x div 16" x e "take 16 icb"] by (auto simp: aes_gctr_def)

lemma aes_gcm_gctr_involution: "aes_gcm_gctr (enc e) J0 (aes_gcm_gctr (enc e) J0 x) = x"
proof -
  have "x \<noteq> [] \<Longrightarrow> aes_gctr (enc e) cb x \<noteq> []" for cb
    by (metis length_0_conv length_aes_gctr)
  then show ?thesis using aes_gctr_involution by (simp add: aes_gcm_gctr_def)
qed

end

text \<open>
  C24: GCM authenticity and round trip: with a 16-byte tag, \<open>aes_gcm_ad\<close> returns \<open>plain\<close> exactly
  when \<open>aes_gcm_ae\<close> of \<open>plain\<close> under the same key, nonce and associated data gives that
  ciphertext and tag; both refuse every key length but 16, 24 and 32 and encryption accepts
  all of these.
\<close>

theorem aes_gcm_ad_iff:
  assumes "length tag = 16"
  shows "(aes_gcm_ad key key_len iv crypt aad tag = Ok plain \<longleftrightarrow>
      aes_gcm_ae key key_len iv plain aad = Ok (crypt, tag)) \<and>
    (if key_len \<in> {16, 24, 32} then \<exists>c t. aes_gcm_ae key key_len iv plain aad = Ok (c, t) \<and> length t = 16
     else aes_gcm_ae key key_len iv plain aad = Ret (- 1) \<and> aes_gcm_ad key key_len iv crypt aad tag = Ret (- 1))"
proof (cases "aes_encrypt_init key key_len")
  case None
  then show ?thesis
    using aes_encrypt_init_None [of key key_len]
    by (simp add: aes_gcm_ae_def aes_gcm_ad_def aes_gcm_init_hash_subkey_def)
next
  case (Some ctx)
  let ?E = "aes_encrypt ctx" let ?H = "?E zblock" let ?J0 = "aes_gcm_prepare_j0 iv ?H"
  let ?T = "\<lambda>c. aes_gctr ?E ?J0 (aes_gcm_ghash ?H aad c)"
  have k: "key_len \<in> {16, 24, 32}" using Some aes_encrypt_init_None [of key key_len] by auto
  have H: "length ?H = 16" by (rule aes.length_enc)
  have T: "length (?T c) = 16" for c
    using H by (simp add: aes.length_aes_gctr aes_gcm_ghash_def del: replicate.simps)
  have ae: "aes_gcm_ae key key_len iv p aad = Ok (aes_gcm_gctr ?E ?J0 p, ?T (aes_gcm_gctr ?E ?J0 p))" for p
    using Some by (simp add: aes_gcm_ae_def aes_gcm_init_hash_subkey_def Let_def)
  have ad: "aes_gcm_ad key key_len iv crypt aad tag =
      (if tag \<noteq> ?T crypt then Ret (- 1) else Ok (aes_gcm_gctr ?E ?J0 crypt))"
    using Some assms by (simp add: aes_gcm_ad_def aes_gcm_init_hash_subkey_def Let_def)
  show ?thesis
    using k T by (auto simp: ae ad aes.aes_gcm_gctr_involution)
qed

theorem aes_gcm_ad_iff_witness:
  "\<exists>c t. aes_gcm_ae (replicate 16 1) 16 (replicate 12 2) [4, 5, 6] [9] = Ok (c, t) \<and>
     aes_gcm_ad (replicate 16 1) 16 (replicate 12 2) c [9] t = Ok [4, 5, 6]"
proof -
  obtain c t where "aes_gcm_ae (replicate 16 1) 16 (replicate 12 2) [4, 5, 6] [9] = Ok (c, t)" "length t = 16"
    using aes_gcm_ad_iff [of "replicate 16 0" "replicate 16 1" 16 "replicate 12 2" "[]" "[9]" "[4, 5, 6]"] by auto
  with aes_gcm_ad_iff [of t "replicate 16 1" 16 "replicate 12 2" c "[9]" "[4, 5, 6]"] show ?thesis by blast
qed

end
