(* ===== verification/Milenage.thy ===== *)
theory Milenage
  imports Aes
begin

text \<open>
  The 3GPP AKA example algorithm set: \<open>src/mininet-wifi/hostap/src/crypto/milenage.c\<close>.  An output
  pointer that may be NULL is a flag of the call, and the buffers written are a record of
  options.  Array arguments have the sizes of the documentation: \<open>opc\<close>, \<open>k\<close> and \<open>rand\<close> 16 bytes,
  \<open>sqn\<close> 6, \<open>amf\<close> 2, \<open>autn\<close> 16 and \<open>auts\<close> 14.
\<close>

unbundle bit_operations_syntax

section \<open>Definitions\<close>

definition xor16 :: "bytes \<Rightarrow> bytes \<Rightarrow> bytes" where
  "xor16 a b = map (\<lambda>i. a ! i XOR b ! i) [0..<16]"

definition xor6 :: "bytes \<Rightarrow> bytes \<Rightarrow> bytes" where
  "xor6 a b = map (\<lambda>i. a ! i XOR b ! i) [0..<6]"

text \<open>\<open>for (i = 0; i < 16; i++) tmp[(i + r) % 16] = a[i] ^ b[i]\<close>.\<close>

definition rot_xor :: "nat \<Rightarrow> bytes \<Rightarrow> bytes \<Rightarrow> bytes" where
  "rot_xor r a b = fold (\<lambda>i tmp. tmp[(i + r) mod 16 := a ! i XOR b ! i]) [0..<16] (replicate 16 0)"

definition milenage_f1 :: "bytes \<Rightarrow> bytes \<Rightarrow> bytes \<Rightarrow> bytes \<Rightarrow> bytes \<Rightarrow> (bytes \<times> bytes) outcome" where
  "milenage_f1 opc k rand sqn amf =
     (case aes_128_encrypt_block k (xor16 rand opc) of
        None \<Rightarrow> Ret (- 1)
      | Some tmp1 \<Rightarrow>
          let tmp2 = take 6 sqn @ take 2 amf; tmp2 = tmp2 @ tmp2;
              tmp3 = xor16 (rot_xor 8 tmp2 opc) tmp1
          in case aes_128_encrypt_block k tmp3 of
               None \<Rightarrow> Ret (- 1)
             | Some out \<Rightarrow> let tmp1 = xor16 out opc in Ok (take 8 tmp1, get_bytes tmp1 8 8))"

record f2345_out =
  o_res :: "bytes option"
  o_ck :: "bytes option"
  o_ik :: "bytes option"
  o_ak :: "bytes option"
  o_akstar :: "bytes option"

text \<open>One of f3, f4 and f5*: rotate by \<open>r\<close>, add the constant \<open>c\<close>, encrypt, add \<open>OP_C\<close>.\<close>

definition f_branch :: "bytes \<Rightarrow> bytes \<Rightarrow> bytes \<Rightarrow> nat \<Rightarrow> u8 \<Rightarrow> bytes option" where
  "f_branch opc k tmp2 r c =
     (let tmp1 = rot_xor r tmp2 opc
      in map_option (\<lambda>out. xor16 out opc) (aes_128_encrypt_block k (tmp1[15 := tmp1 ! 15 XOR c])))"

definition milenage_f2345 :: "bytes \<Rightarrow> bytes \<Rightarrow> bytes \<Rightarrow> bool \<Rightarrow> bool \<Rightarrow> bool \<Rightarrow> bool \<Rightarrow> bool \<Rightarrow> f2345_out outcome" where
  "milenage_f2345 opc k rand res ck ik ak akstar =
     (case aes_128_encrypt_block k (xor16 rand opc) of
        None \<Rightarrow> Ret (- 1)
      | Some tmp2 \<Rightarrow>
          let tmp1 = xor16 tmp2 opc in
          case aes_128_encrypt_block k (tmp1[15 := tmp1 ! 15 XOR 1]) of
            None \<Rightarrow> Ret (- 1)
          | Some out \<Rightarrow>
              let tmp3 = xor16 out opc; o_ck = f_branch opc k tmp2 12 2;
                  o_ik = f_branch opc k tmp2 8 4; o_ak5 = f_branch opc k tmp2 4 8
              in if ck \<and> o_ck = None then Ret (- 1)
                 else if ik \<and> o_ik = None then Ret (- 1)
                 else if akstar \<and> o_ak5 = None then Ret (- 1)
                 else Ok \<lparr>o_res = if res then Some (get_bytes tmp3 8 8) else None,
                   o_ck = if ck then o_ck else None, o_ik = if ik then o_ik else None,
                   o_ak = if ak then Some (take 6 tmp3) else None,
                   o_akstar = if akstar then map_option (take 6) o_ak5 else None\<rparr>)"

record aka_vector =
  v_autn :: bytes
  v_ik :: bytes
  v_ck :: bytes
  v_res :: bytes

text \<open>\<open>None\<close> is \<open>*res_len = 0\<close>; otherwise \<open>*res_len = 8\<close> and the buffers are written.\<close>

definition milenage_generate :: "bytes \<Rightarrow> bytes \<Rightarrow> bytes \<Rightarrow> bytes \<Rightarrow> bytes \<Rightarrow> nat \<Rightarrow> aka_vector option" where
  "milenage_generate opc amf k sqn rand res_len =
     (if res_len < 8 then None
      else case milenage_f1 opc k rand sqn amf of
        Ok (mac_a, mac_s) \<Rightarrow>
          (case milenage_f2345 opc k rand True True True True False of
             Ok o5 \<Rightarrow> Some \<lparr>v_autn = xor6 sqn (the (o_ak o5)) @ take 2 amf @ mac_a,
               v_ik = the (o_ik o5), v_ck = the (o_ck o5), v_res = the (o_res o5)\<rparr>
           | _ \<Rightarrow> None)
      | _ \<Rightarrow> None)"

definition milenage_auts :: "bytes \<Rightarrow> bytes \<Rightarrow> bytes \<Rightarrow> bytes \<Rightarrow> bytes outcome" where
  "milenage_auts opc k rand auts =
     (case milenage_f2345 opc k rand False False False False True of
        Ok o5 \<Rightarrow>
          let sqn = xor6 auts (the (o_akstar o5)) in
          (case milenage_f1 opc k rand sqn [0, 0] of
             Ok (mac_a, mac_s) \<Rightarrow> if mac_s \<noteq> get_bytes auts 6 8 then Ret (- 1) else Ok sqn
           | _ \<Rightarrow> Ret (- 1))
      | _ \<Rightarrow> Ret (- 1))"

text \<open>The triplet \<open>(sres, kc)\<close>; built without \<open>GSM_MILENAGE_ALT_SRES\<close>.\<close>

definition gsm_milenage :: "bytes \<Rightarrow> bytes \<Rightarrow> bytes \<Rightarrow> (bytes \<times> bytes) outcome" where
  "gsm_milenage opc k rand =
     (case milenage_f2345 opc k rand True True True False False of
        Ok o5 \<Rightarrow>
          let res = the (o_res o5); ck = the (o_ck o5); ik = the (o_ik o5)
          in Ok (map (\<lambda>i. res ! i XOR res ! (i + 4)) [0..<4],
                 map (\<lambda>i. ck ! i XOR ck ! (i + 8) XOR ik ! i XOR ik ! (i + 8)) [0..<8])
      | _ \<Rightarrow> Ret (- 1))"

fun os_memcmp :: "bytes \<Rightarrow> bytes \<Rightarrow> int" where
  "os_memcmp (x # xs) (y # ys) = (if x = y then os_memcmp xs ys else uint x - uint y)"
| "os_memcmp _ _ = 0"

datatype aka_result =
    Check_ok f2345_out
  | Check_fail
  | Check_sync bytes

text \<open>\<open>Check_ok\<close>, \<open>Check_fail\<close> and \<open>Check_sync auts\<close> are the return values 0, \<open>-1\<close> and \<open>-2\<close>.\<close>

definition milenage_check :: "bytes \<Rightarrow> bytes \<Rightarrow> bytes \<Rightarrow> bytes \<Rightarrow> bytes \<Rightarrow> aka_result" where
  "milenage_check opc k sqn rand autn =
     (case milenage_f2345 opc k rand True True True True False of
        Ok o5 \<Rightarrow>
          let rx_sqn = xor6 autn (the (o_ak o5)) in
          if os_memcmp rx_sqn (take 6 sqn) \<le> 0 then
            (case milenage_f2345 opc k rand False False False False True of
               Ok o5' \<Rightarrow>
                 (case milenage_f1 opc k rand sqn [0, 0] of
                    Ok (mac_a, mac_s) \<Rightarrow> Check_sync (xor6 sqn (the (o_akstar o5')) @ mac_s)
                  | _ \<Rightarrow> Check_fail)
             | _ \<Rightarrow> Check_fail)
          else
            (case milenage_f1 opc k rand rx_sqn (get_bytes autn 6 2) of
               Ok (mac_a, mac_s) \<Rightarrow> if mac_a \<noteq> get_bytes autn 8 8 then Check_fail else Check_ok o5
             | _ \<Rightarrow> Check_fail)
      | _ \<Rightarrow> Check_fail)"

section \<open>Results\<close>

lemma length_xor_blk [simp]: "length (xor16 a b) = 16"
  by (simp add: xor16_def)

lemma length_xor_sqn [simp]: "length (xor6 a b) = 6"
  by (simp add: xor6_def)

lemma xor6_xor6 [simp]: "length a = 6 \<Longrightarrow> xor6 (xor6 a b) b = a"
  by (rule nth_equalityI) (simp_all add: xor6_def xor.assoc)

lemma xor6_append [simp]: "length a = 6 \<Longrightarrow> xor6 (a @ c) b = xor6 a b"
  by (simp add: xor6_def nth_append)

lemma xor6_take: "6 \<le> length a \<Longrightarrow> xor6 (xor6 a b) b = take 6 a"
  by (rule nth_equalityI) (simp_all add: xor6_def xor.assoc)

lemma aes_128_block: "\<exists>out. aes_128_encrypt_block k b = Some out \<and> length out = 16"
proof -
  obtain ctx where "aes_encrypt_init k 16 = Some ctx" using aes_encrypt_init_16(1) by blast
  then show ?thesis by (simp add: aes_128_encrypt_block_def)
qed

lemma f_branch_ok: "\<exists>out. f_branch opc k tmp r c = Some out \<and> length out = 16"
  using aes_128_block by (fastforce simp: f_branch_def Let_def)

lemma f1_ok: "\<exists>a s. milenage_f1 opc k rand sqn amf = Ok (a, s) \<and> length a = 8 \<and> length s = 8"
proof -
  obtain t where t: "aes_128_encrypt_block k (xor16 rand opc) = Some t" using aes_128_block by blast
  let ?m = "take 6 sqn @ take 2 amf"
  obtain out where "aes_128_encrypt_block k (xor16 (rot_xor 8 (?m @ ?m) opc) t) = Some out"
    using aes_128_block by blast
  with t show ?thesis by (simp add: milenage_f1_def Let_def length_get_bytes)
qed

text \<open>One call with every output gives all of them; a call that asks for less gives the same values.\<close>

lemma f2345_ok:
  "\<exists>res ck ik ak ak5. length ak = 6 \<and> length ak5 = 6 \<and> length res = 8 \<and> length ck = 16 \<and> length ik = 16 \<and>
     (\<forall>r c i a s. milenage_f2345 opc k rand r c i a s =
       Ok \<lparr>o_res = if r then Some res else None, o_ck = if c then Some ck else None,
         o_ik = if i then Some ik else None, o_ak = if a then Some ak else None,
         o_akstar = if s then Some ak5 else None\<rparr>)"
proof -
  obtain tmp2 where t: "aes_128_encrypt_block k (xor16 rand opc) = Some tmp2" using aes_128_block by blast
  let ?t1 = "xor16 tmp2 opc"
  obtain out where o: "aes_128_encrypt_block k (?t1[15 := ?t1 ! 15 XOR 1]) = Some out" using aes_128_block by blast
  obtain ck where ck: "f_branch opc k tmp2 12 2 = Some ck" "length ck = 16" using f_branch_ok by blast
  obtain ik where ik: "f_branch opc k tmp2 8 4 = Some ik" "length ik = 16" using f_branch_ok by blast
  obtain a5 where a5: "f_branch opc k tmp2 4 8 = Some a5" "length a5 = 16" using f_branch_ok by blast
  show ?thesis
    by (rule exI [of _ "get_bytes (xor16 out opc) 8 8"], rule exI [of _ ck], rule exI [of _ ik],
        rule exI [of _ "take 6 (xor16 out opc)"], rule exI [of _ "take 6 a5"])
      (simp add: milenage_f2345_def t o ck ik a5 Let_def length_get_bytes)
qed

lemma os_memcmp_be_nat:
  "length a = length b \<Longrightarrow> os_memcmp a b \<le> 0 \<longleftrightarrow> be_nat a \<le> be_nat b"
proof (induction a b rule: os_memcmp.induct)
  case (1 x xs y ys)
  have less: "u * p + m < v * p + n" if "u < v" "m < p" for u v p m n :: nat
  proof -
    have "u * p + m < u * p + p" using that by simp
    also have "\<dots> \<le> v * p" using that by (metis Suc_leI add.commute mult_Suc mult_le_mono1)
    finally show ?thesis by simp
  qed
  have b: "be_nat xs < 256 ^ length ys" "be_nat ys < 256 ^ length ys"
    using be_nat_less [of xs] be_nat_less [of ys] 1(2) by simp_all
  show ?case
  proof (cases "x = y")
    case True
    with 1 show ?thesis by (simp add: be_nat_Cons)
  next
    case False
    then have "unat x < unat y \<or> unat y < unat x" by (metis linorder_neqE_nat word_unat_eq_iff)
    moreover have "uint x = int (unat x)" "uint y = int (unat y)" by simp_all
    ultimately have sign: "uint x - uint y \<le> 0 \<longleftrightarrow> unat x < unat y" by linarith
    have l: "length xs = length ys" using 1(2) by simp
    from \<open>unat x < unat y \<or> unat y < unat x\<close> show ?thesis
    proof
      assume "unat x < unat y"
      from less [OF this b(1), of "be_nat ys"] sign this show ?thesis
        by (simp add: be_nat_Cons False l)
    next
      assume "unat y < unat x"
      from less [OF this b(2), of "be_nat xs"] sign this show ?thesis
        by (simp add: be_nat_Cons False l)
    qed
  qed
qed auto

lemma autn_parts:
  assumes "length ak = 6" "length sqn = 6" "length amf = 2" "length mac = 8"
  defines "autn \<equiv> xor6 sqn ak @ amf @ mac"
  shows "xor6 autn ak = sqn" "get_bytes autn 6 2 = amf" "get_bytes autn 8 8 = mac" "length autn = 16"
  using assms by (simp_all add: get_bytes_def)

lemma autn_split:
  "length autn = 16 \<Longrightarrow> autn = xor6 (xor6 autn ak) ak @ get_bytes autn 6 2 @ get_bytes autn 8 8"
proof -
  assume l: "length autn = 16"
  have "take (6 + 2) autn = take 6 autn @ take 2 (drop 6 autn)" by (rule take_add)
  moreover have "autn = take 8 autn @ drop 8 autn" by simp
  ultimately have "autn = take 6 autn @ take 2 (drop 6 autn) @ drop 8 autn" by simp
  with l show ?thesis by (simp add: xor6_take get_bytes_def)
qed

text \<open>
  Agreement of network and USIM.  A vector generated with sequence number \<open>sqn\<close> is accepted
  by a peer whose own number is smaller, with the same RES, CK and IK on both sides; any other
  peer answers with a synchronization failure whose AUTS gives its number back to the network
  through \<open>milenage_auts\<close>.
\<close>

theorem milenage_check_generate:
  assumes "length sqn = 6" "length ue_sqn = 6" "length amf = 2" "8 \<le> res_len"
  shows "\<exists>v. milenage_generate opc amf k sqn rand res_len = Some v \<and>
    (if be_nat ue_sqn < be_nat sqn
     then \<exists>o5. milenage_check opc k ue_sqn rand (v_autn v) = Check_ok o5 \<and>
       o_res o5 = Some (v_res v) \<and> o_ck o5 = Some (v_ck v) \<and> o_ik o5 = Some (v_ik v)
     else \<exists>auts. milenage_check opc k ue_sqn rand (v_autn v) = Check_sync auts \<and>
       length auts = 14 \<and> milenage_auts opc k rand auts = Ok ue_sqn)"
proof -
  obtain res ck ik ak ak5 where l: "length ak = 6" "length ak5 = 6"
    and f5: "\<And>r c i a s. milenage_f2345 opc k rand r c i a s =
       Ok \<lparr>o_res = if r then Some res else None, o_ck = if c then Some ck else None,
         o_ik = if i then Some ik else None, o_ak = if a then Some ak else None,
         o_akstar = if s then Some ak5 else None\<rparr>"
    using f2345_ok by blast
  obtain a s where f1: "milenage_f1 opc k rand sqn amf = Ok (a, s)" "length a = 8" using f1_ok by blast
  obtain a' s' where f1': "milenage_f1 opc k rand ue_sqn [0, 0] = Ok (a', s')" "length s' = 8"
    using f1_ok by blast
  let ?autn = "xor6 sqn ak @ amf @ a"
  note p = autn_parts [OF l(1) assms(1,3) f1(2)]
  have g: "milenage_generate opc amf k sqn rand res_len = Some \<lparr>v_autn = ?autn, v_ik = ik, v_ck = ck, v_res = res\<rparr>"
    using assms(3,4) by (simp add: milenage_generate_def f5 f1)
  have c: "milenage_check opc k ue_sqn rand ?autn =
      (if be_nat sqn \<le> be_nat ue_sqn then Check_sync (xor6 ue_sqn ak5 @ s')
       else Check_ok \<lparr>o_res = Some res, o_ck = Some ck, o_ik = Some ik, o_ak = Some ak, o_akstar = None\<rparr>)"
    using os_memcmp_be_nat [of sqn ue_sqn] assms f1 f1' p
    by (simp add: milenage_check_def f5 Let_def del: xor6_append)
  have "milenage_auts opc k rand (xor6 ue_sqn ak5 @ s') = Ok ue_sqn"
    using assms(2) f1' by (simp add: milenage_auts_def f5 Let_def get_bytes_def)
  then show ?thesis
    using g c f1'(2) by simp
qed

theorem milenage_check_generate_witness:
  "\<exists>v o5. milenage_generate (replicate 16 1) [0, 0] (replicate 16 2) [0, 0, 0, 0, 0, 9] (replicate 16 3) 8 = Some v \<and>
     milenage_check (replicate 16 1) (replicate 16 2) [0, 0, 0, 0, 0, 8] (replicate 16 3) (v_autn v) = Check_ok o5"
  using milenage_check_generate [of "[0, 0, 0, 0, 0, 9]" "[0, 0, 0, 0, 0, 8]" "[0, 0]" 8 "replicate 16 1"
      "replicate 16 2" "replicate 16 3"]
  by (auto simp: be_nat_def)

text \<open>The anonymity key \<open>ak\<close> and the MAC function behind one pair of key and challenge.\<close>

lemma check_generate_values:
  obtains ak mac where "length ak = 6" "\<And>sqn amf. length (mac sqn amf) = 8"
    "\<And>ue_sqn autn. length autn = 16 \<Longrightarrow> length ue_sqn = 6 \<Longrightarrow>
      (\<exists>o5. milenage_check opc k ue_sqn rand autn = Check_ok o5) \<longleftrightarrow>
      be_nat ue_sqn < be_nat (xor6 autn ak) \<and> mac (xor6 autn ak) (get_bytes autn 6 2) = get_bytes autn 8 8"
    "\<And>sqn amf autn. length amf = 2 \<Longrightarrow>
      (\<exists>v. milenage_generate opc amf k sqn rand 8 = Some v \<and> v_autn v = autn) \<longleftrightarrow>
      autn = xor6 sqn ak @ amf @ mac sqn amf"
proof -
  obtain res ck ik ak ak5 where l: "length ak = 6"
    and f5: "\<And>r c i a s. milenage_f2345 opc k rand r c i a s =
       Ok \<lparr>o_res = if r then Some res else None, o_ck = if c then Some ck else None,
         o_ik = if i then Some ik else None, o_ak = if a then Some ak else None,
         o_akstar = if s then Some ak5 else None\<rparr>"
    using f2345_ok by blast
  obtain mac where f1: "\<And>sqn amf. \<exists>s. milenage_f1 opc k rand sqn amf = Ok (mac sqn amf, s)"
    "\<And>sqn amf. length (mac sqn amf) = 8"
    using f1_ok [of opc k rand] by metis
  show ?thesis
  proof (rule that [of ak mac])
    fix ue_sqn autn :: bytes
    assume a: "length autn = 16" "length ue_sqn = 6"
    obtain a' s' where f1': "milenage_f1 opc k rand ue_sqn [0, 0] = Ok (a', s')" using f1_ok by blast
    let ?rx = "xor6 autn ak" let ?amf = "get_bytes autn 6 2"
    obtain s where s: "milenage_f1 opc k rand ?rx ?amf = Ok (mac ?rx ?amf, s)" using f1(1) by blast
    show "(\<exists>o5. milenage_check opc k ue_sqn rand autn = Check_ok o5) \<longleftrightarrow>
        be_nat ue_sqn < be_nat ?rx \<and> mac ?rx ?amf = get_bytes autn 8 8"
      using os_memcmp_be_nat [of ?rx ue_sqn] a s f1'
      by (simp add: milenage_check_def f5 Let_def not_le)
  next
    fix sqn amf autn :: bytes
    assume a: "length amf = 2"
    obtain s where "milenage_f1 opc k rand sqn amf = Ok (mac sqn amf, s)" using f1(1) by blast
    with a show "(\<exists>v. milenage_generate opc amf k sqn rand 8 = Some v \<and> v_autn v = autn) \<longleftrightarrow>
        autn = xor6 sqn ak @ amf @ mac sqn amf" by (auto simp: milenage_generate_def f5)
  qed (use l f1(2) in auto)
qed

text \<open>
  C26: Authenticity of AKA: \<open>milenage_check\<close> succeeds only on tokens the network makes.  It returns
  0 for a 16-byte AUTN exactly when that AUTN is generated, from the same keys and RAND, for
  some AMF and some sequence number above the peer's.
\<close>

theorem milenage_check_authentic:
  assumes "length autn = 16" "length ue_sqn = 6"
  shows "(\<exists>o5. milenage_check opc k ue_sqn rand autn = Check_ok o5) \<longleftrightarrow>
    (\<exists>sqn amf v. length sqn = 6 \<and> length amf = 2 \<and> be_nat ue_sqn < be_nat sqn \<and>
       milenage_generate opc amf k sqn rand 8 = Some v \<and> v_autn v = autn)"
proof -
  obtain ak mac where l: "length ak = 6" "\<And>sqn amf. length (mac sqn amf) = 8"
    and v: "\<And>ue_sqn autn. length autn = 16 \<Longrightarrow> length ue_sqn = 6 \<Longrightarrow>
      (\<exists>o5. milenage_check opc k ue_sqn rand autn = Check_ok o5) \<longleftrightarrow>
      be_nat ue_sqn < be_nat (xor6 autn ak) \<and> mac (xor6 autn ak) (get_bytes autn 6 2) = get_bytes autn 8 8"
    and gen: "\<And>sqn amf autn. length amf = 2 \<Longrightarrow>
      (\<exists>v. milenage_generate opc amf k sqn rand 8 = Some v \<and> v_autn v = autn) \<longleftrightarrow>
      autn = xor6 sqn ak @ amf @ mac sqn amf"
    by (rule check_generate_values [of opc k rand]) blast
  let ?rx = "xor6 autn ak" let ?amf = "get_bytes autn 6 2"
  note chk = v [OF assms]
  show ?thesis
  proof
    assume "\<exists>o5. milenage_check opc k ue_sqn rand autn = Check_ok o5"
    with chk have c: "be_nat ue_sqn < be_nat ?rx" "mac ?rx ?amf = get_bytes autn 8 8" by blast+
    moreover have "length ?amf = 2" using assms by (simp add: length_get_bytes)
    moreover have "autn = xor6 ?rx ak @ ?amf @ mac ?rx ?amf"
      unfolding c(2) by (rule autn_split [OF assms(1)])
    ultimately show "\<exists>sqn amf v. length sqn = 6 \<and> length amf = 2 \<and> be_nat ue_sqn < be_nat sqn \<and>
       milenage_generate opc amf k sqn rand 8 = Some v \<and> v_autn v = autn"
      using gen [of ?amf ?rx autn] length_xor_sqn by blast
  next
    assume "\<exists>sqn amf v. length sqn = 6 \<and> length amf = 2 \<and> be_nat ue_sqn < be_nat sqn \<and>
       milenage_generate opc amf k sqn rand 8 = Some v \<and> v_autn v = autn"
    then obtain sqn amf where a: "length sqn = 6" "length amf = 2" "be_nat ue_sqn < be_nat sqn"
      "autn = xor6 sqn ak @ amf @ mac sqn amf" using gen by blast
    have "?rx = sqn" "?amf = amf" "get_bytes autn 8 8 = mac sqn amf"
      unfolding a(4) using autn_parts [OF l(1) a(1,2) l(2)] by blast+
    then show "\<exists>o5. milenage_check opc k ue_sqn rand autn = Check_ok o5"
      using chk a(3) by simp
  qed
qed

theorem milenage_check_authentic_witness:
  "\<exists>(v :: aka_vector) o5. milenage_check (replicate 16 1) (replicate 16 2) [0, 0, 0, 0, 0, 8] (replicate 16 3) (v_autn v) = Check_ok o5"
proof -
  obtain a s where f1: "milenage_f1 (replicate 16 1) (replicate 16 2) (replicate 16 3) [0, 0, 0, 0, 0, 9] [0, 0] = Ok (a, s)"
    "length a = 8" using f1_ok by blast
  obtain v where v: "milenage_generate (replicate 16 1) [0, 0] (replicate 16 2) [0, 0, 0, 0, 0, 9] (replicate 16 3) 8 = Some v"
    "length (v_autn v) = 16"
    using f2345_ok [of "replicate 16 1" "replicate 16 2" "replicate 16 3"] f1
    by (auto simp: milenage_generate_def)
  have b: "be_nat [0, 0, 0, 0, 0, 8] < be_nat [0, 0, 0, 0, 0, 9]" by (simp add: be_nat_def)
  have "length [0, 0, 0, 0, 0, 9 :: u8] = 6" "length [0, 0 :: u8] = 2" "length [0, 0, 0, 0, 0, 8 :: u8] = 6" by simp_all
  note l = this
  have "\<exists>sqn amf v'. length sqn = 6 \<and> length amf = 2 \<and> be_nat [0, 0, 0, 0, 0, 8] < be_nat sqn \<and>
      milenage_generate (replicate 16 1) amf (replicate 16 2) sqn (replicate 16 3) 8 = Some v' \<and> v_autn v' = v_autn v"
    by (rule exI [of _ "[0, 0, 0, 0, 0, 9]"], rule exI [of _ "[0, 0]"], rule exI [of _ v])
      (intro conjI l b v(1) refl)
  from iffD2 [OF milenage_check_authentic [OF v(2) l(3)] this] show ?thesis by (rule exI [of _ v])
qed

end
