(* ===== verification/Rc4.thy ===== *)
theory Rc4
  imports Prelude "HOL-Library.Monad_Syntax"
begin

text \<open>
  The RC4 stream cipher: \<open>src/mininet-wifi/hostap/src/crypto/rc4.c\<close>.  The indices \<open>i\<close>, \<open>j\<close> and the loop
  counter \<open>k\<close> are 32-bit words as in the code, while \<open>skip\<close>, \<open>data_len\<close> and \<open>kpos\<close> are \<open>size_t\<close> (naturals).
  \<open>Fault\<close> is an access behind the key or the data buffer, \<open>None\<close> a call that does not return; the code
  returns 0 otherwise, and \<open>Ok\<close> holds the data buffer it leaves.  The cipher is compared with RC4 as
  published, on numbers modulo 256.
\<close>

unbundle bit_operations_syntax

section \<open>Definitions\<close>

definition S_SWAP :: "bytes \<Rightarrow> nat \<Rightarrow> nat \<Rightarrow> bytes" where
  "S_SWAP S a b = (let t = S ! a in (S[a := S ! b])[b := t])"

type_synonym rc4_state = "u32 \<times> u32 \<times> bytes"

text \<open>The key schedule from index \<open>i\<close> on.\<close>

function rc4_key_loop :: "bytes \<Rightarrow> u32 \<Rightarrow> u32 \<Rightarrow> nat \<Rightarrow> bytes \<Rightarrow> bytes outcome" where
  "rc4_key_loop key i j kpos S =
     (if i < 256 then
        if kpos \<ge> length key then Fault
        else
          let j = (j + ucast (S ! unat i) + ucast (key ! kpos)) AND 0xff;
              kpos = kpos + 1;
              kpos = (if kpos \<ge> length key then 0 else kpos)
          in rc4_key_loop key (i + 1) j kpos (S_SWAP S (unat i) (unat j))
      else Ok S)"
  by pat_completeness auto
termination
proof (relation "measure (\<lambda>(key, i, j, kpos, S). 256 - unat i)", goal_cases)
  case (2 key i j kpos S)
  then have "unat i < 256" by (simp add: word_less_nat_alt)
  then show ?case using unat_word_ariths(1) [of i 1] by simp
qed simp

declare rc4_key_loop.simps [simp del]

definition rc4_setup :: "bytes \<Rightarrow> bytes outcome" where
  "rc4_setup key = rc4_key_loop key 0 0 0 (map of_nat [0..<256])"

fun rc4_next :: "rc4_state \<Rightarrow> rc4_state" where
  "rc4_next (i, j, S) =
     (let i' = (i + 1) AND 0xff; j' = (j + ucast (S ! unat i')) AND 0xff
      in (i', j', S_SWAP S (unat i') (unat j')))"

fun rc4_out :: "rc4_state \<Rightarrow> u8" where
  "rc4_out (i, j, S) =
     S ! unat ((ucast (S ! unat i) + ucast (S ! unat j) :: u32) AND 0xff)"

text \<open>\<open>for (k = 0; k < skip; k++)\<close> and \<open>for (k = 0; k < data_len; k++)\<close>, from the counter \<open>k\<close> on; \<open>pos\<close> is an index into \<open>data\<close>.\<close>

partial_function (option) rc4_skip_loop :: "nat \<Rightarrow> u32 \<Rightarrow> rc4_state \<Rightarrow> rc4_state option" where
  "rc4_skip_loop skip k s =
     (if unat k < skip then rc4_skip_loop skip (k + 1) (rc4_next s) else Some s)"

partial_function (option) rc4_data_loop :: "nat \<Rightarrow> u32 \<Rightarrow> nat \<Rightarrow> rc4_state \<Rightarrow> bytes \<Rightarrow> bytes outcome option" where
  "rc4_data_loop data_len k pos s data =
     (if unat k < data_len then
        if pos \<ge> length data then Some Fault
        else
          let s' = rc4_next s
          in rc4_data_loop data_len (k + 1) (pos + 1) s' (data[pos := data ! pos XOR rc4_out s'])
      else Some (Ok data))"

definition rc4_skip :: "bytes \<Rightarrow> nat \<Rightarrow> bytes \<Rightarrow> bytes outcome option" where
  "rc4_skip key skip data =
     (case rc4_setup key of
        Fault \<Rightarrow> Some Fault
      | Ret r \<Rightarrow> Some (Ret r)
      | Ok S \<Rightarrow> do {
          s \<leftarrow> rc4_skip_loop skip 0 (0, 0, S);
          rc4_data_loop (length data) 0 0 s data
        })"

section \<open>RC4 as published\<close>

text \<open>
  The key schedule and the generator after \<open>n\<close> rounds on lists of numbers below 256: the index \<open>j\<close> and the
  permutation.  Byte \<open>n\<close> of the key stream comes from round \<open>n + 1\<close>.
\<close>

definition swap_at :: "nat \<Rightarrow> nat \<Rightarrow> nat list \<Rightarrow> nat list" where
  "swap_at a b S = S[a := S ! b, b := S ! a]"

primrec rc4_ksa :: "bytes \<Rightarrow> nat \<Rightarrow> nat \<times> nat list" where
  "rc4_ksa key 0 = (0, [0..<256])"
| "rc4_ksa key (Suc n) =
     (let (j, S) = rc4_ksa key n; j' = (j + S ! n + unat (key ! (n mod length key))) mod 256
      in (j', swap_at n j' S))"

primrec rc4_prga :: "nat list \<Rightarrow> nat \<Rightarrow> nat \<times> nat list" where
  "rc4_prga S0 0 = (0, S0)"
| "rc4_prga S0 (Suc n) =
     (let (j, S) = rc4_prga S0 n; i = Suc n mod 256; j' = (j + S ! i) mod 256 in (j', swap_at i j' S))"

definition rc4_keystream :: "bytes \<Rightarrow> nat \<Rightarrow> nat" where
  "rc4_keystream key n =
     (let (j, S) = rc4_prga (snd (rc4_ksa key 256)) (Suc n) in S ! ((S ! (Suc n mod 256) + S ! j) mod 256))"

definition rc4_apply :: "bytes \<Rightarrow> nat \<Rightarrow> bytes \<Rightarrow> bytes" where
  "rc4_apply key skip data = map (\<lambda>n. data ! n XOR of_nat (rc4_keystream key (skip + n))) [0..<length data]"

section \<open>The permutation\<close>

text \<open>Reachable states: indices below 256 and every byte value exactly once in \<open>S\<close>.\<close>

definition rc4_wf :: "rc4_state \<Rightarrow> bool" where
  "rc4_wf s = (case s of (i, j, S) \<Rightarrow> unat i < 256 \<and> unat j < 256 \<and> length S = 256 \<and> distinct S)"

lemma S_SWAP_perm:
  assumes "a < length S" "b < length S"
  shows "length (S_SWAP S a b) = length S" "distinct (S_SWAP S a b) = distinct S"
  using assms by (simp_all add: S_SWAP_def Let_def distinct_swap)

lemma map_S_SWAP: "a < length S \<Longrightarrow> b < length S \<Longrightarrow> map unat (S_SWAP S a b) = swap_at a b (map unat S)"
  by (simp add: S_SWAP_def swap_at_def Let_def map_update)

lemma unat_and_ff: "unat (x AND 0xff :: u32) = unat x mod 256"
  by (simp only: and_255_mask unsigned_take_bit_eq) (simp add: take_bit_eq_mod)

lemma unat_plus_ff: "unat ((x + y) AND 0xff :: u32) = (unat x + unat y) mod 256"
proof -
  have "unat (x + y) mod 256 = (unat x + unat y) mod 256"
    by (simp add: unat_word_ariths(1) mod_mod_cancel)
  then show ?thesis by (simp only: unat_and_ff)
qed

lemma unat_ucast_byte: "unat (ucast (x :: u8) :: u32) = unat x"
proof -
  have "unat x < 2 ^ 8" using unsigned_less [of x] by simp
  then have "unat x < 2 ^ 32" by simp
  then show ?thesis by (simp add: unsigned_ucast_eq take_bit_nat_eq_self)
qed

lemma unat_plus3_ff: "unat ((x + ucast (a :: u8) + ucast (b :: u8)) AND 0xff :: u32) = (unat x + unat a + unat b) mod 256"
proof -
  have "unat (x + ucast a) mod 256 = (unat x + unat a) mod 256"
    using unat_plus_ff [of x "ucast a"] by (simp only: unat_and_ff unat_ucast_byte)
  then have "(unat (x + ucast a) + unat b) mod 256 = (unat x + unat a + unat b) mod 256" by (rule mod_add_cong) simp
  then show ?thesis by (simp only: unat_plus_ff unat_ucast_byte)
qed

text \<open>A state of the code against round \<open>n\<close> of the published cipher.\<close>

definition rc4_at :: "nat \<Rightarrow> rc4_state \<Rightarrow> nat \<times> nat list \<Rightarrow> bool" where
  "rc4_at n s R = (case s of (i, j, S) \<Rightarrow> length S = 256 \<and> unat i = n mod 256 \<and> unat j < 256 \<and> R = (unat j, map unat S))"

lemma rc4_next_at:
  assumes "rc4_at n s (rc4_prga S0 n)"
  shows "rc4_at (Suc n) (rc4_next s) (rc4_prga S0 (Suc n))"
proof -
  obtain i j S where s: "s = (i, j, S)" by (cases s)
  then have a: "length S = 256" "unat i = n mod 256" "rc4_prga S0 n = (unat j, map unat S)" using assms by (simp_all add: rc4_at_def)
  have l: "Suc n mod 256 < length S" "\<And>x. x mod 256 < length S" using a(1) by simp_all
  show ?thesis
    using a(3) l by (simp add: s rc4_at_def Let_def unat_plus_ff unat_ucast_byte map_S_SWAP S_SWAP_perm a(1,2) mod_Suc_eq)
qed

lemma rc4_out_at:
  assumes "rc4_at (Suc n) s (rc4_prga (snd (rc4_ksa key 256)) (Suc n))"
  shows "rc4_out s = of_nat (rc4_keystream key n)"
proof -
  obtain i j S where s: "s = (i, j, S)" by (cases s)
  then have a: "length S = 256" "unat i = Suc n mod 256" "unat j < 256" "rc4_prga (snd (rc4_ksa key 256)) (Suc n) = (unat j, map unat S)"
    using assms by (simp_all add: rc4_at_def)
  have l: "Suc n mod 256 < length S" "\<And>x. x mod 256 < length S" using a(1) by simp_all
  show ?thesis unfolding s rc4_out.simps rc4_keystream_def a(4) Let_def prod.case unat_plus_ff unat_ucast_byte
    using a l by simp
qed

lemma rc4_key_loop_at:
  assumes "key \<noteq> []"
  shows "rc4_at 0 (0, j, S) (rc4_ksa key n) \<Longrightarrow> n \<le> 256 \<Longrightarrow>
    \<exists>j' S'. rc4_key_loop key (of_nat n) j (n mod length key) S = Ok S' \<and> rc4_at 0 (0, j', S') (rc4_ksa key 256)"
proof (induction "256 - n" arbitrary: n j S)
  case 0
  then have "n = 256" by simp
  then show ?case using 0(2) by (auto simp: rc4_key_loop.simps)
next
  case (Suc m)
  then have n: "n < 256" by simp
  then have u: "unat (of_nat n :: u32) = n" by (simp add: unsigned_of_nat take_bit_eq_mod)
  then have lt: "(of_nat n :: u32) < 256" using n by (simp add: word_less_nat_alt)
  have a: "length S = 256" "rc4_ksa key n = (unat j, map unat S)" using Suc.prems(1) by (simp_all add: rc4_at_def)
  define j' where "j' = (j + ucast (S ! n) + ucast (key ! (n mod length key))) AND 0xff"
  have j': "unat j' = (unat j + unat (S ! n) + unat (key ! (n mod length key))) mod 256" unfolding j'_def by (rule unat_plus3_ff)
  then have l: "unat j' < length S" using a(1) by simp
  have "rc4_ksa key (Suc n) = (unat j', map unat (S_SWAP S n (unat j')))"
    using a n l by (simp add: Let_def j' map_S_SWAP)
  moreover have "length (S_SWAP S n (unat j')) = 256" using S_SWAP_perm(1) [of n S] l n a(1) by simp
  ultimately have at: "rc4_at 0 (0, j', S_SWAP S n (unat j')) (rc4_ksa key (Suc n))"
    using l a(1) by (simp add: rc4_at_def)
  have kl: "n mod length key < length key" using assms by simp
  then have k: "(if length key \<le> Suc (n mod length key) then 0 else Suc (n mod length key)) = Suc n mod length key"
  proof -
    have "length key \<le> Suc (n mod length key) \<longleftrightarrow> Suc (n mod length key) = length key" using kl by linarith
    then show ?thesis by (simp add: mod_Suc)
  qed
  have "rc4_key_loop key (of_nat n) j (n mod length key) S =
      rc4_key_loop key (of_nat (Suc n)) j' (Suc n mod length key) (S_SWAP S n (unat j'))"
    using kl k lt u by (subst rc4_key_loop.simps) (simp add: Let_def j'_def add.commute not_le)
  then show ?case using Suc.hyps(1) [OF _ at] Suc.hyps(2) n by simp
qed

lemma rc4_setup_at:
  assumes "key \<noteq> []"
  obtains S where "rc4_setup key = Ok S" "rc4_at 0 (0, 0, S) (rc4_prga (snd (rc4_ksa key 256)) 0)"
proof -
  let ?S = "map of_nat [0..<256] :: bytes"
  have "map unat ?S = [0..<256]"
    by (rule nth_equalityI) (simp_all add: unsigned_of_nat take_bit_eq_mod)
  then have "rc4_at 0 (0, 0, ?S) (rc4_ksa key 0)" by (simp add: rc4_at_def)
  from rc4_key_loop_at [OF assms this] obtain j S where "rc4_setup key = Ok S" "rc4_at 0 (0, j, S) (rc4_ksa key 256)"
    by (auto simp: rc4_setup_def)
  then show thesis using that by (auto simp: rc4_at_def)
qed

section \<open>The loops\<close>

text \<open>A counter of 32 bits that is below a 32-bit bound goes up by one, and one that is not stays below every larger bound.\<close>

lemma unat_Suc_word: "unat (k :: u32) < n \<Longrightarrow> n < 2 ^ 32 \<Longrightarrow> unat (k + 1) = Suc (unat k)"
  using unat_word_ariths(1) [of k 1] by simp

lemma unat_below: "2 ^ 32 \<le> n \<Longrightarrow> unat (k :: u32) < n"
proof -
  have "unat k < 2 ^ LENGTH(32)" by (rule unsigned_less)
  then show "2 ^ 32 \<le> n \<Longrightarrow> unat k < n" by simp
qed

lemma skip_loop_at:
  assumes "skip < 2 ^ 32"
  shows "unat k \<le> skip \<Longrightarrow> rc4_at (unat k) s (rc4_prga S0 (unat k)) \<Longrightarrow>
    \<exists>s'. rc4_skip_loop skip k s = Some s' \<and> rc4_at skip s' (rc4_prga S0 skip)"
proof (induction "skip - unat k" arbitrary: k s)
  case 0
  then show ?case by (simp add: rc4_skip_loop.simps)
next
  case (Suc m)
  then have lt: "unat k < skip" by simp
  note u = unat_Suc_word [OF lt assms]
  show ?case
    using Suc.hyps(1) [of "k + 1" "rc4_next s"] Suc.hyps(2) Suc.prems(2) lt rc4_next_at [of "unat k" s S0]
    by (subst rc4_skip_loop.simps) (simp add: u)
qed

text \<open>With a larger bound the loop does not end.\<close>

lemma skip_loop_forever:
  assumes "2 ^ 32 \<le> skip"
  shows "rc4_skip_loop skip k s = None"
proof (rule ccontr)
  assume "rc4_skip_loop skip k s \<noteq> None"
  then obtain r where r: "rc4_skip_loop skip k s = Some r" by blast
  have "\<not> 2 ^ 32 \<le> skip"
  proof (rule rc4_skip_loop.raw_induct [where P = "\<lambda>n k s r. \<not> 2 ^ 32 \<le> n", OF _ r])
    fix f n and k :: u32 and s r
    assume IH: "\<And>n k s r. f n k s = Some r \<Longrightarrow> \<not> 2 ^ 32 \<le> n"
      and e: "(if unat k < n then f n (k + 1) (rc4_next s) else Some s) = Some r"
    show "\<not> 2 ^ 32 \<le> n" using IH e unat_below [of n k] by (auto split: if_splits)
  qed
  then show False using assms by simp
qed

lemma data_loop_at:
  assumes "length data < 2 ^ 32"
  shows "unat k \<le> length data \<Longrightarrow> rc4_at (skip + unat k) s (rc4_prga (snd (rc4_ksa key 256)) (skip + unat k)) \<Longrightarrow>
    rc4_data_loop (length data) k (unat k) s (take (unat k) (rc4_apply key skip data) @ drop (unat k) data) = Some (Ok (rc4_apply key skip data))"
proof (induction "length data - unat k" arbitrary: k s)
  case 0
  then show ?case by (simp add: rc4_data_loop.simps rc4_apply_def)
next
  case (Suc m)
  let ?r = "rc4_apply key skip data"
  from Suc have lt: "unat k < length data" by simp
  note u = unat_Suc_word [OF lt assms]
  have len: "length ?r = length data" by (simp add: rc4_apply_def)
  have at: "rc4_at (Suc (skip + unat k)) (rc4_next s) (rc4_prga (snd (rc4_ksa key 256)) (Suc (skip + unat k)))"
    by (rule rc4_next_at [OF Suc.prems(2)])
  have d: "drop (unat k) data = data ! unat k # drop (Suc (unat k)) data" by (rule Cons_nth_drop_Suc [symmetric, OF lt])
  have t: "take (Suc (unat k)) ?r = take (unat k) ?r @ [data ! unat k XOR rc4_out (rc4_next s)]"
    using lt len rc4_out_at [OF at] by (simp add: take_Suc_conv_app_nth rc4_apply_def)
  have "(take (unat k) ?r @ drop (unat k) data)[unat k := (take (unat k) ?r @ drop (unat k) data) ! unat k XOR rc4_out (rc4_next s)] =
      take (Suc (unat k)) ?r @ drop (Suc (unat k)) data"
    unfolding t d using lt len by (simp add: list_update_append nth_append)
  then show ?case
    using Suc.hyps(1) [of "k + 1" "rc4_next s"] Suc.hyps(2) at lt len
    by (subst rc4_data_loop.simps) (simp add: u Let_def)
qed

text \<open>With a larger bound the counter wraps and \<open>pos\<close> runs behind the buffer.\<close>

lemma data_loop_fault: "2 ^ 32 \<le> n \<Longrightarrow> rc4_data_loop n k pos s data = Some Fault"
proof (induction "length data - pos" arbitrary: k pos s data)
  case 0
  then show ?case using unat_below by (simp add: rc4_data_loop.simps)
next
  case (Suc m)
  then show ?case using unat_below [of n k] Suc.hyps(2)
    by (subst rc4_data_loop.simps) (simp add: Let_def)
qed

section \<open>The call\<close>

lemma rc4_skip_ok:
  assumes "key \<noteq> []" "skip < 2 ^ 32" "length data < 2 ^ 32"
  shows "rc4_skip key skip data = Some (Ok (rc4_apply key skip data))"
proof -
  obtain S where S: "rc4_setup key = Ok S" "rc4_at 0 (0, 0, S) (rc4_prga (snd (rc4_ksa key 256)) 0)" by (rule rc4_setup_at [OF assms(1)])
  then obtain s where s: "rc4_skip_loop skip 0 (0, 0, S) = Some s" "rc4_at skip s (rc4_prga (snd (rc4_ksa key 256)) skip)"
    using skip_loop_at [OF assms(2), of 0 "(0, 0, S)" "snd (rc4_ksa key 256)"] by auto
  then show ?thesis using data_loop_at [OF assms(3), of 0 skip s key] S by (simp add: rc4_skip_def)
qed

lemma rc4_skip_over:
  assumes "key \<noteq> []"
  shows "2 ^ 32 \<le> skip \<Longrightarrow> rc4_skip key skip data = None"
    "skip < 2 ^ 32 \<Longrightarrow> 2 ^ 32 \<le> length data \<Longrightarrow> rc4_skip key skip data = Some Fault"
proof -
  obtain S where S: "rc4_setup key = Ok S" "rc4_at 0 (0, 0, S) (rc4_prga (snd (rc4_ksa key 256)) 0)" by (rule rc4_setup_at [OF assms])
  show "2 ^ 32 \<le> skip \<Longrightarrow> rc4_skip key skip data = None" using S(1) by (simp add: rc4_skip_def skip_loop_forever)
  show "rc4_skip key skip data = Some Fault" if "skip < 2 ^ 32" "2 ^ 32 \<le> length data"
    using S(1) skip_loop_at [OF that(1), of 0 "(0, 0, S)" "snd (rc4_ksa key 256)"] S(2) data_loop_fault [OF that(2)] by (auto simp: rc4_skip_def)
qed

lemma rc4_skip_no_key: "rc4_skip [] skip data = Some Fault"
  by (simp add: rc4_skip_def rc4_setup_def rc4_key_loop.simps)

lemma rc4_apply_apply: "rc4_apply key skip (rc4_apply key skip data) = data"
  by (rule nth_equalityI) (simp_all add: rc4_apply_def xor.assoc)

lemma length_rc4_apply [simp]: "length (rc4_apply key skip data) = length data"
  by (simp add: rc4_apply_def)

lemma rc4_skip_inverse:
  assumes "key \<noteq> []" "rc4_skip key skip data = Some (Ok c)"
  shows "rc4_skip key skip c = Some (Ok data)"
proof -
  have s: "skip < 2 ^ 32" "length data < 2 ^ 32" using rc4_skip_over [OF assms(1), of skip data] assms(2) by force+
  then have "c = rc4_apply key skip data" using rc4_skip_ok [OF assms(1)] assms(2) by simp
  then show ?thesis using rc4_skip_ok [OF assms(1) s(1), of c] s(2) by (simp add: rc4_apply_apply)
qed

text \<open>
  C30: On a non-empty key \<open>rc4_skip\<close> is RC4: byte \<open>n\<close> of the data is combined with byte \<open>skip + n\<close> of the
  published key stream (key schedule and generator on numbers modulo 256), when \<open>skip\<close> and the length are
  below \<open>2^32\<close>.  The loop counter has 32 bits: for a larger \<open>skip\<close> the call does not return, and for a
  larger length it writes behind the data.
\<close>

theorem rc4_skip_stream:
  assumes "key \<noteq> []"
  shows "(skip < 2 ^ 32 \<and> length data < 2 ^ 32 \<longrightarrow>
      rc4_skip key skip data = Some (Ok (map (\<lambda>n. data ! n XOR of_nat (rc4_keystream key (skip + n))) [0..<length data]))) \<and>
    (2 ^ 32 \<le> skip \<longrightarrow> rc4_skip key skip data = None) \<and>
    (skip < 2 ^ 32 \<and> 2 ^ 32 \<le> length data \<longrightarrow> rc4_skip key skip data = Some Fault)"
  using rc4_skip_ok [OF assms, of skip data] rc4_skip_over [OF assms, of skip data] by (simp add: rc4_apply_def)

theorem rc4_skip_stream_witness:
  "rc4_skip [1, 2, 3] 5 [7, 8] =
      Some (Ok [7 XOR of_nat (rc4_keystream [1, 2, 3] 5), 8 XOR of_nat (rc4_keystream [1, 2, 3] 6)]) \<and>
    rc4_skip [1, 2, 3] (2 ^ 32) [7, 8] = None \<and> rc4_skip [1, 2, 3] 5 (replicate (2 ^ 32) 0) = Some Fault"
proof -
  have k: "[1, 2, 3 :: u8] \<noteq> []" by simp
  have "rc4_skip [1, 2, 3] 5 [7, 8] =
      Some (Ok [7 XOR of_nat (rc4_keystream [1, 2, 3] 5), 8 XOR of_nat (rc4_keystream [1, 2, 3] 6)])"
    using rc4_skip_stream [OF k, of 5 "[7, 8]"] by simp
  moreover have "rc4_skip [1, 2, 3] (2 ^ 32) [7, 8] = None" using rc4_skip_stream [OF k, of "2 ^ 32"] by blast
  moreover have "rc4_skip [1, 2, 3] 5 (replicate (2 ^ 32) 0) = Some Fault"
    using rc4_skip_stream [OF k, of 5 "replicate (2 ^ 32) 0"] by (simp only: length_replicate) simp
  ultimately show ?thesis by simp
qed

text \<open>
  The table \<open>S\<close> stays a permutation of the 256 byte values with both indices below 256
  through key setup and any number of output steps, so no step reads outside the table.
\<close>

lemma rc4_next_wf: "rc4_wf s \<Longrightarrow> rc4_wf (rc4_next s)"
  by (cases s) (auto simp: rc4_wf_def Let_def S_SWAP_perm unat_and_ff)

lemma rc4_key_loop_perm:
  "rc4_key_loop key i j kpos S = Ok S' \<Longrightarrow> length S = 256 \<Longrightarrow> distinct S \<Longrightarrow> length S' = 256 \<and> distinct S'"
proof (induction key i j kpos S rule: rc4_key_loop.induct)
  case (1 key i j kpos S)
  show ?case
  proof (cases "i < 256")
    case True
    then have i: "unat i < length S" using "1.prems"(2) by (simp add: word_less_nat_alt)
    have l: "unat (x AND 0xff :: u32) < length S" for x using "1.prems"(2) by (simp only: unat_and_ff)
    note p = S_SWAP_perm [OF i l]
    have k: "kpos < length key" using True "1.prems"(1) by (auto simp: rc4_key_loop.simps [of key i] split: if_splits)
    show ?thesis
      using "1.IH" [OF True _ refl refl refl] k "1.prems" p True by (simp add: rc4_key_loop.simps [of key i] Let_def cong: if_cong)
  next
    case False
    then show ?thesis using "1.prems" by (simp add: rc4_key_loop.simps)
  qed
qed

theorem rc4_permutation:
  assumes "rc4_setup key = Ok S0"
  shows "case (rc4_next ^^ n) (0, 0, S0) of (i, j, S) \<Rightarrow>
     unat i < 256 \<and> unat j < 256 \<and> length S = 256 \<and> set S = UNIV"
proof -
  have d: "distinct (map of_nat [0..<256] :: u8 list)"
    unfolding distinct_map by (intro conjI inj_on_inverseI [where g = unat]) (auto simp: unat_of_nat)
  have "length S0 = 256 \<and> distinct S0"
    by (rule rc4_key_loop_perm [OF assms [unfolded rc4_setup_def] _ d]) simp
  then have "rc4_wf ((rc4_next ^^ n) (0, 0, S0))" by (induction n) (simp_all add: rc4_wf_def [of "(0, 0, S0)"] rc4_next_wf)
  moreover obtain i j S where s: "(rc4_next ^^ n) (0, 0, S0) = (i, j, S)" by (metis prod_cases3)
  ultimately have w: "unat i < 256" "unat j < 256" "length S = 256" "distinct S"
    by (simp_all add: rc4_wf_def)
  have "card (set S) = card (UNIV :: u8 set)"
    using w by (simp add: distinct_card card_word)
  then have "set S = UNIV" by (intro card_subset_eq) simp_all
  with s w show ?thesis by simp
qed

end
