(* ===== verification/Mnexec.thy ===== *)
theory Mnexec
  imports Cstring
begin

text \<open>
  The execution utility that starts every process of an emulated node:
  \<open>src/mininet-wifi/mnexec.c\<close>.  The kernel is a parameter \<open>k\<close>: it answers each system call
  with a return value that may depend on the calls made before.  A run is the list of calls
  with their results and how it ended: \<open>Exit\<close> with a status, \<open>Exec\<close> when \<open>execvp\<close> replaced the
  process, \<open>Go\<close> when it continues.  Output to the terminal other than the pid line of \<open>-p\<close> is left out.
\<close>

section \<open>Calls and runs\<close>

datatype call =
    Getdtablesize | Close nat
  | Getpgrp | Getpid | Fork | Setsid
  | Unshare nat | Mount string string "string option" nat
  | Print_pid int
  | Open string | Setns int | Chroot string | Chdir string
  | Fopen_w string | Write_pid int | Fclose
  | Sched_setscheduler int int
  | Execvp string "string list"

type_synonym trace = "(call \<times> int) list"
type_synonym kernel = "trace \<Rightarrow> call \<Rightarrow> int"

datatype 'a run = Exit int | Exec | Go 'a

type_synonym 'a act = "trace \<Rightarrow> 'a run \<times> trace"

definition ret :: "'a \<Rightarrow> 'a act" where
  "ret x tr = (Go x, tr)"

definition halt :: "int \<Rightarrow> 'a act" where
  "halt status tr = (Exit status, tr)"

definition sys :: "kernel \<Rightarrow> call \<Rightarrow> int act" where
  "sys k c tr = (let r = k tr c in (Go r, tr @ [(c, r)]))"

definition andthen :: "'a act \<Rightarrow> ('a \<Rightarrow> 'b act) \<Rightarrow> 'b act" where
  "andthen m f tr = (case m tr of (Go x, tr') \<Rightarrow> f x tr' | (Exit s, tr') \<Rightarrow> (Exit s, tr') | (Exec, tr') \<Rightarrow> (Exec, tr'))"

section \<open>Option parsing\<close>

text \<open>
  \<open>getopt\<close> with the option string \<open>+cdnpa:g:r:vh\<close>: option letters in clusters, an argument
  in the rest of the cluster or in the next word, \<open>Bad_opt\<close> for its \<open>?\<close>, and no permutation,
  so the first word that is not an option ends the options.
\<close>

datatype opt = Opt char | Opt_arg char string | Bad_opt

fun getopt_cluster :: "string \<Rightarrow> string list \<Rightarrow> opt list \<times> string list" where
  "getopt_cluster [] rest = ([], rest)"
| "getopt_cluster (c # cs) rest =
     (if c \<in> set ''cdnpvh'' then (let (os, r) = getopt_cluster cs rest in (Opt c # os, r))
      else if c \<in> set ''agr'' then
        (if cs \<noteq> [] then ([Opt_arg c cs], rest)
         else case rest of [] \<Rightarrow> ([Bad_opt], []) | x # xs \<Rightarrow> ([Opt_arg c x], xs))
      else (let (os, r) = getopt_cluster cs rest in (Bad_opt # os, r)))"

lemma getopt_cluster_length: "length (snd (getopt_cluster cs rest)) \<le> length rest"
  by (induction cs rest rule: getopt_cluster.induct) (auto simp: Let_def split: prod.split list.split)

function getopt_all :: "string list \<Rightarrow> opt list \<times> string list" where
  "getopt_all [] = ([], [])"
| "getopt_all (w # ws) =
     (if w = ''--'' then ([], ws)
      else if w = [] \<or> hd w \<noteq> CHR ''-'' \<or> w = ''-'' then ([], w # ws)
      else case getopt_cluster (tl w) ws of (os, r) \<Rightarrow>
             (case getopt_all r of (os', r') \<Rightarrow> (os @ os', r')))"
  by pat_completeness auto
termination
proof (relation "measure length")
  fix w :: string and ws os r
  assume "(os, r) = getopt_cluster (tl w) ws"
  then show "(r, w # ws) \<in> measure length"
    using getopt_cluster_length [of "tl w" ws] by (metis in_measure le_imp_less_Suc length_Cons snd_conv)
qed simp

section \<open>The program\<close>

definition CLONE_NEWNET :: nat where "CLONE_NEWNET = 0x40000000"
definition CLONE_NEWNS :: nat where "CLONE_NEWNS = 0x00020000"
definition MS_REC :: nat where "MS_REC = 16384"
definition MS_PRIVATE :: nat where "MS_PRIVATE = 2 ^ 18"
definition MS_MGC_VAL :: nat where "MS_MGC_VAL = 0xC0ED0000"
definition PATH_MAX :: nat where "PATH_MAX = 4096"

text \<open>\<open>for (fd = getdtablesize(); fd > 2; fd--) close(fd)\<close>.\<close>

fun close_loop :: "kernel \<Rightarrow> nat \<Rightarrow> unit act" where
  "close_loop k 0 = ret ()"
| "close_loop k (Suc n) =
     (if Suc n > 2 then andthen (sys k (Close (Suc n))) (\<lambda>_. close_loop k n) else ret ())"

definition opt_c :: "kernel \<Rightarrow> unit act" where
  "opt_c k = andthen (sys k Getdtablesize) (\<lambda>n. close_loop k (nat n))"

definition opt_d :: "kernel \<Rightarrow> unit act" where
  "opt_d k =
     andthen (sys k Getpgrp) (\<lambda>pgrp.
     andthen (sys k Getpid) (\<lambda>pid.
     andthen
       (if pgrp = pid then
          andthen (sys k Fork) (\<lambda>r. if r = - 1 then halt 1 else if r = 0 then ret () else halt 0)
        else ret ()) (\<lambda>_.
     andthen (sys k Setsid) (\<lambda>_. ret ()))))"

definition opt_n :: "kernel \<Rightarrow> unit act" where
  "opt_n k =
     andthen (sys k (Unshare (CLONE_NEWNET + CLONE_NEWNS))) (\<lambda>r. if r = - 1 then halt 1 else
     andthen (sys k (Mount ''none'' ''/'' None (MS_REC + MS_PRIVATE))) (\<lambda>r. if r = - 1 then halt 1 else
     andthen (sys k (Mount ''sysfs'' ''/sys'' (Some ''sysfs'') MS_MGC_VAL)) (\<lambda>r. if r = - 1 then halt 1 else
     ret ())))"

definition opt_p :: "kernel \<Rightarrow> unit act" where
  "opt_p k = andthen (sys k Getpid) (\<lambda>pid. andthen (sys k (Print_pid pid)) (\<lambda>_. ret ()))"

definition proc_path :: "int \<Rightarrow> string \<Rightarrow> string" where
  "proc_path pid what = ''/proc/'' @ dec pid @ what"

definition opt_a :: "kernel \<Rightarrow> string \<Rightarrow> string \<Rightarrow> unit act" where
  "opt_a k cwd optarg =
     (let pid = atoi optarg in
      andthen (sys k (Open (proc_path pid ''/ns/net''))) (\<lambda>nsid. if nsid < 0 then halt 1 else
      andthen (sys k (Setns nsid)) (\<lambda>r. if r \<noteq> 0 then halt 1 else
      andthen (sys k (Open (proc_path pid ''/ns/mnt''))) (\<lambda>nsid.
      andthen (if nsid < 0 then ret True else andthen (sys k (Setns nsid)) (\<lambda>r. ret (r \<noteq> 0))) (\<lambda>plan_b.
      andthen
        (if plan_b then andthen (sys k (Chroot (proc_path pid ''/root''))) (\<lambda>r. if r < 0 then halt 1 else ret ())
         else ret ()) (\<lambda>_.
      andthen (sys k (Chdir cwd)) (\<lambda>r. if r \<noteq> 0 then halt 1 else ret ())))))))"

definition validate :: "string \<Rightarrow> bool" where
  "validate path = list_all (\<lambda>c. isalnum c \<or> c = CHR ''/'') path"

definition cgroup_path :: "string \<Rightarrow> string \<Rightarrow> string" where
  "cgroup_path grp gname = take (PATH_MAX - 1) (''/sys/fs/cgroup/'' @ grp @ ''/'' @ gname @ ''/tasks'')"

fun cgroup_loop :: "kernel \<Rightarrow> int \<Rightarrow> string \<Rightarrow> string list \<Rightarrow> nat \<Rightarrow> nat act" where
  "cgroup_loop k pid gname [] count = ret count"
| "cgroup_loop k pid gname (g # gs) count =
     andthen (sys k (Fopen_w (cgroup_path g gname))) (\<lambda>f.
       if f \<noteq> 0 then
         andthen (sys k (Write_pid pid)) (\<lambda>_. andthen (sys k Fclose) (\<lambda>_.
           cgroup_loop k pid gname gs (count + 1)))
       else cgroup_loop k pid gname gs count)"

definition cgroup :: "kernel \<Rightarrow> string \<Rightarrow> unit act" where
  "cgroup k gname =
     andthen (sys k Getpid) (\<lambda>pid.
       if \<not> validate gname then halt 1
       else andthen (cgroup_loop k pid gname [''cpu'', ''cpuacct'', ''cpuset''] 0) (\<lambda>count.
         if count = 0 then halt 1 else ret ()))"

definition opt_r :: "kernel \<Rightarrow> string \<Rightarrow> unit act" where
  "opt_r k optarg =
     andthen (sys k Getpid) (\<lambda>pid.
     andthen (sys k (Sched_setscheduler pid (atoi optarg))) (\<lambda>r. if r < 0 then halt 1 else ret ()))"

text \<open>The body of the option loop; the cases \<open>v\<close>, \<open>h\<close> and \<open>default\<close> print and exit.\<close>

fun do_opt :: "kernel \<Rightarrow> string \<Rightarrow> opt \<Rightarrow> unit act" where
  "do_opt k cwd (Opt c) =
     (if c = CHR ''c'' then opt_c k
      else if c = CHR ''d'' then opt_d k
      else if c = CHR ''n'' then opt_n k
      else if c = CHR ''p'' then opt_p k
      else if c = CHR ''v'' then halt 0
      else if c = CHR ''h'' then halt 0
      else halt 1)"
| "do_opt k cwd (Opt_arg c optarg) =
     (if c = CHR ''a'' then opt_a k cwd optarg
      else if c = CHR ''g'' then cgroup k optarg
      else if c = CHR ''r'' then opt_r k optarg
      else halt 1)"
| "do_opt k cwd Bad_opt = halt 1"

fun do_opts :: "kernel \<Rightarrow> string \<Rightarrow> opt list \<Rightarrow> unit act" where
  "do_opts k cwd [] = ret ()"
| "do_opts k cwd (o' # os) = andthen (do_opt k cwd o') (\<lambda>_. do_opts k cwd os)"

definition exec_command :: "kernel \<Rightarrow> string list \<Rightarrow> unit act" where
  "exec_command k cmd tr =
     (case cmd of
        [] \<Rightarrow> halt 0 tr
      | file # _ \<Rightarrow>
          (let r = k tr (Execvp file cmd); tr' = tr @ [(Execvp file cmd, r)]
           in if r = - 1 then (Exit 1, tr') else (Exec, tr')))"

text \<open>\<open>main\<close>, with the directory \<open>cwd\<close> that \<open>get_current_dir_name\<close> returned.\<close>

definition mnexec_main :: "kernel \<Rightarrow> string \<Rightarrow> string list \<Rightarrow> unit run \<times> trace" where
  "mnexec_main k cwd argv =
     (case getopt_all (tl argv) of (opts, cmd) \<Rightarrow>
        andthen (do_opts k cwd opts) (\<lambda>_. exec_command k cmd) [])"

section \<open>Reasoning about runs\<close>

text \<open>
  \<open>emits m P\<close>: whenever \<open>m\<close> continues, with \<open>x\<close>, the calls it appended to the trace satisfy
  \<open>P x\<close>.  \<open>calls_only Q m\<close>: however \<open>m\<close> ends, every call it made satisfies
  \<open>Q\<close>, and an exit status is 0 or 1.
\<close>

definition emits :: "'a act \<Rightarrow> ('a \<Rightarrow> trace \<Rightarrow> bool) \<Rightarrow> bool" where
  "emits m P \<longleftrightarrow> (\<forall>tr. fst (m tr) \<noteq> Exec \<and>
     (\<forall>x tr'. m tr = (Go x, tr') \<longrightarrow> (\<exists>seg. tr' = tr @ seg \<and> P x seg)))"

definition calls_only :: "(call \<Rightarrow> bool) \<Rightarrow> 'a act \<Rightarrow> bool" where
  "calls_only Q m \<longleftrightarrow> (\<forall>tr. (\<exists>seg. snd (m tr) = tr @ seg \<and> list_all (Q \<circ> fst) seg) \<and>
     (\<forall>s. fst (m tr) = Exit s \<longrightarrow> s = 0 \<or> s = 1))"

named_theorems emits_rules
named_theorems calls_rules

lemma emits_ret [emits_rules]: "P x [] \<Longrightarrow> emits (ret x) P"
  by (simp add: emits_def ret_def)

lemma emits_halt [emits_rules]: "emits (halt s) P"
  by (simp add: emits_def halt_def)

lemma emits_andthen:
  assumes "emits m P" "\<And>x seg. P x seg \<Longrightarrow> emits (f x) (\<lambda>y seg'. Q y (seg @ seg'))"
  shows "emits (andthen m f) Q"
  unfolding emits_def
proof (intro allI conjI impI)
  fix tr
  show "fst (andthen m f tr) \<noteq> Exec"
  proof (cases "m tr")
    case (Pair r tr1)
    then show ?thesis
    proof (cases r)
      case (Go x)
      with Pair assms(1) obtain seg where "P x seg" unfolding emits_def by blast
      with assms(2) [of x seg] Pair Go show ?thesis unfolding emits_def by (simp add: andthen_def)
    next
      case Exec
      with Pair assms(1) show ?thesis unfolding emits_def by (metis fst_conv)
    qed (simp add: andthen_def)
  qed
  fix y tr'
  assume "andthen m f tr = (Go y, tr')"
  then obtain x tr1 where m: "m tr = (Go x, tr1)" "f x tr1 = (Go y, tr')"
    by (auto simp: andthen_def split: prod.splits run.splits)
  then obtain seg where "tr1 = tr @ seg" "P x seg" using assms(1) unfolding emits_def by blast
  moreover from assms(2) [OF this(2)] m(2) obtain seg' where "tr' = tr1 @ seg'" "Q y (seg @ seg')"
    unfolding emits_def by blast
  ultimately show "\<exists>seg. tr' = tr @ seg \<and> Q y seg" by auto
qed

lemma emits_sys [emits_rules]: "(\<And>r. P r [(c, r)]) \<Longrightarrow> emits (sys k c) P"
  by (simp add: emits_def sys_def Let_def)

lemma emits_sys_then [emits_rules]:
  "(\<And>r. emits (f r) (\<lambda>y seg. Q y ((c, r) # seg))) \<Longrightarrow> emits (andthen (sys k c) f) Q"
  by (rule emits_andthen [where P = "\<lambda>r seg. seg = [(c, r)]"]) (auto intro: emits_sys)

lemma emits_if [emits_rules]: "(b \<Longrightarrow> emits m P) \<Longrightarrow> (\<not> b \<Longrightarrow> emits m' P) \<Longrightarrow> emits (if b then m else m') P"
  by simp

lemma emits_mono: "emits m P \<Longrightarrow> (\<And>x seg. P x seg \<Longrightarrow> Q x seg) \<Longrightarrow> emits m Q"
  unfolding emits_def by blast

lemma calls_ret [calls_rules]: "calls_only Q (ret x)"
  by (simp add: calls_only_def ret_def)

lemma calls_halt [calls_rules]: "s = 0 \<or> s = 1 \<Longrightarrow> calls_only Q (halt s)"
  by (simp add: calls_only_def halt_def)

lemma calls_sys [calls_rules]: "Q c \<Longrightarrow> calls_only Q (sys k c)"
  by (simp add: calls_only_def sys_def Let_def)

lemma calls_andthen [calls_rules]:
  assumes "calls_only Q m" "\<And>x. calls_only Q (f x)"
  shows "calls_only Q (andthen m f)"
  unfolding calls_only_def
proof
  fix tr
  obtain seg where m: "snd (m tr) = tr @ seg" "list_all (Q \<circ> fst) seg"
    and s: "\<And>s. fst (m tr) = Exit s \<Longrightarrow> s = 0 \<or> s = 1"
    using assms(1) unfolding calls_only_def by blast
  show "(\<exists>seg. snd (andthen m f tr) = tr @ seg \<and> list_all (Q \<circ> fst) seg) \<and>
    (\<forall>s. fst (andthen m f tr) = Exit s \<longrightarrow> s = 0 \<or> s = 1)"
  proof (cases "fst (m tr)")
    case (Go x)
    obtain seg' where "snd (f x (tr @ seg)) = (tr @ seg) @ seg'" "list_all (Q \<circ> fst) seg'"
      and "\<And>s. fst (f x (tr @ seg)) = Exit s \<Longrightarrow> s = 0 \<or> s = 1"
      using assms(2) [of x] unfolding calls_only_def by blast
    then show ?thesis
      using Go m by (auto simp: andthen_def split: prod.split)
  qed (use m s in \<open>auto simp: andthen_def split: prod.split\<close>)
qed

lemma calls_if [calls_rules]:
  "(b \<Longrightarrow> calls_only Q m) \<Longrightarrow> (\<not> b \<Longrightarrow> calls_only Q m') \<Longrightarrow> calls_only Q (if b then m else m')"
  by simp

section \<open>What each option has done when the program goes on\<close>

inductive performed :: "string \<Rightarrow> opt \<Rightarrow> trace \<Rightarrow> bool" for cwd where
  closed: "map fst cl = map Close (rev [3..<Suc (nat n)]) \<Longrightarrow>
    performed cwd (Opt CHR ''c'') ((Getdtablesize, n) # cl)"
| detached_leader: "performed cwd (Opt CHR ''d'') [(Getpgrp, p), (Getpid, p), (Fork, 0), (Setsid, r)]"
| detached: "p \<noteq> q \<Longrightarrow> performed cwd (Opt CHR ''d'') [(Getpgrp, p), (Getpid, q), (Setsid, r)]"
| unshared: "- 1 \<notin> {r1, r2, r3} \<Longrightarrow> performed cwd (Opt CHR ''n'')
    [(Unshare (CLONE_NEWNET + CLONE_NEWNS), r1), (Mount ''none'' ''/'' None (MS_REC + MS_PRIVATE), r2),
     (Mount ''sysfs'' ''/sys'' (Some ''sysfs'') MS_MGC_VAL, r3)]"
| printed: "performed cwd (Opt CHR ''p'') [(Getpid, p), (Print_pid p, r)]"
| attached: "0 \<le> net \<Longrightarrow> 0 \<le> mnt \<Longrightarrow> performed cwd (Opt_arg CHR ''a'' s)
    [(Open (proc_path (atoi s) ''/ns/net''), net), (Setns net, 0),
     (Open (proc_path (atoi s) ''/ns/mnt''), mnt), (Setns mnt, 0), (Chdir cwd, 0)]"
| attached_root: "0 \<le> net \<Longrightarrow> plan_a = (if mnt < 0 then [] else [(Setns mnt, e)]) \<Longrightarrow> e \<noteq> 0 \<Longrightarrow> 0 \<le> r \<Longrightarrow>
    performed cwd (Opt_arg CHR ''a'' s)
      ([(Open (proc_path (atoi s) ''/ns/net''), net), (Setns net, 0), (Open (proc_path (atoi s) ''/ns/mnt''), mnt)] @
       plan_a @ [(Chroot (proc_path (atoi s) ''/root''), r), (Chdir cwd, 0)])"
| grouped: "validate s \<Longrightarrow> f \<noteq> 0 \<Longrightarrow> grp \<in> {''cpu'', ''cpuacct'', ''cpuset''} \<Longrightarrow>
    performed cwd (Opt_arg CHR ''g'' s)
      ((Getpid, p) # pre @ [(Fopen_w (cgroup_path grp s), f), (Write_pid p, w), (Fclose, c)] @ post)"
| scheduled: "0 \<le> r \<Longrightarrow> performed cwd (Opt_arg CHR ''r'' s) [(Getpid, p), (Sched_setscheduler p (atoi s), r)]"

inductive_cases performed_optE: "performed cwd (Opt c) seg"
inductive_cases performed_badE: "performed cwd Bad_opt seg"

lemma close_loop_emits:
  "emits (close_loop k n) (\<lambda>_ seg. map fst seg = map Close (rev [3..<Suc n]))"
proof (induction n)
  case 0
  show ?case by (simp add: emits_rules)
next
  case (Suc n)
  show ?case
  proof (cases "2 < Suc n")
    case True
    then have e: "rev [3..<Suc (Suc n)] = Suc n # rev [3..<Suc n]" by simp
    show ?thesis
      using True unfolding close_loop.simps e if_P [OF True]
      by (intro emits_sys_then emits_mono [OF Suc]) simp
  qed (simp add: emits_rules)
qed

text \<open>The segment of a run in which the process entered one of the groups.\<close>

definition joined :: "int \<Rightarrow> string \<Rightarrow> string list \<Rightarrow> trace \<Rightarrow> bool" where
  "joined pid g gs seg = (\<exists>grp f w c pre post. grp \<in> set gs \<and> f \<noteq> 0 \<and>
     seg = pre @ [(Fopen_w (cgroup_path grp g), f), (Write_pid pid, w), (Fclose, c)] @ post)"

lemma joined_here:
  "f \<noteq> 0 \<Longrightarrow> grp \<in> set gs \<Longrightarrow>
   joined pid g gs ((Fopen_w (cgroup_path grp g), f) # (Write_pid pid, w) # (Fclose, c) # seg)"
  unfolding joined_def by (intro exI [of _ grp] exI [of _ f] exI [of _ w] exI [of _ c] exI [of _ "[]"] exI [of _ seg]) simp

lemma joined_later: "joined pid g gs seg \<Longrightarrow> joined pid g (grp # gs) (x # seg)"
  unfolding joined_def by (metis append_Cons list.set_intros(2))

lemma cgroup_loop_emits:
  "emits (cgroup_loop k pid g gs n) (\<lambda>m seg. n \<le> m \<and> (n < m \<longrightarrow> joined pid g gs seg))"
proof (induction gs arbitrary: n)
  case Nil
  show ?case by (simp add: emits_rules)
next
  case (Cons grp gs)
  show ?case
    unfolding cgroup_loop.simps
  proof (intro emits_sys_then emits_if, goal_cases)
    case (1 f w c)
    show ?case
      by (rule emits_mono [OF Cons [of "n + 1"]]) (use 1 in \<open>simp add: joined_here\<close>)
  next
    case (2 f)
    show ?case
      by (rule emits_mono [OF Cons [of n]]) (simp add: joined_later)
  qed
qed

lemma opt_d_emits: "emits (opt_d k) (\<lambda>_. performed cwd (Opt CHR ''d''))"
  unfolding opt_d_def
  proof (intro emits_sys_then, rule emits_andthen)
  fix p q :: int
  show "emits (if p = q then andthen (sys k Fork) (\<lambda>r. if r = - 1 then halt 1 else if r = 0 then ret () else halt 0)
      else ret ()) (\<lambda>_ seg. seg = (if p = q then [(Fork, 0)] else []))"
    by (intro emits_rules) simp_all
  show "seg = (if p = q then [(Fork, 0)] else []) \<Longrightarrow>
      emits (andthen (sys k Setsid) (\<lambda>_. ret ())) (\<lambda>_ seg'. performed cwd (Opt CHR ''d'')
        ((Getpgrp, p) # (Getpid, q) # seg @ seg'))" for seg
    by (cases "p = q"; simp; intro emits_rules performed.detached performed.detached_leader)
  qed

lemma cgroup_emits: "emits (cgroup k s) (\<lambda>_. performed cwd (Opt_arg CHR ''g'' s))"
  unfolding cgroup_def
  proof (intro emits_sys_then emits_if emits_halt, rule emits_andthen [OF cgroup_loop_emits], intro emits_if emits_halt emits_ret)
  fix p x seg
  assume "\<not> \<not> validate s" "0 \<le> x \<and> (0 < x \<longrightarrow> joined p s [''cpu'', ''cpuacct'', ''cpuset''] seg)" "x \<noteq> (0 :: nat)"
  then show "performed cwd (Opt_arg CHR ''g'' s) ((Getpid, p) # seg @ [])"
    by (auto simp: joined_def simp del: append_Cons append.simps(2) intro!: performed.grouped)
  qed

lemma opt_a_emits: "emits (opt_a k cwd s) (\<lambda>_. performed cwd (Opt_arg CHR ''a'' s))"
  unfolding opt_a_def Let_def
  proof (intro emits_sys_then emits_if emits_halt, rule emits_andthen)
  fix net mnt r :: int
  assume ok: "\<not> net < 0" "\<not> r \<noteq> 0"
  show "emits (if mnt < 0 then ret True else andthen (sys k (Setns mnt)) (\<lambda>r. ret (r \<noteq> 0)))
      (\<lambda>b seg. \<exists>e. (mnt < 0 \<longrightarrow> e \<noteq> 0) \<and> seg = (if mnt < 0 then [] else [(Setns mnt, e)]) \<and> b = (mnt < 0 \<or> e \<noteq> 0))"
    by (intro emits_rules) (auto intro: exI [of _ 1])
  fix b and seg :: trace
  assume "\<exists>e. (mnt < 0 \<longrightarrow> e \<noteq> 0) \<and> seg = (if mnt < 0 then [] else [(Setns mnt, e)]) \<and> b = (mnt < 0 \<or> e \<noteq> 0)"
  then obtain e where e: "seg = (if mnt < 0 then [] else [(Setns mnt, e)])" "b = (mnt < 0 \<or> e \<noteq> 0)"
    "mnt < 0 \<longrightarrow> e \<noteq> 0"
    by blast
  show "emits (andthen (if b then andthen (sys k (Chroot (proc_path (atoi s) ''/root''))) (\<lambda>r. if r < 0 then halt 1 else ret ())
      else ret ()) (\<lambda>_. andthen (sys k (Chdir cwd)) (\<lambda>r. if r \<noteq> 0 then halt 1 else ret ())))
    (\<lambda>_ seg'. performed cwd (Opt_arg CHR ''a'' s) ((Open (proc_path (atoi s) ''/ns/net''), net) # (Setns net, r) #
       (Open (proc_path (atoi s) ''/ns/mnt''), mnt) # seg @ seg'))"
  proof (rule emits_andthen)
    show "emits (if b then andthen (sys k (Chroot (proc_path (atoi s) ''/root''))) (\<lambda>r. if r < 0 then halt 1 else ret ())
        else ret ()) (\<lambda>_ seg. \<exists>c \<ge> 0. seg = (if b then [(Chroot (proc_path (atoi s) ''/root''), c)] else []))"
      by (intro emits_rules) auto
  next
    fix seg2 :: trace
    assume "\<exists>c \<ge> 0. seg2 = (if b then [(Chroot (proc_path (atoi s) ''/root''), c)] else [])"
    then obtain c where c: "0 \<le> c" "seg2 = (if b then [(Chroot (proc_path (atoi s) ''/root''), c)] else [])" by blast
    show "emits (andthen (sys k (Chdir cwd)) (\<lambda>r. if r \<noteq> 0 then halt 1 else ret ()))
      (\<lambda>_ seg3. performed cwd (Opt_arg CHR ''a'' s) ((Open (proc_path (atoi s) ''/ns/net''), net) # (Setns net, r) #
         (Open (proc_path (atoi s) ''/ns/mnt''), mnt) # seg @ seg2 @ seg3))"
    proof (intro emits_rules)
      fix d :: int assume d: "\<not> d \<noteq> 0"
      show "performed cwd (Opt_arg CHR ''a'' s) ((Open (proc_path (atoi s) ''/ns/net''), net) # (Setns net, r) #
         (Open (proc_path (atoi s) ''/ns/mnt''), mnt) # seg @ seg2 @ [(Chdir cwd, d)])"
        using performed.attached [of net mnt cwd s] performed.attached_root [of net seg mnt e c cwd s] ok d e c
        by (auto split: if_splits)
    qed
  qed
  qed

lemma do_opt_emits: "emits (do_opt k cwd o') (\<lambda>_. performed cwd o')"
proof (cases o')
  case (Opt c)
  have c: "emits (opt_c k) (\<lambda>_. performed cwd (Opt CHR ''c''))"
    unfolding opt_c_def
    by (intro emits_sys_then emits_mono [OF close_loop_emits]) (rule performed.closed)
  have n: "emits (opt_n k) (\<lambda>_. performed cwd (Opt CHR ''n''))"
    unfolding opt_n_def by (intro emits_rules performed.unshared) auto
  have p: "emits (opt_p k) (\<lambda>_. performed cwd (Opt CHR ''p''))"
    unfolding opt_p_def by (intro emits_rules performed.printed)
  show ?thesis unfolding Opt do_opt.simps
    by (intro emits_if emits_halt) (use c opt_d_emits n p in auto)
next
  case (Opt_arg c s)
  have r: "emits (opt_r k s) (\<lambda>_. performed cwd (Opt_arg CHR ''r'' s))"
    unfolding opt_r_def by (intro emits_rules performed.scheduled) auto
  show ?thesis unfolding Opt_arg do_opt.simps
    by (intro emits_if emits_halt) (use opt_a_emits cgroup_emits r in auto)
qed (simp add: emits_halt)

lemma do_opts_emits:
  "emits (do_opts k cwd os) (\<lambda>_ seg. \<exists>segs. seg = concat segs \<and> list_all2 (performed cwd) os segs)"
proof (induction os)
  case Nil
  show ?case by (simp add: emits_ret)
next
  case (Cons o' os)
  show ?case
    unfolding do_opts.simps
  proof (rule emits_andthen [OF do_opt_emits], rule emits_mono [OF Cons], elim exE conjE)
    fix seg seg' segs
    assume "performed cwd o' seg" "seg' = concat segs" "list_all2 (performed cwd) os segs"
    then show "\<exists>segs. seg @ seg' = concat segs \<and> list_all2 (performed cwd) (o' # os) segs"
      by (intro exI [of _ "seg # segs"]) simp
  qed
qed

section \<open>Properties\<close>

text \<open>
  C39: The command is started only in the requested environment: when \<open>mnexec\<close> ends by
  \<open>execvp\<close>, the calls before it are, option by option in the order of the command line, the
  successful work of each option, and the call is the first operand with all operands; so a
  failed or unknown option never starts the command.
\<close>

theorem mnexec_isolates:
  assumes "getopt_all (tl argv) = (opts, cmd)" "mnexec_main k cwd argv = (Exec, tr)"
  shows "\<exists>segs r. cmd \<noteq> [] \<and> r \<noteq> - 1 \<and> tr = concat segs @ [(Execvp (hd cmd) cmd, r)] \<and>
    list_all2 (performed cwd) opts segs"
proof -
  have m: "andthen (do_opts k cwd opts) (\<lambda>_. exec_command k cmd) [] = (Exec, tr)"
    using assms by (simp add: mnexec_main_def)
  have ne: "fst (do_opts k cwd opts []) \<noteq> Exec"
    using do_opts_emits [of k cwd opts] unfolding emits_def by blast
  obtain tr1 where d: "do_opts k cwd opts [] = (Go (), tr1)" "exec_command k cmd tr1 = (Exec, tr)"
    using m ne by (auto simp: andthen_def split: prod.splits run.splits)
  obtain segs where "tr1 = concat segs" "list_all2 (performed cwd) opts segs"
    using d(1) do_opts_emits [of k cwd opts] unfolding emits_def by (metis append_Nil)
  moreover from d(2) obtain r where "cmd \<noteq> []" "r \<noteq> - 1" "tr = tr1 @ [(Execvp (hd cmd) cmd, r)]"
    by (auto simp: exec_command_def halt_def Let_def split: list.splits if_splits)
  ultimately show ?thesis by blast
qed

text \<open>Calls that leave the standard descriptors and the file system outside the cgroup tree alone.\<close>

definition safe_call :: "call \<Rightarrow> bool" where
  "safe_call c = (case c of
      Close fd \<Rightarrow> 2 < fd
    | Fopen_w path \<Rightarrow> take 15 path = ''/sys/fs/cgroup/'' \<and> CHR ''.'' \<notin> set path
    | _ \<Rightarrow> True)"

lemma close_loop_calls: "calls_only safe_call (close_loop k n)"
  by (induction n) (auto intro!: calls_rules simp: safe_call_def)

lemma cgroup_path_safe:
  assumes "validate g" "grp \<in> {''cpu'', ''cpuacct'', ''cpuset''}"
  shows "safe_call (Fopen_w (cgroup_path grp g))"
proof -
  have "\<not> (isalnum CHR ''.'' \<or> CHR ''.'' = CHR ''/'')" by (simp add: isalnum_def isdigit_def)
  then have "CHR ''.'' \<notin> set g" using assms(1) unfolding validate_def list_all_iff by blast
  then show ?thesis
    using assms(2) by (auto simp: safe_call_def cgroup_path_def PATH_MAX_def dest: in_set_takeD)
qed

lemma cgroup_loop_calls:
  "validate g \<Longrightarrow> set gs \<subseteq> {''cpu'', ''cpuacct'', ''cpuset''} \<Longrightarrow> calls_only safe_call (cgroup_loop k pid g gs n)"
  by (induction gs arbitrary: n)
    (auto intro!: calls_rules cgroup_path_safe simp: safe_call_def [of "Write_pid _"] safe_call_def [of Fclose])

lemma do_opt_calls: "calls_only safe_call (do_opt k cwd o')"
proof (cases o')
  case (Opt c)
  show ?thesis
    unfolding Opt do_opt.simps opt_c_def opt_d_def opt_n_def opt_p_def
    by (intro calls_rules close_loop_calls) (simp_all add: safe_call_def)
next
  case (Opt_arg c s)
  show ?thesis
    unfolding Opt_arg do_opt.simps opt_a_def cgroup_def opt_r_def Let_def
    by (intro calls_rules cgroup_loop_calls) (simp_all add: safe_call_def)
qed (simp add: calls_halt)

lemma do_opts_calls: "calls_only safe_call (do_opts k cwd os)"
  by (induction os) (auto intro!: calls_rules do_opt_calls)

lemma exec_command_calls: "calls_only safe_call (exec_command k cmd)"
  by (cases cmd) (auto simp: exec_command_def calls_only_def halt_def Let_def safe_call_def)

lemma calls_only_run:
  assumes "calls_only Q m"
  shows "list_all (\<lambda>(c, r). Q c) (snd (m []))" "fst (m []) = Exit s \<Longrightarrow> s = 0 \<or> s = 1"
proof -
  have e: "Q \<circ> fst = (\<lambda>(c, r :: int). Q c)" by auto
  obtain seg where "snd (m []) = [] @ seg" "list_all (Q \<circ> fst) seg"
    using assms unfolding calls_only_def by blast
  then show "list_all (\<lambda>(c, r). Q c) (snd (m []))" by (simp add: e)
  show "fst (m []) = Exit s \<Longrightarrow> s = 0 \<or> s = 1" using assms unfolding calls_only_def by blast
qed

lemma exec_command_ends: "fst (exec_command k cmd tr) \<noteq> Go x"
  by (cases cmd) (auto simp: exec_command_def halt_def Let_def)

text \<open>
  C40: On every run, also failing ones: only descriptors above 2 are closed, and every file
  opened for writing lies below \<open>/sys/fs/cgroup/\<close> and has no dot in its path, so a group name
  cannot climb out of the tree; the program always ends with status 0 or 1 or by \<open>execvp\<close>.
\<close>

theorem mnexec_contained:
  "list_all (\<lambda>(c, r). safe_call c) (snd (mnexec_main k cwd argv)) \<and>
   fst (mnexec_main k cwd argv) \<in> {Exit 0, Exit 1, Exec}"
proof -
  obtain opts cmd where o: "getopt_all (tl argv) = (opts, cmd)" by fastforce
  let ?m = "andthen (do_opts k cwd opts) (\<lambda>_. exec_command k cmd)"
  have c: "calls_only safe_call ?m" by (intro calls_andthen do_opts_calls exec_command_calls)
  have n: "fst (?m []) \<noteq> Go x" for x
    using exec_command_ends by (auto simp: andthen_def split: prod.split run.split)
  have "fst (?m []) \<in> {Exit 0, Exit 1, Exec}"
    using calls_only_run(2) [OF c] n by (cases "fst (?m [])") auto
  with calls_only_run(1) [OF c] o show ?thesis by (simp add: mnexec_main_def)
qed

text \<open>A kernel on which every call the program depends on succeeds; \<open>fork\<close> answers in the child.\<close>

definition benign :: "kernel \<Rightarrow> bool" where
  "benign k = (\<forall>tr c. case c of
      Fork \<Rightarrow> k tr c = 0
    | Unshare _ \<Rightarrow> k tr c \<noteq> - 1
    | Mount _ _ _ _ \<Rightarrow> k tr c \<noteq> - 1
    | Open _ \<Rightarrow> 0 \<le> k tr c
    | Setns _ \<Rightarrow> k tr c = 0
    | Chdir _ \<Rightarrow> k tr c = 0
    | Fopen_w _ \<Rightarrow> k tr c \<noteq> 0
    | Sched_setscheduler _ _ \<Rightarrow> 0 \<le> k tr c
    | Execvp _ _ \<Rightarrow> k tr c \<noteq> - 1
    | _ \<Rightarrow> True)"

fun runnable :: "opt \<Rightarrow> bool" where
  "runnable (Opt c) = (c \<in> set ''cdnp'')"
| "runnable (Opt_arg c s) = (c \<in> set ''ar'' \<or> c = CHR ''g'' \<and> validate s)"
| "runnable Bad_opt = False"

definition goes :: "'a act \<Rightarrow> ('a \<Rightarrow> bool) \<Rightarrow> bool" where
  "goes m P = (\<forall>tr. \<exists>x tr'. m tr = (Go x, tr') \<and> P x)"

named_theorems goes_rules

lemma goes_ret [goes_rules]: "P x \<Longrightarrow> goes (ret x) P"
  by (simp add: goes_def ret_def)

lemma goes_sys [goes_rules]: "(\<And>tr. P (k tr c)) \<Longrightarrow> goes (sys k c) P"
  by (simp add: goes_def sys_def Let_def)

lemma goes_andthen: "goes m P \<Longrightarrow> (\<And>x. P x \<Longrightarrow> goes (f x) Q) \<Longrightarrow> goes (andthen m f) Q"
  unfolding goes_def
proof
  fix tr
  assume m: "\<forall>tr. \<exists>x tr'. m tr = (Go x, tr') \<and> P x"
    and f: "\<And>x. P x \<Longrightarrow> \<forall>tr. \<exists>y tr'. f x tr = (Go y, tr') \<and> Q y"
  obtain x tr' where "m tr = (Go x, tr')" "P x" using m by blast
  with f show "\<exists>y tr'. andthen m f tr = (Go y, tr') \<and> Q y" by (simp add: andthen_def)
qed

lemma goes_sys_then [goes_rules]: "(\<And>tr. goes (f (k tr c)) Q) \<Longrightarrow> goes (andthen (sys k c) f) Q"
  unfolding goes_def andthen_def sys_def Let_def by simp

lemma goes_if [goes_rules]: "(b \<Longrightarrow> goes m P) \<Longrightarrow> (\<not> b \<Longrightarrow> goes m' P) \<Longrightarrow> goes (if b then m else m') P"
  by simp

lemma close_loop_goes: "goes (close_loop k n) (\<lambda>_. True)"
  by (induction n) (auto intro!: goes_rules)

lemma benignD:
  assumes "benign k"
  shows "k tr Fork = 0" "k tr (Unshare n) \<noteq> - 1" "k tr (Mount a b c n) \<noteq> - 1" "\<not> k tr (Open p) < 0"
    "k tr (Setns fd) = 0" "k tr (Chdir p) = 0" "k tr (Fopen_w p) \<noteq> 0"
    "\<not> k tr (Sched_setscheduler pid prio) < 0" "k tr (Execvp p args) \<noteq> - 1"
proof -
  note b = assms [unfolded benign_def, THEN spec, THEN spec, of tr]
  show "k tr Fork = 0" using b [of "Fork"] by simp
  show "k tr (Unshare n) \<noteq> - 1" using b [of "Unshare n"] by simp
  show "k tr (Mount a b c n) \<noteq> - 1" using b [of "Mount a b c n"] by simp
  show "\<not> k tr (Open p) < 0" using b [of "Open p"] by simp
  show "k tr (Setns fd) = 0" using b [of "Setns fd"] by simp
  show "k tr (Chdir p) = 0" using b [of "Chdir p"] by simp
  show "k tr (Fopen_w p) \<noteq> 0" using b [of "Fopen_w p"] by simp
  show "\<not> k tr (Sched_setscheduler pid prio) < 0" using b [of "Sched_setscheduler pid prio"] by simp
  show "k tr (Execvp p args) \<noteq> - 1" using b [of "Execvp p args"] by simp
qed

lemma cgroup_loop_goes:
  assumes "benign k"
  shows "goes (cgroup_loop k pid g gs n) (\<lambda>m. m = n + length gs)"
proof (induction gs arbitrary: n)
  case (Cons grp gs)
  have "goes (cgroup_loop k pid g gs (n + 1)) (\<lambda>m. m = n + length (grp # gs))"
    using Cons [of "n + 1"] by simp
  then show ?case
    unfolding cgroup_loop.simps by (intro goes_rules) (simp_all add: benignD [OF assms])
qed (simp add: goes_ret)

lemma cgroup_goes: "benign k \<Longrightarrow> validate s \<Longrightarrow> goes (cgroup k s) (\<lambda>_. True)"
  unfolding cgroup_def
  by (intro goes_sys_then goes_if goes_andthen [OF cgroup_loop_goes]) (auto intro: goes_rules)

lemma do_opt_goes:
  assumes "benign k" "runnable o'"
  shows "goes (do_opt k cwd o') (\<lambda>_. True)"
proof (cases o')
  case (Opt c)
  have "goes (opt_d k) (\<lambda>_. True)"
    unfolding opt_d_def by (intro goes_sys_then goes_andthen [where P = "\<lambda>_. True"] goes_if)
      (auto intro!: goes_rules simp: benignD [OF assms(1)])
  then show ?thesis
    using assms(2) unfolding Opt
    by (auto simp: opt_c_def opt_n_def opt_p_def benignD [OF assms(1)] intro!: goes_rules close_loop_goes)
next
  case (Opt_arg c s)
  have "goes (opt_a k cwd s) (\<lambda>_. True)"
    unfolding opt_a_def Let_def
    by (intro goes_sys_then goes_andthen [where P = "\<lambda>b. \<not> b"] goes_if)
      (auto intro!: goes_rules goes_andthen [where P = "\<lambda>_. True"] simp: benignD [OF assms(1)])
  then show ?thesis
    using assms cgroup_goes unfolding Opt_arg
    by (auto simp: opt_r_def benignD [OF assms(1)] intro!: goes_rules)
qed (use assms in simp)

lemma do_opts_goes:
  "benign k \<Longrightarrow> list_all runnable os \<Longrightarrow> goes (do_opts k cwd os) (\<lambda>_. True)"
  by (induction os) (auto intro: goes_ret goes_andthen do_opt_goes)

text \<open>
  The utility does not refuse what it should run: on a kernel where the calls succeed,
  options among c, d, n, p, a, r and g with a valid group name, followed by a command, always
  end in \<open>execvp\<close> of that command.
\<close>

theorem mnexec_runs:
  assumes "benign k" "getopt_all (tl argv) = (opts, cmd)" "list_all runnable opts" "cmd \<noteq> []"
  shows "fst (mnexec_main k cwd argv) = Exec"
proof -
  obtain tr where "do_opts k cwd opts [] = (Go (), tr)"
    using do_opts_goes [OF assms(1,3), of cwd] by (auto simp: goes_def)
  moreover have "fst (exec_command k cmd tr) = Exec"
    using assms(4) benignD(9) [OF assms(1)] by (cases cmd) (auto simp: exec_command_def Let_def)
  ultimately show ?thesis using assms(2) by (simp add: mnexec_main_def andthen_def)
qed

definition sample_kernel :: kernel where
  "sample_kernel tr c = (case c of Getpid \<Rightarrow> 7 | Getpgrp \<Rightarrow> 7 | Getdtablesize \<Rightarrow> 4 | Fopen_w _ \<Rightarrow> 1 | _ \<Rightarrow> 0)"

lemma sample_benign: "benign sample_kernel"
  by (simp add: benign_def sample_kernel_def split: call.split)

lemma sample_getopt:
  "getopt_all (tl [''mnexec'', ''-cdn'', ''-g'', ''h1/x'', ''ls'', ''-l'']) =
     ([Opt CHR ''c'', Opt CHR ''d'', Opt CHR ''n'', Opt_arg CHR ''g'' ''h1/x''], [''ls'', ''-l''])"
  by simp

theorem mnexec_runs_witness:
  "fst (mnexec_main sample_kernel ''/'' [''mnexec'', ''-cdn'', ''-g'', ''h1/x'', ''ls'', ''-l'']) = Exec"
  by (rule mnexec_runs [OF sample_benign sample_getopt]) (simp_all add: validate_def isalnum_def isdigit_def)

theorem mnexec_isolates_witness:
  "\<exists>segs r. snd (mnexec_main sample_kernel ''/'' [''mnexec'', ''-n'', ''ls'', ''-l'']) =
     concat segs @ [(Execvp ''ls'' [''ls'', ''-l''], r)] \<and> list_all2 (performed ''/'') [Opt CHR ''n''] segs"
proof -
  let ?argv = "[''mnexec'', ''-n'', ''ls'', ''-l'']"
  have g: "getopt_all (tl ?argv) = ([Opt CHR ''n''], [''ls'', ''-l''])" by simp
  have "mnexec_main sample_kernel ''/'' ?argv = (Exec, snd (mnexec_main sample_kernel ''/'' ?argv))"
    by (simp add: mnexec_main_def andthen_def opt_n_def sys_def ret_def exec_command_def sample_kernel_def Let_def)
  from mnexec_isolates [OF g this] show ?thesis by auto
qed

end
