(* ===== verification/EapolAuth.thy ===== *)
theory EapolAuth
  imports Cstring
begin

text \<open>
  The IEEE 802.1X authenticator: \<open>src/mininet-wifi/hostap/src/eapol_auth/eapol_auth_sm.c\<close> with
  the structures of \<open>eapol_auth_sm_i.h\<close> and the macros of \<open>utils/state_machine.h\<close>, built with
  \<open>CONFIG_WEP\<close>.  The record holds the members of \<open>struct eapol_state_machine\<close> the machines use;
  its statistics counters are a record of their own, and \<open>outs\<close> lists the callbacks and event
  loop registrations in order.  Callbacks do not change the machine while they run; what they
  return is a parameter.  A C enum that \<open>os_zalloc\<close> leaves at 0 without naming 0 has an extra
  constructor.  Logging is left out.
\<close>

unbundle bit_operations_syntax

section \<open>State\<close>

datatype PortTypes = PortType0 | ForceUnauthorized | ForceAuthorized | Auto
datatype PortState = PortState0 | Unauthorized | Authorized
datatype ControlledDirection = Both | In

datatype auth_pae =
    AUTH_PAE_INITIALIZE | AUTH_PAE_DISCONNECTED | AUTH_PAE_CONNECTING | AUTH_PAE_AUTHENTICATING
  | AUTH_PAE_AUTHENTICATED | AUTH_PAE_ABORTING | AUTH_PAE_HELD | AUTH_PAE_FORCE_AUTH
  | AUTH_PAE_FORCE_UNAUTH | AUTH_PAE_RESTART

datatype be_auth =
    BE_AUTH_REQUEST | BE_AUTH_RESPONSE | BE_AUTH_SUCCESS | BE_AUTH_FAIL | BE_AUTH_TIMEOUT
  | BE_AUTH_IDLE | BE_AUTH_INITIALIZE | BE_AUTH_IGNORE

datatype reauth_timer = REAUTH_TIMER_INITIALIZE | REAUTH_TIMER_REAUTHENTICATE
datatype auth_key_tx = AUTH_KEY_TX_NO_KEY_TRANSMIT | AUTH_KEY_TX_KEY_TRANSMIT
datatype key_rx = KEY_RX_NO_KEY_RECEIVE | KEY_RX_KEY_RECEIVE
datatype ctrl_dir = CTRL_DIR_FORCE_BOTH | CTRL_DIR_IN_OR_BOTH

text \<open>The members of \<open>struct eap_eapol_interface\<close> shared with this component.\<close>

record eap_eapol_interface =
  eapResp :: bool
  portEnabled :: bool
  retransWhile :: int
  eapRestart :: bool
  eapReq :: bool
  eapNoReq :: bool
  eapSuccess :: bool
  eapFail :: bool
  eapTimeout :: bool
  eapReqData :: "bytes option"
  eapKeyAvailable :: bool
  aaaEapResp :: bool
  aaaEapRespData :: "bytes option"

record eapol_counters =
  authEntersConnecting :: u32
  authEapLogoffsWhileConnecting :: u32
  authEntersAuthenticating :: u32
  authAuthSuccessesWhileAuthenticating :: u32
  authAuthTimeoutsWhileAuthenticating :: u32
  authAuthFailWhileAuthenticating :: u32
  authAuthEapStartsWhileAuthenticating :: u32
  authAuthEapLogoffWhileAuthenticating :: u32
  authAuthReauthsWhileAuthenticated :: u32
  authAuthEapStartsWhileAuthenticated :: u32
  authAuthEapLogoffWhileAuthenticated :: u32
  backendResponses :: u32
  backendAccessChallenges :: u32
  backendOtherRequestsToSupplicant :: u32
  backendAuthSuccesses :: u32
  backendAuthFails :: u32
  dot1xAuthEapolFramesTx :: u32
  dot1xAuthEapolReqIdFramesTx :: u32
  dot1xAuthEapolReqFramesTx :: u32

datatype eapol_out =
    Set_port_authorized bool
  | Eapol_send bytes
  | Abort_auth
  | Tx_key
  | Finished bool bool bool
  | Event_sm_change
  | Event_reauthenticate
  | Aaa_send bytes
  | Register_step
  | Cancel_tick
  | Register_tick

record eapol_state_machine =
  aWhile :: int
  quietWhile :: int
  reAuthWhen :: int
  authAbort :: bool
  authFail :: bool
  authPortStatus :: PortState
  authStart :: bool
  authTimeout :: bool
  authSuccess :: bool
  eapolEap :: bool
  initialize :: bool
  keyDone :: bool
  keyRun :: bool
  keyTxEnabled :: bool
  portControl :: PortTypes
  portValid :: bool
  reAuthenticate :: bool
  auth_pae_state :: auth_pae
  eapolLogoff :: bool
  eapolStart :: bool
  portMode :: PortTypes
  reAuthCount :: u32
  quietPeriod :: int
  reAuthMax :: u32
  be_auth_state :: be_auth
  serverTimeout :: int
  reauth_timer_state :: reauth_timer
  reAuthPeriod :: int
  reAuthEnabled :: bool
  auth_key_tx_state :: auth_key_tx
  key_rx_state :: key_rx
  rxKey :: bool
  ctrl_dir_state :: ctrl_dir
  adminControlledDirections :: ControlledDirection
  operControlledDirections :: ControlledDirection
  operEdge :: bool
  flags :: u32
  last_eap_id :: u8
  has_eap :: bool
  initializing :: bool
  changed :: bool
  authenticated :: u32
  stopped :: bool
  eap_if :: eap_eapol_interface
  counters :: eapol_counters
  outs :: "eapol_out list"

text \<open>Assignments to \<open>sm->eap_if\<close>, counters, and a callback or registration.\<close>

definition eif :: "(eap_eapol_interface \<Rightarrow> eap_eapol_interface) \<Rightarrow> eapol_state_machine \<Rightarrow> eapol_state_machine" where
  "eif f sm = sm\<lparr>eap_if := f (eap_if sm)\<rparr>"

definition cnt :: "(eapol_counters \<Rightarrow> eapol_counters) \<Rightarrow> eapol_state_machine \<Rightarrow> eapol_state_machine" where
  "cnt f sm = sm\<lparr>counters := f (counters sm)\<rparr>"

definition emit :: "eapol_out \<Rightarrow> eapol_state_machine \<Rightarrow> eapol_state_machine" where
  "emit e sm = sm\<lparr>outs := outs sm @ [e]\<rparr>"

definition EAPOL_SM_PREAUTH :: u32 where "EAPOL_SM_PREAUTH = 1"
definition EAPOL_SM_WAIT_START :: u32 where "EAPOL_SM_WAIT_START = 2"
definition EAPOL_SM_USES_WPA :: u32 where "EAPOL_SM_USES_WPA = 4"

definition flag :: "u32 \<Rightarrow> eapol_state_machine \<Rightarrow> bool" where
  "flag f sm = (flags sm AND f \<noteq> 0)"

section \<open>Transmission\<close>

definition eap_get_id :: "bytes \<Rightarrow> u8" where
  "eap_get_id msg = (if length msg < 4 then 0 else msg ! 1)"

definition eap_get_type :: "bytes \<Rightarrow> u8" where
  "eap_get_type msg = (if length msg < 5 then 0 else msg ! 4)"

definition eapol_auth_tx_canned_eap :: "bool \<Rightarrow> eapol_state_machine \<Rightarrow> eapol_state_machine" where
  "eapol_auth_tx_canned_eap success sm =
     (let sm = sm\<lparr>last_eap_id := last_eap_id sm + 1\<rparr>
      in cnt (dot1xAuthEapolFramesTx_update (\<lambda>n. n + 1))
           (emit (Eapol_send [if success then 3 else 4, last_eap_id sm, 0, 4]) sm))"

definition eapol_auth_tx_req :: "eapol_state_machine \<Rightarrow> eapol_state_machine" where
  "eapol_auth_tx_req sm =
     (case eapReqData (eap_if sm) of
        None \<Rightarrow> sm
      | Some req \<Rightarrow>
          if length req < 4 then sm
          else if flag EAPOL_SM_WAIT_START sm then sm
          else
            let sm = emit (Eapol_send req) (sm\<lparr>last_eap_id := eap_get_id req\<rparr>);
                sm = cnt (dot1xAuthEapolFramesTx_update (\<lambda>n. n + 1)) sm
            in if eap_get_type req = 1 then cnt (dot1xAuthEapolReqIdFramesTx_update (\<lambda>n. n + 1)) sm
               else cnt (dot1xAuthEapolReqFramesTx_update (\<lambda>n. n + 1)) sm)"

section \<open>Authenticator PAE\<close>

text \<open>\<open>SM_ENTRY_MA\<close> for each machine; \<open>g\<close> is the macro's \<open>global\<close>.\<close>

definition enter_auth_pae :: "bool \<Rightarrow> auth_pae \<Rightarrow> eapol_state_machine \<Rightarrow> eapol_state_machine" where
  "enter_auth_pae g st sm =
     sm\<lparr>changed := (if \<not> g \<or> auth_pae_state sm \<noteq> st then True else changed sm), auth_pae_state := st\<rparr>"

definition AUTH_PAE_INITIALIZE_Enter :: "bool \<Rightarrow> eapol_state_machine \<Rightarrow> eapol_state_machine" where
  "AUTH_PAE_INITIALIZE_Enter g sm =
     (enter_auth_pae g AUTH_PAE_INITIALIZE sm)\<lparr>portMode := Auto, keyRun := False\<rparr>"

text \<open>\<open>fin\<close> is what the callback \<open>finished\<close> returns.\<close>

definition AUTH_PAE_DISCONNECTED_Enter :: "bool \<Rightarrow> bool \<Rightarrow> eapol_state_machine \<Rightarrow> eapol_state_machine" where
  "AUTH_PAE_DISCONNECTED_Enter fin g sm =
     (let from_initialize = auth_pae_state sm = AUTH_PAE_INITIALIZE;
          pre_auth_logoff = auth_pae_state sm = AUTH_PAE_ABORTING \<and> eapolLogoff sm \<and> authenticated sm = 0;
          logoff = eapolLogoff sm;
          sm = (if eapolLogoff sm then
                  (if auth_pae_state sm = AUTH_PAE_CONNECTING
                   then cnt (authEapLogoffsWhileConnecting_update (\<lambda>n. n + 1)) sm
                   else if auth_pae_state sm = AUTH_PAE_AUTHENTICATED
                   then cnt (authAuthEapLogoffWhileAuthenticated_update (\<lambda>n. n + 1)) sm
                   else sm)
                else sm);
          sm = enter_auth_pae g AUTH_PAE_DISCONNECTED sm;
          sm = emit (Set_port_authorized False) (sm\<lparr>authPortStatus := Unauthorized\<rparr>);
          sm = sm\<lparr>reAuthCount := 0, eapolLogoff := False\<rparr>
      in if \<not> from_initialize \<and> \<not> pre_auth_logoff then
           let sm = emit (Finished False (flag EAPOL_SM_PREAUTH sm) logoff) sm
           in if fin then sm\<lparr>stopped := True\<rparr> else sm
         else sm)"

definition AUTH_PAE_RESTART_Enter :: "bool \<Rightarrow> eapol_state_machine \<Rightarrow> eapol_state_machine" where
  "AUTH_PAE_RESTART_Enter g sm =
     (let sm = (if auth_pae_state sm = AUTH_PAE_AUTHENTICATED then
                  let sm1 = (if reAuthenticate sm then cnt (authAuthReauthsWhileAuthenticated_update (\<lambda>n. n + 1)) sm else sm);
                      sm2 = (if eapolStart sm1 then cnt (authAuthEapStartsWhileAuthenticated_update (\<lambda>n. n + 1)) sm1 else sm1)
                  in if eapolLogoff sm2 then cnt (authAuthEapLogoffWhileAuthenticated_update (\<lambda>n. n + 1)) sm2 else sm2
                else sm);
          sm = enter_auth_pae g AUTH_PAE_RESTART sm
      in eif (eapRestart_update (\<lambda>_. True)) sm)"

definition AUTH_PAE_CONNECTING_Enter :: "bool \<Rightarrow> eapol_state_machine \<Rightarrow> eapol_state_machine" where
  "AUTH_PAE_CONNECTING_Enter g sm =
     (let sm = (if auth_pae_state sm \<noteq> AUTH_PAE_CONNECTING
                then cnt (authEntersConnecting_update (\<lambda>n. n + 1)) sm else sm);
          sm = enter_auth_pae g AUTH_PAE_CONNECTING sm
      in sm\<lparr>reAuthenticate := False, reAuthCount := reAuthCount sm + 1\<rparr>)"

definition AUTH_PAE_HELD_Enter :: "bool \<Rightarrow> eapol_state_machine \<Rightarrow> eapol_state_machine" where
  "AUTH_PAE_HELD_Enter g sm =
     (let sm = (if auth_pae_state sm = AUTH_PAE_AUTHENTICATING \<and> authFail sm
                then cnt (authAuthFailWhileAuthenticating_update (\<lambda>n. n + 1)) sm else sm);
          sm = enter_auth_pae g AUTH_PAE_HELD sm;
          sm = emit (Set_port_authorized False) (sm\<lparr>authPortStatus := Unauthorized\<rparr>);
          sm = sm\<lparr>quietWhile := quietPeriod sm, eapolLogoff := False\<rparr>
      in emit (Finished False (flag EAPOL_SM_PREAUTH sm) False) sm)"

definition AUTH_PAE_AUTHENTICATED_Enter :: "bool \<Rightarrow> eapol_state_machine \<Rightarrow> eapol_state_machine" where
  "AUTH_PAE_AUTHENTICATED_Enter g sm =
     (let sm = (if auth_pae_state sm = AUTH_PAE_AUTHENTICATING \<and> authSuccess sm
                then cnt (authAuthSuccessesWhileAuthenticating_update (\<lambda>n. n + 1)) sm else sm);
          sm = enter_auth_pae g AUTH_PAE_AUTHENTICATED sm;
          sm = emit (Set_port_authorized True) (sm\<lparr>authPortStatus := Authorized\<rparr>);
          sm = sm\<lparr>reAuthCount := 0\<rparr>;
          sm = (if authSuccess sm then sm\<lparr>authenticated := authenticated sm + 1\<rparr> else sm)
      in emit (Finished True (flag EAPOL_SM_PREAUTH sm) False) sm)"

definition AUTH_PAE_AUTHENTICATING_Enter :: "bool \<Rightarrow> eapol_state_machine \<Rightarrow> eapol_state_machine" where
  "AUTH_PAE_AUTHENTICATING_Enter g sm =
     (enter_auth_pae g AUTH_PAE_AUTHENTICATING sm)
       \<lparr>eapolStart := False, authSuccess := False, authFail := False, authTimeout := False,
        authStart := True, keyRun := False, keyDone := False\<rparr>"

definition AUTH_PAE_ABORTING_Enter :: "bool \<Rightarrow> eapol_state_machine \<Rightarrow> eapol_state_machine" where
  "AUTH_PAE_ABORTING_Enter g sm =
     (let sm = (if auth_pae_state sm = AUTH_PAE_AUTHENTICATING then
                  let sm1 = (if authTimeout sm then cnt (authAuthTimeoutsWhileAuthenticating_update (\<lambda>n. n + 1)) sm else sm);
                      sm2 = (if eapolStart sm1 then cnt (authAuthEapStartsWhileAuthenticating_update (\<lambda>n. n + 1)) sm1 else sm1)
                  in if eapolLogoff sm2 then cnt (authAuthEapLogoffWhileAuthenticating_update (\<lambda>n. n + 1)) sm2 else sm2
                else sm);
          sm = enter_auth_pae g AUTH_PAE_ABORTING sm
      in sm\<lparr>authAbort := True, keyRun := False, keyDone := False\<rparr>)"

definition AUTH_PAE_FORCE_AUTH_Enter :: "bool \<Rightarrow> eapol_state_machine \<Rightarrow> eapol_state_machine" where
  "AUTH_PAE_FORCE_AUTH_Enter g sm =
     (let sm = enter_auth_pae g AUTH_PAE_FORCE_AUTH sm;
          sm = emit (Set_port_authorized True) (sm\<lparr>authPortStatus := Authorized\<rparr>);
          sm = sm\<lparr>portMode := ForceAuthorized, eapolStart := False\<rparr>
      in eapol_auth_tx_canned_eap True sm)"

definition AUTH_PAE_FORCE_UNAUTH_Enter :: "bool \<Rightarrow> eapol_state_machine \<Rightarrow> eapol_state_machine" where
  "AUTH_PAE_FORCE_UNAUTH_Enter g sm =
     (let sm = enter_auth_pae g AUTH_PAE_FORCE_UNAUTH sm;
          sm = emit (Set_port_authorized False) (sm\<lparr>authPortStatus := Unauthorized\<rparr>);
          sm = sm\<lparr>portMode := ForceUnauthorized, eapolStart := False\<rparr>
      in eapol_auth_tx_canned_eap False sm)"

definition AUTH_PAE_Step :: "bool \<Rightarrow> eapol_state_machine \<Rightarrow> eapol_state_machine" where
  "AUTH_PAE_Step fin sm =
     (let ei = eap_if sm in
      if (portControl sm = Auto \<and> portMode sm \<noteq> portControl sm) \<or> initialize sm \<or> \<not> portEnabled ei
      then AUTH_PAE_INITIALIZE_Enter True sm
      else if portControl sm = ForceAuthorized \<and> portMode sm \<noteq> portControl sm \<and>
        \<not> (initialize sm \<or> \<not> portEnabled ei)
      then AUTH_PAE_FORCE_AUTH_Enter True sm
      else if portControl sm = ForceUnauthorized \<and> portMode sm \<noteq> portControl sm \<and>
        \<not> (initialize sm \<or> \<not> portEnabled ei)
      then AUTH_PAE_FORCE_UNAUTH_Enter True sm
      else case auth_pae_state sm of
        AUTH_PAE_INITIALIZE \<Rightarrow> AUTH_PAE_DISCONNECTED_Enter fin False sm
      | AUTH_PAE_DISCONNECTED \<Rightarrow> if \<not> stopped sm then AUTH_PAE_RESTART_Enter False sm else sm
      | AUTH_PAE_RESTART \<Rightarrow> if \<not> eapRestart ei then AUTH_PAE_CONNECTING_Enter False sm else sm
      | AUTH_PAE_HELD \<Rightarrow> if quietWhile sm = 0 then AUTH_PAE_RESTART_Enter False sm else sm
      | AUTH_PAE_CONNECTING \<Rightarrow>
          if eapolLogoff sm \<or> reAuthCount sm > reAuthMax sm then AUTH_PAE_DISCONNECTED_Enter fin False sm
          else if (eapReq ei \<and> reAuthCount sm \<le> reAuthMax sm) \<or> eapSuccess ei \<or> eapFail ei
          then AUTH_PAE_AUTHENTICATING_Enter False sm
          else sm
      | AUTH_PAE_AUTHENTICATED \<Rightarrow>
          if eapolStart sm \<or> reAuthenticate sm then AUTH_PAE_RESTART_Enter False sm
          else if eapolLogoff sm \<or> \<not> portValid sm then AUTH_PAE_DISCONNECTED_Enter fin False sm
          else sm
      | AUTH_PAE_AUTHENTICATING \<Rightarrow>
          if authSuccess sm \<and> portValid sm then AUTH_PAE_AUTHENTICATED_Enter False sm
          else if authFail sm \<or> (keyDone sm \<and> \<not> portValid sm) then AUTH_PAE_HELD_Enter False sm
          else if eapolStart sm \<or> eapolLogoff sm \<or> authTimeout sm then AUTH_PAE_ABORTING_Enter False sm
          else sm
      | AUTH_PAE_ABORTING \<Rightarrow>
          if eapolLogoff sm \<and> \<not> authAbort sm then AUTH_PAE_DISCONNECTED_Enter fin False sm
          else if \<not> eapolLogoff sm \<and> \<not> authAbort sm then AUTH_PAE_RESTART_Enter False sm
          else sm
      | AUTH_PAE_FORCE_AUTH \<Rightarrow> if eapolStart sm then AUTH_PAE_FORCE_AUTH_Enter False sm else sm
      | AUTH_PAE_FORCE_UNAUTH \<Rightarrow> if eapolStart sm then AUTH_PAE_FORCE_UNAUTH_Enter False sm else sm)"

section \<open>Backend authentication\<close>

definition enter_be_auth :: "bool \<Rightarrow> be_auth \<Rightarrow> eapol_state_machine \<Rightarrow> eapol_state_machine" where
  "enter_be_auth g st sm =
     sm\<lparr>changed := (if \<not> g \<or> be_auth_state sm \<noteq> st then True else changed sm), be_auth_state := st\<rparr>"

definition BE_AUTH_INITIALIZE_Enter :: "bool \<Rightarrow> eapol_state_machine \<Rightarrow> eapol_state_machine" where
  "BE_AUTH_INITIALIZE_Enter g sm =
     (eif (eapNoReq_update (\<lambda>_. False)) (emit Abort_auth (enter_be_auth g BE_AUTH_INITIALIZE sm)))
       \<lparr>authAbort := False\<rparr>"

definition BE_AUTH_REQUEST_Enter :: "bool \<Rightarrow> eapol_state_machine \<Rightarrow> eapol_state_machine" where
  "BE_AUTH_REQUEST_Enter g sm =
     (cnt (backendOtherRequestsToSupplicant_update (\<lambda>n. n + 1))
       (eif (eapReq_update (\<lambda>_. False)) (eapol_auth_tx_req (enter_be_auth g BE_AUTH_REQUEST sm))))
       \<lparr>eapolEap := False\<rparr>"

definition BE_AUTH_RESPONSE_Enter :: "bool \<Rightarrow> eapol_state_machine \<Rightarrow> eapol_state_machine" where
  "BE_AUTH_RESPONSE_Enter g sm =
     (let sm = (enter_be_auth g BE_AUTH_RESPONSE sm)\<lparr>authTimeout := False, eapolEap := False\<rparr>;
          sm = (eif (eapNoReq_update (\<lambda>_. False)) sm)\<lparr>aWhile := serverTimeout sm\<rparr>;
          sm = eif (eapResp_update (\<lambda>_. True)) sm
      in cnt (backendResponses_update (\<lambda>n. n + 1)) sm)"

definition BE_AUTH_SUCCESS_Enter :: "bool \<Rightarrow> eapol_state_machine \<Rightarrow> eapol_state_machine" where
  "BE_AUTH_SUCCESS_Enter g sm =
     (eapol_auth_tx_req (enter_be_auth g BE_AUTH_SUCCESS sm))\<lparr>authSuccess := True, keyRun := True\<rparr>"

definition BE_AUTH_FAIL_Enter :: "bool \<Rightarrow> eapol_state_machine \<Rightarrow> eapol_state_machine" where
  "BE_AUTH_FAIL_Enter g sm = (eapol_auth_tx_req (enter_be_auth g BE_AUTH_FAIL sm))\<lparr>authFail := True\<rparr>"

definition BE_AUTH_TIMEOUT_Enter :: "bool \<Rightarrow> eapol_state_machine \<Rightarrow> eapol_state_machine" where
  "BE_AUTH_TIMEOUT_Enter g sm = (enter_be_auth g BE_AUTH_TIMEOUT sm)\<lparr>authTimeout := True\<rparr>"

definition BE_AUTH_IDLE_Enter :: "bool \<Rightarrow> eapol_state_machine \<Rightarrow> eapol_state_machine" where
  "BE_AUTH_IDLE_Enter g sm = (enter_be_auth g BE_AUTH_IDLE sm)\<lparr>authStart := False\<rparr>"

definition BE_AUTH_IGNORE_Enter :: "bool \<Rightarrow> eapol_state_machine \<Rightarrow> eapol_state_machine" where
  "BE_AUTH_IGNORE_Enter g sm = eif (eapNoReq_update (\<lambda>_. False)) (enter_be_auth g BE_AUTH_IGNORE sm)"

definition BE_AUTH_Step :: "eapol_state_machine \<Rightarrow> eapol_state_machine" where
  "BE_AUTH_Step sm =
     (if portControl sm \<noteq> Auto \<or> initialize sm \<or> authAbort sm then BE_AUTH_INITIALIZE_Enter True sm
      else case be_auth_state sm of
        BE_AUTH_INITIALIZE \<Rightarrow> BE_AUTH_IDLE_Enter False sm
      | BE_AUTH_REQUEST \<Rightarrow>
          if eapolEap sm then BE_AUTH_RESPONSE_Enter False sm
          else if eapReq (eap_if sm) then BE_AUTH_REQUEST_Enter False sm
          else if eapTimeout (eap_if sm) then BE_AUTH_TIMEOUT_Enter False sm
          else sm
      | BE_AUTH_RESPONSE \<Rightarrow>
          let sm = (if eapNoReq (eap_if sm) then BE_AUTH_IGNORE_Enter False sm else sm) in
          if eapReq (eap_if sm)
          then BE_AUTH_REQUEST_Enter False (cnt (backendAccessChallenges_update (\<lambda>n. n + 1)) sm)
          else if aWhile sm = 0 then BE_AUTH_TIMEOUT_Enter False sm
          else if eapFail (eap_if sm)
          then BE_AUTH_FAIL_Enter False (cnt (backendAuthFails_update (\<lambda>n. n + 1)) sm)
          else if eapSuccess (eap_if sm)
          then BE_AUTH_SUCCESS_Enter False (cnt (backendAuthSuccesses_update (\<lambda>n. n + 1)) sm)
          else sm
      | BE_AUTH_SUCCESS \<Rightarrow> BE_AUTH_IDLE_Enter False sm
      | BE_AUTH_FAIL \<Rightarrow> BE_AUTH_IDLE_Enter False sm
      | BE_AUTH_TIMEOUT \<Rightarrow> BE_AUTH_IDLE_Enter False sm
      | BE_AUTH_IDLE \<Rightarrow>
          if eapFail (eap_if sm) \<and> authStart sm then BE_AUTH_FAIL_Enter False sm
          else if eapReq (eap_if sm) \<and> authStart sm then BE_AUTH_REQUEST_Enter False sm
          else if eapSuccess (eap_if sm) \<and> authStart sm then BE_AUTH_SUCCESS_Enter False sm
          else sm
      | BE_AUTH_IGNORE \<Rightarrow>
          if eapolEap sm then BE_AUTH_RESPONSE_Enter False sm
          else if eapReq (eap_if sm) then BE_AUTH_REQUEST_Enter False sm
          else if eapTimeout (eap_if sm) then BE_AUTH_TIMEOUT_Enter False sm
          else sm)"

section \<open>Reauthentication timer, key machines, controlled directions\<close>

definition enter_reauth_timer :: "bool \<Rightarrow> reauth_timer \<Rightarrow> eapol_state_machine \<Rightarrow> eapol_state_machine" where
  "enter_reauth_timer g st sm =
     sm\<lparr>changed := (if \<not> g \<or> reauth_timer_state sm \<noteq> st then True else changed sm), reauth_timer_state := st\<rparr>"

definition REAUTH_TIMER_INITIALIZE_Enter :: "bool \<Rightarrow> eapol_state_machine \<Rightarrow> eapol_state_machine" where
  "REAUTH_TIMER_INITIALIZE_Enter g sm =
     (let sm = enter_reauth_timer g REAUTH_TIMER_INITIALIZE sm in sm\<lparr>reAuthWhen := reAuthPeriod sm\<rparr>)"

definition REAUTH_TIMER_REAUTHENTICATE_Enter :: "bool \<Rightarrow> eapol_state_machine \<Rightarrow> eapol_state_machine" where
  "REAUTH_TIMER_REAUTHENTICATE_Enter g sm =
     emit Event_reauthenticate ((enter_reauth_timer g REAUTH_TIMER_REAUTHENTICATE sm)\<lparr>reAuthenticate := True\<rparr>)"

definition REAUTH_TIMER_Step :: "eapol_state_machine \<Rightarrow> eapol_state_machine" where
  "REAUTH_TIMER_Step sm =
     (if portControl sm \<noteq> Auto \<or> initialize sm \<or> authPortStatus sm = Unauthorized \<or> \<not> reAuthEnabled sm
      then REAUTH_TIMER_INITIALIZE_Enter True sm
      else case reauth_timer_state sm of
        REAUTH_TIMER_INITIALIZE \<Rightarrow> if reAuthWhen sm = 0 then REAUTH_TIMER_REAUTHENTICATE_Enter False sm else sm
      | REAUTH_TIMER_REAUTHENTICATE \<Rightarrow> REAUTH_TIMER_INITIALIZE_Enter False sm)"

definition enter_auth_key_tx :: "bool \<Rightarrow> auth_key_tx \<Rightarrow> eapol_state_machine \<Rightarrow> eapol_state_machine" where
  "enter_auth_key_tx g st sm =
     sm\<lparr>changed := (if \<not> g \<or> auth_key_tx_state sm \<noteq> st then True else changed sm), auth_key_tx_state := st\<rparr>"

definition AUTH_KEY_TX_NO_KEY_TRANSMIT_Enter :: "bool \<Rightarrow> eapol_state_machine \<Rightarrow> eapol_state_machine" where
  "AUTH_KEY_TX_NO_KEY_TRANSMIT_Enter g sm = enter_auth_key_tx g AUTH_KEY_TX_NO_KEY_TRANSMIT sm"

definition AUTH_KEY_TX_KEY_TRANSMIT_Enter :: "bool \<Rightarrow> eapol_state_machine \<Rightarrow> eapol_state_machine" where
  "AUTH_KEY_TX_KEY_TRANSMIT_Enter g sm =
     (eif (eapKeyAvailable_update (\<lambda>_. False)) (emit Tx_key (enter_auth_key_tx g AUTH_KEY_TX_KEY_TRANSMIT sm)))
       \<lparr>keyDone := True\<rparr>"

definition AUTH_KEY_TX_Step :: "eapol_state_machine \<Rightarrow> eapol_state_machine" where
  "AUTH_KEY_TX_Step sm =
     (if initialize sm \<or> portControl sm \<noteq> Auto then AUTH_KEY_TX_NO_KEY_TRANSMIT_Enter True sm
      else case auth_key_tx_state sm of
        AUTH_KEY_TX_NO_KEY_TRANSMIT \<Rightarrow>
          if keyTxEnabled sm \<and> eapKeyAvailable (eap_if sm) \<and> keyRun sm \<and> \<not> flag EAPOL_SM_USES_WPA sm
          then AUTH_KEY_TX_KEY_TRANSMIT_Enter False sm else sm
      | AUTH_KEY_TX_KEY_TRANSMIT \<Rightarrow>
          if \<not> keyTxEnabled sm \<or> \<not> keyRun sm then AUTH_KEY_TX_NO_KEY_TRANSMIT_Enter False sm
          else if eapKeyAvailable (eap_if sm) then AUTH_KEY_TX_KEY_TRANSMIT_Enter False sm
          else sm)"

definition enter_key_rx :: "bool \<Rightarrow> key_rx \<Rightarrow> eapol_state_machine \<Rightarrow> eapol_state_machine" where
  "enter_key_rx g st sm =
     sm\<lparr>changed := (if \<not> g \<or> key_rx_state sm \<noteq> st then True else changed sm), key_rx_state := st\<rparr>"

definition KEY_RX_NO_KEY_RECEIVE_Enter :: "bool \<Rightarrow> eapol_state_machine \<Rightarrow> eapol_state_machine" where
  "KEY_RX_NO_KEY_RECEIVE_Enter g sm = enter_key_rx g KEY_RX_NO_KEY_RECEIVE sm"

definition KEY_RX_KEY_RECEIVE_Enter :: "bool \<Rightarrow> eapol_state_machine \<Rightarrow> eapol_state_machine" where
  "KEY_RX_KEY_RECEIVE_Enter g sm = (enter_key_rx g KEY_RX_KEY_RECEIVE sm)\<lparr>rxKey := False\<rparr>"

definition KEY_RX_Step :: "eapol_state_machine \<Rightarrow> eapol_state_machine" where
  "KEY_RX_Step sm =
     (if initialize sm \<or> \<not> portEnabled (eap_if sm) then KEY_RX_NO_KEY_RECEIVE_Enter True sm
      else case key_rx_state sm of
        KEY_RX_NO_KEY_RECEIVE \<Rightarrow> if rxKey sm then KEY_RX_KEY_RECEIVE_Enter False sm else sm
      | KEY_RX_KEY_RECEIVE \<Rightarrow> if rxKey sm then KEY_RX_KEY_RECEIVE_Enter False sm else sm)"

definition enter_ctrl_dir :: "bool \<Rightarrow> ctrl_dir \<Rightarrow> eapol_state_machine \<Rightarrow> eapol_state_machine" where
  "enter_ctrl_dir g st sm =
     sm\<lparr>changed := (if \<not> g \<or> ctrl_dir_state sm \<noteq> st then True else changed sm), ctrl_dir_state := st\<rparr>"

definition CTRL_DIR_FORCE_BOTH_Enter :: "bool \<Rightarrow> eapol_state_machine \<Rightarrow> eapol_state_machine" where
  "CTRL_DIR_FORCE_BOTH_Enter g sm = (enter_ctrl_dir g CTRL_DIR_FORCE_BOTH sm)\<lparr>operControlledDirections := Both\<rparr>"

definition CTRL_DIR_IN_OR_BOTH_Enter :: "bool \<Rightarrow> eapol_state_machine \<Rightarrow> eapol_state_machine" where
  "CTRL_DIR_IN_OR_BOTH_Enter g sm =
     (let sm = enter_ctrl_dir g CTRL_DIR_IN_OR_BOTH sm
      in sm\<lparr>operControlledDirections := adminControlledDirections sm\<rparr>)"

definition CTRL_DIR_Step :: "eapol_state_machine \<Rightarrow> eapol_state_machine" where
  "CTRL_DIR_Step sm =
     (if initialize sm then CTRL_DIR_IN_OR_BOTH_Enter True sm
      else case ctrl_dir_state sm of
        CTRL_DIR_FORCE_BOTH \<Rightarrow>
          if portEnabled (eap_if sm) \<and> operEdge sm then CTRL_DIR_IN_OR_BOTH_Enter False sm else sm
      | CTRL_DIR_IN_OR_BOTH \<Rightarrow>
          let sm = (if operControlledDirections sm \<noteq> adminControlledDirections sm
                    then CTRL_DIR_IN_OR_BOTH_Enter False sm else sm)
          in if \<not> portEnabled (eap_if sm) \<or> \<not> operEdge sm then CTRL_DIR_FORCE_BOTH_Enter False sm else sm)"

section \<open>Running the machines\<close>

text \<open>
  What the environment answers during one run: the \<open>i\<close>-th query of \<open>sta_entry_alive\<close>, the
  callback \<open>finished\<close> and the EAP server's step, each indexed by the passes left.
\<close>

record eapol_env =
  alive :: "nat \<Rightarrow> nat \<Rightarrow> bool"
  finished_cb :: "nat \<Rightarrow> bool"
  eap_step :: "nat \<Rightarrow> eap_eapol_interface \<Rightarrow> bool \<times> eap_eapol_interface"

definition eapol_auth_step :: "eapol_state_machine \<Rightarrow> eapol_state_machine" where
  "eapol_auth_step sm = emit Register_step sm"

text \<open>One pass through the machines, \<open>restart:\<close> up to \<open>SM_STEP_RUN(CTRL_DIR)\<close>.\<close>

definition when_alive :: "eapol_env \<Rightarrow> nat \<Rightarrow> nat \<Rightarrow> (eapol_state_machine \<Rightarrow> eapol_state_machine) \<Rightarrow>
    eapol_state_machine \<Rightarrow> eapol_state_machine" where
  "when_alive env n i f sm = (if initializing sm \<or> alive env n i then f sm else sm)"

definition eapol_pass :: "eapol_env \<Rightarrow> nat \<Rightarrow> eapol_state_machine \<Rightarrow> eapol_state_machine" where
  "eapol_pass env n sm =
     (let sm = AUTH_PAE_Step (finished_cb env n) sm;
          sm = when_alive env n 0 BE_AUTH_Step sm;
          sm = when_alive env n 1 REAUTH_TIMER_Step sm;
          sm = when_alive env n 2 AUTH_KEY_TX_Step sm;
          sm = when_alive env n 3 KEY_RX_Step sm
      in when_alive env n 4 CTRL_DIR_Step sm)"

definition sm_states where
  "sm_states sm = (auth_pae_state sm, be_auth_state sm, reauth_timer_state sm, auth_key_tx_state sm,
     key_rx_state sm, ctrl_dir_state sm)"

text \<open>The tail of \<open>eapol_sm_step_run\<close> after a pass and an EAP step without changes.\<close>

definition eapol_aaa :: "eapol_state_machine \<Rightarrow> eapol_state_machine option" where
  "eapol_aaa sm =
     (if aaaEapResp (eap_if sm) then
        let sm = eif (aaaEapResp_update (\<lambda>_. False)) sm
        in (case aaaEapRespData (eap_if sm) of None \<Rightarrow> None | Some d \<Rightarrow> Some (emit (Aaa_send d) sm))
      else Some sm)"

definition sm_change :: "eapol_env \<Rightarrow> nat \<Rightarrow> eapol_state_machine \<Rightarrow> eapol_state_machine" where
  "sm_change env n sm = (if alive env n 6 then emit Event_sm_change sm else sm)"

text \<open>
  What follows a pass: \<open>Restart\<close> where the code counts \<open>max_steps\<close> down and jumps back, and
  \<open>Return\<close> where it returns.  The two key machines run in a pass, as in a build with \<open>CONFIG_WEP\<close>.  With \<open>max_steps = n + 1\<close> the test \<open>--max_steps > 0\<close> is \<open>n > 0\<close>.
\<close>

datatype pass_result = Restart eapol_state_machine | Return eapol_state_machine

definition run_pass :: "eapol_env \<Rightarrow> nat \<Rightarrow> eapol_state_machine \<Rightarrow> pass_result" where
  "run_pass env n sm =
     (let sm' = eapol_pass env n sm in
      if sm_states sm' \<noteq> sm_states sm then Restart sm'
      else if alive env n 5 \<and> has_eap sm' then
        (case eap_step env n (eap_if sm') of (again, ei) \<Rightarrow>
           let sm' = eif (\<lambda>_. ei) sm' in
           if again then Restart sm'
           else (case eapol_aaa sm' of
                   None \<Rightarrow> Return (eif (aaaEapResp_update (\<lambda>_. False)) sm')
                 | Some sm'' \<Rightarrow> Return (sm_change env n sm'')))
      else Return (sm_change env n sm'))"

fun step_loop :: "eapol_env \<Rightarrow> nat \<Rightarrow> eapol_state_machine \<Rightarrow> eapol_state_machine" where
  "step_loop env 0 sm = sm"
| "step_loop env (Suc n) sm =
     (case run_pass env (Suc n) sm of
        Return sm' \<Rightarrow> sm'
      | Restart sm' \<Rightarrow> if n > 0 then step_loop env n sm' else eapol_auth_step sm')"

definition eapol_sm_step_run :: "eapol_env \<Rightarrow> eapol_state_machine \<Rightarrow> eapol_state_machine" where
  "eapol_sm_step_run env sm = step_loop env 100 sm"

definition eapol_sm_step_cb :: "eapol_env \<Rightarrow> eapol_state_machine \<Rightarrow> eapol_state_machine" where
  "eapol_sm_step_cb env sm = eapol_sm_step_run env sm"

definition dec_timer :: "int \<Rightarrow> int" where
  "dec_timer t = (if t > 0 then t - 1 else t)"

definition eapol_port_timers_tick :: "eapol_env \<Rightarrow> eapol_state_machine \<Rightarrow> eapol_state_machine" where
  "eapol_port_timers_tick env sm =
     (let sm = sm\<lparr>aWhile := dec_timer (aWhile sm), quietWhile := dec_timer (quietWhile sm),
                 reAuthWhen := dec_timer (reAuthWhen sm)\<rparr>;
          sm = eif (retransWhile_update dec_timer) sm
      in emit Register_tick (eapol_sm_step_run env sm))"

section \<open>Creation and configuration\<close>

record eapol_auth_config =
  eap_reauth_period :: int
  wpa :: bool
  individual_wep_key_len :: int
  default_wep_key :: bool

definition zero_counters :: eapol_counters where
  "zero_counters = \<lparr>authEntersConnecting = 0, authEapLogoffsWhileConnecting = 0, authEntersAuthenticating = 0,
     authAuthSuccessesWhileAuthenticating = 0, authAuthTimeoutsWhileAuthenticating = 0,
     authAuthFailWhileAuthenticating = 0, authAuthEapStartsWhileAuthenticating = 0,
     authAuthEapLogoffWhileAuthenticating = 0, authAuthReauthsWhileAuthenticated = 0,
     authAuthEapStartsWhileAuthenticated = 0, authAuthEapLogoffWhileAuthenticated = 0,
     backendResponses = 0, backendAccessChallenges = 0, backendOtherRequestsToSupplicant = 0,
     backendAuthSuccesses = 0, backendAuthFails = 0, dot1xAuthEapolFramesTx = 0,
     dot1xAuthEapolReqIdFramesTx = 0, dot1xAuthEapolReqFramesTx = 0\<rparr>"

text \<open>The structure after \<open>os_zalloc\<close> and the assignments before \<open>eap_server_sm_init\<close>.\<close>

definition eapol_sm_defaults :: "eapol_auth_config \<Rightarrow> u32 \<Rightarrow> eap_eapol_interface \<Rightarrow> eapol_state_machine" where
  "eapol_sm_defaults conf fl ei =
     \<lparr>aWhile = 0, quietWhile = 0, reAuthWhen = 0, authAbort = False, authFail = False,
      authPortStatus = PortState0, authStart = False, authTimeout = False, authSuccess = False,
      eapolEap = False, initialize = False, keyDone = False, keyRun = False,
      keyTxEnabled = (\<not> wpa conf \<and> (default_wep_key conf \<or> individual_wep_key_len conf > 0)),
      portControl = Auto, portValid = \<not> wpa conf, reAuthenticate = False,
      auth_pae_state = AUTH_PAE_INITIALIZE, eapolLogoff = False, eapolStart = False, portMode = PortType0,
      reAuthCount = 0, quietPeriod = 60, reAuthMax = 2,
      be_auth_state = BE_AUTH_INITIALIZE, serverTimeout = 30,
      reauth_timer_state = REAUTH_TIMER_INITIALIZE, reAuthPeriod = eap_reauth_period conf,
      reAuthEnabled = (eap_reauth_period conf > 0),
      auth_key_tx_state = AUTH_KEY_TX_NO_KEY_TRANSMIT, key_rx_state = KEY_RX_NO_KEY_RECEIVE, rxKey = False,
      ctrl_dir_state = CTRL_DIR_IN_OR_BOTH, adminControlledDirections = Both, operControlledDirections = Both,
      operEdge = False, flags = fl, last_eap_id = 0, has_eap = True, initializing = False, changed = False,
      authenticated = 0, stopped = False, eap_if = ei, counters = zero_counters, outs = []\<rparr>"

definition eapol_auth_initialize :: "eapol_env \<Rightarrow> eapol_env \<Rightarrow> eapol_state_machine \<Rightarrow> eapol_state_machine" where
  "eapol_auth_initialize env1 env2 sm =
     (let sm = eapol_sm_step_run env1 (sm\<lparr>initializing := True, initialize := True\<rparr>);
          sm = eapol_sm_step_run env2 (sm\<lparr>initialize := False\<rparr>);
          sm = sm\<lparr>initializing := False\<rparr>
      in emit Register_tick (emit Cancel_tick sm))"

text \<open>
  \<open>eap\<close> is the interface of the machine \<open>eap_server_sm_init\<close> returns and \<open>session_id\<close> tells
  whether \<open>radius_gen_session_id\<close> succeeds; \<open>None\<close> is the return value NULL.
\<close>

definition eapol_auth_alloc :: "eapol_auth_config \<Rightarrow> u32 \<Rightarrow> eap_eapol_interface option \<Rightarrow> bool \<Rightarrow>
    eapol_env \<Rightarrow> eapol_env \<Rightarrow> eapol_state_machine option" where
  "eapol_auth_alloc conf fl eap session_id env1 env2 =
     (case eap of
        None \<Rightarrow> None
      | Some ei \<Rightarrow>
          let sm = eapol_auth_initialize env1 env2 (eapol_sm_defaults conf fl ei)
          in if session_id then Some sm else None)"

definition eapol_auth_reauthenticate :: "eapol_state_machine \<Rightarrow> eapol_state_machine" where
  "eapol_auth_reauthenticate sm = eapol_auth_step (sm\<lparr>reAuthenticate := True\<rparr>)"

definition eapol_auth_set_conf :: "eapol_state_machine \<Rightarrow> string \<Rightarrow> string \<Rightarrow> int \<times> eapol_state_machine" where
  "eapol_auth_set_conf sm param v =
     (if strcaseeq param ''AdminControlledDirections'' then
        (if v = ''Both'' then (0, eapol_auth_step (sm\<lparr>adminControlledDirections := Both\<rparr>))
         else if v = ''In'' then (0, eapol_auth_step (sm\<lparr>adminControlledDirections := In\<rparr>))
         else (- 1, sm))
      else if strcaseeq param ''AdminControlledPortControl'' then
        (if v = ''ForceAuthorized'' then (0, eapol_auth_step (sm\<lparr>portControl := ForceAuthorized\<rparr>))
         else if v = ''ForceUnauthorized'' then (0, eapol_auth_step (sm\<lparr>portControl := ForceUnauthorized\<rparr>))
         else if v = ''Auto'' then (0, eapol_auth_step (sm\<lparr>portControl := Auto\<rparr>))
         else (- 1, sm))
      else if strcaseeq param ''quietPeriod'' then (0, sm\<lparr>quietPeriod := atoi v\<rparr>)
      else if strcaseeq param ''serverTimeout'' then (0, sm\<lparr>serverTimeout := atoi v\<rparr>)
      else if strcaseeq param ''reAuthPeriod'' then (0, sm\<lparr>reAuthPeriod := atoi v\<rparr>)
      else if strcaseeq param ''reAuthEnabled'' then
        (if v = ''TRUE'' then (0, eapol_auth_step (sm\<lparr>reAuthEnabled := True\<rparr>))
         else if v = ''FALSE'' then (0, eapol_auth_step (sm\<lparr>reAuthEnabled := False\<rparr>))
         else (- 1, sm))
      else if strcaseeq param ''KeyTransmissionEnabled'' then
        (if v = ''TRUE'' then (0, eapol_auth_step (sm\<lparr>keyTxEnabled := True\<rparr>))
         else if v = ''FALSE'' then (0, eapol_auth_step (sm\<lparr>keyTxEnabled := False\<rparr>))
         else (- 1, sm))
      else (- 1, sm))"

definition eapol_auth_eap_pending_cb :: "bool \<Rightarrow> eapol_state_machine \<Rightarrow> int \<times> eapol_state_machine" where
  "eapol_auth_eap_pending_cb ctx_is_eap sm =
     (if \<not> ctx_is_eap then (- 1, sm) else (0, eapol_auth_step sm))"

end
