(* ===== verification/EapolPort.thy ===== *)
theory EapolPort
  imports EapolAuth
begin

text \<open>
  Properties of the IEEE 802.1X authenticator of \<open>EapolAuth\<close>: the invariant of the controlled port
  and of the attempts, machines reachable by the operations of \<open>eapol_auth_sm.c\<close> and the writes of
  the layers around it, how the port opens and closes, and that a run of the machines ends.
\<close>

unbundle bit_operations_syntax

section \<open>The port follows the authenticator\<close>

text \<open>
  \<open>port_ok\<close>: the port status agrees with the PAE state, with the last call of
  \<open>set_port_authorized\<close>; with \<open>c\<close> also the number of attempts stays below its limit.
\<close>

definition last_set_port :: "eapol_out list \<Rightarrow> PortState" where
  "last_set_port os = foldl (\<lambda>st e. case e of Set_port_authorized b \<Rightarrow> (if b then Authorized else Unauthorized) | _ \<Rightarrow> st)
     PortState0 os"

definition port_ok :: "bool \<Rightarrow> eapol_state_machine \<Rightarrow> bool" where
  "port_ok c sm \<longleftrightarrow>
     last_set_port (outs sm) = authPortStatus sm \<and>
     (auth_pae_state sm \<in> {AUTH_PAE_DISCONNECTED, AUTH_PAE_HELD, AUTH_PAE_FORCE_UNAUTH} \<longrightarrow>
        authPortStatus sm = Unauthorized) \<and>
     (auth_pae_state sm \<in> {AUTH_PAE_AUTHENTICATED, AUTH_PAE_FORCE_AUTH} \<longrightarrow> authPortStatus sm = Authorized) \<and>
     (auth_pae_state sm = AUTH_PAE_FORCE_AUTH \<longrightarrow> portMode sm = ForceAuthorized) \<and>
     (auth_pae_state sm = AUTH_PAE_FORCE_UNAUTH \<longrightarrow> portMode sm = ForceUnauthorized) \<and>
     authEntersAuthenticating (counters sm) = 0 \<and>
     (c \<longrightarrow> reAuthMax sm = 2 \<and> reAuthCount sm \<le> 3 \<and>
       (auth_pae_state sm \<in> {AUTH_PAE_RESTART, AUTH_PAE_AUTHENTICATING, AUTH_PAE_ABORTING, AUTH_PAE_HELD}
          \<longrightarrow> reAuthCount sm \<le> 2) \<and>
       (auth_pae_state sm \<in> {AUTH_PAE_DISCONNECTED, AUTH_PAE_AUTHENTICATED} \<longrightarrow> reAuthCount sm = 0))"

lemmas helper_defs = eif_def cnt_def emit_def enter_auth_pae_def enter_be_auth_def enter_reauth_timer_def
  enter_auth_key_tx_def enter_key_rx_def enter_ctrl_dir_def

lemmas pae_enter_defs = AUTH_PAE_INITIALIZE_Enter_def AUTH_PAE_DISCONNECTED_Enter_def AUTH_PAE_RESTART_Enter_def
  AUTH_PAE_CONNECTING_Enter_def AUTH_PAE_HELD_Enter_def AUTH_PAE_AUTHENTICATED_Enter_def
  AUTH_PAE_AUTHENTICATING_Enter_def AUTH_PAE_ABORTING_Enter_def AUTH_PAE_FORCE_AUTH_Enter_def
  AUTH_PAE_FORCE_UNAUTH_Enter_def

lemma last_set_port_append [simp]:
  "last_set_port (os @ [e]) = (case e of Set_port_authorized b \<Rightarrow> (if b then Authorized else Unauthorized)
     | _ \<Rightarrow> last_set_port os)"
  by (cases e) (simp_all add: last_set_port_def)

lemma last_set_port_append2 [simp]:
  "last_set_port (os @ [e, Finished a b c]) = last_set_port (os @ [e])"
  using last_set_port_append [of "os @ [e]" "Finished a b c"] by (simp del: last_set_port_append)

lemma tx_canned_same [simp]:
  "auth_pae_state (eapol_auth_tx_canned_eap b sm) = auth_pae_state sm"
  "authPortStatus (eapol_auth_tx_canned_eap b sm) = authPortStatus sm"
  "portMode (eapol_auth_tx_canned_eap b sm) = portMode sm"
  "reAuthMax (eapol_auth_tx_canned_eap b sm) = reAuthMax sm"
  "reAuthCount (eapol_auth_tx_canned_eap b sm) = reAuthCount sm"
  "authEntersAuthenticating (counters (eapol_auth_tx_canned_eap b sm)) = authEntersAuthenticating (counters sm)"
  "last_set_port (outs (eapol_auth_tx_canned_eap b sm)) = last_set_port (outs sm)"
  by (simp_all add: eapol_auth_tx_canned_eap_def helper_defs Let_def)

lemma word_incr_le_3: "(n :: u32) \<le> 2 \<Longrightarrow> n + 1 \<le> 3"
  by (simp add: word_le_nat_alt unat_word_ariths)

lemma word_le_2_3: "(n :: u32) \<le> 2 \<Longrightarrow> n \<le> 3"
  using order_trans [of n 2 3] by simp

named_theorems port_rules

lemma port_INITIALIZE [port_rules]: "port_ok c sm \<Longrightarrow> port_ok c (AUTH_PAE_INITIALIZE_Enter g sm)"
  by (simp add: port_ok_def AUTH_PAE_INITIALIZE_Enter_def helper_defs)

lemma port_DISCONNECTED [port_rules]: "port_ok c sm \<Longrightarrow> port_ok c (AUTH_PAE_DISCONNECTED_Enter fin g sm)"
  by (simp add: port_ok_def AUTH_PAE_DISCONNECTED_Enter_def helper_defs Let_def)

lemma port_RESTART [port_rules]: "port_ok c sm \<Longrightarrow> (c \<longrightarrow> reAuthCount sm \<le> 2) \<Longrightarrow> port_ok c (AUTH_PAE_RESTART_Enter g sm)"
  by (simp add: port_ok_def AUTH_PAE_RESTART_Enter_def helper_defs Let_def)

lemma port_CONNECTING [port_rules]: "port_ok c sm \<Longrightarrow> (c \<longrightarrow> reAuthCount sm \<le> 2) \<Longrightarrow> port_ok c (AUTH_PAE_CONNECTING_Enter g sm)"
  by (simp add: port_ok_def AUTH_PAE_CONNECTING_Enter_def helper_defs Let_def word_incr_le_3)

lemma port_HELD [port_rules]: "port_ok c sm \<Longrightarrow> (c \<longrightarrow> reAuthCount sm \<le> 2) \<Longrightarrow> port_ok c (AUTH_PAE_HELD_Enter g sm)"
  by (simp add: port_ok_def AUTH_PAE_HELD_Enter_def helper_defs Let_def)

lemma port_AUTHENTICATED [port_rules]: "port_ok c sm \<Longrightarrow> port_ok c (AUTH_PAE_AUTHENTICATED_Enter g sm)"
  by (simp add: port_ok_def AUTH_PAE_AUTHENTICATED_Enter_def helper_defs Let_def)

lemma port_AUTHENTICATING [port_rules]:
  "port_ok c sm \<Longrightarrow> (c \<longrightarrow> reAuthCount sm \<le> 2) \<Longrightarrow> port_ok c (AUTH_PAE_AUTHENTICATING_Enter g sm)"
  by (simp add: port_ok_def AUTH_PAE_AUTHENTICATING_Enter_def helper_defs Let_def)

lemma port_ABORTING [port_rules]: "port_ok c sm \<Longrightarrow> (c \<longrightarrow> reAuthCount sm \<le> 2) \<Longrightarrow> port_ok c (AUTH_PAE_ABORTING_Enter g sm)"
  by (simp add: port_ok_def AUTH_PAE_ABORTING_Enter_def helper_defs Let_def)

lemma port_FORCE_AUTH [port_rules]: "port_ok c sm \<Longrightarrow> port_ok c (AUTH_PAE_FORCE_AUTH_Enter g sm)"
  by (simp add: port_ok_def AUTH_PAE_FORCE_AUTH_Enter_def helper_defs Let_def)

lemma port_FORCE_UNAUTH [port_rules]: "port_ok c sm \<Longrightarrow> port_ok c (AUTH_PAE_FORCE_UNAUTH_Enter g sm)"
  by (simp add: port_ok_def AUTH_PAE_FORCE_UNAUTH_Enter_def helper_defs Let_def)

lemma port_count:
  assumes "port_ok c sm"
  shows "auth_pae_state sm \<in> {AUTH_PAE_RESTART, AUTH_PAE_AUTHENTICATING, AUTH_PAE_ABORTING, AUTH_PAE_HELD,
      AUTH_PAE_DISCONNECTED, AUTH_PAE_AUTHENTICATED} \<Longrightarrow> c \<Longrightarrow> reAuthCount sm \<le> 2"
    "\<not> reAuthMax sm < reAuthCount sm \<Longrightarrow> c \<Longrightarrow> reAuthCount sm \<le> 2"
  using assms by (auto simp: port_ok_def)

lemma AUTH_PAE_Step_port:
  assumes "port_ok c sm"
  shows "port_ok c (AUTH_PAE_Step fin sm)"
proof (cases "auth_pae_state sm")
qed (use assms port_count [OF assms] in
  \<open>auto simp: AUTH_PAE_Step_def Let_def intro!: port_rules split: if_splits\<close>)

text \<open>The other machines, the timers and the EAP step leave all of it alone.\<close>

definition port_view where
  "port_view sm = (auth_pae_state sm, authPortStatus sm, portMode sm, reAuthMax sm, reAuthCount sm,
     authEntersAuthenticating (counters sm), last_set_port (outs sm))"

lemma port_ok_view: "port_view sm' = port_view sm \<Longrightarrow> port_ok c sm' \<longleftrightarrow> port_ok c sm"
  by (simp add: port_view_def port_ok_def)

lemma tx_req_same [simp]:
  "auth_pae_state (eapol_auth_tx_req sm) = auth_pae_state sm"
  "authPortStatus (eapol_auth_tx_req sm) = authPortStatus sm"
  "portMode (eapol_auth_tx_req sm) = portMode sm"
  "reAuthMax (eapol_auth_tx_req sm) = reAuthMax sm"
  "reAuthCount (eapol_auth_tx_req sm) = reAuthCount sm"
  "authEntersAuthenticating (counters (eapol_auth_tx_req sm)) = authEntersAuthenticating (counters sm)"
  "last_set_port (outs (eapol_auth_tx_req sm)) = last_set_port (outs sm)"
  by (simp_all add: eapol_auth_tx_req_def helper_defs Let_def split: option.split)

lemmas be_enter_defs = BE_AUTH_INITIALIZE_Enter_def BE_AUTH_REQUEST_Enter_def BE_AUTH_RESPONSE_Enter_def
  BE_AUTH_SUCCESS_Enter_def BE_AUTH_FAIL_Enter_def BE_AUTH_TIMEOUT_Enter_def BE_AUTH_IDLE_Enter_def
  BE_AUTH_IGNORE_Enter_def

lemmas other_enter_defs = REAUTH_TIMER_INITIALIZE_Enter_def REAUTH_TIMER_REAUTHENTICATE_Enter_def
  AUTH_KEY_TX_NO_KEY_TRANSMIT_Enter_def AUTH_KEY_TX_KEY_TRANSMIT_Enter_def KEY_RX_NO_KEY_RECEIVE_Enter_def
  KEY_RX_KEY_RECEIVE_Enter_def CTRL_DIR_FORCE_BOTH_Enter_def CTRL_DIR_IN_OR_BOTH_Enter_def

lemma view_be_enter [simp]:
  "port_view (BE_AUTH_INITIALIZE_Enter g sm) = port_view sm" "port_view (BE_AUTH_REQUEST_Enter g sm) = port_view sm"
  "port_view (BE_AUTH_RESPONSE_Enter g sm) = port_view sm" "port_view (BE_AUTH_SUCCESS_Enter g sm) = port_view sm"
  "port_view (BE_AUTH_FAIL_Enter g sm) = port_view sm" "port_view (BE_AUTH_TIMEOUT_Enter g sm) = port_view sm"
  "port_view (BE_AUTH_IDLE_Enter g sm) = port_view sm" "port_view (BE_AUTH_IGNORE_Enter g sm) = port_view sm"
  by (simp_all add: port_view_def be_enter_defs helper_defs Let_def)

lemma view_cnt [simp]:
  "port_view (cnt (backendAccessChallenges_update f) sm) = port_view sm"
  "port_view (cnt (backendAuthFails_update f) sm) = port_view sm"
  "port_view (cnt (backendAuthSuccesses_update f) sm) = port_view sm"
  "port_view (eif h sm) = port_view sm"
  by (simp_all add: port_view_def helper_defs)

lemma view_BE_AUTH_Step [simp]: "port_view (BE_AUTH_Step sm) = port_view sm"
  by (simp add: BE_AUTH_Step_def Let_def split: be_auth.split)

lemma view_REAUTH_TIMER_Step [simp]: "port_view (REAUTH_TIMER_Step sm) = port_view sm"
  by (simp add: REAUTH_TIMER_Step_def other_enter_defs port_view_def helper_defs Let_def split: reauth_timer.split)

lemma view_AUTH_KEY_TX_Step [simp]: "port_view (AUTH_KEY_TX_Step sm) = port_view sm"
  by (simp add: AUTH_KEY_TX_Step_def other_enter_defs port_view_def helper_defs Let_def split: auth_key_tx.split)

lemma view_KEY_RX_Step [simp]: "port_view (KEY_RX_Step sm) = port_view sm"
  by (simp add: KEY_RX_Step_def other_enter_defs port_view_def helper_defs Let_def split: key_rx.split)

lemma view_CTRL_DIR_Step [simp]: "port_view (CTRL_DIR_Step sm) = port_view sm"
  by (simp add: CTRL_DIR_Step_def other_enter_defs port_view_def helper_defs Let_def split: ctrl_dir.split)

lemma view_when_alive: "(\<And>sm. port_view (f sm) = port_view sm) \<Longrightarrow> port_view (when_alive env n i f sm) = port_view sm"
  by (simp add: when_alive_def)

lemma view_emit: "\<forall>b. e \<noteq> Set_port_authorized b \<Longrightarrow> port_view (emit e sm) = port_view sm"
  by (cases e) (simp_all add: port_view_def helper_defs all_bool_eq)

lemma view_pass: "port_view (eapol_pass env n sm) = port_view (AUTH_PAE_Step (finished_cb env n) sm)"
  unfolding eapol_pass_def Let_def
  by (simp only: view_when_alive view_BE_AUTH_Step view_REAUTH_TIMER_Step view_AUTH_KEY_TX_Step view_KEY_RX_Step
      view_CTRL_DIR_Step)

lemma eapol_pass_port: "port_ok c sm \<Longrightarrow> port_ok c (eapol_pass env n sm)"
  using port_ok_view [OF view_pass] AUTH_PAE_Step_port by blast

lemma port_emit: "port_ok c sm \<Longrightarrow> \<forall>b. e \<noteq> Set_port_authorized b \<Longrightarrow> port_ok c (emit e sm)"
  using port_ok_view [OF view_emit, of e c sm] by blast

lemma port_eif: "port_ok c sm \<Longrightarrow> port_ok c (eif h sm)"
  by (simp only: port_ok_view [OF view_cnt(4)])

lemma port_aaa: "port_ok c sm \<Longrightarrow> eapol_aaa sm = Some sm' \<Longrightarrow> port_ok c sm'"
  by (auto simp: eapol_aaa_def Let_def intro!: port_emit port_eif split: if_splits option.splits)

lemma port_sm_change: "port_ok c sm \<Longrightarrow> port_ok c (sm_change env n sm)"
  by (simp add: sm_change_def port_emit)

lemma port_step: "port_ok c sm \<Longrightarrow> port_ok c (eapol_auth_step sm)"
  by (simp add: eapol_auth_step_def port_emit)

lemma run_pass_port:
  assumes "port_ok c sm"
  shows "case run_pass env n sm of Restart sm' \<Rightarrow> port_ok c sm' | Return sm' \<Rightarrow> port_ok c sm'"
proof -
  let ?s = "eapol_pass env n sm"
  have p: "port_ok c ?s" by (rule eapol_pass_port [OF assms])
  obtain again ei where e: "eap_step env n (eap_if ?s) = (again, ei)" by fastforce
  have t: "port_ok c (eif (\<lambda>_. ei) ?s)" by (rule port_eif [OF p])
  show ?thesis
    using p t by (auto simp: run_pass_def Let_def e port_eif intro!: port_sm_change intro: port_aaa [OF t] split: option.split)
qed

lemma step_loop_port: "port_ok c sm \<Longrightarrow> port_ok c (step_loop env n sm)"
proof (induction n arbitrary: sm)
  case (Suc n)
  with run_pass_port [of c sm env "Suc n"] show ?case
    by (auto simp: port_step split: pass_result.splits)
qed simp

lemma step_run_port: "port_ok c sm \<Longrightarrow> port_ok c (eapol_sm_step_run env sm)"
  by (simp add: eapol_sm_step_run_def step_loop_port)

section \<open>Reachable machines\<close>

text \<open>
  The operations of the component and what the layers around it write between them: received
  frames, port and key events, the EAP server's variables.  \<open>use_cached_pmk\<close> is the
  shortcut of \<open>ieee802_1x_new_station\<close> (\<open>src/ap/ieee802_1x.c\<close>) for a station with a cached PMKSA
  (\<open>v\<close> for the FT and FILS ones, which set \<open>portValid\<close>); it is allowed when \<open>pmk\<close>.
\<close>

definition use_cached_pmk :: "bool \<Rightarrow> eapol_state_machine \<Rightarrow> eapol_state_machine" where
  "use_cached_pmk v sm =
     (eif (eapKeyAvailable_update (\<lambda>_. True)) (sm\<lparr>keyRun := True\<rparr>))
       \<lparr>auth_pae_state := AUTH_PAE_AUTHENTICATING, be_auth_state := BE_AUTH_SUCCESS, authSuccess := True,
        authFail := False, portValid := (if v then True else portValid sm)\<rparr>"

inductive eapol_trans :: "bool \<Rightarrow> eapol_state_machine \<Rightarrow> eapol_state_machine \<Rightarrow> bool" for pmk where
  trans_run: "eapol_trans pmk sm (eapol_sm_step_cb env sm)"
| trans_tick: "eapol_trans pmk sm (eapol_port_timers_tick env sm)"
| trans_conf: "eapol_trans pmk sm (snd (eapol_auth_set_conf sm param v))"
| trans_reauth: "eapol_trans pmk sm (eapol_auth_reauthenticate sm)"
| trans_pending: "eapol_trans pmk sm (snd (eapol_auth_eap_pending_cb b sm))"
| trans_frames: "eapol_trans pmk sm (sm\<lparr>eapolEap := a, eapolStart := b, eapolLogoff := l, rxKey := k\<rparr>)"
| trans_port: "eapol_trans pmk sm (sm\<lparr>portValid := v, keyRun := r, keyDone := d, portControl := pc,
    authFail := af, reAuthenticate := ra, reAuthPeriod := rp, flags := f, eap_if := ei\<rparr>)"
| trans_tx: "eapol_trans pmk sm (cnt (dot1xAuthEapolFramesTx_update (\<lambda>n. n + 1)) sm)"
| trans_cached: "pmk \<Longrightarrow> eapol_trans pmk sm (use_cached_pmk v sm)"

inductive eapol_reachable :: "bool \<Rightarrow> eapol_state_machine \<Rightarrow> bool" for pmk where
  reach_alloc: "eapol_auth_alloc conf fl (Some ei) True env1 env2 = Some sm \<Longrightarrow> eapol_reachable pmk sm"
| reach_trans: "eapol_reachable pmk sm \<Longrightarrow> eapol_trans pmk sm sm' \<Longrightarrow> eapol_reachable pmk sm'"

lemma port_defaults: "port_ok c (eapol_sm_defaults conf fl ei)"
  by (simp add: port_ok_def eapol_sm_defaults_def last_set_port_def zero_counters_def)

lemma port_alloc:
  assumes "eapol_auth_alloc conf fl (Some ei) True env1 env2 = Some sm"
  shows "port_ok c sm"
proof -
  have i: "port_ok c (x\<lparr>initializing := b, initialize := d\<rparr>) \<longleftrightarrow> port_ok c x"
    "port_ok c (x\<lparr>initialize := d\<rparr>) \<longleftrightarrow> port_ok c x" "port_ok c (x\<lparr>initializing := d\<rparr>) \<longleftrightarrow> port_ok c x" for x b d
    by (simp_all add: port_ok_def)
  show ?thesis
    using assms
    by (auto simp: eapol_auth_alloc_def eapol_auth_initialize_def Let_def i port_defaults
        intro!: port_emit step_run_port)
qed

lemma port_set_conf: "port_ok c sm \<Longrightarrow> port_ok c (snd (eapol_auth_set_conf sm param v))"
  by (simp add: eapol_auth_set_conf_def eapol_auth_step_def) (simp add: port_ok_def helper_defs)

lemma port_tick: "port_ok c sm \<Longrightarrow> port_ok c (eapol_port_timers_tick env sm)"
  unfolding eapol_port_timers_tick_def Let_def
  by (intro port_emit step_run_port port_eif) (simp_all add: port_ok_def)

lemma eapol_trans_port:
  assumes "eapol_trans pmk sm sm'" "port_ok c sm" "c \<longrightarrow> \<not> pmk"
  shows "port_ok c sm'"
  using assms(1)
proof cases
  case (trans_cached v)
  with assms(2,3) show ?thesis by (simp add: port_ok_def helper_defs use_cached_pmk_def)
next
  case trans_tx
  with assms(2) show ?thesis by (simp add: port_ok_def helper_defs)
next
  case (trans_frames a b l k)
  with assms(2) show ?thesis by (simp add: port_ok_def)
next
  case trans_port
  with assms(2) show ?thesis by (simp add: port_ok_def)
next
  case (trans_reauth)
  with assms(2) show ?thesis
    by (simp add: eapol_auth_reauthenticate_def eapol_auth_step_def) (simp add: port_ok_def helper_defs)
qed (use assms(2) in \<open>simp_all add: eapol_sm_step_cb_def step_run_port port_tick port_set_conf
  eapol_auth_eap_pending_cb_def port_step\<close>)

lemma reachable_port: "eapol_reachable pmk sm \<Longrightarrow> (c \<longrightarrow> \<not> pmk) \<Longrightarrow> port_ok c sm"
  by (induction rule: eapol_reachable.induct) (auto intro: port_alloc eapol_trans_port)

text \<open>
  C31: The controlled port follows the state machine in every reachable machine: the last call
  of \<open>set_port_authorized\<close> agrees with \<open>authPortStatus\<close>, the port is closed in DISCONNECTED,
  HELD and FORCE_UNAUTH and open in AUTHENTICATED and FORCE_AUTH, and the forced states go with
  the forced port modes.
\<close>

theorem eapol_port_follows_state:
  assumes "eapol_reachable pmk sm"
  shows "last_set_port (outs sm) = authPortStatus sm \<and>
    (auth_pae_state sm \<in> {AUTH_PAE_DISCONNECTED, AUTH_PAE_HELD, AUTH_PAE_FORCE_UNAUTH} \<longrightarrow>
       authPortStatus sm = Unauthorized) \<and>
    (auth_pae_state sm \<in> {AUTH_PAE_AUTHENTICATED, AUTH_PAE_FORCE_AUTH} \<longrightarrow> authPortStatus sm = Authorized) \<and>
    (auth_pae_state sm = AUTH_PAE_FORCE_AUTH \<longrightarrow> portMode sm = ForceAuthorized) \<and>
    (auth_pae_state sm = AUTH_PAE_FORCE_UNAUTH \<longrightarrow> portMode sm = ForceUnauthorized)"
  using reachable_port [OF assms, of False] by (simp add: port_ok_def)

text \<open>
  A supplicant gets a bounded number of attempts: without the PMKSA shortcut \<open>reAuthCount\<close>
  never exceeds \<open>reAuthMax + 1 = 3\<close>, it exceeds \<open>reAuthMax\<close> in no state that starts or runs an
  authentication, and leaving through DISCONNECTED or AUTHENTICATED resets it.
\<close>

theorem eapol_attempts_bounded:
  assumes "eapol_reachable False sm"
  shows "reAuthMax sm = 2 \<and> reAuthCount sm \<le> 3 \<and>
    (auth_pae_state sm \<in> {AUTH_PAE_RESTART, AUTH_PAE_AUTHENTICATING, AUTH_PAE_ABORTING, AUTH_PAE_HELD}
       \<longrightarrow> reAuthCount sm \<le> reAuthMax sm) \<and>
    (auth_pae_state sm \<in> {AUTH_PAE_DISCONNECTED, AUTH_PAE_AUTHENTICATED} \<longrightarrow> reAuthCount sm = 0)"
  using reachable_port [OF assms, of True] by (simp add: port_ok_def)

text \<open>
  The statistics counter \<open>authEntersAuthenticating\<close> that the MIB dump reports is 0 in every
  reachable machine, however often AUTHENTICATING is entered.
\<close>

theorem eapol_enters_authenticating_zero:
  assumes "eapol_reachable pmk sm"
  shows "authEntersAuthenticating (counters sm) = 0"
  using reachable_port [OF assms, of False] by (simp add: port_ok_def)


section \<open>How the port opens and closes\<close>

lemma enter_port_status [simp]:
  "authPortStatus (AUTH_PAE_INITIALIZE_Enter g sm) = authPortStatus sm"
  "authPortStatus (AUTH_PAE_DISCONNECTED_Enter fin g sm) = Unauthorized"
  "authPortStatus (AUTH_PAE_RESTART_Enter g sm) = authPortStatus sm"
  "authPortStatus (AUTH_PAE_CONNECTING_Enter g sm) = authPortStatus sm"
  "authPortStatus (AUTH_PAE_HELD_Enter g sm) = Unauthorized"
  "authPortStatus (AUTH_PAE_AUTHENTICATED_Enter g sm) = Authorized"
  "authPortStatus (AUTH_PAE_AUTHENTICATING_Enter g sm) = authPortStatus sm"
  "authPortStatus (AUTH_PAE_ABORTING_Enter g sm) = authPortStatus sm"
  "authPortStatus (AUTH_PAE_FORCE_AUTH_Enter g sm) = Authorized"
  "authPortStatus (AUTH_PAE_FORCE_UNAUTH_Enter g sm) = Unauthorized"
  by (simp_all add: pae_enter_defs helper_defs Let_def)

lemma enter_pae_state [simp]:
  "auth_pae_state (AUTH_PAE_INITIALIZE_Enter g sm) = AUTH_PAE_INITIALIZE"
  "auth_pae_state (AUTH_PAE_DISCONNECTED_Enter fin g sm) = AUTH_PAE_DISCONNECTED"
  "auth_pae_state (AUTH_PAE_RESTART_Enter g sm) = AUTH_PAE_RESTART"
  "auth_pae_state (AUTH_PAE_CONNECTING_Enter g sm) = AUTH_PAE_CONNECTING"
  "auth_pae_state (AUTH_PAE_HELD_Enter g sm) = AUTH_PAE_HELD"
  "auth_pae_state (AUTH_PAE_AUTHENTICATED_Enter g sm) = AUTH_PAE_AUTHENTICATED"
  "auth_pae_state (AUTH_PAE_AUTHENTICATING_Enter g sm) = AUTH_PAE_AUTHENTICATING"
  "auth_pae_state (AUTH_PAE_ABORTING_Enter g sm) = AUTH_PAE_ABORTING"
  "auth_pae_state (AUTH_PAE_FORCE_AUTH_Enter g sm) = AUTH_PAE_FORCE_AUTH"
  "auth_pae_state (AUTH_PAE_FORCE_UNAUTH_Enter g sm) = AUTH_PAE_FORCE_UNAUTH"
  by (simp_all add: pae_enter_defs helper_defs Let_def)

lemma pass_port: "authPortStatus (eapol_pass env n sm) = authPortStatus (AUTH_PAE_Step (finished_cb env n) sm)"
  "auth_pae_state (eapol_pass env n sm) = auth_pae_state (AUTH_PAE_Step (finished_cb env n) sm)"
  using view_pass [of env n sm] by (simp_all add: port_view_def)

lemma AUTH_PAE_Step_opens:
  assumes "port_ok c sm" "authPortStatus sm \<noteq> Authorized" "authPortStatus (AUTH_PAE_Step fin sm) = Authorized"
  shows "\<not> initialize sm \<and> portEnabled (eap_if sm) \<and>
    (portControl sm = ForceAuthorized \<or>
     (auth_pae_state sm = AUTH_PAE_AUTHENTICATING \<and> authSuccess sm \<and> portValid sm))"
  using assms by (cases "auth_pae_state sm")
    (auto simp: AUTH_PAE_Step_def Let_def port_ok_def split: if_splits)

text \<open>
  C32: In a reachable machine a pass opens a closed port only if the administrator forces it open or
  an authentication is running that the backend reported as successful on a valid, enabled port
  outside initialization.
\<close>

theorem eapol_port_opens:
  assumes "eapol_reachable pmk sm" "authPortStatus sm \<noteq> Authorized"
    "authPortStatus (eapol_pass env n sm) = Authorized"
  shows "\<not> initialize sm \<and> portEnabled (eap_if sm) \<and>
    (portControl sm = ForceAuthorized \<or>
     (auth_pae_state sm = AUTH_PAE_AUTHENTICATING \<and> authSuccess sm \<and> portValid sm))"
  by (rule AUTH_PAE_Step_opens [OF reachable_port [OF assms(1), of False] assms(2)])
    (use assms(3) in \<open>simp_all add: pass_port\<close>)

lemma enter_success [simp]:
  "authSuccess (AUTH_PAE_INITIALIZE_Enter g sm) = authSuccess sm"
  "authSuccess (AUTH_PAE_DISCONNECTED_Enter fin g sm) = authSuccess sm"
  "authSuccess (AUTH_PAE_RESTART_Enter g sm) = authSuccess sm"
  "authSuccess (AUTH_PAE_CONNECTING_Enter g sm) = authSuccess sm"
  "authSuccess (AUTH_PAE_HELD_Enter g sm) = authSuccess sm"
  "authSuccess (AUTH_PAE_AUTHENTICATED_Enter g sm) = authSuccess sm"
  "authSuccess (AUTH_PAE_AUTHENTICATING_Enter g sm) = False"
  "authSuccess (AUTH_PAE_ABORTING_Enter g sm) = authSuccess sm"
  "authSuccess (AUTH_PAE_FORCE_AUTH_Enter g sm) = authSuccess sm"
  "authSuccess (AUTH_PAE_FORCE_UNAUTH_Enter g sm) = authSuccess sm"
  by (simp_all add: pae_enter_defs eapol_auth_tx_canned_eap_def helper_defs Let_def)

lemma enter_eap_success [simp]:
  "eapSuccess (eap_if (AUTH_PAE_INITIALIZE_Enter g sm)) = eapSuccess (eap_if sm)"
  "eapSuccess (eap_if (AUTH_PAE_DISCONNECTED_Enter fin g sm)) = eapSuccess (eap_if sm)"
  "eapSuccess (eap_if (AUTH_PAE_RESTART_Enter g sm)) = eapSuccess (eap_if sm)"
  "eapSuccess (eap_if (AUTH_PAE_CONNECTING_Enter g sm)) = eapSuccess (eap_if sm)"
  "eapSuccess (eap_if (AUTH_PAE_HELD_Enter g sm)) = eapSuccess (eap_if sm)"
  "eapSuccess (eap_if (AUTH_PAE_AUTHENTICATED_Enter g sm)) = eapSuccess (eap_if sm)"
  "eapSuccess (eap_if (AUTH_PAE_AUTHENTICATING_Enter g sm)) = eapSuccess (eap_if sm)"
  "eapSuccess (eap_if (AUTH_PAE_ABORTING_Enter g sm)) = eapSuccess (eap_if sm)"
  "eapSuccess (eap_if (AUTH_PAE_FORCE_AUTH_Enter g sm)) = eapSuccess (eap_if sm)"
  "eapSuccess (eap_if (AUTH_PAE_FORCE_UNAUTH_Enter g sm)) = eapSuccess (eap_if sm)"
  by (simp_all add: pae_enter_defs eapol_auth_tx_canned_eap_def helper_defs Let_def)

lemma AUTH_PAE_Step_success:
  "authSuccess (AUTH_PAE_Step fin sm) \<Longrightarrow> authSuccess sm"
  "eapSuccess (eap_if (AUTH_PAE_Step fin sm)) = eapSuccess (eap_if sm)"
  by (cases "auth_pae_state sm"; simp add: AUTH_PAE_Step_def Let_def split: if_splits)+

lemma tx_req_success [simp]: "authSuccess (eapol_auth_tx_req sm) = authSuccess sm"
  "eap_if (eapol_auth_tx_req sm) = eap_if sm"
  by (simp_all add: eapol_auth_tx_req_def helper_defs Let_def split: option.split)

lemma be_enter_success [simp]:
  "authSuccess (BE_AUTH_INITIALIZE_Enter g sm) = authSuccess sm" "authSuccess (BE_AUTH_REQUEST_Enter g sm) = authSuccess sm"
  "authSuccess (BE_AUTH_RESPONSE_Enter g sm) = authSuccess sm" "authSuccess (BE_AUTH_SUCCESS_Enter g sm)"
  "authSuccess (BE_AUTH_FAIL_Enter g sm) = authSuccess sm" "authSuccess (BE_AUTH_TIMEOUT_Enter g sm) = authSuccess sm"
  "authSuccess (BE_AUTH_IDLE_Enter g sm) = authSuccess sm" "authSuccess (BE_AUTH_IGNORE_Enter g sm) = authSuccess sm"
  "eapSuccess (eap_if (BE_AUTH_IGNORE_Enter g sm)) = eapSuccess (eap_if sm)"
  "authSuccess (cnt h sm) = authSuccess sm"
  by (simp_all add: be_enter_defs helper_defs Let_def)

lemma BE_AUTH_Step_success:
  "authSuccess (BE_AUTH_Step sm) \<Longrightarrow> authSuccess sm \<or>
     (eapSuccess (eap_if sm) \<and> portControl sm = Auto \<and> be_auth_state sm \<in> {BE_AUTH_RESPONSE, BE_AUTH_IDLE})"
  by (auto simp: BE_AUTH_Step_def Let_def split: if_splits be_auth.splits)

lemma other_step_success [simp]:
  "authSuccess (REAUTH_TIMER_Step sm) = authSuccess sm"
  "authSuccess (AUTH_KEY_TX_Step sm) = authSuccess sm"
  "authSuccess (KEY_RX_Step sm) = authSuccess sm"
  "authSuccess (CTRL_DIR_Step sm) = authSuccess sm"
  by (simp_all add: REAUTH_TIMER_Step_def AUTH_KEY_TX_Step_def KEY_RX_Step_def CTRL_DIR_Step_def other_enter_defs
      helper_defs Let_def split: reauth_timer.split auth_key_tx.split key_rx.split ctrl_dir.split)

lemma success_when_alive: "(\<And>sm. authSuccess (f sm) = authSuccess sm) \<Longrightarrow>
    authSuccess (when_alive env n i f sm) = authSuccess sm"
  by (simp add: when_alive_def)

text \<open>
  A pass reports a successful authentication to the PAE machine only if it was reported
  before or the EAP server has set \<open>eapSuccess\<close>.
\<close>

theorem eapol_success_from_eap:
  assumes "authSuccess (eapol_pass env n sm)"
  shows "authSuccess sm \<or> eapSuccess (eap_if sm)"
proof -
  let ?s = "AUTH_PAE_Step (finished_cb env n) sm"
  have "authSuccess (when_alive env n 0 BE_AUTH_Step ?s)"
    using assms unfolding eapol_pass_def Let_def by (simp only: success_when_alive other_step_success)
  then show ?thesis
    using BE_AUTH_Step_success [of ?s] AUTH_PAE_Step_success [of "finished_cb env n" sm]
    by (auto simp: when_alive_def split: if_splits)
qed

text \<open>
  An EAPOL-Logoff ends the session: from AUTHENTICATED on an enabled port under automatic
  control the next pass closes the port in DISCONNECTED, unless the supplicant restarts or is to
  be reauthenticated, and the flag is consumed and counted.
\<close>

theorem eapol_logoff_closes:
  assumes "auth_pae_state sm = AUTH_PAE_AUTHENTICATED" "eapolLogoff sm" "\<not> eapolStart sm" "\<not> reAuthenticate sm"
    "portControl sm = Auto" "portMode sm = Auto" "\<not> initialize sm" "portEnabled (eap_if sm)"
  shows "auth_pae_state (eapol_pass env n sm) = AUTH_PAE_DISCONNECTED \<and>
    authPortStatus (eapol_pass env n sm) = Unauthorized \<and>
    AUTH_PAE_Step (finished_cb env n) sm = AUTH_PAE_DISCONNECTED_Enter (finished_cb env n) False sm \<and>
    \<not> eapolLogoff (AUTH_PAE_Step (finished_cb env n) sm) \<and>
    authAuthEapLogoffWhileAuthenticated (counters (AUTH_PAE_Step (finished_cb env n) sm)) =
      authAuthEapLogoffWhileAuthenticated (counters sm) + 1"
proof -
  have s: "AUTH_PAE_Step (finished_cb env n) sm = AUTH_PAE_DISCONNECTED_Enter (finished_cb env n) False sm"
    using assms by (simp add: AUTH_PAE_Step_def Let_def)
  show ?thesis
    using assms(1,2) by (simp add: pass_port s) (simp add: AUTH_PAE_DISCONNECTED_Enter_def helper_defs Let_def)
qed

section \<open>The administrator's control of the port\<close>

text \<open>
  The control interface's \<open>AdminControlledPortControl ForceUnauthorized\<close> is accepted and
  closes the port: whatever the machine was doing on an enabled port outside initialization and
  not already forced, the next pass enters FORCE_UNAUTH, closes the port and sends EAP-Failure.
\<close>

theorem eapol_force_unauthorized:
  assumes "portMode sm \<noteq> ForceUnauthorized" "\<not> initialize sm" "portEnabled (eap_if sm)"
  shows "fst (eapol_auth_set_conf sm ''AdminControlledPortControl'' ''ForceUnauthorized'') = 0 \<and>
    (let sm' = snd (eapol_auth_set_conf sm ''AdminControlledPortControl'' ''ForceUnauthorized'')
     in last (outs sm') = Register_step \<and>
        auth_pae_state (eapol_pass env n sm') = AUTH_PAE_FORCE_UNAUTH \<and>
        authPortStatus (eapol_pass env n sm') = Unauthorized \<and>
        last (outs (AUTH_PAE_Step (finished_cb env n) sm')) = Eapol_send [4, last_eap_id sm + 1, 0, 4])"
proof -
  have c: "eapol_auth_set_conf sm ''AdminControlledPortControl'' ''ForceUnauthorized'' =
      (0, eapol_auth_step (sm\<lparr>portControl := ForceUnauthorized\<rparr>))"
    by (simp add: eapol_auth_set_conf_def strcaseeq_def tolower_def)
  have s: "AUTH_PAE_Step fin (eapol_auth_step (sm\<lparr>portControl := ForceUnauthorized\<rparr>)) =
      AUTH_PAE_FORCE_UNAUTH_Enter True (eapol_auth_step (sm\<lparr>portControl := ForceUnauthorized\<rparr>))" for fin
    using assms by (simp add: AUTH_PAE_Step_def eapol_auth_step_def emit_def Let_def)
  show ?thesis
    by (simp add: c pass_port s)
      (simp add: AUTH_PAE_FORCE_UNAUTH_Enter_def eapol_auth_tx_canned_eap_def eapol_auth_step_def helper_defs Let_def)
qed

text \<open>
  C34: A station with cached keys overrides the administrator: on an enabled port outside initialization
  that is forced closed, the shortcut of \<open>ieee802_1x_new_station\<close> makes the next pass open the port: for
  FT and FILS always (\<open>v\<close>), for a cached PMKSA when \<open>portValid\<close> is set.
\<close>

theorem eapol_cached_pmk_overrides_force:
  assumes "portControl sm = ForceUnauthorized" "portMode sm = ForceUnauthorized" "\<not> initialize sm"
    "portEnabled (eap_if sm)" "v \<or> portValid sm"
  shows "authPortStatus (eapol_pass env n (use_cached_pmk v sm)) = Authorized \<and>
    auth_pae_state (eapol_pass env n (use_cached_pmk v sm)) = AUTH_PAE_AUTHENTICATED"
proof -
  have "AUTH_PAE_Step fin (use_cached_pmk v sm) = AUTH_PAE_AUTHENTICATED_Enter False (use_cached_pmk v sm)" for fin
    using assms by (auto simp: AUTH_PAE_Step_def use_cached_pmk_def eif_def Let_def)
  then show ?thesis by (simp add: pass_port)
qed


section \<open>A concrete machine\<close>

text \<open>A machine for a WPA station, created in an environment that answers nothing.\<close>

definition quiet_env :: eapol_env where
  "quiet_env = \<lparr>alive = \<lambda>_ _. True, finished_cb = \<lambda>_. False, eap_step = \<lambda>_ ei. (False, ei)\<rparr>"

definition sample_if :: eap_eapol_interface where
  "sample_if = \<lparr>eapResp = False, portEnabled = True, retransWhile = 0, eapRestart = False, eapReq = False,
     eapNoReq = False, eapSuccess = False, eapFail = False, eapTimeout = False, eapReqData = None,
     eapKeyAvailable = False, aaaEapResp = False, aaaEapRespData = None\<rparr>"

definition sample_conf :: eapol_auth_config where
  "sample_conf = \<lparr>eap_reauth_period = 3600, wpa = True, individual_wep_key_len = 0, default_wep_key = False\<rparr>"

definition sample_sm :: eapol_state_machine where
  "sample_sm = eapol_auth_initialize quiet_env quiet_env (eapol_sm_defaults sample_conf EAPOL_SM_USES_WPA sample_if)"

lemma sample_reachable: "eapol_reachable pmk sample_sm"
  by (rule reach_alloc [of sample_conf EAPOL_SM_USES_WPA sample_if quiet_env quiet_env])
    (simp add: eapol_auth_alloc_def sample_sm_def)

lemma sample_cached: "eapol_reachable True (use_cached_pmk True sample_sm)"
  by (rule reach_trans [OF sample_reachable]) (rule trans_cached, simp)

theorem eapol_port_follows_state_witness:
  "last_set_port (outs sample_sm) = authPortStatus sample_sm \<and> authPortStatus sample_sm = Unauthorized"
  using eapol_port_follows_state [OF sample_reachable [of True]] by (rule conjI [OF conjunct1]) code_simp

theorem eapol_attempts_bounded_witness: "reAuthMax sample_sm = 2 \<and> reAuthCount sample_sm \<le> 3"
  using eapol_attempts_bounded [OF sample_reachable] by blast

theorem eapol_enters_authenticating_zero_witness: "authEntersAuthenticating (counters sample_sm) = 0"
  by (rule eapol_enters_authenticating_zero [OF sample_reachable])

theorem eapol_port_opens_witness:
  "let sm = use_cached_pmk True sample_sm
   in authPortStatus (eapol_pass quiet_env 1 sm) = Authorized \<and> \<not> initialize sm \<and> portEnabled (eap_if sm) \<and>
     (portControl sm = ForceAuthorized \<or>
      (auth_pae_state sm = AUTH_PAE_AUTHENTICATING \<and> authSuccess sm \<and> portValid sm))"
proof -
  have a: "authPortStatus (eapol_pass quiet_env 1 (use_cached_pmk True sample_sm)) = Authorized" by code_simp
  have b: "authPortStatus (use_cached_pmk True sample_sm) \<noteq> Authorized" by code_simp
  show ?thesis unfolding Let_def by (rule conjI [OF a eapol_port_opens [OF sample_cached b a]])
qed

theorem eapol_success_from_eap_witness:
  "authSuccess (use_cached_pmk True sample_sm) \<or> eapSuccess (eap_if (use_cached_pmk True sample_sm))"
  by (rule eapol_success_from_eap [of quiet_env 1]) code_simp

theorem eapol_logoff_closes_witness:
  "let sm = sample_sm\<lparr>auth_pae_state := AUTH_PAE_AUTHENTICATED, authPortStatus := Authorized, eapolLogoff := True\<rparr>
   in auth_pae_state (eapol_pass quiet_env 1 sm) = AUTH_PAE_DISCONNECTED \<and>
     authPortStatus (eapol_pass quiet_env 1 sm) = Unauthorized"
  unfolding Let_def by (rule conjI; rule eapol_logoff_closes [THEN conjunct1]
    eapol_logoff_closes [THEN conjunct2, THEN conjunct1]; code_simp)

theorem eapol_force_unauthorized_witness:
  "let sm' = snd (eapol_auth_set_conf sample_sm ''AdminControlledPortControl'' ''ForceUnauthorized'')
   in auth_pae_state (eapol_pass quiet_env 1 sm') = AUTH_PAE_FORCE_UNAUTH"
proof -
  have h: "portMode sample_sm \<noteq> ForceUnauthorized" "\<not> initialize sample_sm" "portEnabled (eap_if sample_sm)"
    by code_simp+
  show ?thesis using eapol_force_unauthorized [OF h, of quiet_env 1] by (simp only: Let_def simp_thms)
qed

theorem eapol_cached_pmk_overrides_force_witness:
  "let sm = use_cached_pmk True (sample_sm\<lparr>portControl := ForceUnauthorized, portMode := ForceUnauthorized\<rparr>)
   in authPortStatus (eapol_pass quiet_env 1 sm) = Authorized"
  unfolding Let_def by (rule eapol_cached_pmk_overrides_force [THEN conjunct1]) code_simp+

end
