(* ===== verification/PmksaCache.thy ===== *)
theory PmksaCache
  imports Cstring "HOL-Library.Monad_Syntax"
begin

text \<open>
  The authenticator's PMKSA cache: \<open>src/mininet-wifi/hostap/src/ap/pmksa_cache_auth.c\<close> and
  \<open>pmksa_cache_auth.h\<close>, with the PMKID derivations of \<open>common/wpa_common.c\<close> and the key
  management tests of \<open>common/defs.h\<close> it calls.  Entries live in an explicit store: every entry is
  in two intrusive lists at once, the list by expiration (\<open>next\<close>) and one of 128 hash chains
  (\<open>hnext\<close>), and the operations relink them through pointers as the code does.  \<open>None\<close> as the result
  of an operation is an access to an entry that is not allocated, or a loop that does not end.
  The HMACs of the crypto library are parameters; the copies of identity, CUI, class attributes
  and VLAN succeed.
\<close>

unbundle bit_operations_syntax

section \<open>State\<close>

type_synonym ref = nat

record vlan_description =
  notempty :: bool
  untagged :: int
  tagged :: "int list"

text \<open>
  \<open>pmk\<close> and \<open>kck\<close> hold the first \<open>pmk_len\<close> and \<open>kck_len\<close> bytes of the arrays; identity, CUI and VLAN
  are \<open>None\<close> for NULL.
\<close>

record rsn_pmksa_cache_entry =
  next_link :: "ref option"
  hnext_link :: "ref option"
  pmkid :: bytes
  pmk :: bytes
  kck :: bytes
  expiration :: int
  akmp :: u32
  spa :: bytes
  identity :: "bytes option"
  cui :: "bytes option"
  radius_class :: "bytes list"
  eap_type_authsrv :: u8
  vlan_desc :: "vlan_description option"
  opportunistic :: bool
  acct_multi_session_id :: u64

type_synonym store = "ref \<rightharpoonup> rsn_pmksa_cache_entry"

text \<open>
  \<open>free_cbs\<close> lists the entries \<open>free_cb\<close> was called for; \<open>timer\<close> is the delay of the registered
  timeout.
\<close>

record rsn_pmksa_cache =
  pmkid_hash :: "nat \<Rightarrow> ref option"
  pmksa :: "ref option"
  pmksa_count :: int
  mem :: store
  free_cbs :: "ref list"
  timer :: "int option"

definition PMKID_LEN :: nat where "PMKID_LEN = 16"
definition PMK_LEN_MAX :: nat where "PMK_LEN_MAX = 64"
definition WPA_KCK_MAX_LEN :: nat where "WPA_KCK_MAX_LEN = 32"
definition pmksa_cache_max_entries :: int where "pmksa_cache_max_entries = 1024"
definition dot11RSNAConfigPMKLifetime :: int where "dot11RSNAConfigPMKLifetime = 43200"

definition PMKID_HASH :: "bytes \<Rightarrow> nat" where
  "PMKID_HASH p = unat (p ! 0 AND 0x7f)"

section \<open>Unlinking and freeing\<close>

text \<open>
  The loop that takes \<open>entry\<close> out of a list: the same for both lists, \<open>nx\<close> reads the link and \<open>st\<close>
  writes it.  It returns the store and the head of the list.
\<close>

partial_function (option) unlink :: "(rsn_pmksa_cache_entry \<Rightarrow> ref option) \<Rightarrow>
    (ref option \<Rightarrow> rsn_pmksa_cache_entry \<Rightarrow> rsn_pmksa_cache_entry) \<Rightarrow> store \<Rightarrow> ref \<Rightarrow> ref option \<Rightarrow>
    ref option \<Rightarrow> ref option \<Rightarrow> (store \<times> ref option) option" where
  "unlink nx st m entry first prev pos =
     (case pos of
        None \<Rightarrow> Some (m, first)
      | Some p \<Rightarrow>
          if p = entry then
            do {
              e \<leftarrow> m entry;
              (case prev of
                 None \<Rightarrow> Some (m, nx e)
               | Some q \<Rightarrow> do { f \<leftarrow> m q; Some (m(q \<mapsto> st (nx e) f), first) })
            }
          else do { e \<leftarrow> m p; unlink nx st m entry first pos (nx e) })"

definition set_hnext :: "ref option \<Rightarrow> rsn_pmksa_cache_entry \<Rightarrow> rsn_pmksa_cache_entry" where
  "set_hnext v e = e\<lparr>hnext_link := v\<rparr>"

definition set_next :: "ref option \<Rightarrow> rsn_pmksa_cache_entry \<Rightarrow> rsn_pmksa_cache_entry" where
  "set_next v e = e\<lparr>next_link := v\<rparr>"

text \<open>\<open>_pmksa_cache_free_entry\<close> releases the entry with all it owns.\<close>

definition free_entry_mem :: "ref \<Rightarrow> rsn_pmksa_cache \<Rightarrow> rsn_pmksa_cache option" where
  "free_entry_mem r c = (if mem c r = None then None else Some (c\<lparr>mem := (mem c)(r := None)\<rparr>))"

definition pmksa_cache_free_entry :: "rsn_pmksa_cache \<Rightarrow> ref \<Rightarrow> rsn_pmksa_cache option" where
  "pmksa_cache_free_entry c entry = do {
     let c = c\<lparr>pmksa_count := pmksa_count c - 1, free_cbs := free_cbs c @ [entry]\<rparr>;
     e \<leftarrow> mem c entry;
     let hash = PMKID_HASH (pmkid e);
     (m, h) \<leftarrow> unlink hnext_link set_hnext (mem c) entry (pmkid_hash c hash) None (pmkid_hash c hash);
     let c = c\<lparr>mem := m, pmkid_hash := (pmkid_hash c)(hash := h)\<rparr>;
     (m, h) \<leftarrow> unlink next_link set_next (mem c) entry (pmksa c) None (pmksa c);
     free_entry_mem entry (c\<lparr>mem := m, pmksa := h\<rparr>)
   }"

partial_function (option) pmksa_cache_auth_flush :: "rsn_pmksa_cache \<Rightarrow> rsn_pmksa_cache option" where
  "pmksa_cache_auth_flush c =
     (case pmksa c of
        None \<Rightarrow> Some c
      | Some r \<Rightarrow> do { c' \<leftarrow> pmksa_cache_free_entry c r; pmksa_cache_auth_flush c' })"

section \<open>Expiration\<close>

text \<open>
  \<open>now\<close> is \<open>now.sec\<close> of \<open>os_get_reltime\<close>.  Times are unbounded integers: the addition of a second to the \<open>int\<close>
  \<open>sec\<close> overflows in the code when an entry has \<open>INT_MAX\<close> seconds left, which is outside the model.
\<close>

definition pmksa_cache_set_expiration :: "int \<Rightarrow> rsn_pmksa_cache \<Rightarrow> rsn_pmksa_cache option" where
  "pmksa_cache_set_expiration now c =
     (let c = c\<lparr>timer := None\<rparr> in
      case pmksa c of
        None \<Rightarrow> Some c
      | Some r \<Rightarrow> do {
          e \<leftarrow> mem c r;
          let sec = expiration e - now;
          let sec = (if sec < 0 then 0 else sec);
          Some (c\<lparr>timer := Some (sec + 1)\<rparr>)
        })"

partial_function (option) expire_loop :: "int \<Rightarrow> rsn_pmksa_cache \<Rightarrow> rsn_pmksa_cache option" where
  "expire_loop now c =
     (case pmksa c of
        None \<Rightarrow> Some c
      | Some r \<Rightarrow> do {
          e \<leftarrow> mem c r;
          if expiration e \<le> now
          then do { c' \<leftarrow> pmksa_cache_free_entry c r; expire_loop now c' }
          else Some c
        })"

definition pmksa_cache_expire :: "int \<Rightarrow> int \<Rightarrow> rsn_pmksa_cache \<Rightarrow> rsn_pmksa_cache option" where
  "pmksa_cache_expire now now' c = do {
     c \<leftarrow> expire_loop now (c\<lparr>timer := None\<rparr>);
     pmksa_cache_set_expiration now' c
   }"

section \<open>Session data\<close>

text \<open>The members of \<open>struct eapol_state_machine\<close> and \<open>sta_info\<close> that are cached with the key.\<close>

record eapol_session =
  ses_identity :: "bytes option"
  ses_cui :: "bytes option"
  ses_class :: "bytes list"
  ses_eap_type :: u8
  ses_vlan :: "vlan_description option"
  ses_acct_id :: u64

definition pmksa_cache_from_eapol_data ::
    "rsn_pmksa_cache_entry \<Rightarrow> eapol_session option \<Rightarrow> rsn_pmksa_cache_entry" where
  "pmksa_cache_from_eapol_data e eapol =
     (case eapol of
        None \<Rightarrow> e
      | Some s \<Rightarrow>
          e\<lparr>identity := (if ses_identity s \<noteq> None then ses_identity s else identity e),
            cui := (if ses_cui s \<noteq> None then ses_cui s else cui e),
            radius_class := ses_class s,
            eap_type_authsrv := ses_eap_type s,
            vlan_desc := (case ses_vlan s of Some v \<Rightarrow> if notempty v then Some v else None | None \<Rightarrow> None),
            acct_multi_session_id := ses_acct_id s\<rparr>)"

text \<open>
  \<open>ap_sta_set_vlan\<close> is called with the VLAN of the entry; the station gets it (that the call can fail for lack of
  memory or of the VLAN is not modelled, and its result is ignored by the code).
\<close>

definition pmksa_cache_to_eapol_data :: "rsn_pmksa_cache_entry option \<Rightarrow> eapol_session option \<Rightarrow> eapol_session option" where
  "pmksa_cache_to_eapol_data entry eapol =
     (case (entry, eapol) of
        (Some e, Some s) \<Rightarrow>
          Some (s\<lparr>ses_identity := (if identity e \<noteq> None then identity e else ses_identity s),
                  ses_cui := (if cui e \<noteq> None then cui e else ses_cui s),
                  ses_class := radius_class e,
                  ses_eap_type := eap_type_authsrv e,
                  ses_vlan := vlan_desc e,
                  ses_acct_id := acct_multi_session_id e\<rparr>)
      | _ \<Rightarrow> eapol)"

section \<open>Linking\<close>

text \<open>The search for the place in the list by expiration: the predecessor of the new entry.\<close>

partial_function (option) link_pos :: "store \<Rightarrow> int \<Rightarrow> ref option \<Rightarrow> ref option \<Rightarrow> ref option option" where
  "link_pos m ex prev pos =
     (case pos of
        None \<Rightarrow> Some prev
      | Some p \<Rightarrow> do {
          e \<leftarrow> m p;
          if expiration e > ex then Some prev else link_pos m ex pos (next_link e)
        })"

text \<open>The two assignments that put the entry behind \<open>prev\<close>.\<close>

definition link_after :: "rsn_pmksa_cache \<Rightarrow> ref option \<Rightarrow> ref \<Rightarrow> rsn_pmksa_cache option" where
  "link_after c prev entry =
     (case prev of
        None \<Rightarrow> do {
          e \<leftarrow> mem c entry;
          Some (c\<lparr>mem := (mem c)(entry \<mapsto> set_next (pmksa c) e), pmksa := Some entry\<rparr>)
        }
      | Some q \<Rightarrow> do {
          e \<leftarrow> mem c entry;
          f \<leftarrow> mem c q;
          let m = (mem c)(entry \<mapsto> set_next (next_link f) e);
          f \<leftarrow> m q;
          Some (c\<lparr>mem := m(q \<mapsto> set_next (Some entry) f)\<rparr>)
        })"

definition pmksa_cache_link_entry :: "int \<Rightarrow> rsn_pmksa_cache \<Rightarrow> ref \<Rightarrow> rsn_pmksa_cache option" where
  "pmksa_cache_link_entry now c entry = do {
     e \<leftarrow> mem c entry;
     prev \<leftarrow> link_pos (mem c) (expiration e) None (pmksa c);
     c \<leftarrow> link_after c prev entry;
     e \<leftarrow> mem c entry;
     let hash = PMKID_HASH (pmkid e);
     let c = c\<lparr>mem := (mem c)(entry \<mapsto> set_hnext (pmkid_hash c hash) e),
               pmkid_hash := (pmkid_hash c)(hash := Some entry),
               pmksa_count := pmksa_count c + 1\<rparr>;
     if prev = None then pmksa_cache_set_expiration now c else Some c
   }"

section \<open>Key management suites and PMKIDs\<close>

definition WPA_KEY_MGMT_FT_IEEE8021X :: u32 where "WPA_KEY_MGMT_FT_IEEE8021X = 0x20"
definition WPA_KEY_MGMT_IEEE8021X_SHA256 :: u32 where "WPA_KEY_MGMT_IEEE8021X_SHA256 = 0x80"
definition WPA_KEY_MGMT_PSK_SHA256 :: u32 where "WPA_KEY_MGMT_PSK_SHA256 = 0x100"
definition WPA_KEY_MGMT_SAE :: u32 where "WPA_KEY_MGMT_SAE = 0x400"
definition WPA_KEY_MGMT_FT_SAE :: u32 where "WPA_KEY_MGMT_FT_SAE = 0x800"
definition WPA_KEY_MGMT_IEEE8021X_SUITE_B :: u32 where "WPA_KEY_MGMT_IEEE8021X_SUITE_B = 0x10000"
definition WPA_KEY_MGMT_IEEE8021X_SUITE_B_192 :: u32 where "WPA_KEY_MGMT_IEEE8021X_SUITE_B_192 = 0x20000"
definition WPA_KEY_MGMT_FILS_SHA256 :: u32 where "WPA_KEY_MGMT_FILS_SHA256 = 0x40000"
definition WPA_KEY_MGMT_FILS_SHA384 :: u32 where "WPA_KEY_MGMT_FILS_SHA384 = 0x80000"
definition WPA_KEY_MGMT_FT_FILS_SHA256 :: u32 where "WPA_KEY_MGMT_FT_FILS_SHA256 = 0x100000"
definition WPA_KEY_MGMT_FT_FILS_SHA384 :: u32 where "WPA_KEY_MGMT_FT_FILS_SHA384 = 0x200000"
definition WPA_KEY_MGMT_FT_IEEE8021X_SHA384 :: u32 where "WPA_KEY_MGMT_FT_IEEE8021X_SHA384 = 0x1000000"
definition WPA_KEY_MGMT_SAE_EXT_KEY :: u32 where "WPA_KEY_MGMT_SAE_EXT_KEY = 0x4000000"
definition WPA_KEY_MGMT_FT_SAE_EXT_KEY :: u32 where "WPA_KEY_MGMT_FT_SAE_EXT_KEY = 0x8000000"
definition WPA_KEY_MGMT_IEEE8021X_SHA384 :: u32 where "WPA_KEY_MGMT_IEEE8021X_SHA384 = 0x10000000"

definition wpa_key_mgmt_sae :: "u32 \<Rightarrow> bool" where
  "wpa_key_mgmt_sae akm = (akm AND (WPA_KEY_MGMT_SAE OR WPA_KEY_MGMT_SAE_EXT_KEY OR
     WPA_KEY_MGMT_FT_SAE OR WPA_KEY_MGMT_FT_SAE_EXT_KEY) \<noteq> 0)"

definition wpa_key_mgmt_fils :: "u32 \<Rightarrow> bool" where
  "wpa_key_mgmt_fils akm = (akm AND (WPA_KEY_MGMT_FILS_SHA256 OR WPA_KEY_MGMT_FILS_SHA384 OR
     WPA_KEY_MGMT_FT_FILS_SHA256 OR WPA_KEY_MGMT_FT_FILS_SHA384) \<noteq> 0)"

definition wpa_key_mgmt_sha256 :: "u32 \<Rightarrow> bool" where
  "wpa_key_mgmt_sha256 akm = (akm AND (WPA_KEY_MGMT_FT_IEEE8021X OR WPA_KEY_MGMT_PSK_SHA256 OR
     WPA_KEY_MGMT_IEEE8021X_SHA256 OR WPA_KEY_MGMT_SAE OR WPA_KEY_MGMT_FT_SAE OR
     WPA_KEY_MGMT_IEEE8021X_SUITE_B OR WPA_KEY_MGMT_FILS_SHA256 OR WPA_KEY_MGMT_FT_FILS_SHA256) \<noteq> 0)"

definition wpa_key_mgmt_sha384 :: "u32 \<Rightarrow> bool" where
  "wpa_key_mgmt_sha384 akm = (akm AND (WPA_KEY_MGMT_IEEE8021X_SUITE_B_192 OR
     WPA_KEY_MGMT_FT_IEEE8021X_SHA384 OR WPA_KEY_MGMT_FILS_SHA384 OR WPA_KEY_MGMT_FT_FILS_SHA384 OR
     WPA_KEY_MGMT_IEEE8021X_SHA384) \<noteq> 0)"

definition wpa_key_mgmt_suite_b :: "u32 \<Rightarrow> bool" where
  "wpa_key_mgmt_suite_b akm =
     (akm AND (WPA_KEY_MGMT_IEEE8021X_SUITE_B OR WPA_KEY_MGMT_IEEE8021X_SUITE_B_192) \<noteq> 0)"

text \<open>The HMACs of the crypto library, key and message to digest.\<close>

record hmacs =
  hmac_sha1 :: "bytes \<Rightarrow> bytes \<Rightarrow> bytes"
  hmac_sha256 :: "bytes \<Rightarrow> bytes \<Rightarrow> bytes"
  hmac_sha384 :: "bytes \<Rightarrow> bytes \<Rightarrow> bytes"

definition pmk_name :: bytes where
  "pmk_name = map (\<lambda>c. of_nat (of_char c)) ''PMK Name''"

definition rsn_pmkid :: "hmacs \<Rightarrow> bytes \<Rightarrow> bytes \<Rightarrow> bytes \<Rightarrow> u32 \<Rightarrow> bytes" where
  "rsn_pmkid hm key aa addr akm =
     take PMKID_LEN
       (if wpa_key_mgmt_sha384 akm then hmac_sha384 hm key (pmk_name @ aa @ addr)
        else if wpa_key_mgmt_sha256 akm then hmac_sha256 hm key (pmk_name @ aa @ addr)
        else hmac_sha1 hm key (pmk_name @ aa @ addr))"

text \<open>The build with \<open>CONFIG_SUITEB\<close> and \<open>CONFIG_SUITEB192\<close>, and keyed hashes that succeed: on failure the code leaves the PMKID unset.\<close>

definition rsn_pmkid_suite_b :: "hmacs \<Rightarrow> bytes \<Rightarrow> bytes \<Rightarrow> bytes \<Rightarrow> bytes" where
  "rsn_pmkid_suite_b hm kc aa addr = take PMKID_LEN (hmac_sha256 hm kc (pmk_name @ aa @ addr))"

definition rsn_pmkid_suite_b_192 :: "hmacs \<Rightarrow> bytes \<Rightarrow> bytes \<Rightarrow> bytes \<Rightarrow> bytes" where
  "rsn_pmkid_suite_b_192 hm kc aa addr = take PMKID_LEN (hmac_sha384 hm kc (pmk_name @ aa @ addr))"

section \<open>Creating and adding entries\<close>

definition zero_entry :: rsn_pmksa_cache_entry where
  "zero_entry = \<lparr>next_link = None, hnext_link = None, pmkid = replicate PMKID_LEN 0, pmk = [], kck = [],
     expiration = 0, akmp = 0, spa = replicate 6 0, identity = None, cui = None, radius_class = [],
     eap_type_authsrv = 0, vlan_desc = None, opportunistic = False, acct_multi_session_id = 0\<rparr>"

text \<open>
  The contents of a new entry, or \<open>None\<close> where the code returns NULL before it allocates.  \<open>pid\<close>
  and \<open>kc\<close> are \<open>None\<close> for NULL.
\<close>

definition pmksa_entry_contents :: "hmacs \<Rightarrow> int \<Rightarrow> bytes \<Rightarrow> bytes option \<Rightarrow> bytes option \<Rightarrow> bytes \<Rightarrow> bytes \<Rightarrow>
    int \<Rightarrow> eapol_session option \<Rightarrow> u32 \<Rightarrow> rsn_pmksa_cache_entry option" where
  "pmksa_entry_contents hm now key pid kc aa addr session_timeout eapol akm =
     (if length key > PMK_LEN_MAX then None
      else if wpa_key_mgmt_suite_b akm \<and> kc = None then None
      else
        let e = zero_entry\<lparr>pmk := key\<rparr>;
            e = (case kc of
                   Some k \<Rightarrow> if length k \<noteq> 0 \<and> length k < WPA_KCK_MAX_LEN then e\<lparr>kck := k\<rparr> else e
                 | None \<Rightarrow> e);
            e = e\<lparr>pmkid :=
                   (case pid of
                      Some p \<Rightarrow> p
                    | None \<Rightarrow>
                        if akm = WPA_KEY_MGMT_IEEE8021X_SUITE_B_192
                        then rsn_pmkid_suite_b_192 hm (the kc) aa addr
                        else if wpa_key_mgmt_suite_b akm then rsn_pmkid_suite_b hm (the kc) aa addr
                        else rsn_pmkid hm key aa addr akm)\<rparr>;
            e = e\<lparr>expiration := now + (if session_timeout > 0 then session_timeout
                                       else dot11RSNAConfigPMKLifetime),
                  akmp := akm, spa := addr\<rparr>
        in Some (pmksa_cache_from_eapol_data e eapol))"

text \<open>
  The allocator is the argument \<open>fresh\<close>: the address of the new entry, or \<open>None\<close> when \<open>os_zalloc\<close>
  fails.  The result is the entry, or \<open>None\<close> for NULL, with the cache.
\<close>

definition pmksa_cache_auth_create_entry :: "hmacs \<Rightarrow> ref option \<Rightarrow> int \<Rightarrow> bytes \<Rightarrow> bytes option \<Rightarrow> bytes option \<Rightarrow>
    bytes \<Rightarrow> bytes \<Rightarrow> int \<Rightarrow> eapol_session option \<Rightarrow> u32 \<Rightarrow> rsn_pmksa_cache \<Rightarrow> ref option \<times> rsn_pmksa_cache" where
  "pmksa_cache_auth_create_entry hm fresh now key pid kc aa addr session_timeout eapol akm c =
     (case (pmksa_entry_contents hm now key pid kc aa addr session_timeout eapol akm, fresh) of
        (Some e, Some r) \<Rightarrow> (Some r, c\<lparr>mem := (mem c)(r \<mapsto> e)\<rparr>)
      | _ \<Rightarrow> (None, c))"

definition ether_addr_equal :: "bytes \<Rightarrow> bytes \<Rightarrow> bool" where
  "ether_addr_equal a b \<longleftrightarrow> a = b"

text \<open>The tests of the two searches of \<open>pmksa_cache_auth_get\<close>.\<close>

definition addr_matches :: "bytes option \<Rightarrow> rsn_pmksa_cache_entry \<Rightarrow> bool" where
  "addr_matches addr e = (case addr of None \<Rightarrow> True | Some a \<Rightarrow> ether_addr_equal (spa e) a)"

definition hash_matches :: "bytes option \<Rightarrow> bytes \<Rightarrow> rsn_pmksa_cache_entry \<Rightarrow> bool" where
  "hash_matches addr p e = (addr_matches addr e \<and> pmkid e = p)"

text \<open>The search loops: the first entry along a link that a test accepts.\<close>

partial_function (option) find_loop :: "(rsn_pmksa_cache_entry \<Rightarrow> ref option) \<Rightarrow> store \<Rightarrow>
    (rsn_pmksa_cache_entry \<Rightarrow> bool) \<Rightarrow> ref option \<Rightarrow> ref option option" where
  "find_loop nx m q entry =
     (if entry = None then Some None
      else do { e \<leftarrow> m (the entry); if q e then Some entry else find_loop nx m q (nx e) })"

definition pmksa_cache_auth_get :: "rsn_pmksa_cache \<Rightarrow> bytes option \<Rightarrow> bytes option \<Rightarrow> ref option option" where
  "pmksa_cache_auth_get c addr p =
     (case p of
        Some p \<Rightarrow> find_loop hnext_link (mem c) (hash_matches addr p) (pmkid_hash c (PMKID_HASH p))
      | None \<Rightarrow> find_loop next_link (mem c) (addr_matches addr) (pmksa c))"

definition pmksa_cache_auth_add_entry :: "int \<Rightarrow> rsn_pmksa_cache \<Rightarrow> ref option \<Rightarrow> (int \<times> rsn_pmksa_cache) option" where
  "pmksa_cache_auth_add_entry now c entry =
     (case entry of
        None \<Rightarrow> Some (- 1, c)
      | Some r \<Rightarrow> do {
          e \<leftarrow> mem c r;
          pos \<leftarrow> pmksa_cache_auth_get c (Some (spa e)) None;
          c \<leftarrow> (case pos of Some p \<Rightarrow> pmksa_cache_free_entry c p | None \<Rightarrow> Some c);
          c \<leftarrow> (case pmksa c of
                  Some old \<Rightarrow> if pmksa_count c \<ge> pmksa_cache_max_entries
                              then pmksa_cache_free_entry c old else Some c
                | None \<Rightarrow> Some c);
          c \<leftarrow> pmksa_cache_link_entry now c r;
          Some (0, c)
        })"

definition pmksa_cache_auth_add :: "hmacs \<Rightarrow> ref option \<Rightarrow> int \<Rightarrow> int \<Rightarrow> bytes \<Rightarrow> bytes option \<Rightarrow> bytes option \<Rightarrow>
    bytes \<Rightarrow> bytes \<Rightarrow> int \<Rightarrow> eapol_session option \<Rightarrow> u32 \<Rightarrow> rsn_pmksa_cache \<Rightarrow>
    (ref option \<times> rsn_pmksa_cache) option" where
  "pmksa_cache_auth_add hm fresh now now' key pid kc aa addr session_timeout eapol akm c =
     (let (entry, c) = pmksa_cache_auth_create_entry hm fresh now key pid kc aa addr session_timeout eapol akm c
      in do {
           (ret, c) \<leftarrow> pmksa_cache_auth_add_entry now' c entry;
           Some (if ret < 0 then None else entry, c)
         })"

text \<open>The copy that opportunistic key caching makes of an entry of another cache.\<close>

definition okc_contents :: "rsn_pmksa_cache_entry \<Rightarrow> bytes \<Rightarrow> rsn_pmksa_cache_entry" where
  "okc_contents old p =
     zero_entry\<lparr>pmkid := p, pmk := pmk old, expiration := expiration old, akmp := akmp old, spa := spa old,
       opportunistic := True, identity := identity old, cui := cui old, radius_class := radius_class old,
       eap_type_authsrv := eap_type_authsrv old, vlan_desc := vlan_desc old\<rparr>"

definition pmksa_cache_add_okc :: "ref option \<Rightarrow> int \<Rightarrow> rsn_pmksa_cache \<Rightarrow> rsn_pmksa_cache_entry \<Rightarrow> bytes \<Rightarrow>
    (ref option \<times> rsn_pmksa_cache) option" where
  "pmksa_cache_add_okc fresh now c old p =
     (case fresh of
        None \<Rightarrow> Some (None, c)
      | Some r \<Rightarrow> do {
          c \<leftarrow> pmksa_cache_link_entry now (c\<lparr>mem := (mem c)(r \<mapsto> okc_contents old p)\<rparr>) r;
          Some (Some r, c)
        })"

definition okc_match :: "hmacs \<Rightarrow> bytes \<Rightarrow> bytes \<Rightarrow> bytes \<Rightarrow> rsn_pmksa_cache_entry \<Rightarrow> bool" where
  "okc_match hm aa addr p e =
     (if \<not> ether_addr_equal (spa e) addr then False
      else if wpa_key_mgmt_sae (akmp e) \<or> wpa_key_mgmt_fils (akmp e) then pmkid e = p
      else (if akmp e = WPA_KEY_MGMT_IEEE8021X_SUITE_B_192 \<and> length (kck e) > 0
            then rsn_pmkid_suite_b_192 hm (kck e) aa addr
            else if wpa_key_mgmt_suite_b (akmp e) \<and> length (kck e) > 0
            then rsn_pmkid_suite_b hm (kck e) aa addr
            else rsn_pmkid hm (pmk e) aa addr (akmp e)) = p)"

definition pmksa_cache_get_okc :: "hmacs \<Rightarrow> rsn_pmksa_cache \<Rightarrow> bytes \<Rightarrow> bytes \<Rightarrow> bytes \<Rightarrow> ref option option" where
  "pmksa_cache_get_okc hm c aa addr p = find_loop next_link (mem c) (okc_match hm aa addr p) (pmksa c)"

section \<open>Initialization, removal on request\<close>

definition pmksa_cache_auth_init :: rsn_pmksa_cache where
  "pmksa_cache_auth_init =
     \<lparr>pmkid_hash = \<lambda>_. None, pmksa = None, pmksa_count = 0, mem = Map.empty, free_cbs = [], timer = None\<rparr>"

partial_function (option) deinit_loop :: "rsn_pmksa_cache \<Rightarrow> ref option \<Rightarrow> rsn_pmksa_cache option" where
  "deinit_loop c entry =
     (case entry of
        None \<Rightarrow> Some c
      | Some r \<Rightarrow> do {
          e \<leftarrow> mem c r;
          c' \<leftarrow> free_entry_mem r c;
          deinit_loop c' (next_link e)
        })"

definition pmksa_cache_auth_deinit :: "rsn_pmksa_cache \<Rightarrow> rsn_pmksa_cache option" where
  "pmksa_cache_auth_deinit c = do {
     c \<leftarrow> deinit_loop c (pmksa c);
     Some (c\<lparr>timer := None, pmksa_count := 0, pmksa := None, pmkid_hash := \<lambda>_. None\<rparr>)
   }"

record radius_das_attrs =
  sta_addr :: "bytes option"
  user_name :: "bytes option"
  acct_session_id :: "bytes option"
  das_multi_session_id :: "bytes option"
  das_cui :: "bytes option"

text \<open>\<open>%016llX\<close>\<close>

definition hex_digit :: "nat \<Rightarrow> u8" where
  "hex_digit d = (if d < 10 then 48 + of_nat d else 55 + of_nat d)"

definition hex16 :: "u64 \<Rightarrow> bytes" where
  "hex16 x = map (\<lambda>i. hex_digit (unat x div 16 ^ i mod 16)) (rev [0..<16])"

definition das_attr_match :: "rsn_pmksa_cache_entry \<Rightarrow> radius_das_attrs \<Rightarrow> int" where
  "das_attr_match e a =
     (if sta_addr a \<noteq> None \<and> \<not> ether_addr_equal (the (sta_addr a)) (spa e) then 0
      else let n = (if sta_addr a \<noteq> None then 1 else 0) in
      if das_multi_session_id a \<noteq> None \<and> length (the (das_multi_session_id a)) \<noteq> 16 then 0
      else if das_multi_session_id a \<noteq> None \<and> the (das_multi_session_id a) \<noteq> hex16 (acct_multi_session_id e) then 0
      else let n = (if das_multi_session_id a \<noteq> None then n + 1 else n) in
      if das_cui a \<noteq> None \<and> (cui e = None \<or> the (das_cui a) \<noteq> the (cui e)) then 0
      else let n = (if das_cui a \<noteq> None then n + 1 else n) in
      if user_name a \<noteq> None \<and> (identity e = None \<or> the (user_name a) \<noteq> the (identity e)) then 0
      else if user_name a \<noteq> None then n + 1 else n)"

partial_function (option) das_loop :: "radius_das_attrs \<Rightarrow> nat \<Rightarrow> rsn_pmksa_cache \<Rightarrow> ref option \<Rightarrow>
    (nat \<times> rsn_pmksa_cache) option" where
  "das_loop a found c entry =
     (if entry = None then Some (found, c)
      else do {
        e \<leftarrow> mem c (the entry);
        if das_attr_match e a \<noteq> 0
        then do { c' \<leftarrow> pmksa_cache_free_entry c (the entry); das_loop a (found + 1) c' (next_link e) }
        else das_loop a found c (next_link e)
      })"

definition pmksa_cache_auth_radius_das_disconnect :: "rsn_pmksa_cache \<Rightarrow> radius_das_attrs \<Rightarrow>
    (int \<times> rsn_pmksa_cache) option" where
  "pmksa_cache_auth_radius_das_disconnect c a =
     (if acct_session_id a \<noteq> None then Some (- 1, c)
      else do {
        (found, c) \<leftarrow> das_loop a 0 c (pmksa c);
        Some (if found \<noteq> 0 then 0 else - 1, c)
      })"

end
