(* ===== verification/PmksaRefine.thy ===== *)
theory PmksaRefine
  imports PmksaCache "HOL-Library.Multiset"
begin

text \<open>
  The PMKSA cache of \<open>PmksaCache\<close> implements a list of entries ordered by expiration.  \<open>chain\<close> reads
  a linked list from the store; the locale \<open>link\<close> states what a link field promises (the two fields
  of an entry are its interpretations) and proves unlinking and inserting once for both lists;
  \<open>cache_ok\<close> is the invariant of the two lists and the counter, and each operation is shown to
  return, to keep it and to have its effect on the abstract list.
\<close>

section \<open>Linked lists in the store\<close>

fun first_of :: "ref list \<Rightarrow> ref option" where
  "first_of [] = None"
| "first_of (r # rs) = Some r"

fun chain :: "(rsn_pmksa_cache_entry \<Rightarrow> ref option) \<Rightarrow> store \<Rightarrow> ref option \<Rightarrow> ref list \<Rightarrow> bool" where
  "chain nx m p [] = (p = None)"
| "chain nx m p (r # rs) = (p = Some r \<and> (\<exists>e. m r = Some e \<and> chain nx m (nx e) rs))"

lemma chain_first: "chain nx m p rs \<Longrightarrow> p = first_of rs"
  by (cases rs) auto

lemma chain_dom: "chain nx m p rs \<Longrightarrow> set rs \<subseteq> dom m"
  by (induction rs arbitrary: p) auto

lemma chain_suffix: "chain nx m p (xs @ ys) \<Longrightarrow> chain nx m (first_of ys) ys"
  by (induction xs arbitrary: p) (auto dest: chain_first)

lemma chain_frame:
  "(\<And>r. r \<in> set rs \<Longrightarrow> map_option nx (m' r) = map_option nx (m r)) \<Longrightarrow> chain nx m' p rs = chain nx m p rs"
proof (induction rs arbitrary: p)
  case (Cons r rs)
  have "map_option nx (m' r) = map_option nx (m r)" using Cons.prems by simp
  moreover have "chain nx m' q rs = chain nx m q rs" for q using Cons by simp
  ultimately show ?case by (cases "m r"; cases "m' r") auto
qed simp

text \<open>What a link field promises: reading after writing, and that the last write counts.\<close>

locale link =
  fixes nx :: "rsn_pmksa_cache_entry \<Rightarrow> ref option"
    and st :: "ref option \<Rightarrow> rsn_pmksa_cache_entry \<Rightarrow> rsn_pmksa_cache_entry"
  assumes nx_st: "nx (st v e) = v"
    and st_st: "st w (st v e) = st w e"
begin

text \<open>Two stores that differ only in this link, and only at the addresses \<open>A\<close>.\<close>

definition relinked :: "ref set \<Rightarrow> store \<Rightarrow> store \<Rightarrow> bool" where
  "relinked A m m' \<longleftrightarrow> (\<forall>r. map_option (st None) (m' r) = map_option (st None) (m r)) \<and> (\<forall>r. r \<notin> A \<longrightarrow> m' r = m r)"

lemma relinked_refl: "relinked A m m"
  by (simp add: relinked_def)

lemma relinked_upd: "m r = Some e \<Longrightarrow> r \<in> A \<Longrightarrow> relinked A m (m(r \<mapsto> st v e))"
  by (simp add: relinked_def st_st)

lemma relinked_upd2:
  assumes "m r = Some e" "m q = Some f" "r \<noteq> q"
  shows "relinked {r, q} m (m(r \<mapsto> st v e, q \<mapsto> st w f))"
  using assms by (auto simp: relinked_def st_st)

lemma relinked_other:
  assumes "relinked A m m'" "\<And>v e. g (st v e) = g e"
  shows "map_option g (m' r) = map_option g (m r)"
proof -
  have "map_option (st None) (m' r) = map_option (st None) (m r)" using assms(1) by (simp add: relinked_def)
  then have "map_option g (map_option (st None) (m' r)) = map_option g (map_option (st None) (m r))" by simp
  then show ?thesis by (simp add: option.map_comp o_def assms(2))
qed

lemma relinked_outside: "relinked A m m' \<Longrightarrow> r \<notin> A \<Longrightarrow> m' r = m r"
  by (simp add: relinked_def)

lemma relinked_dom: "relinked A m m' \<Longrightarrow> dom m' = dom m"
proof (rule set_eqI)
  fix r
  assume "relinked A m m'"
  then have "map_option (st None) (m' r) = map_option (st None) (m r)" by (simp add: relinked_def)
  then show "r \<in> dom m' \<longleftrightarrow> r \<in> dom m" by (cases "m r"; cases "m' r") auto
qed

lemma unlink_walk:
  "chain nx m pos (ys @ r # zs) \<Longrightarrow> r \<notin> set ys \<Longrightarrow>
   unlink nx st m r first prev pos =
     (case (if ys = [] then prev else Some (last ys)) of
        None \<Rightarrow> Some (m, nx (the (m r)))
      | Some q \<Rightarrow> Option.bind (m q) (\<lambda>f. Some (m(q \<mapsto> st (nx (the (m r))) f), first)))"
proof (induction ys arbitrary: pos prev)
  case Nil
  then obtain e where "pos = Some r" "m r = Some e" by auto
  then show ?case by (subst unlink.simps) (simp split: option.split)
next
  case (Cons y ys)
  then obtain e where e: "pos = Some y" "m y = Some e" "chain nx m (nx e) (ys @ r # zs)" "y \<noteq> r" by auto
  show ?case
    using Cons.IH [OF e(3), of pos] Cons.prems(2) e by (subst unlink.simps) auto
qed

lemma chain_bypass:
  "chain nx m p (xs @ q # r # zs) \<Longrightarrow> distinct (xs @ q # r # zs) \<Longrightarrow> m q = Some f \<Longrightarrow> m r = Some e \<Longrightarrow>
   chain nx (m(q \<mapsto> st (nx e) f)) p (xs @ q # zs)"
proof (induction xs arbitrary: p)
  case Nil
  then have "chain nx m (nx e) zs" by auto
  then have "chain nx (m(q \<mapsto> st (nx e) f)) (nx e) zs" using Nil by (subst chain_frame) auto
  with Nil show ?case by (auto simp: nx_st fun_upd_def)
next
  case (Cons x xs)
  then obtain g where g: "p = Some x" "m x = Some g" "chain nx m (nx g) (xs @ q # r # zs)" by auto
  have "x \<noteq> q" using Cons.prems(2) by auto
  with Cons.IH [OF g(3)] Cons.prems g show ?case by auto
qed

lemma unlink_ok:
  assumes "chain nx m p (xs @ r # zs)" "distinct (xs @ r # zs)"
  shows "\<exists>m' p'. unlink nx st m r p None p = Some (m', p') \<and> chain nx m' p' (xs @ zs) \<and> relinked (set xs) m m'"
proof (cases xs rule: rev_cases)
  case Nil
  with assms obtain e where "m r = Some e" "chain nx m (nx e) zs" by auto
  with Nil unlink_walk [of m p "[]" r zs p None] assms show ?thesis by (auto simp: relinked_refl)
next
  case (snoc ys q)
  have c: "chain nx m p (ys @ q # r # zs)" and d: "distinct (ys @ q # r # zs)" using assms snoc by auto
  obtain f e where m: "m q = Some f" "m r = Some e" using chain_dom [OF c] by auto
  have "unlink nx st m r p None p = Some (m(q \<mapsto> st (nx e) f), p)"
    using unlink_walk [of m p "ys @ [q]" r zs p None] c d m by auto
  with chain_bypass [OF c d m] relinked_upd [of m q f "set xs"] m snoc show ?thesis by auto
qed

lemma unlink_member:
  assumes "chain nx m p rs" "distinct rs" "r \<in> set rs"
  shows "\<exists>m' p'. unlink nx st m r p None p = Some (m', p') \<and> chain nx m' p' (remove1 r rs) \<and> relinked (set rs) m m'"
proof -
  obtain xs ys where xy: "rs = xs @ r # ys" using assms(3) by (meson split_list)
  with unlink_ok [of m p xs r ys] assms obtain m' p' where
    u: "unlink nx st m r p None p = Some (m', p')" "chain nx m' p' (xs @ ys)" "relinked (set xs) m m'" by blast
  moreover have "remove1 r rs = xs @ ys" using assms(2) unfolding xy by (simp add: remove1_append)
  moreover have "relinked (set rs) m m'" using u(3) by (auto simp: relinked_def xy)
  ultimately show ?thesis by auto
qed

lemma chain_insert:
  "chain nx m p (xs @ q # zs) \<Longrightarrow> r \<notin> set (xs @ q # zs) \<Longrightarrow> distinct (xs @ q # zs) \<Longrightarrow> m q = Some f \<Longrightarrow>
   chain nx (m(r \<mapsto> st (nx f) e, q \<mapsto> st (Some r) f)) p (xs @ q # r # zs)"
proof (induction xs arbitrary: p)
  case Nil
  then have "chain nx m (nx f) zs" by auto
  then have "chain nx (m(r \<mapsto> st (nx f) e, q \<mapsto> st (Some r) f)) (nx f) zs" using Nil by (subst chain_frame) auto
  with Nil show ?case by (auto simp: nx_st fun_upd_def)
next
  case (Cons x xs)
  then obtain g where g: "p = Some x" "m x = Some g" "chain nx m (nx g) (xs @ q # zs)" by auto
  have "x \<noteq> q" "x \<noteq> r" using Cons.prems by auto
  with Cons.IH [OF g(3)] Cons.prems g show ?case by auto
qed

lemma chain_push:
  assumes "chain nx m p zs" "r \<notin> set zs"
  shows "chain nx (m(r \<mapsto> st p e)) (Some r) (r # zs)"
proof -
  have "chain nx (m(r \<mapsto> st p e)) p zs" using assms by (subst chain_frame) auto
  then show ?thesis by (simp add: nx_st)
qed

end

interpretation nl: link next_link set_next
  by unfold_locales (simp_all add: set_next_def)

interpretation hl: link hnext_link set_hnext
  by unfold_locales (simp_all add: set_hnext_def)

section \<open>The search loops\<close>

lemma find_loop_ok:
  "chain nx m p rs \<Longrightarrow> find_loop nx m q p = Some (find (\<lambda>r. q (the (m r))) rs)"
proof (induction rs arbitrary: p)
  case Nil
  then show ?case by (subst find_loop.simps) simp
next
  case (Cons r rs)
  then obtain e where e: "p = Some r" "m r = Some e" "chain nx m (nx e) rs" by auto
  with Cons.IH [OF e(3)] show ?case by (subst find_loop.simps) simp
qed

section \<open>The invariant\<close>

text \<open>
  \<open>cache_ok X c L H\<close>: \<open>L\<close> is the list by expiration and \<open>H h\<close> hash chain \<open>h\<close>; both hold the same
  entries, each chain those of its hash; the list is sorted, the counter is its length, and the
  allocated entries are those of the list and the unlinked ones \<open>X\<close>.
\<close>

definition content :: "rsn_pmksa_cache_entry \<Rightarrow> rsn_pmksa_cache_entry" where
  "content e = set_next None (set_hnext None e)"

definition entry_at :: "store \<Rightarrow> ref \<Rightarrow> rsn_pmksa_cache_entry" where
  "entry_at m r = content (the (m r))"

definition in_bucket :: "store \<Rightarrow> nat \<Rightarrow> ref list \<Rightarrow> ref set" where
  "in_bucket m h L = {r \<in> set L. PMKID_HASH (pmkid (entry_at m r)) = h}"

definition cache_ok :: "ref set \<Rightarrow> rsn_pmksa_cache \<Rightarrow> ref list \<Rightarrow> (nat \<Rightarrow> ref list) \<Rightarrow> bool" where
  "cache_ok X c L H \<longleftrightarrow>
     chain next_link (mem c) (pmksa c) L \<and> (\<forall>h. chain hnext_link (mem c) (pmkid_hash c h) (H h)) \<and>
     distinct L \<and> (\<forall>h. distinct (H h) \<and> set (H h) = in_bucket (mem c) h L) \<and>
     sorted (map (\<lambda>r. expiration (entry_at (mem c) r)) L) \<and>
     pmksa_count c = int (length L) \<and> dom (mem c) = set L \<union> X \<and> set L \<inter> X = {}"

lemma content_simps [simp]:
  "expiration (content e) = expiration e" "pmkid (content e) = pmkid e" "spa (content e) = spa e"
  "pmk (content e) = pmk e" "akmp (content e) = akmp e" "kck (content e) = kck e"
  "identity (content e) = identity e" "cui (content e) = cui e"
  "acct_multi_session_id (content e) = acct_multi_session_id e"
  "content (set_next v e) = content e" "content (set_hnext v e) = content e" "content (content e) = content e"
  by (simp_all add: content_def set_next_def set_hnext_def)

lemma link_indep [simp]: "next_link (set_hnext v e) = next_link e" "hnext_link (set_next v e) = hnext_link e"
  by (simp_all add: set_next_def set_hnext_def)

lemma tests_content [simp]:
  "addr_matches a (content e) = addr_matches a e" "hash_matches a p (content e) = hash_matches a p e"
  "okc_match hm aa b p (content e) = okc_match hm aa b p e" "das_attr_match (content e) d = das_attr_match e d"
  by (simp_all add: addr_matches_def hash_matches_def okc_match_def das_attr_match_def split: option.split)

lemma same_entry: "map_option content (m' r) = map_option content (m r) \<Longrightarrow> entry_at m' r = entry_at m r"
  by (cases "m r"; cases "m' r") (auto simp: entry_at_def)

lemma chain_remove: "chain nx m p rs \<Longrightarrow> r \<notin> set rs \<Longrightarrow> chain nx (m(r := None)) p rs"
  by (subst chain_frame) auto

text \<open>A store that keeps the contents of the entries of a list keeps what the invariant says of them.\<close>

lemma contents_kept:
  assumes "\<And>r. r \<in> set L \<Longrightarrow> entry_at m' r = entry_at m r"
  shows "map (\<lambda>r. f (entry_at m' r)) L = map (\<lambda>r. f (entry_at m r)) L" "in_bucket m' h L = in_bucket m h L"
  using assms by (auto simp: in_bucket_def)

lemma in_bucket_remove1: "distinct L \<Longrightarrow> in_bucket m h (remove1 r L) = in_bucket m h L - {r}"
  by (auto simp: in_bucket_def)

text \<open>Freeing: first the effect on the store, then the invariant.\<close>

lemma hash_chains_relinked:
  assumes ok: "cache_ok X c L H" and r: "r \<in> set (H h)"
  shows "\<exists>m h1. unlink hnext_link set_hnext (mem c) r (pmkid_hash c h) None (pmkid_hash c h) = Some (m, h1) \<and>
    (\<forall>k. chain hnext_link m (((pmkid_hash c)(h := h1)) k) ((H(h := remove1 r (H h))) k)) \<and>
    hl.relinked (set (H h)) (mem c) m"
proof -
  have d: "\<And>h. distinct (H h)" "\<And>h. set (H h) = in_bucket (mem c) h L"
    and hc: "\<And>h. chain hnext_link (mem c) (pmkid_hash c h) (H h)" using ok by (auto simp: cache_ok_def)
  obtain m h1 where u: "unlink hnext_link set_hnext (mem c) r (pmkid_hash c h) None (pmkid_hash c h) = Some (m, h1)"
    and c1: "chain hnext_link m h1 (remove1 r (H h))" and r1: "hl.relinked (set (H h)) (mem c) m"
    using hl.unlink_member [OF hc d(1) r] by blast
  have "chain hnext_link m (pmkid_hash c k) (H k)" if "k \<noteq> h" for k
  proof -
    have "q \<notin> set (H h)" if "q \<in> set (H k)" for q using that \<open>k \<noteq> h\<close> by (auto simp: d(2) in_bucket_def)
    then show ?thesis using hc [of k] by (subst chain_frame) (auto simp: hl.relinked_outside [OF r1])
  qed
  with u c1 r1 show ?thesis by auto
qed

lemma free_entry_store:
  assumes ok: "cache_ok X c L H" and e: "mem c r = Some e" and h: "h = PMKID_HASH (pmkid e)" and r: "r \<in> set L"
  shows "\<exists>m h1 p. pmksa_cache_free_entry c r = Some (c\<lparr>pmksa_count := pmksa_count c - 1,
       free_cbs := free_cbs c @ [r], pmkid_hash := (pmkid_hash c)(h := h1), pmksa := p, mem := m(r := None)\<rparr>) \<and>
    chain next_link m p (remove1 r L) \<and>
    (\<forall>k. chain hnext_link m (((pmkid_hash c)(h := h1)) k) ((H(h := remove1 r (H h))) k)) \<and>
    dom m = dom (mem c) \<and> (\<forall>q. entry_at m q = entry_at (mem c) q)"
proof -
  have rh: "r \<in> set (H h)" and d: "distinct L" and nc: "chain next_link (mem c) (pmksa c) L"
    using ok r e h by (auto simp: cache_ok_def in_bucket_def entry_at_def)
  obtain m1 h1 where u1: "unlink hnext_link set_hnext (mem c) r (pmkid_hash c h) None (pmkid_hash c h) = Some (m1, h1)"
    and c1: "\<And>k. chain hnext_link m1 (((pmkid_hash c)(h := h1)) k) ((H(h := remove1 r (H h))) k)"
    and r1: "hl.relinked (set (H h)) (mem c) m1"
    using hash_chains_relinked [OF ok rh] by blast
  have "chain next_link m1 (pmksa c) L" using nc by (subst chain_frame) (simp_all add: hl.relinked_other [OF r1])
  then obtain m2 p2 where u2: "unlink next_link set_next m1 r (pmksa c) None (pmksa c) = Some (m2, p2)"
    and c2: "chain next_link m2 p2 (remove1 r L)" and r2: "nl.relinked (set L) m1 m2"
    using nl.unlink_member [OF _ d r] by blast
  have keep: "entry_at m2 q = entry_at (mem c) q" for q
  proof (rule same_entry)
    have "map_option content (m2 q) = map_option content (m1 q)" by (rule nl.relinked_other [OF r2]) simp
    also have "\<dots> = map_option content (mem c q)" by (rule hl.relinked_other [OF r1]) simp
    finally show "map_option content (m2 q) = map_option content (mem c q)" .
  qed
  have c3: "chain hnext_link m2 (((pmkid_hash c)(h := h1)) k) ((H(h := remove1 r (H h))) k)" for k
    using c1 [of k] by (subst chain_frame) (simp_all add: nl.relinked_other [OF r2])
  have dm: "dom m2 = dom (mem c)" using nl.relinked_dom [OF r2] hl.relinked_dom [OF r1] by simp
  then have "m2 r \<noteq> None" using e by blast
  then show ?thesis
    using u1 u2 c2 c3 keep dm
    by (intro exI [of _ m2] exI [of _ h1] exI [of _ p2])
      (simp add: pmksa_cache_free_entry_def e h Let_def free_entry_mem_def)
qed

lemma cache_ok_remove:
  assumes ok: "cache_ok X c L H" and r: "r \<in> set L" and e: "mem c r = Some e" "h = PMKID_HASH (pmkid e)"
    and m: "chain next_link m p (remove1 r L)" "\<And>k. chain hnext_link m (f k) ((H(h := remove1 r (H h))) k)"
      "dom m = dom (mem c)" "\<And>q. entry_at m q = entry_at (mem c) q"
  shows "cache_ok X (c\<lparr>pmksa_count := pmksa_count c - 1, free_cbs := w, pmkid_hash := f, pmksa := p,
    mem := m(r := None)\<rparr>) (remove1 r L) (H(h := remove1 r (H h)))"
proof -
  let ?H = "H(h := remove1 r (H h))" and ?m = "m(r := None)"
  have d: "distinct L" "\<And>h. distinct (H h)" "\<And>h. set (H h) = in_bucket (mem c) h L" using ok by (auto simp: cache_ok_def)
  have keep: "entry_at ?m q = entry_at (mem c) q" if "q \<noteq> r" for q using that m(4) by (simp add: entry_at_def)
  have b: "set (?H k) = in_bucket ?m k (remove1 r L) \<and> r \<notin> set (?H k)" for k
  proof -
    have "in_bucket ?m k (remove1 r L) = in_bucket (mem c) k L - {r}"
      using contents_kept(2) [of "remove1 r L" ?m "mem c" k] keep d(1) by (simp add: in_bucket_remove1)
    moreover have "r \<in> in_bucket (mem c) k L \<longleftrightarrow> k = h" using e r by (auto simp: in_bucket_def entry_at_def)
    ultimately show ?thesis using d(2,3) by auto
  qed
  have n: "chain next_link ?m p (remove1 r L)" using m(1) d(1) by (intro chain_remove) simp_all
  have hc: "chain hnext_link ?m (f k) (?H k)" for k using m(2) [of k] b [of k] by (intro chain_remove) blast+
  have s: "sorted (map (\<lambda>q. expiration (entry_at ?m q)) (remove1 r L))"
  proof -
    have "map (\<lambda>q. expiration (entry_at ?m q)) (remove1 r L) = map (\<lambda>q. expiration (entry_at (mem c) q)) (remove1 r L)"
      by (rule contents_kept(1), rule keep) (use d(1) in auto)
    moreover have "sorted (map (\<lambda>q. expiration (entry_at (mem c) q)) (remove1 r L))"
      using ok by (intro sorted_map_remove1) (simp add: cache_ok_def)
    ultimately show ?thesis by (simp only:)
  qed
  have l: "pmksa_count c - 1 = int (length (remove1 r L))"
  proof -
    have "length L > 0" using r by auto
    then show ?thesis using ok r by (simp add: cache_ok_def length_remove1 of_nat_diff Suc_leI)
  qed
  have "dom ?m = set (remove1 r L) \<union> X \<and> set (remove1 r L) \<inter> X = {}"
    using ok d(1) r m(3) by (auto simp: cache_ok_def)
  moreover have "distinct (?H k)" for k using d(2) by simp
  ultimately show ?thesis using n hc s l d(1) b by (simp add: cache_ok_def)
qed

lemma cache_ok_mem: "cache_ok X c L H \<Longrightarrow> r \<in> set L \<Longrightarrow> \<exists>e. mem c r = Some e"
  unfolding cache_ok_def by blast

lemma free_entry_ok:
  assumes ok: "cache_ok X c L H" and r: "r \<in> set L"
  shows "\<exists>c' H'. pmksa_cache_free_entry c r = Some c' \<and> cache_ok X c' (remove1 r L) H' \<and>
    (\<forall>q. q \<noteq> r \<longrightarrow> entry_at (mem c') q = entry_at (mem c) q) \<and> timer c' = timer c \<and> free_cbs c' = free_cbs c @ [r]"
proof -
  obtain e where e: "mem c r = Some e" using cache_ok_mem [OF ok r] by blast
  let ?c = "\<lambda>m h1 p. c\<lparr>pmksa_count := pmksa_count c - 1, free_cbs := free_cbs c @ [r],
    pmkid_hash := (pmkid_hash c)(PMKID_HASH (pmkid e) := h1), pmksa := p, mem := m(r := None)\<rparr>"
  obtain m h1 p where f: "pmksa_cache_free_entry c r = Some (?c m h1 p)"
    and m: "chain next_link m p (remove1 r L)"
      "\<And>k. chain hnext_link m (((pmkid_hash c)(PMKID_HASH (pmkid e) := h1)) k)
         ((H(PMKID_HASH (pmkid e) := remove1 r (H (PMKID_HASH (pmkid e))))) k)"
      "dom m = dom (mem c)" "\<And>q. entry_at m q = entry_at (mem c) q"
    using free_entry_store [OF ok e refl r] by blast
  have "cache_ok X (?c m h1 p) (remove1 r L) (H(PMKID_HASH (pmkid e) := remove1 r (H (PMKID_HASH (pmkid e)))))"
    by (rule cache_ok_remove [OF ok r e refl m])
  moreover have "\<forall>q. q \<noteq> r \<longrightarrow> entry_at (mem (?c m h1 p)) q = entry_at (mem c) q" using m(4) by (simp add: entry_at_def)
  ultimately show ?thesis using f by force
qed

section \<open>Linking\<close>

lemma link_pos_ok:
  assumes "chain next_link m p rs"
  shows "link_pos m ex prev p =
    (let as = takeWhile (\<lambda>r. expiration (entry_at m r) \<le> ex) rs in Some (if as = [] then prev else Some (last as)))"
  using assms
proof (induction rs arbitrary: p prev)
  case Nil
  then show ?case by (subst link_pos.simps) simp
next
  case (Cons r rs)
  then obtain e where e: "p = Some r" "m r = Some e" "chain next_link m (next_link e) rs" by auto
  have x: "expiration (entry_at m r) = expiration e" by (simp add: entry_at_def e(2))
  show ?case
    using Cons.IH [OF e(3), of p] e x by (subst link_pos.simps) (simp add: Let_def)
qed

text \<open>The abstract list: insertion behind the entries that expire no later.\<close>

definition insert_by :: "('a \<Rightarrow> int) \<Rightarrow> 'a \<Rightarrow> 'a list \<Rightarrow> 'a list" where
  "insert_by f x xs = takeWhile (\<lambda>y. f y \<le> f x) xs @ x # dropWhile (\<lambda>y. f y \<le> f x) xs"

lemma insert_by_map: "map g (insert_by (\<lambda>y. f (g y)) x xs) = insert_by f (g x) (map g xs)"
  by (simp add: insert_by_def takeWhile_map dropWhile_map o_def)

lemma mset_insert_by: "mset (insert_by f x xs) = mset (x # xs)"
proof -
  have "mset (takeWhile P xs) + mset (dropWhile P xs) = mset xs" for P by (simp flip: mset_append)
  then show ?thesis by (simp add: insert_by_def)
qed

lemma insert_by_simps [simp]:
  "set (insert_by f x xs) = insert x (set xs)" "length (insert_by f x xs) = Suc (length xs)"
  "distinct (insert_by f x xs) \<longleftrightarrow> distinct xs \<and> x \<notin> set xs"
  using mset_eq_setD [OF mset_insert_by, of f x xs] mset_eq_length [OF mset_insert_by, of f x xs]
    mset_eq_imp_distinct_iff [OF mset_insert_by, of f x xs] by auto

lemma sorted_insert_by: "sorted (map f xs) \<Longrightarrow> sorted (map f (insert_by f x xs))"
proof (induction xs)
  case (Cons y ys)
  then have "sorted (map f (insert_by f x ys))" "\<forall>z \<in> set ys. f y \<le> f z" by auto
  then show ?case using Cons.prems by (fastforce simp: insert_by_def dest: set_takeWhileD set_dropWhileD)
qed (simp add: insert_by_def)

text \<open>Whether a nonempty cache has its timeout registered.\<close>

definition armed :: "rsn_pmksa_cache \<Rightarrow> bool" where
  "armed c \<longleftrightarrow> (pmksa c \<noteq> None \<longrightarrow> timer c \<noteq> None)"

lemma link_next_ok:
  assumes nc: "chain next_link m p L" and d: "distinct L" "r \<notin> set L" and e: "m r = Some e"
    and L: "L = as @ bs" and that: "pmksa c = p" "mem c = m"
  shows "\<exists>m' p'. link_after c (if as = [] then None else Some (last as)) r = Some (c\<lparr>mem := m', pmksa := p'\<rparr>) \<and>
     chain next_link m' p' (as @ r # bs) \<and> nl.relinked UNIV m m' \<and> p' \<noteq> None \<and> (as \<noteq> [] \<longrightarrow> p' = pmksa c)"
proof (cases as rule: rev_cases)
  case Nil
  then show ?thesis
    using nl.chain_push [of m p L r e] nc d L nl.relinked_upd [of m r e UNIV] e
    by (intro exI [of _ "m(r \<mapsto> set_next p e)"] exI [of _ "Some r"]) (auto simp: link_after_def that)
next
  case (snoc xs q)
  then have L': "chain next_link m p (xs @ q # bs)" "r \<notin> set (xs @ q # bs)" "distinct (xs @ q # bs)"
    using nc d L by auto
  obtain f where f: "m q = Some f" using chain_dom [OF L'(1)] by auto
  have q: "q \<noteq> r" and p: "p \<noteq> None" using L' by (cases xs; auto)+
  have "c\<lparr>mem := m(r \<mapsto> set_next (next_link f) e, q \<mapsto> set_next (Some r) f)\<rparr> =
      c\<lparr>mem := m(r \<mapsto> set_next (next_link f) e, q \<mapsto> set_next (Some r) f), pmksa := p\<rparr>" using that(1) by simp
  moreover have "nl.relinked UNIV m (m(r \<mapsto> set_next (next_link f) e, q \<mapsto> set_next (Some r) f))"
    using nl.relinked_upd2 [OF e f] q by (auto simp: nl.relinked_def)
  ultimately show ?thesis
    using nl.chain_insert [OF L' f, of e] q f p snoc that
    by (intro exI [of _ "m(r \<mapsto> set_next (next_link f) e, q \<mapsto> set_next (Some r) f)"] exI [of _ p]) (simp add: link_after_def e)
qed

lemma cache_ok_outside [simp]:
  "cache_ok X (c\<lparr>timer := t\<rparr>) L H = cache_ok X c L H" "cache_ok X (c\<lparr>free_cbs := w\<rparr>) L H = cache_ok X c L H"
  by (simp_all add: cache_ok_def)

abbreviation expires_at :: "store \<Rightarrow> ref \<Rightarrow> int" where
  "expires_at m r \<equiv> expiration (entry_at m r)"

lemma set_expiration_ok:
  assumes "cache_ok X c L H"
  shows "pmksa_cache_set_expiration now c = Some (c\<lparr>timer :=
    (case L of [] \<Rightarrow> None | r # rs \<Rightarrow> Some (max 0 (expires_at (mem c) r - now) + 1))\<rparr>)"
  using assms
  by (cases L) (auto simp: pmksa_cache_set_expiration_def Let_def cache_ok_def entry_at_def max_def)

lemma set_expiration_armed:
  assumes "cache_ok X c L H"
  shows "\<exists>c'. pmksa_cache_set_expiration now c = Some c' \<and> armed c' \<and> cache_ok X c' L H \<and> mem c' = mem c \<and>
    free_cbs c' = free_cbs c"
  using set_expiration_ok [OF assms, of now] assms
  by (cases L) (auto simp: armed_def cache_ok_def)

lemma cache_ok_link:
  assumes ok: "cache_ok X c L H" and r: "r \<in> X" "mem c r = Some e" "h = PMKID_HASH (pmkid e)"
    and m: "nl.relinked UNIV (mem c) m" "m r = Some e1"
      "chain next_link m p (insert_by (expires_at (mem c)) r L)"
  shows "cache_ok (X - {r}) (c\<lparr>pmksa := p, mem := m(r \<mapsto> set_hnext (pmkid_hash c h) e1),
      pmkid_hash := (pmkid_hash c)(h := Some r), pmksa_count := pmksa_count c + 1\<rparr>)
    (insert_by (expires_at (mem c)) r L) (H(h := r # H h)) \<and>
    (\<forall>q. entry_at (m(r \<mapsto> set_hnext (pmkid_hash c h) e1)) q = entry_at (mem c) q)"
proof -
  let ?m = "m(r \<mapsto> set_hnext (pmkid_hash c h) e1)" and ?H = "H(h := r # H h)"
    and ?L = "insert_by (expires_at (mem c)) r L"
  have d: "distinct L" "\<And>h. distinct (H h)" "\<And>h. set (H h) = in_bucket (mem c) h L" "r \<notin> set L"
    and hc: "\<And>k. chain hnext_link (mem c) (pmkid_hash c k) (H k)"
    using ok r(1) by (auto simp: cache_ok_def)
  have rh: "r \<notin> set (H k)" for k using d(3,4) by (auto simp: in_bucket_def)
  have keep: "entry_at ?m q = entry_at (mem c) q" for q
  proof -
    have "entry_at m q = entry_at (mem c) q" by (intro same_entry nl.relinked_other [OF m(1)]) simp
    then show ?thesis using m(2) by (auto simp: entry_at_def)
  qed
  have hk: "PMKID_HASH (pmkid (entry_at (mem c) r)) = h" using r by (simp add: entry_at_def)
  have x: "map (expires_at ?m) ?L = map (expires_at (mem c)) ?L" by (simp add: keep)
  have hm: "chain hnext_link m (pmkid_hash c k) (H k)" for k
    using hc [of k] by (subst chain_frame) (simp_all add: nl.relinked_other [OF m(1)])
  have "chain hnext_link ?m (((pmkid_hash c)(h := Some r)) k) (?H k)" for k
  proof (cases "k = h")
    case True
    then show ?thesis using hl.chain_push [OF hm rh] by simp
  next
    case False
    then show ?thesis using hm [of k] rh [of k] by (subst chain_frame) auto
  qed
  moreover have "chain next_link ?m p ?L"
    using m(3) m(2) by (subst chain_frame) auto
  moreover have "set (?H k) = in_bucket ?m k ?L" for k
    using d(3) hk unfolding in_bucket_def keep by auto
  moreover have "distinct (?H k)" for k using d(2) rh by simp
  moreover have "dom ?m = dom (mem c)" using nl.relinked_dom [OF m(1)] r by auto
  moreover have "sorted (map (expires_at (mem c)) ?L)" using ok by (intro sorted_insert_by) (simp add: cache_ok_def)
  ultimately show ?thesis using ok r(1) d(1,4) keep by (auto simp: cache_ok_def x [unfolded comp_def])
qed

lemma link_entry_ok:
  assumes ok: "cache_ok X c L H" and r: "r \<in> X" and a: "armed c"
  shows "\<exists>c' H'. pmksa_cache_link_entry now c r = Some c' \<and>
    cache_ok (X - {r}) c' (insert_by (expires_at (mem c)) r L) H' \<and> armed c' \<and> free_cbs c' = free_cbs c \<and>
    (\<forall>q. entry_at (mem c') q = entry_at (mem c) q)"
proof -
  have "r \<in> dom (mem c)" using ok r by (auto simp: cache_ok_def)
  then obtain e where e: "mem c r = Some e" by blast
  let ?as = "takeWhile (\<lambda>q. expires_at (mem c) q \<le> expiration e) L"
    and ?bs = "dropWhile (\<lambda>q. expires_at (mem c) q \<le> expiration e) L"
  let ?prev = "if ?as = [] then None else Some (last ?as)"
  have nc: "chain next_link (mem c) (pmksa c) L" and d: "distinct L" "r \<notin> set L" using ok r by (auto simp: cache_ok_def)
  have lp: "link_pos (mem c) (expiration e) None (pmksa c) = Some ?prev" by (simp add: link_pos_ok [OF nc] Let_def)
  obtain m p where s: "link_after c ?prev r = Some (c\<lparr>mem := m, pmksa := p\<rparr>)"
    and c1: "chain next_link m p (?as @ r # ?bs)" "nl.relinked UNIV (mem c) m" and p: "?as \<noteq> [] \<longrightarrow> p = pmksa c"
    using link_next_ok [OF nc d e, of ?as ?bs c] by fastforce
  have L': "insert_by (expires_at (mem c)) r L = ?as @ r # ?bs" by (simp add: insert_by_def entry_at_def e)
  obtain e1 where e1: "m r = Some e1" using chain_dom [OF c1(1)] by auto
  have "entry_at m r = entry_at (mem c) r" by (intro same_entry nl.relinked_other [OF c1(2)]) simp
  then have pk: "pmkid e1 = pmkid e" using e e1 by (metis content_simps(2) entry_at_def option.sel)
  let ?h = "PMKID_HASH (pmkid e)"
  define c' where "c' = c\<lparr>pmksa := p, mem := m(r \<mapsto> set_hnext (pmkid_hash c ?h) e1),
      pmkid_hash := (pmkid_hash c)(?h := Some r), pmksa_count := pmksa_count c + 1\<rparr>"
  have ok': "cache_ok (X - {r}) c' (insert_by (expires_at (mem c)) r L) (H(?h := r # H ?h))"
    and keep: "\<forall>q. entry_at (mem c') q = entry_at (mem c) q"
    using cache_ok_link [OF ok r e refl c1(2) e1, of p] c1(1) by (auto simp: c'_def L')
  have "pmksa_cache_link_entry now c r =
      (if ?prev = None then pmksa_cache_set_expiration now c' else Some c')"
    unfolding pmksa_cache_link_entry_def e Option.bind.simps lp s by (simp add: e1 pk c'_def Let_def)
  then show ?thesis
  proof (cases "?prev = None")
    case True
    then show ?thesis
      using \<open>pmksa_cache_link_entry now c r = _\<close> keep set_expiration_armed [OF ok', of now] by (auto simp: c'_def)
  next
    case False
    then show ?thesis using \<open>pmksa_cache_link_entry now c r = _\<close> ok' keep a p by (auto simp: armed_def c'_def)
  qed
qed

section \<open>The abstract cache\<close>

definition entries :: "rsn_pmksa_cache \<Rightarrow> ref list \<Rightarrow> rsn_pmksa_cache_entry list" where
  "entries c L = map (entry_at (mem c)) L"

definition represents :: "rsn_pmksa_cache \<Rightarrow> rsn_pmksa_cache_entry list \<Rightarrow> bool" where
  "represents c es \<longleftrightarrow> (\<exists>L H. cache_ok {} c L H \<and> armed c \<and> es = entries c L)"

fun remove_first :: "('a \<Rightarrow> bool) \<Rightarrow> 'a list \<Rightarrow> 'a list" where
  "remove_first P [] = []"
| "remove_first P (x # xs) = (if P x then xs else x # remove_first P xs)"

lemma remove_first_find:
  "distinct L \<Longrightarrow> map f (case find (\<lambda>r. P (f r)) L of None \<Rightarrow> L | Some p \<Rightarrow> remove1 p L) = remove_first P (map f L)"
proof (induction L)
  case (Cons a L)
  have "p \<noteq> a" if "find (\<lambda>r. P (f r)) L = Some p" for p
    using that Cons.prems by (auto simp: find_Some_iff)
  with Cons show ?case by (cases "find (\<lambda>r. P (f r)) L") auto
qed simp

lemma find_map_Some: "find P (map f L) = map_option f (find (\<lambda>r. P (f r)) L)"
  by (induction L) auto

lemma entries_simps [simp]:
  "entries c [] = []" "entries c (r # L) = entry_at (mem c) r # entries c L"
  "entries c (L @ L') = entries c L @ entries c L'" "length (entries c L) = length L"
  by (simp_all add: entries_def)

lemma cache_ok_first: "cache_ok X c L H \<Longrightarrow> pmksa c = first_of L"
  by (auto simp: cache_ok_def dest: chain_first)

lemma free_entry_refines:
  assumes ok: "cache_ok X c L H" and r: "r \<in> set L"
  shows "\<exists>c' H'. pmksa_cache_free_entry c r = Some c' \<and> cache_ok X c' (remove1 r L) H' \<and> (armed c \<longrightarrow> armed c') \<and>
    entries c' (remove1 r L) = entries c (remove1 r L) \<and> (\<forall>q. q \<noteq> r \<longrightarrow> entry_at (mem c') q = entry_at (mem c) q) \<and>
    timer c' = timer c \<and> free_cbs c' = free_cbs c @ [r]"
proof -
  obtain c' H' where f: "pmksa_cache_free_entry c r = Some c'" "cache_ok X c' (remove1 r L) H'"
    "\<forall>q. q \<noteq> r \<longrightarrow> entry_at (mem c') q = entry_at (mem c) q" "timer c' = timer c" "free_cbs c' = free_cbs c @ [r]"
    using free_entry_ok [OF ok r] by blast
  have "armed c'" if "armed c"
    using that r cache_ok_first [OF ok] f(4) by (cases L) (auto simp: armed_def)
  moreover have "distinct L" using ok by (simp add: cache_ok_def)
  then have "entries c' (remove1 r L) = entries c (remove1 r L)" using f(3) by (auto simp: entries_def)
  ultimately show ?thesis using f by blast
qed

lemma flush_ok:
  "cache_ok X c L H \<Longrightarrow> \<exists>c' H'. pmksa_cache_auth_flush c = Some c' \<and> cache_ok X c' [] H' \<and>
     free_cbs c' = free_cbs c @ L \<and> timer c' = timer c"
proof (induction L arbitrary: c H)
  case Nil
  then show ?case using cache_ok_first [OF Nil] by (subst pmksa_cache_auth_flush.simps) auto
next
  case (Cons r L)
  obtain c1 H1 where f: "pmksa_cache_free_entry c r = Some c1" "cache_ok X c1 L H1" "free_cbs c1 = free_cbs c @ [r]"
    "timer c1 = timer c"
    using free_entry_refines [OF Cons.prems, of r] by auto
  with Cons.IH [OF f(2)] cache_ok_first [OF Cons.prems] show ?case
    by (subst pmksa_cache_auth_flush.simps) auto
qed

lemma expire_loop_ok:
  "cache_ok X c L H \<Longrightarrow> \<exists>c' L' H'. expire_loop now c = Some c' \<and> cache_ok X c' L' H' \<and>
     entries c' L' = filter (\<lambda>e. expiration e > now) (entries c L) \<and> timer c' = timer c"
proof (induction L arbitrary: c H)
  case Nil
  then show ?case using cache_ok_first [OF Nil] by (subst expire_loop.simps) (auto simp: entries_def)
next
  case (Cons r L)
  obtain e where e: "mem c r = Some e" using cache_ok_mem [OF Cons.prems] by auto
  have p: "pmksa c = Some r" using cache_ok_first [OF Cons.prems] by simp
  have x: "expiration (entry_at (mem c) r) = expiration e" by (simp add: entry_at_def e)
  show ?case
  proof (cases "expiration e \<le> now")
    case True
    obtain c1 H1 where f: "pmksa_cache_free_entry c r = Some c1" "cache_ok X c1 L H1" "entries c1 L = entries c L"
      "timer c1 = timer c"
      using free_entry_refines [OF Cons.prems, of r] by auto
    have "expire_loop now c = expire_loop now c1"
      by (subst expire_loop.simps) (simp add: p e True f(1))
    with Cons.IH [OF f(2)] f(3,4) True x show ?thesis by auto
  next
    case False
    have "expire_loop now c = Some c" by (subst expire_loop.simps) (simp add: p e False)
    moreover have "\<forall>q \<in> set (r # L). expires_at (mem c) q > now"
      using Cons.prems False x by (fastforce simp: cache_ok_def)
    then have "filter (\<lambda>e. expiration e > now) (entries c (r # L)) = entries c (r # L)"
      by (auto simp: entries_def)
    ultimately show ?thesis using Cons.prems by auto
  qed
qed

lemma das_loop_ok:
  "cache_ok X c (xs @ ys) H \<Longrightarrow> \<exists>c' L' H'.
     das_loop a found c (first_of ys) =
       Some (found + length (filter (\<lambda>e. das_attr_match e a \<noteq> 0) (entries c ys)), c') \<and>
     cache_ok X c' L' H' \<and> (armed c \<longrightarrow> armed c') \<and>
     entries c' L' = entries c xs @ filter (\<lambda>e. das_attr_match e a = 0) (entries c ys)"
proof (induction ys arbitrary: xs c H found)
  case Nil
  then show ?case by (subst das_loop.simps) (auto simp: entries_def)
next
  case (Cons r ys)
  obtain e where e: "mem c r = Some e" using cache_ok_mem [OF Cons.prems] by auto
  have x: "das_attr_match (entry_at (mem c) r) a = das_attr_match e a" by (simp add: entry_at_def e)
  have "chain next_link (mem c) (first_of (r # ys)) (r # ys)"
    using Cons.prems chain_suffix unfolding cache_ok_def by blast
  then have n: "next_link e = first_of ys" using e by (auto dest: chain_first)
  show ?case
  proof (cases "das_attr_match e a = 0")
    case True
    have "das_loop a found c (first_of (r # ys)) = das_loop a found c (first_of ys)"
      by (subst das_loop.simps) (simp add: e n True)
    moreover have "cache_ok X c ((xs @ [r]) @ ys) H" using Cons.prems by simp
    note Cons.IH [OF this, of found]
    ultimately show ?thesis using True x by auto
  next
    case False
    have l: "remove1 r (xs @ r # ys) = xs @ ys" using Cons.prems by (auto simp: cache_ok_def remove1_append)
    obtain c1 H1 where f: "pmksa_cache_free_entry c r = Some c1" "cache_ok X c1 (xs @ ys) H1"
      "entries c1 (xs @ ys) = entries c (xs @ ys)" "armed c \<longrightarrow> armed c1"
      using free_entry_refines [OF Cons.prems, of r] unfolding l by auto
    have "das_loop a found c (first_of (r # ys)) = das_loop a (found + 1) c1 (first_of ys)"
      by (subst das_loop.simps) (simp add: e n False f(1))
    moreover have "entries c1 xs = entries c xs" "entries c1 ys = entries c ys" using f(3) by (auto simp: entries_def)
    ultimately show ?thesis using Cons.IH [OF f(2), of "found + 1"] f(4) False x by auto
  qed
qed

lemma deinit_loop_ok:
  "chain next_link (mem c) p L \<Longrightarrow> distinct L \<Longrightarrow>
   \<exists>c'. deinit_loop c p = Some c' \<and> mem c' = (\<lambda>q. if q \<in> set L then None else mem c q)"
proof (induction L arbitrary: c p)
  case Nil
  then show ?case by (subst deinit_loop.simps) auto
next
  case (Cons r L)
  then obtain e where e: "p = Some r" "mem c r = Some e" "chain next_link (mem c) (next_link e) L" "r \<notin> set L" by auto
  let ?c = "c\<lparr>mem := (mem c)(r := None)\<rparr>"
  have "chain next_link (mem ?c) (next_link e) L" using chain_remove [OF e(3,4)] by simp
  from Cons.IH [OF this] Cons.prems(2) show ?case
    by (subst deinit_loop.simps) (auto simp: e free_entry_mem_def intro!: ext)
qed

section \<open>Adding\<close>

text \<open>The specification of adding: replace the station's entry, make room, insert.\<close>

definition cache_insert :: "rsn_pmksa_cache_entry \<Rightarrow> rsn_pmksa_cache_entry list \<Rightarrow> rsn_pmksa_cache_entry list" where
  "cache_insert e es =
     (let es = remove_first (\<lambda>x. spa x = spa e) es;
          es = (if int (length es) \<ge> pmksa_cache_max_entries then tl es else es)
      in insert_by expiration e es)"

lemma cache_ok_alloc:
  assumes "cache_ok X c L H" "mem c r = None"
  shows "cache_ok (insert r X) (c\<lparr>mem := (mem c)(r \<mapsto> e)\<rparr>) L H"
    "entries (c\<lparr>mem := (mem c)(r \<mapsto> e)\<rparr>) L = entries c L"
proof -
  let ?m = "(mem c)(r \<mapsto> e)"
  have r: "r \<notin> set L" "r \<notin> X" "\<And>h. r \<notin> set (H h)" using assms by (auto simp: cache_ok_def in_bucket_def)
  have keep: "entry_at ?m q = entry_at (mem c) q" if "q \<noteq> r" for q using that by (simp add: entry_at_def)
  have "chain next_link ?m (pmksa c) L" "\<And>h. chain hnext_link ?m (pmkid_hash c h) (H h)"
    using assms(1) r by (subst chain_frame; force simp: cache_ok_def)+
  moreover have "in_bucket ?m h L = in_bucket (mem c) h L" for h
    by (rule contents_kept(2), rule keep) (use r in auto)
  moreover have "sorted (map (expires_at ?m) L)"
  proof -
    have "map (expires_at ?m) L = map (expires_at (mem c)) L"
      by (rule contents_kept(1), rule keep) (use r in auto)
    then show ?thesis using assms(1) by (simp only: cache_ok_def)
  qed
  ultimately show "cache_ok (insert r X) (c\<lparr>mem := ?m\<rparr>) L H"
    using assms(1) r by (auto simp: cache_ok_def)
  show "entries (c\<lparr>mem := ?m\<rparr>) L = entries c L" using r by (auto simp: entries_def intro!: keep)
qed

lemma link_entry_refines:
  assumes "cache_ok {r} c L H" "armed c" "entry_at (mem c) r = e"
  shows "\<exists>c'. pmksa_cache_link_entry now c r = Some c' \<and> represents c' (insert_by expiration e (entries c L)) \<and>
    entry_at (mem c') r = e"
proof -
  obtain c' H' where l: "pmksa_cache_link_entry now c r = Some c'"
    "cache_ok {} c' (insert_by (expires_at (mem c)) r L) H'" "armed c'" "\<forall>q. entry_at (mem c') q = entry_at (mem c) q"
    using link_entry_ok [OF assms(1) _ assms(2), of r now] by auto
  have "entry_at (mem c') = entry_at (mem c)" using l(4) by auto
  then have "entries c' (insert_by (expires_at (mem c)) r L) = insert_by expiration e (entries c L)"
    using insert_by_map [of "entry_at (mem c)" expiration r L] assms(3) by (simp add: entries_def)
  with l assms(3) show ?thesis by (auto simp: represents_def)
qed

lemma make_room:
  assumes "cache_ok X c L H" "armed c"
  shows "\<exists>c' L' H'. (case pmksa c of
       Some old \<Rightarrow> if pmksa_count c \<ge> pmksa_cache_max_entries then pmksa_cache_free_entry c old else Some c
     | None \<Rightarrow> Some c) = Some c' \<and> cache_ok X c' L' H' \<and> armed c' \<and> (\<forall>q. q \<notin> set L \<longrightarrow> entry_at (mem c') q = entry_at (mem c) q) \<and>
     entries c' L' = (if int (length L) \<ge> pmksa_cache_max_entries then tl (entries c L) else entries c L)"
proof (cases L)
  case Nil
  then show ?thesis using assms cache_ok_first [OF assms(1)] by force
next
  case (Cons r L0)
  have n: "pmksa_count c = int (length L)" "pmksa c = Some r" using assms(1) cache_ok_first [OF assms(1)] Cons
    by (auto simp: cache_ok_def)
  show ?thesis
  proof (cases "int (length L) \<ge> pmksa_cache_max_entries")
    case True
    obtain c1 H1 where "pmksa_cache_free_entry c r = Some c1" "cache_ok X c1 L0 H1" "entries c1 L0 = entries c L0"
      "armed c1" "\<forall>q. q \<noteq> r \<longrightarrow> entry_at (mem c1) q = entry_at (mem c) q"
      using free_entry_refines [OF assms(1), of r] assms(2) Cons by auto
    with True n Cons show ?thesis by (intro exI [of _ c1] exI [of _ L0] exI [of _ H1]) auto
  next
    case False
    with n Cons assms show ?thesis by (intro exI [of _ c] exI [of _ L] exI [of _ H]) auto
  qed
qed

lemma replace_station:
  assumes "cache_ok X c L H" "armed c"
  shows "\<exists>pos c' L' H'. pmksa_cache_auth_get c (Some a) None = Some pos \<and>
     (case pos of Some p \<Rightarrow> pmksa_cache_free_entry c p | None \<Rightarrow> Some c) = Some c' \<and> cache_ok X c' L' H' \<and> armed c' \<and>
     set L' \<subseteq> set L \<and> (\<forall>q. q \<notin> set L \<longrightarrow> entry_at (mem c') q = entry_at (mem c) q) \<and>
     entries c' L' = remove_first (\<lambda>x. spa x = a) (entries c L)"
proof -
  let ?pos = "find (\<lambda>r. spa (entry_at (mem c) r) = a) L"
  have nc: "chain next_link (mem c) (pmksa c) L" and d: "distinct L" using assms(1) by (auto simp: cache_ok_def)
  have g: "pmksa_cache_auth_get c (Some a) None = Some ?pos"
    by (simp add: pmksa_cache_auth_get_def find_loop_ok [OF nc] entry_at_def addr_matches_def ether_addr_equal_def)
  have e: "entries c (case ?pos of None \<Rightarrow> L | Some p \<Rightarrow> remove1 p L) = remove_first (\<lambda>x. spa x = a) (entries c L)"
    unfolding entries_def by (rule remove_first_find [OF d])
  show ?thesis
  proof (cases ?pos)
    case None
    with g e assms show ?thesis by (intro exI [of _ ?pos] exI [of _ c] exI [of _ L] exI [of _ H]) auto
  next
    case (Some p)
    then have p: "p \<in> set L" by (auto simp: find_Some_iff)
    obtain c1 H1 where "pmksa_cache_free_entry c p = Some c1" "cache_ok X c1 (remove1 p L) H1" "armed c1"
      "entries c1 (remove1 p L) = entries c (remove1 p L)" "\<forall>q. q \<noteq> p \<longrightarrow> entry_at (mem c1) q = entry_at (mem c) q"
      using free_entry_refines [OF assms(1) p] assms(2) by auto
    with g e Some p d show ?thesis
      by (intro exI [of _ ?pos] exI [of _ c1] exI [of _ "remove1 p L"] exI [of _ H1]) auto
  qed
qed

lemma add_entry_refines:
  assumes ok: "cache_ok {r} c L H" "armed c" and e: "mem c r = Some e" "content e = e"
  shows "\<exists>c'. pmksa_cache_auth_add_entry now c (Some r) = Some (0, c') \<and>
    represents c' (cache_insert e (entries c L)) \<and> entry_at (mem c') r = e"
proof -
  have r: "r \<notin> set L" using ok(1) by (auto simp: cache_ok_def)
  obtain pos c1 L1 H1 where 1: "pmksa_cache_auth_get c (Some (spa e)) None = Some pos"
    "(case pos of Some p \<Rightarrow> pmksa_cache_free_entry c p | None \<Rightarrow> Some c) = Some c1" "cache_ok {r} c1 L1 H1" "armed c1"
    "entry_at (mem c1) r = entry_at (mem c) r" "entries c1 L1 = remove_first (\<lambda>x. spa x = spa e) (entries c L)"
    using replace_station [OF ok, of "spa e"] r by blast
  obtain c2 L2 H2 where 2: "(case pmksa c1 of
       Some old \<Rightarrow> if pmksa_count c1 \<ge> pmksa_cache_max_entries then pmksa_cache_free_entry c1 old else Some c1
     | None \<Rightarrow> Some c1) = Some c2" "cache_ok {r} c2 L2 H2" "armed c2" "entry_at (mem c2) r = entry_at (mem c1) r"
    "entries c2 L2 = (if int (length L1) \<ge> pmksa_cache_max_entries then tl (entries c1 L1) else entries c1 L1)"
    using make_room [OF 1(3,4)] 1(3) by (auto simp: cache_ok_def)
  have e2: "entry_at (mem c2) r = e" using 2(4) 1(5) e by (simp add: entry_at_def)
  obtain c3 where 3: "pmksa_cache_link_entry now c2 r = Some c3"
    "represents c3 (insert_by expiration e (entries c2 L2))" "entry_at (mem c3) r = e"
    using link_entry_refines [OF 2(2,3) e2] by blast
  have "pmksa_cache_auth_add_entry now c (Some r) = Some (0, c3)"
    unfolding pmksa_cache_auth_add_entry_def by (simp add: e(1) 1(1,2) 2(1) 3(1))
  moreover have "length L1 = length (remove_first (\<lambda>x. spa x = spa e) (entries c L))"
    using arg_cong [OF 1(6), of length] by simp
  then have "insert_by expiration e (entries c2 L2) = cache_insert e (entries c L)"
    by (simp add: cache_insert_def Let_def 2(5) 1(6))
  ultimately show ?thesis using 3 by simp
qed

section \<open>Properties\<close>

lemma unlinked_content: "next_link e = None \<Longrightarrow> hnext_link e = None \<Longrightarrow> content e = e"
  by (simp add: content_def set_next_def set_hnext_def)

lemma from_eapol_unlinked [simp]:
  "next_link (pmksa_cache_from_eapol_data e s) = next_link e" "hnext_link (pmksa_cache_from_eapol_data e s) = hnext_link e"
  by (simp_all add: pmksa_cache_from_eapol_data_def split: option.split)

lemma contents_unlinked: "pmksa_entry_contents hm now key pid kc aa addr t eapol akm = Some e \<Longrightarrow> content e = e"
  by (rule unlinked_content)
    (auto simp: pmksa_entry_contents_def zero_entry_def Let_def split: if_splits option.split)

lemma contents_None:
  "pmksa_entry_contents hm now key pid kc aa addr t eapol akm = None \<longleftrightarrow>
     length key > 64 \<or> (wpa_key_mgmt_suite_b akm \<and> kc = None)"
  by (simp add: pmksa_entry_contents_def PMK_LEN_MAX_def Let_def)

lemma add_ok:
  assumes "represents c es" "mem c r = None"
    "pmksa_entry_contents hm now key pid kc aa addr t eapol akm = Some e"
  shows "\<exists>c'. pmksa_cache_auth_add hm (Some r) now now' key pid kc aa addr t eapol akm c = Some (Some r, c') \<and>
    represents c' (cache_insert e es) \<and> entry_at (mem c') r = e"
proof -
  obtain L H where L: "cache_ok {} c L H" "armed c" "es = entries c L" using assms(1) by (auto simp: represents_def)
  let ?c = "c\<lparr>mem := (mem c)(r \<mapsto> e)\<rparr>"
  have "cache_ok {r} ?c L H" "entries ?c L = es" using cache_ok_alloc [OF L(1) assms(2), of e] L(3) by auto
  moreover have "armed ?c" using L(2) by (simp add: armed_def)
  moreover have "content e = e" by (rule contents_unlinked [OF assms(3)])
  ultimately obtain c' where "pmksa_cache_auth_add_entry now' ?c (Some r) = Some (0, c')"
    "represents c' (cache_insert e es)" "entry_at (mem c') r = e"
    using add_entry_refines [of r ?c L H e now'] by auto
  then show ?thesis
    by (auto simp: pmksa_cache_auth_add_def pmksa_cache_auth_create_entry_def assms(3))
qed

lemma add_null:
  "fresh = None \<or> pmksa_entry_contents hm now key pid kc aa addr t eapol akm = None \<Longrightarrow>
   pmksa_cache_auth_add hm fresh now now' key pid kc aa addr t eapol akm c = Some (None, c)"
  by (cases "pmksa_entry_contents hm now key pid kc aa addr t eapol akm")
    (auto simp: pmksa_cache_auth_add_def pmksa_cache_auth_create_entry_def pmksa_cache_auth_add_entry_def)

lemma okc_ok:
  assumes "represents c es" "mem c r = None"
  shows "\<exists>c'. pmksa_cache_add_okc (Some r) now c old p = Some (Some r, c') \<and>
    represents c' (insert_by expiration (okc_contents old p) es)"
proof -
  obtain L H where L: "cache_ok {} c L H" "armed c" "es = entries c L" using assms(1) by (auto simp: represents_def)
  let ?c = "c\<lparr>mem := (mem c)(r \<mapsto> okc_contents old p)\<rparr>"
  have "cache_ok {r} ?c L H" "entries ?c L = es" using cache_ok_alloc [OF L(1) assms(2)] L(3) by auto
  moreover have "armed ?c" using L(2) by (simp add: armed_def)
  moreover have "content (okc_contents old p) = okc_contents old p"
    by (rule unlinked_content) (simp_all add: okc_contents_def zero_entry_def)
  then have "entry_at (mem ?c) r = okc_contents old p" by (simp add: entry_at_def)
  ultimately show ?thesis
    using link_entry_refines [of r ?c L H "okc_contents old p" now] by (auto simp: pmksa_cache_add_okc_def)
qed

lemma expire_ok:
  assumes "represents c es"
  shows "\<exists>c'. pmksa_cache_expire now now' c = Some c' \<and> represents c' (filter (\<lambda>e. expiration e > now) es) \<and>
    timer c' = (case filter (\<lambda>e. expiration e > now) es of [] \<Rightarrow> None | e # _ \<Rightarrow> Some (max 0 (expiration e - now') + 1))"
proof -
  obtain L H where L: "cache_ok {} c L H" "es = entries c L" using assms by (auto simp: represents_def)
  have "cache_ok {} (c\<lparr>timer := None\<rparr>) L H" using L(1) by simp
  from expire_loop_ok [OF this, of now] obtain c1 L1 H1 where 1: "expire_loop now (c\<lparr>timer := None\<rparr>) = Some c1"
    "cache_ok {} c1 L1 H1" "entries c1 L1 = filter (\<lambda>e. expiration e > now) es"
    using L(2) by (auto simp: entries_def)
  let ?t = "case L1 of [] \<Rightarrow> None | r # rs \<Rightarrow> Some (max 0 (expires_at (mem c1) r - now') + 1)"
  have "pmksa_cache_expire now now' c = Some (c1\<lparr>timer := ?t\<rparr>)"
    by (simp add: pmksa_cache_expire_def 1(1) set_expiration_ok [OF 1(2)])
  moreover have "armed (c1\<lparr>timer := ?t\<rparr>)"
    using cache_ok_first [OF 1(2)] by (cases L1) (auto simp: armed_def)
  moreover have "?t = (case filter (\<lambda>e. expiration e > now) es of [] \<Rightarrow> None
      | e # _ \<Rightarrow> Some (max 0 (expiration e - now') + 1))"
    unfolding 1(3) [symmetric] by (cases L1) auto
  moreover have "entries (c1\<lparr>timer := ?t\<rparr>) L1 = entries c1 L1" by (simp add: entries_def)
  ultimately show ?thesis using 1(2,3) unfolding represents_def by fastforce
qed

lemma das_ok:
  assumes "represents c es" "acct_session_id a = None"
  shows "\<exists>c'. pmksa_cache_auth_radius_das_disconnect c a =
      Some (if \<exists>e \<in> set es. das_attr_match e a \<noteq> 0 then 0 else - 1, c') \<and>
    represents c' (filter (\<lambda>e. das_attr_match e a = 0) es)"
proof -
  obtain L H where L: "cache_ok {} c L H" "armed c" "es = entries c L" using assms(1) by (auto simp: represents_def)
  obtain c' L' H' where d: "das_loop a 0 c (first_of L) = Some (length (filter (\<lambda>e. das_attr_match e a \<noteq> 0) es), c')"
    "cache_ok {} c' L' H'" "armed c'" "entries c' L' = filter (\<lambda>e. das_attr_match e a = 0) es"
    using das_loop_ok [of "{}" c "[]" L H a 0] L by auto
  then show ?thesis
    using assms(2) cache_ok_first [OF L(1)]
    by (auto simp: pmksa_cache_auth_radius_das_disconnect_def represents_def filter_empty_conv intro!: exI [of _ L'])
qed

lemma flush_empty:
  assumes "represents c es"
  shows "\<exists>c'. pmksa_cache_auth_flush c = Some c' \<and> represents c' [] \<and> mem c' = Map.empty \<and>
    length (free_cbs c') = length (free_cbs c) + length es"
proof -
  obtain L H where L: "cache_ok {} c L H" "armed c" "es = entries c L" using assms(1) by (auto simp: represents_def)
  obtain c' H' where "pmksa_cache_auth_flush c = Some c'" "cache_ok {} c' [] H'" "free_cbs c' = free_cbs c @ L"
    using flush_ok [OF L(1)] by blast
  moreover from this have "armed c'" using cache_ok_first by (auto simp: armed_def)
  ultimately show ?thesis using L(3) unfolding represents_def by (fastforce simp: cache_ok_def)
qed

lemma deinit_ok:
  assumes "represents c es"
  shows "\<exists>c'. pmksa_cache_auth_deinit c = Some c' \<and> mem c' = Map.empty \<and> pmksa c' = None \<and> timer c' = None"
proof -
  obtain L H where L: "cache_ok {} c L H" using assms(1) by (auto simp: represents_def)
  then obtain c' where d: "deinit_loop c (pmksa c) = Some c'" "mem c' = (\<lambda>q. if q \<in> set L then None else mem c q)"
    using deinit_loop_ok unfolding cache_ok_def by blast
  have "mem c q = None" if "q \<notin> set L" for q using that L by (auto simp: cache_ok_def domIff)
  then have "mem c' = Map.empty" using d(2) by auto
  then show ?thesis using d(1) by (simp add: pmksa_cache_auth_deinit_def)
qed

lemma find_SomeD: "find P xs = Some x \<Longrightarrow> P x \<and> x \<in> set xs"
  by (auto simp: find_Some_iff)

lemma get_ok:
  assumes ok: "cache_ok X c L H"
  shows "\<exists>res. pmksa_cache_auth_get c a p = Some res \<and>
      (case res of
         None \<Rightarrow> \<forall>r \<in> set L. \<not> (addr_matches a (entry_at (mem c) r) \<and> (\<forall>q. p = Some q \<longrightarrow> pmkid (entry_at (mem c) r) = q))
       | Some r \<Rightarrow> r \<in> set L \<and> addr_matches a (entry_at (mem c) r) \<and> (\<forall>q. p = Some q \<longrightarrow> pmkid (entry_at (mem c) r) = q))"
proof (cases p)
  case None
  have "chain next_link (mem c) (pmksa c) L" using ok by (simp add: cache_ok_def)
  then show ?thesis
    using None find_loop_ok [of next_link "mem c" "pmksa c" L "addr_matches a"]
    by (auto simp: pmksa_cache_auth_get_def entry_at_def find_None_iff find_Some_iff split: option.splits)
next
  case (Some q)
  have h: "chain hnext_link (mem c) (pmkid_hash c (PMKID_HASH q)) (H (PMKID_HASH q))"
    "set (H (PMKID_HASH q)) = in_bucket (mem c) (PMKID_HASH q) L" using ok by (auto simp: cache_ok_def)
  have "r \<in> set (H (PMKID_HASH q)) \<longleftrightarrow> r \<in> set L" if "pmkid (entry_at (mem c) r) = q" for r
    using that by (auto simp: h(2) in_bucket_def)
  moreover have "r \<in> set L" if "r \<in> set (H (PMKID_HASH q))" for r using that by (auto simp: h(2) in_bucket_def)
  ultimately show ?thesis
    using Some find_loop_ok [OF h(1), of "hash_matches a q"]
    by (auto simp: pmksa_cache_auth_get_def entry_at_def hash_matches_def find_None_iff
        dest!: find_SomeD split: option.splits)
qed

lemma find_next_ok:
  assumes ok: "cache_ok X c L H" and t: "\<And>e. q (content e) = q e"
  shows "\<exists>res. find_loop next_link (mem c) q (pmksa c) = Some res \<and>
    map_option (entry_at (mem c)) res = find q (entries c L)"
proof -
  have "chain next_link (mem c) (pmksa c) L" using ok by (simp add: cache_ok_def)
  then show ?thesis
    using find_loop_ok [of next_link "mem c" "pmksa c" L q] by (simp add: entries_def find_map_Some entry_at_def t)
qed

section \<open>Reachable caches\<close>

text \<open>
  The operations of the cache in any order; the allocator returns addresses that are not in use,
  and the entries that callers free are those a lookup returned.  \<open>okc\<close> allows opportunistic key
  caching.
\<close>

inductive pmksa_reachable :: "hmacs \<Rightarrow> bool \<Rightarrow> rsn_pmksa_cache \<Rightarrow> bool" for hm okc where
  init: "pmksa_reachable hm okc pmksa_cache_auth_init"
| add: "pmksa_reachable hm okc c \<Longrightarrow> fresh \<notin> Some ` dom (mem c) \<Longrightarrow>
    pmksa_cache_auth_add hm fresh now now' key pid kc aa addr t eapol akm c = Some (res, c') \<Longrightarrow>
    pmksa_reachable hm okc c'"
| expire: "pmksa_reachable hm okc c \<Longrightarrow> pmksa_cache_expire now now' c = Some c' \<Longrightarrow> pmksa_reachable hm okc c'"
| das: "pmksa_reachable hm okc c \<Longrightarrow> pmksa_cache_auth_radius_das_disconnect c a = Some (ret, c') \<Longrightarrow>
    pmksa_reachable hm okc c'"
| flush: "pmksa_reachable hm okc c \<Longrightarrow> pmksa_cache_auth_flush c = Some c' \<Longrightarrow> pmksa_reachable hm okc c'"
| free: "pmksa_reachable hm okc c \<Longrightarrow> pmksa_cache_auth_get c b p = Some (Some r) \<Longrightarrow>
    pmksa_cache_free_entry c r = Some c' \<Longrightarrow> pmksa_reachable hm okc c'"
| okc: "pmksa_reachable hm okc c \<Longrightarrow> okc \<Longrightarrow> fresh \<notin> Some ` dom (mem c) \<Longrightarrow>
    pmksa_cache_add_okc fresh now c old p = Some (res, c') \<Longrightarrow> pmksa_reachable hm okc c'"

lemma represents_init: "represents pmksa_cache_auth_init []"
  unfolding represents_def
  by (intro exI [of _ "[]"] exI [of _ "\<lambda>_. []"])
    (simp add: cache_ok_def pmksa_cache_auth_init_def armed_def in_bucket_def)

lemma set_remove_first: "set (remove_first P xs) \<subseteq> set xs"
  by (induction xs) auto

lemma distinct_remove_first: "distinct (map f xs) \<Longrightarrow> distinct (map f (remove_first P xs))"
  using set_remove_first by (induction xs) fastforce+

lemma remove_first_station: "distinct (map spa es) \<Longrightarrow> a \<notin> spa ` set (remove_first (\<lambda>x. spa x = a) es)"
  by (induction es) auto

lemma length_remove_first: "length (remove_first P xs) \<le> length xs"
  by (induction xs) auto

lemma cache_insert_limits:
  assumes "length es \<le> 1024" "distinct (map spa es)"
  shows "length (cache_insert e es) \<le> 1024 \<and> distinct (map spa (cache_insert e es))"
proof -
  let ?es = "remove_first (\<lambda>x. spa x = spa e) es"
  let ?fs = "if int (length ?es) \<ge> pmksa_cache_max_entries then tl ?es else ?es"
  have d: "distinct (map spa ?es)" "spa e \<notin> spa ` set ?es" "length ?es \<le> 1024"
    using assms(1) distinct_remove_first [OF assms(2)] remove_first_station [OF assms(2), of "spa e"]
      length_remove_first [of "\<lambda>x. spa x = spa e" es] by simp_all
  have f: "distinct (map spa ?fs)" "set ?fs \<subseteq> set ?es"
    using d(1) by (cases ?es; auto simp: map_tl)+
  have m: "mset (map spa (cache_insert e es)) = mset (spa e # map spa ?fs)"
    by (simp add: cache_insert_def Let_def mset_insert_by)
  have "distinct (spa e # map spa ?fs)" using f d(2) by auto
  then have "distinct (map spa (cache_insert e es))" by (simp only: mset_eq_imp_distinct_iff [OF m])
  moreover have "length ?fs \<le> 1023" using d(3) by (auto simp: pmksa_cache_max_entries_def)
  then have "length (cache_insert e es) \<le> 1024" by (simp add: cache_insert_def Let_def)
  ultimately show ?thesis by blast
qed

definition within_limits :: "bool \<Rightarrow> rsn_pmksa_cache_entry list \<Rightarrow> bool" where
  "within_limits okc es \<longleftrightarrow> (okc \<or> (length es \<le> 1024 \<and> distinct (map spa es)))"

lemma within_limits_filter: "within_limits okc es \<Longrightarrow> within_limits okc (filter P es)"
  by (auto simp: within_limits_def distinct_map_filter intro: order_trans [OF length_filter_le])

lemma within_limits_remove1: "within_limits okc (entries c L) \<Longrightarrow> within_limits okc (entries c (remove1 r L))"
  by (auto simp: within_limits_def entries_def length_remove1 distinct_map o_def distinct_remove1
      dest: set_remove1_subset [THEN subsetD] intro!: inj_onI dest!: inj_onD)

lemma free_returned_ok:
  assumes "represents c es" "within_limits okc es" "pmksa_cache_auth_get c b p = Some (Some r)"
  shows "\<exists>c' es'. pmksa_cache_free_entry c r = Some c' \<and> represents c' es' \<and> within_limits okc es'"
proof -
  obtain L H where L: "cache_ok {} c L H" "armed c" "es = entries c L" using assms(1) by (auto simp: represents_def)
  have "r \<in> set L" using get_ok [OF L(1), of b p] assms(3) by auto
  then obtain c' H' where "pmksa_cache_free_entry c r = Some c'" "cache_ok {} c' (remove1 r L) H'" "armed c'"
    "entries c' (remove1 r L) = entries c (remove1 r L)" using free_entry_refines [OF L(1)] L(2) by blast
  then show ?thesis using within_limits_remove1 assms(2) L(3) unfolding represents_def by metis
qed

lemma reachable_ok: "pmksa_reachable hm okc c \<Longrightarrow> \<exists>es. represents c es \<and> within_limits okc es"
proof (induction rule: pmksa_reachable.induct)
  case init
  then show ?case using represents_init by (auto simp: within_limits_def)
next
  case (add c fresh now now' key pid kc aa addr t eapol akm res c')
  then obtain es where es: "represents c es" "within_limits okc es" by blast
  show ?case
  proof (cases "fresh = None \<or> pmksa_entry_contents hm now key pid kc aa addr t eapol akm = None")
    case True
    with add.hyps(3) add_null es show ?thesis by fastforce
  next
    case False
    then obtain r e where r: "fresh = Some r" "pmksa_entry_contents hm now key pid kc aa addr t eapol akm = Some e" by auto
    then have "mem c r = None" using add.hyps(2) by (cases "mem c r") auto
    from add_ok [OF es(1) this r(2), of now'] add.hyps(3) r(1) have "represents c' (cache_insert e es)" by auto
    moreover have "within_limits okc (cache_insert e es)" using es(2) cache_insert_limits by (auto simp: within_limits_def)
    ultimately show ?thesis by blast
  qed
next
  case (expire c now now' c')
  then obtain es where es: "represents c es" "within_limits okc es" by blast
  with expire_ok [OF es(1), of now now'] expire.hyps(2) show ?case by (auto intro: within_limits_filter)
next
  case (das c a ret c')
  then obtain es where es: "represents c es" "within_limits okc es" by blast
  show ?case
  proof (cases "acct_session_id a")
    case None
    from das_ok [OF es(1) None] das.hyps(2) es(2) show ?thesis using within_limits_filter by fastforce
  next
    case (Some i)
    with das.hyps(2) es show ?thesis by (auto simp: pmksa_cache_auth_radius_das_disconnect_def)
  qed
next
  case (flush c c')
  then obtain es where "represents c es" by blast
  with flush_empty [of c es] flush.hyps(2) show ?case by (auto simp: within_limits_def)
next
  case (free c b p r c')
  then obtain es where es: "represents c es" "within_limits okc es" by blast
  from free_returned_ok [OF es free.hyps(2)] free.hyps(3) show ?case by auto
next
  case (okc c fresh now old p res c')
  then obtain es where es: "represents c es" by blast
  show ?case
  proof (cases fresh)
    case None
    with okc.hyps es show ?thesis by (auto simp: pmksa_cache_add_okc_def within_limits_def)
  next
    case (Some r)
    then have "mem c r = None" using okc.hyps(3) by (cases "mem c r") auto
    from okc_ok [OF es this, of now old p] okc.hyps(2,4) Some show ?thesis by (auto simp: within_limits_def)
  qed
qed

section \<open>Properties\<close>

text \<open>
  C35: Adding a PMKSA refines the abstract cache: whatever the cache holds, \<open>pmksa_cache_auth_add\<close>
  returns the new entry and leaves a well-formed cache that holds exactly the entries of
  \<open>cache_insert\<close>: the station's first entry replaced, the entry that expires first dropped when
  the cache is full, the new one in its place by expiration.
\<close>

theorem pmksa_add_refines:
  assumes "represents c es" "mem c r = None"
    "pmksa_entry_contents hm now key pid kc aa addr t eapol akm = Some e"
  shows "\<exists>c'. pmksa_cache_auth_add hm (Some r) now now' key pid kc aa addr t eapol akm c = Some (Some r, c') \<and>
    represents c' (cache_insert e es) \<and> entry_at (mem c') r = e"
  by (rule add_ok [OF assms])

text \<open>
  C38: A rejected PMKSA leaves the cache alone: \<open>pmksa_cache_auth_add\<close> returns NULL with the cache
  unchanged exactly when the PMK is longer than 64 bytes, a Suite B AKM comes without a KCK, or the
  allocation fails.
\<close>

theorem pmksa_add_rejects:
  assumes "represents c es" "fresh \<notin> Some ` dom (mem c)"
  shows "(pmksa_cache_auth_add hm fresh now now' key pid kc aa addr t eapol akm c = Some (None, c)) \<longleftrightarrow>
    length key > 64 \<or> (wpa_key_mgmt_suite_b akm \<and> kc = None) \<or> fresh = None"
proof (cases "fresh = None \<or> pmksa_entry_contents hm now key pid kc aa addr t eapol akm = None")
  case True
  with add_null [OF True] contents_None show ?thesis by blast
next
  case False
  then obtain r e where r: "fresh = Some r" "pmksa_entry_contents hm now key pid kc aa addr t eapol akm = Some e" by auto
  then have "mem c r = None" using assms(2) by (cases "mem c r") auto
  from add_ok [OF assms(1) this r(2), of now'] obtain c' where
    "pmksa_cache_auth_add hm fresh now now' key pid kc aa addr t eapol akm c = Some (Some r, c')" unfolding r(1) by blast
  moreover have "\<not> (length key > 64 \<or> (wpa_key_mgmt_suite_b akm \<and> kc = None) \<or> fresh = None)"
    using False unfolding contents_None by blast
  ultimately show ?thesis by simp
qed

text \<open>
  C37: Lookups see the abstract cache: \<open>pmksa_cache_auth_get\<close> always returns, with an entry that
  matches the address and the PMKID asked for whenever there is one; without a PMKID, and for
  opportunistic key caching, it is the matching entry that expires first.
\<close>

theorem pmksa_get_finds:
  assumes "represents c es"
  shows "(\<exists>res. pmksa_cache_auth_get c a (Some p) = Some res \<and>
      (case res of
         None \<Rightarrow> list_all (\<lambda>e. \<not> hash_matches a p e) es
       | Some r \<Rightarrow> entry_at (mem c) r \<in> set es \<and> hash_matches a p (entry_at (mem c) r))) \<and>
    (\<exists>res. pmksa_cache_auth_get c a None = Some res \<and> map_option (entry_at (mem c)) res = find (addr_matches a) es) \<and>
    (\<exists>res. pmksa_cache_get_okc hm c aa b q = Some res \<and> map_option (entry_at (mem c)) res = find (okc_match hm aa b q) es)"
proof -
  obtain L H where L: "cache_ok {} c L H" "es = entries c L" using assms(1) by (auto simp: represents_def)
  have g: "(addr_matches a e \<and> (\<forall>q. Some p = Some q \<longrightarrow> pmkid e = q)) = hash_matches a p e" for e
    by (auto simp: hash_matches_def)
  obtain res where "pmksa_cache_auth_get c a (Some p) = Some res" "case res of
      None \<Rightarrow> \<forall>r \<in> set L. \<not> hash_matches a p (entry_at (mem c) r)
    | Some r \<Rightarrow> r \<in> set L \<and> hash_matches a p (entry_at (mem c) r)"
    using get_ok [OF L(1), of a "Some p"] unfolding g by blast
  then have 1: "\<exists>res. pmksa_cache_auth_get c a (Some p) = Some res \<and> (case res of
      None \<Rightarrow> list_all (\<lambda>e. \<not> hash_matches a p e) es
    | Some r \<Rightarrow> entry_at (mem c) r \<in> set es \<and> hash_matches a p (entry_at (mem c) r))"
    unfolding L(2) by (cases res) (auto simp: list_all_iff entries_def)
  show ?thesis
    using 1 find_next_ok [OF L(1), of "addr_matches a"] find_next_ok [OF L(1), of "okc_match hm aa b q"]
    unfolding L(2) by (simp add: pmksa_cache_get_okc_def pmksa_cache_auth_get_def)
qed

text \<open>
  Expiration removes exactly the entries whose time has come, and while entries are left the
  timeout is registered for a second after the first of them expires.
\<close>

theorem pmksa_expire_exact:
  assumes "represents c es"
  shows "\<exists>c'. pmksa_cache_expire now now' c = Some c' \<and> represents c' (filter (\<lambda>e. expiration e > now) es) \<and>
    timer c' = (case filter (\<lambda>e. expiration e > now) es of [] \<Rightarrow> None | e # _ \<Rightarrow> Some (max 0 (expiration e - now') + 1))"
  by (rule expire_ok [OF assms])

text \<open>
  What a RADIUS disconnect asks for: at least one attribute is given and every given one is the entry's.
\<close>

definition das_selects :: "radius_das_attrs \<Rightarrow> rsn_pmksa_cache_entry \<Rightarrow> bool" where
  "das_selects a e \<longleftrightarrow>
     (sta_addr a \<noteq> None \<or> das_multi_session_id a \<noteq> None \<or> das_cui a \<noteq> None \<or> user_name a \<noteq> None) \<and>
     (\<forall>x. sta_addr a = Some x \<longrightarrow> ether_addr_equal x (spa e)) \<and>
     (\<forall>x. das_multi_session_id a = Some x \<longrightarrow> x = hex16 (acct_multi_session_id e)) \<and>
     (\<forall>x. das_cui a = Some x \<longrightarrow> cui e = Some x) \<and> (\<forall>x. user_name a = Some x \<longrightarrow> identity e = Some x)"

lemma das_attr_match_selects: "das_attr_match e a \<noteq> 0 \<longleftrightarrow> das_selects a e"
proof -
  have h: "length (hex16 x) = 16" for x by (simp add: hex16_def)
  have [simp]: "(o' = None \<or> (x :: 'z) \<noteq> the o') \<longleftrightarrow> o' \<noteq> Some x" for o' x by (cases o') auto
  show ?thesis
    by (cases "sta_addr a"; cases "das_multi_session_id a"; cases "das_cui a"; cases "user_name a")
      (auto simp: das_attr_match_def das_selects_def Let_def h)
qed

text \<open>
  C33: A RADIUS disconnect returns, also while it frees the entries it walks over, and removes exactly the entries that
  have all the given attributes, keeping the rest of the cache in order; it answers 0 exactly when it removed one.
  Without an attribute, or with a session identifier, it removes none.
\<close>

theorem pmksa_das_exact:
  assumes "represents c es"
  shows "\<exists>c'. pmksa_cache_auth_radius_das_disconnect c a =
      Some (if acct_session_id a = None \<and> (\<exists>e\<in>set es. das_selects a e) then 0 else - 1, c') \<and>
    represents c' (filter (\<lambda>e. \<not> (acct_session_id a = None \<and> das_selects a e)) es)"
proof (cases "acct_session_id a")
  case None
  then show ?thesis using das_ok [OF assms, of a] by (simp add: das_attr_match_selects [symmetric])
next
  case (Some s)
  then show ?thesis using assms by (simp add: pmksa_cache_auth_radius_das_disconnect_def)
qed

text \<open>
  C36: In every reachable cache the two lists, the hash chains and the counter agree and the
  entries are ordered by expiration; without opportunistic key caching there are at most 1024 of
  them and one per station; and flushing and releasing the cache return with no entry left
  allocated.
\<close>

theorem pmksa_reachable_wf:
  assumes "pmksa_reachable hm okc c"
  shows "\<exists>es. represents c es \<and> pmksa_count c = int (length es) \<and> sorted (map expiration es) \<and>
    (okc \<or> (length es \<le> 1024 \<and> distinct (map spa es))) \<and>
    (\<exists>c'. pmksa_cache_auth_flush c = Some c' \<and> represents c' [] \<and> mem c' = Map.empty \<and>
       length (free_cbs c') = length (free_cbs c) + length es) \<and>
    (\<exists>c'. pmksa_cache_auth_deinit c = Some c' \<and> mem c' = Map.empty \<and> timer c' = None)"
proof -
  obtain es where es: "represents c es" "within_limits okc es" using reachable_ok [OF assms] by blast
  obtain L H where L: "cache_ok {} c L H" "es = entries c L" using es(1) by (auto simp: represents_def)
  have "pmksa_count c = int (length es)" "sorted (map expiration es)"
    using L by (auto simp: cache_ok_def entries_def o_def)
  then show ?thesis using es flush_empty [OF es(1)] deinit_ok [OF es(1)] by (auto simp: within_limits_def)
qed

text \<open>
  Opportunistic key caching ignores the limit: \<open>pmksa_cache_add_okc\<close> inserts its copy into any
  cache, so a cache with 1024 entries then holds 1025, and it keeps an older entry of the same
  station.
\<close>

theorem pmksa_okc_unlimited:
  assumes "represents c es" "mem c r = None"
  shows "\<exists>c'. pmksa_cache_add_okc (Some r) now c old p = Some (Some r, c') \<and>
    represents c' (insert_by expiration (okc_contents old p) es) \<and> pmksa_count c' = pmksa_count c + 1"
proof -
  obtain c' where c': "pmksa_cache_add_okc (Some r) now c old p = Some (Some r, c')"
    "represents c' (insert_by expiration (okc_contents old p) es)" using okc_ok [OF assms, of now] by blast
  then show ?thesis using assms(1) by (auto simp: represents_def cache_ok_def dest!: arg_cong [where f = length])
qed

text \<open>
  The session data survive the cache: what \<open>pmksa_cache_from_eapol_data\<close> stores from a session,
  \<open>pmksa_cache_to_eapol_data\<close> gives to the next one, which keeps its own identity and CUI only
  where the first had none; a VLAN description without VLANs is dropped.
\<close>

theorem pmksa_session_roundtrip:
  assumes "pmksa_entry_contents hm now key pid kc aa addr t (Some s) akm = Some e"
  shows "pmksa_cache_to_eapol_data (Some e) (Some s') =
    Some (s\<lparr>ses_identity := (if ses_identity s \<noteq> None then ses_identity s else ses_identity s'),
            ses_cui := (if ses_cui s \<noteq> None then ses_cui s else ses_cui s'),
            ses_vlan := (case ses_vlan s of Some v \<Rightarrow> if notempty v then Some v else None | None \<Rightarrow> None)\<rparr>)"
proof -
  obtain e0 where "e = pmksa_cache_from_eapol_data e0 (Some s)" "identity e0 = None" "cui e0 = None"
    using assms by (auto simp: pmksa_entry_contents_def zero_entry_def Let_def split: if_splits option.splits)
  then show ?thesis by (simp add: pmksa_cache_to_eapol_data_def pmksa_cache_from_eapol_data_def)
qed

section \<open>A concrete cache\<close>

definition sample_hm :: hmacs where
  "sample_hm = \<lparr>hmac_sha1 = \<lambda>k m. replicate 20 1, hmac_sha256 = \<lambda>k m. replicate 32 2, hmac_sha384 = \<lambda>k m. replicate 48 3\<rparr>"

definition sample_session :: eapol_session where
  "sample_session = \<lparr>ses_identity = Some [97], ses_cui = None, ses_class = [], ses_eap_type = 13, ses_vlan = None,
     ses_acct_id = 5\<rparr>"

definition sample_sta :: bytes where "sample_sta = [2, 0, 0, 0, 0, 1]"

definition sample_entry :: rsn_pmksa_cache_entry where
  "sample_entry = zero_entry\<lparr>pmk := replicate 32 9, pmkid := replicate 16 1, expiration := 43300, akmp := 1, spa := sample_sta,
     identity := Some [97], eap_type_authsrv := 13, acct_multi_session_id := 5\<rparr>"

lemma sample_contents:
  "pmksa_entry_contents sample_hm 100 (replicate 32 9) None None (replicate 6 0) sample_sta 0 (Some sample_session) 1 =
     Some sample_entry"
  by code_simp

lemma sample_added: "\<exists>c'. pmksa_cache_auth_add sample_hm (Some 0) 100 100 (replicate 32 9) None None (replicate 6 0) sample_sta 0
    (Some sample_session) 1 pmksa_cache_auth_init = Some (Some 0, c') \<and> represents c' [sample_entry]"
  using add_ok [OF represents_init _ sample_contents, of 0 100]
  by (auto simp: cache_insert_def insert_by_def pmksa_cache_auth_init_def pmksa_cache_max_entries_def)

theorem pmksa_add_refines_witness: "\<exists>c'. pmksa_cache_auth_add sample_hm (Some 0) 100 100 (replicate 32 9) None None
    (replicate 6 0) sample_sta 0 (Some sample_session) 1 pmksa_cache_auth_init = Some (Some 0, c') \<and>
    represents c' (cache_insert sample_entry []) \<and> entry_at (mem c') 0 = sample_entry"
  by (rule pmksa_add_refines [OF represents_init _ sample_contents]) (simp add: pmksa_cache_auth_init_def)

theorem pmksa_add_rejects_witness: "(pmksa_cache_auth_add sample_hm (Some 0) 100 100 (replicate 65 9) None None
    (replicate 6 0) sample_sta 0 None 1 pmksa_cache_auth_init = Some (None, pmksa_cache_auth_init)) \<longleftrightarrow>
    length (replicate 65 (9 :: u8)) > 64 \<or> (wpa_key_mgmt_suite_b 1 \<and> (None :: bytes option) = None) \<or> Some (0 :: nat) = None"
  by (rule pmksa_add_rejects [OF represents_init]) (simp add: pmksa_cache_auth_init_def)

theorem pmksa_get_finds_witness: "\<exists>c res. represents c [sample_entry] \<and>
    pmksa_cache_auth_get c (Some sample_sta) None = Some res \<and> map_option (entry_at (mem c)) res = Some sample_entry"
proof -
  obtain c where c: "represents c [sample_entry]" using sample_added by blast
  have "find (addr_matches (Some sample_sta)) [sample_entry] = Some sample_entry" by code_simp
  with pmksa_get_finds [OF c, of "Some sample_sta"] c show ?thesis by metis
qed

theorem pmksa_expire_exact_witness: "\<exists>c c'. represents c [sample_entry] \<and> pmksa_cache_expire 43300 43300 c = Some c' \<and>
    represents c' [] \<and> timer c' = None"
proof -
  obtain c where c: "represents c [sample_entry]" using sample_added by blast
  have "filter (\<lambda>e. expiration e > 43300) [sample_entry] = []" by code_simp
  with pmksa_expire_exact [OF c, of 43300 43300] c show ?thesis by auto
qed

theorem pmksa_das_exact_witness: "\<exists>c c'. represents c [sample_entry] \<and> pmksa_cache_auth_radius_das_disconnect c
      \<lparr>sta_addr = Some sample_sta, user_name = Some [97], acct_session_id = None, das_multi_session_id = None,
       das_cui = None\<rparr> = Some (0, c') \<and> represents c' []"
proof -
  let ?a = "\<lparr>sta_addr = Some sample_sta, user_name = Some [97], acct_session_id = None, das_multi_session_id = None,
       das_cui = None\<rparr>"
  obtain c where c: "represents c [sample_entry]" using sample_added by blast
  have "das_attr_match sample_entry ?a = 2" by code_simp
  then have "das_selects ?a sample_entry" using das_attr_match_selects [of sample_entry ?a] by simp
  with pmksa_das_exact [OF c, of ?a] c show ?thesis by auto
qed

theorem pmksa_reachable_wf_witness: "\<exists>es. represents pmksa_cache_auth_init es \<and> pmksa_count pmksa_cache_auth_init = int (length es)"
  using pmksa_reachable_wf [OF pmksa_reachable.init [of sample_hm False]] by blast

theorem pmksa_okc_unlimited_witness: "\<exists>c c' r. represents c [sample_entry] \<and> mem c r = None \<and>
    pmksa_cache_add_okc (Some r) 200 c sample_entry (replicate 16 4) = Some (Some r, c') \<and> pmksa_count c' = pmksa_count c + 1"
proof -
  obtain c where c: "represents c [sample_entry]" using sample_added by blast
  then obtain L H where "cache_ok {} c L H" by (auto simp: represents_def)
  then have "finite (dom (mem c))" by (simp add: cache_ok_def)
  then obtain r where "mem c r = None" using ex_new_if_finite [OF infinite_UNIV_nat] by blast
  with pmksa_okc_unlimited [OF c, of r 200 sample_entry "replicate 16 4"] c show ?thesis by blast
qed

theorem pmksa_session_roundtrip_witness: "pmksa_cache_to_eapol_data (Some sample_entry)
    (Some (sample_session\<lparr>ses_identity := None, ses_acct_id := 0\<rparr>)) = Some sample_session"
  using pmksa_session_roundtrip [OF sample_contents, of "sample_session\<lparr>ses_identity := None, ses_acct_id := 0\<rparr>"]
  by (simp add: sample_session_def)

end
