(* ===== verification/RsnSuites.thy ===== *)
theory RsnSuites
  imports PmksaCache
begin

unbundle bit_operations_syntax

text \<open>
  Cipher suites and key management suites of RSN and WPA: the bit fields of
  \<open>src/mininet-wifi/hostap/src/common/defs.h\<close>, the selectors of \<open>wpa_common.h\<close> and the conversions between
  them in \<open>wpa_common.c\<close>.  Compile-time options that select suites are fields of \<open>build\<close>;
  \<open>CONFIG_RSN_TESTING\<close> and \<open>CONFIG_TESTING_OPTIONS\<close> are not set.
\<close>

section \<open>Build options\<close>

text \<open>The makefiles set \<open>CONFIG_IEEE80211R_AP\<close> together with \<open>CONFIG_IEEE80211R\<close>.\<close>

record build =
  CONFIG_IEEE80211R :: bool
  CONFIG_SHA384 :: bool
  CONFIG_SAE :: bool
  CONFIG_FILS :: bool
  CONFIG_OWE :: bool
  CONFIG_DPP :: bool
  CONFIG_DPP2 :: bool
  CONFIG_PASN :: bool
  CONFIG_OCV :: bool
  CONFIG_SAE_PK :: bool
  CONFIG_NO_TKIP :: bool

section \<open>Bits\<close>

definition WPA_CIPHER_NONE :: u32 where "WPA_CIPHER_NONE = 0x1"
definition WPA_CIPHER_TKIP :: u32 where "WPA_CIPHER_TKIP = 0x8"
definition WPA_CIPHER_CCMP :: u32 where "WPA_CIPHER_CCMP = 0x10"
definition WPA_CIPHER_AES_128_CMAC :: u32 where "WPA_CIPHER_AES_128_CMAC = 0x20"
definition WPA_CIPHER_GCMP :: u32 where "WPA_CIPHER_GCMP = 0x40"
definition WPA_CIPHER_GCMP_256 :: u32 where "WPA_CIPHER_GCMP_256 = 0x100"
definition WPA_CIPHER_CCMP_256 :: u32 where "WPA_CIPHER_CCMP_256 = 0x200"
definition WPA_CIPHER_BIP_GMAC_128 :: u32 where "WPA_CIPHER_BIP_GMAC_128 = 0x800"
definition WPA_CIPHER_BIP_GMAC_256 :: u32 where "WPA_CIPHER_BIP_GMAC_256 = 0x1000"
definition WPA_CIPHER_BIP_CMAC_256 :: u32 where "WPA_CIPHER_BIP_CMAC_256 = 0x2000"
definition WPA_CIPHER_GTK_NOT_USED :: u32 where "WPA_CIPHER_GTK_NOT_USED = 0x4000"

definition WPA_KEY_MGMT_IEEE8021X :: u32 where "WPA_KEY_MGMT_IEEE8021X = 0x1"
definition WPA_KEY_MGMT_PSK :: u32 where "WPA_KEY_MGMT_PSK = 0x2"
definition WPA_KEY_MGMT_WPA_NONE :: u32 where "WPA_KEY_MGMT_WPA_NONE = 0x10"
definition WPA_KEY_MGMT_FT_PSK :: u32 where "WPA_KEY_MGMT_FT_PSK = 0x40"
definition WPA_KEY_MGMT_CCKM :: u32 where "WPA_KEY_MGMT_CCKM = 0x4000"
definition WPA_KEY_MGMT_OWE :: u32 where "WPA_KEY_MGMT_OWE = 0x400000"
definition WPA_KEY_MGMT_DPP :: u32 where "WPA_KEY_MGMT_DPP = 0x800000"
definition WPA_KEY_MGMT_PASN :: u32 where "WPA_KEY_MGMT_PASN = 0x2000000"

lemmas cipher_defs =
  WPA_CIPHER_NONE_def WPA_CIPHER_TKIP_def WPA_CIPHER_CCMP_def WPA_CIPHER_AES_128_CMAC_def WPA_CIPHER_GCMP_def
  WPA_CIPHER_GCMP_256_def WPA_CIPHER_CCMP_256_def WPA_CIPHER_BIP_GMAC_128_def WPA_CIPHER_BIP_GMAC_256_def
  WPA_CIPHER_BIP_CMAC_256_def WPA_CIPHER_GTK_NOT_USED_def

lemmas akm_defs =
  WPA_KEY_MGMT_IEEE8021X_def WPA_KEY_MGMT_PSK_def WPA_KEY_MGMT_WPA_NONE_def WPA_KEY_MGMT_FT_PSK_def
  WPA_KEY_MGMT_CCKM_def WPA_KEY_MGMT_OWE_def WPA_KEY_MGMT_DPP_def WPA_KEY_MGMT_PASN_def WPA_KEY_MGMT_FILS_SHA256_def
  WPA_KEY_MGMT_FILS_SHA384_def WPA_KEY_MGMT_FT_FILS_SHA256_def WPA_KEY_MGMT_FT_FILS_SHA384_def
  WPA_KEY_MGMT_FT_IEEE8021X_def WPA_KEY_MGMT_FT_IEEE8021X_SHA384_def WPA_KEY_MGMT_FT_SAE_def
  WPA_KEY_MGMT_FT_SAE_EXT_KEY_def WPA_KEY_MGMT_IEEE8021X_SHA256_def WPA_KEY_MGMT_IEEE8021X_SHA384_def
  WPA_KEY_MGMT_IEEE8021X_SUITE_B_def WPA_KEY_MGMT_IEEE8021X_SUITE_B_192_def WPA_KEY_MGMT_PSK_SHA256_def
  WPA_KEY_MGMT_SAE_def WPA_KEY_MGMT_SAE_EXT_KEY_def

section \<open>Selectors\<close>

definition WPA_AUTH_KEY_MGMT_NONE :: u32 where "WPA_AUTH_KEY_MGMT_NONE = 0x0050f200"
definition WPA_AUTH_KEY_MGMT_UNSPEC_802_1X :: u32 where "WPA_AUTH_KEY_MGMT_UNSPEC_802_1X = 0x0050f201"
definition WPA_AUTH_KEY_MGMT_PSK_OVER_802_1X :: u32 where "WPA_AUTH_KEY_MGMT_PSK_OVER_802_1X = 0x0050f202"
definition WPA_CIPHER_SUITE_NONE :: u32 where "WPA_CIPHER_SUITE_NONE = 0x0050f200"
definition WPA_CIPHER_SUITE_TKIP :: u32 where "WPA_CIPHER_SUITE_TKIP = 0x0050f202"
definition WPA_CIPHER_SUITE_CCMP :: u32 where "WPA_CIPHER_SUITE_CCMP = 0x0050f204"
definition RSN_AUTH_KEY_MGMT_UNSPEC_802_1X :: u32 where "RSN_AUTH_KEY_MGMT_UNSPEC_802_1X = 0x000fac01"
definition RSN_AUTH_KEY_MGMT_PSK_OVER_802_1X :: u32 where "RSN_AUTH_KEY_MGMT_PSK_OVER_802_1X = 0x000fac02"
definition RSN_AUTH_KEY_MGMT_FT_802_1X :: u32 where "RSN_AUTH_KEY_MGMT_FT_802_1X = 0x000fac03"
definition RSN_AUTH_KEY_MGMT_FT_PSK :: u32 where "RSN_AUTH_KEY_MGMT_FT_PSK = 0x000fac04"
definition RSN_AUTH_KEY_MGMT_802_1X_SHA256 :: u32 where "RSN_AUTH_KEY_MGMT_802_1X_SHA256 = 0x000fac05"
definition RSN_AUTH_KEY_MGMT_PSK_SHA256 :: u32 where "RSN_AUTH_KEY_MGMT_PSK_SHA256 = 0x000fac06"
definition RSN_AUTH_KEY_MGMT_SAE :: u32 where "RSN_AUTH_KEY_MGMT_SAE = 0x000fac08"
definition RSN_AUTH_KEY_MGMT_FT_SAE :: u32 where "RSN_AUTH_KEY_MGMT_FT_SAE = 0x000fac09"
definition RSN_AUTH_KEY_MGMT_802_1X_SUITE_B :: u32 where "RSN_AUTH_KEY_MGMT_802_1X_SUITE_B = 0x000fac0b"
definition RSN_AUTH_KEY_MGMT_802_1X_SUITE_B_192 :: u32 where "RSN_AUTH_KEY_MGMT_802_1X_SUITE_B_192 = 0x000fac0c"
definition RSN_AUTH_KEY_MGMT_FT_802_1X_SHA384 :: u32 where "RSN_AUTH_KEY_MGMT_FT_802_1X_SHA384 = 0x000fac0d"
definition RSN_AUTH_KEY_MGMT_FILS_SHA256 :: u32 where "RSN_AUTH_KEY_MGMT_FILS_SHA256 = 0x000fac0e"
definition RSN_AUTH_KEY_MGMT_FILS_SHA384 :: u32 where "RSN_AUTH_KEY_MGMT_FILS_SHA384 = 0x000fac0f"
definition RSN_AUTH_KEY_MGMT_FT_FILS_SHA256 :: u32 where "RSN_AUTH_KEY_MGMT_FT_FILS_SHA256 = 0x000fac10"
definition RSN_AUTH_KEY_MGMT_FT_FILS_SHA384 :: u32 where "RSN_AUTH_KEY_MGMT_FT_FILS_SHA384 = 0x000fac11"
definition RSN_AUTH_KEY_MGMT_OWE :: u32 where "RSN_AUTH_KEY_MGMT_OWE = 0x000fac12"
definition RSN_AUTH_KEY_MGMT_PASN :: u32 where "RSN_AUTH_KEY_MGMT_PASN = 0x000fac15"
definition RSN_AUTH_KEY_MGMT_802_1X_SHA384 :: u32 where "RSN_AUTH_KEY_MGMT_802_1X_SHA384 = 0x000fac17"
definition RSN_AUTH_KEY_MGMT_SAE_EXT_KEY :: u32 where "RSN_AUTH_KEY_MGMT_SAE_EXT_KEY = 0x000fac18"
definition RSN_AUTH_KEY_MGMT_FT_SAE_EXT_KEY :: u32 where "RSN_AUTH_KEY_MGMT_FT_SAE_EXT_KEY = 0x000fac19"
definition RSN_AUTH_KEY_MGMT_CCKM :: u32 where "RSN_AUTH_KEY_MGMT_CCKM = 0x00409600"
definition RSN_AUTH_KEY_MGMT_DPP :: u32 where "RSN_AUTH_KEY_MGMT_DPP = 0x506f9a02"
definition RSN_CIPHER_SUITE_NONE :: u32 where "RSN_CIPHER_SUITE_NONE = 0x000fac00"
definition RSN_CIPHER_SUITE_TKIP :: u32 where "RSN_CIPHER_SUITE_TKIP = 0x000fac02"
definition RSN_CIPHER_SUITE_CCMP :: u32 where "RSN_CIPHER_SUITE_CCMP = 0x000fac04"
definition RSN_CIPHER_SUITE_AES_128_CMAC :: u32 where "RSN_CIPHER_SUITE_AES_128_CMAC = 0x000fac06"
definition RSN_CIPHER_SUITE_NO_GROUP_ADDRESSED :: u32 where "RSN_CIPHER_SUITE_NO_GROUP_ADDRESSED = 0x000fac07"
definition RSN_CIPHER_SUITE_GCMP :: u32 where "RSN_CIPHER_SUITE_GCMP = 0x000fac08"
definition RSN_CIPHER_SUITE_GCMP_256 :: u32 where "RSN_CIPHER_SUITE_GCMP_256 = 0x000fac09"
definition RSN_CIPHER_SUITE_CCMP_256 :: u32 where "RSN_CIPHER_SUITE_CCMP_256 = 0x000fac0a"
definition RSN_CIPHER_SUITE_BIP_GMAC_128 :: u32 where "RSN_CIPHER_SUITE_BIP_GMAC_128 = 0x000fac0b"
definition RSN_CIPHER_SUITE_BIP_GMAC_256 :: u32 where "RSN_CIPHER_SUITE_BIP_GMAC_256 = 0x000fac0c"
definition RSN_CIPHER_SUITE_BIP_CMAC_256 :: u32 where "RSN_CIPHER_SUITE_BIP_CMAC_256 = 0x000fac0d"
definition WPA_OUI_TYPE :: u32 where "WPA_OUI_TYPE = 0x0050f201"

lemmas selector_defs =
  WPA_AUTH_KEY_MGMT_NONE_def WPA_AUTH_KEY_MGMT_UNSPEC_802_1X_def WPA_AUTH_KEY_MGMT_PSK_OVER_802_1X_def
  WPA_CIPHER_SUITE_NONE_def WPA_CIPHER_SUITE_TKIP_def WPA_CIPHER_SUITE_CCMP_def RSN_AUTH_KEY_MGMT_UNSPEC_802_1X_def
  RSN_AUTH_KEY_MGMT_PSK_OVER_802_1X_def RSN_AUTH_KEY_MGMT_FT_802_1X_def RSN_AUTH_KEY_MGMT_FT_PSK_def
  RSN_AUTH_KEY_MGMT_802_1X_SHA256_def RSN_AUTH_KEY_MGMT_PSK_SHA256_def RSN_AUTH_KEY_MGMT_SAE_def
  RSN_AUTH_KEY_MGMT_FT_SAE_def RSN_AUTH_KEY_MGMT_802_1X_SUITE_B_def RSN_AUTH_KEY_MGMT_802_1X_SUITE_B_192_def
  RSN_AUTH_KEY_MGMT_FT_802_1X_SHA384_def RSN_AUTH_KEY_MGMT_FILS_SHA256_def RSN_AUTH_KEY_MGMT_FILS_SHA384_def
  RSN_AUTH_KEY_MGMT_FT_FILS_SHA256_def RSN_AUTH_KEY_MGMT_FT_FILS_SHA384_def RSN_AUTH_KEY_MGMT_OWE_def
  RSN_AUTH_KEY_MGMT_PASN_def RSN_AUTH_KEY_MGMT_802_1X_SHA384_def RSN_AUTH_KEY_MGMT_SAE_EXT_KEY_def
  RSN_AUTH_KEY_MGMT_FT_SAE_EXT_KEY_def RSN_AUTH_KEY_MGMT_CCKM_def RSN_AUTH_KEY_MGMT_DPP_def RSN_CIPHER_SUITE_NONE_def
  RSN_CIPHER_SUITE_TKIP_def RSN_CIPHER_SUITE_CCMP_def RSN_CIPHER_SUITE_AES_128_CMAC_def
  RSN_CIPHER_SUITE_NO_GROUP_ADDRESSED_def RSN_CIPHER_SUITE_GCMP_def RSN_CIPHER_SUITE_GCMP_256_def
  RSN_CIPHER_SUITE_CCMP_256_def RSN_CIPHER_SUITE_BIP_GMAC_128_def RSN_CIPHER_SUITE_BIP_GMAC_256_def
  RSN_CIPHER_SUITE_BIP_CMAC_256_def WPA_OUI_TYPE_def

section \<open>Groups of key management suites\<close>

definition WPA_KEY_MGMT_FT :: u32 where
  "WPA_KEY_MGMT_FT = WPA_KEY_MGMT_FT_PSK OR WPA_KEY_MGMT_FT_IEEE8021X OR WPA_KEY_MGMT_FT_IEEE8021X_SHA384 OR
    WPA_KEY_MGMT_FT_SAE OR WPA_KEY_MGMT_FT_SAE_EXT_KEY OR WPA_KEY_MGMT_FT_FILS_SHA256 OR WPA_KEY_MGMT_FT_FILS_SHA384"

definition wpa_key_mgmt_ft :: "u32 \<Rightarrow> bool" where
  "wpa_key_mgmt_ft akm \<longleftrightarrow> akm AND WPA_KEY_MGMT_FT \<noteq> 0"

definition wpa_key_mgmt_only_ft :: "u32 \<Rightarrow> bool" where
  "wpa_key_mgmt_only_ft akm \<longleftrightarrow> wpa_key_mgmt_ft akm \<and> akm AND NOT WPA_KEY_MGMT_FT = 0"

definition wpa_key_mgmt_sae_ext_key :: "u32 \<Rightarrow> bool" where
  "wpa_key_mgmt_sae_ext_key akm \<longleftrightarrow> akm AND (WPA_KEY_MGMT_SAE_EXT_KEY OR WPA_KEY_MGMT_FT_SAE_EXT_KEY) \<noteq> 0"

section \<open>From selectors to bits\<close>

text \<open>A \<open>switch\<close> is a table of the cases that are compiled in.\<close>

definition switch :: "('k \<times> 'v) list \<Rightarrow> 'v \<Rightarrow> 'k \<Rightarrow> 'v" where
  "switch cases dflt k = (case map_of cases k of Some v \<Rightarrow> v | None \<Rightarrow> dflt)"

definition rsn_cipher_suite_to_wpa_cipher :: "u32 \<Rightarrow> u32" where
  "rsn_cipher_suite_to_wpa_cipher = switch
    [(RSN_CIPHER_SUITE_NONE, WPA_CIPHER_NONE), (RSN_CIPHER_SUITE_TKIP, WPA_CIPHER_TKIP),
     (RSN_CIPHER_SUITE_CCMP, WPA_CIPHER_CCMP), (RSN_CIPHER_SUITE_AES_128_CMAC, WPA_CIPHER_AES_128_CMAC),
     (RSN_CIPHER_SUITE_GCMP, WPA_CIPHER_GCMP), (RSN_CIPHER_SUITE_CCMP_256, WPA_CIPHER_CCMP_256),
     (RSN_CIPHER_SUITE_GCMP_256, WPA_CIPHER_GCMP_256), (RSN_CIPHER_SUITE_BIP_GMAC_128, WPA_CIPHER_BIP_GMAC_128),
     (RSN_CIPHER_SUITE_BIP_GMAC_256, WPA_CIPHER_BIP_GMAC_256), (RSN_CIPHER_SUITE_BIP_CMAC_256, WPA_CIPHER_BIP_CMAC_256),
     (RSN_CIPHER_SUITE_NO_GROUP_ADDRESSED, WPA_CIPHER_GTK_NOT_USED)] 0"

text \<open>\<open>#ifdef\<close>: the entries that the build contains.\<close>

definition compiled :: "(bool \<times> 'a) list \<Rightarrow> 'a list" where
  "compiled xs = map snd (filter fst xs)"

definition rsn_key_mgmt_cases :: "build \<Rightarrow> (u32 \<times> u32) list" where
  "rsn_key_mgmt_cases C = compiled
    [(True, RSN_AUTH_KEY_MGMT_UNSPEC_802_1X, WPA_KEY_MGMT_IEEE8021X),
     (True, RSN_AUTH_KEY_MGMT_PSK_OVER_802_1X, WPA_KEY_MGMT_PSK),
     (CONFIG_IEEE80211R C, RSN_AUTH_KEY_MGMT_FT_802_1X, WPA_KEY_MGMT_FT_IEEE8021X),
     (CONFIG_IEEE80211R C, RSN_AUTH_KEY_MGMT_FT_PSK, WPA_KEY_MGMT_FT_PSK),
     (CONFIG_IEEE80211R C \<and> CONFIG_SHA384 C, RSN_AUTH_KEY_MGMT_FT_802_1X_SHA384, WPA_KEY_MGMT_FT_IEEE8021X_SHA384),
     (CONFIG_SHA384 C, RSN_AUTH_KEY_MGMT_802_1X_SHA384, WPA_KEY_MGMT_IEEE8021X_SHA384),
     (True, RSN_AUTH_KEY_MGMT_802_1X_SHA256, WPA_KEY_MGMT_IEEE8021X_SHA256),
     (True, RSN_AUTH_KEY_MGMT_PSK_SHA256, WPA_KEY_MGMT_PSK_SHA256),
     (CONFIG_SAE C, RSN_AUTH_KEY_MGMT_SAE, WPA_KEY_MGMT_SAE),
     (CONFIG_SAE C, RSN_AUTH_KEY_MGMT_SAE_EXT_KEY, WPA_KEY_MGMT_SAE_EXT_KEY),
     (CONFIG_SAE C, RSN_AUTH_KEY_MGMT_FT_SAE, WPA_KEY_MGMT_FT_SAE),
     (CONFIG_SAE C, RSN_AUTH_KEY_MGMT_FT_SAE_EXT_KEY, WPA_KEY_MGMT_FT_SAE_EXT_KEY),
     (True, RSN_AUTH_KEY_MGMT_802_1X_SUITE_B, WPA_KEY_MGMT_IEEE8021X_SUITE_B),
     (True, RSN_AUTH_KEY_MGMT_802_1X_SUITE_B_192, WPA_KEY_MGMT_IEEE8021X_SUITE_B_192),
     (True, RSN_AUTH_KEY_MGMT_FILS_SHA256, WPA_KEY_MGMT_FILS_SHA256),
     (True, RSN_AUTH_KEY_MGMT_FILS_SHA384, WPA_KEY_MGMT_FILS_SHA384),
     (True, RSN_AUTH_KEY_MGMT_FT_FILS_SHA256, WPA_KEY_MGMT_FT_FILS_SHA256),
     (True, RSN_AUTH_KEY_MGMT_FT_FILS_SHA384, WPA_KEY_MGMT_FT_FILS_SHA384),
     (CONFIG_OWE C, RSN_AUTH_KEY_MGMT_OWE, WPA_KEY_MGMT_OWE),
     (CONFIG_DPP C, RSN_AUTH_KEY_MGMT_DPP, WPA_KEY_MGMT_DPP),
     (CONFIG_PASN C, RSN_AUTH_KEY_MGMT_PASN, WPA_KEY_MGMT_PASN)]"

definition rsn_key_mgmt_to_wpa_akm :: "build \<Rightarrow> u32 \<Rightarrow> u32" where
  "rsn_key_mgmt_to_wpa_akm C = switch (rsn_key_mgmt_cases C) 0"

definition wpa_selector_to_bitfield :: "u32 \<Rightarrow> u32" where
  "wpa_selector_to_bitfield s =
    (if s = WPA_CIPHER_SUITE_NONE then WPA_CIPHER_NONE
     else if s = WPA_CIPHER_SUITE_TKIP then WPA_CIPHER_TKIP
     else if s = WPA_CIPHER_SUITE_CCMP then WPA_CIPHER_CCMP else 0)"

definition wpa_key_mgmt_to_bitfield :: "u32 \<Rightarrow> u32" where
  "wpa_key_mgmt_to_bitfield s =
    (if s = WPA_AUTH_KEY_MGMT_UNSPEC_802_1X then WPA_KEY_MGMT_IEEE8021X
     else if s = WPA_AUTH_KEY_MGMT_PSK_OVER_802_1X then WPA_KEY_MGMT_PSK
     else if s = WPA_AUTH_KEY_MGMT_NONE then WPA_KEY_MGMT_WPA_NONE else 0)"

definition wpa_cipher_valid_pairwise :: "build \<Rightarrow> u32 \<Rightarrow> bool" where
  "wpa_cipher_valid_pairwise C cipher \<longleftrightarrow>
    cipher = WPA_CIPHER_CCMP_256 \<or> cipher = WPA_CIPHER_GCMP_256 \<or> cipher = WPA_CIPHER_CCMP \<or> cipher = WPA_CIPHER_GCMP \<or>
    \<not> CONFIG_NO_TKIP C \<and> cipher = WPA_CIPHER_TKIP"

definition wpa_cipher_valid_group :: "build \<Rightarrow> u32 \<Rightarrow> bool" where
  "wpa_cipher_valid_group C cipher \<longleftrightarrow> wpa_cipher_valid_pairwise C cipher \<or> cipher = WPA_CIPHER_GTK_NOT_USED"

definition wpa_cipher_valid_mgmt_group :: "u32 \<Rightarrow> bool" where
  "wpa_cipher_valid_mgmt_group cipher \<longleftrightarrow>
    cipher = WPA_CIPHER_GTK_NOT_USED \<or> cipher = WPA_CIPHER_AES_128_CMAC \<or> cipher = WPA_CIPHER_BIP_GMAC_128 \<or>
    cipher = WPA_CIPHER_BIP_GMAC_256 \<or> cipher = WPA_CIPHER_BIP_CMAC_256"

section \<open>From bits to selectors\<close>

text \<open>\<open>if (x & A) return a; if (x & B) return b; ...; return d;\<close>\<close>

definition first_set :: "u32 \<Rightarrow> (u32 \<times> 'a) list \<Rightarrow> 'a \<Rightarrow> 'a" where
  "first_set x cases dflt = (case find (\<lambda>c. x AND fst c \<noteq> 0) cases of Some c \<Rightarrow> snd c | None \<Rightarrow> dflt)"

text \<open>\<open>if (x & A) put(a); if (x & B) put(b); ...\<close>\<close>

definition all_set :: "u32 \<Rightarrow> (u32 \<times> 'a) list \<Rightarrow> 'a list" where
  "all_set x cases = map snd (filter (\<lambda>c. x AND fst c \<noteq> 0) cases)"

datatype wpa_proto = WPA_PROTO_WPA | WPA_PROTO_RSN

definition wpa_cipher_to_suite :: "wpa_proto \<Rightarrow> u32 \<Rightarrow> u32" where
  "wpa_cipher_to_suite proto cipher = first_set cipher
    [(WPA_CIPHER_CCMP_256, RSN_CIPHER_SUITE_CCMP_256), (WPA_CIPHER_GCMP_256, RSN_CIPHER_SUITE_GCMP_256),
     (WPA_CIPHER_CCMP, if proto = WPA_PROTO_RSN then RSN_CIPHER_SUITE_CCMP else WPA_CIPHER_SUITE_CCMP),
     (WPA_CIPHER_GCMP, RSN_CIPHER_SUITE_GCMP),
     (WPA_CIPHER_TKIP, if proto = WPA_PROTO_RSN then RSN_CIPHER_SUITE_TKIP else WPA_CIPHER_SUITE_TKIP),
     (WPA_CIPHER_NONE, if proto = WPA_PROTO_RSN then RSN_CIPHER_SUITE_NONE else WPA_CIPHER_SUITE_NONE),
     (WPA_CIPHER_GTK_NOT_USED, RSN_CIPHER_SUITE_NO_GROUP_ADDRESSED), (WPA_CIPHER_AES_128_CMAC, RSN_CIPHER_SUITE_AES_128_CMAC),
     (WPA_CIPHER_BIP_GMAC_128, RSN_CIPHER_SUITE_BIP_GMAC_128), (WPA_CIPHER_BIP_GMAC_256, RSN_CIPHER_SUITE_BIP_GMAC_256),
     (WPA_CIPHER_BIP_CMAC_256, RSN_CIPHER_SUITE_BIP_CMAC_256)] 0"

definition rsn_cipher_put_suites :: "u32 \<Rightarrow> u32 list" where
  "rsn_cipher_put_suites ciphers = all_set ciphers
    [(WPA_CIPHER_CCMP_256, RSN_CIPHER_SUITE_CCMP_256), (WPA_CIPHER_GCMP_256, RSN_CIPHER_SUITE_GCMP_256),
     (WPA_CIPHER_CCMP, RSN_CIPHER_SUITE_CCMP), (WPA_CIPHER_GCMP, RSN_CIPHER_SUITE_GCMP),
     (WPA_CIPHER_TKIP, RSN_CIPHER_SUITE_TKIP), (WPA_CIPHER_NONE, RSN_CIPHER_SUITE_NONE)]"

definition wpa_cipher_put_suites :: "u32 \<Rightarrow> u32 list" where
  "wpa_cipher_put_suites ciphers = all_set ciphers
    [(WPA_CIPHER_CCMP, WPA_CIPHER_SUITE_CCMP), (WPA_CIPHER_TKIP, WPA_CIPHER_SUITE_TKIP), (WPA_CIPHER_NONE, WPA_CIPHER_SUITE_NONE)]"

text \<open>\<open>None\<close> stands for the result \<open>-1\<close>.\<close>

definition wpa_pick_pairwise_cipher :: "u32 \<Rightarrow> bool \<Rightarrow> u32 option" where
  "wpa_pick_pairwise_cipher ciphers none_allowed = first_set ciphers
    ([(WPA_CIPHER_GCMP_256, Some WPA_CIPHER_GCMP_256), (WPA_CIPHER_CCMP_256, Some WPA_CIPHER_CCMP_256),
      (WPA_CIPHER_CCMP, Some WPA_CIPHER_CCMP), (WPA_CIPHER_GCMP, Some WPA_CIPHER_GCMP), (WPA_CIPHER_TKIP, Some WPA_CIPHER_TKIP)] @
     (if none_allowed then [(WPA_CIPHER_NONE, Some WPA_CIPHER_NONE)] else [])) None"

definition wpa_pick_group_cipher :: "u32 \<Rightarrow> u32 option" where
  "wpa_pick_group_cipher ciphers = first_set ciphers
    [(WPA_CIPHER_GCMP_256, Some WPA_CIPHER_GCMP_256), (WPA_CIPHER_CCMP_256, Some WPA_CIPHER_CCMP_256),
     (WPA_CIPHER_CCMP, Some WPA_CIPHER_CCMP), (WPA_CIPHER_GCMP, Some WPA_CIPHER_GCMP),
     (WPA_CIPHER_GTK_NOT_USED, Some WPA_CIPHER_GTK_NOT_USED), (WPA_CIPHER_TKIP, Some WPA_CIPHER_TKIP)] None"

definition wpa_akm_to_suite :: "build \<Rightarrow> u32 \<Rightarrow> u32" where
  "wpa_akm_to_suite C akm = first_set akm (compiled
    [(True, WPA_KEY_MGMT_FT_IEEE8021X_SHA384, RSN_AUTH_KEY_MGMT_FT_802_1X_SHA384),
     (True, WPA_KEY_MGMT_FT_IEEE8021X, RSN_AUTH_KEY_MGMT_FT_802_1X), (True, WPA_KEY_MGMT_FT_PSK, RSN_AUTH_KEY_MGMT_FT_PSK),
     (True, WPA_KEY_MGMT_IEEE8021X_SHA384, RSN_AUTH_KEY_MGMT_802_1X_SHA384),
     (True, WPA_KEY_MGMT_IEEE8021X_SHA256, RSN_AUTH_KEY_MGMT_802_1X_SHA256),
     (True, WPA_KEY_MGMT_IEEE8021X, RSN_AUTH_KEY_MGMT_UNSPEC_802_1X), (True, WPA_KEY_MGMT_PSK_SHA256, RSN_AUTH_KEY_MGMT_PSK_SHA256),
     (True, WPA_KEY_MGMT_PSK, RSN_AUTH_KEY_MGMT_PSK_OVER_802_1X), (True, WPA_KEY_MGMT_CCKM, RSN_AUTH_KEY_MGMT_CCKM),
     (True, WPA_KEY_MGMT_IEEE8021X_SUITE_B, RSN_AUTH_KEY_MGMT_802_1X_SUITE_B),
     (True, WPA_KEY_MGMT_IEEE8021X_SUITE_B_192, RSN_AUTH_KEY_MGMT_802_1X_SUITE_B_192),
     (True, WPA_KEY_MGMT_FILS_SHA256, RSN_AUTH_KEY_MGMT_FILS_SHA256), (True, WPA_KEY_MGMT_FILS_SHA384, RSN_AUTH_KEY_MGMT_FILS_SHA384),
     (True, WPA_KEY_MGMT_FT_FILS_SHA256, RSN_AUTH_KEY_MGMT_FT_FILS_SHA256),
     (True, WPA_KEY_MGMT_FT_FILS_SHA384, RSN_AUTH_KEY_MGMT_FT_FILS_SHA384), (True, WPA_KEY_MGMT_SAE, RSN_AUTH_KEY_MGMT_SAE),
     (True, WPA_KEY_MGMT_SAE_EXT_KEY, RSN_AUTH_KEY_MGMT_SAE_EXT_KEY), (True, WPA_KEY_MGMT_FT_SAE, RSN_AUTH_KEY_MGMT_FT_SAE),
     (True, WPA_KEY_MGMT_FT_SAE_EXT_KEY, RSN_AUTH_KEY_MGMT_FT_SAE_EXT_KEY), (True, WPA_KEY_MGMT_OWE, RSN_AUTH_KEY_MGMT_OWE),
     (True, WPA_KEY_MGMT_DPP, RSN_AUTH_KEY_MGMT_DPP), (CONFIG_PASN C, WPA_KEY_MGMT_PASN, RSN_AUTH_KEY_MGMT_PASN)]) 0"

section \<open>Single bits\<close>

text \<open>A bit of a bit field; what a table of distinct bits and an \<open>OR\<close> of its entries say about a word.\<close>

definition flag_bit :: "u32 \<Rightarrow> bool" where
  "flag_bit b \<longleftrightarrow> (\<exists>n<32. b = 2 ^ n)"

lemma flag_bit_and: "flag_bit b \<Longrightarrow> x AND b \<noteq> 0 \<Longrightarrow> x AND b = b"
  unfolding flag_bit_def by (auto simp: and_exp_eq_0_iff_not_bit intro!: bit_word_eqI simp: bit_simps)

lemma flag_bit_neq: "flag_bit a \<Longrightarrow> flag_bit b \<Longrightarrow> a \<noteq> b \<Longrightarrow> a AND b = 0"
  unfolding flag_bit_def by (auto simp: and_exp_eq_0_iff_not_bit bit_simps)

lemma flag_bit_cipher:
  "flag_bit WPA_CIPHER_NONE" "flag_bit WPA_CIPHER_TKIP" "flag_bit WPA_CIPHER_CCMP" "flag_bit WPA_CIPHER_GCMP"
  "flag_bit WPA_CIPHER_GCMP_256" "flag_bit WPA_CIPHER_CCMP_256" "flag_bit WPA_CIPHER_GTK_NOT_USED"
  "flag_bit WPA_CIPHER_AES_128_CMAC" "flag_bit WPA_CIPHER_BIP_GMAC_128" "flag_bit WPA_CIPHER_BIP_GMAC_256"
  "flag_bit WPA_CIPHER_BIP_CMAC_256"
  unfolding flag_bit_def cipher_defs
  by (rule exI [of _ 0] exI [of _ 3] exI [of _ 4] exI [of _ 6] exI [of _ 8] exI [of _ 9] exI [of _ 14] exI [of _ 5]
    exI [of _ 11] exI [of _ 12] exI [of _ 13]; simp; fail)+

lemma flag_bit_akm:
  "flag_bit WPA_KEY_MGMT_FT_IEEE8021X" "flag_bit WPA_KEY_MGMT_IEEE8021X_SHA256" "flag_bit WPA_KEY_MGMT_PSK_SHA256"
  "flag_bit WPA_KEY_MGMT_SAE" "flag_bit WPA_KEY_MGMT_FT_SAE" "flag_bit WPA_KEY_MGMT_IEEE8021X_SUITE_B"
  "flag_bit WPA_KEY_MGMT_IEEE8021X_SUITE_B_192" "flag_bit WPA_KEY_MGMT_FILS_SHA256"
  "flag_bit WPA_KEY_MGMT_FILS_SHA384" "flag_bit WPA_KEY_MGMT_FT_FILS_SHA256" "flag_bit WPA_KEY_MGMT_FT_FILS_SHA384"
  "flag_bit WPA_KEY_MGMT_FT_IEEE8021X_SHA384" "flag_bit WPA_KEY_MGMT_SAE_EXT_KEY"
  "flag_bit WPA_KEY_MGMT_FT_SAE_EXT_KEY" "flag_bit WPA_KEY_MGMT_IEEE8021X_SHA384" "flag_bit WPA_KEY_MGMT_IEEE8021X"
  "flag_bit WPA_KEY_MGMT_PSK" "flag_bit WPA_KEY_MGMT_WPA_NONE" "flag_bit WPA_KEY_MGMT_FT_PSK"
  "flag_bit WPA_KEY_MGMT_CCKM" "flag_bit WPA_KEY_MGMT_OWE" "flag_bit WPA_KEY_MGMT_DPP" "flag_bit WPA_KEY_MGMT_PASN"
  unfolding flag_bit_def akm_defs
  by (rule exI [of _ 0] exI [of _ 1] exI [of _ 4] exI [of _ 5] exI [of _ 6] exI [of _ 7] exI [of _ 8]
    exI [of _ 10] exI [of _ 11] exI [of _ 14] exI [of _ 16] exI [of _ 17] exI [of _ 18] exI [of _ 19]
    exI [of _ 20] exI [of _ 21] exI [of _ 22] exI [of _ 23] exI [of _ 24] exI [of _ 25] exI [of _ 26]
    exI [of _ 27] exI [of _ 28]; simp; fail)+

definition or_all :: "u32 list \<Rightarrow> u32" where
  "or_all xs = foldr (OR) xs 0"

lemma or_all_simps [simp]: "or_all [] = 0" "or_all (x # xs) = x OR or_all xs" "or_all (xs @ ys) = or_all xs OR or_all ys"
  by (induction xs) (simp_all add: or_all_def or.assoc)

lemma or_all_set:
  "\<forall>c\<in>set cases. flag_bit (fst c) \<Longrightarrow>
    or_all (map fst (filter (\<lambda>c. x AND fst c \<noteq> 0) cases)) = x AND or_all (map fst cases)"
proof (induction cases)
  case (Cons c cs)
  then show ?case using flag_bit_and [of "fst c" x] by (auto simp: bit.conj_disj_distrib)
qed simp

end
