(* ===== verification/RsnIe.thy ===== *)
theory RsnIe
  imports RsnSuites "HOL-Library.Monad_Syntax"
begin

text \<open>
  Parsing of the RSN and WPA information elements: \<open>wpa_parse_wpa_ie_rsn\<close>, \<open>wpa_parse_wpa_ie_wpa\<close> and
  \<open>wpa_compare_rsn_ie\<close> of \<open>src/mininet-wifi/hostap/src/common/wpa_common.c\<close>.  A pointer into the element is
  the suffix of the buffer that it points to; a read past the end of the buffer is \<open>None\<close>, so that ``the
  parser stays inside the buffer'' is a theorem.  A function that ends early returns \<open>Inl\<close> of its result, a
  stage that falls through returns \<open>Inr\<close> of the parser's state.
\<close>

section \<open>Fields of fixed width\<close>

text \<open>What the element code needs of an encoding: the writer produces \<open>width\<close> bytes that the reader takes off.\<close>

locale field =
  fixes width :: nat
    and put :: "'a \<Rightarrow> bytes"
    and get :: "bytes \<Rightarrow> ('a \<times> bytes) option"
  assumes length_put: "length (put v) = width"
    and get_put: "get (put v @ r) = Some (v, r)"
    and get_in: "width \<le> length bs \<Longrightarrow> \<exists>v. get bs = Some (v, drop width bs)"
    and get_out: "length bs < width \<Longrightarrow> get bs = None"

text \<open>\<open>n\<close> fields in a row.\<close>

primrec get_list :: "(bytes \<Rightarrow> ('a \<times> bytes) option) \<Rightarrow> nat \<Rightarrow> bytes \<Rightarrow> ('a list \<times> bytes) option" where
  "get_list get 0 bs = Some ([], bs)"
| "get_list get (Suc n) bs = do {
     (v, r) \<leftarrow> get bs;
     (vs, r') \<leftarrow> get_list get n r;
     Some (v # vs, r')
   }"

context field
begin

lemma get_Some_drop: "get bs = Some (v, r) \<Longrightarrow> r = drop width bs \<and> width \<le> length bs"
  using get_in [of bs] get_out [of bs] by (cases "width \<le> length bs") auto

lemma get_iff: "(\<exists>v r. get bs = Some (v, r)) \<longleftrightarrow> width \<le> length bs"
  using get_in [of bs] get_out [of bs] by (cases "width \<le> length bs") auto

lemma put_inject: "put v = put w \<longleftrightarrow> v = w"
proof
  assume "put v = put w"
  then show "v = w" using get_put [of v "[]"] get_put [of w "[]"] by simp
qed simp

lemma length_puts: "length (concat (map put vs)) = width * length vs"
  by (induction vs) (simp_all add: length_put)

lemma get_list_put: "get_list get (length vs) (concat (map put vs) @ r) = Some (vs, r)"
  by (induction vs) (simp_all add: get_put)

lemma get_list_in: "width * n \<le> length bs \<Longrightarrow> \<exists>vs. get_list get n bs = Some (vs, drop (width * n) bs) \<and> length vs = n"
proof (induction n arbitrary: bs)
  case (Suc n)
  then obtain v where "get bs = Some (v, drop width bs)" using get_in [of bs] by auto
  moreover have "width * n \<le> length (drop width bs)" using Suc.prems by simp
  ultimately show ?case using Suc.IH [of "drop width bs"] by (auto simp: algebra_simps)
qed simp

end

definition WPA_GET_LE16 :: "bytes \<Rightarrow> (u16 \<times> bytes) option" where
  "WPA_GET_LE16 a = (case a of
     b0 # b1 # r \<Rightarrow> Some (push_bit 8 (ucast b1) OR ucast b0, r) | _ \<Rightarrow> None)"

text \<open>\<open>RSN_SELECTOR_GET\<close> is \<open>WPA_GET_BE32\<close>, \<open>RSN_SELECTOR_PUT\<close> is \<open>WPA_PUT_BE32\<close>.\<close>

definition RSN_SELECTOR_GET :: "bytes \<Rightarrow> (u32 \<times> bytes) option" where
  "RSN_SELECTOR_GET a = (if 4 \<le> length a then Some (WPA_GET_BE32 a, drop 4 a) else None)"

lemma u16_split: "push_bit 8 (ucast (ucast (drop_bit 8 (v :: u16)) :: u8)) OR ucast (ucast (v AND 0xff) :: u8) = v"
  by (rule bit_word_eqI) (auto simp: bit_simps and_255_mask)

lemma WPA_GET_BE32_PUT [simp]: "WPA_GET_BE32 (WPA_PUT_BE32 s @ r) = s"
  by (simp add: WPA_GET_BE32_w32 WPA_PUT_BE32_def w32_split [symmetric])

interpretation le16: field 2 WPA_PUT_LE16 WPA_GET_LE16
proof
  show "\<exists>v. WPA_GET_LE16 bs = Some (v, drop 2 bs)" if "2 \<le> length bs" for bs
    using that by (cases bs; cases "tl bs") (auto simp: WPA_GET_LE16_def)
  show "WPA_GET_LE16 bs = None" if "length bs < 2" for bs
    using that by (cases bs; cases "tl bs") (auto simp: WPA_GET_LE16_def)
qed (simp_all add: WPA_PUT_LE16_def WPA_GET_LE16_def u16_split)

interpretation sel: field 4 WPA_PUT_BE32 RSN_SELECTOR_GET
  by standard (simp_all add: RSN_SELECTOR_GET_def byte_simps)

lemmas field_simps' [simp] = le16.get_put sel.get_put le16.length_put sel.length_put sel.length_puts

section \<open>The parsed element\<close>

text \<open>\<open>struct wpa_ie_data\<close>; \<open>ie_pmkid\<close> is the pointer to the list of PMKIDs, \<open>None\<close> for \<open>NULL\<close>.\<close>

record wpa_ie_data =
  ie_proto :: wpa_proto
  ie_pairwise_cipher :: u32
  ie_has_pairwise :: bool
  ie_group_cipher :: u32
  ie_has_group :: bool
  ie_key_mgmt :: u32
  ie_capabilities :: u16
  ie_num_pmkid :: nat
  ie_pmkid :: "bytes option"
  ie_mgmt_group_cipher :: u32

type_synonym ie_pos = "bytes \<times> nat \<times> wpa_ie_data"
type_synonym ie_stage = "ie_pos \<Rightarrow> ((int \<times> wpa_ie_data) + ie_pos) option"

definition WLAN_EID_RSN :: u8 where "WLAN_EID_RSN = 48"
definition WLAN_EID_VENDOR_SPECIFIC :: u8 where "WLAN_EID_VENDOR_SPECIFIC = 221"
definition RSN_VERSION :: u16 where "RSN_VERSION = 1"
definition WPA_VERSION :: u16 where "WPA_VERSION = 1"
definition RSNE_OVERRIDE_IE_VENDOR_TYPE :: u32 where "RSNE_OVERRIDE_IE_VENDOR_TYPE = 0x506f9a29"
definition RSNE_OVERRIDE_2_IE_VENDOR_TYPE :: u32 where "RSNE_OVERRIDE_2_IE_VENDOR_TYPE = 0x506f9a2a"

text \<open>Stages in sequence: an early return ends the function, a bad access the program.\<close>

primrec stages :: "('s \<Rightarrow> ('r + 's) option) list \<Rightarrow> 's \<Rightarrow> ('r + 's) option" where
  "stages [] s = Some (Inr s)"
| "stages (f # fs) s = do { x \<leftarrow> f s; case x of Inl r \<Rightarrow> Some (Inl r) | Inr s' \<Rightarrow> stages fs s' }"

text \<open>The value a function returns when it falls through to its final \<open>return 0\<close>.\<close>

definition ie_return :: "((int \<times> wpa_ie_data) + ie_pos) \<Rightarrow> int \<times> wpa_ie_data" where
  "ie_return x = (case x of Inl r \<Rightarrow> r | Inr (pos, left, d) \<Rightarrow> (0, d))"

text \<open>\<open>pos += n\<close> inside the buffer.\<close>

definition advance :: "nat \<Rightarrow> bytes \<Rightarrow> bytes option" where
  "advance n pos = (if n \<le> length pos then Some (drop n pos) else None)"

section \<open>Suite lists\<close>

text \<open>
  \<open>for (i = 0; i < count; i++) { acc |= to_bitfield(pos); pos += 4; left -= 4; }\<close>
\<close>

primrec suite_loop :: "(u32 \<Rightarrow> u32) \<Rightarrow> nat \<Rightarrow> u32 \<Rightarrow> bytes \<Rightarrow> nat \<Rightarrow> (u32 \<times> bytes \<times> nat) option" where
  "suite_loop to_bitfield 0 acc pos left = Some (acc, pos, left)"
| "suite_loop to_bitfield (Suc n) acc pos left = do {
     (s, pos) \<leftarrow> RSN_SELECTOR_GET pos;
     suite_loop to_bitfield n (acc OR to_bitfield s) pos (left - 4)
   }"

text \<open>
  A counted list of suites: \<open>upd\<close> stores the bit field, \<open>seen\<close> is what a non-empty count sets, \<open>botch\<close> and
  \<open>short\<close> are the error codes of a bad count and of a single left-over byte.
\<close>

definition suite_list ::
    "(u32 \<Rightarrow> u32) \<Rightarrow> (u32 \<Rightarrow> wpa_ie_data \<Rightarrow> wpa_ie_data) \<Rightarrow> (wpa_ie_data \<Rightarrow> wpa_ie_data) \<Rightarrow> int \<Rightarrow> int \<Rightarrow> ie_stage" where
  "suite_list to_bitfield upd seen botch short = (\<lambda>(pos, left, d).
     if 2 \<le> left then do {
       (count, pos) \<leftarrow> WPA_GET_LE16 pos;
       let left = left - 2;
       let d = upd 0 d;
       if unat count = 0 \<or> unat count > left div 4 then Some (Inl (botch, d))
       else do {
         (v, pos, left) \<leftarrow> suite_loop to_bitfield (unat count) 0 pos left;
         Some (Inr (pos, left, upd v (seen d)))
       }
     }
     else if left = 1 then Some (Inl (short, d))
     else Some (Inr (pos, left, d)))"

abbreviation "set_pairwise v d \<equiv> d\<lparr>ie_pairwise_cipher := v\<rparr>"
abbreviation "set_key_mgmt v d \<equiv> d\<lparr>ie_key_mgmt := v\<rparr>"
abbreviation "set_has_pairwise d \<equiv> d\<lparr>ie_has_pairwise := True\<rparr>"

definition ie_caps :: ie_stage where
  "ie_caps = (\<lambda>(pos, left, d).
     if 2 \<le> left then do {
       (v, pos) \<leftarrow> WPA_GET_LE16 pos;
       Some (Inr (pos, left - 2, d\<lparr>ie_capabilities := v\<rparr>))
     }
     else Some (Inr (pos, left, d)))"

section \<open>The RSN element\<close>

definition rsn_group :: "build \<Rightarrow> ie_stage" where
  "rsn_group C = (\<lambda>(pos, left, d).
     if 4 \<le> left then do {
       (s, rest) \<leftarrow> RSN_SELECTOR_GET pos;
       let d = d\<lparr>ie_group_cipher := rsn_cipher_suite_to_wpa_cipher s, ie_has_group := True\<rparr>;
       if \<not> wpa_cipher_valid_group C (ie_group_cipher d) then Some (Inl (-1, d))
       else Some (Inr (rest, left - 4, d))
     }
     else if left > 0 then Some (Inl (-3, d))
     else Some (Inr (pos, left, d)))"

text \<open>The test that follows the pairwise loop, inside the same branch.\<close>

definition rsn_pairwise_valid :: ie_stage where
  "rsn_pairwise_valid = (\<lambda>(pos, left, d).
     if ie_has_pairwise d \<and> ie_pairwise_cipher d AND WPA_CIPHER_AES_128_CMAC \<noteq> 0 then Some (Inl (-1, d))
     else Some (Inr (pos, left, d)))"

definition rsn_pmkids :: ie_stage where
  "rsn_pmkids = (\<lambda>(pos, left, d).
     if 2 \<le> left then do {
       (num_pmkid, pos) \<leftarrow> WPA_GET_LE16 pos;
       let left = left - 2;
       if unat num_pmkid > left div 16 then Some (Inl (-9, d\<lparr>ie_num_pmkid := 0\<rparr>))
       else do {
         rest \<leftarrow> advance (unat num_pmkid * 16) pos;
         Some (Inr (rest, left - unat num_pmkid * 16, d\<lparr>ie_num_pmkid := unat num_pmkid, ie_pmkid := Some pos\<rparr>))
       }
     }
     else Some (Inr (pos, left, d)))"

definition rsn_mgmt_group :: ie_stage where
  "rsn_mgmt_group = (\<lambda>(pos, left, d).
     if 4 \<le> left then do {
       (s, pos) \<leftarrow> RSN_SELECTOR_GET pos;
       let d = d\<lparr>ie_mgmt_group_cipher := rsn_cipher_suite_to_wpa_cipher s\<rparr>;
       if \<not> wpa_cipher_valid_mgmt_group (ie_mgmt_group_cipher d) then Some (Inl (-10, d))
       else Some (Inr (pos, left - 4, d))
     }
     else Some (Inr (pos, left, d)))"

definition rsn_fields :: "build \<Rightarrow> ie_stage list" where
  "rsn_fields C =
    [rsn_group C,
     suite_list rsn_cipher_suite_to_wpa_cipher set_pairwise set_has_pairwise (-4) (-5), rsn_pairwise_valid,
     suite_list (rsn_key_mgmt_to_wpa_akm C) set_key_mgmt id (-6) (-7), ie_caps, rsn_pmkids, rsn_mgmt_group]"

definition rsn_defaults :: wpa_ie_data where
  "rsn_defaults = \<lparr>ie_proto = WPA_PROTO_RSN, ie_pairwise_cipher = WPA_CIPHER_CCMP, ie_has_pairwise = False,
     ie_group_cipher = WPA_CIPHER_CCMP, ie_has_group = False, ie_key_mgmt = WPA_KEY_MGMT_IEEE8021X,
     ie_capabilities = 0, ie_num_pmkid = 0, ie_pmkid = None, ie_mgmt_group_cipher = WPA_CIPHER_AES_128_CMAC\<rparr>"

text \<open>Is this a vendor specific element of the RSN overriding kind? The tests read the element left to right.\<close>

definition rsn_override_hdr :: "bytes \<Rightarrow> nat \<Rightarrow> bool option" where
  "rsn_override_hdr ie len =
    (if 2 + 4 + 2 \<le> len then do {
       rest \<leftarrow> advance 1 ie;
       (l, rest) \<leftarrow> (case rest of [] \<Rightarrow> None | b # r \<Rightarrow> Some (b, r));
       if 4 + 2 \<le> unat l \<and> unat l = len - 2 then do {
         (ty, rest) \<leftarrow> RSN_SELECTOR_GET rest;
         if ty = RSNE_OVERRIDE_IE_VENDOR_TYPE \<or> ty = RSNE_OVERRIDE_2_IE_VENDOR_TYPE then do {
           (v, rest) \<leftarrow> WPA_GET_LE16 rest;
           Some (v = RSN_VERSION)
         } else Some False
       } else Some False
     } else Some False)"

definition wpa_parse_wpa_ie_rsn :: "build \<Rightarrow> bytes \<Rightarrow> nat \<Rightarrow> (int \<times> wpa_ie_data) option" where
  "wpa_parse_wpa_ie_rsn C ie len =
    (if len = 0 then Some (-1, rsn_defaults)
     else if len < 4 then Some (-1, rsn_defaults)
     else do {
       override \<leftarrow> rsn_override_hdr ie len;
       if override then do {
         pos \<leftarrow> advance (2 + 4 + 2) ie;
         map_option ie_return (stages (rsn_fields C) (pos, len - 2 - 4 - 2, rsn_defaults))
       }
       else (case ie of
         elem_id # l # rest \<Rightarrow> do {
           (v, pos) \<leftarrow> WPA_GET_LE16 rest;
           if elem_id \<noteq> WLAN_EID_RSN \<or> unat l \<noteq> len - 2 \<or> v \<noteq> RSN_VERSION then Some (-2, rsn_defaults)
           else map_option ie_return (stages (rsn_fields C) (pos, len - 4, rsn_defaults))
         }
       | _ \<Rightarrow> None)
     })"

section \<open>The WPA element\<close>

definition wpa_group_field :: ie_stage where
  "wpa_group_field = (\<lambda>(pos, left, d).
     if 4 \<le> left then do {
       (s, pos) \<leftarrow> RSN_SELECTOR_GET pos;
       Some (Inr (pos, left - 4, d\<lparr>ie_group_cipher := wpa_selector_to_bitfield s\<rparr>))
     }
     else if left > 0 then Some (Inl (-3, d))
     else Some (Inr (pos, left, d)))"

definition wpa_fields :: "ie_stage list" where
  "wpa_fields =
    [wpa_group_field, suite_list wpa_selector_to_bitfield set_pairwise id (-4) (-5),
     suite_list wpa_key_mgmt_to_bitfield set_key_mgmt id (-6) (-7), ie_caps]"

definition wpa_defaults :: wpa_ie_data where
  "wpa_defaults = \<lparr>ie_proto = WPA_PROTO_WPA, ie_pairwise_cipher = WPA_CIPHER_TKIP, ie_has_pairwise = False,
     ie_group_cipher = WPA_CIPHER_TKIP, ie_has_group = False, ie_key_mgmt = WPA_KEY_MGMT_IEEE8021X,
     ie_capabilities = 0, ie_num_pmkid = 0, ie_pmkid = None, ie_mgmt_group_cipher = 0\<rparr>"

definition wpa_parse_wpa_ie_wpa :: "bytes \<Rightarrow> nat \<Rightarrow> (int \<times> wpa_ie_data) option" where
  "wpa_parse_wpa_ie_wpa ie len =
    (if len < 8 then Some (-1, wpa_defaults)
     else (case ie of
       elem_id # l # rest \<Rightarrow> do {
         (oui, rest) \<leftarrow> RSN_SELECTOR_GET rest;
         (v, pos) \<leftarrow> WPA_GET_LE16 rest;
         if elem_id \<noteq> WLAN_EID_VENDOR_SPECIFIC \<or> unat l \<noteq> len - 2 \<or> oui \<noteq> WPA_OUI_TYPE \<or> v \<noteq> WPA_VERSION
         then Some (-2, wpa_defaults)
         else map_option ie_return (stages wpa_fields (pos, len - 8, wpa_defaults))
       }
     | _ \<Rightarrow> None))"

section \<open>No read outside the element\<close>

text \<open>The PMKID pointer has room for the PMKIDs that were counted.\<close>

definition pmkids_in :: "wpa_ie_data \<Rightarrow> bool" where
  "pmkids_in d \<longleftrightarrow> (case ie_pmkid d of None \<Rightarrow> ie_num_pmkid d = 0 | Some p \<Rightarrow> ie_num_pmkid d * 16 \<le> length p)"

text \<open>A stage is safe if it reads inside the \<open>left\<close> bytes and returns early only with an error.\<close>

fun safe_result :: "(int \<times> wpa_ie_data) + ie_pos \<Rightarrow> bool" where
  "safe_result (Inl (r, d)) = (r < 0 \<and> pmkids_in d)"
| "safe_result (Inr (pos, left, d)) = (left \<le> length pos \<and> pmkids_in d)"

definition safe_stage :: "ie_stage \<Rightarrow> bool" where
  "safe_stage f \<longleftrightarrow> (\<forall>s. safe_result (Inr s) \<longrightarrow> (\<exists>x. f s = Some x \<and> safe_result x))"

lemma safe_stageI:
  "(\<And>pos left d. left \<le> length pos \<Longrightarrow> pmkids_in d \<Longrightarrow> \<exists>x. f (pos, left, d) = Some x \<and> safe_result x) \<Longrightarrow>
    safe_stage f"
  unfolding safe_stage_def by auto

lemma stages_safe: "\<forall>f\<in>set fs. safe_stage f \<Longrightarrow> safe_stage (stages fs)"
proof (induction fs)
  case Nil
  show ?case by (simp add: safe_stage_def)
next
  case (Cons f fs)
  then have f: "safe_stage f" and fs: "safe_stage (stages fs)" by simp_all
  show ?case
    unfolding safe_stage_def
  proof (intro allI impI)
    fix s
    assume "safe_result (Inr s)"
    then obtain x where x: "f s = Some x" "safe_result x"
      using f unfolding safe_stage_def by blast
    show "\<exists>x. stages (f # fs) s = Some x \<and> safe_result x"
      using x fs unfolding safe_stage_def by (cases x) auto
  qed
qed

lemma suite_loop_in:
  "4 * n \<le> left \<Longrightarrow> left \<le> length pos \<Longrightarrow>
    \<exists>v. suite_loop f n acc pos left = Some (v, drop (4 * n) pos, left - 4 * n)"
proof (induction n arbitrary: acc pos left)
  case (Suc n)
  then obtain s where "RSN_SELECTOR_GET pos = Some (s, drop 4 pos)" using sel.get_in [of pos] by auto
  then show ?case using Suc.IH [of "left - 4" "drop 4 pos"] Suc.prems by (auto simp: algebra_simps)
qed simp

lemma pmkids_in_upd [simp]:
  "pmkids_in (set_pairwise v d) = pmkids_in d" "pmkids_in (set_key_mgmt v d) = pmkids_in d"
  "pmkids_in (set_has_pairwise d) = pmkids_in d" "pmkids_in (d\<lparr>ie_capabilities := c\<rparr>) = pmkids_in d"
  "pmkids_in (d\<lparr>ie_group_cipher := v, ie_has_group := b\<rparr>) = pmkids_in d"
  "pmkids_in (d\<lparr>ie_group_cipher := v\<rparr>) = pmkids_in d"
  "pmkids_in (d\<lparr>ie_mgmt_group_cipher := v\<rparr>) = pmkids_in d"
  "pmkids_in rsn_defaults" "pmkids_in wpa_defaults"
  "pmkids_in d \<Longrightarrow> pmkids_in (d\<lparr>ie_num_pmkid := 0\<rparr>)"
  by (auto simp: pmkids_in_def rsn_defaults_def wpa_defaults_def split: option.splits)

lemma suite_list_safe:
  assumes "botch < 0" "short < 0" "\<And>v d. pmkids_in (upd v d) = pmkids_in d" "\<And>d. pmkids_in (seen d) = pmkids_in d"
  shows "safe_stage (suite_list f upd seen botch short)"
proof (rule safe_stageI)
  fix pos :: bytes and left d
  assume *: "left \<le> length pos" "pmkids_in d"
  show "\<exists>x. suite_list f upd seen botch short (pos, left, d) = Some x \<and> safe_result x"
  proof (cases "2 \<le> left")
    case True
    then obtain n where n: "WPA_GET_LE16 pos = Some (n, drop 2 pos)" using le16.get_in [of pos] * by auto
    show ?thesis
    proof (cases "unat n = 0 \<or> unat n > (left - 2) div 4")
      case True
      then show ?thesis using * n assms by (auto simp: suite_list_def Let_def)
    next
      case False
      then have "4 * unat n \<le> left - 2" by linarith
      then obtain v where "suite_loop f (unat n) 0 (drop 2 pos) (left - 2) =
          Some (v, drop (4 * unat n) (drop 2 pos), left - 2 - 4 * unat n)"
        using suite_loop_in [of "unat n" "left - 2" "drop 2 pos" f 0] * diff_le_mono [of left "length pos" 2]
        by (simp only: length_drop) blast
      then show ?thesis using * n False \<open>2 \<le> left\<close> assms by (auto simp: suite_list_def Let_def)
    qed
  qed (use * assms in \<open>auto simp: suite_list_def\<close>)
qed

lemma ie_caps_safe: "safe_stage ie_caps"
  by (rule safe_stageI) (auto simp: ie_caps_def dest!: le16.get_in [OF order_trans])

lemma rsn_group_safe: "safe_stage (rsn_group C)"
  by (rule safe_stageI) (auto simp: rsn_group_def Let_def dest!: sel.get_in [OF order_trans])

lemma rsn_mgmt_group_safe: "safe_stage rsn_mgmt_group"
  by (rule safe_stageI) (auto simp: rsn_mgmt_group_def Let_def dest!: sel.get_in [OF order_trans])

lemma wpa_group_field_safe: "safe_stage wpa_group_field"
  by (rule safe_stageI) (auto simp: wpa_group_field_def dest!: sel.get_in [OF order_trans])

lemma rsn_pairwise_valid_safe: "safe_stage rsn_pairwise_valid"
  by (rule safe_stageI) (simp add: rsn_pairwise_valid_def)

lemma rsn_pmkids_safe: "safe_stage rsn_pmkids"
proof (rule safe_stageI)
  fix pos :: bytes and left d
  assume *: "left \<le> length pos" "pmkids_in d"
  show "\<exists>x. rsn_pmkids (pos, left, d) = Some x \<and> safe_result x"
  proof (cases "2 \<le> left")
    case True
    then obtain n where n: "WPA_GET_LE16 pos = Some (n, drop 2 pos)" using le16.get_in [of pos] * by auto
    show ?thesis
    proof (cases "unat n > (left - 2) div 16")
      case False
      then have "unat n * 16 \<le> left - 2" by linarith
      then show ?thesis using * n True False by (auto simp: rsn_pmkids_def Let_def advance_def pmkids_in_def)
    qed (use * n True in \<open>auto simp: rsn_pmkids_def Let_def\<close>)
  qed (use * in \<open>auto simp: rsn_pmkids_def\<close>)
qed

lemma rsn_fields_safe: "safe_stage (stages (rsn_fields C))"
  by (rule stages_safe) (auto simp: rsn_fields_def rsn_group_safe rsn_mgmt_group_safe rsn_pairwise_valid_safe
      rsn_pmkids_safe ie_caps_safe intro!: suite_list_safe)

lemma wpa_fields_safe: "safe_stage (stages wpa_fields)"
  by (rule stages_safe) (auto simp: wpa_fields_def wpa_group_field_safe ie_caps_safe intro!: suite_list_safe)

text \<open>The result of a run of safe stages: a value, and the PMKID pointer covers the counted PMKIDs.\<close>

lemma safe_return:
  assumes "safe_stage (stages fs)" "left \<le> length pos" "pmkids_in d"
  shows "\<exists>r d'. map_option ie_return (stages fs (pos, left, d)) = Some (r, d') \<and> r \<le> 0 \<and> pmkids_in d'"
proof -
  obtain x where x: "stages fs (pos, left, d) = Some x"
    "safe_result x"
    using assms unfolding safe_stage_def by (metis safe_result.simps(2))
  then show ?thesis
    by (cases x) (auto simp: ie_return_def)
qed

lemma rsn_override_hdr_in:
  assumes "len \<le> length ie"
  shows "\<exists>b. rsn_override_hdr ie len = Some b \<and> (b \<longrightarrow> 8 \<le> len)"
proof (cases "8 \<le> len")
  case True
  then obtain e l r where ie: "ie = e # l # r" using assms
    by (cases ie; cases "tl ie") auto
  obtain ty where ty: "RSN_SELECTOR_GET r = Some (ty, drop 4 r)" using sel.get_in [of r] True assms ie by auto
  obtain v where v: "WPA_GET_LE16 (drop 4 r) = Some (v, drop 6 r)"
  proof -
    have "2 \<le> length (drop 4 r)" using True assms ie by simp
    then show ?thesis using le16.get_in [of "drop 4 r"] that by auto
  qed
  show ?thesis using True ie ty v by (auto simp: rsn_override_hdr_def advance_def)
qed (auto simp: rsn_override_hdr_def intro: exI [of _ False])

lemma parse_rsn_in:
  assumes "len \<le> length ie"
  shows "\<exists>r d. wpa_parse_wpa_ie_rsn C ie len = Some (r, d) \<and> r \<le> 0 \<and> pmkids_in d"
proof (cases "len < 4")
  case False
  then obtain e l rest where ie: "ie = e # l # rest" using assms
    by (cases ie; cases "tl ie") auto
  obtain v where v: "WPA_GET_LE16 rest = Some (v, drop 2 rest)" using le16.get_in [of rest] False assms ie by auto
  obtain b where b: "rsn_override_hdr ie len = Some b" "b \<longrightarrow> 8 \<le> len" using rsn_override_hdr_in [OF assms] by blast
  show ?thesis
  proof (cases b)
    case True
    have "advance (2 + 4 + 2) ie = Some (drop 8 ie)" using b True assms by (simp add: advance_def)
    then show ?thesis
      using safe_return [OF rsn_fields_safe, of "len - 2 - 4 - 2" "drop 8 ie" rsn_defaults C] False b True assms
      by (auto simp: wpa_parse_wpa_ie_rsn_def)
  next
    case bF: False
    show ?thesis
    proof (cases "e \<noteq> WLAN_EID_RSN \<or> unat l \<noteq> len - 2 \<or> v \<noteq> RSN_VERSION")
      case True
      then show ?thesis using False b bF v ie by (auto simp: wpa_parse_wpa_ie_rsn_def)
    next
      case ok: False
      then show ?thesis
        using safe_return [OF rsn_fields_safe, of "len - 4" "drop 2 rest" rsn_defaults C] False b bF v ie assms
        by (auto simp: wpa_parse_wpa_ie_rsn_def)
    qed
  qed
qed (auto simp: wpa_parse_wpa_ie_rsn_def)

lemma parse_wpa_in:
  assumes "len \<le> length ie"
  shows "\<exists>r d. wpa_parse_wpa_ie_wpa ie len = Some (r, d) \<and> r \<le> 0 \<and> pmkids_in d"
proof (cases "len < 8")
  case False
  then obtain e l r where ie: "ie = e # l # r" using assms
    by (cases ie; cases "tl ie") auto
  obtain ty where ty: "RSN_SELECTOR_GET r = Some (ty, drop 4 r)" using sel.get_in [of r] False assms ie by auto
  obtain v where v: "WPA_GET_LE16 (drop 4 r) = Some (v, drop 6 r)"
  proof -
    have "2 \<le> length (drop 4 r)" using False assms ie by simp
    then show ?thesis using le16.get_in [of "drop 4 r"] that by auto
  qed
  show ?thesis
    using safe_return [OF wpa_fields_safe, of "len - 8" "drop 6 r" wpa_defaults] False v ty ie assms
    by (auto simp: wpa_parse_wpa_ie_wpa_def)
qed (auto simp: wpa_parse_wpa_ie_wpa_def)

section \<open>Reading what was written\<close>

text \<open>Each stage, on a buffer that starts with the field it expects.\<close>

lemma suite_loop_put:
  "suite_loop f (length ss) acc (concat (map WPA_PUT_BE32 ss) @ r) (4 * length ss + left) =
    Some (acc OR or_all (map f ss), r, left)"
  by (induction ss arbitrary: acc) (simp_all add: or.assoc)

lemma suite_list_put:
  assumes "ss \<noteq> []" "length ss < 2 ^ 16"
  shows "suite_list f upd seen botch short
      (WPA_PUT_LE16 (of_nat (length ss)) @ concat (map WPA_PUT_BE32 ss) @ r, 2 + 4 * length ss + left, d) =
    Some (Inr (r, left, upd (or_all (map f ss)) (seen (upd 0 d))))"
proof -
  have "unat (of_nat (length ss) :: u16) = length ss"
    using assms by (simp add: unsigned_of_nat take_bit_eq_mod)
  moreover have "2 + 4 * length ss + left - 2 = 4 * length ss + left" by simp
  ultimately show ?thesis
    using assms by (simp add: suite_list_def Let_def suite_loop_put)
qed

lemma rsn_group_put:
  "wpa_cipher_valid_group C (rsn_cipher_suite_to_wpa_cipher s) \<Longrightarrow>
    rsn_group C (WPA_PUT_BE32 s @ r, 4 + left, d) =
      Some (Inr (r, left, d\<lparr>ie_group_cipher := rsn_cipher_suite_to_wpa_cipher s, ie_has_group := True\<rparr>))"
  by (simp add: rsn_group_def Let_def)

lemma wpa_group_put:
  "wpa_group_field (WPA_PUT_BE32 s @ r, 4 + left, d) =
    Some (Inr (r, left, d\<lparr>ie_group_cipher := wpa_selector_to_bitfield s\<rparr>))"
  by (simp add: wpa_group_field_def)

lemma ie_caps_put: "ie_caps (WPA_PUT_LE16 v @ r, 2 + left, d) = Some (Inr (r, left, d\<lparr>ie_capabilities := v\<rparr>))"
  by (simp add: ie_caps_def)

lemma rsn_pmkids_put:
  "length p = 16 * unat n \<Longrightarrow>
    rsn_pmkids (WPA_PUT_LE16 n @ p @ r, 2 + length p + left, d) =
      Some (Inr (r, left, d\<lparr>ie_num_pmkid := unat n, ie_pmkid := Some (p @ r)\<rparr>))"
  by (simp add: rsn_pmkids_def Let_def advance_def)

lemma rsn_mgmt_group_put:
  "wpa_cipher_valid_mgmt_group (rsn_cipher_suite_to_wpa_cipher s) \<Longrightarrow>
    rsn_mgmt_group (WPA_PUT_BE32 s @ r, 4 + left, d) =
      Some (Inr (r, left, d\<lparr>ie_mgmt_group_cipher := rsn_cipher_suite_to_wpa_cipher s\<rparr>))"
  by (simp add: rsn_mgmt_group_def Let_def)

lemma stages_end:
  "rsn_pmkids (pos, 0, d) = Some (Inr (pos, 0, d))" "rsn_mgmt_group (pos, 0, d) = Some (Inr (pos, 0, d))"
  "ie_caps (pos, 0, d) = Some (Inr (pos, 0, d))"
  by (simp_all add: rsn_pmkids_def rsn_mgmt_group_def ie_caps_def)

section \<open>Comparing two elements\<close>

text \<open>\<open>None\<close> for a pointer is \<open>NULL\<close>; \<open>||\<close> and \<open>&&\<close> evaluate left to right.\<close>

definition wpa_compare_rsn_ie :: "build \<Rightarrow> bool \<Rightarrow> bytes option \<Rightarrow> nat \<Rightarrow> bytes option \<Rightarrow> nat \<Rightarrow> int option" where
  "wpa_compare_rsn_ie C ft_initial_assoc p1 ie1len p2 ie2len =
    (case (p1, p2) of
       (Some ie1, Some ie2) \<Rightarrow>
         if ie1len = ie2len \<and> take ie1len ie1 = take ie1len ie2 then Some 0
         else if CONFIG_IEEE80211R C \<and> ft_initial_assoc then do {
           (r1, ie1d) \<leftarrow> wpa_parse_wpa_ie_rsn C ie1 ie1len;
           if r1 < 0 then Some (-1)
           else do {
             (r2, ie2d) \<leftarrow> wpa_parse_wpa_ie_rsn C ie2 ie2len;
             if r2 < 0 then Some (-1)
             else if ie_proto ie1d = ie_proto ie2d \<and> ie_pairwise_cipher ie1d = ie_pairwise_cipher ie2d \<and>
               ie_group_cipher ie1d = ie_group_cipher ie2d \<and> ie_key_mgmt ie1d = ie_key_mgmt ie2d \<and>
               ie_capabilities ie1d = ie_capabilities ie2d \<and> ie_mgmt_group_cipher ie1d = ie_mgmt_group_cipher ie2d
             then Some 0
             else Some (-1)
           }
         }
         else Some (-1)
     | _ \<Rightarrow> Some (-1))"

end
