(* ===== verification/RsnWrite.thy ===== *)
theory RsnWrite
  imports RsnIe
begin

text \<open>
  The elements an authenticator advertises: the writers of \<open>src/mininet-wifi/hostap/src/ap/wpa_auth_ie.c\<close> up to
  \<open>wpa_auth_gen_wpa_ie\<close>, with \<open>wpa_write_mdie\<close> of \<open>wpa_auth_ft.c\<close>.  A writer has a buffer of \<open>len\<close> bytes and
  the bytes \<open>w\<close> written so far; a write past \<open>len\<close> is \<open>Fault\<close>, the returns \<open>-1\<close> and \<open>NULL\<close> are \<open>Ret (-1)\<close>.
  \<open>CONFIG_RSN_TESTING\<close> and \<open>CONFIG_TESTING_OPTIONS\<close> are not set.
\<close>

section \<open>Configuration\<close>

datatype mfp_options = NO_MGMT_FRAME_PROTECTION | MGMT_FRAME_PROTECTION_OPTIONAL | MGMT_FRAME_PROTECTION_REQUIRED

datatype sae_pwe = SAE_PWE_HUNT_AND_PECK | SAE_PWE_HASH_TO_ELEMENT | SAE_PWE_BOTH | SAE_PWE_FORCE_HUNT_AND_PECK
  | SAE_PWE_NOT_SET

text \<open>The fields of \<open>struct wpa_auth_config\<close> the element code reads.\<close>

record wpa_auth_config =
  conf_wpa :: u32
  conf_extended_key_id :: int
  conf_wpa_key_mgmt :: u32
  conf_rsn_override_key_mgmt :: u32
  conf_rsn_override_key_mgmt_2 :: u32
  conf_wpa_pairwise :: u32
  conf_wpa_group :: u32
  conf_rsn_pairwise :: u32
  conf_rsn_override_pairwise :: u32
  conf_rsn_override_pairwise_2 :: u32
  conf_rsn_preauth :: bool
  conf_wmm_enabled :: bool
  conf_okc :: bool
  conf_ieee80211w :: mfp_options
  conf_rsn_override_mfp :: mfp_options
  conf_rsn_override_mfp_2 :: mfp_options
  conf_group_mgmt_cipher :: u32
  conf_sae_require_mfp :: bool
  conf_ocv :: int
  conf_mobility_domain :: bytes
  conf_ft_over_ds :: bool
  conf_sae_pwe :: sae_pwe
  conf_sae_pk :: bool
  conf_secure_ltf :: bool
  conf_secure_rtt :: bool
  conf_prot_range_neg :: bool
  conf_ssid_protection :: bool
  conf_spp_amsdu :: bool
  conf_rsn_override_omit_rsnxe :: bool
  conf_dpp_pfs :: int

definition proto_bit :: "wpa_proto \<Rightarrow> u32" where
  "proto_bit p = (case p of WPA_PROTO_WPA \<Rightarrow> 0x1 | WPA_PROTO_RSN \<Rightarrow> 0x2)"

definition WPA_CAPABILITY_PREAUTH :: u16 where "WPA_CAPABILITY_PREAUTH = 0x1"
definition WPA_CAPABILITY_MFPR :: u16 where "WPA_CAPABILITY_MFPR = 0x40"
definition WPA_CAPABILITY_MFPC :: u16 where "WPA_CAPABILITY_MFPC = 0x80"
definition WPA_CAPABILITY_EXT_KEY_ID_FOR_UNICAST :: u16 where "WPA_CAPABILITY_EXT_KEY_ID_FOR_UNICAST = 0x2000"
definition WPA_CAPABILITY_OCVC :: u16 where "WPA_CAPABILITY_OCVC = 0x4000"
definition RSN_NUM_REPLAY_COUNTERS_16 :: u16 where "RSN_NUM_REPLAY_COUNTERS_16 = 3"

section \<open>Writing into a buffer\<close>

definition emit_bytes :: "nat \<Rightarrow> bytes \<Rightarrow> bytes \<Rightarrow> bytes outcome" where
  "emit_bytes len w bs = (if length w + length bs \<le> len then Ok (w @ bs) else Fault)"

text \<open>
  \<open>count = pos; pos += 2; put the suites; if (num_suites == 0) return -1; WPA_PUT_LE16(count, num_suites);\<close>
\<close>

definition emit_suites :: "nat \<Rightarrow> bytes \<Rightarrow> u32 list \<Rightarrow> bytes outcome" where
  "emit_suites len w ss =
    (if ss = [] then Ret (-1)
     else emit_bytes len w (WPA_PUT_LE16 (of_nat (length ss)) @ concat (map WPA_PUT_BE32 ss)))"

text \<open>\<open>hdr->len = (pos - buf) - 2\<close>, stored in a byte.\<close>

definition set_len :: "bytes \<Rightarrow> bytes" where
  "set_len w = w[1 := of_nat (length w - 2)]"

section \<open>The WPA element\<close>

definition wpa_akm_table :: "(u32 \<times> u32) list" where
  "wpa_akm_table = [(WPA_KEY_MGMT_IEEE8021X, WPA_AUTH_KEY_MGMT_UNSPEC_802_1X),
     (WPA_KEY_MGMT_PSK, WPA_AUTH_KEY_MGMT_PSK_OVER_802_1X)]"

definition wpa_write_wpa_ie :: "wpa_auth_config \<Rightarrow> nat \<Rightarrow> bytes outcome" where
  "wpa_write_wpa_ie conf len =
    or_fail (-1) (emit_bytes len [] ([WLAN_EID_VENDOR_SPECIFIC, 0] @ WPA_PUT_BE32 WPA_OUI_TYPE @ WPA_PUT_LE16 WPA_VERSION)) (\<lambda>w.
    let suite = wpa_cipher_to_suite WPA_PROTO_WPA (conf_wpa_group conf) in
    if suite = 0 then Ret (-1)
    else or_fail (-1) (emit_bytes len w (WPA_PUT_BE32 suite)) (\<lambda>w.
      or_fail (-1) (emit_suites len w (wpa_cipher_put_suites (conf_wpa_pairwise conf))) (\<lambda>w.
      or_fail (-1) (emit_suites len w (all_set (conf_wpa_key_mgmt conf) wpa_akm_table)) (\<lambda>w.
      Ok (set_len w)))))"

section \<open>The RSN element\<close>

definition wpa_own_rsn_capab :: "build \<Rightarrow> wpa_auth_config \<Rightarrow> mfp_options \<Rightarrow> u16" where
  "wpa_own_rsn_capab C conf mfp =
    (let capab = 0;
         capab = if conf_rsn_preauth conf then capab OR WPA_CAPABILITY_PREAUTH else capab;
         capab = if conf_wmm_enabled conf then capab OR push_bit 2 RSN_NUM_REPLAY_COUNTERS_16 else capab;
         capab = if mfp \<noteq> NO_MGMT_FRAME_PROTECTION
                 then (let capab = capab OR WPA_CAPABILITY_MFPC in
                       if mfp = MGMT_FRAME_PROTECTION_REQUIRED then capab OR WPA_CAPABILITY_MFPR else capab)
                 else capab;
         capab = if CONFIG_OCV C \<and> conf_ocv conf \<noteq> 0 then capab OR WPA_CAPABILITY_OCVC else capab;
         capab = if conf_extended_key_id conf \<noteq> 0 then capab OR WPA_CAPABILITY_EXT_KEY_ID_FOR_UNICAST else capab
     in capab)"

definition rsn_akm_table :: "build \<Rightarrow> (u32 \<times> u32) list" where
  "rsn_akm_table C = compiled
    [(True, WPA_KEY_MGMT_IEEE8021X, RSN_AUTH_KEY_MGMT_UNSPEC_802_1X),
     (True, WPA_KEY_MGMT_PSK, RSN_AUTH_KEY_MGMT_PSK_OVER_802_1X),
     (CONFIG_IEEE80211R C, WPA_KEY_MGMT_FT_IEEE8021X, RSN_AUTH_KEY_MGMT_FT_802_1X),
     (CONFIG_IEEE80211R C \<and> CONFIG_SHA384 C, WPA_KEY_MGMT_FT_IEEE8021X_SHA384, RSN_AUTH_KEY_MGMT_FT_802_1X_SHA384),
     (CONFIG_IEEE80211R C, WPA_KEY_MGMT_FT_PSK, RSN_AUTH_KEY_MGMT_FT_PSK),
     (CONFIG_SHA384 C, WPA_KEY_MGMT_IEEE8021X_SHA384, RSN_AUTH_KEY_MGMT_802_1X_SHA384),
     (True, WPA_KEY_MGMT_IEEE8021X_SHA256, RSN_AUTH_KEY_MGMT_802_1X_SHA256),
     (True, WPA_KEY_MGMT_PSK_SHA256, RSN_AUTH_KEY_MGMT_PSK_SHA256),
     (CONFIG_SAE C, WPA_KEY_MGMT_SAE, RSN_AUTH_KEY_MGMT_SAE),
     (CONFIG_SAE C, WPA_KEY_MGMT_SAE_EXT_KEY, RSN_AUTH_KEY_MGMT_SAE_EXT_KEY),
     (CONFIG_SAE C, WPA_KEY_MGMT_FT_SAE, RSN_AUTH_KEY_MGMT_FT_SAE),
     (CONFIG_SAE C, WPA_KEY_MGMT_FT_SAE_EXT_KEY, RSN_AUTH_KEY_MGMT_FT_SAE_EXT_KEY),
     (True, WPA_KEY_MGMT_IEEE8021X_SUITE_B, RSN_AUTH_KEY_MGMT_802_1X_SUITE_B),
     (True, WPA_KEY_MGMT_IEEE8021X_SUITE_B_192, RSN_AUTH_KEY_MGMT_802_1X_SUITE_B_192),
     (CONFIG_FILS C, WPA_KEY_MGMT_FILS_SHA256, RSN_AUTH_KEY_MGMT_FILS_SHA256),
     (CONFIG_FILS C, WPA_KEY_MGMT_FILS_SHA384, RSN_AUTH_KEY_MGMT_FILS_SHA384),
     (CONFIG_FILS C \<and> CONFIG_IEEE80211R C, WPA_KEY_MGMT_FT_FILS_SHA256, RSN_AUTH_KEY_MGMT_FT_FILS_SHA256),
     (CONFIG_FILS C \<and> CONFIG_IEEE80211R C, WPA_KEY_MGMT_FT_FILS_SHA384, RSN_AUTH_KEY_MGMT_FT_FILS_SHA384),
     (CONFIG_OWE C, WPA_KEY_MGMT_OWE, RSN_AUTH_KEY_MGMT_OWE),
     (CONFIG_DPP C, WPA_KEY_MGMT_DPP, RSN_AUTH_KEY_MGMT_DPP),
     (CONFIG_PASN C, WPA_KEY_MGMT_PASN, RSN_AUTH_KEY_MGMT_PASN)]"

definition rsne_put_pmkid :: "nat \<Rightarrow> bytes \<Rightarrow> bytes option \<Rightarrow> bytes outcome" where
  "rsne_put_pmkid len w pid =
    (case pid of
       None \<Rightarrow> Ok w
     | Some p \<Rightarrow> if 2 + 16 > len - length w then Ret (-1) else emit_bytes len w (WPA_PUT_LE16 1 @ p))"

definition mgmt_suite :: "u32 \<Rightarrow> u32 option" where
  "mgmt_suite group_mgmt_cipher =
    (if group_mgmt_cipher = WPA_CIPHER_BIP_GMAC_128 then Some RSN_CIPHER_SUITE_BIP_GMAC_128
     else if group_mgmt_cipher = WPA_CIPHER_BIP_GMAC_256 then Some RSN_CIPHER_SUITE_BIP_GMAC_256
     else if group_mgmt_cipher = WPA_CIPHER_BIP_CMAC_256 then Some RSN_CIPHER_SUITE_BIP_CMAC_256
     else None)"

definition rsne_put_mgmt :: "nat \<Rightarrow> bytes \<Rightarrow> bytes option \<Rightarrow> mfp_options \<Rightarrow> u32 \<Rightarrow> bytes outcome" where
  "rsne_put_mgmt len w pid mfp group_mgmt_cipher =
    (if mfp \<noteq> NO_MGMT_FRAME_PROTECTION \<and> group_mgmt_cipher \<noteq> WPA_CIPHER_AES_128_CMAC then
       if 2 + 4 > len - length w then Ret (-1)
       else or_fail (-1) (if pid = None then emit_bytes len w (WPA_PUT_LE16 0) else Ok w) (\<lambda>w.
         case mgmt_suite group_mgmt_cipher of
           None \<Rightarrow> Ret (-1)
         | Some s \<Rightarrow> emit_bytes len w (WPA_PUT_BE32 s))
     else Ok w)"

definition rsne_write_data :: "build \<Rightarrow> nat \<Rightarrow> bytes \<Rightarrow> u32 \<Rightarrow> u32 \<Rightarrow> u32 \<Rightarrow> u16 \<Rightarrow> bytes option \<Rightarrow> mfp_options \<Rightarrow> u32 \<Rightarrow>
    bytes outcome" where
  "rsne_write_data C len w grp pairw key_mgmt rsn_capab pid mfp group_mgmt_cipher =
    (let suite = wpa_cipher_to_suite WPA_PROTO_RSN grp in
     if suite = 0 then Ret (-1)
     else or_fail (-1) (emit_bytes len w (WPA_PUT_BE32 suite)) (\<lambda>w.
       or_fail (-1) (emit_suites len w (rsn_cipher_put_suites pairw)) (\<lambda>w.
       or_fail (-1) (emit_suites len w (all_set key_mgmt (rsn_akm_table C))) (\<lambda>w.
       or_fail (-1) (emit_bytes len w (WPA_PUT_LE16 rsn_capab)) (\<lambda>w.
       or_fail (-1) (rsne_put_pmkid len w pid) (\<lambda>w.
       rsne_put_mgmt len w pid mfp group_mgmt_cipher))))))"

definition wpa_write_rsn_ie :: "build \<Rightarrow> wpa_auth_config \<Rightarrow> nat \<Rightarrow> bytes option \<Rightarrow> bytes outcome" where
  "wpa_write_rsn_ie C conf len pid =
    or_fail (-1) (emit_bytes len [] ([WLAN_EID_RSN, 0] @ WPA_PUT_LE16 RSN_VERSION)) (\<lambda>w.
    or_fail (-1) (rsne_write_data C len w (conf_wpa_group conf) (conf_rsn_pairwise conf) (conf_wpa_key_mgmt conf)
      (wpa_own_rsn_capab C conf (conf_ieee80211w conf)) pid (conf_ieee80211w conf) (conf_group_mgmt_cipher conf)) (\<lambda>w.
    Ok (set_len w)))"

definition wpa_write_rsne_override :: "build \<Rightarrow> wpa_auth_config \<Rightarrow> nat \<Rightarrow> bytes outcome" where
  "wpa_write_rsne_override C conf len =
    or_fail (-1) (emit_bytes len [] ([WLAN_EID_VENDOR_SPECIFIC, 0] @ WPA_PUT_BE32 RSNE_OVERRIDE_IE_VENDOR_TYPE @
      WPA_PUT_LE16 RSN_VERSION)) (\<lambda>w.
    or_fail (-1) (rsne_write_data C len w (conf_wpa_group conf) (conf_rsn_override_pairwise conf)
      (conf_rsn_override_key_mgmt conf) (wpa_own_rsn_capab C conf (conf_rsn_override_mfp conf)) None
      (conf_rsn_override_mfp conf) (conf_group_mgmt_cipher conf)) (\<lambda>w.
    Ok (set_len w)))"

definition wpa_write_rsne_override_2 :: "build \<Rightarrow> wpa_auth_config \<Rightarrow> nat \<Rightarrow> bytes outcome" where
  "wpa_write_rsne_override_2 C conf len =
    or_fail (-1) (emit_bytes len [] ([WLAN_EID_VENDOR_SPECIFIC, 0] @ WPA_PUT_BE32 RSNE_OVERRIDE_2_IE_VENDOR_TYPE @
      WPA_PUT_LE16 RSN_VERSION)) (\<lambda>w.
    or_fail (-1) (rsne_write_data C len w (conf_wpa_group conf) (conf_rsn_override_pairwise_2 conf)
      (conf_rsn_override_key_mgmt_2 conf) (wpa_own_rsn_capab C conf (conf_rsn_override_mfp_2 conf)) None
      (conf_rsn_override_mfp_2 conf) (conf_group_mgmt_cipher conf)) (\<lambda>w.
    Ok (set_len w)))"

section \<open>The RSN extension element\<close>

definition WLAN_RSNX_CAPAB_SAE_H2E :: nat where "WLAN_RSNX_CAPAB_SAE_H2E = 5"
definition WLAN_RSNX_CAPAB_SAE_PK :: nat where "WLAN_RSNX_CAPAB_SAE_PK = 6"
definition WLAN_RSNX_CAPAB_SECURE_LTF :: nat where "WLAN_RSNX_CAPAB_SECURE_LTF = 8"
definition WLAN_RSNX_CAPAB_SECURE_RTT :: nat where "WLAN_RSNX_CAPAB_SECURE_RTT = 9"
definition WLAN_RSNX_CAPAB_SPP_A_MSDU :: nat where "WLAN_RSNX_CAPAB_SPP_A_MSDU = 14"
definition WLAN_RSNX_CAPAB_URNM_MFPR :: nat where "WLAN_RSNX_CAPAB_URNM_MFPR = 15"
definition WLAN_RSNX_CAPAB_SSID_PROTECTION :: nat where "WLAN_RSNX_CAPAB_SSID_PROTECTION = 21"
definition WLAN_EID_RSNX :: u8 where "WLAN_EID_RSNX = 244"
definition RSNXE_OVERRIDE_IE_VENDOR_TYPE :: u32 where "RSNXE_OVERRIDE_IE_VENDOR_TYPE = 0x506f9a2b"

lemmas rsnx_defs = WLAN_RSNX_CAPAB_SAE_H2E_def WLAN_RSNX_CAPAB_SAE_PK_def WLAN_RSNX_CAPAB_SECURE_LTF_def
  WLAN_RSNX_CAPAB_SECURE_RTT_def WLAN_RSNX_CAPAB_SPP_A_MSDU_def WLAN_RSNX_CAPAB_URNM_MFPR_def
  WLAN_RSNX_CAPAB_SSID_PROTECTION_def

definition set_capab :: "bool \<Rightarrow> nat \<Rightarrow> u32 \<Rightarrow> u32" where
  "set_capab c n capab = (if c then capab OR push_bit n 1 else capab)"

definition rsnxe_capab :: "build \<Rightarrow> wpa_auth_config \<Rightarrow> u32 \<Rightarrow> u32" where
  "rsnxe_capab C conf key_mgmt =
    (let capab = 0;
         capab = if wpa_key_mgmt_sae key_mgmt \<and>
                    (conf_sae_pwe conf = SAE_PWE_HASH_TO_ELEMENT \<or> conf_sae_pwe conf = SAE_PWE_BOTH \<or> conf_sae_pk conf \<or>
                     wpa_key_mgmt_sae_ext_key key_mgmt)
                 then set_capab (CONFIG_SAE_PK C \<and> conf_sae_pk conf) WLAN_RSNX_CAPAB_SAE_PK
                   (set_capab True WLAN_RSNX_CAPAB_SAE_H2E capab)
                 else capab;
         capab = set_capab (conf_secure_ltf conf) WLAN_RSNX_CAPAB_SECURE_LTF capab;
         capab = set_capab (conf_secure_rtt conf) WLAN_RSNX_CAPAB_SECURE_RTT capab;
         capab = set_capab (conf_prot_range_neg conf) WLAN_RSNX_CAPAB_URNM_MFPR capab;
         capab = set_capab (conf_ssid_protection conf) WLAN_RSNX_CAPAB_SSID_PROTECTION capab;
         capab = set_capab (conf_spp_amsdu conf) WLAN_RSNX_CAPAB_SPP_A_MSDU capab
     in capab)"

text \<open>\<open>while (tmp) { flen++; tmp >>= 8; }\<close> and \<open>while (capab) { *pos++ = capab & 0xff; capab >>= 8; }\<close>\<close>

lemma drop_bit_8_less: "v \<noteq> 0 \<Longrightarrow> unat (drop_bit 8 v :: u32) < unat v"
proof -
  assume "v \<noteq> 0"
  then have "0 < unat v" by (simp add: unat_gt_0)
  then have "unat v div 256 < unat v" by (intro div_less_dividend) simp_all
  then show ?thesis by (simp add: drop_bit_eq_div unat_div)
qed

function rsnxe_flen :: "u32 \<Rightarrow> nat" where
  "rsnxe_flen tmp = (if tmp = 0 then 0 else Suc (rsnxe_flen (drop_bit 8 tmp)))"
  by auto
termination by (relation "measure unat") (simp_all add: drop_bit_8_less)

function rsnxe_bytes :: "u32 \<Rightarrow> bytes" where
  "rsnxe_bytes capab = (if capab = 0 then [] else ucast (capab AND 0xff) # rsnxe_bytes (drop_bit 8 capab))"
  by auto
termination by (relation "measure unat") (simp_all add: drop_bit_8_less)

declare rsnxe_flen.simps [simp del] rsnxe_bytes.simps [simp del]

definition wpa_write_rsnxe :: "build \<Rightarrow> wpa_auth_config \<Rightarrow> nat \<Rightarrow> bytes outcome" where
  "wpa_write_rsnxe C conf len =
    (let capab = rsnxe_capab C conf (conf_wpa_key_mgmt conf) in
     if capab = 0 then Ok []
     else let flen = rsnxe_flen capab in
       if len < 2 + flen then Ret (-1)
       else emit_bytes len [] ([WLAN_EID_RSNX, of_nat flen] @ rsnxe_bytes (capab OR of_nat (flen - 1))))"

definition wpa_write_rsnxe_override :: "build \<Rightarrow> wpa_auth_config \<Rightarrow> nat \<Rightarrow> bytes outcome" where
  "wpa_write_rsnxe_override C conf len =
    (let capab = rsnxe_capab C conf (conf_rsn_override_key_mgmt conf OR conf_rsn_override_key_mgmt_2 conf) in
     if capab = 0 then Ok []
     else let flen = rsnxe_flen capab in
       if len < 2 + flen then Ret (-1)
       else emit_bytes len [] ([WLAN_EID_VENDOR_SPECIFIC, of_nat (4 + flen)] @ WPA_PUT_BE32 RSNXE_OVERRIDE_IE_VENDOR_TYPE @
         rsnxe_bytes (capab OR of_nat (flen - 1))))"

text \<open>\<open>ieee802_11_rsnx_capab_len\<close> and \<open>ieee802_11_rsnx_capab\<close>: is a capability set in an RSN extension element?\<close>

definition ieee802_11_rsnx_capab_len :: "bytes \<Rightarrow> nat \<Rightarrow> nat \<Rightarrow> bool option" where
  "ieee802_11_rsnx_capab_len rsnxe rsnxe_len capab =
    (if rsnxe_len = 0 then Some False
     else case rsnxe of
       [] \<Rightarrow> None
     | b # _ \<Rightarrow>
       let flen = unat (b AND 0x0f) + 1 in
       if flen > rsnxe_len then Some False
       else let flen = min flen 4 in
         if length rsnxe < flen then None
         else Some (bit (foldr (OR) (map (\<lambda>i. push_bit (8 * i) (ucast (rsnxe ! i) :: u32)) [0..<flen]) 0) capab))"

definition ieee802_11_rsnx_capab :: "bytes option \<Rightarrow> nat \<Rightarrow> bool option" where
  "ieee802_11_rsnx_capab rsnxe capab =
    (case rsnxe of
       None \<Rightarrow> Some False
     | Some (eid # l # ie) \<Rightarrow>
         if eid = WLAN_EID_VENDOR_SPECIFIC \<and> unat l \<ge> 4 + 1
         then do { ie \<leftarrow> advance 4 ie; ieee802_11_rsnx_capab_len ie (unat l - 4) capab }
         else ieee802_11_rsnx_capab_len ie (unat l) capab
     | _ \<Rightarrow> None)"

section \<open>The mobility domain element, key data elements\<close>

definition wpa_write_mdie :: "wpa_auth_config \<Rightarrow> nat \<Rightarrow> bytes outcome" where
  "wpa_write_mdie conf len =
    (if len < 2 + 3 then Ret (-1)
     else emit_bytes len [] ([54, 2 + 1] @ conf_mobility_domain conf @ [if conf_ft_over_ds conf then 1 else 0]))"

text \<open>\<open>data2\<close> is a pointer with its length, \<open>None\<close> for \<open>NULL\<close>; the length byte counts \<open>data2_len\<close> in any case.\<close>

definition wpa_add_kde :: "u32 \<Rightarrow> bytes \<Rightarrow> bytes option \<Rightarrow> nat \<Rightarrow> bytes" where
  "wpa_add_kde kde data data2 data2_len =
    [WLAN_EID_VENDOR_SPECIFIC, of_nat (4 + length data + data2_len)] @ WPA_PUT_BE32 kde @ data @
    (case data2 of None \<Rightarrow> [] | Some d \<Rightarrow> take data2_len d)"

section \<open>All elements\<close>

text \<open>
  One \<open>if (..) { res = write(pos, buf + sizeof(buf) - pos); if (res < 0) return res; pos += res; }\<close> of
  \<open>wpa_auth_gen_wpa_ie\<close>.
\<close>

definition element :: "bool \<Rightarrow> (nat \<Rightarrow> bytes outcome) \<Rightarrow> nat \<Rightarrow> bytes \<Rightarrow> (bytes \<Rightarrow> bytes outcome) \<Rightarrow> bytes outcome" where
  "element cond write len w k = (if cond then or_fail (-1) (write (len - length w)) (\<lambda>ie. k (w @ ie)) else k w)"

definition own_elements :: "build \<Rightarrow> wpa_auth_config \<Rightarrow> nat \<Rightarrow> bytes outcome" where
  "own_elements C conf len =
    (let rsn = (conf_wpa conf AND proto_bit WPA_PROTO_RSN \<noteq> 0) in
     element rsn (\<lambda>n. wpa_write_rsn_ie C conf n None) len [] (\<lambda>w.
     element rsn (\<lambda>n. if conf_rsn_override_omit_rsnxe conf then Ok [] else wpa_write_rsnxe C conf n) len w (\<lambda>w.
     element (CONFIG_IEEE80211R C \<and> wpa_key_mgmt_ft (conf_wpa_key_mgmt conf)) (wpa_write_mdie conf) len w (\<lambda>w.
     element (conf_wpa conf AND proto_bit WPA_PROTO_WPA \<noteq> 0) (wpa_write_wpa_ie conf) len w (\<lambda>w.
     element (rsn \<and> conf_rsn_override_key_mgmt conf \<noteq> 0) (wpa_write_rsne_override C conf) len w (\<lambda>w.
     element (rsn \<and> conf_rsn_override_key_mgmt_2 conf \<noteq> 0) (wpa_write_rsne_override_2 C conf) len w (\<lambda>w.
     element (rsn \<and> (conf_rsn_override_key_mgmt conf \<noteq> 0 \<or> conf_rsn_override_key_mgmt_2 conf \<noteq> 0))
       (wpa_write_rsnxe_override C conf) len w Ok)))))))"

text \<open>
  The stored element and its length; \<open>alloc\<close> says whether \<open>os_malloc\<close> succeeds.  A failed allocation leaves the
  length as it was and the pointer \<open>NULL\<close>.
\<close>

definition wpa_auth_gen_wpa_ie :: "build \<Rightarrow> wpa_auth_config \<Rightarrow> bool \<Rightarrow> bytes option \<times> nat \<Rightarrow>
    (int \<times> bytes option \<times> nat) option" where
  "wpa_auth_gen_wpa_ie C conf alloc st =
    (case own_elements C conf 1500 of
       Fault \<Rightarrow> None
     | Ret r \<Rightarrow> Some (r, st)
     | Ok w \<Rightarrow> if alloc then Some (0, Some w, length w) else Some (-1, None, snd st))"

section \<open>The contents of an element\<close>

text \<open>What \<open>rsne_write_data\<close> appends when the buffer is large enough, without the buffer.\<close>

definition suites_body :: "u32 list \<Rightarrow> bytes" where
  "suites_body ss = WPA_PUT_LE16 (of_nat (length ss)) @ concat (map WPA_PUT_BE32 ss)"

definition mgmt_body :: "bytes option \<Rightarrow> mfp_options \<Rightarrow> u32 \<Rightarrow> bytes option" where
  "mgmt_body pid mfp gmc =
    (if mfp = NO_MGMT_FRAME_PROTECTION \<or> gmc = WPA_CIPHER_AES_128_CMAC then Some []
     else map_option (\<lambda>s. (if pid = None then WPA_PUT_LE16 0 else []) @ WPA_PUT_BE32 s) (mgmt_suite gmc))"

definition pmkid_body :: "bytes option \<Rightarrow> bytes" where
  "pmkid_body pid = (case pid of None \<Rightarrow> [] | Some p \<Rightarrow> WPA_PUT_LE16 1 @ p)"

definition rsne_body :: "build \<Rightarrow> u32 \<Rightarrow> u32 \<Rightarrow> u32 \<Rightarrow> u16 \<Rightarrow> bytes option \<Rightarrow> mfp_options \<Rightarrow> u32 \<Rightarrow> bytes option" where
  "rsne_body C grp pairw key_mgmt capab pid mfp gmc =
    (let suite = wpa_cipher_to_suite WPA_PROTO_RSN grp; ps = rsn_cipher_put_suites pairw;
         ks = all_set key_mgmt (rsn_akm_table C) in
     if suite = 0 \<or> ps = [] \<or> ks = [] then None
     else map_option (\<lambda>m. WPA_PUT_BE32 suite @ suites_body ps @ suites_body ks @ WPA_PUT_LE16 capab @ pmkid_body pid @ m)
       (mgmt_body pid mfp gmc))"

lemma emit_fits: "length w + length bs \<le> len \<Longrightarrow> emit_bytes len w bs = Ok (w @ bs)"
  by (simp add: emit_bytes_def)

lemma emit_suites_fits:
  "length w + 2 + 4 * length ss \<le> len \<Longrightarrow> emit_suites len w ss = (if ss = [] then Ret (-1) else Ok (w @ suites_body ss))"
  by (simp add: emit_suites_def emit_fits suites_body_def)

lemma length_suites_body [simp]: "length (suites_body ss) = 2 + 4 * length ss"
  by (simp add: suites_body_def)

lemma length_all_set: "length (all_set x cases) \<le> length cases"
  by (simp add: all_set_def)

lemma length_compiled: "length (compiled xs) \<le> length xs"
  by (simp add: compiled_def)

lemma length_put_suites: "length (rsn_cipher_put_suites c) \<le> 6" "length (wpa_cipher_put_suites c) \<le> 3"
  unfolding rsn_cipher_put_suites_def wpa_cipher_put_suites_def
  by (rule order_trans [OF length_all_set]; simp)+

lemma length_akm_suites:
  "length (all_set k (rsn_akm_table C)) \<le> 21" "length (all_set k wpa_akm_table) \<le> 2"
  unfolding rsn_akm_table_def wpa_akm_table_def
  by (rule order_trans [OF length_all_set] order_trans [OF length_all_set order_trans [OF length_compiled]]; simp; fail)+

lemma length_mgmt_body: "mgmt_body pid mfp gmc = Some m \<Longrightarrow> length m \<le> (if pid = None then 6 else 4)"
  by (auto simp: mgmt_body_def split: if_splits)

lemma put_mgmt_body:
  "length w + 6 \<le> len \<Longrightarrow>
    rsne_put_mgmt len w pid mfp gmc = (case mgmt_body pid mfp gmc of None \<Rightarrow> Ret (-1) | Some m \<Rightarrow> Ok (w @ m))"
  by (cases "mgmt_suite gmc") (auto simp: rsne_put_mgmt_def mgmt_body_def emit_fits)

lemma put_pmkid_body:
  "length w + 18 \<le> len \<Longrightarrow> (\<And>p. pid = Some p \<Longrightarrow> length p = 16) \<Longrightarrow> rsne_put_pmkid len w pid = Ok (w @ pmkid_body pid)"
  by (cases pid) (auto simp: rsne_put_pmkid_def pmkid_body_def emit_fits)

lemma rsne_body_length:
  assumes "rsne_body C grp pairw k capab pid mfp gmc = Some b" "\<And>p. pid = Some p \<Longrightarrow> length p = 16"
  shows "length b \<le> 140"
proof -
  obtain m where m: "mgmt_body pid mfp gmc = Some m"
    "b = WPA_PUT_BE32 (wpa_cipher_to_suite WPA_PROTO_RSN grp) @ suites_body (rsn_cipher_put_suites pairw) @
      suites_body (all_set k (rsn_akm_table C)) @ WPA_PUT_LE16 capab @ pmkid_body pid @ m"
    using assms(1) by (auto simp: rsne_body_def Let_def split: if_splits)
  have "length (pmkid_body pid) + length m \<le> 22"
    using length_mgmt_body [OF m(1)] assms(2) by (auto simp: pmkid_body_def split: option.splits)
  then show ?thesis
    using m(2) length_put_suites(1) [of pairw] length_akm_suites(1) [of k C] by simp
qed

lemma write_data_body:
  assumes len: "length w + 142 \<le> len" and pid: "\<And>p. pid = Some p \<Longrightarrow> length p = 16"
  shows "rsne_write_data C len w grp pairw k capab pid mfp gmc =
    (case rsne_body C grp pairw k capab pid mfp gmc of None \<Rightarrow> Ret (-1) | Some b \<Rightarrow> Ok (w @ b))"
proof -
  have pk: "length (pmkid_body pid) \<le> 18" using pid by (auto simp: pmkid_body_def split: option.splits)
  show ?thesis
    using len pk length_put_suites(1) [of pairw] length_akm_suites(1) [of k C]
    by (auto simp: rsne_write_data_def rsne_body_def Let_def emit_fits emit_suites_fits put_pmkid_body [OF _ pid]
        put_mgmt_body split: option.split)
qed

end
