(* ===== verification/RsnRoundtrip.thy ===== *)
theory RsnRoundtrip
  imports RsnWrite
begin

text \<open>
  What the parsers of \<open>wpa_common.c\<close> make of the elements that \<open>wpa_auth_ie.c\<close> writes: the suites and
  selectors are inverse to each other on the bits that are written, the fields come back in order, and the
  RSN extension element answers each capability query with the bit that was set.
\<close>

section \<open>Suites come back as their bits\<close>

lemma switch_mem: "distinct (map fst cases) \<Longrightarrow> (k, v) \<in> set cases \<Longrightarrow> switch cases d k = v"
  by (simp add: switch_def)

lemma set_compiled: "(x \<in> set (compiled xs)) \<longleftrightarrow> (True, x) \<in> set xs"
  by (force simp: compiled_def)

lemma distinct_compiled: "distinct (map (fst \<circ> snd) xs) \<Longrightarrow> distinct (map fst (compiled xs))"
  by (induction xs) (auto simp: compiled_def)

lemma akm_cases_distinct: "distinct (map fst (rsn_key_mgmt_cases C))"
  unfolding rsn_key_mgmt_cases_def
  by (rule distinct_compiled) (simp add: selector_defs)

lemma akm_table_cases: "(b, s) \<in> set (rsn_akm_table C) \<Longrightarrow> (s, b) \<in> set (rsn_key_mgmt_cases C)"
  unfolding rsn_akm_table_def rsn_key_mgmt_cases_def set_compiled
  by (simp only: list.set insert_iff empty_iff prod.inject) (elim disjE; simp)

lemma akm_back: "(b, s) \<in> set (rsn_akm_table C) \<Longrightarrow> rsn_key_mgmt_to_wpa_akm C s = b"
  unfolding rsn_key_mgmt_to_wpa_akm_def by (rule switch_mem [OF akm_cases_distinct akm_table_cases])


lemma akm_flag: "(b, s) \<in> set (rsn_akm_table C) \<Longrightarrow> flag_bit b"
  unfolding rsn_akm_table_def set_compiled
  by (simp only: list.set insert_iff empty_iff prod.inject) (elim disjE; simp add: flag_bit_akm)

lemma all_set_back:
  assumes "\<And>b s. (b, s) \<in> set cases \<Longrightarrow> f s = b" "\<And>b s. (b, s) \<in> set cases \<Longrightarrow> flag_bit b"
  shows "or_all (map f (all_set x cases)) = x AND or_all (map fst cases)"
proof -
  have "map f (all_set x cases) = map fst (filter (\<lambda>c. x AND fst c \<noteq> 0) cases)"
    using assms(1) by (auto simp: all_set_def intro!: map_cong)
  then show ?thesis using or_all_set [of cases x] assms(2) by (metis prod.collapse)
qed

text \<open>The key management suites and the pairwise ciphers that the writers can express.\<close>

definition rsn_akm_mask :: "build \<Rightarrow> u32" where
  "rsn_akm_mask C = or_all (map fst (rsn_akm_table C))"

definition rsn_pairwise_mask :: u32 where
  "rsn_pairwise_mask = or_all [WPA_CIPHER_CCMP_256, WPA_CIPHER_GCMP_256, WPA_CIPHER_CCMP, WPA_CIPHER_GCMP, WPA_CIPHER_TKIP,
     WPA_CIPHER_NONE]"

lemma akm_list_back: "or_all (map (rsn_key_mgmt_to_wpa_akm C) (all_set k (rsn_akm_table C))) = k AND rsn_akm_mask C"
  unfolding rsn_akm_mask_def by (rule all_set_back) (erule akm_back akm_flag)+

lemma pairwise_list_back: "or_all (map rsn_cipher_suite_to_wpa_cipher (rsn_cipher_put_suites c)) = c AND rsn_pairwise_mask"
proof -
  have "or_all (map rsn_cipher_suite_to_wpa_cipher (rsn_cipher_put_suites c)) = c AND or_all (map fst
      [(WPA_CIPHER_CCMP_256, RSN_CIPHER_SUITE_CCMP_256), (WPA_CIPHER_GCMP_256, RSN_CIPHER_SUITE_GCMP_256),
       (WPA_CIPHER_CCMP, RSN_CIPHER_SUITE_CCMP), (WPA_CIPHER_GCMP, RSN_CIPHER_SUITE_GCMP),
       (WPA_CIPHER_TKIP, RSN_CIPHER_SUITE_TKIP), (WPA_CIPHER_NONE, RSN_CIPHER_SUITE_NONE)])"
    unfolding rsn_cipher_put_suites_def
    by (rule all_set_back) (auto simp: rsn_cipher_suite_to_wpa_cipher_def switch_def selector_defs flag_bit_cipher)
  then show ?thesis by (simp add: rsn_pairwise_mask_def)
qed

lemma pairwise_mask_no_cmac: "(c AND rsn_pairwise_mask) AND WPA_CIPHER_AES_128_CMAC = 0"
  by (simp add: rsn_pairwise_mask_def cipher_defs and.assoc)

lemma group_back:
  assumes "wpa_cipher_valid_group C grp"
  shows "wpa_cipher_to_suite WPA_PROTO_RSN grp \<noteq> 0"
    "rsn_cipher_suite_to_wpa_cipher (wpa_cipher_to_suite WPA_PROTO_RSN grp) = grp"
proof -
  have "grp \<in> {WPA_CIPHER_CCMP_256, WPA_CIPHER_GCMP_256, WPA_CIPHER_CCMP, WPA_CIPHER_GCMP, WPA_CIPHER_TKIP,
      WPA_CIPHER_GTK_NOT_USED}"
    using assms by (auto simp: wpa_cipher_valid_group_def wpa_cipher_valid_pairwise_def)
  then show "wpa_cipher_to_suite WPA_PROTO_RSN grp \<noteq> 0"
    "rsn_cipher_suite_to_wpa_cipher (wpa_cipher_to_suite WPA_PROTO_RSN grp) = grp"
    by (elim insertE emptyE; simp add: wpa_cipher_to_suite_def first_set_def rsn_cipher_suite_to_wpa_cipher_def switch_def
        cipher_defs selector_defs)+
qed

lemma mgmt_suite_back:
  assumes "mgmt_suite gmc = Some s"
  shows "rsn_cipher_suite_to_wpa_cipher s = gmc" "wpa_cipher_valid_mgmt_group gmc"
  using assms
  by (auto simp: mgmt_suite_def rsn_cipher_suite_to_wpa_cipher_def switch_def selector_defs
      wpa_cipher_valid_mgmt_group_def split: if_splits)

section \<open>The fields come back\<close>

lemma suites_body_put:
  "ss \<noteq> [] \<Longrightarrow> length ss \<le> 21 \<Longrightarrow>
    suite_list f upd seen botch short (suites_body ss @ r, length (suites_body ss) + left, d) =
      Some (Inr (r, left, upd (or_all (map f ss)) (seen (upd 0 d))))"
  using suite_list_put [of ss f upd seen botch short r left d] by (simp add: suites_body_def add.assoc)

text \<open>The PMKID list and the group management cipher.\<close>

lemma tail_back:
  assumes m: "mgmt_body pid mfp gmc = Some m" and pid: "\<And>p. pid = Some p \<Longrightarrow> length p = 16"
    and n: "ie_num_pmkid d = 0"
  shows "\<exists>q r'. stages [rsn_pmkids, rsn_mgmt_group] (pmkid_body pid @ m @ r, length (pmkid_body pid) + length m, d) =
      Some (Inr (r', 0, d\<lparr>ie_num_pmkid := (if pid = None then 0 else 1), ie_pmkid := q,
        ie_mgmt_group_cipher := (if mfp = NO_MGMT_FRAME_PROTECTION \<or> gmc = WPA_CIPHER_AES_128_CMAC
          then ie_mgmt_group_cipher d else gmc)\<rparr>)) \<and>
    (\<forall>p. pid = Some p \<longrightarrow> (\<exists>r''. q = Some (p @ r'')))"
proof -
  have gmc: "rsn_mgmt_group (WPA_PUT_BE32 s @ r, 4, e) = Some (Inr (r, 0, e\<lparr>ie_mgmt_group_cipher := gmc\<rparr>))"
    if "mgmt_suite gmc = Some s" for s e
    using rsn_mgmt_group_put [of s r 0 e] mgmt_suite_back [OF that] by simp
  have p1: "rsn_pmkids (WPA_PUT_LE16 1 @ p @ r', 18 + left, e) =
      Some (Inr (r', left, e\<lparr>ie_num_pmkid := 1, ie_pmkid := Some (p @ r')\<rparr>))" if "length p = 16" for p r' left e
    using rsn_pmkids_put [of p 1 r' left e] that by simp
  have p0: "rsn_pmkids (WPA_PUT_LE16 0 @ r', 2 + left, e) =
      Some (Inr (r', left, e\<lparr>ie_num_pmkid := 0, ie_pmkid := Some r'\<rparr>))" for r' left e
    using rsn_pmkids_put [of "[]" 0 r' left e] by simp
  show ?thesis
  proof (cases pid)
    case None
    show ?thesis
    proof (cases "m = []")
      case True
      then have "mfp = NO_MGMT_FRAME_PROTECTION \<or> gmc = WPA_CIPHER_AES_128_CMAC"
        using m None by (auto simp: mgmt_body_def WPA_PUT_BE32_def split: if_splits)
      then show ?thesis using None True n
        by (intro exI [of _ "ie_pmkid d"] exI [of _ r]) (simp add: stages_end pmkid_body_def)
    next
      case False
      then obtain s where "mgmt_suite gmc = Some s" "m = WPA_PUT_LE16 0 @ WPA_PUT_BE32 s"
        "\<not> (mfp = NO_MGMT_FRAME_PROTECTION \<or> gmc = WPA_CIPHER_AES_128_CMAC)"
        using m None by (auto simp: mgmt_body_def split: if_splits)
      then show ?thesis using None p0 [of "WPA_PUT_BE32 s @ r" 4 d] gmc
        by (intro exI [of _ "Some (WPA_PUT_BE32 s @ r)"] exI [of _ r]) (simp add: pmkid_body_def)
    qed
  next
    case (Some p)
    then have p: "length p = 16" using pid by simp
    show ?thesis
    proof (cases "m = []")
      case True
      then have "mfp = NO_MGMT_FRAME_PROTECTION \<or> gmc = WPA_CIPHER_AES_128_CMAC"
        using m Some by (auto simp: mgmt_body_def WPA_PUT_BE32_def split: if_splits)
      then show ?thesis using Some True p p1 [OF p, of r 0 d]
        by (intro exI [of _ "Some (p @ r)"] exI [of _ r]) (simp add: stages_end pmkid_body_def)
    next
      case False
      then obtain s where "mgmt_suite gmc = Some s" "m = WPA_PUT_BE32 s"
        "\<not> (mfp = NO_MGMT_FRAME_PROTECTION \<or> gmc = WPA_CIPHER_AES_128_CMAC)"
        using m Some by (auto simp: mgmt_body_def split: if_splits)
      then show ?thesis using Some p p1 [OF p, of "WPA_PUT_BE32 s @ r" 4 d] gmc
        by (intro exI [of _ "Some (p @ WPA_PUT_BE32 s @ r)"] exI [of _ r]) (simp add: pmkid_body_def)
    qed
  qed
qed

text \<open>What an element with given contents reads as.\<close>

definition reads_as :: "build \<Rightarrow> wpa_ie_data \<Rightarrow> u32 \<Rightarrow> u32 \<Rightarrow> u32 \<Rightarrow> u16 \<Rightarrow> bytes option \<Rightarrow> mfp_options \<Rightarrow> u32 \<Rightarrow> bool" where
  "reads_as C d grp pairw key_mgmt capab pid mfp gmc \<longleftrightarrow>
    ie_proto d = WPA_PROTO_RSN \<and> ie_has_group d \<and> ie_group_cipher d = grp \<and>
    ie_has_pairwise d \<and> ie_pairwise_cipher d = pairw AND rsn_pairwise_mask \<and>
    ie_key_mgmt d = key_mgmt AND rsn_akm_mask C \<and> ie_capabilities d = capab \<and>
    ie_num_pmkid d = (if pid = None then 0 else 1) \<and> (\<forall>p. pid = Some p \<longrightarrow> (\<exists>r. ie_pmkid d = Some (p @ r))) \<and>
    ie_mgmt_group_cipher d = (if mfp = NO_MGMT_FRAME_PROTECTION then WPA_CIPHER_AES_128_CMAC else gmc)"

lemma stages_append: "stages (fs @ gs) s = do { x \<leftarrow> stages fs s; case x of Inl r \<Rightarrow> Some (Inl r) | Inr s' \<Rightarrow> stages gs s' }"
  by (induction fs arbitrary: s) (auto split: sum.split Option.bind_split)

lemma fields_back:
  assumes body: "rsne_body C grp pairw k capab pid mfp gmc = Some b"
    and grp: "wpa_cipher_valid_group C grp" and pid: "\<And>p. pid = Some p \<Longrightarrow> length p = 16"
  shows "\<exists>d. map_option ie_return (stages (rsn_fields C) (b @ r, length b, rsn_defaults)) = Some (0, d) \<and>
    reads_as C d grp pairw k capab pid mfp gmc"
proof -
  define ps ks where "ps = rsn_cipher_put_suites pairw" and "ks = all_set k (rsn_akm_table C)"
  obtain m where m: "mgmt_body pid mfp gmc = Some m" "ps \<noteq> []" "ks \<noteq> []"
    "b = WPA_PUT_BE32 (wpa_cipher_to_suite WPA_PROTO_RSN grp) @ suites_body ps @ suites_body ks @ WPA_PUT_LE16 capab @
      pmkid_body pid @ m"
    using body by (auto simp: rsne_body_def Let_def ps_def ks_def split: if_splits)
  have len: "length ps \<le> 21" "length ks \<le> 21"
    using length_put_suites(1) [of pairw] length_akm_suites(1) [of k C] by (auto simp: ps_def ks_def)
  let ?t = "pmkid_body pid @ m @ r" and ?n = "length (pmkid_body pid) + length m"
  define d1 where "d1 = rsn_defaults\<lparr>ie_group_cipher := grp, ie_has_group := True, ie_has_pairwise := True,
    ie_pairwise_cipher := pairw AND rsn_pairwise_mask, ie_key_mgmt := k AND rsn_akm_mask C, ie_capabilities := capab\<rparr>"
  have 1: "rsn_group C (b @ r, length b, rsn_defaults) =
      Some (Inr (suites_body ps @ suites_body ks @ WPA_PUT_LE16 capab @ ?t,
        length (suites_body ps) + (length (suites_body ks) + (2 + ?n)), rsn_defaults\<lparr>ie_group_cipher := grp, ie_has_group := True\<rparr>))"
  proof -
    have "length b = 4 + (length (suites_body ps) + (length (suites_body ks) + (2 + ?n)))"
      by (simp add: m(4))
    moreover have "b @ r = WPA_PUT_BE32 (wpa_cipher_to_suite WPA_PROTO_RSN grp) @ suites_body ps @ suites_body ks @
        WPA_PUT_LE16 capab @ ?t"
      by (simp add: m(4))
    ultimately show ?thesis
      using rsn_group_put [of C "wpa_cipher_to_suite WPA_PROTO_RSN grp"] group_back [OF grp] grp
      by (simp only:)
  qed
  have 2: "stages [suite_list rsn_cipher_suite_to_wpa_cipher set_pairwise set_has_pairwise (-4) (-5), rsn_pairwise_valid,
      suite_list (rsn_key_mgmt_to_wpa_akm C) set_key_mgmt id (-6) (-7), ie_caps]
    (suites_body ps @ suites_body ks @ WPA_PUT_LE16 capab @ ?t, length (suites_body ps) + (length (suites_body ks) + (2 + ?n)),
      rsn_defaults\<lparr>ie_group_cipher := grp, ie_has_group := True\<rparr>) = Some (Inr (?t, ?n, d1))"
  proof -
    have a: "suite_list rsn_cipher_suite_to_wpa_cipher set_pairwise set_has_pairwise (-4) (-5)
        (suites_body ps @ r', length (suites_body ps) + left, d) =
        Some (Inr (r', left, set_pairwise (pairw AND rsn_pairwise_mask) (set_has_pairwise (set_pairwise 0 d))))" for r' left d
      using suites_body_put [OF m(2) len(1)] by (simp only: pairwise_list_back ps_def)
    have c: "suite_list (rsn_key_mgmt_to_wpa_akm C) set_key_mgmt id (-6) (-7)
        (suites_body ks @ r', length (suites_body ks) + left, d) =
        Some (Inr (r', left, set_key_mgmt (k AND rsn_akm_mask C) (id (set_key_mgmt 0 d))))" for r' left d
      using suites_body_put [OF m(3) len(2)] by (simp only: akm_list_back ks_def)
    have v: "rsn_pairwise_valid (r', left, set_pairwise (pairw AND rsn_pairwise_mask) d) =
        Some (Inr (r', left, set_pairwise (pairw AND rsn_pairwise_mask) d))" for r' left d
      using pairwise_mask_no_cmac [of pairw] by (simp add: rsn_pairwise_valid_def)
    show ?thesis
      by (simp only: stages.simps a v c ie_caps_put bind.bind_lunit sum.case) (simp add: d1_def)
  qed
  have "ie_num_pmkid d1 = 0" by (simp add: d1_def rsn_defaults_def)
  from tail_back [OF m(1) pid this, of r] obtain q r' where
    3: "stages [rsn_pmkids, rsn_mgmt_group] (?t, ?n, d1) =
      Some (Inr (r', 0, d1\<lparr>ie_num_pmkid := (if pid = None then 0 else 1), ie_pmkid := q,
        ie_mgmt_group_cipher := (if mfp = NO_MGMT_FRAME_PROTECTION \<or> gmc = WPA_CIPHER_AES_128_CMAC
          then ie_mgmt_group_cipher d1 else gmc)\<rparr>))"
    and q: "\<forall>p. pid = Some p \<longrightarrow> (\<exists>r''. q = Some (p @ r''))" by blast
  have "rsn_fields C = [rsn_group C] @ [suite_list rsn_cipher_suite_to_wpa_cipher set_pairwise set_has_pairwise (-4) (-5),
      rsn_pairwise_valid, suite_list (rsn_key_mgmt_to_wpa_akm C) set_key_mgmt id (-6) (-7), ie_caps] @
      [rsn_pmkids, rsn_mgmt_group]"
    by (simp add: rsn_fields_def)
  then show ?thesis
    using 1 2 3 q
    by (simp only: stages_append stages.simps(1)) (auto simp: reads_as_def ie_return_def d1_def rsn_defaults_def)
qed

section \<open>Written elements\<close>

lemma emit_Ok: "emit_bytes len w bs = Ok w' \<longleftrightarrow> length w + length bs \<le> len \<and> w' = w @ bs"
  by (auto simp: emit_bytes_def)

lemma emit_suites_Ok:
  "emit_suites len w ss = Ok w' \<longleftrightarrow> ss \<noteq> [] \<and> length w + (2 + 4 * length ss) \<le> len \<and> w' = w @ suites_body ss"
  by (auto simp: emit_suites_def emit_Ok suites_body_def)

lemma put_mgmt_Ok: "rsne_put_mgmt len w pid mfp gmc = Ok w' \<Longrightarrow> \<exists>m. mgmt_body pid mfp gmc = Some m \<and> w' = w @ m"
  by (auto simp: rsne_put_mgmt_def mgmt_body_def or_fail_Ok_iff emit_Ok split: if_splits option.splits)

lemma put_pmkid_Ok: "rsne_put_pmkid len w pid = Ok w' \<Longrightarrow> w' = w @ pmkid_body pid"
  by (auto simp: rsne_put_pmkid_def pmkid_body_def emit_Ok split: if_splits option.splits)

lemma write_data_Ok:
  assumes "rsne_write_data C len w grp pairw k capab pid mfp gmc = Ok w'"
  obtains b where "rsne_body C grp pairw k capab pid mfp gmc = Some b" "w' = w @ b"
proof -
  have s: "wpa_cipher_to_suite WPA_PROTO_RSN grp \<noteq> 0"
    using assms by (auto simp: rsne_write_data_def Let_def split: if_splits)
  from assms s obtain w1 where
    "rsn_cipher_put_suites pairw \<noteq> []" "all_set k (rsn_akm_table C) \<noteq> []"
    "rsne_put_pmkid len (w @ WPA_PUT_BE32 (wpa_cipher_to_suite WPA_PROTO_RSN grp) @ suites_body (rsn_cipher_put_suites pairw) @
      suites_body (all_set k (rsn_akm_table C)) @ WPA_PUT_LE16 capab) pid = Ok w1"
    "rsne_put_mgmt len w1 pid mfp gmc = Ok w'"
    by (auto simp: rsne_write_data_def Let_def or_fail_Ok_iff emit_Ok emit_suites_Ok)
  moreover from put_mgmt_Ok [OF this(4)] obtain m where "mgmt_body pid mfp gmc = Some m" "w' = w1 @ m" by blast
  ultimately show thesis
    using s by (intro that) (auto simp: rsne_body_def Let_def dest!: put_pmkid_Ok)
qed

lemma unat_len_byte: "n < 256 \<Longrightarrow> unat (of_nat n :: u8) = n"
  by (simp add: unsigned_of_nat take_bit_eq_mod)

lemma write_rsn_ie_Ok:
  assumes "wpa_write_rsn_ie C conf len pid = Ok w"
  obtains b where "rsne_body C (conf_wpa_group conf) (conf_rsn_pairwise conf) (conf_wpa_key_mgmt conf)
      (wpa_own_rsn_capab C conf (conf_ieee80211w conf)) pid (conf_ieee80211w conf) (conf_group_mgmt_cipher conf) = Some b"
    "w = [WLAN_EID_RSN, of_nat (2 + length b)] @ WPA_PUT_LE16 RSN_VERSION @ b"
  using assms unfolding wpa_write_rsn_ie_def or_fail_Ok_iff emit_Ok
  by (force simp: set_len_def WPA_PUT_LE16_def elim!: write_data_Ok)

text \<open>The two overriding elements differ in their type and in the configuration they carry.\<close>

lemma write_override_Ok:
  assumes "or_fail (-1) (emit_bytes len [] ([WLAN_EID_VENDOR_SPECIFIC, 0] @ WPA_PUT_BE32 ty @ WPA_PUT_LE16 RSN_VERSION)) (\<lambda>w.
      or_fail (-1) (rsne_write_data C len w grp pairw k capab None mfp gmc) (\<lambda>w. Ok (set_len w))) = Ok w"
  obtains b where "rsne_body C grp pairw k capab None mfp gmc = Some b"
    "w = [WLAN_EID_VENDOR_SPECIFIC, of_nat (6 + length b)] @ WPA_PUT_BE32 ty @ WPA_PUT_LE16 RSN_VERSION @ b"
  using assms unfolding or_fail_Ok_iff emit_Ok
  by (force simp: set_len_def WPA_PUT_BE32_def WPA_PUT_LE16_def elim!: write_data_Ok)

lemma version_not_type: "w32 1 a b c \<noteq> RSNE_OVERRIDE_IE_VENDOR_TYPE" "w32 1 a b c \<noteq> RSNE_OVERRIDE_2_IE_VENDOR_TYPE"
proof -
  have "ucast (drop_bit 24 (w32 1 a b c)) = (1 :: u8)" by (rule w32_byte3)
  then show "w32 1 a b c \<noteq> RSNE_OVERRIDE_IE_VENDOR_TYPE" "w32 1 a b c \<noteq> RSNE_OVERRIDE_2_IE_VENDOR_TYPE"
    unfolding RSNE_OVERRIDE_IE_VENDOR_TYPE_def RSNE_OVERRIDE_2_IE_VENDOR_TYPE_def by (auto simp: drop_bit_eq_div)
qed

lemma parse_rsn_body:
  assumes "rsne_body C grp pairw k capab pid mfp gmc = Some b" "wpa_cipher_valid_group C grp"
    "\<And>p. pid = Some p \<Longrightarrow> length p = 16" "w = [WLAN_EID_RSN, of_nat (2 + length b)] @ WPA_PUT_LE16 RSN_VERSION @ b"
  shows "\<exists>d. wpa_parse_wpa_ie_rsn C (w @ r) (length w) = Some (0, d) \<and> reads_as C d grp pairw k capab pid mfp gmc"
proof -
  have len: "length w = 4 + length b" using assms(4) by simp
  have l: "unat (of_nat (2 + length b) :: u8) = length w - 2"
    using rsne_body_length [OF assms(1,3)] len by (subst unat_len_byte) auto
  have "rsn_override_hdr (w @ r) (length w) = Some False"
  proof (cases "8 \<le> length w")
    case True
    then obtain b0 b1 b2 b3 t where "b = b0 # b1 # b2 # b3 # t"
      using len by (cases b; cases "tl b"; cases "tl (tl b)"; cases "tl (tl (tl b))") auto
    then show ?thesis
      by (simp add: rsn_override_hdr_def advance_def assms(4) WPA_PUT_LE16_def RSN_SELECTOR_GET_def WPA_GET_BE32_w32
          RSN_VERSION_def version_not_type)
  qed (simp add: rsn_override_hdr_def)
  then have "wpa_parse_wpa_ie_rsn C (w @ r) (length w) =
      map_option ie_return (stages (rsn_fields C) (b @ r, length b, rsn_defaults))"
    using l len by (simp add: wpa_parse_wpa_ie_rsn_def assms(4))
  then show ?thesis using fields_back [OF assms(1-3), of r] by simp
qed

lemma parse_override_body:
  assumes "rsne_body C grp pairw k capab pid mfp gmc = Some b" "wpa_cipher_valid_group C grp"
    "\<And>p. pid = Some p \<Longrightarrow> length p = 16" "ty = RSNE_OVERRIDE_IE_VENDOR_TYPE \<or> ty = RSNE_OVERRIDE_2_IE_VENDOR_TYPE"
    "w = [WLAN_EID_VENDOR_SPECIFIC, of_nat (6 + length b)] @ WPA_PUT_BE32 ty @ WPA_PUT_LE16 RSN_VERSION @ b"
  shows "\<exists>d. wpa_parse_wpa_ie_rsn C (w @ r) (length w) = Some (0, d) \<and> reads_as C d grp pairw k capab pid mfp gmc"
proof -
  have len: "length w = 8 + length b" using assms(5) by simp
  have l: "unat (of_nat (6 + length b) :: u8) = length w - 2"
    using rsne_body_length [OF assms(1,3)] len by (subst unat_len_byte) auto
  have "rsn_override_hdr (w @ r) (length w) = Some True"
    using l len assms(4) by (simp add: rsn_override_hdr_def advance_def assms(5))
  moreover have "advance (2 + 4 + 2) (w @ r) = Some (b @ r)"
    using len by (simp add: advance_def assms(5) WPA_PUT_LE16_def WPA_PUT_BE32_def)
  ultimately have "wpa_parse_wpa_ie_rsn C (w @ r) (length w) =
      map_option ie_return (stages (rsn_fields C) (b @ r, length b, rsn_defaults))"
    using len by (simp add: wpa_parse_wpa_ie_rsn_def)
  then show ?thesis using fields_back [OF assms(1-3), of r] by simp
qed

section \<open>The RSN extension element\<close>

lemma bit_foldr_or:
  "bit (foldr (OR) (map (\<lambda>i. push_bit (8 * i) (ucast (f i :: u8) :: u32)) xs) 0) k \<longleftrightarrow>
    k < 32 \<and> (\<exists>i\<in>set xs. 8 * i \<le> k \<and> bit (f i) (k - 8 * i))"
  by (induction xs) (auto simp: bit_simps)

lemma flen_bytes [simp]: "length (rsnxe_bytes c) = rsnxe_flen c"
  by (induction c rule: rsnxe_flen.induct) (subst rsnxe_bytes.simps, subst rsnxe_flen.simps, simp)

lemma flen_le: "drop_bit (8 * n) c = 0 \<Longrightarrow> rsnxe_flen c \<le> n"
proof (induction n arbitrary: c)
  case 0
  then show ?case by (subst rsnxe_flen.simps) simp
next
  case (Suc n)
  then have "drop_bit (8 * n) (drop_bit 8 c) = 0" by (simp add: add.commute)
  then show ?case using Suc.IH by (subst rsnxe_flen.simps) simp
qed

lemma flen_le_4: "rsnxe_flen c \<le> 4"
  by (rule flen_le, rule bit_word_eqI) (simp add: bit_simps)

lemma drop_bit_beyond_flen: "drop_bit (8 * rsnxe_flen c) c = 0"
proof (induction c rule: rsnxe_flen.induct)
  case (1 c)
  then show ?case
    by (subst rsnxe_flen.simps) (simp add: add.commute)
qed

lemma bit_rsnxe_bytes:
  "i < rsnxe_flen c \<Longrightarrow> bit (rsnxe_bytes c ! i) j \<longleftrightarrow> j < 8 \<and> bit c (8 * i + j)"
proof (induction c arbitrary: i rule: rsnxe_flen.induct)
  case (1 c)
  show ?case
  proof (cases "c = 0")
    case True
    then show ?thesis using 1(2) by (simp add: rsnxe_flen.simps)
  next
    case False
    then have "rsnxe_bytes c = ucast (c AND 0xff) # rsnxe_bytes (drop_bit 8 c)" "rsnxe_flen c = Suc (rsnxe_flen (drop_bit 8 c))"
      by (subst rsnxe_bytes.simps, simp, subst rsnxe_flen.simps, simp)
    then show ?thesis using 1 False
      by (cases i) (auto simp: bit_simps and_255_mask add.commute add.left_commute add.assoc)
  qed
qed

lemma flen_low: "c \<noteq> 0 \<Longrightarrow> drop_bit 8 d = 0 \<Longrightarrow> rsnxe_flen (c OR d) = rsnxe_flen c"
  by (subst (1 2) rsnxe_flen.simps) (simp add: or_eq_0_iff)

text \<open>The length of the field, in the low nibble, is no capability: reading it back gives the bits above it.\<close>

lemma rsnxe_read:
  assumes c: "c \<noteq> 0" "c AND 0xf = 0" and k: "4 \<le> k"
  shows "ieee802_11_rsnx_capab_len (rsnxe_bytes (c OR of_nat (rsnxe_flen c - 1)) @ r) (rsnxe_flen c) k = Some (bit c k)"
proof -
  define n where "n = rsnxe_flen c"
  define e where "e = c OR of_nat (n - 1)"
  have n: "0 < n" "n \<le> 4" using c(1) flen_le_4 [of c] by (auto simp: n_def rsnxe_flen.simps [of c])
  then have n': "n = 1 \<or> n = 2 \<or> n = 3 \<or> n = 4" by linarith
  have low: "drop_bit 2 (of_nat (n - 1) :: u32) = 0" "drop_bit 8 (of_nat (n - 1) :: u32) = 0"
    "of_nat (n - 1) AND 0xf = (of_nat (n - 1) :: u32)"
    using n' by auto
  have fe: "rsnxe_flen e = n" using flen_low [OF c(1) low(2)] by (simp add: e_def n_def)
  have be: "bit e j = bit c j" if "2 \<le> j" for j
  proof -
    have "bit (of_nat (n - 1) :: u32) j = bit (drop_bit 2 (of_nat (n - 1) :: u32)) (j - 2)"
      using that by (simp only: bit_drop_bit_eq comp_def le_add_diff_inverse)
    then have "\<not> bit (of_nat (n - 1) :: u32) j" by (simp only: low(1)) simp
    then show ?thesis by (simp only: e_def bit_or_iff) simp
  qed
  have nib: "unat (rsnxe_bytes e ! 0 AND 0x0f) = n - 1"
  proof -
    have "(rsnxe_bytes e ! 0 AND 0x0f) = ucast (e AND 0xf)"
      using n by (intro bit_word_eqI) (auto simp: bit_simps bit_rsnxe_bytes fe)
    also have "e AND 0xf = of_nat (n - 1)"
      using c(2) low(3) by (simp add: e_def bit.conj_disj_distrib2)
    finally show ?thesis using n' by auto
  qed
  obtain b bs where b: "rsnxe_bytes e = b # bs" using fe n by (cases "rsnxe_bytes e") (auto simp flip: flen_bytes)
  have "bit (foldr (OR) (map (\<lambda>i. push_bit (8 * i) (ucast ((rsnxe_bytes e @ r) ! i) :: u32)) [0..<n]) 0) k = bit c k"
  proof -
    have "(\<exists>i\<in>set [0..<n]. 8 * i \<le> k \<and> bit ((rsnxe_bytes e @ r) ! i) (k - 8 * i)) \<longleftrightarrow> k div 8 < n \<and> bit e k"
    proof
      assume "\<exists>i\<in>set [0..<n]. 8 * i \<le> k \<and> bit ((rsnxe_bytes e @ r) ! i) (k - 8 * i)"
      then obtain i where i: "i < n" "8 * i \<le> k" "bit (rsnxe_bytes e ! i) (k - 8 * i)"
        using fe by (auto simp: nth_append)
      then have "k - 8 * i < 8" "bit e k" using fe by (auto simp: bit_rsnxe_bytes)
      moreover from this i have "k div 8 = i" by linarith
      ultimately show "k div 8 < n \<and> bit e k" using i by simp
    next
      assume *: "k div 8 < n \<and> bit e k"
      then have "bit (rsnxe_bytes e ! (k div 8)) (k - 8 * (k div 8))"
        using fe by (simp add: bit_rsnxe_bytes minus_mult_div_eq_mod)
      then show "\<exists>i\<in>set [0..<n]. 8 * i \<le> k \<and> bit ((rsnxe_bytes e @ r) ! i) (k - 8 * i)"
        using * fe by (intro bexI [of _ "k div 8"]) (auto simp: nth_append)
    qed
    moreover have "k div 8 < n" if "bit c k"
    proof (rule ccontr)
      assume "\<not> k div 8 < n"
      then have "8 * n \<le> k" by linarith
      then have "bit (drop_bit (8 * n) c) (k - 8 * n)" using that by (simp add: bit_simps)
      then show False using drop_bit_beyond_flen [of c] by (simp add: n_def)
    qed
    ultimately show ?thesis using be k bit_imp_le_length [of c k] by (auto simp: bit_foldr_or)
  qed
  then have "ieee802_11_rsnx_capab_len (rsnxe_bytes e @ r) n k = Some (bit c k)"
    using b nib n fe flen_bytes [of e] by (simp add: ieee802_11_rsnx_capab_len_def min_absorb1)
  then show ?thesis by (simp only: e_def n_def)
qed

lemma rsnxe_capab_low: "rsnxe_capab C conf km AND 0xf = 0"
  by (simp add: rsnxe_capab_def set_capab_def Let_def rsnx_defs bit.conj_disj_distrib2)

lemma rsnxe_write_read:
  assumes "wpa_write_rsnxe C conf len = Ok w" "4 \<le> k"
  shows "ieee802_11_rsnx_capab (if w = [] then None else Some (w @ r)) k = Some (bit (rsnxe_capab C conf (conf_wpa_key_mgmt conf)) k)"
proof (cases "rsnxe_capab C conf (conf_wpa_key_mgmt conf) = 0")
  case True
  then show ?thesis using assms(1) by (simp add: wpa_write_rsnxe_def ieee802_11_rsnx_capab_def)
next
  case False
  then have "w = [WLAN_EID_RSNX, of_nat (rsnxe_flen (rsnxe_capab C conf (conf_wpa_key_mgmt conf)))] @
      rsnxe_bytes (rsnxe_capab C conf (conf_wpa_key_mgmt conf) OR
        of_nat (rsnxe_flen (rsnxe_capab C conf (conf_wpa_key_mgmt conf)) - 1))"
    using assms(1) by (auto simp: wpa_write_rsnxe_def Let_def emit_Ok split: if_splits)
  then show ?thesis
    using rsnxe_read [OF False rsnxe_capab_low assms(2), of r] flen_le_4 [of "rsnxe_capab C conf (conf_wpa_key_mgmt conf)"]
    by (simp add: ieee802_11_rsnx_capab_def WLAN_EID_RSNX_def WLAN_EID_VENDOR_SPECIFIC_def unat_len_byte)
qed

lemma rsnxe_override_write_read:
  assumes "wpa_write_rsnxe_override C conf len = Ok w" "4 \<le> k"
  shows "ieee802_11_rsnx_capab (if w = [] then None else Some (w @ r)) k =
    Some (bit (rsnxe_capab C conf (conf_rsn_override_key_mgmt conf OR conf_rsn_override_key_mgmt_2 conf)) k)"
    (is "_ = Some (bit ?c k)")
proof (cases "?c = 0")
  case True
  then show ?thesis using assms(1) by (simp add: wpa_write_rsnxe_override_def ieee802_11_rsnx_capab_def)
next
  case False
  then have w: "w = [WLAN_EID_VENDOR_SPECIFIC, of_nat (4 + rsnxe_flen ?c)] @ WPA_PUT_BE32 RSNXE_OVERRIDE_IE_VENDOR_TYPE @
      rsnxe_bytes (?c OR of_nat (rsnxe_flen ?c - 1))"
    using assms(1) by (auto simp: wpa_write_rsnxe_override_def Let_def emit_Ok split: if_splits)
  have "0 < rsnxe_flen c" if "c \<noteq> 0" for c using that by (subst rsnxe_flen.simps) simp
  then have "unat (of_nat (4 + rsnxe_flen ?c) :: u8) = 4 + rsnxe_flen ?c" "0 < rsnxe_flen ?c"
    using False flen_le_4 [of ?c] by (subst unat_len_byte, simp_all)
  then show ?thesis
    using rsnxe_read [OF False rsnxe_capab_low assms(2), of r]
    by (simp add: w ieee802_11_rsnx_capab_def advance_def WPA_PUT_BE32_def)
qed

section \<open>All elements fit\<close>

text \<open>A writer that needs at most \<open>n\<close> bytes: given them it does not overrun, and it fails with \<open>-1\<close> only.\<close>

definition fits :: "nat \<Rightarrow> (nat \<Rightarrow> bytes outcome) \<Rightarrow> bool" where
  "fits n f \<longleftrightarrow> (\<forall>len\<ge>n. f len = Ret (-1) \<or> (\<exists>w. f len = Ok w \<and> length w \<le> n))"

lemma fits_body:
  assumes "\<And>p. pid = Some p \<Longrightarrow> length p = 16" "length hdr \<le> h"
  shows "fits (h + 142) (\<lambda>len. or_fail (-1) (emit_bytes len [] hdr) (\<lambda>w.
    or_fail (-1) (rsne_write_data C len w grp pairw k capab pid mfp gmc) (\<lambda>w. Ok (set_len w))))"
  unfolding fits_def
proof (intro allI impI)
  fix len
  assume len: "h + 142 \<le> len"
  show "or_fail (-1) (emit_bytes len [] hdr) (\<lambda>w. or_fail (-1) (rsne_write_data C len w grp pairw k capab pid mfp gmc)
      (\<lambda>w. Ok (set_len w))) = Ret (-1) \<or> (\<exists>w. or_fail (-1) (emit_bytes len [] hdr) (\<lambda>w. or_fail (-1)
      (rsne_write_data C len w grp pairw k capab pid mfp gmc) (\<lambda>w. Ok (set_len w))) = Ok w \<and> length w \<le> h + 142)"
  proof (cases "rsne_body C grp pairw k capab pid mfp gmc")
    case None
    then show ?thesis using len assms by (simp add: emit_fits write_data_body)
  next
    case (Some b)
    then show ?thesis using len assms rsne_body_length [OF Some assms(1)]
      by (simp add: emit_fits write_data_body set_len_def)
  qed
qed

lemma fits_rsn_ie: "fits 146 (\<lambda>len. wpa_write_rsn_ie C conf len None)"
  using fits_body [of None "[WLAN_EID_RSN, 0] @ WPA_PUT_LE16 RSN_VERSION" 4] by (simp add: wpa_write_rsn_ie_def)

lemma fits_override: "fits 150 (wpa_write_rsne_override C conf)" "fits 150 (wpa_write_rsne_override_2 C conf)"
  using fits_body [of None "[WLAN_EID_VENDOR_SPECIFIC, 0] @ WPA_PUT_BE32 RSNE_OVERRIDE_IE_VENDOR_TYPE @ WPA_PUT_LE16 RSN_VERSION" 8]
    fits_body [of None "[WLAN_EID_VENDOR_SPECIFIC, 0] @ WPA_PUT_BE32 RSNE_OVERRIDE_2_IE_VENDOR_TYPE @ WPA_PUT_LE16 RSN_VERSION" 8]
  by (simp_all add: wpa_write_rsne_override_def [abs_def] wpa_write_rsne_override_2_def [abs_def])

lemma emit_small: "length bs \<le> n \<Longrightarrow> n \<le> len \<Longrightarrow> emit_bytes len [] bs = Ok bs"
  by (simp add: emit_bytes_def)

lemma fits_rsnxe: "fits 6 (wpa_write_rsnxe C conf)"
  unfolding fits_def wpa_write_rsnxe_def Let_def
  using flen_le_4 by (auto simp: emit_small [of _ 6])

lemma fits_rsnxe_override: "fits 10 (wpa_write_rsnxe_override C conf)"
  unfolding fits_def wpa_write_rsnxe_override_def Let_def
  using flen_le_4 by (auto simp: emit_small [of _ 10])

lemma fits_mdie: "length (conf_mobility_domain conf) = 2 \<Longrightarrow> fits 5 (wpa_write_mdie conf)"
  by (simp add: fits_def wpa_write_mdie_def emit_bytes_def)

lemma fits_wpa_ie: "fits 38 (wpa_write_wpa_ie conf)"
  unfolding fits_def
proof (intro allI impI)
  fix len :: nat
  assume "38 \<le> len"
  then show "wpa_write_wpa_ie conf len = Ret (-1) \<or> (\<exists>w. wpa_write_wpa_ie conf len = Ok w \<and> length w \<le> 38)"
    using length_put_suites(2) [of "conf_wpa_pairwise conf"] length_akm_suites(2) [of "conf_wpa_key_mgmt conf"]
    by (auto simp: wpa_write_wpa_ie_def Let_def emit_fits emit_suites_fits set_len_def)
qed

lemma fits_mono: "fits m f \<Longrightarrow> m \<le> n \<Longrightarrow> fits n f"
  unfolding fits_def by (meson le_trans)

text \<open>One more element in front of a continuation that needs \<open>m\<close> bytes beyond what is written.\<close>

definition fits_from :: "nat \<Rightarrow> nat \<Rightarrow> (bytes \<Rightarrow> bytes outcome) \<Rightarrow> bool" where
  "fits_from len m k \<longleftrightarrow> (\<forall>w. length w + m \<le> len \<longrightarrow> k w = Ret (-1) \<or> (\<exists>w'. k w = Ok w' \<and> length w' \<le> length w + m))"

lemma fits_from_Ok: "fits_from len 0 Ok"
  by (simp add: fits_from_def)

lemma fits_from_element:
  assumes f: "c \<Longrightarrow> fits n f" and k: "fits_from len m k"
  shows "fits_from len (n + m) (\<lambda>w. element c f len w k)"
  unfolding fits_from_def
proof (intro allI impI)
  fix w :: bytes
  assume w: "length w + (n + m) \<le> len"
  show "element c f len w k = Ret (-1) \<or> (\<exists>w'. element c f len w k = Ok w' \<and> length w' \<le> length w + (n + m))"
  proof (cases c)
    case True
    then have "f (len - length w) = Ret (-1) \<or> (\<exists>ie. f (len - length w) = Ok ie \<and> length ie \<le> n)"
      using f w unfolding fits_def by (metis add_leE le_diff_conv2 add.commute)
    then show ?thesis
    proof (elim disjE exE conjE)
      fix ie
      assume ie: "f (len - length w) = Ok ie" "length ie \<le> n"
      then have "length (w @ ie) + m \<le> len" using w by simp
      then have "k (w @ ie) = Ret (-1) \<or> (\<exists>w'. k (w @ ie) = Ok w' \<and> length w' \<le> length (w @ ie) + m)"
        using k unfolding fits_from_def by blast
      then show ?thesis using True ie by (auto simp: element_def)
    qed (simp add: element_def True)
  next
    case False
    moreover have "length w + m \<le> len" using w by simp
    ultimately show ?thesis using k unfolding fits_from_def
      by (auto simp: element_def dest!: spec [of _ w])
  qed
qed

lemma own_elements_fit:
  assumes "length (conf_mobility_domain conf) = 2" "505 \<le> len"
  shows "own_elements C conf len = Ret (-1) \<or> (\<exists>w. own_elements C conf len = Ok w \<and> length w \<le> 505)"
proof -
  have "fits 6 (\<lambda>n. if conf_rsn_override_omit_rsnxe conf then Ok [] else wpa_write_rsnxe C conf n)"
    using fits_rsnxe [of C conf] by (auto simp: fits_def)
  note * = fits_from_element [OF fits_rsn_ie fits_from_element [OF this fits_from_element [OF fits_mdie [OF assms(1)]
      fits_from_element [OF fits_wpa_ie fits_from_element [OF fits_override(1) fits_from_element [OF fits_override(2)
      fits_from_element [OF fits_rsnxe_override fits_from_Ok]]]]]]]
  show ?thesis
    using * [unfolded fits_from_def, rule_format, of "[]"] assms(2) unfolding own_elements_def Let_def by simp
qed

end
