(* ===== verification/RsnInsert.thy ===== *)
theory RsnInsert
  imports RsnRoundtrip
begin

text \<open>
  \<open>wpa_insert_pmkid\<close> of \<open>src/mininet-wifi/hostap/src/common/wpa_common.c\<close>: adding a PMKID to the RSN element
  inside a buffer of elements.  Pointers are offsets into the buffer, whose length is its capacity; an access
  outside the buffer, or a move of a negative number of bytes, is \<open>None\<close>.
\<close>

section \<open>Access to the buffer\<close>

definition rd8 :: "bytes \<Rightarrow> nat \<Rightarrow> u8 option" where
  "rd8 buf i = (if i < length buf then Some (buf ! i) else None)"

definition rd16 :: "bytes \<Rightarrow> nat \<Rightarrow> u16 option" where
  "rd16 buf i = map_option fst (WPA_GET_LE16 (drop i buf))"

definition wr :: "bytes \<Rightarrow> nat \<Rightarrow> bytes \<Rightarrow> bytes option" where
  "wr buf off src = (if off + length src \<le> length buf then Some (put_bytes buf off src) else None)"

definition os_memmove :: "bytes \<Rightarrow> nat \<Rightarrow> nat \<Rightarrow> int \<Rightarrow> bytes option" where
  "os_memmove buf dst src n =
    (if 0 \<le> n \<and> src + nat n \<le> length buf then wr buf dst (get_bytes buf src (nat n)) else None)"

text \<open>\<open>start[1] += n\<close>, in a byte.\<close>

definition add_len :: "bytes \<Rightarrow> nat \<Rightarrow> int \<Rightarrow> bytes option" where
  "add_len buf start n = do { l \<leftarrow> rd8 buf (start + 1); wr buf (start + 1) [l + of_int n] }"

section \<open>Finding the element\<close>

text \<open>\<open>while (start < end) { if (*start == WLAN_EID_RSN) break; start += 2 + start[1]; }\<close>\<close>

function find_rsne :: "bytes \<Rightarrow> nat \<Rightarrow> nat \<Rightarrow> nat option" where
  "find_rsne buf fin start =
    (if start < fin then
       case rd8 buf start of
         None \<Rightarrow> None
       | Some eid \<Rightarrow>
           if eid = WLAN_EID_RSN then Some start
           else (case rd8 buf (start + 1) of
             None \<Rightarrow> None
           | Some l \<Rightarrow> find_rsne buf fin (start + (2 + unat l)))
     else Some start)"
  by auto
termination by (relation "measure (\<lambda>(buf, fin, start). fin - start)") auto

declare find_rsne.simps [simp del]

section \<open>Inserting\<close>

text \<open>
  From the PMKID count on: \<open>rpos\<close> is where it starts or would start, \<open>rend\<close> the end of the element,
  \<open>added\<close> the bytes already added before it.
\<close>

definition insert_pmkid_list :: "bytes \<Rightarrow> nat \<Rightarrow> nat \<Rightarrow> nat \<Rightarrow> nat \<Rightarrow> int \<Rightarrow> bytes \<Rightarrow> bool \<Rightarrow>
    (int \<times> bytes \<times> int) option" where
  "insert_pmkid_list buf ies_len start rpos rend added p replace =
    (if rpos = rend then do {
       buf \<leftarrow> os_memmove buf (rpos + 2 + 16) rpos (int ies_len + added - int rpos);
       buf \<leftarrow> wr buf rpos (WPA_PUT_LE16 1);
       buf \<leftarrow> wr buf (rpos + 2) p;
       buf \<leftarrow> add_len buf start (2 + 16);
       Some (0, buf, int ies_len + added + (2 + 16))
     }
     else if rend - rpos < 2 then Some (-1, buf, int ies_len)
     else do {
       num_pmkid \<leftarrow> rd16 buf rpos;
       if unat num_pmkid * 16 > rend - rpos - 2 then Some (-1, buf, int ies_len)
       else do {
         (buf, added, num_pmkid) \<leftarrow>
           (if replace \<and> num_pmkid \<noteq> 0 then do {
              let after = rpos + 2 + unat num_pmkid * 16;
              buf \<leftarrow> os_memmove buf (rpos + 2) after (int ies_len - int after);
              buf \<leftarrow> add_len buf start (- int (unat num_pmkid * 16));
              Some (buf, added - int (unat num_pmkid * 16), 0)
            }
            else Some (buf, added, num_pmkid));
         buf \<leftarrow> wr buf rpos (WPA_PUT_LE16 (num_pmkid + 1));
         let rpos = rpos + 2;
         buf \<leftarrow> os_memmove buf (rpos + 16) rpos (int ies_len + added - int rpos);
         buf \<leftarrow> wr buf rpos p;
         buf \<leftarrow> add_len buf start 16;
         Some (0, buf, int ies_len + added + 16)
       }
     })"

definition wpa_insert_pmkid :: "bytes \<Rightarrow> nat \<Rightarrow> bytes \<Rightarrow> bool \<Rightarrow> (int \<times> bytes \<times> int) option" where
  "wpa_insert_pmkid buf ies_len p replace = do {
     start \<leftarrow> find_rsne buf ies_len 0;
     if start \<ge> ies_len then Some (-1, buf, int ies_len)
     else do {
       l \<leftarrow> rd8 buf (start + 1);
       let rend = start + 2 + unat l;
       let rpos = start + 2 + (2 + 4);
       n \<leftarrow> rd16 buf rpos;
       let rpos = rpos + (2 + unat n * 4);
       m \<leftarrow> rd16 buf rpos;
       let rpos = rpos + (2 + unat m * 4);
       if rpos = rend then do {
         buf \<leftarrow> os_memmove buf (rpos + 2) rpos (int ies_len - int rpos);
         buf \<leftarrow> wr buf rpos [0, 0];
         buf \<leftarrow> add_len buf start 2;
         insert_pmkid_list buf ies_len start (rpos + 2) (rpos + 2) 2 p replace
       }
       else if rpos + 2 > rend then Some (-1, buf, int ies_len)
       else insert_pmkid_list buf ies_len start (rpos + 2) rend 0 p replace
     }
   }"

section \<open>Moving bytes aside\<close>

lemma rd8_at: "rd8 (x @ b # y) (length x) = Some b" "rd8 (x @ a # b # y) (Suc (length x)) = Some b"
  by (simp_all add: rd8_def nth_append)

lemma wr_at: "length g = length src \<Longrightarrow> wr (x @ g @ y) (length x) src = Some (x @ src @ y)"
  by (simp add: wr_def put_bytes_def)

lemma memmove_up:
  assumes "k \<le> length z"
  shows "\<exists>g. length g = k \<and> os_memmove (x @ y @ z) (length x + k) (length x) (int (length y)) = Some (x @ g @ y @ drop k z)"
  using assms
  by (intro exI [of _ "take k (y @ z)"])
    (auto simp: os_memmove_def wr_def put_bytes_def get_bytes_def)

lemma add_len_at: "add_len (x @ a # l # y) (length x) n = Some (x @ a # (l + of_int n) # y)"
  using wr_at [of "[l]" "[l + of_int n]" "x @ [a]" y] by (simp add: add_len_def rd8_at)

section \<open>The element is found\<close>

definition ie_bytes :: "u8 \<times> bytes \<Rightarrow> bytes" where
  "ie_bytes e = fst e # of_nat (length (snd e)) # snd e"

definition no_rsne :: "(u8 \<times> bytes) list \<Rightarrow> bool" where
  "no_rsne es \<longleftrightarrow> (\<forall>e\<in>set es. fst e \<noteq> WLAN_EID_RSN \<and> length (snd e) < 256)"

lemma find_rsne_at:
  "no_rsne es \<Longrightarrow> length a + length (concat (map ie_bytes es)) < fin \<Longrightarrow>
    find_rsne (a @ concat (map ie_bytes es) @ WLAN_EID_RSN # t) fin (length a) =
      Some (length a + length (concat (map ie_bytes es)))"
proof (induction es arbitrary: a)
  case Nil
  then show ?case by (subst find_rsne.simps) (simp add: rd8_at)
next
  case (Cons e es)
  then have e: "fst e \<noteq> WLAN_EID_RSN" "unat (of_nat (length (snd e)) :: u8) = length (snd e)"
    by (auto simp: no_rsne_def unat_len_byte)
  let ?buf = "a @ concat (map ie_bytes (e # es)) @ WLAN_EID_RSN # t"
  have "find_rsne ?buf fin (length a) = find_rsne ?buf fin (length a + (2 + length (snd e)))"
    using Cons.prems(2) e by (subst find_rsne.simps) (simp add: rd8_at ie_bytes_def)
  also have "\<dots> = Some (length (a @ ie_bytes e) + length (concat (map ie_bytes es)))"
    using Cons.IH [of "a @ ie_bytes e"] Cons.prems by (simp add: no_rsne_def ie_bytes_def [of e])
  finally show ?case by simp
qed

section \<open>Inserting into a written element\<close>

text \<open>
  An element written without a PMKID, cut where the PMKID count goes: \<open>x\<close> up to there, \<open>y\<close> the rest.
\<close>

lemma insert_absent:
  assumes slack: "18 \<le> length slack" and p: "length p = 16" and x: "x = a @ e # l # x'"
  shows "insert_pmkid_list (x @ y @ slack) (length x + length y) (length a) (length x) (length x) 0 p replace =
    Some (0, a @ e # (l + 18) # x' @ WPA_PUT_LE16 1 @ p @ y @ drop 18 slack, int (length x + length y) + 18)"
proof -
  obtain g where g: "length g = 18" "os_memmove (x @ y @ slack) (length x + 18) (length x) (int (length y)) =
      Some (x @ g @ y @ drop 18 slack)" using memmove_up [OF slack] by blast
  obtain g1 g2 where g12: "g = g1 @ g2" "length g1 = 2" "length g2 = 16"
    using g(1) by (intro that [of "take 2 g" "drop 2 g"]) simp_all
  have w1: "wr (x @ g @ y @ drop 18 slack) (length x) (WPA_PUT_LE16 1) = Some (x @ WPA_PUT_LE16 1 @ g2 @ y @ drop 18 slack)"
    using wr_at [of g1 "WPA_PUT_LE16 1" x "g2 @ y @ drop 18 slack"] g12 by simp
  have w2: "wr (x @ WPA_PUT_LE16 1 @ g2 @ y @ drop 18 slack) (length x + 2) p =
      Some (x @ WPA_PUT_LE16 1 @ p @ y @ drop 18 slack)"
    using wr_at [of g2 p "x @ WPA_PUT_LE16 1" "y @ drop 18 slack"] g12 p by simp
  have l: "add_len (x @ WPA_PUT_LE16 1 @ p @ y @ drop 18 slack) (length a) 18 =
      Some (a @ e # (l + 18) # x' @ WPA_PUT_LE16 1 @ p @ y @ drop 18 slack)"
    using add_len_at [of a e l "x' @ WPA_PUT_LE16 1 @ p @ y @ drop 18 slack" 18] by (simp add: x)
  have "int (length x + length y) + 0 - int (length x) = int (length y)" "length x + 2 + 16 = length x + 18"
    "(2 + 16 :: int) = 18" by simp_all
  then show ?thesis
    unfolding insert_pmkid_list_def
    by (simp only: g(2) w1 w2 l bind.bind_lunit if_True) simp
qed

text \<open>With a group management cipher the count is there, and zero.\<close>

lemma insert_present:
  assumes slack: "16 \<le> length slack" and p: "length p = 16" and x: "x = a @ e # l # x'" and s: "length s = 4"
  shows "insert_pmkid_list (x @ WPA_PUT_LE16 0 @ s @ y @ slack) (length x + 6 + length y) (length a) (length x) (length x + 6) 0 p
      replace =
    Some (0, a @ e # (l + 16) # x' @ WPA_PUT_LE16 1 @ p @ s @ y @ drop 16 slack, int (length x + 6 + length y) + 16)"
proof -
  have r: "rd16 (x @ WPA_PUT_LE16 0 @ s @ y @ slack) (length x) = Some 0"
    by (simp add: rd16_def)
  have w1: "wr (x @ WPA_PUT_LE16 0 @ s @ y @ slack) (length x) (WPA_PUT_LE16 1) =
      Some ((x @ WPA_PUT_LE16 1) @ (s @ y) @ slack)"
    using wr_at [of "WPA_PUT_LE16 0" "WPA_PUT_LE16 1" x] by simp
  obtain g where g: "length g = 16" "os_memmove ((x @ WPA_PUT_LE16 1) @ (s @ y) @ slack) (length x + 2 + 16) (length x + 2)
      (int (4 + length y)) = Some ((x @ WPA_PUT_LE16 1) @ g @ (s @ y) @ drop 16 slack)"
    using memmove_up [OF slack, of "x @ WPA_PUT_LE16 1" "s @ y"] s by auto
  have w2: "wr ((x @ WPA_PUT_LE16 1) @ g @ (s @ y) @ drop 16 slack) (length x + 2) p =
      Some (x @ WPA_PUT_LE16 1 @ p @ s @ y @ drop 16 slack)"
    using wr_at [of g p "x @ WPA_PUT_LE16 1" "(s @ y) @ drop 16 slack"] g p by simp
  have l: "add_len (x @ WPA_PUT_LE16 1 @ p @ s @ y @ drop 16 slack) (length a) 16 =
      Some (a @ e # (l + 16) # x' @ WPA_PUT_LE16 1 @ p @ s @ y @ drop 16 slack)"
    using add_len_at [of a e l "x' @ WPA_PUT_LE16 1 @ p @ s @ y @ drop 16 slack" 16] by (simp add: x)
  have e: "int (length x + 6 + length y) + 0 - int (length x + 2) = int (4 + length y)" by simp
  show ?thesis
    unfolding insert_pmkid_list_def Let_def
    by (simp add: r) (simp add: w1 [simplified] g(2) [simplified] w2 [simplified] l e)
qed

text \<open>Skipping the fields in front of the PMKID count.\<close>

lemma rd16_at: "rd16 (x @ WPA_PUT_LE16 v @ y) (length x) = Some v"
  by (simp add: rd16_def)

lemma rd16_suites: "length ss \<le> 21 \<Longrightarrow> rd16 (x @ suites_body ss @ y) (length x) = Some (of_nat (length ss))"
  by (simp add: suites_body_def rd16_at)

lemma insert_skip:
  assumes es: "no_rsne es" and ps: "length ps \<le> 21" and ks: "length ks \<le> 21" and suite: "length suite = 4"
    and caps: "length caps = 2" and ver: "length ver = 2"
    and pre: "pre = concat (map ie_bytes es)" and x: "x' = ver @ suite @ suites_body ps @ suites_body ks @ caps"
    and n: "length x' + n < 256" and fin: "length pre + 2 + length x' \<le> fin"
  shows "wpa_insert_pmkid (pre @ WLAN_EID_RSN # of_nat (length x' + n) # x' @ t) fin p replace =
    insert_pmkid_list (pre @ WLAN_EID_RSN # of_nat (length x' + n) # x' @ t) fin (length pre)
      (length pre + 2 + length x') (length pre + 2 + length x' + n) 0 p replace"
proof -
  let ?l = "of_nat (length x' + n) :: u8"
  let ?buf = "pre @ WLAN_EID_RSN # ?l # x' @ t"
  have find: "find_rsne ?buf fin 0 = Some (length pre)"
    using find_rsne_at [OF es, of "[]" fin "?l # x' @ t"] fin by (simp add: pre)
  have l: "rd8 ?buf (length pre + 1) = Some ?l" "unat ?l = length x' + n"
    using unat_len_byte [OF n] by (simp_all add: rd8_at)
  have r1: "rd16 ?buf (length pre + 8) = Some (of_nat (length ps))"
    using rd16_suites [OF ps, of "pre @ [WLAN_EID_RSN, ?l] @ ver @ suite" "suites_body ks @ caps @ t"] suite ver
    by (simp add: x)
  have r2: "rd16 ?buf (length pre + 8 + (2 + length ps * 4)) = Some (of_nat (length ks))"
    using rd16_suites [OF ks, of "pre @ [WLAN_EID_RSN, ?l] @ ver @ suite @ suites_body ps" "caps @ t"] suite ver
    by (simp add: x algebra_simps)
  have u: "unat (of_nat (length ps) :: u16) = length ps" "unat (of_nat (length ks) :: u16) = length ks"
    using ps ks by (simp_all add: unsigned_of_nat take_bit_eq_mod)
  have len: "length x' = 2 + 4 + (2 + length ps * 4) + (2 + length ks * 4) + 2"
    using suite caps ver by (simp add: x)
  show ?thesis
    unfolding wpa_insert_pmkid_def
    using find l r1 r2 u fin by (simp add: len Let_def algebra_simps)
qed

lemma insert_written:
  assumes w: "wpa_write_rsn_ie C conf len None = Ok w" and w': "wpa_write_rsn_ie C conf len' (Some p) = Ok w'"
    and p: "length p = 16" and es: "no_rsne es" and slack: "18 \<le> length slack"
  shows "\<exists>slack'. wpa_insert_pmkid (concat (map ie_bytes es) @ w @ post @ slack) (length (concat (map ie_bytes es) @ w @ post)) p
      replace = Some (0, concat (map ie_bytes es) @ w' @ post @ slack', int (length (concat (map ie_bytes es) @ w' @ post)))"
proof -
  define pre where "pre = concat (map ie_bytes es)"
  define ps ks where "ps = rsn_cipher_put_suites (conf_rsn_pairwise conf)"
    and "ks = all_set (conf_wpa_key_mgmt conf) (rsn_akm_table C)"
  define suite caps where "suite = WPA_PUT_BE32 (wpa_cipher_to_suite WPA_PROTO_RSN (conf_wpa_group conf))"
    and "caps = WPA_PUT_LE16 (wpa_own_rsn_capab C conf (conf_ieee80211w conf))"
  define x' where "x' = WPA_PUT_LE16 RSN_VERSION @ suite @ suites_body ps @ suites_body ks @ caps"
  define x where "x = pre @ WLAN_EID_RSN # of_nat (length x') # x'"
  obtain m where m: "mgmt_body None (conf_ieee80211w conf) (conf_group_mgmt_cipher conf) = Some m"
    "w = WLAN_EID_RSN # of_nat (length x' + length m) # x' @ m"
    using w by (elim write_rsn_ie_Ok)
      (auto simp: rsne_body_def Let_def pmkid_body_def x'_def suite_def caps_def ps_def ks_def algebra_simps split: if_splits)
  obtain m' where m': "mgmt_body (Some p) (conf_ieee80211w conf) (conf_group_mgmt_cipher conf) = Some m'"
    "w' = WLAN_EID_RSN # of_nat (length x' + (18 + length m')) # x' @ WPA_PUT_LE16 1 @ p @ m'"
    using w' p by (elim write_rsn_ie_Ok)
      (auto simp: rsne_body_def Let_def pmkid_body_def x'_def suite_def caps_def ps_def ks_def algebra_simps split: if_splits)
  have lens: "length ps \<le> 21" "length ks \<le> 21" "length suite = 4" "length caps = 2" "length (WPA_PUT_LE16 RSN_VERSION) = 2"
    using length_put_suites(1) [of "conf_rsn_pairwise conf"] length_akm_suites(1) [of "conf_wpa_key_mgmt conf" C]
    by (auto simp: ps_def ks_def suite_def caps_def)
  then have n: "length x' + length m < 256"
    using length_put_suites(1) [of "conf_rsn_pairwise conf"] length_mgmt_body [OF m(1)] by (simp add: x'_def ps_def)
  have skip: "wpa_insert_pmkid (pre @ WLAN_EID_RSN # of_nat (length x' + length m) # x' @ t) (length (pre @ w @ post)) p replace =
    insert_pmkid_list (pre @ WLAN_EID_RSN # of_nat (length x' + length m) # x' @ t) (length (pre @ w @ post)) (length pre)
      (length pre + 2 + length x') (length pre + 2 + length x' + length m) 0 p replace" for t
    using insert_skip [OF es lens(1-4) lens(5) pre_def x'_def n, of "length (pre @ w @ post)" t p replace] by (simp add: m(2))
  consider "m = []" "m' = []" | s where "m = WPA_PUT_LE16 0 @ s" "m' = s" "length s = 4"
    using m(1) m'(1) by (auto simp: mgmt_body_def split: if_splits)
  then show ?thesis
  proof cases
    case 1
    then show ?thesis
      using skip [of "post @ slack"]
        insert_absent [OF slack p, of "pre @ WLAN_EID_RSN # of_nat (length x') # x'" pre WLAN_EID_RSN "of_nat (length x')" x'
          post replace]
      by (simp add: pre_def [symmetric] m(2) m'(2) p algebra_simps)
  next
    case (2 s)
    have "16 \<le> length slack" using slack by simp
    from insert_present [OF this p, of "pre @ WLAN_EID_RSN # of_nat (length x' + 6) # x'" pre WLAN_EID_RSN
        "of_nat (length x' + 6)" x' s post replace]
    show ?thesis
      using 2 skip [of "WPA_PUT_LE16 0 @ s @ post @ slack"]
      by (simp add: pre_def [symmetric] m(2) m'(2) p algebra_simps)
  qed
qed

end
