(* ===== verification/RsnValidate.thy ===== *)
theory RsnValidate
  imports RsnInsert
begin

text \<open>
  Admission of a station: \<open>wpa_validate_wpa_ie\<close> of \<open>src/mininet-wifi/hostap/src/ap/wpa_auth_ie.c\<close>, which checks the
  RSN or WPA element of an association request against the configuration, selects AKM and ciphers and looks
  up the PMKIDs in the PMKSA caches.  The function is a list of stages over one state: authenticator, station
  and the local variables.  \<open>CONFIG_IEEE80211BE\<close>, \<open>CONFIG_TESTING_OPTIONS\<close> and \<open>CONFIG_RSN_TESTING\<close> are not set.
\<close>

section \<open>State\<close>

datatype wpa_validate_result = WPA_IE_OK | WPA_INVALID_IE | WPA_INVALID_GROUP | WPA_INVALID_PAIRWISE
  | WPA_INVALID_AKMP | WPA_NOT_ENABLED | WPA_ALLOC_FAIL | WPA_MGMT_FRAME_PROTECTION_VIOLATION
  | WPA_INVALID_MGMT_GROUP_CIPHER | WPA_INVALID_MDIE | WPA_INVALID_PROTO | WPA_INVALID_PMKID | WPA_DENIED_OTHER_REASON

datatype wpa_version = WPA_VERSION_NO_WPA | WPA_VERSION_WPA | WPA_VERSION_WPA2

text \<open>The fields of \<open>struct wpa_authenticator\<close> the function uses; \<open>au_cache\<close> is \<open>pmksa\<close>.\<close>

record wpa_authenticator =
  au_conf :: wpa_auth_config
  au_addr :: bytes
  au_cache :: rsn_pmksa_cache
  au_suite_selected :: u32
  au_pairwise_selected :: u32
  au_group_selected :: u32
  au_pmkid_used :: bytes

text \<open>
  The fields of \<open>struct wpa_state_machine\<close> the function uses.  \<open>sm_pairwise\<close> is \<open>None\<close> for \<open>-1\<close>; \<open>sm_wpa_ie\<close>
  and \<open>sm_rsnxe\<close> are the allocated buffers, of which \<open>sm_wpa_ie_len\<close> and \<open>sm_rsnxe_len\<close> bytes are in use;
  \<open>sm_pmksa\<close> points into the cache of the authenticator.
\<close>

record wpa_sm =
  sm_addr :: bytes
  sm_p2p_dev_addr :: bytes
  sm_rsn_override :: bool
  sm_rsn_override_2 :: bool
  sm_auth_alg :: int
  sm_pmk_r1_name_valid :: bool
  sm_pmk_r1_name :: bytes
  sm_wpa_key_mgmt :: u32
  sm_pairwise :: "u32 option"
  sm_wpa :: wpa_version
  sm_mgmt_frame_prot :: bool
  sm_mfpr :: bool
  sm_spp_amsdu :: bool
  sm_ocv_enabled :: int
  sm_pmksa :: "ref option"
  sm_use_ext_key_id :: bool
  sm_keyidx_active :: int
  sm_wpa_ie :: "bytes option"
  sm_wpa_ie_len :: nat
  sm_rsnxe :: "bytes option"
  sm_rsnxe_len :: nat

text \<open>
  The arguments from the association request: elements with their lengths (\<open>None\<close> for \<open>NULL\<close>), whether there
  is a Diffie-Hellman element, and the AKM and cipher of the association link.
\<close>

record assoc_req =
  rq_freq :: int
  rq_wpa_ie :: "bytes option"
  rq_wpa_ie_len :: nat
  rq_rsnxe :: "bytes option"
  rq_rsnxe_len :: nat
  rq_mdie :: "bytes option"
  rq_mdie_len :: nat
  rq_owe_dh :: bool
  rq_assoc_sm :: "(u32 \<times> u32 option) option"

text \<open>
  What the calls outside this code answer: the HMACs, the clock, the address of a new PMKSA entry (\<open>None\<close> when
  the allocation fails), the two allocations for the stored elements, the driver's SAE offload flag, and the
  caches of the authenticators that \<open>wpa_auth_for_each_auth\<close> visits, in their order.
\<close>

record environment =
  ev_hm :: hmacs
  ev_now :: int
  ev_fresh :: "ref option"
  ev_alloc_ie :: bool
  ev_alloc_rsnxe :: bool
  ev_sae_offload :: bool
  ev_auths :: "rsn_pmksa_cache list"

record vstate =
  v_au :: wpa_authenticator
  v_sm :: wpa_sm
  v_data :: wpa_ie_data
  v_version :: wpa_proto
  v_res :: int
  v_key_mgmt :: u32
  v_ciphers :: u32
  v_pid :: "bytes option"

type_synonym vstage = "vstate \<Rightarrow> ((wpa_validate_result \<times> vstate) + vstate) option"

abbreviation v_conf :: "vstate \<Rightarrow> wpa_auth_config" where
  "v_conf s \<equiv> au_conf (v_au s)"

definition set_sm :: "(wpa_sm \<Rightarrow> wpa_sm) \<Rightarrow> vstate \<Rightarrow> vstate" where
  "set_sm f s = s\<lparr>v_sm := f (v_sm s)\<rparr>"

text \<open>\<open>if (c) return r;\<close>\<close>

definition reject :: "bool \<Rightarrow> wpa_validate_result \<Rightarrow> vstage" where
  "reject c r s = Some (if c then Inl (r, s) else Inr s)"

text \<open>\<open>if (c1) x = v1; else if (c2) x = v2; ... else x = d;\<close>\<close>

definition first_hit :: "(bool \<times> 'a) list \<Rightarrow> 'a \<Rightarrow> 'a" where
  "first_hit cs d = (case find fst cs of Some c \<Rightarrow> snd c | None \<Rightarrow> d)"

definition has :: "u32 \<Rightarrow> u32 \<Rightarrow> bool" where
  "has x b \<longleftrightarrow> x AND b \<noteq> 0"

definition cap_set :: "vstate \<Rightarrow> u16 \<Rightarrow> bool" where
  "cap_set s c \<longleftrightarrow> ie_capabilities (v_data s) AND c \<noteq> 0"

definition wpa_default_rsn_cipher :: "int \<Rightarrow> u32" where
  "wpa_default_rsn_cipher freq = (if freq > 56160 then WPA_CIPHER_GCMP else WPA_CIPHER_CCMP)"

section \<open>Parsing the element\<close>

definition v_proto :: "assoc_req \<Rightarrow> vstage" where
  "v_proto rq s =
    (case rq_wpa_ie rq of
       None \<Rightarrow> Some (Inl (WPA_INVALID_IE, s))
     | Some ie \<Rightarrow>
         if rq_wpa_ie_len rq < 1 then Some (Inl (WPA_INVALID_IE, s))
         else (case ie of
           [] \<Rightarrow> None
         | b # _ \<Rightarrow>
             let version = (if b = WLAN_EID_RSN then WPA_PROTO_RSN else WPA_PROTO_WPA) in
             reject (\<not> has (conf_wpa (v_conf s)) (proto_bit version)) WPA_INVALID_PROTO (s\<lparr>v_version := version\<rparr>)))"

definition rsn_suite_selected :: "build \<Rightarrow> u32 \<Rightarrow> u32" where
  "rsn_suite_selected C km = first_set km (compiled
    [(True, WPA_KEY_MGMT_IEEE8021X_SUITE_B_192, RSN_AUTH_KEY_MGMT_802_1X_SUITE_B_192),
     (True, WPA_KEY_MGMT_IEEE8021X_SUITE_B, RSN_AUTH_KEY_MGMT_802_1X_SUITE_B),
     (CONFIG_FILS C \<and> CONFIG_IEEE80211R C, WPA_KEY_MGMT_FT_FILS_SHA384, RSN_AUTH_KEY_MGMT_FT_FILS_SHA384),
     (CONFIG_FILS C \<and> CONFIG_IEEE80211R C, WPA_KEY_MGMT_FT_FILS_SHA256, RSN_AUTH_KEY_MGMT_FT_FILS_SHA256),
     (CONFIG_FILS C, WPA_KEY_MGMT_FILS_SHA384, RSN_AUTH_KEY_MGMT_FILS_SHA384),
     (CONFIG_FILS C, WPA_KEY_MGMT_FILS_SHA256, RSN_AUTH_KEY_MGMT_FILS_SHA256),
     (CONFIG_IEEE80211R C \<and> CONFIG_SHA384 C, WPA_KEY_MGMT_FT_IEEE8021X_SHA384, RSN_AUTH_KEY_MGMT_FT_802_1X_SHA384),
     (CONFIG_IEEE80211R C, WPA_KEY_MGMT_FT_IEEE8021X, RSN_AUTH_KEY_MGMT_FT_802_1X),
     (CONFIG_IEEE80211R C, WPA_KEY_MGMT_FT_PSK, RSN_AUTH_KEY_MGMT_FT_PSK),
     (True, WPA_KEY_MGMT_IEEE8021X_SHA256, RSN_AUTH_KEY_MGMT_802_1X_SHA256),
     (True, WPA_KEY_MGMT_PSK_SHA256, RSN_AUTH_KEY_MGMT_PSK_SHA256),
     (CONFIG_SAE C, WPA_KEY_MGMT_SAE, RSN_AUTH_KEY_MGMT_SAE),
     (CONFIG_SAE C, WPA_KEY_MGMT_SAE_EXT_KEY, RSN_AUTH_KEY_MGMT_SAE_EXT_KEY),
     (CONFIG_SAE C, WPA_KEY_MGMT_FT_SAE, RSN_AUTH_KEY_MGMT_FT_SAE),
     (CONFIG_SAE C, WPA_KEY_MGMT_FT_SAE_EXT_KEY, RSN_AUTH_KEY_MGMT_FT_SAE_EXT_KEY),
     (True, WPA_KEY_MGMT_IEEE8021X, RSN_AUTH_KEY_MGMT_UNSPEC_802_1X),
     (True, WPA_KEY_MGMT_PSK, RSN_AUTH_KEY_MGMT_PSK_OVER_802_1X),
     (CONFIG_OWE C, WPA_KEY_MGMT_OWE, RSN_AUTH_KEY_MGMT_OWE),
     (CONFIG_DPP C, WPA_KEY_MGMT_DPP, RSN_AUTH_KEY_MGMT_DPP),
     (CONFIG_SHA384 C, WPA_KEY_MGMT_IEEE8021X_SHA384, RSN_AUTH_KEY_MGMT_802_1X_SHA384)])
    RSN_AUTH_KEY_MGMT_UNSPEC_802_1X"

text \<open>What the RSN branch does to the parsed data: defaults for absent fields, and the FT workaround.\<close>

definition rsn_adjust :: "int \<Rightarrow> bool \<Rightarrow> wpa_ie_data \<Rightarrow> wpa_ie_data" where
  "rsn_adjust freq mdie d =
    (let d = (if \<not> ie_has_pairwise d then d\<lparr>ie_pairwise_cipher := wpa_default_rsn_cipher freq\<rparr> else d);
         d = (if \<not> ie_has_group d then d\<lparr>ie_group_cipher := wpa_default_rsn_cipher freq\<rparr> else d)
     in if wpa_key_mgmt_ft (ie_key_mgmt d) \<and> \<not> mdie \<and> \<not> wpa_key_mgmt_only_ft (ie_key_mgmt d)
        then d\<lparr>ie_key_mgmt := ie_key_mgmt d AND NOT WPA_KEY_MGMT_FT\<rparr> else d)"

definition select_suites :: "u32 \<Rightarrow> u32 \<Rightarrow> u32 \<Rightarrow> wpa_authenticator \<Rightarrow> wpa_authenticator" where
  "select_suites akm pairw grp au = au\<lparr>au_suite_selected := akm, au_pairwise_selected := pairw, au_group_selected := grp\<rparr>"

definition suite_or :: "u32 \<Rightarrow> u32 \<Rightarrow> u32" where
  "suite_or suite dflt = (if suite = 0 then dflt else suite)"

definition v_parse :: "build \<Rightarrow> assoc_req \<Rightarrow> vstage" where
  "v_parse C rq s =
    (case rq_wpa_ie rq of
       None \<Rightarrow> None
     | Some ie \<Rightarrow>
         if v_version s = WPA_PROTO_RSN then do {
           (res, d) \<leftarrow> wpa_parse_wpa_ie_rsn C ie (rq_wpa_ie_len rq);
           let d = rsn_adjust (rq_freq rq) (rq_mdie rq \<noteq> None) d;
           Some (Inr (s\<lparr>v_res := res, v_data := d, v_au := select_suites (rsn_suite_selected C (ie_key_mgmt d))
             (suite_or (wpa_cipher_to_suite WPA_PROTO_RSN (ie_pairwise_cipher d)) RSN_CIPHER_SUITE_CCMP)
             (suite_or (wpa_cipher_to_suite WPA_PROTO_RSN (ie_group_cipher d)) RSN_CIPHER_SUITE_CCMP) (v_au s)\<rparr>))
         }
         else do {
           (res, d) \<leftarrow> wpa_parse_wpa_ie_wpa ie (rq_wpa_ie_len rq);
           Some (Inr (s\<lparr>v_res := res, v_data := d, v_au := select_suites
             (first_set (ie_key_mgmt d) [(WPA_KEY_MGMT_IEEE8021X, WPA_AUTH_KEY_MGMT_UNSPEC_802_1X),
               (WPA_KEY_MGMT_PSK, WPA_AUTH_KEY_MGMT_PSK_OVER_802_1X)] WPA_AUTH_KEY_MGMT_UNSPEC_802_1X)
             (suite_or (wpa_cipher_to_suite WPA_PROTO_WPA (ie_pairwise_cipher d)) RSN_CIPHER_SUITE_TKIP)
             (suite_or (wpa_cipher_to_suite WPA_PROTO_WPA (ie_group_cipher d)) WPA_CIPHER_SUITE_TKIP) (v_au s)\<rparr>))
         })"

definition v_parsed :: vstage where
  "v_parsed s = reject (v_res s \<noteq> 0) WPA_INVALID_IE s"

section \<open>Ciphers and key management\<close>

definition v_group :: vstage where
  "v_group s = reject (ie_group_cipher (v_data s) \<noteq> conf_wpa_group (v_conf s)) WPA_INVALID_GROUP s"

text \<open>The AKMs the configuration enables for this station.\<close>

definition own_key_mgmt :: "wpa_auth_config \<Rightarrow> wpa_sm \<Rightarrow> u32" where
  "own_key_mgmt conf m =
    (if sm_rsn_override_2 m then conf_rsn_override_key_mgmt_2 conf
     else if sm_rsn_override m then conf_rsn_override_key_mgmt conf
     else conf_wpa_key_mgmt conf)"

text \<open>
  The AKM that is used.  As in the code, the test for \<open>FT_FILS_SHA256\<close> looks at what the station offers
  (\<open>offered\<close>, the code's \<open>data.key_mgmt\<close>), the others at what both sides support (\<open>key_mgmt\<close>).
\<close>

definition select_akm :: "build \<Rightarrow> u32 \<Rightarrow> u32 \<Rightarrow> u32" where
  "select_akm C offered key_mgmt = first_hit (compiled
    [(True, has key_mgmt WPA_KEY_MGMT_IEEE8021X_SUITE_B_192, WPA_KEY_MGMT_IEEE8021X_SUITE_B_192),
     (True, has key_mgmt WPA_KEY_MGMT_IEEE8021X_SUITE_B, WPA_KEY_MGMT_IEEE8021X_SUITE_B),
     (CONFIG_FILS C \<and> CONFIG_IEEE80211R C, has key_mgmt WPA_KEY_MGMT_FT_FILS_SHA384, WPA_KEY_MGMT_FT_FILS_SHA384),
     (CONFIG_FILS C \<and> CONFIG_IEEE80211R C, has offered WPA_KEY_MGMT_FT_FILS_SHA256, WPA_KEY_MGMT_FT_FILS_SHA256),
     (CONFIG_FILS C, has key_mgmt WPA_KEY_MGMT_FILS_SHA384, WPA_KEY_MGMT_FILS_SHA384),
     (CONFIG_FILS C, has key_mgmt WPA_KEY_MGMT_FILS_SHA256, WPA_KEY_MGMT_FILS_SHA256),
     (CONFIG_IEEE80211R C \<and> CONFIG_SHA384 C, has key_mgmt WPA_KEY_MGMT_FT_IEEE8021X_SHA384, WPA_KEY_MGMT_FT_IEEE8021X_SHA384),
     (CONFIG_IEEE80211R C, has key_mgmt WPA_KEY_MGMT_FT_IEEE8021X, WPA_KEY_MGMT_FT_IEEE8021X),
     (CONFIG_IEEE80211R C, has key_mgmt WPA_KEY_MGMT_FT_PSK, WPA_KEY_MGMT_FT_PSK),
     (CONFIG_SHA384 C, has key_mgmt WPA_KEY_MGMT_IEEE8021X_SHA384, WPA_KEY_MGMT_IEEE8021X_SHA384),
     (True, has key_mgmt WPA_KEY_MGMT_IEEE8021X_SHA256, WPA_KEY_MGMT_IEEE8021X_SHA256),
     (True, has key_mgmt WPA_KEY_MGMT_PSK_SHA256, WPA_KEY_MGMT_PSK_SHA256),
     (CONFIG_SAE C, has key_mgmt WPA_KEY_MGMT_SAE, WPA_KEY_MGMT_SAE),
     (CONFIG_SAE C, has key_mgmt WPA_KEY_MGMT_SAE_EXT_KEY, WPA_KEY_MGMT_SAE_EXT_KEY),
     (CONFIG_SAE C, has key_mgmt WPA_KEY_MGMT_FT_SAE, WPA_KEY_MGMT_FT_SAE),
     (CONFIG_SAE C, has key_mgmt WPA_KEY_MGMT_FT_SAE_EXT_KEY, WPA_KEY_MGMT_FT_SAE_EXT_KEY),
     (True, has key_mgmt WPA_KEY_MGMT_IEEE8021X, WPA_KEY_MGMT_IEEE8021X),
     (CONFIG_OWE C, has key_mgmt WPA_KEY_MGMT_OWE, WPA_KEY_MGMT_OWE),
     (CONFIG_DPP C, has key_mgmt WPA_KEY_MGMT_DPP, WPA_KEY_MGMT_DPP)])
    WPA_KEY_MGMT_PSK"

definition v_akm :: "build \<Rightarrow> vstage" where
  "v_akm C s =
    (let key_mgmt = ie_key_mgmt (v_data s) AND own_key_mgmt (v_conf s) (v_sm s) in
     if key_mgmt = 0 then Some (Inl (WPA_INVALID_AKMP, s))
     else Some (Inr (set_sm (\<lambda>m. m\<lparr>sm_wpa_key_mgmt := select_akm C (ie_key_mgmt (v_data s)) key_mgmt\<rparr>)
       (s\<lparr>v_key_mgmt := key_mgmt\<rparr>))))"

text \<open>The pairwise ciphers the configuration enables for this station.\<close>

definition own_pairwise :: "wpa_proto \<Rightarrow> wpa_auth_config \<Rightarrow> wpa_sm \<Rightarrow> u32" where
  "own_pairwise version conf m =
    (if version = WPA_PROTO_RSN \<and> sm_rsn_override_2 m then conf_rsn_override_pairwise_2 conf
     else if version = WPA_PROTO_RSN \<and> sm_rsn_override m then conf_rsn_override_pairwise conf
     else if version = WPA_PROTO_RSN then conf_rsn_pairwise conf
     else conf_wpa_pairwise conf)"

definition v_pairwise :: vstage where
  "v_pairwise s =
    (let ciphers = ie_pairwise_cipher (v_data s) AND own_pairwise (v_version s) (v_conf s) (v_sm s) in
     reject (ciphers = 0) WPA_INVALID_PAIRWISE (s\<lparr>v_ciphers := ciphers\<rparr>))"

section \<open>Management frame protection, OCV, SPP\<close>

definition v_mfp_required :: vstage where
  "v_mfp_required s =
    (if conf_ieee80211w (v_conf s) = MGMT_FRAME_PROTECTION_REQUIRED then
       if \<not> cap_set s WPA_CAPABILITY_MFPC then Some (Inl (WPA_MGMT_FRAME_PROTECTION_VIOLATION, s))
       else reject (ie_mgmt_group_cipher (v_data s) \<noteq> conf_group_mgmt_cipher (v_conf s)) WPA_INVALID_MGMT_GROUP_CIPHER s
     else Some (Inr s))"

definition v_sae_mfp :: "build \<Rightarrow> vstage" where
  "v_sae_mfp C s = reject
    (CONFIG_SAE C \<and> conf_ieee80211w (v_conf s) = MGMT_FRAME_PROTECTION_OPTIONAL \<and> conf_sae_require_mfp (v_conf s) \<and>
     wpa_key_mgmt_sae (sm_wpa_key_mgmt (v_sm s)) \<and> \<not> cap_set s WPA_CAPABILITY_MFPC)
    WPA_MGMT_FRAME_PROTECTION_VIOLATION s"

definition wpa_auth_set_ocv :: "int \<Rightarrow> wpa_sm \<Rightarrow> wpa_sm" where
  "wpa_auth_set_ocv ocv m = m\<lparr>sm_ocv_enabled := ocv\<rparr>"

definition v_ocv :: "build \<Rightarrow> vstage" where
  "v_ocv C s =
    (if \<not> CONFIG_OCV C then Some (Inr s)
     else if conf_ocv (v_conf s) \<noteq> 0 \<and> cap_set s WPA_CAPABILITY_OCVC \<and> \<not> cap_set s WPA_CAPABILITY_MFPC then
       if conf_ocv (v_conf s) = 2 then Some (Inr (set_sm (wpa_auth_set_ocv 0) s))
       else Some (Inl (WPA_MGMT_FRAME_PROTECTION_VIOLATION, s))
     else Some (Inr (set_sm (wpa_auth_set_ocv (if cap_set s WPA_CAPABILITY_OCVC then conf_ocv (v_conf s) else 0)) s)))"

definition own_mfp :: "wpa_auth_config \<Rightarrow> wpa_sm \<Rightarrow> mfp_options" where
  "own_mfp conf m =
    (if sm_rsn_override_2 m then conf_rsn_override_mfp_2 conf
     else if sm_rsn_override m then conf_rsn_override_mfp conf
     else conf_ieee80211w conf)"

definition v_mfp :: vstage where
  "v_mfp s =
    (let ap_pmf_enabled = (own_mfp (v_conf s) (v_sm s) \<noteq> NO_MGMT_FRAME_PROTECTION);
         prot = (\<not> (\<not> ap_pmf_enabled \<or> \<not> cap_set s WPA_CAPABILITY_MFPC));
         s = set_sm (\<lambda>m. m\<lparr>sm_mgmt_frame_prot := prot, sm_mfpr := cap_set s WPA_CAPABILITY_MFPR\<rparr>) s
     in reject (sm_mgmt_frame_prot (v_sm s) \<and> has (v_ciphers s) WPA_CIPHER_TKIP) WPA_MGMT_FRAME_PROTECTION_VIOLATION s)"

definition v_spp :: "assoc_req \<Rightarrow> vstage" where
  "v_spp rq s =
    (if \<not> conf_spp_amsdu (v_conf s) then Some (Inr (set_sm (\<lambda>m. m\<lparr>sm_spp_amsdu := False\<rparr>) s))
     else do {
       b \<leftarrow> ieee802_11_rsnx_capab (rq_rsnxe rq) WLAN_RSNX_CAPAB_SPP_A_MSDU;
       Some (Inr (set_sm (\<lambda>m. m\<lparr>sm_spp_amsdu := b \<and> has (v_ciphers s)
         (WPA_CIPHER_CCMP_256 OR WPA_CIPHER_CCMP OR WPA_CIPHER_GCMP_256 OR WPA_CIPHER_GCMP)\<rparr>) s))
     })"

section \<open>Fast transition, OWE, DPP\<close>

definition v_mdie :: "build \<Rightarrow> assoc_req \<Rightarrow> vstage" where
  "v_mdie C rq s =
    (if \<not> CONFIG_IEEE80211R C then Some (Inr s)
     else if wpa_key_mgmt_ft (sm_wpa_key_mgmt (v_sm s)) then
       (case rq_mdie rq of
          None \<Rightarrow> Some (Inl (WPA_INVALID_MDIE, s))
        | Some mdie \<Rightarrow>
            if rq_mdie_len rq < 2 + 1 then Some (Inl (WPA_INVALID_MDIE, s))
            else if length mdie < 2 then None
            else reject (take 2 mdie \<noteq> conf_mobility_domain (v_conf s)) WPA_INVALID_MDIE s)
     else reject (rq_mdie rq \<noteq> None) WPA_INVALID_AKMP s)"

definition v_owe :: "build \<Rightarrow> assoc_req \<Rightarrow> vstage" where
  "v_owe C rq s = reject (CONFIG_OWE C \<and> sm_wpa_key_mgmt (v_sm s) = WPA_KEY_MGMT_OWE \<and> \<not> rq_owe_dh rq) WPA_INVALID_AKMP s"

definition v_dpp :: "build \<Rightarrow> assoc_req \<Rightarrow> vstage" where
  "v_dpp C rq s = reject
    (CONFIG_DPP2 C \<and> sm_wpa_key_mgmt (v_sm s) = WPA_KEY_MGMT_DPP \<and>
     (conf_dpp_pfs (v_conf s) = 1 \<and> \<not> rq_owe_dh rq \<or> conf_dpp_pfs (v_conf s) = 2 \<and> rq_owe_dh rq))
    WPA_DENIED_OTHER_REASON s"

section \<open>The pairwise cipher and the association link\<close>

definition v_pick :: vstage where
  "v_pick s =
    (let s = set_sm (\<lambda>m. m\<lparr>sm_pairwise := wpa_pick_pairwise_cipher (v_ciphers s) False\<rparr>) s in
     reject (sm_pairwise (v_sm s) = None) WPA_INVALID_PAIRWISE s)"

text \<open>\<open>wpa_ie[0] == WLAN_EID_RSN\<close> is what set \<open>version\<close>.\<close>

definition v_link :: "assoc_req \<Rightarrow> vstage" where
  "v_link rq s =
    (let s = set_sm (\<lambda>m. m\<lparr>sm_wpa := if v_version s = WPA_PROTO_RSN then WPA_VERSION_WPA2 else WPA_VERSION_WPA\<rparr>) s in
     case rq_assoc_sm rq of
       None \<Rightarrow> Some (Inr s)
     | Some (km, pairw) \<Rightarrow>
         if sm_wpa_key_mgmt (v_sm s) \<noteq> km then Some (Inl (WPA_INVALID_AKMP, s))
         else reject (sm_pairwise (v_sm s) \<noteq> pairw) WPA_INVALID_PAIRWISE s)"

section \<open>PMKIDs\<close>

text \<open>The 16 bytes \<open>&data.pmkid[i * PMKID_LEN]\<close>.\<close>

definition pmkid_at :: "wpa_ie_data \<Rightarrow> nat \<Rightarrow> bytes option" where
  "pmkid_at d i =
    (case ie_pmkid d of
       None \<Rightarrow> None
     | Some p \<Rightarrow> if i * 16 + 16 \<le> length p then Some (take 16 (drop (i * 16) p)) else None)"

definition v_fils :: "build \<Rightarrow> vstage" where
  "v_fils C s =
    (if CONFIG_IEEE80211R C \<and> CONFIG_FILS C \<and>
        (sm_wpa_key_mgmt (v_sm s) = WPA_KEY_MGMT_FT_FILS_SHA256 \<or> sm_wpa_key_mgmt (v_sm s) = WPA_KEY_MGMT_FT_FILS_SHA384) \<and>
        sm_auth_alg (v_sm s) \<in> {4, 5, 6} then
       if ie_num_pmkid (v_data s) \<noteq> 1 \<or> ie_pmkid (v_data s) = None \<or> \<not> sm_pmk_r1_name_valid (v_sm s)
       then Some (Inl (WPA_INVALID_PMKID, s))
       else do {
         p \<leftarrow> pmkid_at (v_data s) 0;
         reject (p \<noteq> sm_pmk_r1_name (v_sm s)) WPA_INVALID_PMKID s
       }
     else Some (Inr s))"

text \<open>The first loop over the PMKIDs, from the \<open>i\<close>-th on, \<open>n\<close> of them left.\<close>

definition lookup_pmksa :: "vstate \<Rightarrow> bytes \<Rightarrow> ref option option" where
  "lookup_pmksa s p = do {
     r \<leftarrow> pmksa_cache_auth_get (au_cache (v_au s)) (Some (sm_addr (v_sm s))) (Some p);
     if r = None \<and> sm_p2p_dev_addr (v_sm s) \<noteq> replicate 6 0
     then pmksa_cache_auth_get (au_cache (v_au s)) (Some (sm_p2p_dev_addr (v_sm s))) (Some p)
     else Some r
   }"

primrec pmkid_loop :: "nat \<Rightarrow> nat \<Rightarrow> vstate \<Rightarrow> vstate option" where
  "pmkid_loop 0 i s = Some s"
| "pmkid_loop (Suc n) i s = do {
     p \<leftarrow> pmkid_at (v_data s) i;
     res \<leftarrow> lookup_pmksa s p;
     let s = set_sm (\<lambda>m. m\<lparr>sm_pmksa := res\<rparr>) s;
     case res of
       None \<Rightarrow> pmkid_loop n (i + 1) s
     | Some r \<Rightarrow> do {
         e \<leftarrow> mem (au_cache (v_au s)) r;
         Some (s\<lparr>v_pid := Some (pmkid e)\<rparr>)
       }
   }"

definition v_pmksa :: vstage where
  "v_pmksa s = map_option Inr (pmkid_loop (ie_num_pmkid (v_data s)) 0 (set_sm (\<lambda>m. m\<lparr>sm_pmksa := None\<rparr>) s))"

text \<open>\<open>wpa_auth_for_each_auth(wpa_auth, wpa_auth_okc_iter, &idata)\<close>: the entry found first.\<close>

primrec okc_iter :: "hmacs \<Rightarrow> bytes \<Rightarrow> bytes \<Rightarrow> bytes \<Rightarrow> rsn_pmksa_cache list \<Rightarrow> rsn_pmksa_cache_entry option option" where
  "okc_iter hm aa addr p [] = Some None"
| "okc_iter hm aa addr p (c # cs) = do {
     r \<leftarrow> pmksa_cache_get_okc hm c aa addr p;
     case r of
       None \<Rightarrow> okc_iter hm aa addr p cs
     | Some r \<Rightarrow> do { e \<leftarrow> mem c r; Some (Some e) }
   }"

text \<open>The second loop, tried while no entry is known and opportunistic key caching is enabled.\<close>

primrec okc_loop :: "environment \<Rightarrow> nat \<Rightarrow> nat \<Rightarrow> vstate \<Rightarrow> vstate option" where
  "okc_loop ev 0 i s = Some s"
| "okc_loop ev (Suc n) i s =
    (if sm_pmksa (v_sm s) \<noteq> None \<or> \<not> conf_okc (v_conf s) then Some s
     else do {
       p \<leftarrow> pmkid_at (v_data s) i;
       found \<leftarrow> okc_iter (ev_hm ev) (au_addr (v_au s)) (sm_addr (v_sm s)) p (ev_auths ev);
       case found of
         None \<Rightarrow> okc_loop ev n (i + 1) s
       | Some old \<Rightarrow> do {
           (r, c) \<leftarrow> pmksa_cache_add_okc (ev_fresh ev) (ev_now ev) (au_cache (v_au s)) old p;
           Some (set_sm (\<lambda>m. m\<lparr>sm_pmksa := r\<rparr>) (s\<lparr>v_au := (v_au s)\<lparr>au_cache := c\<rparr>, v_pid := Some p\<rparr>))
         }
     })"

definition v_okc :: "environment \<Rightarrow> vstage" where
  "v_okc ev s = map_option Inr (okc_loop ev (ie_num_pmkid (v_data s)) 0 s)"

definition v_pmkid_used :: vstage where
  "v_pmkid_used s = Some (Inr (case (sm_pmksa (v_sm s), v_pid s) of
     (Some r, Some p) \<Rightarrow> s\<lparr>v_au := (v_au s)\<lparr>au_pmkid_used := p\<rparr>\<rparr>
   | _ \<Rightarrow> s))"

definition v_sae_pmksa :: "build \<Rightarrow> environment \<Rightarrow> vstage" where
  "v_sae_pmksa C ev s = reject
    (CONFIG_SAE C \<and>
     (sm_wpa_key_mgmt (v_sm s) = WPA_KEY_MGMT_SAE \<or> sm_wpa_key_mgmt (v_sm s) = WPA_KEY_MGMT_SAE_EXT_KEY) \<and>
     \<not> ev_sae_offload ev \<and> ie_num_pmkid (v_data s) \<noteq> 0 \<and> sm_pmksa (v_sm s) = None \<and> sm_auth_alg (v_sm s) = 0)
    WPA_INVALID_PMKID s"

definition v_dpp_pmksa :: "build \<Rightarrow> vstage" where
  "v_dpp_pmksa C s = reject
    (CONFIG_DPP C \<and> sm_wpa_key_mgmt (v_sm s) = WPA_KEY_MGMT_DPP \<and> sm_pmksa (v_sm s) = None) WPA_INVALID_PMKID s"

section \<open>Extended key identifiers, storing the elements\<close>

definition v_ext_key_id :: vstage where
  "v_ext_key_id s =
    (if conf_extended_key_id (v_conf s) \<noteq> 0 \<and> sm_wpa (v_sm s) = WPA_VERSION_WPA2 \<and>
        sm_pairwise (v_sm s) \<noteq> Some WPA_CIPHER_TKIP \<and> cap_set s WPA_CAPABILITY_EXT_KEY_ID_FOR_UNICAST
     then Some (Inr (set_sm (\<lambda>m. m\<lparr>sm_use_ext_key_id := True,
       sm_keyidx_active := (if conf_extended_key_id (v_conf s) = 2 \<and> \<not> wpa_key_mgmt_ft (sm_wpa_key_mgmt m) \<and>
         \<not> wpa_key_mgmt_fils (sm_wpa_key_mgmt m) then 1 else 0)\<rparr>) s))
     else Some (Inr (set_sm (\<lambda>m. m\<lparr>sm_use_ext_key_id := False\<rparr>) s)))"

text \<open>
  \<open>if (!buf || len < n) { free(buf); buf = malloc(n); if (!buf) return WPA_ALLOC_FAIL; } memcpy(buf, ie, n); len = n;\<close>.
  The result is the buffer after the copy, \<open>Inl\<close> when the allocation fails.
\<close>

definition store_element :: "bool \<Rightarrow> bytes option \<Rightarrow> nat \<Rightarrow> bytes \<Rightarrow> nat \<Rightarrow> (unit + bytes) option" where
  "store_element alloc buf len ie n =
    (if length ie < n then None
     else if buf = None \<or> len < n then Some (if alloc then Inr (take n ie) else Inl ())
     else if length (the buf) < n then None
     else Some (Inr (put_bytes (the buf) 0 (take n ie))))"

definition v_store_ie :: "environment \<Rightarrow> assoc_req \<Rightarrow> vstage" where
  "v_store_ie ev rq s =
    (case rq_wpa_ie rq of
       None \<Rightarrow> None
     | Some ie \<Rightarrow> do {
         x \<leftarrow> store_element (ev_alloc_ie ev) (sm_wpa_ie (v_sm s)) (sm_wpa_ie_len (v_sm s)) ie (rq_wpa_ie_len rq);
         Some (case x of
           Inl _ \<Rightarrow> Inl (WPA_ALLOC_FAIL, set_sm (\<lambda>m. m\<lparr>sm_wpa_ie := None\<rparr>) s)
         | Inr buf \<Rightarrow> Inr (set_sm (\<lambda>m. m\<lparr>sm_wpa_ie := Some buf, sm_wpa_ie_len := rq_wpa_ie_len rq\<rparr>) s))
       })"

definition v_store_rsnxe :: "environment \<Rightarrow> assoc_req \<Rightarrow> vstage" where
  "v_store_rsnxe ev rq s =
    (case rq_rsnxe rq of
       Some ie \<Rightarrow>
         if rq_rsnxe_len rq \<noteq> 0 then do {
           x \<leftarrow> store_element (ev_alloc_rsnxe ev) (sm_rsnxe (v_sm s)) (sm_rsnxe_len (v_sm s)) ie (rq_rsnxe_len rq);
           Some (case x of
             Inl _ \<Rightarrow> Inl (WPA_ALLOC_FAIL, set_sm (\<lambda>m. m\<lparr>sm_rsnxe := None\<rparr>) s)
           | Inr buf \<Rightarrow> Inr (set_sm (\<lambda>m. m\<lparr>sm_rsnxe := Some buf, sm_rsnxe_len := rq_rsnxe_len rq\<rparr>) s))
         }
         else Some (Inr (set_sm (\<lambda>m. m\<lparr>sm_rsnxe := None, sm_rsnxe_len := 0\<rparr>) s))
     | None \<Rightarrow> Some (Inr (set_sm (\<lambda>m. m\<lparr>sm_rsnxe := None, sm_rsnxe_len := 0\<rparr>) s)))"

section \<open>The whole function\<close>

definition check_stages :: "build \<Rightarrow> assoc_req \<Rightarrow> vstage list" where
  "check_stages C rq =
    [v_proto rq, v_parse C rq, v_parsed, v_group, v_akm C, v_pairwise, v_mfp_required, v_sae_mfp C, v_ocv C, v_mfp, v_spp rq,
     v_mdie C rq, v_owe C rq, v_dpp C rq, v_pick, v_link rq, v_fils C]"

definition commit_stages :: "build \<Rightarrow> environment \<Rightarrow> assoc_req \<Rightarrow> vstage list" where
  "commit_stages C ev rq =
    [v_pmksa, v_okc ev, v_pmkid_used, v_sae_pmksa C ev, v_dpp_pmksa C, v_ext_key_id, v_store_ie ev rq, v_store_rsnxe ev rq]"

definition v_init :: "wpa_authenticator \<Rightarrow> wpa_sm \<Rightarrow> vstate" where
  "v_init au m = \<lparr>v_au = au, v_sm = m, v_data = rsn_defaults, v_version = WPA_PROTO_WPA, v_res = 0, v_key_mgmt = 0,
     v_ciphers = 0, v_pid = None\<rparr>"

definition validate_ie :: "build \<Rightarrow> environment \<Rightarrow> assoc_req \<Rightarrow> wpa_authenticator \<Rightarrow> wpa_sm \<Rightarrow>
    (wpa_validate_result \<times> wpa_authenticator \<times> wpa_sm) option" where
  "validate_ie C ev rq au m = do {
     x \<leftarrow> stages (check_stages C rq @ commit_stages C ev rq) (v_init au m);
     Some (case x of Inl (r, s) \<Rightarrow> (r, v_au s, v_sm s) | Inr s \<Rightarrow> (WPA_IE_OK, v_au s, v_sm s))
   }"

text \<open>\<open>if (wpa_auth == NULL || sm == NULL) return WPA_NOT_ENABLED;\<close>\<close>

definition wpa_validate_wpa_ie :: "build \<Rightarrow> environment \<Rightarrow> assoc_req \<Rightarrow> wpa_authenticator option \<Rightarrow> wpa_sm option \<Rightarrow>
    (wpa_validate_result \<times> wpa_authenticator option \<times> wpa_sm option) option" where
  "wpa_validate_wpa_ie C ev rq au m =
    (case (au, m) of
       (Some au, Some m) \<Rightarrow> map_option (\<lambda>(r, au, m). (r, Some au, Some m)) (validate_ie C ev rq au m)
     | _ \<Rightarrow> Some (WPA_NOT_ENABLED, au, m))"

end
