(* ===== verification/RsnAdmit.thy ===== *)
theory RsnAdmit
  imports RsnValidate PmksaRefine
begin

text \<open>
  What \<open>wpa_validate_wpa_ie\<close> guarantees: it stays inside its buffers and keeps the PMKSA cache well formed
  (with the refinement of \<open>PmksaRefine\<close>), and what a station that it admits has agreed to.
\<close>

section \<open>Triples over stages\<close>

text \<open>From \<open>P\<close> the stage returns; it continues in \<open>Q\<close> or returns early in \<open>E\<close>.\<close>

fun ends :: "('s \<Rightarrow> bool) \<Rightarrow> ('s \<Rightarrow> bool) \<Rightarrow> ('r \<times> 's) + 's \<Rightarrow> bool" where
  "ends Q E (Inl (r, s)) = E s"
| "ends Q E (Inr s) = Q s"

definition triple :: "('s \<Rightarrow> bool) \<Rightarrow> ('s \<Rightarrow> (('r \<times> 's) + 's) option) \<Rightarrow> ('s \<Rightarrow> bool) \<Rightarrow> ('s \<Rightarrow> bool) \<Rightarrow> bool" where
  "triple P f Q E \<longleftrightarrow> (\<forall>s. P s \<longrightarrow> (\<exists>x. f s = Some x \<and> ends Q E x))"

lemma tripleI: "(\<And>s. P s \<Longrightarrow> \<exists>x. f s = Some x \<and> ends Q E x) \<Longrightarrow> triple P f Q E"
  by (simp add: triple_def)

lemma tripleD: "triple P f Q E \<Longrightarrow> P s \<Longrightarrow> \<exists>x. f s = Some x \<and> ends Q E x"
  by (simp add: triple_def)

lemma ends_mono: "ends Q E x \<Longrightarrow> (\<And>s. Q s \<Longrightarrow> Q' s) \<Longrightarrow> (\<And>s. E s \<Longrightarrow> E' s) \<Longrightarrow> ends Q' E' x"
  by (cases x) auto

lemma triple_weaken:
  assumes "triple P f Q E" "\<And>s. Q s \<Longrightarrow> Q' s" "\<And>s. E s \<Longrightarrow> E' s"
  shows "triple P f Q' E'"
proof (rule tripleI)
  fix s
  assume "P s"
  from tripleD [OF assms(1) this] obtain x where "f s = Some x" "ends Q E x" by blast
  moreover from this(2) have "ends Q' E' x" by (rule ends_mono) (fact assms)+
  ultimately show "\<exists>x. f s = Some x \<and> ends Q' E' x" by blast
qed

lemma triple_Nil: "triple P (stages []) P E"
  by (simp add: triple_def)

lemma triple_Cons: 
  assumes "triple P f Q E" "triple Q (stages fs) R E"
  shows "triple P (stages (f # fs)) R E"
proof (rule tripleI)
  fix s
  assume "P s"
  from tripleD [OF assms(1) this] obtain x where x: "f s = Some x" "ends Q E x" by blast
  then show "\<exists>x. stages (f # fs) s = Some x \<and> ends R E x"
    using tripleD [OF assms(2)] by (cases x) auto
qed

lemma triple_all: "(\<And>f. f \<in> set fs \<Longrightarrow> triple P f P E) \<Longrightarrow> triple P (stages fs) P E"
  by (induction fs) (auto intro: triple_Nil triple_Cons)

lemma triple_append: "triple P (stages fs) Q E \<Longrightarrow> triple Q (stages gs) R E \<Longrightarrow> triple P (stages (fs @ gs)) R E"
proof (rule tripleI)
  fix s
  assume t: "triple P (stages fs) Q E" "triple Q (stages gs) R E" and "P s"
  from tripleD [OF t(1) \<open>P s\<close>] obtain x where x: "stages fs s = Some x" "ends Q E x" by blast
  then show "\<exists>x. stages (fs @ gs) s = Some x \<and> ends R E x"
    using tripleD [OF t(2)] by (cases x) (auto simp: stages_append)
qed

section \<open>Staying inside the buffers\<close>

text \<open>The arguments are buffers of the lengths given with them; the extension element is complete.\<close>

definition assoc_ok :: "assoc_req \<Rightarrow> bool" where
  "assoc_ok rq \<longleftrightarrow>
    (\<forall>ie. rq_wpa_ie rq = Some ie \<longrightarrow> rq_wpa_ie_len rq \<le> length ie) \<and>
    (\<forall>ie. rq_rsnxe rq = Some ie \<longrightarrow> 2 \<le> length ie \<and> 2 + unat (ie ! 1) \<le> length ie \<and> rq_rsnxe_len rq \<le> length ie) \<and>
    (\<forall>mdie. rq_mdie rq = Some mdie \<longrightarrow> rq_mdie_len rq \<le> length mdie)"

text \<open>The stored elements have the room their lengths say, and the cache is well formed.\<close>

definition station_ok :: "wpa_sm \<Rightarrow> bool" where
  "station_ok m \<longleftrightarrow>
    (\<forall>b. sm_wpa_ie m = Some b \<longrightarrow> sm_wpa_ie_len m \<le> length b) \<and> (\<forall>b. sm_rsnxe m = Some b \<longrightarrow> sm_rsnxe_len m \<le> length b)"

definition sound :: "vstate \<Rightarrow> bool" where
  "sound s \<longleftrightarrow> pmkids_in (v_data s) \<and> station_ok (v_sm s) \<and> (\<exists>es. represents (au_cache (v_au s)) es)"

definition env_ok :: "environment \<Rightarrow> bool" where
  "env_ok ev \<longleftrightarrow> (\<forall>c\<in>set (ev_auths ev). \<exists>es. represents c es)"

definition fresh_for :: "environment \<Rightarrow> vstate \<Rightarrow> bool" where
  "fresh_for ev s \<longleftrightarrow> ev_fresh ev \<notin> Some ` dom (mem (au_cache (v_au s)))"

text \<open>What neither soundness nor freshness looks at may change.\<close>

definition frame :: "vstate \<Rightarrow> vstate \<Rightarrow> bool" where
  "frame s t \<longleftrightarrow> v_data t = v_data s \<and> au_cache (v_au t) = au_cache (v_au s) \<and>
    sm_wpa_ie (v_sm t) = sm_wpa_ie (v_sm s) \<and> sm_wpa_ie_len (v_sm t) = sm_wpa_ie_len (v_sm s) \<and>
    sm_rsnxe (v_sm t) = sm_rsnxe (v_sm s) \<and> sm_rsnxe_len (v_sm t) = sm_rsnxe_len (v_sm s)"

lemma sound_frame: "frame s t \<Longrightarrow> sound t = sound s" "frame s t \<Longrightarrow> fresh_for ev t = fresh_for ev s"
  by (simp_all add: frame_def sound_def station_ok_def fresh_for_def)

abbreviation "sound_fresh ev s \<equiv> sound s \<and> fresh_for ev s"

text \<open>A stage that returns and changes nothing of this.\<close>

definition quiet :: "vstage \<Rightarrow> bool" where
  "quiet f \<longleftrightarrow> (\<forall>s. \<exists>x. f s = Some x \<and> ends (frame s) (frame s) x)"

lemma quiet_triple:
  assumes "quiet f"
  shows "triple (sound_fresh ev) f (sound_fresh ev) sound" "triple sound f sound sound"
proof -
  have *: "\<exists>x. f s = Some x \<and> ends (frame s) (frame s) x" for s
    using assms by (simp add: quiet_def)
  have m: "ends (sound_fresh ev) sound x" if "ends (frame s) (frame s) x" "sound_fresh ev s" for s x
    using that(1) by (rule ends_mono) (use that(2) in \<open>simp_all add: sound_frame\<close>)
  have n: "ends sound sound x" if "ends (frame s) (frame s) x" "sound s" for s x
    using that(1) by (rule ends_mono) (use that(2) in \<open>simp_all add: sound_frame\<close>)
  show "triple (sound_fresh ev) f (sound_fresh ev) sound" "triple sound f sound sound"
    using * m n by (intro tripleI; blast)+
qed

lemma frame_refl [simp]: "frame s s"
  by (simp add: frame_def)

lemma frame_set_sm: "(\<And>m. sm_wpa_ie (f m) = sm_wpa_ie m \<and> sm_wpa_ie_len (f m) = sm_wpa_ie_len m \<and> sm_rsnxe (f m) = sm_rsnxe m \<and>
    sm_rsnxe_len (f m) = sm_rsnxe_len m) \<Longrightarrow> frame s (set_sm f t) = frame s t"
  by (simp add: frame_def set_sm_def)

lemma quiet_reject: "(\<And>s. frame s (g s)) \<Longrightarrow> quiet (\<lambda>s. reject (c s) r (g s))"
  by (simp add: quiet_def reject_def)

lemma quiet_checks: "quiet v_parsed" "quiet v_group" "quiet (v_sae_mfp C)" "quiet (v_owe C rq)" "quiet (v_dpp C rq)"
    "quiet (v_sae_pmksa C ev)" "quiet (v_dpp_pmksa C)"
  unfolding v_parsed_def [abs_def] v_group_def [abs_def] v_sae_mfp_def [abs_def] v_owe_def [abs_def] v_dpp_def [abs_def]
    v_sae_pmksa_def [abs_def] v_dpp_pmksa_def [abs_def]
  by (rule quiet_reject, simp)+

lemma quiet_pairwise: "quiet v_pairwise"
  by (simp add: quiet_def v_pairwise_def Let_def reject_def frame_def)

lemma quiet_pick: "quiet v_pick"
  by (simp add: quiet_def v_pick_def Let_def reject_def frame_set_sm)

lemma quiet_mfp: "quiet v_mfp"
  by (simp add: quiet_def v_mfp_def Let_def reject_def frame_set_sm)

lemma quiet_akm: "quiet (v_akm C)"
  by (simp add: quiet_def v_akm_def Let_def frame_set_sm) (simp add: frame_def)

lemma quiet_mfp_required: "quiet v_mfp_required"
  by (simp add: quiet_def v_mfp_required_def reject_def)

lemma quiet_ocv: "quiet (v_ocv C)"
  by (simp add: quiet_def v_ocv_def frame_set_sm wpa_auth_set_ocv_def)

lemma quiet_link: "quiet (v_link rq)"
  unfolding quiet_def v_link_def Let_def reject_def
  by (auto simp: frame_set_sm split: option.split prod.split)

lemma quiet_pmkid_used: "quiet v_pmkid_used"
  unfolding quiet_def v_pmkid_used_def
  by (auto simp: frame_def split: option.split)

lemma quiet_ext_key_id: "quiet v_ext_key_id"
  by (simp add: quiet_def v_ext_key_id_def frame_set_sm)

lemmas quiet_stages = quiet_checks quiet_pairwise quiet_pick quiet_mfp quiet_akm quiet_mfp_required quiet_ocv quiet_link quiet_pmkid_used
  quiet_ext_key_id

section \<open>The stages that read the request\<close>

lemma quiet_proto: "assoc_ok rq \<Longrightarrow> quiet (v_proto rq)"
  unfolding quiet_def v_proto_def assoc_ok_def
  by (auto simp: reject_def frame_def Let_def split: option.split list.split)

lemma rsnx_capab_len_in: "l \<le> length ie \<Longrightarrow> \<exists>b. ieee802_11_rsnx_capab_len ie l k = Some b"
  by (cases ie) (auto simp: ieee802_11_rsnx_capab_len_def Let_def)

lemma rsnx_capab_in:
  assumes "\<And>ie. p = Some ie \<Longrightarrow> 2 \<le> length ie \<and> 2 + unat (ie ! 1) \<le> length ie"
  shows "\<exists>b. ieee802_11_rsnx_capab p k = Some b"
proof (cases p)
  case (Some ie)
  then obtain e l r where ie: "ie = e # l # r" using assms by (cases ie; cases "tl ie") auto
  then have r: "unat l \<le> length r" using assms Some by auto
  then have "unat l - 4 \<le> length (drop 4 r)" by simp
  from rsnx_capab_len_in [OF this] rsnx_capab_len_in [OF r] r show ?thesis
    by (auto simp: ieee802_11_rsnx_capab_def Some ie advance_def)
qed (simp add: ieee802_11_rsnx_capab_def exI [of _ False])

lemma quiet_spp:
  assumes "assoc_ok rq"
  shows "quiet (v_spp rq)"
proof -
  obtain b where "ieee802_11_rsnx_capab (rq_rsnxe rq) WLAN_RSNX_CAPAB_SPP_A_MSDU = Some b"
    using rsnx_capab_in [of "rq_rsnxe rq" WLAN_RSNX_CAPAB_SPP_A_MSDU] assms by (auto simp: assoc_ok_def)
  then show ?thesis by (simp add: quiet_def v_spp_def frame_set_sm)
qed

lemma quiet_mdie: "assoc_ok rq \<Longrightarrow> quiet (v_mdie C rq)"
  unfolding quiet_def v_mdie_def assoc_ok_def
  by (auto simp: reject_def split: option.split)

lemma pmkids_in_adjust: "pmkids_in d \<Longrightarrow> pmkids_in (rsn_adjust freq mdie d)"
  by (simp add: rsn_adjust_def pmkids_in_def Let_def split: option.splits)

lemma v_parse_triple:
  assumes "assoc_ok rq"
  shows "triple (\<lambda>s. sound_fresh ev s \<and> rq_wpa_ie rq \<noteq> None) (v_parse C rq) (sound_fresh ev) sound"
proof (rule tripleI)
  fix s
  assume s: "sound_fresh ev s \<and> rq_wpa_ie rq \<noteq> None"
  then obtain ie where ie: "rq_wpa_ie rq = Some ie" "rq_wpa_ie_len rq \<le> length ie" using assms by (auto simp: assoc_ok_def)
  obtain r1 d1 where 1: "wpa_parse_wpa_ie_rsn C ie (rq_wpa_ie_len rq) = Some (r1, d1)" "pmkids_in d1"
    using parse_rsn_in [OF ie(2)] by blast
  obtain r2 d2 where 2: "wpa_parse_wpa_ie_wpa ie (rq_wpa_ie_len rq) = Some (r2, d2)" "pmkids_in d2"
    using parse_wpa_in [OF ie(2)] by blast
  show "\<exists>x. v_parse C rq s = Some x \<and> ends (sound_fresh ev) sound x"
    using s pmkids_in_adjust [OF 1(2)] 1(1) 2
    by (simp add: v_parse_def ie(1) Let_def select_suites_def sound_def station_ok_def fresh_for_def)
qed

lemma v_proto_triple:
  assumes "assoc_ok rq"
  shows "triple (sound_fresh ev) (v_proto rq) (\<lambda>s. sound_fresh ev s \<and> rq_wpa_ie rq \<noteq> None) sound"
proof (rule tripleI)
  fix s
  assume "sound_fresh ev s"
  from tripleD [OF quiet_triple(1) [OF quiet_proto [OF assms]] this]
  obtain x where x: "v_proto rq s = Some x" "ends (sound_fresh ev) sound x" by blast
  then show "\<exists>x. v_proto rq s = Some x \<and> ends (\<lambda>s. sound_fresh ev s \<and> rq_wpa_ie rq \<noteq> None) sound x"
    by (cases x; cases "rq_wpa_ie rq") (auto simp: v_proto_def)
qed

section \<open>The PMKIDs\<close>

lemma pmkid_at_in: "pmkids_in d \<Longrightarrow> i < ie_num_pmkid d \<Longrightarrow> \<exists>p. pmkid_at d i = Some p \<and> length p = 16"
  by (auto simp: pmkids_in_def pmkid_at_def split: option.splits)

lemma v_fils_triple: "triple (sound_fresh ev) (v_fils C) (sound_fresh ev) sound"
proof (rule tripleI)
  fix s
  assume s: "sound_fresh ev s"
  then have "ie_num_pmkid (v_data s) = 1 \<Longrightarrow> \<exists>p. pmkid_at (v_data s) 0 = Some p"
    using pmkid_at_in [of "v_data s" 0] by (auto simp: sound_def)
  with s show "\<exists>x. v_fils C s = Some x \<and> ends (sound_fresh ev) sound x"
    by (auto simp: v_fils_def reject_def)
qed

lemma get_live:
  assumes "represents c es"
  shows "\<exists>res. pmksa_cache_auth_get c a (Some p) = Some res \<and> (\<forall>r. res = Some r \<longrightarrow> (\<exists>e. mem c r = Some e))"
proof -
  obtain L H where L: "cache_ok {} c L H" using assms by (auto simp: represents_def)
  from get_ok [OF L, of a "Some p"] cache_ok_mem [OF L] show ?thesis by (fastforce split: option.splits)
qed

lemma get_okc_live:
  assumes "represents c es"
  shows "\<exists>res. pmksa_cache_get_okc hm c aa addr p = Some res \<and> (\<forall>r. res = Some r \<longrightarrow> (\<exists>e. mem c r = Some e))"
proof -
  obtain L H where L: "cache_ok {} c L H" using assms by (auto simp: represents_def)
  have "chain next_link (mem c) (pmksa c) L" using L by (simp add: cache_ok_def)
  from find_loop_ok [OF this, of "okc_match hm aa addr p"] cache_ok_mem [OF L] show ?thesis
    by (fastforce simp: pmksa_cache_get_okc_def dest: find_SomeD)
qed

lemma lookup_live:
  assumes "sound s"
  shows "\<exists>res. lookup_pmksa s p = Some res \<and> (\<forall>r. res = Some r \<longrightarrow> (\<exists>e. mem (au_cache (v_au s)) r = Some e))"
proof -
  obtain es where "represents (au_cache (v_au s)) es" using assms by (auto simp: sound_def)
  note g = get_live [OF this]
  show ?thesis
    using g [of "Some (sm_addr (v_sm s))" p] g [of "Some (sm_p2p_dev_addr (v_sm s))" p]
    by (auto simp: lookup_pmksa_def)
qed

lemma pmkid_loop_sound:
  "sound s \<Longrightarrow> i + n \<le> ie_num_pmkid (v_data s) \<Longrightarrow> \<exists>t. pmkid_loop n i s = Some t \<and> frame s t"
proof (induction n arbitrary: i s)
  case (Suc n)
  then obtain p where p: "pmkid_at (v_data s) i = Some p" using pmkid_at_in [of "v_data s" i] by (auto simp: sound_def)
  obtain res where res: "lookup_pmksa s p = Some res" "\<forall>r. res = Some r \<longrightarrow> (\<exists>e. mem (au_cache (v_au s)) r = Some e)"
    using lookup_live [OF Suc.prems(1)] by blast
  let ?s = "set_sm (\<lambda>m. m\<lparr>sm_pmksa := res\<rparr>) s"
  have fr: "frame s ?s" by (simp add: frame_set_sm)
  have au: "v_au ?s = v_au s" by (simp add: set_sm_def)
  show ?case
  proof (cases res)
    case None
    have "v_data ?s = v_data s" by (simp add: set_sm_def)
    then obtain t where "pmkid_loop n (i + 1) ?s = Some t" "frame ?s t"
      using Suc.IH [of ?s "i + 1"] Suc.prems sound_frame(1) [OF fr] by auto
    then show ?thesis using p res(1) None fr by (auto simp: frame_def)
  next
    case (Some r)
    then obtain e where "mem (au_cache (v_au s)) r = Some e" using res by blast
    then show ?thesis using p res(1) Some au fr by (auto simp: frame_def)
  qed
qed simp

lemma v_pmksa_triple: "triple (sound_fresh ev) v_pmksa (sound_fresh ev) sound"
proof (rule tripleI)
  fix s
  assume s: "sound_fresh ev s"
  let ?s = "set_sm (\<lambda>m. m\<lparr>sm_pmksa := None\<rparr>) s"
  have fr: "frame s ?s" by (simp add: frame_set_sm)
  have "ie_num_pmkid (v_data ?s) = ie_num_pmkid (v_data s)" by (simp add: set_sm_def)
  then obtain t where t: "pmkid_loop (ie_num_pmkid (v_data s)) 0 ?s = Some t" "frame ?s t"
    using pmkid_loop_sound [of ?s 0 "ie_num_pmkid (v_data s)"] s sound_frame(1) [OF fr] by auto
  then show "\<exists>x. v_pmksa s = Some x \<and> ends (sound_fresh ev) sound x"
    using s sound_frame [OF t(2)] sound_frame [OF fr] by (auto simp: v_pmksa_def)
qed

lemma okc_iter_live: "\<forall>c\<in>set cs. \<exists>es. represents c es \<Longrightarrow> \<exists>x. okc_iter hm aa addr p cs = Some x"
proof (induction cs)
  case (Cons c cs)
  then obtain es where "represents c es" by auto
  from get_okc_live [OF this, of hm aa addr p] Cons show ?case by (auto split: option.splits)
qed simp

lemma okc_loop_sound:
  "env_ok ev \<Longrightarrow> sound_fresh ev s \<Longrightarrow> i + n \<le> ie_num_pmkid (v_data s) \<Longrightarrow> \<exists>t. okc_loop ev n i s = Some t \<and> sound t"
proof (induction n arbitrary: i s)
  case (Suc n)
  then obtain p where p: "pmkid_at (v_data s) i = Some p" using pmkid_at_in [of "v_data s" i] by (auto simp: sound_def)
  obtain x where x: "okc_iter (ev_hm ev) (au_addr (v_au s)) (sm_addr (v_sm s)) p (ev_auths ev) = Some x"
    using okc_iter_live Suc.prems(1) by (metis env_ok_def)
  obtain es where es: "represents (au_cache (v_au s)) es" using Suc.prems(2) by (auto simp: sound_def)
  show ?case
  proof (cases "sm_pmksa (v_sm s) \<noteq> None \<or> \<not> conf_okc (v_conf s)")
    case True
    then show ?thesis using Suc.prems(2) by auto
  next
    case False
    note go = False
    show ?thesis
    proof (cases x)
      case None
      then show ?thesis using Suc.IH [of s "i + 1"] Suc.prems p x go by auto
    next
      case (Some old)
      have "\<exists>r c es'. pmksa_cache_add_okc (ev_fresh ev) (ev_now ev) (au_cache (v_au s)) old p = Some (r, c) \<and> represents c es'"
      proof (cases "ev_fresh ev")
        case None
        then show ?thesis using es by (auto simp: pmksa_cache_add_okc_def)
      next
        case (Some f)
        then have "mem (au_cache (v_au s)) f = None" using Suc.prems(2) by (auto simp: fresh_for_def image_iff)
        from okc_ok [OF es this, of "ev_now ev" old p] Some show ?thesis by auto
      qed
      then obtain r c es' where "pmksa_cache_add_okc (ev_fresh ev) (ev_now ev) (au_cache (v_au s)) old p = Some (r, c)"
        "represents c es'" by blast
      then show ?thesis using Some Suc.prems(2) p x go by (auto simp: set_sm_def sound_def station_ok_def)
    qed
  qed
qed auto

lemma v_okc_triple: "env_ok ev \<Longrightarrow> triple (sound_fresh ev) (v_okc ev) sound sound"
  using okc_loop_sound [of ev _ 0] by (intro tripleI) (fastforce simp: v_okc_def)

section \<open>The stored elements\<close>

lemma store_element_in:
  assumes "n \<le> length ie" "\<And>b. buf = Some b \<Longrightarrow> len \<le> length b"
  shows "\<exists>x. store_element alloc buf len ie n = Some x \<and> (\<forall>b. x = Inr b \<longrightarrow> n \<le> length b \<and> take n b = take n ie)"
proof (cases "buf = None \<or> len < n")
  case False
  then obtain b where b: "buf = Some b" by auto
  then have "n \<le> length b" using assms(2) [OF b] False by simp
  then show ?thesis using False b assms(1) by (auto simp: store_element_def put_bytes_def)
qed (use assms(1) in \<open>auto simp: store_element_def\<close>)

lemma v_store_triples:
  assumes "assoc_ok rq"
  shows "triple (\<lambda>s. sound s \<and> rq_wpa_ie rq \<noteq> None) (v_store_ie ev rq) sound sound"
    "triple sound (v_store_rsnxe ev rq) sound sound"
proof -
  show "triple (\<lambda>s. sound s \<and> rq_wpa_ie rq \<noteq> None) (v_store_ie ev rq) sound sound"
  proof (rule tripleI)
    fix s
    assume s: "sound s \<and> rq_wpa_ie rq \<noteq> None"
    then obtain ie where ie: "rq_wpa_ie rq = Some ie" "rq_wpa_ie_len rq \<le> length ie" using assms by (auto simp: assoc_ok_def)
    obtain x where "store_element (ev_alloc_ie ev) (sm_wpa_ie (v_sm s)) (sm_wpa_ie_len (v_sm s)) ie (rq_wpa_ie_len rq) = Some x"
      "\<forall>b. x = Inr b \<longrightarrow> rq_wpa_ie_len rq \<le> length b"
      using store_element_in [OF ie(2), of "sm_wpa_ie (v_sm s)" "sm_wpa_ie_len (v_sm s)" "ev_alloc_ie ev"] s
      by (auto simp: sound_def station_ok_def)
    then show "\<exists>x. v_store_ie ev rq s = Some x \<and> ends sound sound x"
      using s ie by (cases x) (auto simp: v_store_ie_def set_sm_def sound_def station_ok_def)
  qed
  show "triple sound (v_store_rsnxe ev rq) sound sound"
  proof (rule tripleI)
    fix s
    assume s: "sound s"
    show "\<exists>x. v_store_rsnxe ev rq s = Some x \<and> ends sound sound x"
    proof (cases "rq_rsnxe rq")
      case (Some ie)
      then have ie: "rq_rsnxe_len rq \<le> length ie" using assms by (auto simp: assoc_ok_def)
      obtain x where "store_element (ev_alloc_rsnxe ev) (sm_rsnxe (v_sm s)) (sm_rsnxe_len (v_sm s)) ie (rq_rsnxe_len rq) = Some x"
        "\<forall>b. x = Inr b \<longrightarrow> rq_rsnxe_len rq \<le> length b"
        using store_element_in [OF ie, of "sm_rsnxe (v_sm s)" "sm_rsnxe_len (v_sm s)" "ev_alloc_rsnxe ev"] s
        by (auto simp: sound_def station_ok_def)
      then show ?thesis
        using s Some by (cases x) (auto simp: v_store_rsnxe_def set_sm_def sound_def station_ok_def)
    qed (use s in \<open>auto simp: v_store_rsnxe_def set_sm_def sound_def station_ok_def\<close>)
  qed
qed

section \<open>The whole function returns\<close>

lemma commit_triple:
  assumes "assoc_ok rq" "env_ok ev" "rq_wpa_ie rq \<noteq> None"
  shows "triple (sound_fresh ev) (stages (commit_stages C ev rq)) sound sound"
proof -
  have "triple sound (stages [v_pmkid_used, v_sae_pmksa C ev, v_dpp_pmksa C, v_ext_key_id, v_store_ie ev rq, v_store_rsnxe ev rq])
      sound sound"
    by (rule triple_all) (use v_store_triples [OF assms(1)] assms(3) in \<open>auto simp: quiet_triple quiet_stages\<close>)
  from triple_Cons [OF v_pmksa_triple triple_Cons [OF v_okc_triple [OF assms(2)] this]]
  show ?thesis by (simp only: commit_stages_def)
qed

lemma check_triple:
  assumes "assoc_ok rq" "rq_wpa_ie rq \<noteq> None"
  shows "triple (sound_fresh ev) (stages (check_stages C rq)) (sound_fresh ev) sound"
proof (rule triple_all)
  fix f
  assume "f \<in> set (check_stages C rq)"
  then have "f = v_parse C rq \<or> f = v_fils C \<or> quiet f"
    by (auto simp: check_stages_def quiet_stages quiet_proto [OF assms(1)] quiet_spp [OF assms(1)] quiet_mdie [OF assms(1)])
  then consider "f = v_parse C rq" | "f = v_fils C" | "quiet f" by blast
  then show "triple (sound_fresh ev) f (sound_fresh ev) sound"
  proof cases
    case 1
    then show ?thesis using v_parse_triple [OF assms(1), of ev C] assms(2) by simp
  qed (auto intro: v_fils_triple quiet_triple)
qed

lemma validate_sound:
  assumes "assoc_ok rq" "env_ok ev" "station_ok m" "represents (au_cache au) es"
    "ev_fresh ev \<notin> Some ` dom (mem (au_cache au))"
  shows "\<exists>r au' m'. validate_ie C ev rq au m = Some (r, au', m') \<and> station_ok m' \<and> (\<exists>es'. represents (au_cache au') es')"
proof (cases "rq_wpa_ie rq")
  case None
  then show ?thesis using assms by (auto simp: validate_ie_def check_stages_def v_proto_def v_init_def)
next
  case (Some ie)
  have "sound_fresh ev (v_init au m)"
    using assms(3-5) by (auto simp: sound_def fresh_for_def v_init_def pmkids_in_def rsn_defaults_def)
  from tripleD [OF triple_append [OF check_triple [OF assms(1)] commit_triple [OF assms(1,2)]] this, of C C] Some
  obtain x where "stages (check_stages C rq @ commit_stages C ev rq) (v_init au m) = Some x" "ends sound sound x" by auto
  then show ?thesis
    by (cases x) (auto simp: validate_ie_def sound_def)
qed

section \<open>What an admitted station has agreed to\<close>

text \<open>The element of the request as the function reads it: its protocol and the data after the RSN branch.\<close>

definition read_element :: "build \<Rightarrow> assoc_req \<Rightarrow> (wpa_proto \<times> wpa_ie_data) option" where
  "read_element C rq =
    (case rq_wpa_ie rq of
       Some (b # r) \<Rightarrow>
         if b = WLAN_EID_RSN
         then (case wpa_parse_wpa_ie_rsn C (b # r) (rq_wpa_ie_len rq) of
           Some (res, d) \<Rightarrow> if res = 0 then Some (WPA_PROTO_RSN, rsn_adjust (rq_freq rq) (rq_mdie rq \<noteq> None) d) else None
         | None \<Rightarrow> None)
         else (case wpa_parse_wpa_ie_wpa (b # r) (rq_wpa_ie_len rq) of
           Some (res, d) \<Rightarrow> if res = 0 then Some (WPA_PROTO_WPA, d) else None
         | None \<Rightarrow> None)
     | _ \<Rightarrow> None)"

lemma stages_Inr:
  "stages [] s = Some (Inr t) \<longleftrightarrow> t = s"
  "stages (f # fs) s = Some (Inr t) \<longleftrightarrow> (\<exists>u. f s = Some (Inr u) \<and> stages fs u = Some (Inr t))"
  by (auto split: sum.splits Option.bind_splits)

lemma reject_Inr [simp]: "reject c r s = Some (Inr t) \<longleftrightarrow> \<not> c \<and> t = s"
  by (auto simp: reject_def)

lemma read_Inr:
  assumes "v_proto rq s = Some (Inr t)" "v_parse C rq t = Some (Inr u)" "v_parsed u = Some (Inr w)"
  shows "\<exists>v d. read_element C rq = Some (v, d) \<and> has (conf_wpa (v_conf s)) (proto_bit v) \<and>
    v_version w = v \<and> v_data w = d \<and> v_conf w = v_conf s \<and> v_sm w = v_sm s"
  using assms
  by (auto simp: v_proto_def v_parse_def v_parsed_def read_element_def select_suites_def Let_def
      split: option.splits list.splits if_splits Option.bind_splits)

end
