(* ===== verification/RsnPolicy.thy ===== *)
theory RsnPolicy
  imports RsnAdmit
begin

text \<open>
  What a station that \<open>wpa_validate_wpa_ie\<close> admits has agreed to: the checks of the stages that it passed,
  collected over the final state, and which AKM is selected.
\<close>

section \<open>What the stages check\<close>

lemma akm_Inr: "v_akm C s = Some (Inr t) \<Longrightarrow>
    ie_key_mgmt (v_data s) AND own_key_mgmt (v_conf s) (v_sm s) \<noteq> 0 \<and>
    t = set_sm (\<lambda>m. m\<lparr>sm_wpa_key_mgmt := select_akm C (ie_key_mgmt (v_data s))
        (ie_key_mgmt (v_data s) AND own_key_mgmt (v_conf s) (v_sm s))\<rparr>)
      (s\<lparr>v_key_mgmt := ie_key_mgmt (v_data s) AND own_key_mgmt (v_conf s) (v_sm s)\<rparr>)"
  by (simp add: v_akm_def Let_def split: if_splits)

lemma pairwise_Inr: "v_pairwise s = Some (Inr t) \<Longrightarrow>
    v_ciphers t \<noteq> 0 \<and>
    t = s\<lparr>v_ciphers := ie_pairwise_cipher (v_data s) AND own_pairwise (v_version s) (v_conf s) (v_sm s)\<rparr>"
  by (simp add: v_pairwise_def Let_def)

lemma mfp_required_Inr: "v_mfp_required s = Some (Inr t) \<Longrightarrow> t = s \<and>
    (conf_ieee80211w (v_conf s) = MGMT_FRAME_PROTECTION_REQUIRED \<longrightarrow>
      cap_set s WPA_CAPABILITY_MFPC \<and> ie_mgmt_group_cipher (v_data s) = conf_group_mgmt_cipher (v_conf s))"
  by (simp add: v_mfp_required_def split: if_splits)

lemma ocv_Inr: "v_ocv C s = Some (Inr t) \<Longrightarrow> \<exists>n. t = set_sm (wpa_auth_set_ocv n) s \<or> t = s"
  by (auto simp: v_ocv_def split: if_splits)

lemma mfp_Inr: "v_mfp s = Some (Inr t) \<Longrightarrow>
    t = set_sm (\<lambda>m. m\<lparr>sm_mgmt_frame_prot := own_mfp (v_conf s) (v_sm s) \<noteq> NO_MGMT_FRAME_PROTECTION \<and> cap_set s WPA_CAPABILITY_MFPC,
      sm_mfpr := cap_set s WPA_CAPABILITY_MFPR\<rparr>) s \<and>
    \<not> (sm_mgmt_frame_prot (v_sm t) \<and> has (v_ciphers s) WPA_CIPHER_TKIP)"
  by (simp add: v_mfp_def Let_def set_sm_def)

lemma spp_Inr: "v_spp rq s = Some (Inr t) \<Longrightarrow> \<exists>b. t = set_sm (\<lambda>m. m\<lparr>sm_spp_amsdu := b\<rparr>) s"
  by (auto simp: v_spp_def split: if_splits Option.bind_splits)

lemma mdie_Inr: "v_mdie C rq s = Some (Inr t) \<Longrightarrow> t = s \<and> (CONFIG_IEEE80211R C \<longrightarrow>
    (if wpa_key_mgmt_ft (sm_wpa_key_mgmt (v_sm s))
     then \<exists>mdie. rq_mdie rq = Some mdie \<and> 3 \<le> rq_mdie_len rq \<and> take 2 mdie = conf_mobility_domain (v_conf s)
     else rq_mdie rq = None))"
  by (auto simp: v_mdie_def split: if_splits option.splits)

lemma pick_Inr: "v_pick s = Some (Inr t) \<Longrightarrow>
    t = set_sm (\<lambda>m. m\<lparr>sm_pairwise := wpa_pick_pairwise_cipher (v_ciphers s) False\<rparr>) s \<and>
    wpa_pick_pairwise_cipher (v_ciphers s) False \<noteq> None"
  by (auto simp: v_pick_def Let_def set_sm_def)

lemma link_Inr: "v_link rq s = Some (Inr t) \<Longrightarrow>
    t = set_sm (\<lambda>m. m\<lparr>sm_wpa := if v_version s = WPA_PROTO_RSN then WPA_VERSION_WPA2 else WPA_VERSION_WPA\<rparr>) s \<and>
    (\<forall>km pw. rq_assoc_sm rq = Some (km, pw) \<longrightarrow> km = sm_wpa_key_mgmt (v_sm s) \<and> pw = sm_pairwise (v_sm s))"
  by (auto simp: v_link_def Let_def set_sm_def split: option.splits if_splits)

lemma fils_Inr: "v_fils C s = Some (Inr t) \<Longrightarrow> t = s"
  by (auto simp: v_fils_def split: if_splits Option.bind_splits)

text \<open>The outcome of the checks, for the configuration \<open>conf\<close> and the station \<open>m\<close> as they were before.\<close>

definition agreed :: "build \<Rightarrow> assoc_req \<Rightarrow> wpa_auth_config \<Rightarrow> wpa_sm \<Rightarrow> wpa_proto \<Rightarrow> wpa_ie_data \<Rightarrow> wpa_sm \<Rightarrow> bool" where
  "agreed C rq conf m v d m' \<longleftrightarrow>
    has (conf_wpa conf) (proto_bit v) \<and> ie_group_cipher d = conf_wpa_group conf \<and>
    ie_key_mgmt d AND own_key_mgmt conf m \<noteq> 0 \<and>
    sm_wpa_key_mgmt m' = select_akm C (ie_key_mgmt d) (ie_key_mgmt d AND own_key_mgmt conf m) \<and>
    sm_pairwise m' = wpa_pick_pairwise_cipher (ie_pairwise_cipher d AND own_pairwise v conf m) False \<and> sm_pairwise m' \<noteq> None \<and>
    (conf_ieee80211w conf = MGMT_FRAME_PROTECTION_REQUIRED \<longrightarrow>
      ie_capabilities d AND WPA_CAPABILITY_MFPC \<noteq> 0 \<and> ie_mgmt_group_cipher d = conf_group_mgmt_cipher conf) \<and>
    (sm_mgmt_frame_prot m' \<longleftrightarrow>
      own_mfp conf m \<noteq> NO_MGMT_FRAME_PROTECTION \<and> ie_capabilities d AND WPA_CAPABILITY_MFPC \<noteq> 0) \<and>
    \<not> (sm_mgmt_frame_prot m' \<and> has (ie_pairwise_cipher d AND own_pairwise v conf m) WPA_CIPHER_TKIP) \<and>
    (CONFIG_IEEE80211R C \<longrightarrow>
      (if wpa_key_mgmt_ft (sm_wpa_key_mgmt m')
       then \<exists>mdie. rq_mdie rq = Some mdie \<and> 3 \<le> rq_mdie_len rq \<and> take 2 mdie = conf_mobility_domain conf
       else rq_mdie rq = None)) \<and>
    (CONFIG_OWE C \<and> sm_wpa_key_mgmt m' = WPA_KEY_MGMT_OWE \<longrightarrow> rq_owe_dh rq) \<and>
    sm_wpa m' = (if v = WPA_PROTO_RSN then WPA_VERSION_WPA2 else WPA_VERSION_WPA) \<and>
    (\<forall>km pw. rq_assoc_sm rq = Some (km, pw) \<longrightarrow> km = sm_wpa_key_mgmt m' \<and> pw = sm_pairwise m')"

lemma agreed_cong:
  "sm_wpa_key_mgmt m1 = sm_wpa_key_mgmt m2 \<Longrightarrow> sm_pairwise m1 = sm_pairwise m2 \<Longrightarrow>
    sm_mgmt_frame_prot m1 = sm_mgmt_frame_prot m2 \<Longrightarrow> sm_wpa m1 = sm_wpa m2 \<Longrightarrow>
    agreed C rq conf m v d m1 = agreed C rq conf m v d m2"
  by (simp add: agreed_def)

lemma checks_Inr:
  assumes "stages (check_stages C rq) s = Some (Inr t)"
  shows "\<exists>v d. read_element C rq = Some (v, d) \<and> v_data t = d \<and> v_conf t = v_conf s \<and>
    agreed C rq (v_conf s) (v_sm s) v d (v_sm t)"
proof -
  from assms obtain s1 s2 s3 where head: "v_proto rq s = Some (Inr s1)" "v_parse C rq s1 = Some (Inr s2)" "v_parsed s2 = Some (Inr s3)"
    and tail: "stages [v_group, v_akm C, v_pairwise, v_mfp_required, v_sae_mfp C, v_ocv C, v_mfp, v_spp rq, v_mdie C rq, v_owe C rq,
      v_dpp C rq, v_pick, v_link rq, v_fils C] s3 = Some (Inr t)"
    unfolding check_stages_def stages_Inr by blast
  from read_Inr [OF head] obtain v d where rd: "read_element C rq = Some (v, d)" "has (conf_wpa (v_conf s)) (proto_bit v)"
    "v_version s3 = v" "v_data s3 = d" "v_conf s3 = v_conf s" "v_sm s3 = v_sm s" by blast
  from tail obtain s4 s5 s6 s7 s8 s9 s10 s11 s12 s13 s14 s15 s16 where
    c: "v_group s3 = Some (Inr s4)" "v_akm C s4 = Some (Inr s5)" "v_pairwise s5 = Some (Inr s6)"
      "v_mfp_required s6 = Some (Inr s7)" "v_sae_mfp C s7 = Some (Inr s8)" "v_ocv C s8 = Some (Inr s9)"
      "v_mfp s9 = Some (Inr s10)" "v_spp rq s10 = Some (Inr s11)" "v_mdie C rq s11 = Some (Inr s12)"
      "v_owe C rq s12 = Some (Inr s13)" "v_dpp C rq s13 = Some (Inr s14)" "v_pick s14 = Some (Inr s15)"
      "v_link rq s15 = Some (Inr s16)" "v_fils C s16 = Some (Inr t)"
    unfolding stages_Inr by blast
  define conf m where "conf = v_conf s" and "m = v_sm s"
  define km ci pw where "km = select_akm C (ie_key_mgmt d) (ie_key_mgmt d AND own_key_mgmt conf m)"
    and "ci = ie_pairwise_cipher d AND own_pairwise v conf m" and "pw = wpa_pick_pairwise_cipher ci False"
  define prot where "prot = (own_mfp conf m \<noteq> NO_MGMT_FRAME_PROTECTION \<and> ie_capabilities d AND WPA_CAPABILITY_MFPC \<noteq> 0)"
  define F0 where "F0 u \<longleftrightarrow> v_data u = d \<and> v_version u = v \<and> v_conf u = conf \<and> sm_rsn_override (v_sm u) = sm_rsn_override m \<and>
    sm_rsn_override_2 (v_sm u) = sm_rsn_override_2 m" for u
  define F1 where "F1 u \<longleftrightarrow> F0 u \<and> sm_wpa_key_mgmt (v_sm u) = km" for u
  define F2 where "F2 u \<longleftrightarrow> F1 u \<and> v_ciphers u = ci" for u
  define F3 where "F3 u \<longleftrightarrow> F2 u \<and> sm_mgmt_frame_prot (v_sm u) = prot" for u
  define F4 where "F4 u \<longleftrightarrow> F3 u \<and> sm_pairwise (v_sm u) = pw" for u
  have own: "own_key_mgmt conf (v_sm u) = own_key_mgmt conf m" "own_pairwise v conf (v_sm u) = own_pairwise v conf m"
    "own_mfp conf (v_sm u) = own_mfp conf m" if "F0 u" for u
    using that by (simp_all add: F0_def own_key_mgmt_def own_pairwise_def own_mfp_def)
  have 4: "F0 s4" "ie_group_cipher d = conf_wpa_group conf" using c(1) rd by (auto simp: v_group_def F0_def conf_def m_def)
  have d0: "v_data u = d" "v_conf u = conf" "v_version u = v" if "F0 u" for u using that by (simp_all add: F0_def)
  have 5: "F1 s5" "ie_key_mgmt d AND own_key_mgmt conf m \<noteq> 0"
    using akm_Inr [OF c(2)] own [OF 4(1)] 4(1) d0 [OF 4(1)] by (simp_all add: F1_def F0_def km_def set_sm_def)
  then have F05: "F0 s5" by (simp add: F1_def)
  have 6: "F2 s6" using pairwise_Inr [OF c(3)] own [OF F05] 5(1) d0 [OF F05] by (simp add: F2_def F1_def F0_def ci_def)
  then have F06: "F0 s6" by (simp add: F2_def F1_def)
  have 7: "F2 s7" "conf_ieee80211w conf = MGMT_FRAME_PROTECTION_REQUIRED \<longrightarrow>
      ie_capabilities d AND WPA_CAPABILITY_MFPC \<noteq> 0 \<and> ie_mgmt_group_cipher d = conf_group_mgmt_cipher conf"
    using mfp_required_Inr [OF c(4)] 6 d0 [OF F06] by (simp_all add: cap_set_def)
  have 8: "F2 s8" using c(5) 7(1) by (simp add: v_sae_mfp_def)
  have 9: "F2 s9" using ocv_Inr [OF c(6)] 8 by (auto simp: F2_def F1_def F0_def set_sm_def wpa_auth_set_ocv_def)
  then have F09: "F0 s9" by (simp add: F2_def F1_def)
  have 10: "F3 s10" using mfp_Inr [OF c(7)] own [OF F09] 9 d0 [OF F09]
    by (simp add: F3_def F2_def F1_def F0_def set_sm_def cap_set_def prot_def)
  have tkip: "\<not> (prot \<and> has ci WPA_CIPHER_TKIP)" using mfp_Inr [OF c(7)] 9 10 by (simp add: F3_def F2_def)
  have 11: "F3 s11" using spp_Inr [OF c(8)] 10 by (auto simp: F3_def F2_def F1_def F0_def set_sm_def)
  then have F11: "v_conf s11 = conf" "sm_wpa_key_mgmt (v_sm s11) = km" by (simp_all add: F3_def F2_def F1_def F0_def)
  have 12: "F3 s12" "CONFIG_IEEE80211R C \<longrightarrow> (if wpa_key_mgmt_ft km
      then \<exists>mdie. rq_mdie rq = Some mdie \<and> 3 \<le> rq_mdie_len rq \<and> take 2 mdie = conf_mobility_domain conf else rq_mdie rq = None)"
    using mdie_Inr [OF c(9)] 11 unfolding F11 by (simp, blast)
  have 13: "F3 s13" "CONFIG_OWE C \<and> km = WPA_KEY_MGMT_OWE \<longrightarrow> rq_owe_dh rq"
    using c(10) 12(1) by (auto simp: v_owe_def F3_def F2_def F1_def)
  have 14: "F3 s14" using c(11) 13(1) by (simp add: v_dpp_def)
  have 15: "F4 s15" "pw \<noteq> None" using pick_Inr [OF c(12)] 14 by (simp_all add: F4_def F3_def F2_def F1_def F0_def set_sm_def pw_def)
  have 16: "F4 s16" "sm_wpa (v_sm s16) = (if v = WPA_PROTO_RSN then WPA_VERSION_WPA2 else WPA_VERSION_WPA)"
    "\<forall>km' pw'. rq_assoc_sm rq = Some (km', pw') \<longrightarrow> km' = km \<and> pw' = pw"
    using link_Inr [OF c(13)] 15(1) by (simp_all add: F4_def F3_def F2_def F1_def F0_def set_sm_def)
  have t: "t = s16" using fils_Inr [OF c(14)] .
  have "agreed C rq conf m v d (v_sm t)"
    using rd(2) 4(2) 5(2) 7(2) tkip 12(2) 13(2) 15(2) 16 t
    unfolding agreed_def F4_def F3_def F2_def F1_def km_def [symmetric] ci_def [symmetric]
    by (simp add: conf_def [symmetric] pw_def [symmetric] prot_def [symmetric])
  moreover have "v_data t = d" "v_conf t = conf" using 16(1) t by (simp_all add: F4_def F3_def F2_def F1_def F0_def)
  ultimately show ?thesis using rd(1) by (auto simp: conf_def m_def)
qed

section \<open>The rest of the function leaves the choice alone\<close>

definition same_choice :: "vstate \<Rightarrow> vstate \<Rightarrow> bool" where
  "same_choice s t \<longleftrightarrow> v_data t = v_data s \<and> v_conf t = v_conf s \<and> sm_wpa_key_mgmt (v_sm t) = sm_wpa_key_mgmt (v_sm s) \<and>
    sm_pairwise (v_sm t) = sm_pairwise (v_sm s) \<and> sm_mgmt_frame_prot (v_sm t) = sm_mgmt_frame_prot (v_sm s) \<and>
    sm_wpa (v_sm t) = sm_wpa (v_sm s) \<and> sm_auth_alg (v_sm t) = sm_auth_alg (v_sm s)"

lemma same_refl [simp]: "same_choice s s"
  by (simp add: same_choice_def)

lemma same_trans: "same_choice s t \<Longrightarrow> same_choice t u \<Longrightarrow> same_choice s u"
  by (simp add: same_choice_def)

lemma same_pmksa [simp]: "same_choice s (set_sm (\<lambda>m. m\<lparr>sm_pmksa := r\<rparr>) s)" "same_choice s (s\<lparr>v_pid := p\<rparr>)"
  "same_choice s (s\<lparr>v_au := (v_au s)\<lparr>au_cache := c\<rparr>\<rparr>)"  "same_choice s (s\<lparr>v_au := (v_au s)\<lparr>au_pmkid_used := q\<rparr>\<rparr>)"
  by (simp_all add: same_choice_def set_sm_def)

lemma pmkid_loop_same: "pmkid_loop n i s = Some t \<Longrightarrow> same_choice s t"
proof (induction n arbitrary: i s)
  case (Suc n)
  then obtain p res where l: "pmkid_at (v_data s) i = Some p" "lookup_pmksa s p = Some res"
    by (auto split: Option.bind_splits)
  let ?s = "set_sm (\<lambda>m. m\<lparr>sm_pmksa := res\<rparr>) s"
  show ?case
  proof (cases res)
    case None
    then show ?thesis using Suc.prems Suc.IH [of "i + 1" ?s] l same_trans [OF same_pmksa(1) [of s None]] by (simp add: Let_def)
  next
    case (Some r)
    then have "\<exists>p. t = ?s\<lparr>v_pid := p\<rparr>" using Suc.prems l by (auto simp: Let_def bind_eq_Some_conv)
    then show ?thesis by (auto simp: same_choice_def set_sm_def)
  qed
qed simp

lemma okc_loop_same: "okc_loop ev n i s = Some t \<Longrightarrow> same_choice s t"
proof (induction n arbitrary: i s)
  case (Suc n)
  show ?case
  proof (cases "sm_pmksa (v_sm s) \<noteq> None \<or> \<not> conf_okc (v_conf s)")
    case True
    then show ?thesis using Suc.prems by simp
  next
    case False
    then obtain p x where px: "pmkid_at (v_data s) i = Some p"
      "okc_iter (ev_hm ev) (au_addr (v_au s)) (sm_addr (v_sm s)) p (ev_auths ev) = Some x"
      using Suc.prems by (auto simp: bind_eq_Some_conv)
    show ?thesis
    proof (cases x)
      case None
      then show ?thesis using Suc False px by simp
    next
      case (Some old)
      then obtain r c where "t = set_sm (\<lambda>m. m\<lparr>sm_pmksa := r\<rparr>) (s\<lparr>v_au := (v_au s)\<lparr>au_cache := c\<rparr>, v_pid := Some p\<rparr>)"
        using Suc.prems False px by (auto simp: bind_eq_Some_conv)
      then show ?thesis by (simp add: same_choice_def set_sm_def)
    qed
  qed
qed simp

lemma store_Inr:
  "store_element alloc buf len ie n = Some (Inr b) \<Longrightarrow> n \<le> length ie \<and> take n b = take n ie"
  by (auto simp: store_element_def put_bytes_def split: if_splits)

lemma store_ie_Inr: "v_store_ie ev rq s = Some (Inr t) \<Longrightarrow> same_choice s t \<and> sm_pmksa (v_sm t) = sm_pmksa (v_sm s) \<and>
    (\<exists>ie b. rq_wpa_ie rq = Some ie \<and> sm_wpa_ie (v_sm t) = Some b \<and> sm_wpa_ie_len (v_sm t) = rq_wpa_ie_len rq \<and>
      rq_wpa_ie_len rq \<le> length ie \<and> take (rq_wpa_ie_len rq) b = take (rq_wpa_ie_len rq) ie)"
proof -
  assume "v_store_ie ev rq s = Some (Inr t)"
  then obtain ie x where x: "rq_wpa_ie rq = Some ie" "store_element (ev_alloc_ie ev) (sm_wpa_ie (v_sm s)) (sm_wpa_ie_len (v_sm s)) ie
      (rq_wpa_ie_len rq) = Some x" "(case x of Inl _ \<Rightarrow> Inl (WPA_ALLOC_FAIL, set_sm (\<lambda>m. m\<lparr>sm_wpa_ie := None\<rparr>) s)
      | Inr b \<Rightarrow> Inr (set_sm (\<lambda>m. m\<lparr>sm_wpa_ie := Some b, sm_wpa_ie_len := rq_wpa_ie_len rq\<rparr>) s)) = Inr t"
    unfolding v_store_ie_def by (cases "rq_wpa_ie rq") (auto simp: bind_eq_Some_conv)
  then show ?thesis by (cases x) (auto simp: same_choice_def set_sm_def dest!: store_Inr)
qed

lemma store_rsnxe_Inr: "v_store_rsnxe ev rq s = Some (Inr t) \<Longrightarrow> same_choice s t \<and> sm_pmksa (v_sm t) = sm_pmksa (v_sm s) \<and>
    sm_wpa_ie (v_sm t) = sm_wpa_ie (v_sm s) \<and> sm_wpa_ie_len (v_sm t) = sm_wpa_ie_len (v_sm s)"
proof -
  assume "v_store_rsnxe ev rq s = Some (Inr t)"
  moreover have "\<exists>b n. t = set_sm (\<lambda>m. m\<lparr>sm_rsnxe := b, sm_rsnxe_len := n\<rparr>) s"
    if nz: "rq_rsnxe rq = Some ie" "rq_rsnxe_len rq \<noteq> 0" for ie
  proof -
    obtain x :: "unit + bytes" where "(case x of Inl _ \<Rightarrow> Inl (WPA_ALLOC_FAIL, set_sm (\<lambda>m. m\<lparr>sm_rsnxe := None\<rparr>) s)
        | Inr b \<Rightarrow> Inr (set_sm (\<lambda>m. m\<lparr>sm_rsnxe := Some b, sm_rsnxe_len := rq_rsnxe_len rq\<rparr>) s)) = Inr t"
      using calculation nz unfolding v_store_rsnxe_def by (auto simp: bind_eq_Some_conv)
    then show ?thesis by (cases x) auto
  qed
  ultimately have "\<exists>b n. t = set_sm (\<lambda>m. m\<lparr>sm_rsnxe := b, sm_rsnxe_len := n\<rparr>) s"
    unfolding v_store_rsnxe_def by (cases "rq_rsnxe rq"; cases "rq_rsnxe_len rq = 0") auto
  then show ?thesis by (auto simp: same_choice_def set_sm_def)
qed

lemma ext_key_id_Inr: "v_ext_key_id s = Some (Inr t) \<Longrightarrow> same_choice s t \<and> sm_pmksa (v_sm t) = sm_pmksa (v_sm s)"
  by (auto simp: v_ext_key_id_def same_choice_def set_sm_def split: if_splits)

lemma pmkid_used_Inr: "v_pmkid_used s = Some (Inr t) \<Longrightarrow> same_choice s t \<and> v_sm t = v_sm s"
  by (auto simp: v_pmkid_used_def same_choice_def split: option.splits)

lemma commits_Inr:
  assumes "stages (commit_stages C ev rq) s = Some (Inr t)"
  shows "same_choice s t \<and>
    (CONFIG_DPP C \<and> sm_wpa_key_mgmt (v_sm t) = WPA_KEY_MGMT_DPP \<longrightarrow> sm_pmksa (v_sm t) \<noteq> None) \<and>
    (CONFIG_SAE C \<and> (sm_wpa_key_mgmt (v_sm t) = WPA_KEY_MGMT_SAE \<or> sm_wpa_key_mgmt (v_sm t) = WPA_KEY_MGMT_SAE_EXT_KEY) \<and>
      \<not> ev_sae_offload ev \<and> ie_num_pmkid (v_data s) \<noteq> 0 \<and> sm_auth_alg (v_sm t) = 0 \<longrightarrow> sm_pmksa (v_sm t) \<noteq> None) \<and>
    (\<exists>ie b. rq_wpa_ie rq = Some ie \<and> sm_wpa_ie (v_sm t) = Some b \<and> sm_wpa_ie_len (v_sm t) = rq_wpa_ie_len rq \<and>
      rq_wpa_ie_len rq \<le> length ie \<and> take (rq_wpa_ie_len rq) b = take (rq_wpa_ie_len rq) ie)"
proof -
  from assms obtain s1 s2 s3 s4 s5 s6 s7 where
    c: "v_pmksa s = Some (Inr s1)" "v_okc ev s1 = Some (Inr s2)" "v_pmkid_used s2 = Some (Inr s3)"
      "v_sae_pmksa C ev s3 = Some (Inr s4)" "v_dpp_pmksa C s4 = Some (Inr s5)" "v_ext_key_id s5 = Some (Inr s6)"
      "v_store_ie ev rq s6 = Some (Inr s7)" "v_store_rsnxe ev rq s7 = Some (Inr t)"
    unfolding commit_stages_def stages_Inr by blast
  have 1: "same_choice s s1" using c(1) same_trans [OF same_pmksa(1) pmkid_loop_same] by (auto simp: v_pmksa_def)
  have 2: "same_choice s1 s2" using c(2) okc_loop_same by (auto simp: v_okc_def)
  have 3: "same_choice s s3" using pmkid_used_Inr [OF c(3)] same_trans [OF same_trans [OF 1 2]] by blast
  have 4: "s4 = s3" "s5 = s3" using c(4,5) by (simp_all add: v_sae_pmksa_def v_dpp_pmksa_def)
  have e: "same_choice s5 s6" "same_choice s6 s7" "same_choice s7 t" "sm_pmksa (v_sm t) = sm_pmksa (v_sm s5)"
    using ext_key_id_Inr [OF c(6)] store_ie_Inr [OF c(7)] store_rsnxe_Inr [OF c(8)] by simp_all
  have 5: "same_choice s3 t" "sm_pmksa (v_sm t) = sm_pmksa (v_sm s3)"
    using same_trans [OF same_trans [OF e(1,2)] e(3)] e(4) unfolding 4(2) .
  have 6: "\<exists>ie b. rq_wpa_ie rq = Some ie \<and> sm_wpa_ie (v_sm t) = Some b \<and> sm_wpa_ie_len (v_sm t) = rq_wpa_ie_len rq \<and>
      rq_wpa_ie_len rq \<le> length ie \<and> take (rq_wpa_ie_len rq) b = take (rq_wpa_ie_len rq) ie"
    using store_ie_Inr [OF c(7)] store_rsnxe_Inr [OF c(8)] by simp
  have 7: "same_choice s t" using same_trans [OF 3 5(1)] .
  have "sm_wpa_key_mgmt (v_sm t) = sm_wpa_key_mgmt (v_sm s3)" "sm_auth_alg (v_sm t) = sm_auth_alg (v_sm s3)"
    "v_data s3 = v_data s" using 5(1) 3 by (simp_all add: same_choice_def)
  note k = this
  have "CONFIG_DPP C \<and> sm_wpa_key_mgmt (v_sm t) = WPA_KEY_MGMT_DPP \<longrightarrow> sm_pmksa (v_sm t) \<noteq> None"
    using c(5) by (simp add: v_dpp_pmksa_def k 5(2) 4)
  moreover have "CONFIG_SAE C \<and> (sm_wpa_key_mgmt (v_sm t) = WPA_KEY_MGMT_SAE \<or>
      sm_wpa_key_mgmt (v_sm t) = WPA_KEY_MGMT_SAE_EXT_KEY) \<and> \<not> ev_sae_offload ev \<and> ie_num_pmkid (v_data s) \<noteq> 0 \<and>
      sm_auth_alg (v_sm t) = 0 \<longrightarrow> sm_pmksa (v_sm t) \<noteq> None"
    using c(4) unfolding v_sae_pmksa_def reject_Inr k 5(2) 4 by argo
  ultimately show ?thesis using 6 7 by blast
qed

lemma stages_append_Inr:
  "stages (fs @ gs) s = Some (Inr t) \<longleftrightarrow> (\<exists>u. stages fs s = Some (Inr u) \<and> stages gs u = Some (Inr t))"
  by (induction fs arbitrary: s) (auto simp: stages_Inr simp del: stages.simps)

text \<open>An early return is a rejection.\<close>

definition rejects :: "vstage \<Rightarrow> bool" where
  "rejects f \<longleftrightarrow> (\<forall>s t. f s \<noteq> Some (Inl (WPA_IE_OK, t)))"

lemma rejects_reject: "r \<noteq> WPA_IE_OK \<Longrightarrow> reject c r s \<noteq> Some (Inl (WPA_IE_OK, t))"
  by (simp add: reject_def)

lemma rejects_stages: "\<forall>f\<in>set fs. rejects f \<Longrightarrow> stages fs s \<noteq> Some (Inl (WPA_IE_OK, t))"
  by (induction fs arbitrary: s) (auto simp: rejects_def bind_eq_Some_conv split: sum.splits)

lemma rejects_check: "\<forall>f\<in>set (check_stages C rq). rejects f"
  unfolding check_stages_def rejects_def
  by (auto simp: v_proto_def v_parse_def v_parsed_def v_group_def v_akm_def v_pairwise_def v_mfp_required_def v_sae_mfp_def
      v_ocv_def v_mfp_def v_spp_def v_mdie_def v_owe_def v_dpp_def v_pick_def v_link_def v_fils_def rejects_reject Let_def
      bind_eq_Some_conv split: option.splits list.splits if_splits)

lemma rejects_commit: "\<forall>f\<in>set (commit_stages C ev rq). rejects f"
  unfolding commit_stages_def rejects_def
  by (auto simp: v_pmksa_def v_okc_def v_pmkid_used_def v_sae_pmksa_def v_dpp_pmksa_def v_ext_key_id_def v_store_ie_def
      v_store_rsnxe_def rejects_reject bind_eq_Some_conv split: option.splits sum.splits if_splits)

lemma validate_OK:
  assumes "validate_ie C ev rq au m = Some (WPA_IE_OK, au', m')"
  shows "\<exists>v d ie b. read_element C rq = Some (v, d) \<and> agreed C rq (au_conf au) m v d m' \<and> au_conf au' = au_conf au \<and>
    (CONFIG_DPP C \<and> sm_wpa_key_mgmt m' = WPA_KEY_MGMT_DPP \<longrightarrow> sm_pmksa m' \<noteq> None) \<and>
    (CONFIG_SAE C \<and> (sm_wpa_key_mgmt m' = WPA_KEY_MGMT_SAE \<or> sm_wpa_key_mgmt m' = WPA_KEY_MGMT_SAE_EXT_KEY) \<and>
      \<not> ev_sae_offload ev \<and> ie_num_pmkid d \<noteq> 0 \<and> sm_auth_alg m' = 0 \<longrightarrow> sm_pmksa m' \<noteq> None) \<and>
    rq_wpa_ie rq = Some ie \<and> sm_wpa_ie m' = Some b \<and> sm_wpa_ie_len m' = rq_wpa_ie_len rq \<and>
    take (rq_wpa_ie_len rq) b = take (rq_wpa_ie_len rq) ie"
proof -
  obtain t where t: "stages (check_stages C rq @ commit_stages C ev rq) (v_init au m) = Some (Inr t)" "au' = v_au t" "m' = v_sm t"
  proof -
    obtain x where x: "stages (check_stages C rq @ commit_stages C ev rq) (v_init au m) = Some x"
      "(case x of Inl (r, s) \<Rightarrow> (r, v_au s, v_sm s) | Inr s \<Rightarrow> (WPA_IE_OK, v_au s, v_sm s)) = (WPA_IE_OK, au', m')"
      using assms by (auto simp: validate_ie_def bind_eq_Some_conv)
    have "\<forall>f\<in>set (check_stages C rq @ commit_stages C ev rq). rejects f"
      using rejects_check [of C rq] rejects_commit [of C ev rq] by auto
    from rejects_stages [OF this] x that show thesis by (cases x) auto
  qed
  then obtain s where s: "stages (check_stages C rq) (v_init au m) = Some (Inr s)"
    "stages (commit_stages C ev rq) s = Some (Inr t)"
    by (auto simp: stages_append_Inr)
  have init: "v_conf (v_init au m) = au_conf au" "v_sm (v_init au m) = m" by (simp_all add: v_init_def)
  from checks_Inr [OF s(1)] obtain v d where d: "read_element C rq = Some (v, d)" "v_data s = d" "v_conf s = au_conf au"
    "agreed C rq (au_conf au) m v d (v_sm s)" unfolding init by blast
  note c = commits_Inr [OF s(2)]
  then have same: "same_choice s t" by blast
  then have "agreed C rq (au_conf au) m v d (v_sm t)" "v_conf t = au_conf au"
    using d(3,4) agreed_cong [of "v_sm t" "v_sm s"] by (simp_all add: same_choice_def)
  then show ?thesis using c d(1,2) t(2,3) by blast
qed

section \<open>Which AKM is selected\<close>

text \<open>The AKMs the selection knows, apart from PSK.\<close>

definition selectable :: "build \<Rightarrow> u32 list" where
  "selectable C = compiled
    [(True, WPA_KEY_MGMT_IEEE8021X_SUITE_B_192), (True, WPA_KEY_MGMT_IEEE8021X_SUITE_B),
     (CONFIG_FILS C \<and> CONFIG_IEEE80211R C, WPA_KEY_MGMT_FT_FILS_SHA384),
     (CONFIG_FILS C \<and> CONFIG_IEEE80211R C, WPA_KEY_MGMT_FT_FILS_SHA256),
     (CONFIG_FILS C, WPA_KEY_MGMT_FILS_SHA384), (CONFIG_FILS C, WPA_KEY_MGMT_FILS_SHA256),
     (CONFIG_IEEE80211R C \<and> CONFIG_SHA384 C, WPA_KEY_MGMT_FT_IEEE8021X_SHA384),
     (CONFIG_IEEE80211R C, WPA_KEY_MGMT_FT_IEEE8021X), (CONFIG_IEEE80211R C, WPA_KEY_MGMT_FT_PSK),
     (CONFIG_SHA384 C, WPA_KEY_MGMT_IEEE8021X_SHA384), (True, WPA_KEY_MGMT_IEEE8021X_SHA256),
     (True, WPA_KEY_MGMT_PSK_SHA256), (CONFIG_SAE C, WPA_KEY_MGMT_SAE), (CONFIG_SAE C, WPA_KEY_MGMT_SAE_EXT_KEY),
     (CONFIG_SAE C, WPA_KEY_MGMT_FT_SAE), (CONFIG_SAE C, WPA_KEY_MGMT_FT_SAE_EXT_KEY), (True, WPA_KEY_MGMT_IEEE8021X),
     (CONFIG_OWE C, WPA_KEY_MGMT_OWE), (CONFIG_DPP C, WPA_KEY_MGMT_DPP)]"

lemma first_hit_cases:
  "((True, first_hit cs d) \<in> set cs) \<or> first_hit cs d = d \<and> (\<forall>c\<in>set cs. \<not> fst c)"
proof (cases "find fst cs")
  case None
  then have "\<forall>c\<in>set cs. \<not> fst c" by (auto simp: find_None_iff)
  then show ?thesis using None by (simp add: first_hit_def)
next
  case (Some c)
  then have "c \<in> set cs" "c = (True, snd c)" using find_SomeD [OF Some] by (auto simp: prod_eq_iff)
  then have "(True, snd c) \<in> set cs" by metis
  then show ?thesis using Some by (simp add: first_hit_def)
qed

lemma select_akm_cases:
  "has key_mgmt (select_akm C off key_mgmt) \<and> select_akm C off key_mgmt \<in> set (selectable C) \<or>
   select_akm C off key_mgmt = WPA_KEY_MGMT_FT_FILS_SHA256 \<and> has off WPA_KEY_MGMT_FT_FILS_SHA256 \<or>
   select_akm C off key_mgmt = WPA_KEY_MGMT_PSK \<and> (\<forall>b\<in>set (selectable C) - {WPA_KEY_MGMT_FT_FILS_SHA256}. \<not> has key_mgmt b)"
  (is "?A \<or> ?B \<or> ?D")
proof -
  define cs where "cs = compiled
    [(True, has key_mgmt WPA_KEY_MGMT_IEEE8021X_SUITE_B_192, WPA_KEY_MGMT_IEEE8021X_SUITE_B_192),
     (True, has key_mgmt WPA_KEY_MGMT_IEEE8021X_SUITE_B, WPA_KEY_MGMT_IEEE8021X_SUITE_B),
     (CONFIG_FILS C \<and> CONFIG_IEEE80211R C, has key_mgmt WPA_KEY_MGMT_FT_FILS_SHA384, WPA_KEY_MGMT_FT_FILS_SHA384),
     (CONFIG_FILS C \<and> CONFIG_IEEE80211R C, has off WPA_KEY_MGMT_FT_FILS_SHA256, WPA_KEY_MGMT_FT_FILS_SHA256),
     (CONFIG_FILS C, has key_mgmt WPA_KEY_MGMT_FILS_SHA384, WPA_KEY_MGMT_FILS_SHA384),
     (CONFIG_FILS C, has key_mgmt WPA_KEY_MGMT_FILS_SHA256, WPA_KEY_MGMT_FILS_SHA256),
     (CONFIG_IEEE80211R C \<and> CONFIG_SHA384 C, has key_mgmt WPA_KEY_MGMT_FT_IEEE8021X_SHA384, WPA_KEY_MGMT_FT_IEEE8021X_SHA384),
     (CONFIG_IEEE80211R C, has key_mgmt WPA_KEY_MGMT_FT_IEEE8021X, WPA_KEY_MGMT_FT_IEEE8021X),
     (CONFIG_IEEE80211R C, has key_mgmt WPA_KEY_MGMT_FT_PSK, WPA_KEY_MGMT_FT_PSK),
     (CONFIG_SHA384 C, has key_mgmt WPA_KEY_MGMT_IEEE8021X_SHA384, WPA_KEY_MGMT_IEEE8021X_SHA384),
     (True, has key_mgmt WPA_KEY_MGMT_IEEE8021X_SHA256, WPA_KEY_MGMT_IEEE8021X_SHA256),
     (True, has key_mgmt WPA_KEY_MGMT_PSK_SHA256, WPA_KEY_MGMT_PSK_SHA256),
     (CONFIG_SAE C, has key_mgmt WPA_KEY_MGMT_SAE, WPA_KEY_MGMT_SAE),
     (CONFIG_SAE C, has key_mgmt WPA_KEY_MGMT_SAE_EXT_KEY, WPA_KEY_MGMT_SAE_EXT_KEY),
     (CONFIG_SAE C, has key_mgmt WPA_KEY_MGMT_FT_SAE, WPA_KEY_MGMT_FT_SAE),
     (CONFIG_SAE C, has key_mgmt WPA_KEY_MGMT_FT_SAE_EXT_KEY, WPA_KEY_MGMT_FT_SAE_EXT_KEY),
     (True, has key_mgmt WPA_KEY_MGMT_IEEE8021X, WPA_KEY_MGMT_IEEE8021X),
     (CONFIG_OWE C, has key_mgmt WPA_KEY_MGMT_OWE, WPA_KEY_MGMT_OWE),
     (CONFIG_DPP C, has key_mgmt WPA_KEY_MGMT_DPP, WPA_KEY_MGMT_DPP)]"
  have sel: "select_akm C off key_mgmt = first_hit cs WPA_KEY_MGMT_PSK" by (simp add: select_akm_def cs_def)
  have mem: "(c, b) \<in> set cs \<Longrightarrow> b \<in> set (selectable C) \<and>
      (c = has key_mgmt b \<or> b = WPA_KEY_MGMT_FT_FILS_SHA256 \<and> c = has off b)" for c b
    unfolding cs_def selectable_def set_compiled
    by (simp only: list.set insert_iff empty_iff prod.inject) (elim disjE; simp)
  have cov: "b \<in> set (selectable C) \<Longrightarrow> b \<noteq> WPA_KEY_MGMT_FT_FILS_SHA256 \<Longrightarrow> (has key_mgmt b, b) \<in> set cs" for b
    unfolding cs_def selectable_def set_compiled
    by (simp only: list.set insert_iff empty_iff prod.inject) (elim disjE; simp)
  from first_hit_cases [of cs WPA_KEY_MGMT_PSK] show ?thesis
  proof (elim disjE conjE)
    assume "(True, first_hit cs WPA_KEY_MGMT_PSK) \<in> set cs"
    from mem [OF this] show ?thesis unfolding sel by auto
  next
    assume *: "first_hit cs WPA_KEY_MGMT_PSK = WPA_KEY_MGMT_PSK" "\<forall>c\<in>set cs. \<not> fst c"
    have "\<not> has key_mgmt b" if "b \<in> set (selectable C)" "b \<noteq> WPA_KEY_MGMT_FT_FILS_SHA256" for b
      using *(2) cov [OF that] by fastforce
    then show ?thesis using *(1) unfolding sel by auto
  qed
qed

text \<open>Offering \<open>FT_FILS_SHA256\<close> is enough to have it selected.\<close>

lemma select_akm_ft_fils:
  assumes "CONFIG_FILS C" "CONFIG_IEEE80211R C" "has off WPA_KEY_MGMT_FT_FILS_SHA256"
    "\<not> has key_mgmt WPA_KEY_MGMT_IEEE8021X_SUITE_B_192" "\<not> has key_mgmt WPA_KEY_MGMT_IEEE8021X_SUITE_B"
    "\<not> has key_mgmt WPA_KEY_MGMT_FT_FILS_SHA384"
  shows "select_akm C off key_mgmt = WPA_KEY_MGMT_FT_FILS_SHA256"
  using assms by (simp add: select_akm_def first_hit_def compiled_def)

lemma pick_pairwise:
  "wpa_pick_pairwise_cipher ciphers False = Some p \<Longrightarrow>
    p \<in> {WPA_CIPHER_GCMP_256, WPA_CIPHER_CCMP_256, WPA_CIPHER_CCMP, WPA_CIPHER_GCMP, WPA_CIPHER_TKIP} \<and> has ciphers p"
  by (auto simp: wpa_pick_pairwise_cipher_def first_set_def has_def split: if_splits)

end
