(* ===== verification/RsnAccept.thy ===== *)
theory RsnAccept
  imports RsnPolicy
begin

text \<open>
  A station that answers an access point's RSN element with the element itself is admitted: the writer of
  \<open>wpa_auth_ie.c\<close>, the parser of \<open>wpa_common.c\<close> and the checks of \<open>wpa_validate_wpa_ie\<close> agree.
\<close>

section \<open>Stages that fall through\<close>

text \<open>From \<open>P\<close> the stage falls through to \<open>Q\<close>.\<close>

abbreviation passes :: "(vstate \<Rightarrow> bool) \<Rightarrow> vstage \<Rightarrow> (vstate \<Rightarrow> bool) \<Rightarrow> bool" where
  "passes P f Q \<equiv> triple P f Q (\<lambda>_. False)"

lemma passesI: "(\<And>s. P s \<Longrightarrow> \<exists>t. f s = Some (Inr t) \<and> Q t) \<Longrightarrow> passes P f Q"
  by (rule tripleI) fastforce

lemma passesD:
  assumes "passes P f Q" "P s"
  obtains t where "f s = Some (Inr t)" "Q t"
proof -
  from tripleD [OF assms] obtain x where "f s = Some x" "ends Q (\<lambda>_. False) x" by blast
  then show thesis using that by (cases x) auto
qed

section \<open>The configuration and the request\<close>

text \<open>
  An RSN network without FT, OWE and DPP, and with TKIP only where management frame protection is off; a station
  that speaks RSN, is not bound to another link, and sends nothing but the element \<open>w\<close>.
\<close>

definition plain_conf :: "build \<Rightarrow> wpa_auth_config \<Rightarrow> bool" where
  "plain_conf C conf \<longleftrightarrow>
    has (conf_wpa conf) (proto_bit WPA_PROTO_RSN) \<and> wpa_cipher_valid_group C (conf_wpa_group conf) \<and>
    conf_wpa_key_mgmt conf AND (WPA_KEY_MGMT_FT OR WPA_KEY_MGMT_OWE OR WPA_KEY_MGMT_DPP) = 0 \<and>
    conf_wpa_key_mgmt conf AND rsn_akm_mask C \<noteq> 0 \<and>
    wpa_pick_pairwise_cipher (conf_rsn_pairwise conf) False \<noteq> None \<and>
    (conf_ieee80211w conf \<noteq> NO_MGMT_FRAME_PROTECTION \<longrightarrow> \<not> has (conf_rsn_pairwise conf) WPA_CIPHER_TKIP) \<and>
    (CONFIG_OCV C \<longrightarrow> conf_ocv conf \<noteq> 0 \<longrightarrow> conf_ocv conf = 2 \<or> conf_ieee80211w conf \<noteq> NO_MGMT_FRAME_PROTECTION)"

definition echo_request :: "bytes \<Rightarrow> assoc_req" where
  "echo_request w = \<lparr>rq_freq = 2412, rq_wpa_ie = Some w, rq_wpa_ie_len = length w, rq_rsnxe = None, rq_rsnxe_len = 0,
     rq_mdie = None, rq_mdie_len = 0, rq_owe_dh = False, rq_assoc_sm = None\<rparr>"

definition plain_station :: "wpa_sm \<Rightarrow> bool" where
  "plain_station m \<longleftrightarrow> \<not> sm_rsn_override m \<and> \<not> sm_rsn_override_2 m \<and> station_ok m"

section \<open>What the element says\<close>

lemma ft_disjoint:
  assumes "km AND WPA_KEY_MGMT_FT = 0" "flag_bit b" "has km b"
  shows "\<not> wpa_key_mgmt_ft b"
proof
  assume "wpa_key_mgmt_ft b"
  then have "WPA_KEY_MGMT_FT AND b = b" using flag_bit_and [OF assms(2), of WPA_KEY_MGMT_FT] by (simp add: wpa_key_mgmt_ft_def and.commute)
  then have "km AND b = (km AND WPA_KEY_MGMT_FT) AND b" by (simp add: and.assoc)
  then show False using assms(1,3) by (simp add: has_def)
qed

lemma selectable_flag: "b \<in> set (selectable C) \<Longrightarrow> flag_bit b"
  unfolding selectable_def set_compiled
  by (simp only: list.set insert_iff empty_iff prod.inject) (elim disjE; simp add: flag_bit_akm)

text \<open>The AKM that is selected is none of those that need more than the element.\<close>

lemma plain_akm:
  assumes "km AND (WPA_KEY_MGMT_FT OR WPA_KEY_MGMT_OWE OR WPA_KEY_MGMT_DPP) = 0"
  shows "\<not> wpa_key_mgmt_ft (select_akm C km km)" "select_akm C km km \<noteq> WPA_KEY_MGMT_OWE" "select_akm C km km \<noteq> WPA_KEY_MGMT_DPP"
proof -
  have z: "km AND WPA_KEY_MGMT_FT = 0" "\<not> has km WPA_KEY_MGMT_OWE" "\<not> has km WPA_KEY_MGMT_DPP"
    using assms by (auto simp: has_def bit.conj_disj_distrib or_eq_0_iff)
  have ftf: "flag_bit WPA_KEY_MGMT_FT_FILS_SHA256" "wpa_key_mgmt_ft WPA_KEY_MGMT_FT_FILS_SHA256"
    by (simp_all add: flag_bit_akm) (simp add: akm_defs wpa_key_mgmt_ft_def WPA_KEY_MGMT_FT_def)
  have psk: "\<not> wpa_key_mgmt_ft WPA_KEY_MGMT_PSK" "WPA_KEY_MGMT_PSK \<noteq> WPA_KEY_MGMT_OWE" "WPA_KEY_MGMT_PSK \<noteq> WPA_KEY_MGMT_DPP"
    by (simp_all add: akm_defs wpa_key_mgmt_ft_def WPA_KEY_MGMT_FT_def)
  show "\<not> wpa_key_mgmt_ft (select_akm C km km)" "select_akm C km km \<noteq> WPA_KEY_MGMT_OWE" "select_akm C km km \<noteq> WPA_KEY_MGMT_DPP"
    using select_akm_cases [of km C km] z psk ft_disjoint [OF z(1)] selectable_flag ftf by metis+
qed

lemma or_if:
  "(if c then x OR k else x :: u16) = x OR (if c then k else 0)"
  "(if c then (x OR k) OR l else x :: u16) = x OR (if c then k OR l else 0)"
  by (simp_all add: or.assoc)

lemma own_caps:
  "wpa_own_rsn_capab C conf mfp AND WPA_CAPABILITY_MFPC \<noteq> 0 \<longleftrightarrow> mfp \<noteq> NO_MGMT_FRAME_PROTECTION"
  "wpa_own_rsn_capab C conf mfp AND WPA_CAPABILITY_OCVC \<noteq> 0 \<longleftrightarrow> CONFIG_OCV C \<and> conf_ocv conf \<noteq> 0"
proof -
  have b: "x AND WPA_CAPABILITY_MFPC \<noteq> 0 \<longleftrightarrow> bit x 7" "x AND WPA_CAPABILITY_OCVC \<noteq> 0 \<longleftrightarrow> bit x 14" for x
    using and_exp_eq_0_iff_not_bit [of x 7] and_exp_eq_0_iff_not_bit [of x 14]
    by (simp_all add: WPA_CAPABILITY_MFPC_def WPA_CAPABILITY_OCVC_def)
  have k: "bit WPA_CAPABILITY_PREAUTH 7 = False" "bit (push_bit 2 RSN_NUM_REPLAY_COUNTERS_16) 7 = False" "bit WPA_CAPABILITY_MFPC 7"
    "bit WPA_CAPABILITY_OCVC 7 = False" "bit WPA_CAPABILITY_EXT_KEY_ID_FOR_UNICAST 7 = False" "bit WPA_CAPABILITY_MFPR 7 = False"
    "bit WPA_CAPABILITY_PREAUTH 14 = False" "bit (push_bit 2 RSN_NUM_REPLAY_COUNTERS_16) 14 = False" "bit WPA_CAPABILITY_MFPC 14 = False"
    "bit WPA_CAPABILITY_OCVC 14" "bit WPA_CAPABILITY_EXT_KEY_ID_FOR_UNICAST 14 = False" "bit WPA_CAPABILITY_MFPR 14 = False"
    unfolding WPA_CAPABILITY_MFPC_def WPA_CAPABILITY_OCVC_def WPA_CAPABILITY_MFPR_def
      WPA_CAPABILITY_PREAUTH_def RSN_NUM_REPLAY_COUNTERS_16_def WPA_CAPABILITY_EXT_KEY_ID_FOR_UNICAST_def
    by simp_all
  show "wpa_own_rsn_capab C conf mfp AND WPA_CAPABILITY_MFPC \<noteq> 0 \<longleftrightarrow> mfp \<noteq> NO_MGMT_FRAME_PROTECTION"
    "wpa_own_rsn_capab C conf mfp AND WPA_CAPABILITY_OCVC \<noteq> 0 \<longleftrightarrow> CONFIG_OCV C \<and> conf_ocv conf \<noteq> 0"
    by (auto simp: b wpa_own_rsn_capab_def or_if Let_def bit_or_iff k)
qed

lemma pick_mask: "wpa_pick_pairwise_cipher ((x AND rsn_pairwise_mask) AND x) False = wpa_pick_pairwise_cipher x False"
proof -
  have "((x AND rsn_pairwise_mask) AND x) AND b = x AND b"
    if "b \<in> {WPA_CIPHER_GCMP_256, WPA_CIPHER_CCMP_256, WPA_CIPHER_CCMP, WPA_CIPHER_GCMP, WPA_CIPHER_TKIP}" for b
  proof -
    have "rsn_pairwise_mask AND b = b" using that by (elim insertE emptyE; simp add: rsn_pairwise_mask_def cipher_defs)
    moreover have "((x AND rsn_pairwise_mask) AND x) AND b = (x AND x) AND (rsn_pairwise_mask AND b)" by (simp only: ac_simps)
    ultimately show ?thesis by simp
  qed
  then show ?thesis by (simp add: wpa_pick_pairwise_cipher_def first_set_def)
qed

section \<open>Through the stages\<close>

text \<open>The data of an element that the access point itself has written.\<close>

definition echo_data :: "build \<Rightarrow> wpa_auth_config \<Rightarrow> wpa_ie_data \<Rightarrow> bool" where
  "echo_data C cf d \<longleftrightarrow> plain_conf C cf \<and> reads_as C d (conf_wpa_group cf) (conf_rsn_pairwise cf) (conf_wpa_key_mgmt cf)
     (wpa_own_rsn_capab C cf (conf_ieee80211w cf)) None (conf_ieee80211w cf) (conf_group_mgmt_cipher cf)"

definition echo_akm :: "build \<Rightarrow> wpa_auth_config \<Rightarrow> u32" where
  "echo_akm C cf = conf_wpa_key_mgmt cf AND rsn_akm_mask C"

definition echo_ciphers :: "wpa_auth_config \<Rightarrow> u32" where
  "echo_ciphers cf = (conf_rsn_pairwise cf AND rsn_pairwise_mask) AND conf_rsn_pairwise cf"

text \<open>The states after parsing, after the choice of the AKM and after the choice of the ciphers.\<close>

definition parsed :: "wpa_auth_config \<Rightarrow> wpa_ie_data \<Rightarrow> vstate \<Rightarrow> bool" where
  "parsed cf d s \<longleftrightarrow> v_data s = d \<and> v_version s = WPA_PROTO_RSN \<and> v_conf s = cf \<and> plain_station (v_sm s)"

definition chosen :: "build \<Rightarrow> wpa_auth_config \<Rightarrow> wpa_ie_data \<Rightarrow> vstate \<Rightarrow> bool" where
  "chosen C cf d s \<longleftrightarrow> parsed cf d s \<and> sm_wpa_key_mgmt (v_sm s) = select_akm C (echo_akm C cf) (echo_akm C cf)"

definition on_track :: "build \<Rightarrow> wpa_auth_config \<Rightarrow> wpa_ie_data \<Rightarrow> vstate \<Rightarrow> bool" where
  "on_track C cf d s \<longleftrightarrow> chosen C cf d s \<and> v_ciphers s = echo_ciphers cf"

lemmas track_defs = on_track_def chosen_def parsed_def

lemma trackD:
  assumes "on_track C cf d s"
  shows "v_data s = d" "v_version s = WPA_PROTO_RSN" "v_conf s = cf" "\<not> sm_rsn_override (v_sm s)" "\<not> sm_rsn_override_2 (v_sm s)"
    "sm_wpa_key_mgmt (v_sm s) = select_akm C (echo_akm C cf) (echo_akm C cf)" "v_ciphers s = echo_ciphers cf"
    "station_ok (v_sm s)"
  using assms by (simp_all add: track_defs plain_station_def)

lemma track_set_sm:
  "on_track C cf d s \<Longrightarrow> (\<And>m. plain_station m \<Longrightarrow> plain_station (f m)) \<Longrightarrow> (\<And>m. sm_wpa_key_mgmt (f m) = sm_wpa_key_mgmt m) \<Longrightarrow>
    on_track C cf d (set_sm f s)"
  by (simp add: track_defs set_sm_def)

lemma akm_plain:
  assumes "echo_data C cf d"
  shows "\<not> wpa_key_mgmt_ft (select_akm C (echo_akm C cf) (echo_akm C cf))"
    "select_akm C (echo_akm C cf) (echo_akm C cf) \<noteq> WPA_KEY_MGMT_OWE"
    "select_akm C (echo_akm C cf) (echo_akm C cf) \<noteq> WPA_KEY_MGMT_DPP"
    "\<not> wpa_key_mgmt_ft (echo_akm C cf)" "echo_akm C cf \<noteq> 0" "echo_akm C cf AND conf_wpa_key_mgmt cf = echo_akm C cf"
proof -
  have c: "conf_wpa_key_mgmt cf AND (WPA_KEY_MGMT_FT OR WPA_KEY_MGMT_OWE OR WPA_KEY_MGMT_DPP) = 0" "echo_akm C cf \<noteq> 0"
    using assms by (simp_all add: echo_data_def plain_conf_def echo_akm_def)
  then have km0: "echo_akm C cf AND (WPA_KEY_MGMT_FT OR WPA_KEY_MGMT_OWE OR WPA_KEY_MGMT_DPP) = 0"
    unfolding echo_akm_def by (metis and.assoc and.commute and_zero_eq)
  then have "echo_akm C cf AND WPA_KEY_MGMT_FT = 0" by (simp add: bit.conj_disj_distrib or_eq_0_iff)
  then show "\<not> wpa_key_mgmt_ft (echo_akm C cf)" by (simp add: wpa_key_mgmt_ft_def)
  show "echo_akm C cf AND conf_wpa_key_mgmt cf = echo_akm C cf"
    unfolding echo_akm_def by (metis and.assoc and.commute and.idem)
  show "\<not> wpa_key_mgmt_ft (select_akm C (echo_akm C cf) (echo_akm C cf))"
    "select_akm C (echo_akm C cf) (echo_akm C cf) \<noteq> WPA_KEY_MGMT_OWE"
    "select_akm C (echo_akm C cf) (echo_akm C cf) \<noteq> WPA_KEY_MGMT_DPP" "echo_akm C cf \<noteq> 0"
    using c(2) plain_akm [OF km0] by blast+
qed

lemma echo_caps:
  assumes "echo_data C cf d" "on_track C cf d s"
  shows "cap_set s WPA_CAPABILITY_MFPC \<longleftrightarrow> conf_ieee80211w cf \<noteq> NO_MGMT_FRAME_PROTECTION"
    "cap_set s WPA_CAPABILITY_OCVC \<longleftrightarrow> CONFIG_OCV C \<and> conf_ocv cf \<noteq> 0"
  using assms own_caps [of C cf] trackD(1) [OF assms(2)] by (simp_all add: cap_set_def reads_as_def echo_data_def)

lemma echo_tkip: "echo_data C cf d \<Longrightarrow> \<not> (conf_ieee80211w cf \<noteq> NO_MGMT_FRAME_PROTECTION \<and> has (echo_ciphers cf) WPA_CIPHER_TKIP)"
  by (auto simp: echo_data_def plain_conf_def echo_ciphers_def has_def and.assoc)

lemma echo_pick: "echo_data C cf d \<Longrightarrow> wpa_pick_pairwise_cipher (echo_ciphers cf) False \<noteq> None"
  unfolding echo_ciphers_def pick_mask by (simp add: echo_data_def plain_conf_def)

lemma echo_num: "echo_data C cf d \<Longrightarrow> ie_num_pmkid d = 0"
  by (simp add: echo_data_def reads_as_def)

text \<open>Parsing and choosing.\<close>

lemma pass_parse:
  assumes d: "echo_data C cf d" and w: "wpa_parse_wpa_ie_rsn C w (length w) = Some (0, d)" "w = WLAN_EID_RSN # r"
  shows "passes (\<lambda>s. v_conf s = cf \<and> plain_station (v_sm s)) (stages [v_proto (echo_request w), v_parse C (echo_request w), v_parsed])
    (parsed cf d)"
proof -
  have adj: "rsn_adjust freq mdie d = d" for freq mdie
    using d akm_plain(4) [OF d] by (simp add: rsn_adjust_def echo_data_def reads_as_def echo_akm_def)
  have rsn: "has (conf_wpa cf) (proto_bit WPA_PROTO_RSN)" using d by (simp add: echo_data_def plain_conf_def)
  have "passes (\<lambda>s. v_conf s = cf \<and> plain_station (v_sm s)) (v_proto (echo_request w))
      (\<lambda>s. v_conf s = cf \<and> plain_station (v_sm s) \<and> v_version s = WPA_PROTO_RSN)"
    by (rule passesI) (simp add: v_proto_def echo_request_def reject_def w(2) rsn)
  moreover have "passes (\<lambda>s. v_conf s = cf \<and> plain_station (v_sm s) \<and> v_version s = WPA_PROTO_RSN) (v_parse C (echo_request w))
      (\<lambda>s. parsed cf d s \<and> v_res s = 0)"
    by (rule passesI) (simp add: v_parse_def echo_request_def w(1) adj Let_def select_suites_def parsed_def)
  moreover have "passes (\<lambda>s. parsed cf d s \<and> v_res s = 0) v_parsed (parsed cf d)"
    by (rule passesI) (simp add: v_parsed_def)
  ultimately show ?thesis by (rule triple_Cons [OF _ triple_Cons [OF _ triple_Cons [OF _ triple_Nil]]])
qed

lemma pass_choose:
  assumes d: "echo_data C cf d"
  shows "passes (parsed cf d) (stages [v_group, v_akm C, v_pairwise]) (on_track C cf d)"
proof -
  have "passes (parsed cf d) v_group (parsed cf d)"
    by (rule passesI) (use d in \<open>simp add: v_group_def parsed_def echo_data_def reads_as_def\<close>)
  moreover have "passes (parsed cf d) (v_akm C) (chosen C cf d)"
  proof (rule passesI)
    fix s
    assume s: "parsed cf d s"
    then have "own_key_mgmt (v_conf s) (v_sm s) = conf_wpa_key_mgmt cf" "ie_key_mgmt (v_data s) = echo_akm C cf"
      using d by (simp_all add: own_key_mgmt_def parsed_def plain_station_def echo_data_def reads_as_def echo_akm_def)
    then show "\<exists>t. v_akm C s = Some (Inr t) \<and> chosen C cf d t"
      using s akm_plain(5,6) [OF d]
      by (simp add: v_akm_def Let_def chosen_def parsed_def set_sm_def plain_station_def station_ok_def)
  qed
  moreover have "passes (chosen C cf d) v_pairwise (on_track C cf d)"
  proof (rule passesI)
    fix s
    assume s: "chosen C cf d s"
    then have "own_pairwise (v_version s) (v_conf s) (v_sm s) = conf_rsn_pairwise cf"
      "ie_pairwise_cipher (v_data s) = conf_rsn_pairwise cf AND rsn_pairwise_mask"
      using d by (simp_all add: own_pairwise_def chosen_def parsed_def plain_station_def echo_data_def reads_as_def)
    moreover have "echo_ciphers cf \<noteq> 0" using echo_pick [OF d] by (auto simp: wpa_pick_pairwise_cipher_def first_set_def)
    ultimately show "\<exists>t. v_pairwise s = Some (Inr t) \<and> on_track C cf d t"
      using s by (simp add: v_pairwise_def on_track_def chosen_def parsed_def echo_ciphers_def)
  qed
  ultimately show ?thesis by (rule triple_Cons [OF _ triple_Cons [OF _ triple_Cons [OF _ triple_Nil]]])
qed

text \<open>The checks, one by one.\<close>

lemma pass_mfp_required: "echo_data C cf d \<Longrightarrow> passes (on_track C cf d) v_mfp_required (on_track C cf d)"
  by (rule passesI) (auto simp: v_mfp_required_def trackD echo_caps reject_def reads_as_def echo_data_def)

lemma pass_sae_mfp: "echo_data C cf d \<Longrightarrow> passes (on_track C cf d) (v_sae_mfp C) (on_track C cf d)"
  by (rule passesI) (auto simp: v_sae_mfp_def reject_def trackD echo_caps)

lemma pass_ocv:
  assumes "echo_data C cf d"
  shows "passes (on_track C cf d) (v_ocv C) (on_track C cf d)"
proof (rule passesI)
  fix s
  assume s: "on_track C cf d s"
  have "CONFIG_OCV C \<longrightarrow> conf_ocv cf \<noteq> 0 \<longrightarrow> conf_ocv cf = 2 \<or> conf_ieee80211w cf \<noteq> NO_MGMT_FRAME_PROTECTION"
    using assms by (simp add: echo_data_def plain_conf_def)
  moreover have "on_track C cf d (set_sm (wpa_auth_set_ocv n) s)" for n
    using s by (rule track_set_sm) (simp_all add: wpa_auth_set_ocv_def plain_station_def station_ok_def)
  ultimately show "\<exists>t. v_ocv C s = Some (Inr t) \<and> on_track C cf d t"
    using s by (auto simp: v_ocv_def trackD [OF s] echo_caps [OF assms s])
qed

lemma pass_mfp:
  assumes "echo_data C cf d"
  shows "passes (on_track C cf d) v_mfp (on_track C cf d)"
proof (rule passesI)
  fix s
  assume s: "on_track C cf d s"
  have "\<not> (own_mfp cf (v_sm s) \<noteq> NO_MGMT_FRAME_PROTECTION \<and> has (echo_ciphers cf) WPA_CIPHER_TKIP)"
    using echo_tkip [OF assms] trackD [OF s] by (simp add: own_mfp_def)
  moreover have "on_track C cf d (set_sm (\<lambda>m. m\<lparr>sm_mgmt_frame_prot := b, sm_mfpr := c\<rparr>) s)" for b c
    using s by (rule track_set_sm) (simp_all add: plain_station_def station_ok_def)
  ultimately show "\<exists>t. v_mfp s = Some (Inr t) \<and> on_track C cf d t"
    using trackD [OF s] by (auto simp: v_mfp_def Let_def reject_def set_sm_def)
qed

lemma pass_spp: "passes (on_track C cf d) (v_spp (echo_request w)) (on_track C cf d)"
  by (rule passesI)
    (auto simp: v_spp_def echo_request_def ieee802_11_rsnx_capab_def plain_station_def station_ok_def intro!: track_set_sm)

lemma pass_akm_checks:
  assumes "echo_data C cf d"
  shows "passes (on_track C cf d) (v_mdie C (echo_request w)) (on_track C cf d)"
    "passes (on_track C cf d) (v_owe C (echo_request w)) (on_track C cf d)"
    "passes (on_track C cf d) (v_dpp C (echo_request w)) (on_track C cf d)"
    "passes (on_track C cf d) (v_fils C) (on_track C cf d)"
    "passes (on_track C cf d) (v_dpp_pmksa C) (on_track C cf d)"
proof -
  have ftf: "wpa_key_mgmt_ft WPA_KEY_MGMT_FT_FILS_SHA256" "wpa_key_mgmt_ft WPA_KEY_MGMT_FT_FILS_SHA384"
    by (simp_all add: akm_defs wpa_key_mgmt_ft_def WPA_KEY_MGMT_FT_def)
  then have nf: "select_akm C (echo_akm C cf) (echo_akm C cf) \<noteq> WPA_KEY_MGMT_FT_FILS_SHA256"
    "select_akm C (echo_akm C cf) (echo_akm C cf) \<noteq> WPA_KEY_MGMT_FT_FILS_SHA384"
    using akm_plain(1) [OF assms] by metis+
  show "passes (on_track C cf d) (v_mdie C (echo_request w)) (on_track C cf d)"
    "passes (on_track C cf d) (v_owe C (echo_request w)) (on_track C cf d)"
    "passes (on_track C cf d) (v_dpp C (echo_request w)) (on_track C cf d)"
    "passes (on_track C cf d) (v_fils C) (on_track C cf d)"
    "passes (on_track C cf d) (v_dpp_pmksa C) (on_track C cf d)"
    by (rule passesI; simp add: v_mdie_def v_owe_def v_dpp_def v_fils_def v_dpp_pmksa_def echo_request_def trackD nf
        akm_plain(1-3) [OF assms])+
qed

lemma pass_pick:
  assumes "echo_data C cf d"
  shows "passes (on_track C cf d) v_pick (on_track C cf d)"
proof (rule passesI)
  fix s
  assume s: "on_track C cf d s"
  have "on_track C cf d (set_sm (\<lambda>m. m\<lparr>sm_pairwise := p\<rparr>) s)" for p
    using s by (rule track_set_sm) (simp_all add: plain_station_def station_ok_def)
  then show "\<exists>t. v_pick s = Some (Inr t) \<and> on_track C cf d t"
    using trackD [OF s] echo_pick [OF assms] by (simp add: v_pick_def Let_def reject_def) (simp add: set_sm_def)
qed

lemma pass_rest:
  assumes "echo_data C cf d"
  shows "passes (on_track C cf d) (v_link (echo_request w)) (on_track C cf d)"
    "passes (on_track C cf d) v_pmksa (on_track C cf d)" "passes (on_track C cf d) (v_okc ev) (on_track C cf d)"
    "passes (on_track C cf d) v_pmkid_used (on_track C cf d)" "passes (on_track C cf d) (v_sae_pmksa C ev) (on_track C cf d)"
    "passes (on_track C cf d) v_ext_key_id (on_track C cf d)"
    "passes (on_track C cf d) (v_store_rsnxe ev (echo_request w)) (on_track C cf d)"
  by (rule passesI; auto simp: v_link_def v_pmksa_def v_okc_def v_pmkid_used_def v_sae_pmksa_def v_ext_key_id_def
      v_store_rsnxe_def echo_request_def Let_def trackD echo_num [OF assms] plain_station_def station_ok_def
      intro!: track_set_sm split: option.split; simp add: track_defs)+

lemma pass_store:
  assumes "ev_alloc_ie ev"
  shows "passes (on_track C cf d) (v_store_ie ev (echo_request w)) (on_track C cf d)"
proof (rule passesI)
  fix s
  assume s: "on_track C cf d s"
  obtain x where x: "store_element True (sm_wpa_ie (v_sm s)) (sm_wpa_ie_len (v_sm s)) w (length w) = Some x"
    "\<forall>b. x = Inr b \<longrightarrow> length w \<le> length b"
    using store_element_in [of "length w" w "sm_wpa_ie (v_sm s)" "sm_wpa_ie_len (v_sm s)" True] trackD(8) [OF s]
    by (auto simp: station_ok_def)
  then obtain b where b: "x = Inr b" by (auto simp: store_element_def split: if_splits)
  have "on_track C cf d (set_sm (\<lambda>m. m\<lparr>sm_wpa_ie := Some b, sm_wpa_ie_len := length w\<rparr>) s)"
    using s x(2) b by (intro track_set_sm) (simp_all add: plain_station_def station_ok_def)
  then show "\<exists>t. v_store_ie ev (echo_request w) s = Some (Inr t) \<and> on_track C cf d t"
    using x(1) assms b by (simp add: v_store_ie_def echo_request_def)
qed

lemma echo_accepted:
  assumes conf: "plain_conf C (au_conf au)" and m: "plain_station m" and ev: "ev_alloc_ie ev"
    and w: "wpa_write_rsn_ie C (au_conf au) len None = Ok w"
  shows "\<exists>au' m'. validate_ie C ev (echo_request w) au m = Some (WPA_IE_OK, au', m')"
proof -
  define cf where "cf = au_conf au"
  obtain b where b: "rsne_body C (conf_wpa_group cf) (conf_rsn_pairwise cf) (conf_wpa_key_mgmt cf)
      (wpa_own_rsn_capab C cf (conf_ieee80211w cf)) None (conf_ieee80211w cf) (conf_group_mgmt_cipher cf) = Some b"
    "w = [WLAN_EID_RSN, of_nat (2 + length b)] @ WPA_PUT_LE16 RSN_VERSION @ b"
    using write_rsn_ie_Ok [OF w] unfolding cf_def by blast
  have "wpa_cipher_valid_group C (conf_wpa_group cf)" using conf by (simp add: plain_conf_def cf_def)
  from parse_rsn_body [OF b(1) this _ b(2), of "[]"] obtain d where
    d: "wpa_parse_wpa_ie_rsn C w (length w) = Some (0, d)" "echo_data C cf d" using conf by (auto simp: echo_data_def cf_def)
  note track = pass_mfp_required [OF d(2)] pass_sae_mfp [OF d(2)] pass_ocv [OF d(2)] pass_mfp [OF d(2)] pass_spp
    pass_akm_checks [OF d(2)] pass_pick [OF d(2)] pass_rest [OF d(2)] pass_store [OF ev]
  have "passes (on_track C cf d) (stages ([v_mfp_required, v_sae_mfp C, v_ocv C, v_mfp, v_spp (echo_request w),
      v_mdie C (echo_request w), v_owe C (echo_request w), v_dpp C (echo_request w), v_pick, v_link (echo_request w), v_fils C] @
      commit_stages C ev (echo_request w))) (on_track C cf d)"
    by (rule triple_all) (auto simp: commit_stages_def track)
  from triple_append [OF pass_parse [OF d(2,1), of "tl w"] triple_append [OF pass_choose [OF d(2)] this]]
  have "passes (\<lambda>s. v_conf s = cf \<and> plain_station (v_sm s)) (stages (check_stages C (echo_request w) @
      commit_stages C ev (echo_request w))) (on_track C cf d)"
    using b(2) by (simp add: check_stages_def)
  from tripleD [OF this, of "v_init au m"] m obtain x where
    "stages (check_stages C (echo_request w) @ commit_stages C ev (echo_request w)) (v_init au m) = Some x"
    "ends (on_track C cf d) (\<lambda>_. False) x" by (auto simp: v_init_def cf_def)
  then show ?thesis by (cases x) (auto simp: validate_ie_def)
qed

text \<open>What the admission reads in the element, and what it then settles.\<close>

lemma echo_read:
  assumes conf: "plain_conf C cf" and w: "wpa_write_rsn_ie C cf len None = Ok w"
  shows "\<exists>d. read_element C (echo_request w) = Some (WPA_PROTO_RSN, d) \<and> echo_data C cf d"
proof -
  obtain b where b: "rsne_body C (conf_wpa_group cf) (conf_rsn_pairwise cf) (conf_wpa_key_mgmt cf)
      (wpa_own_rsn_capab C cf (conf_ieee80211w cf)) None (conf_ieee80211w cf) (conf_group_mgmt_cipher cf) = Some b"
    "w = [WLAN_EID_RSN, of_nat (2 + length b)] @ WPA_PUT_LE16 RSN_VERSION @ b"
    using write_rsn_ie_Ok [OF w] by blast
  have "wpa_cipher_valid_group C (conf_wpa_group cf)" using conf by (simp add: plain_conf_def)
  from parse_rsn_body [OF b(1) this _ b(2), of "[]"] obtain d where
    d: "wpa_parse_wpa_ie_rsn C w (length w) = Some (0, d)" "echo_data C cf d" using conf by (auto simp: echo_data_def)
  moreover have "rsn_adjust freq mdie d = d" for freq mdie
    using d(2) akm_plain(4) [OF d(2)] by (simp add: rsn_adjust_def echo_data_def reads_as_def echo_akm_def)
  moreover obtain r where "w = WLAN_EID_RSN # r" using b(2) by simp
  ultimately show ?thesis by (simp add: read_element_def echo_request_def)
qed

lemma echo_agreed:
  assumes ok: "validate_ie C ev (echo_request w) au m = Some (WPA_IE_OK, au', m')" and conf: "plain_conf C (au_conf au)"
    and m: "plain_station m" and w: "wpa_write_rsn_ie C (au_conf au) len None = Ok w"
  shows "sm_pairwise m' = wpa_pick_pairwise_cipher (conf_rsn_pairwise (au_conf au)) False \<and>
    (sm_mgmt_frame_prot m' \<longleftrightarrow> conf_ieee80211w (au_conf au) \<noteq> NO_MGMT_FRAME_PROTECTION) \<and> sm_wpa m' = WPA_VERSION_WPA2 \<and>
    sm_wpa_key_mgmt m' = select_akm C (echo_akm C (au_conf au)) (echo_akm C (au_conf au))"
proof -
  define cf where "cf = au_conf au"
  obtain d where d: "read_element C (echo_request w) = Some (WPA_PROTO_RSN, d)" "echo_data C cf d"
    using echo_read [OF conf w] unfolding cf_def by blast
  have r: "ie_pairwise_cipher d = conf_rsn_pairwise cf AND rsn_pairwise_mask" "ie_key_mgmt d = echo_akm C cf"
    "ie_capabilities d = wpa_own_rsn_capab C cf (conf_ieee80211w cf)"
    using d(2) by (simp_all add: echo_data_def reads_as_def echo_akm_def)
  have own: "own_pairwise WPA_PROTO_RSN cf m = conf_rsn_pairwise cf" "own_mfp cf m = conf_ieee80211w cf"
    "own_key_mgmt cf m = conf_wpa_key_mgmt cf"
    using m by (simp_all add: own_pairwise_def own_mfp_def own_key_mgmt_def plain_station_def)
  have "agreed C (echo_request w) cf m WPA_PROTO_RSN d m'" using validate_OK [OF ok] d(1) by (auto simp: cf_def)
  then show ?thesis unfolding cf_def [symmetric]
    by (simp add: agreed_def r own pick_mask own_caps akm_plain(6) [OF d(2)])
qed

end
