(* ===== verification/RsnProps.thy ===== *)
theory RsnProps
  imports RsnAccept
begin

text \<open>
  The properties of the element code that span its theories: parsing in bounds, round trips, the bounds of the own
  elements, insertion of a PMKID, and what admission of a station guarantees; with a sample network.
\<close>

section \<open>A sample network\<close>

definition rsn_build :: build where
  "rsn_build = \<lparr>CONFIG_IEEE80211R = True, CONFIG_SHA384 = True, CONFIG_SAE = True, CONFIG_FILS = True, CONFIG_OWE = True,
     CONFIG_DPP = True, CONFIG_DPP2 = True, CONFIG_PASN = True, CONFIG_OCV = True, CONFIG_SAE_PK = True,
     CONFIG_NO_TKIP = False\<rparr>"

text \<open>WPA2 and WPA3 personal with optional management frame protection by BIP-GMAC-128, in the mobility domain a1b2.\<close>

definition rsn_conf :: wpa_auth_config where
  "rsn_conf = \<lparr>conf_wpa = 2, conf_extended_key_id = 0, conf_wpa_key_mgmt = WPA_KEY_MGMT_PSK OR WPA_KEY_MGMT_SAE,
     conf_rsn_override_key_mgmt = WPA_KEY_MGMT_SAE, conf_rsn_override_key_mgmt_2 = WPA_KEY_MGMT_SAE_EXT_KEY,
     conf_wpa_pairwise = 0, conf_wpa_group = WPA_CIPHER_CCMP, conf_rsn_pairwise = WPA_CIPHER_CCMP,
     conf_rsn_override_pairwise = WPA_CIPHER_CCMP, conf_rsn_override_pairwise_2 = WPA_CIPHER_GCMP_256,
     conf_rsn_preauth = False, conf_wmm_enabled = True, conf_okc = False, conf_ieee80211w = MGMT_FRAME_PROTECTION_OPTIONAL,
     conf_rsn_override_mfp = MGMT_FRAME_PROTECTION_REQUIRED, conf_rsn_override_mfp_2 = MGMT_FRAME_PROTECTION_REQUIRED,
     conf_group_mgmt_cipher = WPA_CIPHER_BIP_GMAC_128, conf_sae_require_mfp = True, conf_ocv = 0,
     conf_mobility_domain = [0xa1, 0xb2], conf_ft_over_ds = False, conf_sae_pwe = SAE_PWE_BOTH, conf_sae_pk = False,
     conf_secure_ltf = False, conf_secure_rtt = False, conf_prot_range_neg = False, conf_ssid_protection = True,
     conf_spp_amsdu = False, conf_rsn_override_omit_rsnxe = False, conf_dpp_pfs = 0\<rparr>"

definition rsn_au :: wpa_authenticator where
  "rsn_au = \<lparr>au_conf = rsn_conf, au_addr = [2, 0, 0, 0, 0, 0], au_cache = pmksa_cache_auth_init, au_suite_selected = 0,
     au_pairwise_selected = 0, au_group_selected = 0, au_pmkid_used = replicate 16 0\<rparr>"

definition rsn_sm :: wpa_sm where
  "rsn_sm = \<lparr>sm_addr = [2, 0, 0, 0, 0, 1], sm_p2p_dev_addr = replicate 6 0, sm_rsn_override = False,
     sm_rsn_override_2 = False, sm_auth_alg = 0, sm_pmk_r1_name_valid = False, sm_pmk_r1_name = replicate 16 0,
     sm_wpa_key_mgmt = 0, sm_pairwise = None, sm_wpa = WPA_VERSION_NO_WPA, sm_mgmt_frame_prot = False, sm_mfpr = False,
     sm_spp_amsdu = False, sm_ocv_enabled = 0, sm_pmksa = None, sm_use_ext_key_id = False, sm_keyidx_active = 0,
     sm_wpa_ie = None, sm_wpa_ie_len = 0, sm_rsnxe = None, sm_rsnxe_len = 0\<rparr>"

definition rsn_ev :: environment where
  "rsn_ev = \<lparr>ev_hm = sample_hm, ev_now = 100, ev_fresh = Some 0, ev_alloc_ie = True, ev_alloc_rsnxe = True,
     ev_sae_offload = False, ev_auths = [pmksa_cache_auth_init]\<rparr>"

text \<open>The element the sample access point writes, without and with a PMKID.\<close>

definition rsn_element :: bytes where
  "rsn_element = [48, 30, 1, 0, 0, 0xf, 0xac, 4, 1, 0, 0, 0xf, 0xac, 4, 2, 0, 0, 0xf, 0xac, 2, 0, 0xf, 0xac, 8,
     0x8c, 0, 0, 0, 0, 0xf, 0xac, 11]"

section \<open>Reading and writing elements\<close>

text \<open>
  C12: The element parsers stay inside their buffer: whatever the bytes are, wpa_parse_wpa_ie_rsn,
  wpa_parse_wpa_ie_wpa and wpa_compare_rsn_ie return when the given lengths are those of the buffers (no read past
  the end), the parsers with 0 or a negative error code, and the PMKID pointer they leave in the data is followed by
  the num_pmkid * 16 bytes the callers read from it.
\<close>
theorem rsn_parse_in_bounds:
  assumes "len \<le> length ie" "len2 \<le> length ie2"
  shows "(\<exists>r d. wpa_parse_wpa_ie_rsn C ie len = Some (r, d) \<and> r \<le> 0 \<and> pmkids_in d) \<and>
    (\<exists>r d. wpa_parse_wpa_ie_wpa ie len = Some (r, d) \<and> r \<le> 0 \<and> pmkids_in d) \<and>
    (\<exists>r. wpa_compare_rsn_ie C ft (Some ie) len (Some ie2) len2 = Some r \<and> r \<in> {0, -1})"
proof -
  obtain r1 d1 r2 d2 where "wpa_parse_wpa_ie_rsn C ie len = Some (r1, d1)" "wpa_parse_wpa_ie_rsn C ie2 len2 = Some (r2, d2)"
    using parse_rsn_in [OF assms(1), of C] parse_rsn_in [OF assms(2), of C] by blast
  then have "\<exists>r. wpa_compare_rsn_ie C ft (Some ie) len (Some ie2) len2 = Some r \<and> r \<in> {0, -1}"
    by (simp add: wpa_compare_rsn_ie_def)
  then show ?thesis using parse_rsn_in [OF assms(1)] parse_wpa_in [OF assms(1)] by blast
qed

theorem rsn_parse_in_bounds_witness:
  "(\<exists>r d. wpa_parse_wpa_ie_rsn rsn_build [48, 2, 1, 0] 4 = Some (r, d) \<and> r \<le> 0 \<and> pmkids_in d) \<and>
    (\<exists>r d. wpa_parse_wpa_ie_wpa [48, 2, 1, 0] 4 = Some (r, d) \<and> r \<le> 0 \<and> pmkids_in d) \<and>
    (\<exists>r. wpa_compare_rsn_ie rsn_build True (Some [48, 2, 1, 0]) 4 (Some rsn_element) 32 = Some r \<and> r \<in> {0, -1})"
  by (rule rsn_parse_in_bounds) (simp_all add: rsn_element_def)

text \<open>
  C11: What the writers of the RSN element and of the two overriding elements write, the parser reads back, with any
  bytes after it in the buffer: group cipher, the pairwise ciphers and AKMs the code has selectors for, the
  capabilities, the PMKID and the management group cipher are those of the configuration.
\<close>
theorem rsn_elements_roundtrip:
  assumes grp: "wpa_cipher_valid_group C (conf_wpa_group conf)" and pid: "\<And>p. pid = Some p \<Longrightarrow> length p = 16"
  shows "(wpa_write_rsn_ie C conf len pid = Ok w \<longrightarrow> (\<exists>d. wpa_parse_wpa_ie_rsn C (w @ r) (length w) = Some (0, d) \<and>
      reads_as C d (conf_wpa_group conf) (conf_rsn_pairwise conf) (conf_wpa_key_mgmt conf)
        (wpa_own_rsn_capab C conf (conf_ieee80211w conf)) pid (conf_ieee80211w conf) (conf_group_mgmt_cipher conf))) \<and>
    (wpa_write_rsne_override C conf len = Ok w \<longrightarrow> (\<exists>d. wpa_parse_wpa_ie_rsn C (w @ r) (length w) = Some (0, d) \<and>
      reads_as C d (conf_wpa_group conf) (conf_rsn_override_pairwise conf) (conf_rsn_override_key_mgmt conf)
        (wpa_own_rsn_capab C conf (conf_rsn_override_mfp conf)) None (conf_rsn_override_mfp conf)
        (conf_group_mgmt_cipher conf))) \<and>
    (wpa_write_rsne_override_2 C conf len = Ok w \<longrightarrow> (\<exists>d. wpa_parse_wpa_ie_rsn C (w @ r) (length w) = Some (0, d) \<and>
      reads_as C d (conf_wpa_group conf) (conf_rsn_override_pairwise_2 conf) (conf_rsn_override_key_mgmt_2 conf)
        (wpa_own_rsn_capab C conf (conf_rsn_override_mfp_2 conf)) None (conf_rsn_override_mfp_2 conf)
        (conf_group_mgmt_cipher conf)))"
proof (intro conjI impI)
  assume "wpa_write_rsn_ie C conf len pid = Ok w"
  then show "\<exists>d. wpa_parse_wpa_ie_rsn C (w @ r) (length w) = Some (0, d) \<and>
      reads_as C d (conf_wpa_group conf) (conf_rsn_pairwise conf) (conf_wpa_key_mgmt conf)
        (wpa_own_rsn_capab C conf (conf_ieee80211w conf)) pid (conf_ieee80211w conf) (conf_group_mgmt_cipher conf)"
    by (elim write_rsn_ie_Ok) (rule parse_rsn_body [OF _ grp pid])
next
  assume "wpa_write_rsne_override C conf len = Ok w"
  then show "\<exists>d. wpa_parse_wpa_ie_rsn C (w @ r) (length w) = Some (0, d) \<and>
      reads_as C d (conf_wpa_group conf) (conf_rsn_override_pairwise conf) (conf_rsn_override_key_mgmt conf)
        (wpa_own_rsn_capab C conf (conf_rsn_override_mfp conf)) None (conf_rsn_override_mfp conf) (conf_group_mgmt_cipher conf)"
    unfolding wpa_write_rsne_override_def by (elim write_override_Ok) (erule parse_override_body [OF _ grp], simp_all)
next
  assume "wpa_write_rsne_override_2 C conf len = Ok w"
  then show "\<exists>d. wpa_parse_wpa_ie_rsn C (w @ r) (length w) = Some (0, d) \<and>
      reads_as C d (conf_wpa_group conf) (conf_rsn_override_pairwise_2 conf) (conf_rsn_override_key_mgmt_2 conf)
        (wpa_own_rsn_capab C conf (conf_rsn_override_mfp_2 conf)) None (conf_rsn_override_mfp_2 conf)
        (conf_group_mgmt_cipher conf)"
    unfolding wpa_write_rsne_override_2_def by (elim write_override_Ok) (erule parse_override_body [OF _ grp], simp_all)
qed

lemma rsn_sample_group: "wpa_cipher_valid_group rsn_build (conf_wpa_group rsn_conf)"
  by code_simp

lemma rsn_sample_written:
  "wpa_write_rsn_ie rsn_build rsn_conf 100 None = Ok rsn_element"
  "\<exists>w. wpa_write_rsn_ie rsn_build rsn_conf 100 (Some (replicate 16 7)) = Ok w"
proof -
  show "wpa_write_rsn_ie rsn_build rsn_conf 100 None = Ok rsn_element" by code_simp
  have "case wpa_write_rsn_ie rsn_build rsn_conf 100 (Some (replicate 16 7)) of Ok w \<Rightarrow> True | _ \<Rightarrow> False" by code_simp
  then show "\<exists>w. wpa_write_rsn_ie rsn_build rsn_conf 100 (Some (replicate 16 7)) = Ok w" by (auto split: outcome.splits)
qed

theorem rsn_elements_roundtrip_witness:
  "\<exists>d. wpa_parse_wpa_ie_rsn rsn_build (rsn_element @ [1, 2, 3]) (length rsn_element) = Some (0, d) \<and>
    reads_as rsn_build d WPA_CIPHER_CCMP WPA_CIPHER_CCMP (WPA_KEY_MGMT_PSK OR WPA_KEY_MGMT_SAE)
      (wpa_own_rsn_capab rsn_build rsn_conf MGMT_FRAME_PROTECTION_OPTIONAL) None MGMT_FRAME_PROTECTION_OPTIONAL
      WPA_CIPHER_BIP_GMAC_128"
proof -
  have "conf_wpa_group rsn_conf = WPA_CIPHER_CCMP" "conf_rsn_pairwise rsn_conf = WPA_CIPHER_CCMP"
    "conf_wpa_key_mgmt rsn_conf = WPA_KEY_MGMT_PSK OR WPA_KEY_MGMT_SAE"
    "conf_ieee80211w rsn_conf = MGMT_FRAME_PROTECTION_OPTIONAL" "conf_group_mgmt_cipher rsn_conf = WPA_CIPHER_BIP_GMAC_128"
    by (simp_all add: rsn_conf_def)
  then show ?thesis using rsn_elements_roundtrip [OF rsn_sample_group, of None 100 rsn_element "[1, 2, 3]"] rsn_sample_written(1)
    by simp
qed

text \<open>
  The extension element, as the writers of the RSNXE and of its override produce it (empty when no capability is
  set), answers every query of ieee802_11_rsnx_capab for a capability from bit 4 on with the bit the configuration
  sets; bits 0 to 3 hold the length.
\<close>
theorem rsnxe_roundtrip:
  assumes "4 \<le> k"
  shows "(wpa_write_rsnxe C conf len = Ok w \<longrightarrow> ieee802_11_rsnx_capab (if w = [] then None else Some (w @ r)) k =
      Some (bit (rsnxe_capab C conf (conf_wpa_key_mgmt conf)) k)) \<and>
    (wpa_write_rsnxe_override C conf len = Ok w \<longrightarrow> ieee802_11_rsnx_capab (if w = [] then None else Some (w @ r)) k =
      Some (bit (rsnxe_capab C conf (conf_rsn_override_key_mgmt conf OR conf_rsn_override_key_mgmt_2 conf)) k))"
  using rsnxe_write_read [OF _ assms] rsnxe_override_write_read [OF _ assms] by blast

theorem rsnxe_roundtrip_witness:
  "ieee802_11_rsnx_capab (Some [244, 3, 34, 0, 32]) WLAN_RSNX_CAPAB_SSID_PROTECTION = Some True"
proof -
  have "wpa_write_rsnxe rsn_build rsn_conf 100 = Ok [244, 3, 34, 0, 32]"
    "bit (rsnxe_capab rsn_build rsn_conf (conf_wpa_key_mgmt rsn_conf)) 21" by code_simp+
  then show ?thesis
    using rsnxe_roundtrip [of 21 rsn_build rsn_conf 100 "[244, 3, 34, 0, 32]" "[]"]
    by (simp add: WLAN_RSNX_CAPAB_SSID_PROTECTION_def)
qed

text \<open>
  C28: wpa_auth_gen_wpa_ie never writes past its buffer of 1500 bytes: for every configuration (with a mobility
  domain of two bytes) the call returns, with 0 and an element block of at most 505 bytes, the length stored beside
  it, or with -1; on an error of a writer the elements stay as they were, a failed allocation leaves the pointer NULL.
\<close>
theorem own_elements_in_buffer:
  assumes "length (conf_mobility_domain conf) = 2"
  shows "(\<exists>w. length w \<le> 505 \<and> own_elements C conf 1500 = Ok w \<and>
      wpa_auth_gen_wpa_ie C conf alloc st = Some (if alloc then (0, Some w, length w) else (-1, None, snd st))) \<or>
    wpa_auth_gen_wpa_ie C conf alloc st = Some (-1, st)"
  using own_elements_fit [OF assms, of 1500 C] by (auto simp: wpa_auth_gen_wpa_ie_def)

theorem own_elements_in_buffer_witness:
  "\<exists>w. length w \<le> 505 \<and> wpa_auth_gen_wpa_ie rsn_build rsn_conf True (None, 0) = Some (0, Some w, length w)"
proof -
  have "length (conf_mobility_domain rsn_conf) = 2" by code_simp
  moreover have "wpa_auth_gen_wpa_ie rsn_build rsn_conf True (None, 0) \<noteq> Some (-1, None, 0)" by code_simp
  ultimately show ?thesis using own_elements_in_buffer [of rsn_conf rsn_build True "(None, 0)"] by auto
qed

text \<open>
  C27: wpa_insert_pmkid on a block of elements with the access point's RSN element among them turns that element into
  the one wpa_write_rsn_ie writes with the PMKID, whether or not there is a management group cipher, leaves the
  elements around it alone and returns the new length; it needs 18 bytes of room behind the block.
\<close>
theorem insert_pmkid_equals_written:
  assumes "wpa_write_rsn_ie C conf len None = Ok w" "wpa_write_rsn_ie C conf len' (Some p) = Ok w'"
    "length p = 16" "no_rsne es" "18 \<le> length slack"
  shows "\<exists>slack'. wpa_insert_pmkid (concat (map ie_bytes es) @ w @ post @ slack)
      (length (concat (map ie_bytes es) @ w @ post)) p replace =
    Some (0, concat (map ie_bytes es) @ w' @ post @ slack', int (length (concat (map ie_bytes es) @ w' @ post)))"
  using insert_written [OF assms] .

theorem insert_pmkid_equals_written_witness:
  "\<exists>w' slack'. wpa_write_rsn_ie rsn_build rsn_conf 100 (Some (replicate 16 7)) = Ok w' \<and>
    wpa_insert_pmkid ([0, 2, 65, 66] @ rsn_element @ replicate 18 0) 36 (replicate 16 7) False =
      Some (0, [0, 2, 65, 66] @ w' @ slack', int (4 + length w'))"
proof -
  obtain w' where w': "wpa_write_rsn_ie rsn_build rsn_conf 100 (Some (replicate 16 7)) = Ok w'"
    using rsn_sample_written(2) by blast
  have "no_rsne [(0, [65, 66])]" by (simp add: no_rsne_def WLAN_EID_RSN_def)
  note insert = insert_pmkid_equals_written [OF rsn_sample_written(1) w' _ this, of "replicate 18 0" "[]" False]
  have "length rsn_element = 32" by (simp add: rsn_element_def)
  with insert w' show ?thesis by (simp add: ie_bytes_def)
qed

section \<open>Admission\<close>

text \<open>
  C9: wpa_validate_wpa_ie is safe on arbitrary request bytes: with buffers as long as their lengths say and
  well-formed PMKSA caches it returns (no read outside an element or a PMKID list, no dangling cache entry, every
  cache search ends), the buffers stored for the station again have the room their lengths say, and the PMKSA cache,
  with a possible OKC entry added, is again well formed.
\<close>
theorem validate_returns:
  assumes "assoc_ok rq" "env_ok ev" "station_ok m" "represents (au_cache au) es"
    "ev_fresh ev \<notin> Some ` dom (mem (au_cache au))"
  shows "\<exists>r au' m'. wpa_validate_wpa_ie C ev rq (Some au) (Some m) = Some (r, Some au', Some m') \<and>
    station_ok m' \<and> (\<exists>es'. represents (au_cache au') es')"
proof -
  from validate_sound [OF assms] obtain r au' m' where "validate_ie C ev rq au m = Some (r, au', m')"
    "station_ok m'" "\<exists>es'. represents (au_cache au') es'" by blast
  then show ?thesis by (simp add: wpa_validate_wpa_ie_def)
qed

lemma rsn_sample_ok: "env_ok rsn_ev" "station_ok rsn_sm" "represents (au_cache rsn_au) []"
    "ev_fresh rsn_ev \<notin> Some ` dom (mem (au_cache rsn_au))"
  using represents_init
  by (auto simp: env_ok_def rsn_ev_def station_ok_def rsn_sm_def rsn_au_def pmksa_cache_auth_init_def)

text \<open>A station that offers PSK with a PMKID, through the sample access point.\<close>

definition rsn_request :: "bytes \<Rightarrow> assoc_req" where
  "rsn_request w = \<lparr>rq_freq = 2412, rq_wpa_ie = Some w, rq_wpa_ie_len = length w, rq_rsnxe = Some [244, 1, 32],
     rq_rsnxe_len = 3, rq_mdie = None, rq_mdie_len = 0, rq_owe_dh = False, rq_assoc_sm = None\<rparr>"

theorem validate_returns_witness:
  "\<exists>r au' m'. wpa_validate_wpa_ie rsn_build rsn_ev (rsn_request [48, 20, 1, 0, 0, 15]) (Some rsn_au) (Some rsn_sm) =
      Some (r, Some au', Some m') \<and> station_ok m' \<and> (\<exists>es'. represents (au_cache au') es')"
proof (rule validate_returns [OF _ rsn_sample_ok])
  show "assoc_ok (rsn_request [48, 20, 1, 0, 0, 15])" by (simp add: assoc_ok_def rsn_request_def)
qed

text \<open>
  C8: An admitted station (WPA_IE_OK) has agreed to the network's policy.  Its element uses an enabled protocol and
  the network's group cipher and shares an AKM with it; the pairwise cipher is enabled, offered and the strongest
  one of both; management frame protection is on exactly if both sides have it, is never combined with TKIP, and is on
  the station's side where the network requires it; FT AKMs come with the mobility domain of the network, other AKMs
  without; OWE has its Diffie-Hellman element, DPP a PMKSA, and SAE with PMKID after open authentication a PMKSA; the
  stored element is the one of the request.  The AKM is one both sides enable, except for the two cases of the code:
  FT_FILS_SHA256, for which only the offer is looked at, and PSK when no other AKM that the selection knows is shared.
\<close>
theorem validate_policy:
  assumes "validate_ie C ev rq au m = Some (WPA_IE_OK, au', m')"
  shows "\<exists>v d p ie b. read_element C rq = Some (v, d) \<and> has (conf_wpa (au_conf au)) (proto_bit v) \<and>
    ie_group_cipher d = conf_wpa_group (au_conf au) \<and> has (ie_key_mgmt d) (own_key_mgmt (au_conf au) m) \<and>
    (has (ie_key_mgmt d AND own_key_mgmt (au_conf au) m) (sm_wpa_key_mgmt m') \<and> sm_wpa_key_mgmt m' \<in> set (selectable C) \<or>
     sm_wpa_key_mgmt m' = WPA_KEY_MGMT_FT_FILS_SHA256 \<and> has (ie_key_mgmt d) WPA_KEY_MGMT_FT_FILS_SHA256 \<or>
     sm_wpa_key_mgmt m' = WPA_KEY_MGMT_PSK \<and>
       (\<forall>k\<in>set (selectable C) - {WPA_KEY_MGMT_FT_FILS_SHA256}. \<not> has (ie_key_mgmt d AND own_key_mgmt (au_conf au) m) k)) \<and>
    sm_pairwise m' = Some p \<and> has (ie_pairwise_cipher d AND own_pairwise v (au_conf au) m) p \<and>
    Some p = wpa_pick_pairwise_cipher (ie_pairwise_cipher d AND own_pairwise v (au_conf au) m) False \<and>
    (conf_ieee80211w (au_conf au) = MGMT_FRAME_PROTECTION_REQUIRED \<longrightarrow>
      ie_capabilities d AND WPA_CAPABILITY_MFPC \<noteq> 0 \<and> ie_mgmt_group_cipher d = conf_group_mgmt_cipher (au_conf au)) \<and>
    (sm_mgmt_frame_prot m' \<longleftrightarrow>
      own_mfp (au_conf au) m \<noteq> NO_MGMT_FRAME_PROTECTION \<and> ie_capabilities d AND WPA_CAPABILITY_MFPC \<noteq> 0) \<and>
    (sm_mgmt_frame_prot m' \<longrightarrow> p \<noteq> WPA_CIPHER_TKIP) \<and>
    (CONFIG_IEEE80211R C \<longrightarrow>
      (if wpa_key_mgmt_ft (sm_wpa_key_mgmt m')
       then \<exists>mdie. rq_mdie rq = Some mdie \<and> 3 \<le> rq_mdie_len rq \<and> take 2 mdie = conf_mobility_domain (au_conf au)
       else rq_mdie rq = None)) \<and>
    (CONFIG_OWE C \<and> sm_wpa_key_mgmt m' = WPA_KEY_MGMT_OWE \<longrightarrow> rq_owe_dh rq) \<and>
    (CONFIG_DPP C \<and> sm_wpa_key_mgmt m' = WPA_KEY_MGMT_DPP \<longrightarrow> sm_pmksa m' \<noteq> None) \<and>
    (CONFIG_SAE C \<and> sm_wpa_key_mgmt m' \<in> {WPA_KEY_MGMT_SAE, WPA_KEY_MGMT_SAE_EXT_KEY} \<and> \<not> ev_sae_offload ev \<and>
      ie_num_pmkid d \<noteq> 0 \<and> sm_auth_alg m' = 0 \<longrightarrow> sm_pmksa m' \<noteq> None) \<and>
    rq_wpa_ie rq = Some ie \<and> sm_wpa_ie m' = Some b \<and> sm_wpa_ie_len m' = rq_wpa_ie_len rq \<and>
    take (rq_wpa_ie_len rq) b = take (rq_wpa_ie_len rq) ie"
proof -
  obtain v d ie b where ok: "read_element C rq = Some (v, d)" "agreed C rq (au_conf au) m v d m'"
    "CONFIG_DPP C \<and> sm_wpa_key_mgmt m' = WPA_KEY_MGMT_DPP \<longrightarrow> sm_pmksa m' \<noteq> None"
    "CONFIG_SAE C \<and> (sm_wpa_key_mgmt m' = WPA_KEY_MGMT_SAE \<or> sm_wpa_key_mgmt m' = WPA_KEY_MGMT_SAE_EXT_KEY) \<and>
      \<not> ev_sae_offload ev \<and> ie_num_pmkid d \<noteq> 0 \<and> sm_auth_alg m' = 0 \<longrightarrow> sm_pmksa m' \<noteq> None"
    "rq_wpa_ie rq = Some ie" "sm_wpa_ie m' = Some b" "sm_wpa_ie_len m' = rq_wpa_ie_len rq"
    "take (rq_wpa_ie_len rq) b = take (rq_wpa_ie_len rq) ie"
    using validate_OK [OF assms] by blast
  note a = ok(2) [unfolded agreed_def]
  obtain p where p: "sm_pairwise m' = Some p" using a by blast
  then have pick: "wpa_pick_pairwise_cipher (ie_pairwise_cipher d AND own_pairwise v (au_conf au) m) False = Some p"
    using a by simp
  have tkip: "sm_mgmt_frame_prot m' \<longrightarrow> p \<noteq> WPA_CIPHER_TKIP" using a pick_pairwise [OF pick] by auto
  have akm: "has (ie_key_mgmt d) (own_key_mgmt (au_conf au) m)" using a by (simp add: has_def)
  have sae: "CONFIG_SAE C \<and> sm_wpa_key_mgmt m' \<in> {WPA_KEY_MGMT_SAE, WPA_KEY_MGMT_SAE_EXT_KEY} \<and> \<not> ev_sae_offload ev \<and>
      ie_num_pmkid d \<noteq> 0 \<and> sm_auth_alg m' = 0 \<longrightarrow> sm_pmksa m' \<noteq> None" using ok(4) by blast
  note selected = select_akm_cases [of "ie_key_mgmt d AND own_key_mgmt (au_conf au) m" C "ie_key_mgmt d",
      folded conjunct1 [OF conjunct2 [OF conjunct2 [OF conjunct2 [OF a]]]]]
  show ?thesis
    by (rule exI [of _ v], rule exI [of _ d], rule exI [of _ p], rule exI [of _ ie], rule exI [of _ b])
      (intro conjI; (rule ok akm selected p pick [symmetric] tkip sae a [THEN conjunct1] a [THEN conjunct2, THEN conjunct1]
        pick_pairwise [OF pick, THEN conjunct2] | use a in argo))
qed

text \<open>
  C29: The offer alone decides on FT_FILS_SHA256: a station that offers this AKM beside one the network enables is
  admitted with FT_FILS_SHA256, though the network may not enable it at all (unless a Suite B AKM or FT_FILS_SHA384
  is shared).
\<close>
theorem validate_ft_fils_bypass:
  assumes "validate_ie C ev rq au m = Some (WPA_IE_OK, au', m')" "CONFIG_FILS C" "CONFIG_IEEE80211R C"
    "read_element C rq = Some (v, d)" "has (ie_key_mgmt d) WPA_KEY_MGMT_FT_FILS_SHA256"
    "\<not> has (own_key_mgmt (au_conf au) m)
      (WPA_KEY_MGMT_IEEE8021X_SUITE_B_192 OR WPA_KEY_MGMT_IEEE8021X_SUITE_B OR WPA_KEY_MGMT_FT_FILS_SHA384)"
  shows "sm_wpa_key_mgmt m' = WPA_KEY_MGMT_FT_FILS_SHA256"
proof -
  have "sm_wpa_key_mgmt m' = select_akm C (ie_key_mgmt d) (ie_key_mgmt d AND own_key_mgmt (au_conf au) m)"
    using validate_OK [OF assms(1)] assms(4) by (auto simp: agreed_def)
  moreover have "\<not> has (ie_key_mgmt d AND own_key_mgmt (au_conf au) m) k"
    if "k \<in> {WPA_KEY_MGMT_IEEE8021X_SUITE_B_192, WPA_KEY_MGMT_IEEE8021X_SUITE_B, WPA_KEY_MGMT_FT_FILS_SHA384}" for k
    using assms(6) that by (auto simp: has_def bit.conj_disj_distrib or_eq_0_iff and.assoc)
  ultimately show ?thesis using select_akm_ft_fils [OF assms(2,3,5)] by simp
qed




section \<open>Witnesses of the policy\<close>

text \<open>A station that offers \<open>FT_FILS_SHA256\<close> beside PSK to a network without it.\<close>

definition ft_request :: assoc_req where
  "ft_request = \<lparr>rq_freq = 2412, rq_wpa_ie = Some [48, 24, 1, 0, 0, 0xf, 0xac, 4, 1, 0, 0, 0xf, 0xac, 4, 2, 0, 0, 0xf, 0xac, 2,
       0, 0xf, 0xac, 16, 0x80, 0], rq_wpa_ie_len = 26, rq_rsnxe = None, rq_rsnxe_len = 0, rq_mdie = Some [0xa1, 0xb2, 0],
     rq_mdie_len = 3, rq_owe_dh = False, rq_assoc_sm = None\<rparr>"

lemma ft_sample:
  "\<exists>au' m'. validate_ie rsn_build rsn_ev ft_request rsn_au rsn_sm = Some (WPA_IE_OK, au', m')"
  "\<exists>d. read_element rsn_build ft_request = Some (WPA_PROTO_RSN, d) \<and> has (ie_key_mgmt d) WPA_KEY_MGMT_FT_FILS_SHA256"
proof -
  have "case validate_ie rsn_build rsn_ev ft_request rsn_au rsn_sm of Some (r, au', m') \<Rightarrow> r = WPA_IE_OK | None \<Rightarrow> False"
    by code_simp
  then show "\<exists>au' m'. validate_ie rsn_build rsn_ev ft_request rsn_au rsn_sm = Some (WPA_IE_OK, au', m')"
    by (auto split: option.splits)
  have "case read_element rsn_build ft_request of Some (v, d) \<Rightarrow> v = WPA_PROTO_RSN \<and> has (ie_key_mgmt d) WPA_KEY_MGMT_FT_FILS_SHA256
    | None \<Rightarrow> False" by code_simp
  then show "\<exists>d. read_element rsn_build ft_request = Some (WPA_PROTO_RSN, d) \<and> has (ie_key_mgmt d) WPA_KEY_MGMT_FT_FILS_SHA256"
    by (auto split: option.splits)
qed

theorem validate_ft_fils_bypass_witness:
  "\<exists>au' m'. validate_ie rsn_build rsn_ev ft_request rsn_au rsn_sm = Some (WPA_IE_OK, au', m') \<and>
    sm_wpa_key_mgmt m' = WPA_KEY_MGMT_FT_FILS_SHA256 \<and> \<not> has (own_key_mgmt (au_conf rsn_au) rsn_sm) WPA_KEY_MGMT_FT_FILS_SHA256"
proof -
  obtain au' m' d where "validate_ie rsn_build rsn_ev ft_request rsn_au rsn_sm = Some (WPA_IE_OK, au', m')"
    "read_element rsn_build ft_request = Some (WPA_PROTO_RSN, d)" "has (ie_key_mgmt d) WPA_KEY_MGMT_FT_FILS_SHA256"
    using ft_sample by blast
  moreover have "CONFIG_FILS rsn_build" "CONFIG_IEEE80211R rsn_build" by code_simp+
  moreover have "\<not> has (own_key_mgmt (au_conf rsn_au) rsn_sm)
      (WPA_KEY_MGMT_IEEE8021X_SUITE_B_192 OR WPA_KEY_MGMT_IEEE8021X_SUITE_B OR WPA_KEY_MGMT_FT_FILS_SHA384)"
    "\<not> has (own_key_mgmt (au_conf rsn_au) rsn_sm) WPA_KEY_MGMT_FT_FILS_SHA256" by code_simp+
  ultimately show ?thesis using validate_ft_fils_bypass by blast
qed

theorem validate_policy_witness:
  "\<exists>au' m' p. validate_ie rsn_build rsn_ev ft_request rsn_au rsn_sm = Some (WPA_IE_OK, au', m') \<and>
    sm_pairwise m' = Some p \<and> has (own_pairwise WPA_PROTO_RSN (au_conf rsn_au) rsn_sm) p"
proof -
  obtain au' m' d where s: "validate_ie rsn_build rsn_ev ft_request rsn_au rsn_sm = Some (WPA_IE_OK, au', m')"
    "read_element rsn_build ft_request = Some (WPA_PROTO_RSN, d)"
    using ft_sample by blast
  obtain v d' p where p: "read_element rsn_build ft_request = Some (v, d')" "sm_pairwise m' = Some p"
    "has (ie_pairwise_cipher d' AND own_pairwise v (au_conf rsn_au) rsn_sm) p"
    using validate_policy [OF s(1)] by (elim exE conjE) (rule that)
  then have "v = WPA_PROTO_RSN" "has (own_pairwise v (au_conf rsn_au) rsn_sm) p" using s(2) by (auto simp: has_def and.assoc)
  then show ?thesis using s(1) p(2) by blast
qed

end
