(* ===== verification/MdHash.thy ===== *)
theory MdHash
  imports Prelude
begin

text \<open>
  What the hash functions of the repository share: a message is padded and absorbed in blocks of 64 bytes
  (Merkle and Damgard), and a hash context holds the state after the full blocks and the rest of the message in
  a buffer.  The locale \<open>hash_vector\<close> is the interface HMAC uses.
\<close>

unbundle bit_operations_syntax

section \<open>Absorbing blocks\<close>

function md_absorb :: "('s \<Rightarrow> bytes \<Rightarrow> 's) \<Rightarrow> 's \<Rightarrow> bytes \<Rightarrow> 's" where
  "md_absorb f s m = (if length m < 64 then s else md_absorb f (f s (take 64 m)) (drop 64 m))"
  by auto
termination by (relation "measure (\<lambda>(f, s, m). length m)") auto

declare md_absorb.simps [simp del]

text \<open>The bytes behind the last full block.\<close>

definition md_rest :: "bytes \<Rightarrow> bytes" where
  "md_rest m = drop (64 * (length m div 64)) m"

text \<open>A one bit, zeros up to a length of 56 modulo 64, and the length in bits as a 64-bit number.\<close>

definition md_zeros :: "nat \<Rightarrow> nat" where
  "md_zeros n = (119 - n mod 64) mod 64"

definition md_pad :: "bytes \<Rightarrow> bytes" where
  "md_pad m = m @ [0x80] @ replicate (md_zeros (length m)) 0 @ WPA_PUT_BE64 (of_nat (8 * length m))"

lemma absorb_small: "length m < 64 \<Longrightarrow> md_absorb f s m = s"
  by (simp add: md_absorb.simps)

lemma absorb_block: "length b = 64 \<Longrightarrow> md_absorb f s (b @ m) = md_absorb f (f s b) m"
  by (subst md_absorb.simps) simp

lemma length_rest [simp]: "length (md_rest m) = length m mod 64"
  by (simp add: md_rest_def minus_mult_div_eq_mod)

lemma rest_small [simp]: "length m < 64 \<Longrightarrow> md_rest m = m"
  by (simp add: md_rest_def)

lemma full_rest: "take (64 * (length m div 64)) m @ md_rest m = m"
  by (simp add: md_rest_def)

lemma absorb_append: "64 dvd length a \<Longrightarrow> md_absorb f s (a @ b) = md_absorb f (md_absorb f s a) b"
proof (induction a arbitrary: s rule: length_induct)
  case (1 a)
  show ?case
  proof (cases "a = []")
    case False
    then have l: "64 \<le> length a" using 1 by (auto dest: dvd_imp_le)
    then have "64 dvd length (drop 64 a)" using 1 by (simp add: dvd_diff_nat)
    then have IH: "md_absorb f s' (drop 64 a @ b) = md_absorb f (md_absorb f s' (drop 64 a)) b" for s'
      using 1 l by simp
    have a: "a = take 64 a @ drop 64 a" by simp
    have "md_absorb f s (a @ b) = md_absorb f (f s (take 64 a)) (drop 64 a @ b)"
      using absorb_block [of "take 64 a" f s "drop 64 a @ b"] l by (simp del: append_assoc add: append_assoc [symmetric])
    also have "\<dots> = md_absorb f (md_absorb f s a) b"
      unfolding IH using absorb_block [of "take 64 a" f s "drop 64 a"] l by simp
    finally show ?thesis .
  qed (simp add: absorb_small)
qed

lemma absorb_full: "md_absorb f s m = md_absorb f s (take (64 * (length m div 64)) m)"
proof -
  have "length (take (64 * (length m div 64)) m) = 64 * (length m div 64)"
    by (simp add: div_times_less_eq_dividend mult.commute)
  then have "md_absorb f s (take (64 * (length m div 64)) m @ md_rest m) =
      md_absorb f (md_absorb f s (take (64 * (length m div 64)) m)) (md_rest m)" by (intro absorb_append) simp
  then show ?thesis by (simp add: full_rest absorb_small)
qed

text \<open>Compression functions that agree on the states that occur.\<close>

lemma absorb_cong:
  assumes "\<And>s b. P s \<Longrightarrow> length b = 64 \<Longrightarrow> f s b = g s b \<and> P (g s b)" "P s"
  shows "md_absorb f s m = md_absorb g s m \<and> P (md_absorb g s m)"
  using assms(2)
proof (induction m arbitrary: s rule: length_induct)
  case (1 m)
  show ?case
  proof (cases "length m < 64")
    case False
    then have "f s (take 64 m) = g s (take 64 m)" "P (g s (take 64 m))" using assms(1) 1(2) by simp_all
    moreover from this have "md_absorb f (g s (take 64 m)) (drop 64 m) = md_absorb g (g s (take 64 m)) (drop 64 m) \<and>
        P (md_absorb g (g s (take 64 m)) (drop 64 m))" using 1(1) False by (auto simp del: length_drop simp: length_drop)
    ultimately show ?thesis using False by (subst (1 2 3) md_absorb.simps) simp
  qed (use 1(2) in \<open>simp add: absorb_small\<close>)
qed

text \<open>Data that follows a message joins the bytes left over from it.\<close>

lemma absorb_rest: "md_absorb f s (m @ d) = md_absorb f (md_absorb f s m) (md_rest m @ d)"
proof -
  let ?a = "take (64 * (length m div 64)) m"
  have "length ?a = 64 * (length m div 64)" by (simp add: div_times_less_eq_dividend mult.commute)
  then have "md_absorb f s (?a @ (md_rest m @ d)) = md_absorb f (md_absorb f s ?a) (md_rest m @ d)" by (intro absorb_append) simp
  moreover have "?a @ md_rest m @ d = m @ d" using full_rest [of m] by (metis append_assoc)
  ultimately show ?thesis by (simp flip: absorb_full)
qed

lemma rest_rest: "md_rest (m @ d) = md_rest (md_rest m @ d)"
proof -
  let ?a = "take (64 * (length m div 64)) m"
  have l: "length ?a = 64 * (length m div 64)" by (simp add: div_times_less_eq_dividend mult.commute)
  have "md_rest (?a @ x) = md_rest x" for x unfolding md_rest_def using l by simp
  moreover have "?a @ md_rest m @ d = m @ d" using full_rest [of m] by (metis append_assoc)
  ultimately show ?thesis by metis
qed

section \<open>A context with a buffer\<close>

text \<open>The state \<open>st\<close>, the buffer \<open>buf\<close> and its fill \<open>n\<close> after the message \<open>m\<close>.\<close>

definition absorbed :: "('s \<Rightarrow> bytes \<Rightarrow> 's) \<Rightarrow> 's \<Rightarrow> bytes \<Rightarrow> 's \<Rightarrow> bytes \<Rightarrow> nat \<Rightarrow> bool" where
  "absorbed f iv m st buf n \<longleftrightarrow> st = md_absorb f iv m \<and> length buf = 64 \<and> n = length m mod 64 \<and> take n buf = md_rest m"

lemma absorbed_init: "length buf = 64 \<Longrightarrow> absorbed f iv [] iv buf 0"
  by (simp add: absorbed_def absorb_small)

lemma put_bytes_at: "length a = n \<Longrightarrow> length b + n \<le> length buf \<Longrightarrow> take n buf = a \<Longrightarrow>
    put_bytes buf n b = a @ b @ drop (n + length b) buf"
  by (simp add: put_bytes_def)

text \<open>Adding data that does not fill the buffer, that fills it exactly, and a whole block to an empty buffer.\<close>

lemma absorbed_part:
  assumes "absorbed f iv m st buf n" "n + length d < 64"
  shows "absorbed f iv (m @ d) st (put_bytes buf n d) (n + length d)"
proof -
  from assms(1) have a: "st = md_absorb f iv m" "length buf = 64" "n = length m mod 64" "take n buf = md_rest m"
    by (auto simp: absorbed_def)
  have s: "length (md_rest m @ d) < 64" using a assms(2) by simp
  have p: "put_bytes buf n d = (md_rest m @ d) @ drop (n + length d) buf"
    using put_bytes_at [of "md_rest m" n d buf] a assms(2) by simp
  have "take (n + length d) (put_bytes buf n d) = md_rest m @ d" unfolding p using a(3) by simp
  moreover have "(length m + length d) mod 64 = n + length d" using a(3) assms(2) by (metis mod_add_left_eq mod_less)
  moreover have "length (put_bytes buf n d) = 64" using a(2) assms(2) by (simp add: length_put_bytes)
  ultimately show ?thesis using a s by (simp add: absorbed_def absorb_rest [of f iv m d] rest_rest [of m d] absorb_small)
qed

lemma absorbed_fill:
  assumes "absorbed f iv m st buf n" "n + length d = 64"
  shows "absorbed f iv (m @ d) (f st (put_bytes buf n d)) (put_bytes buf n d) 0"
proof -
  from assms(1) have a: "st = md_absorb f iv m" "length buf = 64" "n = length m mod 64" "take n buf = md_rest m"
    by (auto simp: absorbed_def)
  have s: "length (md_rest m @ d) = 64" using a assms(2) by simp
  have p: "put_bytes buf n d = md_rest m @ d" using put_bytes_at [of "md_rest m" n d buf] a assms(2) by simp
  have "md_absorb f iv (m @ d) = f st (md_rest m @ d)"
    using absorb_block [OF s, of f st "[]"] a(1) by (simp add: absorb_rest [of f iv m d] absorb_small)
  moreover have "md_rest (m @ d) = []" unfolding rest_rest [of m d] using s by (simp add: md_rest_def)
  moreover have "(length m + length d) mod 64 = 0" using a(3) assms(2) by (metis mod_add_left_eq mod_self)
  ultimately show ?thesis using s by (simp add: absorbed_def p)
qed

lemma absorbed_block:
  assumes "absorbed f iv m st buf 0" "length b = 64"
  shows "absorbed f iv (m @ b) (f st b) buf 0"
proof -
  from assms(1) have a: "st = md_absorb f iv m" "length buf = 64" "length m mod 64 = 0" "md_rest m = []"
    by (auto simp: absorbed_def)
  have "md_absorb f iv (m @ b) = f st b"
    using absorb_block [OF assms(2), of f st "[]"] a by (simp add: absorb_rest [of f iv m b] absorb_small)
  moreover have "md_rest (m @ b) = []" unfolding rest_rest [of m b] using a assms(2) by (simp add: md_rest_def)
  moreover have "(length m + length b) mod 64 = 0" using a(3) assms(2) by (simp add: mod_add_eq [symmetric])
  ultimately show ?thesis using a(2) by (simp add: absorbed_def)
qed

text \<open>Padding, one block or two.\<close>

lemma md_zeros_cases:
  "n mod 64 < 56 \<Longrightarrow> md_zeros n = 55 - n mod 64"
  "56 \<le> n mod 64 \<Longrightarrow> md_zeros n = 119 - n mod 64"
proof -
  have *: "(119 - r) mod 64 = (if r < 56 then 55 - r else 119 - r)" if "r < 64" for r :: nat
    using that le_mod_geq [of 64 "119 - r"] by (cases "r < 56") simp_all
  show "n mod 64 < 56 \<Longrightarrow> md_zeros n = 55 - n mod 64" "56 \<le> n mod 64 \<Longrightarrow> md_zeros n = 119 - n mod 64"
    unfolding md_zeros_def by (simp_all add: *)
qed

lemma absorb_pad:
  assumes "absorbed f iv m st buf n"
  shows "md_absorb f iv (md_pad m) =
    (if n < 56 then f st (md_rest m @ [0x80] @ replicate (55 - n) 0 @ WPA_PUT_BE64 (of_nat (8 * length m)))
     else f (f st (md_rest m @ [0x80] @ replicate (63 - n) 0)) (replicate 56 0 @ WPA_PUT_BE64 (of_nat (8 * length m))))"
proof -
  let ?l = "WPA_PUT_BE64 (of_nat (8 * length m))"
  from assms have a: "st = md_absorb f iv m" "n = length m mod 64" by (auto simp: absorbed_def)
  have n: "n < 64" using a(2) by simp
  have p: "md_absorb f iv (md_pad m) = md_absorb f st (md_rest m @ [0x80] @ replicate (md_zeros (length m)) 0 @ ?l)"
    unfolding md_pad_def using a(1) by (simp add: absorb_rest [of f iv m])
  show ?thesis
  proof (cases "n < 56")
    case True
    then have z: "md_zeros (length m) = 55 - n" using md_zeros_cases(1) a(2) by simp
    have "length (md_rest m @ [0x80] @ replicate (55 - n) 0 @ ?l) = 64" using True a(2) by (simp add: byte_simps)
    from absorb_block [OF this, of f st "[]"] show ?thesis using True by (simp add: p z absorb_small)
  next
    case False
    then have "md_zeros (length m) = (63 - n) + 56" using md_zeros_cases(2) a(2) n by simp
    then have z: "replicate (md_zeros (length m)) 0 = replicate (63 - n) 0 @ replicate 56 (0 :: u8)"
      by (simp only: replicate_add)
    have l: "length (md_rest m @ [0x80] @ replicate (63 - n) 0) = 64" "length (replicate 56 0 @ ?l) = 64"
      using n a(2) by (simp_all add: byte_simps)
    have "md_absorb f iv (md_pad m) = md_absorb f st ((md_rest m @ [0x80] @ replicate (63 - n) 0) @ replicate 56 0 @ ?l)"
      unfolding p z by simp
    also have "\<dots> = f (f st (md_rest m @ [0x80] @ replicate (63 - n) 0)) (replicate 56 0 @ ?l)"
      unfolding absorb_block [OF l(1)]
      using absorb_block [OF l(2), of f "f st (md_rest m @ [0x80] @ replicate (63 - n) 0)" "[]"] by (simp add: absorb_small)
    finally show ?thesis using False by simp
  qed
qed

section \<open>The interface\<close>

text \<open>
  \<open>if (f(..) < 0) return r;\<close> followed by the rest of the function, where \<open>f\<close> may also fail to return (\<open>None\<close>).
\<close>

definition or_ret :: "int \<Rightarrow> 'a outcome option \<Rightarrow> ('a \<Rightarrow> 'b outcome option) \<Rightarrow> 'b outcome option" where
  "or_ret r m f = (case m of None \<Rightarrow> None | Some Fault \<Rightarrow> Some Fault | Some (Ret _) \<Rightarrow> Some (Ret r) | Some (Ok x) \<Rightarrow> f x)"

lemma or_ret_simps [simp]:
  "or_ret r None f = None" "or_ret r (Some Fault) f = Some Fault" "or_ret r (Some (Ret r')) f = Some (Ret r)"
  "or_ret r (Some (Ok x)) f = f x"
  by (simp_all add: or_ret_def)

text \<open>
  A hash over a vector of elements: for elements that \<open>fits\<close> accepts, the function \<open>vec\<close> computes the hash \<open>h\<close>
  of \<open>mac_len\<close> bytes of their concatenation; keys and hashes are such elements.
\<close>

locale hash_vector =
  fixes vec :: "bytes list \<Rightarrow> bytes outcome option" and h :: "bytes \<Rightarrow> bytes" and mac_len :: nat and fits :: "bytes \<Rightarrow> bool"
  assumes vec: "list_all fits es \<Longrightarrow> vec es = Some (Ok (h (concat es)))"
    and length_h: "length (h m) = mac_len"
    and mac_len: "mac_len \<le> 64"
    and fits_small: "length e \<le> 64 \<Longrightarrow> fits e"

end
