(* ===== verification/Sha1.thy ===== *)
theory Sha1
  imports MdHash "HOL-Library.Monad_Syntax"
begin

text \<open>
  SHA-1: \<open>src/mininet-wifi/hostap/src/crypto/sha1-internal.c\<close> with the context of \<open>sha1_i.h\<close>, on a little-endian
  machine, against FIPS 180-4.  Lengths and counters are 32-bit words, as in \<open>SHA1Update\<close>; an access outside the
  data or the buffer is \<open>Fault\<close>, a loop that does not end \<open>None\<close>.
\<close>

unbundle bit_operations_syntax

section \<open>The transform\<close>

definition rol :: "u32 \<Rightarrow> nat \<Rightarrow> u32" where
  "rol v n = push_bit n v OR drop_bit (32 - n) v"

text \<open>The block as 16 words of the machine, \<open>block->l\<close>.\<close>

definition le_words :: "bytes \<Rightarrow> u32 list" where
  "le_words b = map (\<lambda>i. w32 (b ! (4 * i + 3)) (b ! (4 * i + 2)) (b ! (4 * i + 1)) (b ! (4 * i))) [0..<16]"

text \<open>The macros update the workspace; the value they yield is the word they have stored.  \<open>i & 15\<close> is \<open>i mod 16\<close>.\<close>

definition blk0 :: "nat \<Rightarrow> u32 list \<Rightarrow> u32 list" where
  "blk0 i l = l[i := (rol (l ! i) 24 AND 0xFF00FF00) OR (rol (l ! i) 8 AND 0x00FF00FF)]"

definition blk :: "nat \<Rightarrow> u32 list \<Rightarrow> u32 list" where
  "blk i l = l[i mod 16 := rol (l ! ((i + 13) mod 16) XOR l ! ((i + 8) mod 16) XOR l ! ((i + 2) mod 16) XOR l ! (i mod 16)) 1]"

text \<open>
  The working variables in the roles \<open>v, w, x, y, z\<close> of a macro call; the next call of the unrolled loop has \<open>z\<close>
  in the role of \<open>v\<close>, and so on round.
\<close>

type_synonym work = "u32 list \<times> u32 \<times> u32 \<times> u32 \<times> u32 \<times> u32"

definition R_step :: "(u32 \<Rightarrow> u32 \<Rightarrow> u32 \<Rightarrow> u32) \<Rightarrow> u32 \<Rightarrow> (nat \<Rightarrow> u32 list \<Rightarrow> u32 list) \<Rightarrow> nat \<Rightarrow> work \<Rightarrow> work" where
  "R_step f k block i = (\<lambda>(l, v, w, x, y, z).
    let l = block i l; z = z + (f w x y + l ! (i mod 16) + k + rol v 5); w = rol w 30 in (l, z, v, w, x, y))"

definition R0 :: "nat \<Rightarrow> work \<Rightarrow> work" where
  "R0 = R_step (\<lambda>w x y. (w AND (x XOR y)) XOR y) 0x5A827999 blk0"
definition R1 :: "nat \<Rightarrow> work \<Rightarrow> work" where
  "R1 = R_step (\<lambda>w x y. (w AND (x XOR y)) XOR y) 0x5A827999 blk"
definition R2 :: "nat \<Rightarrow> work \<Rightarrow> work" where
  "R2 = R_step (\<lambda>w x y. w XOR x XOR y) 0x6ED9EBA1 blk"
definition R3 :: "nat \<Rightarrow> work \<Rightarrow> work" where
  "R3 = R_step (\<lambda>w x y. ((w OR x) AND y) OR (w AND x)) 0x8F1BBCDC blk"
definition R4 :: "nat \<Rightarrow> work \<Rightarrow> work" where
  "R4 = R_step (\<lambda>w x y. w XOR x XOR y) 0xCA62C1D6 blk"

definition SHA1Transform :: "u32 list \<Rightarrow> bytes \<Rightarrow> u32 list" where
  "SHA1Transform st buffer =
    (let s = (le_words buffer, st ! 0, st ! 1, st ! 2, st ! 3, st ! 4);
         s = fold R0 [0..<16] s; s = fold R1 [16..<20] s; s = fold R2 [20..<40] s; s = fold R3 [40..<60] s;
         (_, a, b, c, d, e) = fold R4 [60..<80] s
     in map2 (+) st [a, b, c, d, e])"

section \<open>The context\<close>

record sha1_context =
  s1_state :: "u32 list"
  s1_count0 :: u32
  s1_count1 :: u32
  s1_buffer :: bytes

definition sha1_iv :: "u32 list" where
  "sha1_iv = [0x67452301, 0xEFCDAB89, 0x98BADCFE, 0x10325476, 0xC3D2E1F0]"

definition SHA1Init :: "bytes \<Rightarrow> sha1_context" where
  "SHA1Init junk = \<lparr>s1_state = sha1_iv, s1_count0 = 0, s1_count1 = 0, s1_buffer = junk\<rparr>"

text \<open>\<open>for ( ; i + 63 < len; i += 64) SHA1Transform(context->state, &data[i]);\<close>\<close>

partial_function (option) transform_loop :: "u32 list \<Rightarrow> bytes \<Rightarrow> u32 \<Rightarrow> u32 \<Rightarrow> (u32 list \<times> u32) outcome option" where
  "transform_loop st data i len =
    (if i + 63 < len then
       if length data < unat i + 64 then Some Fault
       else transform_loop (SHA1Transform st (get_bytes data (unat i) 64)) data (i + 64) len
     else Some (Ok (st, i)))"

declare transform_loop.simps [code]

text \<open>\<open>os_memcpy(&context->buffer[j], &data[i], n);\<close>\<close>

definition copy_in :: "bytes \<Rightarrow> u32 \<Rightarrow> bytes \<Rightarrow> u32 \<Rightarrow> u32 \<Rightarrow> bytes outcome" where
  "copy_in buf j data i n =
    (if unat j + unat n \<le> 64 \<and> unat i + unat n \<le> length data
     then Ok (put_bytes buf (unat j) (get_bytes data (unat i) (unat n))) else Fault)"

definition SHA1Update :: "sha1_context \<Rightarrow> bytes \<Rightarrow> u32 \<Rightarrow> sha1_context outcome option" where
  "SHA1Update ctx data len =
    (let j = drop_bit 3 (s1_count0 ctx) AND 63;
         c0 = s1_count0 ctx + push_bit 3 len;
         c1 = (if c0 < push_bit 3 len then s1_count1 ctx + 1 else s1_count1 ctx) + drop_bit 29 len;
         ctx = ctx\<lparr>s1_count0 := c0, s1_count1 := c1\<rparr>
     in if 63 < j + len then
          or_ret 0 (Some (copy_in (s1_buffer ctx) j data 0 (64 - j))) (\<lambda>buf.
          or_ret 0 (transform_loop (SHA1Transform (s1_state ctx) buf) data (64 - j) len) (\<lambda>(st, i).
          or_ret 0 (Some (copy_in buf 0 data i (len - i))) (\<lambda>buf.
          Some (Ok (ctx\<lparr>s1_state := st, s1_buffer := buf\<rparr>)))))
        else
          or_ret 0 (Some (copy_in (s1_buffer ctx) j data 0 len)) (\<lambda>buf. Some (Ok (ctx\<lparr>s1_buffer := buf\<rparr>))))"

text \<open>\<open>while ((context->count[0] & 504) != 448) SHA1Update(context, "\0", 1);\<close>\<close>

partial_function (option) pad_loop :: "sha1_context \<Rightarrow> sha1_context outcome option" where
  "pad_loop ctx =
    (if s1_count0 ctx AND 504 \<noteq> 448 then do {
       r \<leftarrow> SHA1Update ctx [0] 1;
       case r of Ok ctx \<Rightarrow> pad_loop ctx | Ret x \<Rightarrow> Some (Ret x) | Fault \<Rightarrow> Some Fault
     }
     else Some (Ok ctx))"

declare pad_loop.simps [code]

definition SHA1Final :: "sha1_context \<Rightarrow> bytes outcome option" where
  "SHA1Final ctx =
    (let finalcount = map (\<lambda>i. ucast (drop_bit ((3 - i mod 4) * 8) (if 4 \<le> i then s1_count0 ctx else s1_count1 ctx) AND 255)) [0..<8]
     in or_ret 0 (SHA1Update ctx [0x80] 1) (\<lambda>ctx.
        or_ret 0 (pad_loop ctx) (\<lambda>ctx.
        or_ret 0 (SHA1Update ctx finalcount 8) (\<lambda>ctx.
        Some (Ok (map (\<lambda>i. ucast (drop_bit ((3 - i mod 4) * 8) (s1_state ctx ! (i div 4)) AND 255)) [0..<20]))))))"

primrec sha1_elements :: "sha1_context \<Rightarrow> bytes list \<Rightarrow> sha1_context outcome option" where
  "sha1_elements ctx [] = Some (Ok ctx)"
| "sha1_elements ctx (e # es) = or_ret 0 (SHA1Update ctx e (of_nat (length e))) (\<lambda>ctx. sha1_elements ctx es)"

definition sha1_vector_on :: "bytes \<Rightarrow> bytes list \<Rightarrow> bytes outcome option" where
  "sha1_vector_on junk es = or_ret 0 (sha1_elements (SHA1Init junk) es) SHA1Final"

definition sha1_vector :: "bytes list \<Rightarrow> bytes outcome option" where
  "sha1_vector = sha1_vector_on (replicate 64 0)"

section \<open>The reference\<close>

definition fips_f :: "nat \<Rightarrow> u32 \<Rightarrow> u32 \<Rightarrow> u32 \<Rightarrow> u32" where
  "fips_f t x y z =
    (if t < 20 then (x AND y) XOR (NOT x AND z)
     else if 40 \<le> t \<and> t < 60 then (x AND y) XOR (x AND z) XOR (y AND z)
     else x XOR y XOR z)"

definition fips_K :: "nat \<Rightarrow> u32" where
  "fips_K t = (if t < 20 then 0x5A827999 else if t < 40 then 0x6ED9EBA1 else if t < 60 then 0x8F1BBCDC else 0xCA62C1D6)"

fun fips_W1 :: "bytes \<Rightarrow> nat \<Rightarrow> u32" where
  "fips_W1 b t =
    (if t < 16 then w32 (b ! (4 * t)) (b ! (4 * t + 1)) (b ! (4 * t + 2)) (b ! (4 * t + 3))
     else word_rotl 1 (fips_W1 b (t - 3) XOR fips_W1 b (t - 8) XOR fips_W1 b (t - 14) XOR fips_W1 b (t - 16)))"

declare fips_W1.simps [simp del]

primrec fips_rounds1 :: "bytes \<Rightarrow> nat \<Rightarrow> u32 \<times> u32 \<times> u32 \<times> u32 \<times> u32 \<Rightarrow> u32 \<times> u32 \<times> u32 \<times> u32 \<times> u32" where
  "fips_rounds1 m 0 s = s"
| "fips_rounds1 m (Suc t) s = (case fips_rounds1 m t s of (a, b, c, d, e) \<Rightarrow>
     (word_rotl 5 a + fips_f t b c d + e + fips_K t + fips_W1 m t, a, word_rotl 30 b, c, d))"

definition fips_sha1_block :: "u32 list \<Rightarrow> bytes \<Rightarrow> u32 list" where
  "fips_sha1_block st m = (case fips_rounds1 m 80 (st ! 0, st ! 1, st ! 2, st ! 3, st ! 4) of
     (a, b, c, d, e) \<Rightarrow> map2 (+) st [a, b, c, d, e])"

definition sha1 :: "bytes \<Rightarrow> bytes" where
  "sha1 m = concat (map WPA_PUT_BE32 (md_absorb fips_sha1_block sha1_iv (md_pad m)))"

section \<open>The transform computes the reference\<close>

lemma rol_fips: "0 < n \<Longrightarrow> n < 32 \<Longrightarrow> rol x n = word_rotl n x"
proof (rule bit_word_eqI)
  fix k
  assume n: "0 < n" "n < 32" and k: "k < LENGTH(32)"
  have hi: "\<not> bit x i" if "32 \<le> i" for i using that bit_imp_le_length [of x i] by auto
  show "bit (rol x n) k = bit (word_rotl n x) k"
  proof (cases "n \<le> k")
    case True
    then have "(k + (32 - n)) mod 32 = k - n" using n k by (simp add: mod_if)
    then show ?thesis using True n k hi [of "32 - n + k"] by (simp add: rol_def bit_simps bit_word_rotl_iff)
  next
    case False
    then have "(k + (32 - n)) mod 32 = 32 - n + k" using n k by simp
    then show ?thesis using False n k by (simp add: rol_def bit_simps bit_word_rotl_iff)
  qed
qed

lemma f_fips:
  "(w AND (x XOR y)) XOR y = (w AND x) XOR (NOT w AND y)"
  "((w OR x) AND y) OR (w AND x) = (w AND x) XOR (w AND y) XOR (x AND (y :: u32))"
  by (rule bit_word_eqI, auto simp: bit_simps)+

text \<open>The byte swap of \<open>blk0\<close>.\<close>

lemma blk0_swap: "(rol (w32 d c b a) 24 AND 0xFF00FF00) OR (rol (w32 d c b a) 8 AND 0x00FF00FF) = w32 a b c d"
proof -
  have k: "0xFF00FF00 = w32 0xff 0 0xff 0" "0x00FF00FF = w32 0 0xff 0 0xff" by (simp_all add: w32_def)
  have r: "rol (w32 d c b a) 24 = w32 a d c b" "rol (w32 d c b a) 8 = w32 c b a d"
    by (rule bit_word_eqI, auto simp: rol_def bit_w32 bit_simps)+
  have m: "(0xff :: u8) = - 1" by simp
  show ?thesis unfolding k r m by (rule bit_word_eqI) (auto simp: bit_w32 bit_simps)
qed

text \<open>The ring of 16 words before round \<open>t\<close>: the last 16 words of the schedule, and the words of the block not yet swapped.\<close>

definition ring :: "bytes \<Rightarrow> nat \<Rightarrow> u32 list \<Rightarrow> bool" where
  "ring m t l \<longleftrightarrow> length l = 16 \<and> (\<forall>s<t. t \<le> s + 16 \<longrightarrow> l ! (s mod 16) = fips_W1 m s) \<and>
    (\<forall>j<16. t \<le> j \<longrightarrow> l ! j = le_words m ! j)"

lemma mod_16_neq: "s < t \<Longrightarrow> t < s + 16 \<Longrightarrow> s mod 16 \<noteq> t mod (16 :: nat)"
proof
  assume "s < t" "t < s + 16" "s mod 16 = t mod 16"
  then have "16 dvd t - s" "0 < t - s" "t - s < 16" using mod_eq_dvd_iff_nat [of s t 16] by auto
  then show False by (auto dest: dvd_imp_le)
qed

lemma ring_step:
  assumes "ring m t l" "l' = l[t mod 16 := fips_W1 m t]"
  shows "ring m (Suc t) l'" "l' ! (t mod 16) = fips_W1 m t"
proof -
  have l: "length l = 16" "\<And>s. s < t \<Longrightarrow> t \<le> s + 16 \<Longrightarrow> l ! (s mod 16) = fips_W1 m s"
    "\<And>j. j < 16 \<Longrightarrow> t \<le> j \<Longrightarrow> l ! j = le_words m ! j" using assms(1) by (auto simp: ring_def)
  then show *: "l' ! (t mod 16) = fips_W1 m t" by (simp add: assms(2))
  have "l' ! (s mod 16) = fips_W1 m s" if "s < Suc t" "Suc t \<le> s + 16" for s
    using that l(2) [of s] mod_16_neq [of s t] * by (cases "s = t") (auto simp: assms(2))
  moreover have "l' ! j = le_words m ! j" if "j < 16" "Suc t \<le> j" for j
    using that l(3) [of j] by (simp add: assms(2))
  ultimately show "ring m (Suc t) l'" using l(1) by (simp add: ring_def assms(2))
qed

lemma blk0_W: "ring m t l \<Longrightarrow> t < 16 \<Longrightarrow> blk0 t l = l[t mod 16 := fips_W1 m t]"
  by (simp add: blk0_def ring_def le_words_def blk0_swap fips_W1.simps [of m t])

lemma blk_W:
  assumes r: "ring m t l" and t: "16 \<le> t"
  shows "blk t l = l[t mod 16 := fips_W1 m t]"
proof -
  have s: "l ! (s mod 16) = fips_W1 m s" if "s < t" "t \<le> s + 16" for s using r that by (simp add: ring_def)
  have i: "(t + 13) mod 16 = (t - 3) mod 16" "(t + 8) mod 16 = (t - 8) mod 16" "(t + 2) mod 16 = (t - 14) mod 16"
    "t mod 16 = (t - 16) mod 16"
    using t mod_add_self2 [of "t - 3" 16] mod_add_self2 [of "t - 8" 16] mod_add_self2 [of "t - 14" 16]
      mod_add_self2 [of "t - 16" 16] by (simp_all add: add.commute)
  have "l ! ((t + 13) mod 16) = fips_W1 m (t - 3)" "l ! ((t + 8) mod 16) = fips_W1 m (t - 8)"
    "l ! ((t + 2) mod 16) = fips_W1 m (t - 14)" "l ! (t mod 16) = fips_W1 m (t - 16)"
    unfolding i using t by (intro s; simp)+
  then show ?thesis using t by (simp add: blk_def rol_fips fips_W1.simps [of m t])
qed

definition before_round :: "bytes \<Rightarrow> u32 \<times> u32 \<times> u32 \<times> u32 \<times> u32 \<Rightarrow> nat \<Rightarrow> work \<Rightarrow> bool" where
  "before_round m s t st \<longleftrightarrow> (\<exists>l. st = (l, fips_rounds1 m t s) \<and> ring m t l)"

lemma R_step_round:
  assumes b: "before_round m s t st" and W: "\<And>l. ring m t l \<Longrightarrow> block t l = l[t mod 16 := fips_W1 m t]"
    and f: "\<And>x y z. f x y z = fips_f t x y z" "k = fips_K t"
  shows "before_round m s (Suc t) (R_step f k block t st)"
proof -
  obtain l where l: "st = (l, fips_rounds1 m t s)" "ring m t l" using b by (auto simp: before_round_def)
  note r = ring_step [OF l(2) W [OF l(2)]]
  obtain a b' c d e where a: "fips_rounds1 m t s = (a, b', c, d, e)" by (cases "fips_rounds1 m t s") auto
  have "R_step f k block t st = (block t l, fips_rounds1 m (Suc t) s)"
    using r(2) f by (simp add: R_step_def Let_def l(1) a rol_fips add_ac)
  then show ?thesis using r(1) by (auto simp: before_round_def)
qed

lemma rounds_R:
  assumes "\<And>t x. i \<le> t \<Longrightarrow> t < j \<Longrightarrow> before_round m s t x \<Longrightarrow> before_round m s (Suc t) (R t x)" "i \<le> j"
    "before_round m s i x"
  shows "before_round m s j (fold R [i..<j] x)"
  using assms(2,1)
proof (induction j rule: dec_induct)
  case base
  then show ?case using assms(3) by simp
next
  case (step j)
  then have "before_round m s j (fold R [i..<j] x)" by simp
  then show ?case using step(1) step.prems [of j] by simp
qed

lemma transform_rounds:
  assumes "length m = 64"
  shows "before_round m s 80 (fold R4 [60..<80] (fold R3 [40..<60] (fold R2 [20..<40] (fold R1 [16..<20]
    (fold R0 [0..<16] (le_words m, s))))))"
proof -
  have "before_round m s 0 (le_words m, s)" by (simp add: before_round_def ring_def le_words_def)
  then have "before_round m s 16 (fold R0 [0..<16] (le_words m, s))"
    by (rule rounds_R [rotated 2]) (auto simp: R0_def fips_f_def fips_K_def f_fips blk0_W intro!: R_step_round)
  then have "before_round m s 20 (fold R1 [16..<20] (fold R0 [0..<16] (le_words m, s)))"
    by (rule rounds_R [rotated 2]) (auto simp: R1_def fips_f_def fips_K_def f_fips blk_W intro!: R_step_round)
  then have "before_round m s 40 (fold R2 [20..<40] (fold R1 [16..<20] (fold R0 [0..<16] (le_words m, s))))"
    by (rule rounds_R [rotated 2]) (auto simp: R2_def fips_f_def fips_K_def f_fips blk_W intro!: R_step_round)
  then have "before_round m s 60 (fold R3 [40..<60] (fold R2 [20..<40] (fold R1 [16..<20] (fold R0 [0..<16] (le_words m, s)))))"
    by (rule rounds_R [rotated 2]) (auto simp: R3_def fips_f_def fips_K_def f_fips blk_W intro!: R_step_round)
  then show ?thesis
    by (rule rounds_R [rotated 2]) (auto simp: R4_def fips_f_def fips_K_def f_fips blk_W intro!: R_step_round)
qed

lemma transform_fips: "length m = 64 \<Longrightarrow> SHA1Transform st m = fips_sha1_block st m"
  using transform_rounds [of m "(st ! 0, st ! 1, st ! 2, st ! 3, st ! 4)"]
  by (auto simp: SHA1Transform_def fips_sha1_block_def before_round_def Let_def split: prod.splits)

lemma length_block1: "length st = 5 \<Longrightarrow> length (fips_sha1_block st m) = 5"
  by (simp add: fips_sha1_block_def split: prod.splits)

lemma sha1_code:
  "md_absorb SHA1Transform sha1_iv m = md_absorb fips_sha1_block sha1_iv m \<and> length (md_absorb fips_sha1_block sha1_iv m) = 5"
  by (rule absorb_cong) (simp_all add: transform_fips length_block1 sha1_iv_def)

section \<open>The context\<close>

text \<open>The context after the message \<open>m\<close>; the two counters are the length in bits.\<close>

definition sha1_ctx :: "bytes \<Rightarrow> sha1_context \<Rightarrow> bool" where
  "sha1_ctx m ctx \<longleftrightarrow>
    absorbed SHA1Transform sha1_iv m (s1_state ctx) (s1_buffer ctx) (length m mod 64) \<and>
    s1_count0 ctx = of_nat (8 * length m) \<and> s1_count1 ctx = of_nat (8 * length m div 2 ^ 32)"

lemma ctx1_init: "length junk = 64 \<Longrightarrow> sha1_ctx [] (SHA1Init junk)"
  by (simp add: sha1_ctx_def SHA1Init_def absorbed_init)

lemma unat_u32: "n < 2 ^ 32 \<Longrightarrow> unat (of_nat n :: u32) = n"
  by (simp add: unat_of_nat)

lemma fill_of_count: "drop_bit 3 (of_nat (8 * n) :: u32) AND 63 = of_nat (n mod 64)"
proof -
  have "unat (of_nat (8 * n) :: u32) = 8 * (n mod 2 ^ 29)"
    unfolding unat_of_nat using mult_mod_right [of 8 n "2 ^ 29"] by simp
  then have "unat (drop_bit 3 (of_nat (8 * n) :: u32)) = n mod 2 ^ 29"
    by (simp only: drop_bit_eq_div unat_div) simp
  moreover have "unat (x AND 63) = unat x mod 64" for x :: u32
  proof -
    have "x AND 63 = take_bit 6 x" by (simp add: take_bit_eq_mask mask_eq_exp_minus_1)
    moreover have "take_bit 6 (unat x) = unat x mod 64" by (simp add: take_bit_eq_mod)
    ultimately show ?thesis by (simp only: unsigned_take_bit_eq)
  qed
  ultimately have "unat (drop_bit 3 (of_nat (8 * n) :: u32) AND 63) = n mod 64" by (simp only:) (simp add: mod_mod_cancel)
  then show ?thesis by (simp add: word_unat_eq_iff unat_u32)
qed

lemma count0_add: "of_nat (8 * a) + push_bit 3 (of_nat n) = (of_nat (8 * (a + n)) :: u32)"
  by (simp add: push_bit_eq_mult algebra_simps)

lemma count1_add:
  assumes "n < 2 ^ 32"
  shows "(if (of_nat (8 * a) :: u32) + push_bit 3 (of_nat n) < push_bit 3 (of_nat n) then of_nat (8 * a div 2 ^ 32) + 1
      else of_nat (8 * a div 2 ^ 32)) + drop_bit 29 (of_nat n) = (of_nat (8 * (a + n) div 2 ^ 32) :: u32)"
proof -
  let ?M = "2 ^ 32 :: nat"
  have p: "push_bit 3 (of_nat n) = (of_nat (8 * n) :: u32)" by (simp add: push_bit_eq_mult)
  have u: "unat (of_nat k :: u32) = k mod ?M" for k by (simp add: unat_of_nat)
  define x y where "x = 8 * a mod ?M" and "y = 8 * n mod ?M"
  have xy: "x < ?M" "y < ?M" by (simp_all add: x_def y_def)
  have sum: "unat (of_nat (8 * a) + of_nat (8 * n) :: u32) = (x + y) mod ?M"
    by (simp only: of_nat_add [symmetric] u x_def y_def mod_add_eq)
  have "(x + y) mod ?M < y \<longleftrightarrow> ?M \<le> x + y"
  proof (cases "?M \<le> x + y")
    case True
    then have "(x + y) mod ?M = x + y - ?M" using xy by (simp add: le_mod_geq)
    then show ?thesis using True xy by simp
  qed simp
  then have carry: "(of_nat (8 * a) :: u32) + of_nat (8 * n) < of_nat (8 * n) \<longleftrightarrow> ?M \<le> x + y"
    unfolding word_less_nat_alt sum u y_def .
  have "(x + y) div ?M = (if ?M \<le> x + y then 1 else 0)" using xy by (auto simp: div_if)
  then have "8 * (a + n) div ?M = 8 * a div ?M + 8 * n div ?M + (if ?M \<le> x + y then 1 else 0)"
    using div_add1_eq [of "8 * a" "8 * n" ?M] by (simp add: x_def y_def distrib_left)
  moreover have "drop_bit 29 (of_nat n :: u32) = of_nat (8 * n div ?M)"
  proof -
    have "8 * n div ?M = n div 2 ^ 29" using div_mult_mult1 [of 8 n "2 ^ 29"] by simp
    moreover have "unat (drop_bit 29 (of_nat n :: u32)) = n div 2 ^ 29"
      using assms by (simp add: drop_bit_eq_div unat_div unat_u32)
    moreover have "n div 2 ^ 29 < 2 ^ 32" using assms by (simp add: div_less_dividend less_mult_imp_div_less)
    ultimately show ?thesis by (simp only: word_unat_eq_iff unat_u32)
  qed
  ultimately show ?thesis unfolding p carry by simp
qed

lemma transform_loop_ctx:
  assumes "k \<le> n" "n \<le> 2 ^ 32 - 64" "n \<le> length data"
    "absorbed SHA1Transform sha1_iv (m @ take k data) st buf 0"
  shows "\<exists>st' k'. transform_loop st data (of_nat k) (of_nat n) = Some (Ok (st', of_nat k')) \<and> k \<le> k' \<and> k' \<le> n \<and> n < k' + 64 \<and>
    absorbed SHA1Transform sha1_iv (m @ take k' data) st' buf 0"
  using assms
proof (induction "n - k" arbitrary: k st rule: less_induct)
  case less
  have "of_nat k + 63 = (of_nat (k + 63) :: u32)" by simp
  moreover have "unat (of_nat (k + 63) :: u32) = k + 63" "unat (of_nat n :: u32) = n"
    using less.prems(1,2) by (intro unat_u32; simp)+
  ultimately have c: "of_nat k + 63 < (of_nat n :: u32) \<longleftrightarrow> k + 63 < n" by (simp only: word_less_nat_alt)
  show ?case
  proof (cases "k + 63 < n")
    case False
    then have "transform_loop st data (of_nat k) (of_nat n) = Some (Ok (st, of_nat k))"
      using c by (simp add: transform_loop.simps [of st data])
    then show ?thesis using False less.prems by (intro exI [of _ st] exI [of _ k]) auto
  next
    case True
    let ?b = "get_bytes data k 64"
    have k: "unat (of_nat k :: u32) = k" using less.prems(1,2) by (intro unat_u32) simp
    have b: "length ?b = 64" "take (k + 64) data = take k data @ ?b"
      using True less.prems(3) by (simp_all add: get_bytes_def take_add)
    have "absorbed SHA1Transform sha1_iv (m @ take (k + 64) data) (SHA1Transform st ?b) buf 0"
      using absorbed_block [OF less.prems(4) b(1)] by (simp add: b(2))
    have "n - (k + 64) < n - k" "k + 64 \<le> n" using True by simp_all
    from less.hyps [OF this less.prems(2,3) \<open>absorbed _ _ (m @ take (k + 64) data) _ _ _\<close>] obtain st' k' where
      r: "transform_loop (SHA1Transform st ?b) data (of_nat (k + 64)) (of_nat n) = Some (Ok (st', of_nat k'))" "k + 64 \<le> k'"
        "k' \<le> n" "n < k' + 64" "absorbed SHA1Transform sha1_iv (m @ take k' data) st' buf 0"
      by blast
    have "transform_loop st data (of_nat k) (of_nat n) = transform_loop (SHA1Transform st ?b) data (of_nat (k + 64)) (of_nat n)"
      using True c k less.prems(3) by (subst transform_loop.simps) simp
    then show ?thesis using r by (intro exI [of _ st'] exI [of _ k']) simp
  qed
qed

lemma copy_in_Ok:
  assumes "j < 2 ^ 32" "i < 2 ^ 32" "n < 2 ^ 32" "j + n \<le> 64" "i + n \<le> length data"
  shows "copy_in buf (of_nat j) data (of_nat i) (of_nat n) = Ok (put_bytes buf j (take n (drop i data)))"
  using assms by (simp add: copy_in_def unat_u32 get_bytes_def)

lemma update_ctx:
  assumes ctx: "sha1_ctx m ctx" and n: "n \<le> 2 ^ 32 - 64" "n \<le> length data"
  shows "\<exists>ctx'. SHA1Update ctx data (of_nat n) = Some (Ok ctx') \<and> sha1_ctx (m @ take n data) ctx'"
proof -
  let ?L = "length m"
  define r where "r = ?L mod 64"
  have a: "absorbed SHA1Transform sha1_iv m (s1_state ctx) (s1_buffer ctx) r" and r: "r < 64"
    using ctx by (simp_all add: sha1_ctx_def r_def)
  define ctx1 where "ctx1 = ctx\<lparr>s1_count0 := of_nat (8 * (?L + n)), s1_count1 := of_nat (8 * (?L + n) div 2 ^ 32)\<rparr>"
  have "n < 2 ^ 32" using n(1) by simp
  note count = count0_add [of ?L n] count1_add [OF this, of ?L, unfolded count0_add]
  have c1: "s1_count0 ctx = of_nat (8 * ?L)" "s1_count1 ctx = of_nat (8 * ?L div 2 ^ 32)" using ctx by (simp_all only: sha1_ctx_def)
  have "of_nat r + of_nat n = (of_nat (r + n) :: u32)" by simp
  moreover have "unat (of_nat (r + n) :: u32) = r + n" using r n(1) by (intro unat_u32) simp
  ultimately have big: "63 < of_nat r + (of_nat n :: u32) \<longleftrightarrow> 63 < r + n" by (simp only: word_less_nat_alt) simp
  have minus: "64 - of_nat r = (of_nat (64 - r) :: u32)" using r by (simp add: of_nat_diff)
  have upd: "SHA1Update ctx data (of_nat n) = (if 63 < r + n then
          or_ret 0 (Some (copy_in (s1_buffer ctx) (of_nat r) data 0 (of_nat (64 - r)))) (\<lambda>buf.
          or_ret 0 (transform_loop (SHA1Transform (s1_state ctx) buf) data (of_nat (64 - r)) (of_nat n)) (\<lambda>(st, i).
          or_ret 0 (Some (copy_in buf 0 data i (of_nat n - i))) (\<lambda>buf.
          Some (Ok (ctx1\<lparr>s1_state := st, s1_buffer := buf\<rparr>)))))
        else
          or_ret 0 (Some (copy_in (s1_buffer ctx) (of_nat r) data 0 (of_nat n))) (\<lambda>buf. Some (Ok (ctx1\<lparr>s1_buffer := buf\<rparr>))))"
    unfolding SHA1Update_def Let_def c1 fill_of_count r_def [symmetric] count big minus ctx1_def by simp
  show ?thesis
  proof (cases "63 < r + n")
    case False
    have "copy_in (s1_buffer ctx) (of_nat r) data (of_nat 0) (of_nat n) = Ok (put_bytes (s1_buffer ctx) r (take n (drop 0 data)))"
      using False r n by (intro copy_in_Ok) simp_all
    moreover have "sha1_ctx (m @ take n data) (ctx1\<lparr>s1_buffer := put_bytes (s1_buffer ctx) r (take n data)\<rparr>)"
    proof -
      have l: "r + length (take n data) < 64" using False n(2) by simp
      have "(?L + n) mod 64 = (r + n) mod 64" by (simp add: r_def mod_add_left_eq)
      then have "(?L + n) mod 64 = r + n" using False by simp
      then show ?thesis using absorbed_part [OF a l] n(2) by (simp add: sha1_ctx_def ctx1_def)
    qed
    ultimately show ?thesis using False by (simp add: upd)
  next
    case True
    let ?d = "take (64 - r) data"
    let ?buf = "put_bytes (s1_buffer ctx) r ?d"
    have "copy_in (s1_buffer ctx) (of_nat r) data (of_nat 0) (of_nat (64 - r)) = Ok (put_bytes (s1_buffer ctx) r (take (64 - r) (drop 0 data)))"
      using True r n by (intro copy_in_Ok) simp_all
    then have c: "copy_in (s1_buffer ctx) (of_nat r) data 0 (of_nat (64 - r)) = Ok ?buf" by simp
    have d: "r + length ?d = 64" "64 - r \<le> n" using True r n(2) by simp_all
    from transform_loop_ctx [OF d(2) n absorbed_fill [OF a d(1)]] obtain st' k' where
      k: "transform_loop (SHA1Transform (s1_state ctx) ?buf) data (of_nat (64 - r)) (of_nat n) = Some (Ok (st', of_nat k'))"
        "k' \<le> n" "n < k' + 64" "absorbed SHA1Transform sha1_iv (m @ take k' data) st' ?buf 0" by blast
    have diff: "of_nat n - of_nat k' = (of_nat (n - k') :: u32)" using k(2) by (simp add: of_nat_diff)
    have "copy_in ?buf (of_nat 0) data (of_nat k') (of_nat (n - k')) = Ok (put_bytes ?buf 0 (take (n - k') (drop k' data)))"
      using k n by (intro copy_in_Ok) simp_all
    then have c2: "copy_in ?buf 0 data (of_nat k') (of_nat n - of_nat k') = Ok (put_bytes ?buf 0 (take (n - k') (drop k' data)))"
      unfolding diff by simp
    have e: "(m @ take k' data) @ take (n - k') (drop k' data) = m @ take n data"
      using k(2) by (simp flip: take_add)
    have l: "0 + length (take (n - k') (drop k' data)) < 64" using k(3) by simp
    from absorbed_part [OF k(4) l] have f: "absorbed SHA1Transform sha1_iv (m @ take n data) st'
        (put_bytes ?buf 0 (take (n - k') (drop k' data))) (length (take (n - k') (drop k' data)))" unfolding e by simp
    then have "sha1_ctx (m @ take n data) (ctx1\<lparr>s1_state := st', s1_buffer := put_bytes ?buf 0 (take (n - k') (drop k' data))\<rparr>)"
      using n(2) by (auto simp: sha1_ctx_def ctx1_def absorbed_def)
    then show ?thesis using True by (simp add: upd c k(1) c2)
  qed
qed

section \<open>Padding and the digest\<close>

lemma count_and_504: "(of_nat (8 * n) :: u32) AND 504 = of_nat (8 * (n mod 64))"
proof -
  have e: "(of_nat (8 * n) :: u32) = push_bit 3 (of_nat n)" "(of_nat (8 * (n mod 64)) :: u32) = push_bit 3 (of_nat (n mod 64))"
    by (simp_all add: push_bit_eq_mult)
  have "(504 :: u32) = push_bit 3 (mask 6)" by (simp add: mask_eq_exp_minus_1)
  moreover have "(of_nat n :: u32) AND mask 6 = of_nat (n mod 64)"
  proof -
    have "take_bit 6 n = n mod 64" by (simp add: take_bit_eq_mod)
    then have "take_bit 6 (of_nat n :: u32) = of_nat (n mod 64)" using take_bit_of_nat [of 6 n, where 'a = u32] by (simp only:)
    then show ?thesis by (simp only: take_bit_eq_mask)
  qed
  ultimately show ?thesis unfolding e by (simp only: push_bit_and [symmetric])
qed

lemma count_448: "sha1_ctx m ctx \<Longrightarrow> s1_count0 ctx AND 504 = 448 \<longleftrightarrow> length m mod 64 = 56"
proof -
  assume "sha1_ctx m ctx"
  then have "s1_count0 ctx AND 504 = of_nat (8 * (length m mod 64))" by (simp only: sha1_ctx_def count_and_504)
  moreover have "unat (of_nat (8 * (length m mod 64)) :: u32) = 8 * (length m mod 64)"
    by (rule unat_u32) (rule le_less_trans [of _ "8 * 64"], simp_all add: order_less_imp_le)
  moreover have "unat (448 :: u32) = 448" by simp
  ultimately have "s1_count0 ctx AND 504 = 448 \<longleftrightarrow> 8 * (length m mod 64) = 448" by (simp only: word_unat_eq_iff)
  then show ?thesis by arith
qed

lemma update_byte: "sha1_ctx m ctx \<Longrightarrow> \<exists>ctx'. SHA1Update ctx [b] 1 = Some (Ok ctx') \<and> sha1_ctx (m @ [b]) ctx'"
  using update_ctx [of m ctx 1 "[b]"] by simp

lemma pad_loop_ctx:
  "sha1_ctx m ctx \<Longrightarrow> (length m + k) mod 64 = 56 \<Longrightarrow> k < 64 \<Longrightarrow>
    \<exists>ctx'. pad_loop ctx = Some (Ok ctx') \<and> sha1_ctx (m @ replicate k 0) ctx'"
proof (induction k arbitrary: m ctx)
  case 0
  then show ?case using count_448 [OF 0(1)] by (subst pad_loop.simps) simp
next
  case (Suc k)
  obtain c where c: "SHA1Update ctx [0] 1 = Some (Ok c)" "sha1_ctx (m @ [0]) c" using update_byte [OF Suc.prems(1)] by blast
  have "length m mod 64 \<noteq> 56"
  proof
    assume "length m mod 64 = 56"
    then have "(56 + Suc k) mod 64 = 56" using Suc.prems(2) by (metis mod_add_left_eq)
    moreover have "(56 + Suc k) mod 64 = (if Suc k < 8 then 57 + k else k - 7)"
      using Suc.prems(3) le_mod_geq [of 64 "56 + Suc k"] by (cases "Suc k < 8") simp_all
    ultimately show False using Suc.prems(3) by (simp split: if_splits)
  qed
  then have "pad_loop ctx = pad_loop c" using count_448 [OF Suc.prems(1)] c(1) by (subst pad_loop.simps) simp
  moreover have "m @ replicate (Suc k) 0 = (m @ [0]) @ replicate k (0 :: u8)" by simp
  moreover have "(length (m @ [0]) + k) mod 64 = 56" "k < 64" using Suc.prems by simp_all
  ultimately show ?case using Suc.IH [OF c(2)] by metis
qed

lemma md_zeros_mod: "(n + 1 + md_zeros n) mod 64 = 56"
proof -
  define r where "r = n mod 64"
  then have r: "r < 64" by simp
  have "r + 1 + md_zeros n = 56 \<or> r + 1 + md_zeros n = 120"
    using md_zeros_cases [of n] r unfolding r_def by (cases "n mod 64 < 56") auto
  then have "(r + 1 + md_zeros n) mod 64 = 56" by auto
  then show ?thesis unfolding r_def by (metis mod_add_left_eq add.assoc)
qed

lemma md_zeros_less: "md_zeros n < 64"
  by (simp add: md_zeros_def)

lemma byte_of: "(ucast (x AND 255) :: u8) = ucast (x :: u32)"
  by (rule bit_word_eqI) (auto simp: and_255_mask bit_simps)

lemma put_be_digits: "map (\<lambda>i. ucast (drop_bit ((3 - i mod 4) * 8) w AND 255)) [0, 1, 2, 3] = WPA_PUT_BE32 w"
  by (simp add: WPA_PUT_BE32_def byte_of)

lemma finalcount:
  "map (\<lambda>i. ucast (drop_bit ((3 - i mod 4) * 8) (if 4 \<le> i then of_nat n else of_nat (n div 2 ^ 32) :: u32) AND 255)) [0..<8] =
    WPA_PUT_BE64 (of_nat n)"
proof -
  have hi: "ucast (drop_bit k (of_nat (n div 2 ^ 32) :: u32)) = (ucast (drop_bit (k + 32) (of_nat n :: u64)) :: u8)" if "k \<le> 24" for k
  proof -
    have "n div 2 ^ 32 = drop_bit 32 n" by (simp add: drop_bit_eq_div)
    then show ?thesis using that by (intro bit_word_eqI) (auto simp: bit_simps ac_simps)
  qed
  have lo: "ucast (drop_bit k (of_nat n :: u32)) = (ucast (drop_bit k (of_nat n :: u64)) :: u8)" if "k \<le> 24" for k
    using that by (intro bit_word_eqI) (auto simp: bit_simps)
  have "[0..<8] = [0, 1, 2, 3, 4, 5, 6, 7 :: nat]" by (simp add: upt_rec)
  then show ?thesis using hi [of 24] hi [of 16] hi [of 8] hi [of 0] lo [of 24] lo [of 16] lo [of 8] lo [of 0]
    by (simp add: byte_of WPA_PUT_BE64_def)
qed

lemma digest: "length st = 5 \<Longrightarrow>
  map (\<lambda>i. ucast (drop_bit ((3 - i mod 4) * 8) (st ! (i div 4)) AND 255)) [0..<20] = concat (map WPA_PUT_BE32 st)"
proof -
  assume "length st = 5"
  then obtain a b c d e where st: "st = [a, b, c, d, e]" by (auto simp: length_Suc_conv eval_nat_numeral)
  have "[0..<20] = [0, 1, 2, 3, 4, 5, 6, 7, 8, 9, 10, 11, 12, 13, 14, 15, 16, 17, 18, 19 :: nat]" by (simp add: upt_rec)
  then show ?thesis by (simp add: st byte_of WPA_PUT_BE32_def)
qed

lemma final_ctx:
  assumes "sha1_ctx m ctx"
  shows "SHA1Final ctx = Some (Ok (sha1 m))"
proof -
  have c: "s1_count0 ctx = of_nat (8 * length m)" "s1_count1 ctx = of_nat (8 * length m div 2 ^ 32)"
    using assms by (simp_all only: sha1_ctx_def)
  obtain c1 where c1: "SHA1Update ctx [0x80] 1 = Some (Ok c1)" "sha1_ctx (m @ [0x80]) c1" using update_byte [OF assms] by blast
  have "(length (m @ [0x80]) + md_zeros (length m)) mod 64 = 56" using md_zeros_mod [of "length m"] by simp
  from pad_loop_ctx [OF c1(2) this md_zeros_less] obtain c2 where
    c2: "pad_loop c1 = Some (Ok c2)" "sha1_ctx ((m @ [0x80]) @ replicate (md_zeros (length m)) 0) c2" by blast
  let ?f = "WPA_PUT_BE64 (of_nat (8 * length m))"
  obtain c3 where c3: "SHA1Update c2 ?f (of_nat 8) = Some (Ok c3)"
    "sha1_ctx (((m @ [0x80]) @ replicate (md_zeros (length m)) 0) @ ?f) c3"
    using update_ctx [OF c2(2), of 8 ?f] by (auto simp: byte_simps)
  then have "sha1_ctx (md_pad m) c3" by (simp add: md_pad_def)
  then have "s1_state c3 = md_absorb SHA1Transform sha1_iv (md_pad m)" by (simp add: sha1_ctx_def absorbed_def)
  then have "s1_state c3 = md_absorb fips_sha1_block sha1_iv (md_pad m)" "length (s1_state c3) = 5" using sha1_code by metis+
  then show ?thesis using c1(1) c2(1) c3(1) digest [of "s1_state c3"]
    unfolding SHA1Final_def c finalcount by (simp add: Let_def sha1_def)
qed

section \<open>Vectors\<close>

text \<open>The longest element \<open>SHA1Update\<close> handles: above it the sums \<open>j + len\<close> and \<open>i + 63\<close> wrap.\<close>

definition sha1_fits :: "bytes \<Rightarrow> bool" where
  "sha1_fits e \<longleftrightarrow> length e \<le> 2 ^ 32 - 64"

lemma elements_ctx:
  "sha1_ctx m ctx \<Longrightarrow> list_all sha1_fits es \<Longrightarrow>
    \<exists>ctx'. sha1_elements ctx es = Some (Ok ctx') \<and> sha1_ctx (m @ concat es) ctx'"
proof (induction es arbitrary: m ctx)
  case (Cons e es)
  obtain c where c: "SHA1Update ctx e (of_nat (length e)) = Some (Ok c)" "sha1_ctx (m @ e) c"
    using update_ctx [OF Cons.prems(1), of "length e" e] Cons.prems(2) by (auto simp: sha1_fits_def)
  then show ?case using Cons.IH [OF c(2)] Cons.prems(2) by simp
qed simp

lemma sha1_vector_on_fits:
  assumes "length junk = 64" "list_all sha1_fits es"
  shows "sha1_vector_on junk es = Some (Ok (sha1 (concat es)))"
  using elements_ctx [OF ctx1_init [OF assms(1)] assms(2)] by (auto simp: sha1_vector_on_def final_ctx)

lemma length_sha1: "length (sha1 m) = 20"
proof -
  have "length (md_absorb fips_sha1_block sha1_iv (md_pad m)) = 5" using sha1_code by blast
  then obtain a b c d e where "md_absorb fips_sha1_block sha1_iv (md_pad m) = [a, b, c, d, e]"
    by (auto simp: length_Suc_conv eval_nat_numeral)
  then show ?thesis by (simp add: sha1_def byte_simps)
qed

interpretation sha1_hash: hash_vector sha1_vector sha1 20 sha1_fits
  by unfold_locales (simp_all add: sha1_vector_def sha1_vector_on_fits length_sha1 sha1_fits_def)

text \<open>An element for which the sum wraps is copied behind the buffer.\<close>

lemma update_overflow:
  assumes "sha1_ctx m ctx" "length m mod 64 \<noteq> 0" "length e = 2 ^ 32 - length m mod 64"
  shows "SHA1Update ctx e (of_nat (length e)) = Some Fault"
proof -
  define r where "r = length m mod 64"
  have r: "0 < r" "r < 64" "length e = 2 ^ 32 - r" using assms by (simp_all add: r_def)
  have c: "s1_count0 ctx = of_nat (8 * length m)" using assms(1) by (simp only: sha1_ctx_def)
  have "of_nat r + of_nat (length e) = (of_nat (2 ^ 32) :: u32)" using r by (simp only: of_nat_add [symmetric]) simp
  also have "\<dots> = 0" by simp
  finally have z: "of_nat r + of_nat (length e) = (0 :: u32)" .
  have u: "unat (of_nat r :: u32) = r" "unat (of_nat (length e) :: u32) = length e" using r by (intro unat_u32; simp)+
  have "copy_in (s1_buffer ctx) (of_nat r) e 0 (of_nat (length e)) = Fault" using r u by (simp add: copy_in_def)
  then show ?thesis unfolding SHA1Update_def Let_def c fill_of_count r_def [symmetric] z by simp
qed

lemma elements_append:
  "sha1_elements ctx (es @ fs) = or_ret 0 (sha1_elements ctx es) (\<lambda>ctx. sha1_elements ctx fs)"
proof (induction es arbitrary: ctx)
  case (Cons e es)
  show ?case
  proof (cases "SHA1Update ctx e (of_nat (length e))")
    case (Some r)
    then show ?thesis using Cons by (cases r) simp_all
  qed simp
qed simp

lemma sha1_vector_overflow:
  assumes "length junk = 64" "list_all sha1_fits es" "length (concat es) mod 64 \<noteq> 0"
    "length e = 2 ^ 32 - length (concat es) mod 64"
  shows "sha1_vector_on junk (es @ [e]) = Some Fault"
proof -
  obtain ctx where "sha1_elements (SHA1Init junk) es = Some (Ok ctx)" "sha1_ctx (concat es) ctx"
    using elements_ctx [OF ctx1_init [OF assms(1)] assms(2)] by auto
  then show ?thesis using update_overflow [OF _ assms(3,4)] by (simp add: sha1_vector_on_def elements_append)
qed

end
