(* ===== verification/Sha256.thy ===== *)
theory Sha256
  imports MdHash "HOL-Library.Monad_Syntax"
begin

text \<open>
  SHA-256: \<open>src/mininet-wifi/hostap/src/crypto/sha256-internal.c\<close> with the context of \<open>sha256_i.h\<close>, against FIPS
  180-4.  \<open>md_curlen\<close> is below 64 wherever the code adds to it, so it is a natural number; \<open>md_length\<close> wraps at 64 bits.
  A result \<open>None\<close> of the loop over the input would be a loop that does not end.
\<close>

unbundle bit_operations_syntax

section \<open>Compression\<close>

text \<open>The array \<open>K\<close>, by the lines of the source.\<close>

definition K256 :: "u32 list" where
  "K256 = concat [
    [0x428a2f98, 0x71374491, 0xb5c0fbcf, 0xe9b5dba5, 0x3956c25b],
    [0x59f111f1, 0x923f82a4, 0xab1c5ed5, 0xd807aa98, 0x12835b01],
    [0x243185be, 0x550c7dc3, 0x72be5d74, 0x80deb1fe, 0x9bdc06a7],
    [0xc19bf174, 0xe49b69c1, 0xefbe4786, 0x0fc19dc6, 0x240ca1cc],
    [0x2de92c6f, 0x4a7484aa, 0x5cb0a9dc, 0x76f988da, 0x983e5152],
    [0xa831c66d, 0xb00327c8, 0xbf597fc7, 0xc6e00bf3, 0xd5a79147],
    [0x06ca6351, 0x14292967, 0x27b70a85, 0x2e1b2138, 0x4d2c6dfc],
    [0x53380d13, 0x650a7354, 0x766a0abb, 0x81c2c92e, 0x92722c85],
    [0xa2bfe8a1, 0xa81a664b, 0xc24b8b70, 0xc76c51a3, 0xd192e819],
    [0xd6990624, 0xf40e3585, 0x106aa070, 0x19a4c116, 0x1e376c08],
    [0x2748774c, 0x34b0bcb5, 0x391c0cb3, 0x4ed8aa4a, 0x5b9cca4f],
    [0x682e6ff3, 0x748f82ee, 0x78a5636f, 0x84c87814, 0x8cc70208],
    [0x90befffa, 0xa4506ceb, 0xbef9a3f7, 0xc67178f2]]"

definition RORc :: "u32 \<Rightarrow> nat \<Rightarrow> u32" where
  "RORc x y = drop_bit y x OR push_bit (32 - y) x"

definition Ch :: "u32 \<Rightarrow> u32 \<Rightarrow> u32 \<Rightarrow> u32" where "Ch x y z = z XOR (x AND (y XOR z))"
definition Maj :: "u32 \<Rightarrow> u32 \<Rightarrow> u32 \<Rightarrow> u32" where "Maj x y z = ((x OR y) AND z) OR (x AND y)"
definition Sigma0 :: "u32 \<Rightarrow> u32" where "Sigma0 x = RORc x 2 XOR RORc x 13 XOR RORc x 22"
definition Sigma1 :: "u32 \<Rightarrow> u32" where "Sigma1 x = RORc x 6 XOR RORc x 11 XOR RORc x 25"
definition Gamma0 :: "u32 \<Rightarrow> u32" where "Gamma0 x = RORc x 7 XOR RORc x 18 XOR drop_bit 3 x"
definition Gamma1 :: "u32 \<Rightarrow> u32" where "Gamma1 x = RORc x 17 XOR RORc x 19 XOR drop_bit 10 x"

text \<open>\<open>W[0..15]\<close> from the block, then \<open>W[16..63]\<close>.\<close>

definition load_W :: "bytes \<Rightarrow> u32 list" where
  "load_W buf = map (\<lambda>i. WPA_GET_BE32 (drop (4 * i) buf)) [0..<16]"

definition next_W :: "nat \<Rightarrow> u32 list \<Rightarrow> u32 list" where
  "next_W i W = W @ [Gamma1 (W ! (i - 2)) + W ! (i - 7) + Gamma0 (W ! (i - 15)) + W ! (i - 16)]"

definition fill_W :: "bytes \<Rightarrow> u32 list" where
  "fill_W buf = fold next_W [16..<64] (load_W buf)"

text \<open>The macro \<open>RND\<close> on \<open>S[0], .., S[7]\<close> and the shift of the eight words that follows it.\<close>

definition RND :: "u32 list \<Rightarrow> nat \<Rightarrow> u32 list \<Rightarrow> u32 list" where
  "RND W i S =
    (let t0 = S ! 7 + Sigma1 (S ! 4) + Ch (S ! 4) (S ! 5) (S ! 6) + K256 ! i + W ! i;
         t1 = Sigma0 (S ! 0) + Maj (S ! 0) (S ! 1) (S ! 2);
         S = S[3 := S ! 3 + t0]
     in S[7 := t0 + t1])"

definition shift_S :: "u32 list \<Rightarrow> u32 list" where
  "shift_S S = S ! 7 # take 7 S"

definition sha256_compress :: "u32 list \<Rightarrow> bytes \<Rightarrow> u32 list" where
  "sha256_compress st buf =
    (let W = fill_W buf; S = fold (\<lambda>i S. shift_S (RND W i S)) [0..<64] st in map2 (+) st S)"

section \<open>The context\<close>

record sha256_state =
  md_length :: u64
  md_state :: "u32 list"
  md_curlen :: nat
  md_buf :: bytes

definition sha256_iv :: "u32 list" where
  "sha256_iv = [0x6A09E667, 0xBB67AE85, 0x3C6EF372, 0xA54FF53A, 0x510E527F, 0x9B05688C, 0x1F83D9AB, 0x5BE0CD19]"

text \<open>The buffer of a fresh context holds what was on the stack, \<open>junk\<close>.\<close>

definition sha256_init :: "bytes \<Rightarrow> sha256_state" where
  "sha256_init junk = \<lparr>md_length = 0, md_state = sha256_iv, md_curlen = 0, md_buf = junk\<rparr>"

partial_function (option) process_loop :: "sha256_state \<Rightarrow> bytes \<Rightarrow> sha256_state option" where
  "process_loop md inp =
    (if inp = [] then Some md
     else if md_curlen md = 0 \<and> 64 \<le> length inp then
       process_loop (md\<lparr>md_state := sha256_compress (md_state md) (take 64 inp), md_length := md_length md + 64 * 8\<rparr>) (drop 64 inp)
     else
       let n = min (length inp) (64 - md_curlen md);
           md = md\<lparr>md_buf := put_bytes (md_buf md) (md_curlen md) (take n inp), md_curlen := md_curlen md + n\<rparr>
       in if md_curlen md = 64 then
            process_loop (md\<lparr>md_state := sha256_compress (md_state md) (md_buf md), md_length := md_length md + 8 * 64,
              md_curlen := 0\<rparr>) (drop n inp)
          else process_loop md (drop n inp))"

declare process_loop.simps [code]

definition sha256_process :: "sha256_state \<Rightarrow> bytes \<Rightarrow> sha256_state outcome option" where
  "sha256_process md inp = (if 64 \<le> md_curlen md then Some (Ret (-1)) else map_option Ok (process_loop md inp))"

text \<open>\<open>while (md->curlen < lim) md->buf[md->curlen++] = 0;\<close>\<close>

function zero_fill :: "nat \<Rightarrow> sha256_state \<Rightarrow> sha256_state" where
  "zero_fill lim md =
    (if md_curlen md < lim
     then zero_fill lim (md\<lparr>md_buf := (md_buf md)[md_curlen md := 0], md_curlen := md_curlen md + 1\<rparr>)
     else md)"
  by auto
termination by (relation "measure (\<lambda>(lim, md). lim - md_curlen md)") auto

declare zero_fill.simps [simp del]

definition sha256_done :: "sha256_state \<Rightarrow> bytes outcome" where
  "sha256_done md =
    (if 64 \<le> md_curlen md then Ret (-1)
     else
       let md = md\<lparr>md_length := md_length md + of_nat (md_curlen md * 8)\<rparr>;
           md = md\<lparr>md_buf := (md_buf md)[md_curlen md := 0x80], md_curlen := md_curlen md + 1\<rparr>;
           md = (if md_curlen md > 56
                 then (let md = zero_fill 64 md
                       in md\<lparr>md_state := sha256_compress (md_state md) (md_buf md), md_curlen := 0\<rparr>)
                 else md);
           md = zero_fill 56 md;
           md = md\<lparr>md_buf := put_bytes (md_buf md) 56 (WPA_PUT_BE64 (md_length md))\<rparr>;
           md = md\<lparr>md_state := sha256_compress (md_state md) (md_buf md)\<rparr>
       in Ok (concat (map WPA_PUT_BE32 (md_state md))))"

primrec process_all :: "sha256_state \<Rightarrow> bytes list \<Rightarrow> sha256_state outcome option" where
  "process_all md [] = Some (Ok md)"
| "process_all md (e # es) = or_ret (-1) (sha256_process md e) (\<lambda>md. process_all md es)"

definition sha256_vector_on :: "bytes \<Rightarrow> bytes list \<Rightarrow> bytes outcome option" where
  "sha256_vector_on junk es =
    or_ret (-1) (process_all (sha256_init junk) es) (\<lambda>md. or_ret (-1) (Some (sha256_done md)) (\<lambda>mac. Some (Ok mac)))"

text \<open>The result does not depend on the stack (see \<open>vector_on\<close> below); here it is zeroed.\<close>

definition sha256_vector :: "bytes list \<Rightarrow> bytes outcome option" where
  "sha256_vector = sha256_vector_on (replicate 64 0)"

section \<open>The reference\<close>

text \<open>The functions, the message schedule and the rounds as FIPS 180-4 defines them.\<close>

definition fips_Ch :: "u32 \<Rightarrow> u32 \<Rightarrow> u32 \<Rightarrow> u32" where "fips_Ch x y z = (x AND y) XOR (NOT x AND z)"
definition fips_Maj :: "u32 \<Rightarrow> u32 \<Rightarrow> u32 \<Rightarrow> u32" where "fips_Maj x y z = (x AND y) XOR (x AND z) XOR (y AND z)"

definition fips_Sigma :: "nat \<Rightarrow> nat \<Rightarrow> nat \<Rightarrow> u32 \<Rightarrow> u32" where
  "fips_Sigma i j k x = word_rotr i x XOR word_rotr j x XOR word_rotr k x"

definition fips_sigma :: "nat \<Rightarrow> nat \<Rightarrow> nat \<Rightarrow> u32 \<Rightarrow> u32" where
  "fips_sigma i j k x = word_rotr i x XOR word_rotr j x XOR drop_bit k x"

fun fips_W :: "bytes \<Rightarrow> nat \<Rightarrow> u32" where
  "fips_W b t =
    (if t < 16 then w32 (b ! (4 * t)) (b ! (4 * t + 1)) (b ! (4 * t + 2)) (b ! (4 * t + 3))
     else fips_sigma 17 19 10 (fips_W b (t - 2)) + fips_W b (t - 7) + fips_sigma 7 18 3 (fips_W b (t - 15)) + fips_W b (t - 16))"

declare fips_W.simps [simp del]

text \<open>
  The constants: the fractional parts of the cube roots of the first 64 primes, and of the square roots of the first
  eight, in 32 bits; \<open>int_root\<close> computes a root bit by bit.
\<close>

definition first_primes :: "int list" where
  "first_primes = filter (\<lambda>p. list_all (\<lambda>d. p mod d \<noteq> 0) [2..min (p - 1) 17]) [2..311]"

definition int_root :: "nat \<Rightarrow> int \<Rightarrow> int" where
  "int_root e n = fold (\<lambda>k c. if (c + 2 ^ k) ^ e \<le> n then c + 2 ^ k else c) (rev [0..<37]) 0"

definition fips_K256 :: "nat \<Rightarrow> u32" where
  "fips_K256 t = word_of_int (int_root 3 (first_primes ! t * 2 ^ 96))"

definition fips_H0 :: "u32 list" where
  "fips_H0 = map (\<lambda>p. word_of_int (int_root 2 (p * 2 ^ 64))) (take 8 first_primes)"

primrec fips_rounds :: "bytes \<Rightarrow> nat \<Rightarrow> u32 list \<Rightarrow> u32 list" where
  "fips_rounds b 0 S = S"
| "fips_rounds b (Suc t) S =
    (case fips_rounds b t S of
       [a, b', c, d, e, f, g, h] \<Rightarrow>
         let T1 = h + fips_Sigma 6 11 25 e + fips_Ch e f g + fips_K256 t + fips_W b t;
             T2 = fips_Sigma 2 13 22 a + fips_Maj a b' c
         in [T1 + T2, a, b', c, d + T1, e, f, g]
     | _ \<Rightarrow> [])"

definition fips_sha256_block :: "u32 list \<Rightarrow> bytes \<Rightarrow> u32 list" where
  "fips_sha256_block st b = map2 (+) st (fips_rounds b 64 st)"

definition sha256 :: "bytes \<Rightarrow> bytes" where
  "sha256 m = concat (map WPA_PUT_BE32 (md_absorb fips_sha256_block fips_H0 (md_pad m)))"

section \<open>The code computes the reference\<close>

lemma int_root_bits:
  assumes "0 \<le> c" "c ^ e \<le> n" "n < (c + 2 ^ k) ^ e"
  defines "r \<equiv> fold (\<lambda>k c. if (c + 2 ^ k) ^ e \<le> n then c + 2 ^ k else c) (rev [0..<k]) (c :: int)"
  shows "0 \<le> r \<and> r ^ e \<le> n \<and> n < (r + 1) ^ e"
  using assms(1-3) unfolding r_def
proof (induction k arbitrary: c)
  case (Suc k)
  then show ?case by (cases "(c + 2 ^ k) ^ e \<le> n") (simp_all add: add.assoc)
qed simp

lemma int_rootI:
  assumes "0 \<le> c" "c ^ e \<le> n" "n < (c + 1) ^ e" "n < 2 ^ (37 * e)" "0 < e"
  shows "int_root e n = c"
proof -
  have "0 \<le> n" using assms(1,2) by (meson order_trans zero_le_power)
  then have r: "0 \<le> int_root e n" "int_root e n ^ e \<le> n" "n < (int_root e n + 1) ^ e"
    using int_root_bits [of 0 e n 37] assms(4,5) by (simp_all add: int_root_def power_mult zero_power)
  have "c < int_root e n + 1" by (rule power_less_imp_less_base [of _ e]) (use assms r in auto)
  moreover have "int_root e n < c + 1" by (rule power_less_imp_less_base [of _ e]) (use assms r in auto)
  ultimately show ?thesis by simp
qed

text \<open>Entry \<open>k\<close> of a table is the fractional part of a root whose whole part is \<open>w\<close>.\<close>

definition root_entry :: "nat \<Rightarrow> int list \<Rightarrow> int \<Rightarrow> u32 \<Rightarrow> bool" where
  "root_entry e limits p k =
    (let c = int (length (filter (\<lambda>l. l \<le> p) limits)) * 2 ^ 32 + uint k; n = p * 2 ^ (32 * e)
     in 0 \<le> c \<and> c ^ e \<le> n \<and> n < (c + 1) ^ e \<and> n < 2 ^ (37 * e) \<and> 0 < e)"

lemma root_entryD:
  assumes "root_entry e limits p k" shows "word_of_int (int_root e (p * 2 ^ (32 * e))) = k"
proof -
  have "int_root e (p * 2 ^ (32 * e)) = int (length (filter (\<lambda>l. l \<le> p) limits)) * 2 ^ 32 + uint k"
    using assms by (intro int_rootI) (auto simp: root_entry_def Let_def)
  moreover have "(4294967296 :: u32) = 0" by simp
  then have "x * 4294967296 = 0" for x :: u32 by (metis mult_zero_right)
  ultimately show ?thesis by simp
qed

lemma K256_roots: "list_all2 (root_entry 3 [1, 8, 27, 64, 125, 216]) first_primes K256"
  by code_simp

lemma H0_roots: "list_all2 (root_entry 2 [1, 4, 9, 16]) (take 8 first_primes) sha256_iv"
  by code_simp

lemma K256_fips: "t < 64 \<Longrightarrow> K256 ! t = fips_K256 t"
proof -
  assume t: "t < 64"
  have "length first_primes = 64" by code_simp
  then show ?thesis using root_entryD [OF list_all2_nthD [OF K256_roots, of t]] t by (simp add: fips_K256_def)
qed

lemma H0_fips: "fips_H0 = sha256_iv"
proof -
  have "map (\<lambda>p. word_of_int (int_root 2 (p * 2 ^ 64))) ps = hs" if "list_all2 (root_entry 2 [1, 4, 9, 16]) ps hs" for ps hs
    using that by induction (auto dest: root_entryD)
  then show ?thesis using H0_roots by (simp add: fips_H0_def)
qed

lemma Ch_fips: "Ch x y z = fips_Ch x y z"
  by (rule bit_word_eqI) (auto simp: Ch_def fips_Ch_def bit_simps)

lemma Maj_fips: "Maj x y z = fips_Maj x y z"
  by (rule bit_word_eqI) (auto simp: Maj_def fips_Maj_def bit_simps)

lemma RORc_fips: "0 < y \<Longrightarrow> y < 32 \<Longrightarrow> RORc x y = word_rotr y x"
proof (rule bit_word_eqI)
  fix n
  assume y: "0 < y" "y < 32" and n: "n < LENGTH(32)"
  have hi: "\<not> bit x k" if "32 \<le> k" for k using that bit_imp_le_length [of x k] by auto
  show "bit (RORc x y) n = bit (word_rotr y x) n"
  proof (cases "n + y < 32")
    case True
    then have "\<not> 32 - y \<le> n" by linarith
    then show ?thesis using True n y by (simp add: RORc_def bit_simps bit_word_rotr_iff add.commute)
  next
    case False
    then have "(n + y) mod 32 = n - (32 - y)" using n y by (simp add: mod_if)
    moreover have "32 - y \<le> n" using False by linarith
    ultimately show ?thesis using False n y hi [of "y + n"] by (simp add: RORc_def bit_simps bit_word_rotr_iff add.commute)
  qed
qed

lemma Sigma_fips: "Sigma0 x = fips_Sigma 2 13 22 x" "Sigma1 x = fips_Sigma 6 11 25 x"
    "Gamma0 x = fips_sigma 7 18 3 x" "Gamma1 x = fips_sigma 17 19 10 x"
  by (simp_all add: Sigma0_def Sigma1_def Gamma0_def Gamma1_def fips_Sigma_def fips_sigma_def RORc_fips)

lemma fill_W_upto: "16 \<le> t \<Longrightarrow> length b = 64 \<Longrightarrow> fold next_W [16..<t] (load_W b) = map (fips_W b) [0..<t]"
proof (induction t rule: dec_induct)
  case base
  have "WPA_GET_BE32 (drop (4 * i) b) = fips_W b i" if "i < 16" for i
    using that base by (simp add: WPA_GET_BE32_w32 fips_W.simps [of b i])
  then show ?case by (simp add: load_W_def)
next
  case (step t)
  then have "next_W t (map (fips_W b) [0..<t]) = map (fips_W b) [0..<Suc t]"
    by (simp add: next_W_def Sigma_fips fips_W.simps [of b t])
  then show ?case using step by simp
qed

lemma fill_W_fips: "length b = 64 \<Longrightarrow> i < 64 \<Longrightarrow> fill_W b ! i = fips_W b i"
  using fill_W_upto [of 64 b] by (simp add: fill_W_def del: upt_Suc)

lemma list_length_8E:
  assumes "length S = 8"
  obtains a b c d e f g h where "S = [a, b, c, d, e, f, g, h]"
  using assms by (auto simp: length_Suc_conv eval_nat_numeral)

lemma rounds_fips:
  assumes "length b = 64" "length S = 8" "t \<le> 64"
  shows "fold (\<lambda>i S. shift_S (RND (fill_W b) i S)) [0..<t] S = fips_rounds b t S \<and> length (fips_rounds b t S) = 8"
  using assms(3)
proof (induction t)
  case (Suc t)
  then obtain a b' c d e f g h where s: "fips_rounds b t S = [a, b', c, d, e, f, g, h]"
    by (auto elim: list_length_8E)
  then show ?case
    using Suc by (simp add: RND_def shift_S_def Let_def Ch_fips Maj_fips Sigma_fips fill_W_fips [OF assms(1)] K256_fips add_ac
        numeral_eq_Suc)
qed (simp add: assms(2))

lemma compress_fips: "length b = 64 \<Longrightarrow> length S = 8 \<Longrightarrow> sha256_compress S b = fips_sha256_block S b"
  using rounds_fips [of b S 64] by (simp add: sha256_compress_def fips_sha256_block_def Let_def)

lemma length_block: "length b = 64 \<Longrightarrow> length S = 8 \<Longrightarrow> length (fips_sha256_block S b) = 8"
  using rounds_fips [of b S 64] by (simp add: fips_sha256_block_def)

section \<open>The context\<close>

text \<open>The context after the message \<open>m\<close>.\<close>

definition sha256_ctx :: "bytes \<Rightarrow> sha256_state \<Rightarrow> bool" where
  "sha256_ctx m md \<longleftrightarrow>
    absorbed sha256_compress sha256_iv m (md_state md) (md_buf md) (md_curlen md) \<and>
    md_length md = of_nat (512 * (length m div 64))"

lemma ctx_init: "length junk = 64 \<Longrightarrow> sha256_ctx [] (sha256_init junk)"
  by (simp add: sha256_ctx_def sha256_init_def absorbed_init)

lemma ctxD: "sha256_ctx m md \<Longrightarrow> md_curlen md = length m mod 64"
  by (simp add: sha256_ctx_def absorbed_def)

lemma quotient: "r < 64 \<Longrightarrow> (64 * q + r) div 64 = (q :: nat)"
  by simp

lemma div_64_part: "a mod 64 + b < 64 \<Longrightarrow> (a + b) div 64 = a div (64 :: nat)"
proof -
  assume "a mod 64 + b < 64"
  from quotient [OF this, of "a div 64"] have "(64 * (a div 64) + (a mod 64 + b)) div 64 = a div 64" .
  moreover have "64 * (a div 64) + (a mod 64 + b) = a + b" by (simp only: add.assoc [symmetric] mult_div_mod_eq)
  ultimately show ?thesis by simp
qed

lemma div_64_add: "(a + b) mod 64 = 0 \<Longrightarrow> b \<le> 64 \<Longrightarrow> 0 < b \<Longrightarrow> (a + b) div 64 = Suc (a div (64 :: nat))"
proof -
  assume *: "(a + b) mod 64 = 0" "b \<le> 64" "0 < b"
  have x: "x = 64" if "x mod 64 = 0" "0 < x" "x < 128" for x :: nat using that by (auto simp: mod_eq_0_iff_dvd dvd_def)
  have "(a mod 64 + b) mod 64 = 0" using * by (simp add: mod_add_left_eq)
  then have "a mod 64 + b = 64" using * mod_less_divisor [of 64 a] by (intro x) simp_all
  then have "(64 * (a div 64) + (a mod 64 + b)) div 64 = Suc (a div 64)" using quotient [of 0 "Suc (a div 64)"] by (simp only: mult_Suc_right)
  moreover have "64 * (a div 64) + (a mod 64 + b) = a + b" by (simp only: add.assoc [symmetric] mult_div_mod_eq)
  ultimately show ?thesis by simp
qed

lemma process_loop_part:
  assumes "inp \<noteq> []" "\<not> (md_curlen md = 0 \<and> 64 \<le> length inp)" "n = min (length inp) (64 - md_curlen md)"
    "md' = md\<lparr>md_buf := put_bytes (md_buf md) (md_curlen md) (take n inp), md_curlen := md_curlen md + n\<rparr>"
  shows "process_loop md inp = (if md_curlen md' = 64 then
      process_loop (md'\<lparr>md_state := sha256_compress (md_state md') (md_buf md'), md_length := md_length md' + 8 * 64, md_curlen := 0\<rparr>)
        (drop n inp)
    else process_loop md' (drop n inp))"
  by (subst process_loop.simps) (use assms in \<open>simp only: if_not_P if_False Let_def\<close>)

lemma process_loop_ctx: "sha256_ctx m md \<Longrightarrow> \<exists>md'. process_loop md inp = Some md' \<and> sha256_ctx (m @ inp) md'"
proof (induction inp arbitrary: m md rule: length_induct)
  case (1 inp)
  note IH = 1(1)[rule_format]
  have cur: "md_curlen md = length m mod 64" by (rule ctxD [OF 1(2)])
  have a: "absorbed sha256_compress sha256_iv m (md_state md) (md_buf md) (md_curlen md)"
    "md_length md = of_nat (512 * (length m div 64))"
    using 1(2) by (simp_all add: sha256_ctx_def)
  consider "inp = []" | "inp \<noteq> []" "md_curlen md = 0" "64 \<le> length inp"
    | "inp \<noteq> []" "\<not> (md_curlen md = 0 \<and> 64 \<le> length inp)" by argo
  then show ?case
  proof cases
    case 1
    then show ?thesis using \<open>sha256_ctx m md\<close> by (simp add: process_loop.simps)
  next
    case 2
    let ?md = "md\<lparr>md_state := sha256_compress (md_state md) (take 64 inp), md_length := md_length md + 64 * 8\<rparr>"
    have "sha256_ctx (m @ take 64 inp) ?md"
      using absorbed_block [of sha256_compress sha256_iv m "md_state md" "md_buf md" "take 64 inp"] a 2 cur
        div_64_add [of "length m" 64] by (simp add: sha256_ctx_def)
    from IH [OF _ this, of "drop 64 inp"] obtain md' where "process_loop ?md (drop 64 inp) = Some md'" "sha256_ctx (m @ inp) md'"
      using 2 by auto
    then show ?thesis using 2 by (subst process_loop.simps) simp
  next
    case 3
    define n where "n = min (length inp) (64 - md_curlen md)"
    let ?d = "take n inp"
    let ?buf = "put_bytes (md_buf md) (md_curlen md) ?d"
    have n: "length ?d = n" "0 < n" "md_curlen md + n \<le> 64" "n \<le> 64" using 3 cur by (auto simp: n_def)
    have less: "length (drop n inp) < length inp" using n(2) 3(1) by simp
    show ?thesis
    proof (cases "md_curlen md + n = 64")
      case True
      let ?md = "md\<lparr>md_buf := ?buf, md_state := sha256_compress (md_state md) ?buf, md_length := md_length md + 8 * 64,
        md_curlen := 0\<rparr>"
      note f = absorbed_fill [OF a(1), of ?d, unfolded n(1), OF True]
      have z: "(length m + n) mod 64 = 0" using True cur by (metis mod_add_left_eq mod_self)
      have "(length m + n) div 64 = Suc (length m div 64)" using z n(2,4) by (intro div_64_add)
      then have "sha256_ctx (m @ ?d) ?md" using f a(2) n(1) by (simp add: sha256_ctx_def)
      from IH [OF less this] obtain md' where "process_loop ?md (drop n inp) = Some md'" "sha256_ctx (m @ inp) md'"
        by auto
      then show ?thesis using True by (simp add: process_loop_part [OF 3 n_def])
    next
      case False
      let ?md = "md\<lparr>md_buf := ?buf, md_curlen := md_curlen md + n\<rparr>"
      have l: "md_curlen md + length ?d < 64" using n False by simp
      then have "sha256_ctx (m @ ?d) ?md"
        using absorbed_part [OF a(1) l] a(2) n(1) cur div_64_part [of "length m" n] by (simp add: sha256_ctx_def)
      from IH [OF less this] obtain md' where "process_loop ?md (drop n inp) = Some md'" "sha256_ctx (m @ inp) md'"
        by auto
      then show ?thesis using False by (simp add: process_loop_part [OF 3 n_def])
    qed
  qed
qed

lemma process_all_ctx: "sha256_ctx m md \<Longrightarrow> \<exists>md'. process_all md es = Some (Ok md') \<and> sha256_ctx (m @ concat es) md'"
proof (induction es arbitrary: m md)
  case (Cons e es)
  obtain md' where md': "process_loop md e = Some md'" "sha256_ctx (m @ e) md'"
    using process_loop_ctx [OF Cons.prems] by blast
  then show ?case using Cons.IH [OF md'(2)] ctxD [OF Cons.prems] by (simp add: sha256_process_def)
qed simp

text \<open>Padding.\<close>

lemma zero_fill_eq:
  "md_curlen md \<le> lim \<Longrightarrow> lim \<le> length (md_buf md) \<Longrightarrow> zero_fill lim md =
    md\<lparr>md_buf := take (md_curlen md) (md_buf md) @ replicate (lim - md_curlen md) 0 @ drop lim (md_buf md), md_curlen := lim\<rparr>"
proof (induction "lim - md_curlen md" arbitrary: md)
  case 0
  then show ?case by (subst zero_fill.simps) simp
next
  case (Suc k)
  let ?md = "md\<lparr>md_buf := (md_buf md)[md_curlen md := 0], md_curlen := md_curlen md + 1\<rparr>"
  have "zero_fill lim ?md = ?md\<lparr>md_buf := take (md_curlen ?md) (md_buf ?md) @ replicate (lim - md_curlen ?md) 0 @
      drop lim (md_buf ?md), md_curlen := lim\<rparr>"
    by (rule Suc(1)) (use Suc(2-) in auto)
  moreover have "take (Suc (md_curlen md)) ((md_buf md)[md_curlen md := 0]) @ replicate (lim - Suc (md_curlen md)) 0 =
      take (md_curlen md) (md_buf md) @ replicate (lim - md_curlen md) 0"
  proof -
    have "replicate (lim - md_curlen md) (0 :: u8) = 0 # replicate (lim - Suc (md_curlen md)) 0"
      using Suc(2) by (cases "lim - md_curlen md") auto
    then show ?thesis using Suc(2-) by (simp add: take_Suc_conv_app_nth)
  qed
  moreover have "drop lim ((md_buf md)[md_curlen md := 0]) = drop lim (md_buf md)" using Suc(2-) by simp
  ultimately show ?case using Suc(2) by (subst zero_fill.simps) simp
qed

text \<open>The code pads as \<open>md_pad\<close> says.\<close>

lemma bits_length: "of_nat (512 * (n div 64)) + of_nat ((n mod 64) * 8) = (of_nat (8 * n) :: u64)"
proof -
  define q r where "q = n div 64" "r = n mod 64"
  then have "n = 64 * q + r" by simp
  then have "512 * q + r * 8 = 8 * n" by simp
  then have "512 * (n div 64) + (n mod 64) * 8 = 8 * n" unfolding q_r_def .
  then show ?thesis by (metis of_nat_add)
qed

lemma done_ctx:
  assumes "sha256_ctx m md"
  shows "sha256_done md = Ok (concat (map WPA_PUT_BE32 (md_absorb sha256_compress sha256_iv (md_pad m))))"
proof -
  let ?n = "md_curlen md" and ?buf = "md_buf md" and ?l = "WPA_PUT_BE64 (of_nat (8 * length m))"
  have a: "absorbed sha256_compress sha256_iv m (md_state md) ?buf ?n" and n: "?n < 64" "?n = length m mod 64"
    and l: "length ?buf = 64" and t: "take ?n ?buf = md_rest m"
    using assms ctxD [OF assms] by (auto simp: sha256_ctx_def absorbed_def)
  have len: "md_length md + of_nat (?n * 8) = of_nat (8 * length m)"
    using assms bits_length [of "length m"] n(2) by (simp only: sha256_ctx_def)
  define md1 where "md1 = md\<lparr>md_length := of_nat (8 * length m), md_buf := ?buf[?n := 0x80], md_curlen := ?n + 1\<rparr>"
  have t1: "take (md_curlen md1) (md_buf md1) = md_rest m @ [0x80]"
    using n l t by (simp add: md1_def take_Suc_conv_app_nth)
  have d: "sha256_done md =
      (let md = (if md_curlen md1 > 56
                 then (let md = zero_fill 64 md1
                       in md\<lparr>md_state := sha256_compress (md_state md) (md_buf md), md_curlen := 0\<rparr>)
                 else md1);
           md = zero_fill 56 md;
           md = md\<lparr>md_buf := put_bytes (md_buf md) 56 (WPA_PUT_BE64 (md_length md))\<rparr>;
           md = md\<lparr>md_state := sha256_compress (md_state md) (md_buf md)\<rparr>
       in Ok (concat (map WPA_PUT_BE32 (md_state md))))"
    using n(1) unfolding sha256_done_def md1_def len Let_def by simp
  have put: "put_bytes (b @ drop 56 c) 56 ?l = b @ ?l" if "length b = 56" "length c = 64" for b c :: bytes
    using that by (simp add: put_bytes_def byte_simps)
  show ?thesis
  proof (cases "?n < 56")
    case True
    define b where "b = md_rest m @ [0x80] @ replicate (55 - ?n) 0"
    have z: "zero_fill 56 md1 = md1\<lparr>md_buf := b @ drop 56 (md_buf md1), md_curlen := 56\<rparr>"
      using zero_fill_eq [of md1 56] True l t1 by (simp add: md1_def b_def)
    have b: "length b = 56" "length (md_buf md1) = 64" "md_rest m @ [0x80] @ replicate (55 - ?n) 0 @ ?l = b @ ?l"
      using True n l by (simp_all add: md1_def b_def)
    have "md_length md1 = of_nat (8 * length m)" "md_curlen md1 \<le> 56" "md_state md1 = md_state md"
      using True by (simp_all add: md1_def)
    then show ?thesis unfolding d absorb_pad [OF a] b(3) using True z put [OF b(1,2)] by (simp add: Let_def)
  next
    case False
    have z: "zero_fill 64 md1 = md1\<lparr>md_buf := md_rest m @ [0x80] @ replicate (63 - ?n) 0, md_curlen := 64\<rparr>"
      using zero_fill_eq [of md1 64] n l t1 by (simp add: md1_def)
    define md2 where "md2 = md1\<lparr>md_buf := md_rest m @ [0x80] @ replicate (63 - ?n) 0,
      md_state := sha256_compress (md_state md) (md_rest m @ [0x80] @ replicate (63 - ?n) 0), md_curlen := 0\<rparr>"
    have l2: "length (md_buf md2) = 64" using n by (simp add: md2_def)
    have "zero_fill 56 md2 = md2\<lparr>md_buf := replicate 56 0 @ drop 56 (md_buf md2), md_curlen := 56\<rparr>"
      using zero_fill_eq [of md2 56] l2 by (simp add: md2_def)
    then show ?thesis unfolding d absorb_pad [OF a] using False z l2 put [of "replicate 56 0" "md_buf md2"]
      by (simp add: md2_def md1_def Let_def)
  qed
qed

lemma sha256_code:
  "md_absorb sha256_compress sha256_iv m = md_absorb fips_sha256_block sha256_iv m \<and> length (md_absorb fips_sha256_block sha256_iv m) = 8"
  by (rule absorb_cong) (simp_all add: compress_fips length_block sha256_iv_def)

lemma vector_on: "length junk = 64 \<Longrightarrow> sha256_vector_on junk es = Some (Ok (sha256 (concat es)))"
  using process_all_ctx [OF ctx_init, of junk es] sha256_code [of "md_pad (concat es)"]
  by (auto simp: sha256_vector_on_def done_ctx sha256_def H0_fips)

lemma length_sha256: "length (sha256 m) = 32"
  using sha256_code [of "md_pad m"] by (auto simp: sha256_def H0_fips elim!: list_length_8E simp: byte_simps)

interpretation sha256_hash: hash_vector sha256_vector sha256 32 "\<lambda>_. True"
  by unfold_locales (simp_all add: sha256_vector_def vector_on length_sha256)

end
