(* ===== verification/Hmac.thy ===== *)
theory Hmac
  imports Sha1 Sha256
begin

text \<open>
  Keyed hashes and key derivation of \<open>src/mininet-wifi/hostap/src/crypto\<close>: HMAC (\<open>sha256.c\<close>, \<open>sha1.c\<close>), the
  pseudo-random functions of IEEE 802.11 (\<open>sha256-prf.c\<close>, \<open>sha1-prf.c\<close>) and PBKDF2 (\<open>sha1-pbkdf2.c\<close>), against RFC
  2104, IEEE 802.11 and RFC 8018.  What HMAC needs of a hash is proved in the locale \<open>hash_vector\<close>.  A C string is
  the list of its bytes without the terminating zero; output buffers are returned with their new contents.
\<close>

unbundle bit_operations_syntax

section \<open>HMAC\<close>

definition HMAC_VECTOR_MAX_ELEM :: nat where "HMAC_VECTOR_MAX_ELEM = 11"

text \<open>\<open>os_memset(k_pad, 0, 64); os_memcpy(k_pad, key, key_len); k_pad[i] ^= x\<close> for the key of at most 64 bytes.\<close>

definition k_pad :: "u8 \<Rightarrow> bytes \<Rightarrow> bytes" where
  "k_pad x key = map (\<lambda>b. b XOR x) (put_bytes (replicate 64 0) 0 key)"

definition hmac_sha256_vector :: "bytes \<Rightarrow> bytes list \<Rightarrow> bytes outcome option" where
  "hmac_sha256_vector key es =
    (if length es > HMAC_VECTOR_MAX_ELEM then Some (Ret (- 1))
     else
       or_ret (- 1) (if length key > 64 then sha256_vector [key] else Some (Ok key)) (\<lambda>key.
       or_ret (- 1) (sha256_vector (k_pad 0x36 key # es)) (\<lambda>mac.
       sha256_vector [k_pad 0x5c key, mac])))"

definition hmac_sha256 :: "bytes \<Rightarrow> bytes \<Rightarrow> bytes outcome option" where
  "hmac_sha256 key data = hmac_sha256_vector key [data]"

definition hmac_sha1_vector :: "bytes \<Rightarrow> bytes list \<Rightarrow> bytes outcome option" where
  "hmac_sha1_vector key es =
    (if length es > 5 then Some (Ret (- 1))
     else
       or_ret (- 1) (if length key > 64 then sha1_vector [key] else Some (Ok key)) (\<lambda>key.
       or_ret (- 1) (sha1_vector (k_pad 0x36 key # es)) (\<lambda>mac.
       sha1_vector [k_pad 0x5c key, mac])))"

definition hmac_sha1 :: "bytes \<Rightarrow> bytes \<Rightarrow> bytes outcome option" where
  "hmac_sha1 key data = hmac_sha1_vector key [data]"

text \<open>RFC 2104 over a hash with blocks of 64 bytes.\<close>

definition rfc2104_key :: "(bytes \<Rightarrow> bytes) \<Rightarrow> bytes \<Rightarrow> bytes" where
  "rfc2104_key h key = (let k = (if length key > 64 then h key else key) in k @ replicate (64 - length k) 0)"

definition rfc2104 :: "(bytes \<Rightarrow> bytes) \<Rightarrow> bytes \<Rightarrow> bytes \<Rightarrow> bytes" where
  "rfc2104 h key text' =
    (let k = rfc2104_key h key in h (xor_bytes k (replicate 64 0x5c) @ h (xor_bytes k (replicate 64 0x36) @ text')))"

lemma length_k_pad: "length key \<le> 64 \<Longrightarrow> length (k_pad x key) = 64"
  by (simp add: k_pad_def length_put_bytes)

lemma k_pad_xor:
  assumes "length key \<le> 64"
  shows "k_pad x key = xor_bytes (key @ replicate (64 - length key) 0) (replicate 64 x)"
proof -
  have "put_bytes (replicate 64 0) 0 key = key @ replicate (64 - length key) 0" using assms by (simp add: put_bytes_def)
  then show ?thesis using assms by (intro nth_equalityI) (simp_all add: k_pad_def xor_bytes_def nth_append)
qed

context hash_vector begin

definition short_key :: "bytes \<Rightarrow> bytes" where
  "short_key key = (if length key > 64 then h key else key)"

lemma shorten: "fits key \<Longrightarrow> (if length key > 64 then vec [key] else Some (Ok key)) = Some (Ok (short_key key))"
  using vec [of "[key]"] by (simp add: short_key_def)

lemma length_short_key: "length (short_key key) \<le> 64"
  using mac_len by (simp add: short_key_def length_h)

lemma keyed: "list_all fits es \<Longrightarrow> vec (k_pad x (short_key key) # es) = Some (Ok (h (k_pad x (short_key key) @ concat es)))"
  using vec [of "k_pad x (short_key key) # es"] fits_small length_k_pad [OF length_short_key] by simp

lemma fits_h: "fits (h m)"
  using fits_small mac_len length_h by simp

lemma hmac_rfc: "h (k_pad 0x5c (short_key key) @ h (k_pad 0x36 (short_key key) @ m)) = rfc2104 h key m"
  unfolding k_pad_xor [OF length_short_key] by (simp add: rfc2104_def rfc2104_key_def short_key_def Let_def)

lemma hmac:
  assumes "fits key" "list_all fits es"
  shows "or_ret r (if length key > 64 then vec [key] else Some (Ok key)) (\<lambda>key. or_ret r' (vec (k_pad 0x36 key # es)) (\<lambda>mac.
    vec [k_pad 0x5c key, mac])) = Some (Ok (rfc2104 h key (concat es)))"
  by (simp add: shorten [OF assms(1)] keyed [OF assms(2)] keyed [of "[h m]" for m, simplified] fits_h hmac_rfc)

lemma length_hmac: "length (rfc2104 h key m) = mac_len"
  by (simp add: rfc2104_def Let_def length_h)

end

lemma hmac_sha256_vector_rfc:
  "hmac_sha256_vector key es = (if length es > 11 then Some (Ret (- 1)) else Some (Ok (rfc2104 sha256 key (concat es))))"
  by (simp add: hmac_sha256_vector_def HMAC_VECTOR_MAX_ELEM_def sha256_hash.hmac list_all_iff)

lemma hmac_sha1_vector_rfc:
  assumes "sha1_fits key" "list_all sha1_fits es"
  shows "hmac_sha1_vector key es = (if length es > 5 then Some (Ret (- 1)) else Some (Ok (rfc2104 sha1 key (concat es))))"
  by (simp add: hmac_sha1_vector_def sha1_hash.hmac [OF assms])

section \<open>Pseudo-random functions\<close>

text \<open>The loop of \<open>sha256_prf_bits\<close>; \<open>pos\<close> and the buffer \<open>buf\<close> it fills.\<close>

function prf_bits_loop :: "bytes \<Rightarrow> bytes \<Rightarrow> bytes \<Rightarrow> bytes \<Rightarrow> u16 \<Rightarrow> nat \<Rightarrow> bytes \<Rightarrow> nat \<Rightarrow> (nat \<times> bytes) outcome option" where
  "prf_bits_loop key label data length_le counter pos buf buf_len =
    (if pos < buf_len then
       let plen = buf_len - pos in
       if plen \<ge> 32 then
         or_ret (- 1) (hmac_sha256_vector key [WPA_PUT_LE16 counter, label, data, length_le]) (\<lambda>hash.
           prf_bits_loop key label data length_le (counter + 1) (pos + 32) (put_bytes buf pos hash) buf_len)
       else
         or_ret (- 1) (hmac_sha256_vector key [WPA_PUT_LE16 counter, label, data, length_le]) (\<lambda>hash.
           Some (Ok (pos + plen, put_bytes buf pos (take plen hash))))
     else Some (Ok (pos, buf)))"
  by auto
termination by (relation "measure (\<lambda>(key, label, data, length_le, counter, pos, buf, buf_len). buf_len - pos)") auto

declare prf_bits_loop.simps [simp del]

definition sha256_prf_bits :: "bytes \<Rightarrow> bytes \<Rightarrow> bytes \<Rightarrow> bytes \<Rightarrow> nat \<Rightarrow> bytes outcome option" where
  "sha256_prf_bits key label data buf buf_len_bits =
    (let buf_len = (buf_len_bits + 7) div 8 in
     or_ret (- 1) (prf_bits_loop key label data (WPA_PUT_LE16 (of_nat buf_len_bits)) 1 0 buf buf_len) (\<lambda>(pos, buf).
       Some (Ok (if pos > 0 \<and> buf_len_bits mod 8 \<noteq> 0
         then buf[pos - 1 := buf ! (pos - 1) AND push_bit (8 - buf_len_bits mod 8) 0xff] else buf))))"

definition sha256_prf :: "bytes \<Rightarrow> bytes \<Rightarrow> bytes \<Rightarrow> bytes \<Rightarrow> nat \<Rightarrow> bytes outcome option" where
  "sha256_prf key label data buf buf_len = sha256_prf_bits key label data buf (buf_len * 8)"

text \<open>\<open>sha1_prf\<close>: the label goes in with its terminating zero.\<close>

function prf_loop :: "bytes \<Rightarrow> bytes \<Rightarrow> bytes \<Rightarrow> u8 \<Rightarrow> nat \<Rightarrow> bytes \<Rightarrow> nat \<Rightarrow> bytes outcome option" where
  "prf_loop key label data counter pos buf buf_len =
    (if pos < buf_len then
       let plen = buf_len - pos in
       if plen \<ge> 20 then
         or_ret (- 1) (hmac_sha1_vector key [label @ [0], data, [counter]]) (\<lambda>hash.
           prf_loop key label data (counter + 1) (pos + 20) (put_bytes buf pos hash) buf_len)
       else
         or_ret (- 1) (hmac_sha1_vector key [label @ [0], data, [counter]]) (\<lambda>hash.
           Some (Ok (put_bytes buf pos (take plen hash))))
     else Some (Ok buf))"
  by auto
termination by (relation "measure (\<lambda>(key, label, data, counter, pos, buf, buf_len). buf_len - pos)") auto

declare prf_loop.simps [simp del]

definition sha1_prf :: "bytes \<Rightarrow> bytes \<Rightarrow> bytes \<Rightarrow> bytes \<Rightarrow> nat \<Rightarrow> bytes outcome option" where
  "sha1_prf key label data buf buf_len = prf_loop key label data 0 0 buf buf_len"

section \<open>PBKDF2\<close>

definition count_buf :: "u32 \<Rightarrow> bytes" where
  "count_buf count = [ucast (drop_bit 24 count AND 0xff), ucast (drop_bit 16 count AND 0xff), ucast (drop_bit 8 count AND 0xff),
    ucast (count AND 0xff)]"

primrec pbkdf2_iterate :: "bytes \<Rightarrow> nat \<Rightarrow> bytes \<Rightarrow> bytes \<Rightarrow> bytes outcome option" where
  "pbkdf2_iterate passphrase 0 tmp digest = Some (Ok digest)"
| "pbkdf2_iterate passphrase (Suc n) tmp digest =
    or_ret (- 1) (hmac_sha1 passphrase tmp) (\<lambda>tmp2. pbkdf2_iterate passphrase n tmp2 (xor_bytes digest tmp2))"

text \<open>\<open>for (i = 1; i < iterations; i++)\<close> makes \<open>iterations - 1\<close> rounds.\<close>

definition pbkdf2_sha1_f :: "bytes \<Rightarrow> bytes \<Rightarrow> int \<Rightarrow> u32 \<Rightarrow> bytes outcome option" where
  "pbkdf2_sha1_f passphrase ssid iterations count =
    or_ret (- 1) (hmac_sha1_vector passphrase [ssid, count_buf count]) (\<lambda>tmp. pbkdf2_iterate passphrase (nat (iterations - 1)) tmp tmp)"

function pbkdf2_loop :: "bytes \<Rightarrow> bytes \<Rightarrow> int \<Rightarrow> u32 \<Rightarrow> nat \<Rightarrow> bytes \<Rightarrow> nat \<Rightarrow> bytes outcome option" where
  "pbkdf2_loop passphrase ssid iterations count pos buf left =
    (if left > 0 then
       or_ret (- 1) (pbkdf2_sha1_f passphrase ssid iterations (count + 1)) (\<lambda>digest.
         let plen = (if left > 20 then 20 else left)
         in pbkdf2_loop passphrase ssid iterations (count + 1) (pos + plen) (put_bytes buf pos (take plen digest)) (left - plen))
     else Some (Ok buf))"
  by auto
termination by (relation "measure (\<lambda>(passphrase, ssid, iterations, count, pos, buf, left). left)") auto

declare pbkdf2_loop.simps [simp del]

definition pbkdf2_sha1 :: "bytes \<Rightarrow> bytes \<Rightarrow> int \<Rightarrow> bytes \<Rightarrow> nat \<Rightarrow> bytes outcome option" where
  "pbkdf2_sha1 passphrase ssid iterations buf buflen = pbkdf2_loop passphrase ssid iterations 0 0 buf buflen"

section \<open>Output in blocks\<close>

text \<open>
  The functions fill a buffer with \<open>T 0, T 1, ..\<close>, blocks of \<open>L\<close> bytes, and cut the last one: \<open>key_stream T L n\<close> are
  the first \<open>n\<close> bytes of the smallest number of blocks that has them.
\<close>

definition blocks :: "(nat \<Rightarrow> bytes) \<Rightarrow> nat \<Rightarrow> bytes" where
  "blocks T n = concat (map T [0..<n])"

definition key_stream :: "(nat \<Rightarrow> bytes) \<Rightarrow> nat \<Rightarrow> nat \<Rightarrow> bytes" where
  "key_stream T L n = take n (blocks T ((n + L - 1) div L))"

lemma length_blocks: "(\<And>i. length (T i) = L) \<Longrightarrow> length (blocks T n) = L * n"
  by (induction n) (simp_all add: blocks_def)

lemma blocks_Suc: "blocks T (Suc n) = blocks T n @ T n"
  by (simp add: blocks_def)

lemma length_key_stream:
  assumes "\<And>i. length (T i) = L" "0 < L"
  shows "length (key_stream T L n) = n"
proof -
  have "n + L - 1 < L + (n + L - 1) div L * L" by (rule dividend_less_div_times [OF assms(2)])
  then have "n \<le> L * ((n + L - 1) div L)" by (simp add: mult.commute)
  then show ?thesis by (simp add: key_stream_def length_blocks [of T L, OF assms(1)])
qed

lemma fill_block:
  assumes "\<And>i. length (T i) = L"
  shows "put_bytes (blocks T i @ drop (L * i) buf) (L * i) (T i) = blocks T (Suc i) @ drop (L * Suc i) buf"
  by (simp add: put_bytes_def length_blocks [of T L, OF assms] blocks_Suc assms)

lemma div_ceiling: "L * i < n \<Longrightarrow> n < L * i + L \<Longrightarrow> (n + L - 1) div L = Suc (i :: nat)"
proof -
  assume *: "L * i < n" "n < L * i + L"
  then have e: "n + L - 1 = (n - L * i - 1) + L * Suc i" by simp
  have "(n - L * i - 1) div L = 0" using * by simp
  moreover have "L \<noteq> 0" using * by simp
  ultimately show ?thesis unfolding e by (metis add.right_neutral div_mult_self2)
qed

lemma fill_last:
  assumes "\<And>i. length (T i) = L" "L * i < n" "n < L * i + L" "n \<le> length buf"
  shows "put_bytes (blocks T i @ drop (L * i) buf) (L * i) (take (n - L * i) (T i)) = key_stream T L n @ drop n buf"
proof -
  have "(n + L - 1) div L = Suc i" using assms(2,3) by (rule div_ceiling)
  then have "key_stream T L n = blocks T i @ take (n - L * i) (T i)"
    using assms(2) by (simp add: key_stream_def length_blocks [of T L, OF assms(1)] blocks_Suc)
  then show ?thesis using assms(2-4) by (simp add: put_bytes_def length_blocks [of T L, OF assms(1)] assms(1))
qed

lemma fill_exact:
  assumes "\<And>i. length (T i) = L" "0 < L"
  shows "key_stream T L (L * i) = blocks T i"
proof -
  have "L * i + L - 1 = (L - 1) + L * i" using assms(2) by simp
  then have "(L * i + L - 1) div L = i" using assms(2) by (simp only: div_mult_self2) simp
  then show ?thesis by (simp add: key_stream_def length_blocks [of T L, OF assms(1)])
qed

lemma update_last: "s \<noteq> [] \<Longrightarrow> (s @ x)[length s - 1 := (s @ x) ! (length s - 1) AND w] = butlast s @ [last s AND w] @ (x :: bytes)"
  by (cases s rule: rev_cases) (simp_all add: nth_append list_update_append)

section \<open>The functions compute the standards\<close>

text \<open>KDF of IEEE 802.11 with HMAC-SHA-256: the counter starts at 1; the result is the first bits of the blocks.\<close>

definition kdf_block :: "bytes \<Rightarrow> bytes \<Rightarrow> bytes \<Rightarrow> nat \<Rightarrow> nat \<Rightarrow> bytes" where
  "kdf_block key label data bits i =
    rfc2104 sha256 key (WPA_PUT_LE16 (of_nat (Suc i)) @ label @ data @ WPA_PUT_LE16 (of_nat bits))"

definition kdf_sha256 :: "bytes \<Rightarrow> bytes \<Rightarrow> bytes \<Rightarrow> nat \<Rightarrow> bytes" where
  "kdf_sha256 key label data bits =
    (let out = key_stream (kdf_block key label data bits) 32 ((bits + 7) div 8)
     in if bits mod 8 = 0 then out else butlast out @ [last out AND push_bit (8 - bits mod 8) 0xff])"

text \<open>PRF of IEEE 802.11 (HMAC-SHA-1): label, a zero byte, data and a counter from 0.\<close>

definition prf_block :: "bytes \<Rightarrow> bytes \<Rightarrow> bytes \<Rightarrow> nat \<Rightarrow> bytes" where
  "prf_block key label data i = rfc2104 sha1 key ((label @ [0]) @ data @ [of_nat i])"

text \<open>RFC 8018: \<open>U_1 = PRF(P, S || INT(i))\<close>, \<open>U_j = PRF(P, U_(j-1))\<close>, \<open>T_i\<close> their sum.\<close>

definition pbkdf2_U :: "bytes \<Rightarrow> bytes \<Rightarrow> nat \<Rightarrow> nat \<Rightarrow> bytes" where
  "pbkdf2_U passphrase salt i j = (rfc2104 sha1 passphrase ^^ j) (rfc2104 sha1 passphrase (salt @ WPA_PUT_BE32 (of_nat (Suc i))))"

definition pbkdf2_T :: "bytes \<Rightarrow> bytes \<Rightarrow> int \<Rightarrow> nat \<Rightarrow> bytes" where
  "pbkdf2_T passphrase salt c i =
    fold (\<lambda>j acc. xor_bytes acc (pbkdf2_U passphrase salt i j)) [1..<nat c] (pbkdf2_U passphrase salt i 0)"

lemma length_rfc [simp]: "length (rfc2104 sha256 key m) = 32" "length (rfc2104 sha1 key m) = 20"
  by (rule sha256_hash.length_hmac sha1_hash.length_hmac)+

lemma length_blocks_of [simp]:
  "length (kdf_block key label data bits i) = 32" "length (prf_block key label data i) = 20"
  by (simp_all add: kdf_block_def prf_block_def)

lemma length_U [simp]: "length (pbkdf2_U p s i j) = 20"
  by (cases j) (simp_all add: pbkdf2_U_def)

lemma length_T [simp]: "length (pbkdf2_T p s c i) = 20"
proof -
  have "length acc = 20 \<Longrightarrow> length (fold (\<lambda>j acc. xor_bytes acc (pbkdf2_U p s i j)) js acc) = 20" for js acc
    by (induction js arbitrary: acc) (simp_all add: length_xor_bytes)
  then show ?thesis by (simp add: pbkdf2_T_def)
qed

lemma prf_bits_loop_steps:
  assumes "hmac_sha256_vector key [WPA_PUT_LE16 c, label, data, ll] = Some (Ok t)"
  shows "pos + 32 \<le> n \<Longrightarrow> prf_bits_loop key label data ll c pos buf n = prf_bits_loop key label data ll (c + 1) (pos + 32) (put_bytes buf pos t) n"
    "pos < n \<Longrightarrow> n < pos + 32 \<Longrightarrow> prf_bits_loop key label data ll c pos buf n = Some (Ok (n, put_bytes buf pos (take (n - pos) t)))"
proof -
  have "32 \<le> n - pos" if "pos + 32 \<le> n" using that by simp
  then show "pos + 32 \<le> n \<Longrightarrow> prf_bits_loop key label data ll c pos buf n = prf_bits_loop key label data ll (c + 1) (pos + 32) (put_bytes buf pos t) n" by (subst prf_bits_loop.simps) (simp add: Let_def assms)
  have "\<not> 32 \<le> n - pos" if "n < pos + 32" using that by simp
  then show "pos < n \<Longrightarrow> n < pos + 32 \<Longrightarrow> prf_bits_loop key label data ll c pos buf n = Some (Ok (n, put_bytes buf pos (take (n - pos) t)))" by (subst prf_bits_loop.simps) (simp add: Let_def assms)
qed

lemma prf_bits_loop_stream:
  fixes key label data :: bytes
  assumes "length_le = WPA_PUT_LE16 (of_nat bits)" "n \<le> length buf"
  defines "T \<equiv> kdf_block key label data bits"
  shows "32 * i \<le> n \<Longrightarrow> prf_bits_loop key label data length_le (of_nat (Suc i)) (32 * i) (blocks T i @ drop (32 * i) buf) n =
    Some (Ok (n, key_stream T 32 n @ drop n buf))"
proof (induction "n - 32 * i" arbitrary: i rule: less_induct)
  case less
  have L: "length (T i) = 32" for i by (simp add: T_def)
  have h: "hmac_sha256_vector key [WPA_PUT_LE16 (of_nat (Suc i)), label, data, length_le] = Some (Ok (T i))"
    by (simp add: hmac_sha256_vector_rfc T_def kdf_block_def assms(1))
  consider "n = 32 * i" | "32 * i + 32 \<le> n" | "32 * i < n" "n < 32 * i + 32" using less(2) by linarith
  then show ?case
  proof cases
    case 1
    then show ?thesis using fill_exact [of T 32 i] L by (subst prf_bits_loop.simps) simp
  next
    case 2
    have "of_nat (Suc i) + 1 = (of_nat (Suc (Suc i)) :: u16)" "32 * i + 32 = 32 * Suc i" by simp_all
    then have "prf_bits_loop key label data length_le (of_nat (Suc i)) (32 * i) (blocks T i @ drop (32 * i) buf) n =
        prf_bits_loop key label data length_le (of_nat (Suc (Suc i))) (32 * Suc i) (blocks T (Suc i) @ drop (32 * Suc i) buf) n"
      using prf_bits_loop_steps(1) [OF h 2] fill_block [of T 32 i buf, OF L] by (simp only:)
    moreover have "n - 32 * Suc i < n - 32 * i" "32 * Suc i \<le> n" using 2 by simp_all
    ultimately show ?thesis using less(1) [of "Suc i"] by (simp only:)
  next
    case 3
    then show ?thesis using prf_bits_loop_steps(2) [OF h 3] fill_last [of T 32 i n buf, OF L 3 assms(2)] by (simp only:)
  qed
qed

lemma prf_loop_steps:
  assumes "hmac_sha1_vector key [label @ [0], data, [c]] = Some (Ok t)"
  shows "pos + 20 \<le> n \<Longrightarrow> prf_loop key label data c pos buf n = prf_loop key label data (c + 1) (pos + 20) (put_bytes buf pos t) n"
    "pos < n \<Longrightarrow> n < pos + 20 \<Longrightarrow> prf_loop key label data c pos buf n = Some (Ok (put_bytes buf pos (take (n - pos) t)))"
proof -
  have "20 \<le> n - pos" if "pos + 20 \<le> n" using that by simp
  then show "pos + 20 \<le> n \<Longrightarrow> prf_loop key label data c pos buf n = prf_loop key label data (c + 1) (pos + 20) (put_bytes buf pos t) n" by (subst prf_loop.simps) (simp add: Let_def assms)
  have "\<not> 20 \<le> n - pos" if "n < pos + 20" using that by simp
  then show "pos < n \<Longrightarrow> n < pos + 20 \<Longrightarrow> prf_loop key label data c pos buf n = Some (Ok (put_bytes buf pos (take (n - pos) t)))" by (subst prf_loop.simps) (simp add: Let_def assms)
qed

lemma prf_loop_stream:
  fixes key label data :: bytes
  assumes "sha1_fits key" "sha1_fits (label @ [0])" "sha1_fits data" "n \<le> length buf"
  defines "T \<equiv> prf_block key label data"
  shows "20 * i \<le> n \<Longrightarrow> prf_loop key label data (of_nat i) (20 * i) (blocks T i @ drop (20 * i) buf) n =
    Some (Ok (key_stream T 20 n @ drop n buf))"
proof (induction "n - 20 * i" arbitrary: i rule: less_induct)
  case less
  have L: "length (T i) = 20" for i by (simp add: T_def)
  have h: "hmac_sha1_vector key [label @ [0], data, [of_nat i]] = Some (Ok (T i))"
    using assms(1-3) by (subst hmac_sha1_vector_rfc) (simp_all add: T_def prf_block_def sha1_fits_def)
  consider "n = 20 * i" | "20 * i + 20 \<le> n" | "20 * i < n" "n < 20 * i + 20" using less(2) by linarith
  then show ?case
  proof cases
    case 1
    then show ?thesis using fill_exact [of T 20 i] L by (subst prf_loop.simps) simp
  next
    case 2
    have "of_nat i + 1 = (of_nat (Suc i) :: u8)" "20 * i + 20 = 20 * Suc i" by simp_all
    then have "prf_loop key label data (of_nat i) (20 * i) (blocks T i @ drop (20 * i) buf) n =
        prf_loop key label data (of_nat (Suc i)) (20 * Suc i) (blocks T (Suc i) @ drop (20 * Suc i) buf) n"
      using prf_loop_steps(1) [OF h 2] fill_block [of T 20 i buf, OF L] by (simp only:)
    moreover have "n - 20 * Suc i < n - 20 * i" "20 * Suc i \<le> n" using 2 by simp_all
    ultimately show ?thesis using less(1) [of "Suc i"] by (simp only:)
  next
    case 3
    then show ?thesis using prf_loop_steps(2) [OF h 3] fill_last [of T 20 i n buf, OF L 3 assms(4)] by (simp only:)
  qed
qed

lemma iterate_fold:
  assumes "sha1_fits p"
  shows "pbkdf2_iterate p n (pbkdf2_U p s i j) acc =
    Some (Ok (fold (\<lambda>j acc. xor_bytes acc (pbkdf2_U p s i j)) [Suc j..<Suc j + n] acc))"
proof (induction n arbitrary: j acc)
  case (Suc n)
  have "hmac_sha1 p (pbkdf2_U p s i j) = Some (Ok (pbkdf2_U p s i (Suc j)))"
    using assms length_U [of p s i j] unfolding hmac_sha1_def
    by (subst hmac_sha1_vector_rfc) (simp_all del: length_U add: sha1_fits_def, simp add: pbkdf2_U_def)
  moreover have "[Suc j..<Suc j + Suc n] = Suc j # [Suc (Suc j)..<Suc (Suc j) + n]" by (simp add: upt_conv_Cons)
  ultimately show ?case using Suc by simp
qed simp

lemma f_T:
  assumes "sha1_fits p" "sha1_fits s"
  shows "pbkdf2_sha1_f p s c (of_nat (Suc i)) = Some (Ok (pbkdf2_T p s c i))"
proof -
  have cb: "count_buf x = WPA_PUT_BE32 x" for x by (simp add: count_buf_def WPA_PUT_BE32_def byte_of)
  have "hmac_sha1_vector p [s, count_buf (of_nat (Suc i))] = Some (Ok (pbkdf2_U p s i 0))"
    using assms by (subst hmac_sha1_vector_rfc) (simp_all add: pbkdf2_U_def sha1_fits_def cb byte_simps)
  moreover have "[1..<nat c] = [Suc 0..<Suc 0 + nat (c - 1)]" by (cases "1 \<le> c") (auto simp: nat_diff_distrib)
  ultimately show ?thesis using iterate_fold [OF assms(1), of "nat (c - 1)" s i 0] by (simp only: pbkdf2_sha1_f_def pbkdf2_T_def or_ret_simps)
qed

lemma pbkdf2_loop_stream:
  fixes p s :: bytes and c :: int
  assumes "sha1_fits p" "sha1_fits s" "n \<le> length buf"
  defines "T \<equiv> pbkdf2_T p s c"
  shows "20 * i \<le> n \<Longrightarrow> pbkdf2_loop p s c (of_nat i) (20 * i) (blocks T i @ drop (20 * i) buf) (n - 20 * i) =
    Some (Ok (key_stream T 20 n @ drop n buf))"
proof (induction "n - 20 * i" arbitrary: i rule: less_induct)
  case less
  have L: "length (T i) = 20" for i by (simp add: T_def)
  have h: "pbkdf2_sha1_f p s c (of_nat i + 1) = Some (Ok (T i))" using f_T [OF assms(1,2), of c i] by (simp add: T_def add.commute)
  consider "n = 20 * i" | "20 * i + 20 \<le> n" | "20 * i < n" "n < 20 * i + 20" using less(2) by linarith
  then show ?case
  proof cases
    case 1
    then show ?thesis using fill_exact [of T 20 i] L by (subst pbkdf2_loop.simps) simp
  next
    case 2
    have "(if 20 < k then 20 else k) = 20" if "20 \<le> k" for k :: nat using that by simp
    then have p: "(if 20 < n - 20 * i then 20 else n - 20 * i) = 20" "0 < n - 20 * i" "n - 20 * i - 20 = n - 20 * Suc i" using 2 by simp_all
    have "pbkdf2_loop p s c (of_nat i) (20 * i) (blocks T i @ drop (20 * i) buf) (n - 20 * i) =
        pbkdf2_loop p s c (of_nat (Suc i)) (20 * Suc i) (blocks T (Suc i) @ drop (20 * Suc i) buf) (n - 20 * Suc i)"
      using fill_block [of T 20 i buf, OF L] unfolding pbkdf2_loop.simps [of p s c "of_nat i" "20 * i" _ "n - 20 * i"] if_P [OF p(2)] p(1,3) Let_def h
      by (simp add: L add.commute)
    moreover have "n - 20 * Suc i < n - 20 * i" "20 * Suc i \<le> n" using 2 by simp_all
    ultimately show ?thesis using less(1) [of "Suc i"] by (simp only:)
  next
    case 3
    have e: "pbkdf2_loop p s c k m b 0 = Some (Ok b)" for k m b by (subst pbkdf2_loop.simps) simp
    have "\<not> 20 < n - 20 * i" "0 < n - 20 * i" using 3 by simp_all
    then show ?thesis using h fill_last [of T 20 i n buf, OF L 3 assms(3)] by (subst pbkdf2_loop.simps) (simp add: Let_def e)
  qed
qed

lemma prf_bits_kdf:
  assumes "(bits + 7) div 8 \<le> length buf"
  shows "sha256_prf_bits key label data buf bits = Some (Ok (kdf_sha256 key label data bits @ drop ((bits + 7) div 8) buf))"
proof -
  let ?n = "(bits + 7) div 8" and ?T = "kdf_block key label data bits"
  let ?s = "key_stream ?T 32 ?n"
  have l: "length ?s = ?n" by (rule length_key_stream) simp_all
  have p: "prf_bits_loop key label data (WPA_PUT_LE16 (of_nat bits)) 1 0 buf ?n = Some (Ok (?n, ?s @ drop ?n buf))"
    using prf_bits_loop_stream [OF refl assms, where i = 0] by (simp add: blocks_def)
  show ?thesis
  proof (cases "bits mod 8 = 0")
    case True
    then show ?thesis by (simp add: sha256_prf_bits_def Let_def p kdf_sha256_def)
  next
    case False
    then have n: "0 < ?n" by (cases "bits = 0") simp_all
    have ne: "?s \<noteq> []" using l n by auto
    have "(?s @ x)[?n - 1 := (?s @ x) ! (?n - 1) AND w] = butlast ?s @ [last ?s AND w] @ x" for x w
      using update_last [OF ne, of x w] by (simp only: l)
    then show ?thesis using n False by (simp add: sha256_prf_bits_def Let_def p kdf_sha256_def)
  qed
qed

text \<open>Whole bytes, as the callers ask for.\<close>

lemma kdf_bytes: "kdf_sha256 key label data (n * 8) = key_stream (kdf_block key label data (n * 8)) 32 n"
  by (simp add: kdf_sha256_def)

lemma length_kdf [simp]: "length (kdf_sha256 key label data (n * 8)) = n"
  by (simp only: kdf_bytes) (rule length_key_stream, simp_all)

lemma prf_kdf: "n \<le> length buf \<Longrightarrow> sha256_prf key label data buf n = Some (Ok (kdf_sha256 key label data (n * 8) @ drop n buf))"
  using prf_bits_kdf [of "n * 8" buf key label data] by (simp add: sha256_prf_def)

lemma sha1_prf_stream:
  assumes "sha1_fits key" "sha1_fits (label @ [0])" "sha1_fits data" "n \<le> length buf"
  shows "sha1_prf key label data buf n = Some (Ok (key_stream (prf_block key label data) 20 n @ drop n buf))"
  using prf_loop_stream [OF assms, of 0] by (simp add: sha1_prf_def blocks_def)

lemma pbkdf2_stream:
  assumes "sha1_fits p" "sha1_fits s" "n \<le> length buf"
  shows "pbkdf2_sha1 p s c buf n = Some (Ok (key_stream (pbkdf2_T p s c) 20 n @ drop n buf))"
  using pbkdf2_loop_stream [OF assms, where i = 0] by (simp add: pbkdf2_sha1_def blocks_def)

end
