(* ===== verification/WpaKeys.thy ===== *)
theory WpaKeys
  imports Hmac RsnSuites Omac1 Milenage
begin

text \<open>
  The keys of the four-way handshake and the integrity code of its frames: \<open>wpa_pmk_to_ptk\<close> and
  \<open>wpa_eapol_key_mic\<close> of \<open>src/mininet-wifi/hostap/src/common/wpa_common.c\<close>, on the pseudo-random functions of
  \<open>Hmac\<close> and the CMAC of \<open>Omac1\<close>.  The hash functions of more than 256 bits and MD5 are parameters (\<open>libs\<close>), where
  \<open>None\<close> is their failure.  \<open>Fault\<close> is a write behind the local buffer or a member of the result.
\<close>

unbundle bit_operations_syntax

section \<open>Lengths\<close>

text \<open>The build options these functions test beside those of the element code.\<close>

record key_build = build +
  CONFIG_SHA512 :: bool
  CONFIG_SUITEB :: bool
  CONFIG_SUITEB192 :: bool
  CONFIG_FIPS :: bool

record libs =
  lib_hmac_md5 :: "bytes \<Rightarrow> bytes \<Rightarrow> bytes option"
  lib_hmac_sha384 :: "bytes \<Rightarrow> bytes \<Rightarrow> bytes option"
  lib_hmac_sha512 :: "bytes \<Rightarrow> bytes \<Rightarrow> bytes option"
  lib_sha384_prf :: "bytes \<Rightarrow> bytes \<Rightarrow> bytes \<Rightarrow> nat \<Rightarrow> bytes option"
  lib_sha512_prf :: "bytes \<Rightarrow> bytes \<Rightarrow> bytes \<Rightarrow> nat \<Rightarrow> bytes option"

definition wpa_kck_len :: "u32 \<Rightarrow> nat \<Rightarrow> nat" where
  "wpa_kck_len akm pmk_len =
    (if akm \<in> {WPA_KEY_MGMT_IEEE8021X_SUITE_B_192, WPA_KEY_MGMT_IEEE8021X_SHA384, WPA_KEY_MGMT_FT_IEEE8021X_SHA384} then 24
     else if akm \<in> {WPA_KEY_MGMT_FILS_SHA256, WPA_KEY_MGMT_FT_FILS_SHA256, WPA_KEY_MGMT_FILS_SHA384, WPA_KEY_MGMT_FT_FILS_SHA384} then 0
     else if akm \<in> {WPA_KEY_MGMT_DPP, WPA_KEY_MGMT_OWE, WPA_KEY_MGMT_SAE_EXT_KEY, WPA_KEY_MGMT_FT_SAE_EXT_KEY} then pmk_len div 2
     else 16)"

definition wpa_kek_len :: "u32 \<Rightarrow> nat \<Rightarrow> nat" where
  "wpa_kek_len akm pmk_len =
    (if akm \<in> {WPA_KEY_MGMT_FILS_SHA384, WPA_KEY_MGMT_FT_FILS_SHA384} then 64
     else if akm \<in> {WPA_KEY_MGMT_IEEE8021X_SUITE_B_192, WPA_KEY_MGMT_FILS_SHA256, WPA_KEY_MGMT_FT_FILS_SHA256,
       WPA_KEY_MGMT_FT_IEEE8021X_SHA384, WPA_KEY_MGMT_IEEE8021X_SHA384} then 32
     else if akm \<in> {WPA_KEY_MGMT_DPP, WPA_KEY_MGMT_OWE, WPA_KEY_MGMT_SAE_EXT_KEY, WPA_KEY_MGMT_FT_SAE_EXT_KEY} then
       (if pmk_len \<le> 32 then 16 else 32)
     else 16)"

definition wpa_mic_len :: "u32 \<Rightarrow> nat \<Rightarrow> nat" where
  "wpa_mic_len akm pmk_len =
    (if akm \<in> {WPA_KEY_MGMT_IEEE8021X_SUITE_B_192, WPA_KEY_MGMT_FT_IEEE8021X_SHA384, WPA_KEY_MGMT_IEEE8021X_SHA384} then 24
     else if akm \<in> {WPA_KEY_MGMT_FILS_SHA256, WPA_KEY_MGMT_FILS_SHA384, WPA_KEY_MGMT_FT_FILS_SHA256, WPA_KEY_MGMT_FT_FILS_SHA384} then 0
     else if akm \<in> {WPA_KEY_MGMT_DPP, WPA_KEY_MGMT_OWE, WPA_KEY_MGMT_SAE_EXT_KEY, WPA_KEY_MGMT_FT_SAE_EXT_KEY} then pmk_len div 2
     else 16)"

definition wpa_cipher_key_len :: "u32 \<Rightarrow> nat" where
  "wpa_cipher_key_len cipher =
    (if cipher \<in> {WPA_CIPHER_CCMP_256, WPA_CIPHER_GCMP_256, WPA_CIPHER_BIP_GMAC_256, WPA_CIPHER_BIP_CMAC_256} then 32
     else if cipher \<in> {WPA_CIPHER_CCMP, WPA_CIPHER_GCMP, WPA_CIPHER_AES_128_CMAC, WPA_CIPHER_BIP_GMAC_128} then 16
     else if cipher = WPA_CIPHER_TKIP then 32 else 0)"

section \<open>The pairwise transient key\<close>

text \<open>\<open>struct wpa_ptk\<close>: the used parts of the arrays, whose lengths are the members \<open>.._len\<close>; KCK2 and KEK2 are empty.\<close>

record wpa_ptk =
  ptk_kck :: bytes
  ptk_kek :: bytes
  ptk_tk :: bytes
  ptk_kdk :: bytes
  ptk_len :: nat

definition MAX_Z_LEN :: nat where "MAX_Z_LEN = 66"
definition WPA_KEK_MAX_LEN :: nat where "WPA_KEK_MAX_LEN = 64"
definition WPA_TK_MAX_LEN :: nat where "WPA_TK_MAX_LEN = 32"
definition WPA_KDK_MAX_LEN :: nat where "WPA_KDK_MAX_LEN = 32"

lemmas max_lens = MAX_Z_LEN_def WPA_KCK_MAX_LEN_def WPA_KEK_MAX_LEN_def WPA_TK_MAX_LEN_def WPA_KDK_MAX_LEN_def

text \<open>The smaller of two fields of \<open>n\<close> bytes, then the larger one.\<close>

definition min_max :: "nat \<Rightarrow> bytes \<Rightarrow> bytes \<Rightarrow> bytes" where
  "min_max n a b = (let a = get_bytes a 0 n; b = get_bytes b 0 n in if os_memcmp a b < 0 then a @ b else b @ a)"

text \<open>The derivation into \<open>tmp\<close>, an array of \<open>tmp_len\<close> bytes.\<close>

definition tmp_len :: nat where
  "tmp_len = WPA_KCK_MAX_LEN + WPA_KEK_MAX_LEN + WPA_TK_MAX_LEN + WPA_KDK_MAX_LEN"

definition into_tmp :: "nat \<Rightarrow> (bytes \<Rightarrow> nat \<Rightarrow> bytes outcome option) \<Rightarrow> bytes outcome option" where
  "into_tmp n f = (if n > tmp_len then Some Fault else f (replicate tmp_len 0) n)"

definition lib_prf :: "(nat \<Rightarrow> bytes option) \<Rightarrow> bytes \<Rightarrow> nat \<Rightarrow> bytes outcome option" where
  "lib_prf f buf n = Some (case f n of None \<Rightarrow> Ret (- 1) | Some out \<Rightarrow> Ok (put_bytes buf 0 (take n out)))"

definition ptk_prf :: "key_build \<Rightarrow> libs \<Rightarrow> u32 \<Rightarrow> bool \<Rightarrow> bytes \<Rightarrow> bytes \<Rightarrow> bytes \<Rightarrow> nat \<Rightarrow> bytes outcome option" where
  "ptk_prf C H akm owe_ptk_workaround key label data n =
    (let prf1 = into_tmp n (sha1_prf key label data);
         prf256 = into_tmp n (sha256_prf key label data);
         prf384 = into_tmp n (lib_prf (lib_sha384_prf H key label data));
         prf512 = into_tmp n (lib_prf (lib_sha512_prf H key label data));
         failed = Some (Ret (- 1))
     in if wpa_key_mgmt_sha384 akm then (if CONFIG_SHA384 C then prf384 else failed)
        else if wpa_key_mgmt_sha256 akm then prf256
        else if CONFIG_OWE C \<and> akm = WPA_KEY_MGMT_OWE \<and> (length key = 32 \<or> owe_ptk_workaround) then prf256
        else if CONFIG_OWE C \<and> akm = WPA_KEY_MGMT_OWE \<and> length key = 48 then prf384
        else if CONFIG_OWE C \<and> akm = WPA_KEY_MGMT_OWE \<and> length key = 64 then prf512
        else if CONFIG_OWE C \<and> akm = WPA_KEY_MGMT_OWE then failed
        else if CONFIG_DPP C \<and> akm = WPA_KEY_MGMT_DPP \<and> length key = 32 then prf256
        else if CONFIG_DPP C \<and> akm = WPA_KEY_MGMT_DPP \<and> length key = 48 then prf384
        else if CONFIG_DPP C \<and> akm = WPA_KEY_MGMT_DPP \<and> length key = 64 then prf512
        else if CONFIG_DPP C \<and> akm = WPA_KEY_MGMT_DPP then failed
        else if CONFIG_SAE C \<and> wpa_key_mgmt_sae_ext_key akm then
          (if length key = 32 then prf256
           else if CONFIG_SHA384 C \<and> length key = 48 then prf384
           else if CONFIG_SHA512 C \<and> length key = 64 then prf512
           else failed)
        else prf1)"

text \<open>\<open>os_memcpy\<close> of \<open>n\<close> bytes at \<open>off\<close> of \<open>tmp\<close> into a member of \<open>cap\<close> bytes.\<close>

definition copy_member :: "bytes \<Rightarrow> nat \<Rightarrow> nat \<Rightarrow> nat \<Rightarrow> (bytes \<Rightarrow> 'a outcome) \<Rightarrow> 'a outcome" where
  "copy_member tmp off n cap f = (if n > cap then Fault else f (get_bytes tmp off n))"

definition wpa_pmk_to_ptk :: "key_build \<Rightarrow> libs \<Rightarrow> bytes \<Rightarrow> bytes \<Rightarrow> bytes \<Rightarrow> bytes \<Rightarrow> bytes \<Rightarrow> bytes \<Rightarrow> u32 \<Rightarrow> u32 \<Rightarrow> bytes \<Rightarrow> nat \<Rightarrow>
    wpa_ptk outcome option" where
  "wpa_pmk_to_ptk C H key label addr1 addr2 nonce1 nonce2 akm cipher z kdk_len =
    (let workaround = CONFIG_OWE C \<and> akm = WPA_KEY_MGMT_OWE OR WPA_KEY_MGMT_PSK_SHA256;
         akm = (if workaround then WPA_KEY_MGMT_OWE else akm)
     in if key = [] then Some (Ret (- 1))
        else if length z > MAX_Z_LEN then Some (Ret (- 1))
        else
          let data = min_max 6 addr1 addr2 @ min_max 32 nonce1 nonce2 @ z
          in if kdk_len > WPA_KDK_MAX_LEN then Some (Ret (- 1))
             else
               let kck_len = wpa_kck_len akm (length key); kek_len = wpa_kek_len akm (length key);
                   tk_len = wpa_cipher_key_len cipher
               in if tk_len = 0 then Some (Ret (- 1))
                  else
                    let n = kck_len + kek_len + tk_len + kdk_len
                    in or_ret (- 1) (ptk_prf C H akm workaround key label data n) (\<lambda>tmp. Some (
                         copy_member tmp 0 kck_len WPA_KCK_MAX_LEN (\<lambda>kk.
                         copy_member tmp kck_len kek_len WPA_KEK_MAX_LEN (\<lambda>ke.
                         copy_member tmp (kck_len + kek_len) tk_len WPA_TK_MAX_LEN (\<lambda>t.
                         copy_member tmp (kck_len + kek_len + tk_len) kdk_len WPA_KDK_MAX_LEN (\<lambda>kd.
                         Ok \<lparr>ptk_kck = kk, ptk_kek = ke, ptk_tk = t, ptk_kdk = kd, ptk_len = n\<rparr>)))))))"

section \<open>The integrity code of EAPOL-Key frames\<close>

definition lib_mac :: "bytes option \<Rightarrow> bytes outcome option" where
  "lib_mac r = Some (case r of None \<Rightarrow> Ret (- 1) | Some hash \<Rightarrow> Ok hash)"

text \<open>HMAC with a hash of twice the length of the KCK, cut to the length of the KCK; \<open>c384\<close> and \<open>c512\<close> say what is built in.\<close>

definition mic_by_len :: "libs \<Rightarrow> bool \<Rightarrow> bool \<Rightarrow> bytes \<Rightarrow> bytes \<Rightarrow> bytes outcome option" where
  "mic_by_len H c384 c512 key buf =
    or_ret (- 1)
      (if length key = 16 then Hmac.hmac_sha256 key buf
       else if c384 \<and> length key = 24 then lib_mac (lib_hmac_sha384 H key buf)
       else if c512 \<and> length key = 32 then lib_mac (lib_hmac_sha512 H key buf)
       else Some (Ret (- 1)))
      (\<lambda>hash. Some (Ok (take (length key) hash)))"

text \<open>AES-CMAC under the first 16 bytes of the KCK, whose length the code does not pass on: a shorter one is read out of bounds.\<close>

definition cmac_kck :: "bytes \<Rightarrow> bytes \<Rightarrow> bytes outcome" where
  "cmac_kck key buf = (if length key < 16 then Fault else omac1_aes_128 key buf)"

text \<open>\<open>ver\<close>: 0 is defined by the AKM, 1 HMAC-MD5, 2 HMAC-SHA-1, 3 AES-CMAC.\<close>

definition wpa_eapol_key_mic :: "key_build \<Rightarrow> libs \<Rightarrow> bytes \<Rightarrow> u32 \<Rightarrow> nat \<Rightarrow> bytes \<Rightarrow> bytes outcome option" where
  "wpa_eapol_key_mic C H key akm ver buf =
    (if key = [] then Some (Ret (- 1))
     else if ver = 1 \<and> \<not> CONFIG_FIPS C then lib_mac (lib_hmac_md5 H key buf)
     else if ver = 2 then or_ret (- 1) (Hmac.hmac_sha1 key buf) (\<lambda>hash. Some (Ok (take 16 hash)))
     else if ver = 3 then Some (cmac_kck key buf)
     else if ver = 0 then
       (if CONFIG_SAE C \<and> akm \<in> {WPA_KEY_MGMT_SAE, WPA_KEY_MGMT_FT_SAE} then Some (cmac_kck key buf)
        else if CONFIG_SAE C \<and> akm \<in> {WPA_KEY_MGMT_SAE_EXT_KEY, WPA_KEY_MGMT_FT_SAE_EXT_KEY} then
          mic_by_len H (CONFIG_SHA384 C) (CONFIG_SHA512 C) key buf
        else if CONFIG_SUITEB C \<and> akm = WPA_KEY_MGMT_IEEE8021X_SUITE_B then
          or_ret (- 1) (Hmac.hmac_sha256 key buf) (\<lambda>hash. Some (Ok (take 16 hash)))
        else if CONFIG_SUITEB192 C \<and> akm = WPA_KEY_MGMT_IEEE8021X_SUITE_B_192 then
          or_ret (- 1) (lib_mac (lib_hmac_sha384 H key buf)) (\<lambda>hash. Some (Ok (take 24 hash)))
        else if CONFIG_OWE C \<and> akm = WPA_KEY_MGMT_OWE then mic_by_len H True True key buf
        else if CONFIG_DPP C \<and> akm = WPA_KEY_MGMT_DPP then mic_by_len H True True key buf
        else if CONFIG_SHA384 C \<and> (akm = WPA_KEY_MGMT_IEEE8021X_SHA384 \<or>
            CONFIG_IEEE80211R C \<and> akm = WPA_KEY_MGMT_FT_IEEE8021X_SHA384) then
          or_ret (- 1) (lib_mac (lib_hmac_sha384 H key buf)) (\<lambda>hash. Some (Ok (take 24 hash)))
        else Some (Ret (- 1)))
     else Some (Ret (- 1)))"

definition wpa_use_akm_defined :: "u32 \<Rightarrow> bool" where
  "wpa_use_akm_defined akm \<longleftrightarrow> akm = WPA_KEY_MGMT_OWE \<or> akm = WPA_KEY_MGMT_DPP \<or>
    akm = WPA_KEY_MGMT_FT_IEEE8021X_SHA384 \<or> akm = WPA_KEY_MGMT_IEEE8021X_SHA384 \<or>
    wpa_key_mgmt_sae akm \<or> wpa_key_mgmt_suite_b akm \<or> wpa_key_mgmt_fils akm"

definition wpa_use_cmac :: "u32 \<Rightarrow> bool" where
  "wpa_use_cmac akm \<longleftrightarrow> akm = WPA_KEY_MGMT_OWE \<or> akm = WPA_KEY_MGMT_DPP \<or> wpa_key_mgmt_ft akm \<or>
    wpa_key_mgmt_sha256 akm \<or> (wpa_key_mgmt_sae akm \<and> \<not> wpa_key_mgmt_sae_ext_key akm) \<or> wpa_key_mgmt_suite_b akm"

definition wpa_use_aes_key_wrap :: "u32 \<Rightarrow> bool" where
  "wpa_use_aes_key_wrap akm \<longleftrightarrow> akm = WPA_KEY_MGMT_OWE \<or> akm = WPA_KEY_MGMT_DPP \<or>
    akm = WPA_KEY_MGMT_IEEE8021X_SHA384 \<or> wpa_key_mgmt_ft akm \<or> wpa_key_mgmt_sha256 akm \<or>
    wpa_key_mgmt_sae akm \<or> wpa_key_mgmt_suite_b akm"

section \<open>The two sides derive the same keys\<close>

lemma os_memcmp_swap: "length a = length b \<Longrightarrow> os_memcmp b a = - os_memcmp a b"
  by (induction a b rule: list_induct2) auto

lemma os_memcmp_0: "length a = length b \<Longrightarrow> os_memcmp a b = 0 \<Longrightarrow> a = b"
  by (induction a b rule: list_induct2) (auto simp: word_uint_eq_iff split: if_splits)

lemma min_max_swap:
  assumes "n \<le> length a" "n \<le> length b"
  shows "min_max n a b = min_max n b a"
proof -
  let ?a = "get_bytes a 0 n" and ?b = "get_bytes b 0 n"
  have l: "length ?a = length ?b" using assms by (simp add: length_get_bytes)
  have "?a = ?b" if "\<not> os_memcmp ?a ?b < 0" "\<not> os_memcmp ?b ?a < 0"
    using that os_memcmp_swap [OF l] os_memcmp_0 [OF l] by simp
  then show ?thesis using os_memcmp_swap [OF l] by (auto simp: min_max_def Let_def)
qed

lemma length_min_max: "n \<le> length a \<Longrightarrow> n \<le> length b \<Longrightarrow> length (min_max n a b) = 2 * n"
  by (simp add: min_max_def Let_def length_get_bytes)

section \<open>The derivation\<close>

lemma tmp_len_eq: "tmp_len = 160"
  by (simp add: tmp_len_def max_lens)

lemma ptk_lens:
  assumes "pmk_len \<le> 64"
  shows "wpa_kck_len akm pmk_len \<le> 32" "wpa_kek_len akm pmk_len \<le> 64" "wpa_cipher_key_len cipher \<le> 32"
proof -
  have "pmk_len div 2 \<le> 32" using assms by simp
  then show "wpa_kck_len akm pmk_len \<le> 32" by (simp add: wpa_kck_len_def)
  show "wpa_kek_len akm pmk_len \<le> 64" "wpa_cipher_key_len cipher \<le> 32" by (simp_all add: wpa_kek_len_def wpa_cipher_key_len_def)
qed

lemma into_tmp_prf256:
  "n \<le> 160 \<Longrightarrow> into_tmp n (sha256_prf key label data) = Some (Ok (kdf_sha256 key label data (n * 8) @ replicate (160 - n) 0))"
  by (simp add: into_tmp_def prf_kdf tmp_len_eq)

lemma into_tmp_prf1:
  "n \<le> 160 \<Longrightarrow> sha1_fits key \<Longrightarrow> sha1_fits (label @ [0]) \<Longrightarrow> sha1_fits data \<Longrightarrow>
    into_tmp n (sha1_prf key label data) = Some (Ok (key_stream (prf_block key label data) 20 n @ replicate (160 - n) 0))"
  by (simp add: into_tmp_def sha1_prf_stream tmp_len_eq)

lemma min_max_replicate: "a \<noteq> b \<Longrightarrow> min_max (Suc n) (replicate (Suc n) a) (replicate (Suc n) b) =
    (if a < b then replicate (Suc n) a @ replicate (Suc n) b else replicate (Suc n) b @ replicate (Suc n) a)"
  by (simp add: min_max_def get_bytes_def word_less_def)

text \<open>The four parts of the first \<open>n\<close> bytes of \<open>tmp\<close>.\<close>

definition split_ptk :: "bytes \<Rightarrow> nat \<Rightarrow> nat \<Rightarrow> nat \<Rightarrow> nat \<Rightarrow> wpa_ptk" where
  "split_ptk out kck_len kek_len tk_len kdk_len =
    \<lparr>ptk_kck = take kck_len out, ptk_kek = take kek_len (drop kck_len out),
      ptk_tk = take tk_len (drop (kck_len + kek_len) out), ptk_kdk = take kdk_len (drop (kck_len + kek_len + tk_len) out),
      ptk_len = kck_len + kek_len + tk_len + kdk_len\<rparr>"

lemma split_ptk_append:
  "length out = a + b + c + d \<Longrightarrow> ptk_kck (split_ptk out a b c d) @ ptk_kek (split_ptk out a b c d) @ ptk_tk (split_ptk out a b c d) @
    ptk_kdk (split_ptk out a b c d) = out"
  using take_add [of "a + b + c" d out] take_add [of "a + b" c out] take_add [of a b out] by (simp add: split_ptk_def)

lemma copy_members:
  assumes "a \<le> 32" "b \<le> 64" "c \<le> 32" "d \<le> 32" "length out = a + b + c + d"
  shows "copy_member (out @ junk) 0 a WPA_KCK_MAX_LEN (\<lambda>kk. copy_member (out @ junk) a b WPA_KEK_MAX_LEN (\<lambda>ke.
      copy_member (out @ junk) (a + b) c WPA_TK_MAX_LEN (\<lambda>t. copy_member (out @ junk) (a + b + c) d WPA_KDK_MAX_LEN (\<lambda>kd.
        Ok \<lparr>ptk_kck = kk, ptk_kek = ke, ptk_tk = t, ptk_kdk = kd, ptk_len = a + b + c + d\<rparr>)))) = Ok (split_ptk out a b c d)"
  using assms by (simp add: copy_member_def max_lens split_ptk_def get_bytes_def)

text \<open>The arguments \<open>wpa_pmk_to_ptk\<close> does not refuse, and the derivation it then makes.\<close>

definition ptk_args_ok :: "bytes \<Rightarrow> u32 \<Rightarrow> bytes \<Rightarrow> nat \<Rightarrow> bool" where
  "ptk_args_ok key cipher z kdk_len \<longleftrightarrow> key \<noteq> [] \<and> length z \<le> 66 \<and> kdk_len \<le> 32 \<and> wpa_cipher_key_len cipher \<noteq> 0"

lemma refused: "\<not> ptk_args_ok key cipher z kdk_len \<Longrightarrow>
    wpa_pmk_to_ptk C H key label aa sa an sn akm cipher z kdk_len = Some (Ret (- 1))"
  by (auto simp: ptk_args_ok_def wpa_pmk_to_ptk_def Let_def max_lens)

lemma derived:
  fixes C :: key_build and akm :: u32
  assumes "ptk_args_ok key cipher z kdk_len" "length key \<le> 64"
  defines "w \<equiv> CONFIG_OWE C \<and> akm = WPA_KEY_MGMT_OWE OR WPA_KEY_MGMT_PSK_SHA256"
  defines "k \<equiv> (if w then WPA_KEY_MGMT_OWE else akm)"
  defines "a \<equiv> wpa_kck_len k (length key)" and "b \<equiv> wpa_kek_len k (length key)" and "c \<equiv> wpa_cipher_key_len cipher"
  assumes p: "ptk_prf C H k w key label (min_max 6 aa sa @ min_max 32 an sn @ z) (a + b + c + kdk_len) = r"
  shows "r = Some (Ok (out @ junk)) \<Longrightarrow> length out = a + b + c + kdk_len \<Longrightarrow>
      wpa_pmk_to_ptk C H key label aa sa an sn akm cipher z kdk_len = Some (Ok (split_ptk out a b c kdk_len))"
    "r = Some (Ret x) \<Longrightarrow> wpa_pmk_to_ptk C H key label aa sa an sn akm cipher z kdk_len = Some (Ret (- 1))"
proof -
  have len: "a \<le> 32" "b \<le> 64" "c \<le> 32" "kdk_len \<le> 32"
    using ptk_lens [OF assms(2)] assms(1) by (simp_all add: a_def b_def c_def ptk_args_ok_def)
  have e: "wpa_pmk_to_ptk C H key label aa sa an sn akm cipher z kdk_len = or_ret (- 1) r (\<lambda>tmp. Some (
      copy_member tmp 0 a WPA_KCK_MAX_LEN (\<lambda>kk. copy_member tmp a b WPA_KEK_MAX_LEN (\<lambda>ke.
      copy_member tmp (a + b) c WPA_TK_MAX_LEN (\<lambda>t. copy_member tmp (a + b + c) kdk_len WPA_KDK_MAX_LEN (\<lambda>kd.
        Ok \<lparr>ptk_kck = kk, ptk_kek = ke, ptk_tk = t, ptk_kdk = kd, ptk_len = a + b + c + kdk_len\<rparr>))))))"
    using assms(1) unfolding p [symmetric] wpa_pmk_to_ptk_def w_def [symmetric] Let_def k_def [symmetric] a_def [symmetric] b_def [symmetric]
      c_def [symmetric] by (simp add: ptk_args_ok_def max_lens c_def)
  show "r = Some (Ok (out @ junk)) \<Longrightarrow> length out = a + b + c + kdk_len \<Longrightarrow>
      wpa_pmk_to_ptk C H key label aa sa an sn akm cipher z kdk_len = Some (Ok (split_ptk out a b c kdk_len))"
    unfolding e using copy_members [OF len] by simp
  show "r = Some (Ret x) \<Longrightarrow> wpa_pmk_to_ptk C H key label aa sa an sn akm cipher z kdk_len = Some (Ret (- 1))"
    unfolding e by simp
qed

text \<open>What the library functions are relied on for: they deliver as many bytes as asked for.\<close>

definition libs_ok :: "libs \<Rightarrow> bool" where
  "libs_ok H \<longleftrightarrow> (\<forall>k m r. lib_hmac_md5 H k m = Some r \<longrightarrow> length r = 16) \<and>
    (\<forall>k m r. lib_hmac_sha384 H k m = Some r \<longrightarrow> length r = 48) \<and> (\<forall>k m r. lib_hmac_sha512 H k m = Some r \<longrightarrow> length r = 64) \<and>
    (\<forall>k l d n r. lib_sha384_prf H k l d n = Some r \<longrightarrow> length r = n) \<and> (\<forall>k l d n r. lib_sha512_prf H k l d n = Some r \<longrightarrow> length r = n)"

lemma into_tmp_lib:
  assumes "n \<le> 160" "\<And>r. f n = Some r \<Longrightarrow> length r = n"
  shows "(\<exists>out. length out = n \<and> into_tmp n (lib_prf f) = Some (Ok (out @ replicate (160 - n) 0))) \<or> into_tmp n (lib_prf f) = Some (Ret (- 1))"
  using assms by (cases "f n") (auto simp: into_tmp_def lib_prf_def tmp_len_eq put_bytes_def)

lemma ptk_prf_result:
  assumes "libs_ok H" "n \<le> 160" "sha1_fits key" "sha1_fits (label @ [0])" "sha1_fits data"
  shows "(\<exists>out. length out = n \<and> ptk_prf C H k w key label data n = Some (Ok (out @ replicate (160 - n) 0))) \<or>
    ptk_prf C H k w key label data n = Some (Ret (- 1))"
proof -
  have 1: "length (key_stream (prf_block key label data) 20 n) = n" by (rule length_key_stream) simp_all
  note p = into_tmp_prf1 [OF assms(2-5)] into_tmp_prf256 [OF assms(2), of key label data]
  have l: "\<exists>out. length out = n \<and> into_tmp n (lib_prf (g H key label data)) = Some (Ok (out @ replicate (160 - n) 0))"
    if "into_tmp n (lib_prf (g H key label data)) \<noteq> Some (Ret (- 1))" "g \<in> {lib_sha384_prf, lib_sha512_prf}" for g
    using that into_tmp_lib [OF assms(2), of "g H key label data"] assms(1) by (auto simp: libs_ok_def)
  define R where "R r \<longleftrightarrow> (\<exists>out. length out = n \<and> r = Some (Ok (out @ replicate (160 - n) (0 :: u8)))) \<or> r = Some (Ret (- 1))" for r
  have "R (into_tmp n (sha1_prf key label data))" "R (into_tmp n (sha256_prf key label data))" "R (Some (Ret (- 1)))"
    unfolding R_def p using 1 by auto
  moreover have "R (into_tmp n (lib_prf (lib_sha384_prf H key label data)))" "R (into_tmp n (lib_prf (lib_sha512_prf H key label data)))"
    unfolding R_def using l [of lib_sha384_prf] l [of lib_sha512_prf] by blast+
  ultimately have "R (ptk_prf C H k w key label data n)" unfolding ptk_prf_def Let_def by simp
  then show ?thesis by (simp add: R_def)
qed

section \<open>The length of the MIC\<close>

definition mic_ok :: "nat \<Rightarrow> bytes outcome option \<Rightarrow> bool" where
  "mic_ok n r \<longleftrightarrow> r \<noteq> None \<and> r \<noteq> Some Fault \<and> (\<forall>mic. r = Some (Ok mic) \<longrightarrow> length mic = n)"

lemma mic_simps [simp]: "mic_ok n (Some (Ret x))" "mic_ok n (Some (Ok mic)) \<longleftrightarrow> length mic = n"
  by (simp_all add: mic_ok_def)

lemma mic_if: "(b \<Longrightarrow> mic_ok n x) \<Longrightarrow> (\<not> b \<Longrightarrow> mic_ok n y) \<Longrightarrow> mic_ok n (if b then x else y)"
  by simp

lemma cmac_kck_ok: "16 \<le> length key \<Longrightarrow> \<exists>mic. cmac_kck key frame = Ok mic \<and> length mic = 16"
proof -
  assume k: "16 \<le> length key"
  obtain ctx where "aes_encrypt_init key 16 = Some ctx" using aes_encrypt_init_16(1) by blast
  then have "omac1_aes_128 key frame = Ok (cmac (aes_encrypt ctx) frame)"
    using aes.omac1_vector_ok [of "[frame]" ctx] by (simp add: omac1_aes_128_def omac1_aes_128_vector_def omac1_aes_vector_def)
  then show ?thesis using k by (simp add: cmac_kck_def)
qed

lemma cmac_mic: "16 \<le> length key \<Longrightarrow> mic_ok 16 (Some (cmac_kck key frame))"
  using cmac_kck_ok [of key frame] by auto

lemma lib_mic:
  assumes "libs_ok H"
  shows "mic_ok 16 (lib_mac (lib_hmac_md5 H key frame))"
    "n \<le> 48 \<Longrightarrow> mic_ok n (or_ret x (lib_mac (lib_hmac_sha384 H key frame)) (\<lambda>hash. Some (Ok (take n hash))))"
    "n \<le> 64 \<Longrightarrow> mic_ok n (or_ret x (lib_mac (lib_hmac_sha512 H key frame)) (\<lambda>hash. Some (Ok (take n hash))))"
  using assms by (auto simp: libs_ok_def lib_mac_def split: option.splits)

lemma hmac_mic:
  "n \<le> 32 \<Longrightarrow> mic_ok n (or_ret x (Hmac.hmac_sha256 key frame) (\<lambda>hash. Some (Ok (take n hash))))"
  "n \<le> 20 \<Longrightarrow> sha1_fits key \<Longrightarrow> sha1_fits frame \<Longrightarrow> mic_ok n (or_ret x (Hmac.hmac_sha1 key frame) (\<lambda>hash. Some (Ok (take n hash))))"
  by (simp_all add: Hmac.hmac_sha256_def Hmac.hmac_sha1_def hmac_sha256_vector_rfc hmac_sha1_vector_rfc)

lemma by_len_mic: "libs_ok H \<Longrightarrow> mic_ok (length key) (mic_by_len H c384 c512 key frame)"
  using lib_mic(2) [of H 24] lib_mic(3) [of H 32] hmac_mic(1) [of 16] by (simp add: mic_by_len_def)

text \<open>The suites whose integrity code their AKM defines.\<close>

lemma mic_lens:
  "wpa_mic_len WPA_KEY_MGMT_SAE n = 16" "wpa_mic_len WPA_KEY_MGMT_FT_SAE n = 16" "wpa_mic_len WPA_KEY_MGMT_IEEE8021X_SUITE_B n = 16"
  "wpa_mic_len WPA_KEY_MGMT_IEEE8021X_SUITE_B_192 n = 24" "wpa_mic_len WPA_KEY_MGMT_IEEE8021X_SHA384 n = 24"
  "wpa_mic_len WPA_KEY_MGMT_FT_IEEE8021X_SHA384 n = 24"
  by (simp_all add: wpa_mic_len_def akm_defs)

lemma mic_len_kck:
  "akm \<in> {WPA_KEY_MGMT_DPP, WPA_KEY_MGMT_OWE, WPA_KEY_MGMT_SAE_EXT_KEY, WPA_KEY_MGMT_FT_SAE_EXT_KEY} \<Longrightarrow> wpa_mic_len akm n = wpa_kck_len akm n"
  by (auto simp: wpa_mic_len_def wpa_kck_len_def akm_defs)

definition kck_sized :: "u32 set" where
  "kck_sized = {WPA_KEY_MGMT_DPP, WPA_KEY_MGMT_OWE, WPA_KEY_MGMT_SAE_EXT_KEY, WPA_KEY_MGMT_FT_SAE_EXT_KEY}"

text \<open>The calls that compute a CMAC.\<close>

definition takes_cmac :: "key_build \<Rightarrow> u32 \<Rightarrow> nat \<Rightarrow> bool" where
  "takes_cmac C akm ver \<longleftrightarrow> ver = 3 \<or> ver = 0 \<and> CONFIG_SAE C \<and> akm \<in> {WPA_KEY_MGMT_SAE, WPA_KEY_MGMT_FT_SAE}"

lemma akm_defined_mic:
  assumes "libs_ok H" "takes_cmac C akm 0 \<Longrightarrow> 16 \<le> length key"
  shows "mic_ok (if akm \<in> kck_sized then length key else wpa_mic_len akm pmk_len) (wpa_eapol_key_mic C H key akm 0 frame)"
proof -
  have c: "mic_ok 16 (Some (cmac_kck key frame))" if "CONFIG_SAE C" "akm \<in> {WPA_KEY_MGMT_SAE, WPA_KEY_MGMT_FT_SAE}"
    using that assms(2) by (auto simp: takes_cmac_def intro: cmac_mic)
  have k: "WPA_KEY_MGMT_SAE \<notin> kck_sized" "WPA_KEY_MGMT_FT_SAE \<notin> kck_sized" "WPA_KEY_MGMT_IEEE8021X_SUITE_B \<notin> kck_sized"
    "WPA_KEY_MGMT_IEEE8021X_SUITE_B_192 \<notin> kck_sized" "WPA_KEY_MGMT_IEEE8021X_SHA384 \<notin> kck_sized"
    "WPA_KEY_MGMT_FT_IEEE8021X_SHA384 \<notin> kck_sized" "WPA_KEY_MGMT_DPP \<in> kck_sized" "WPA_KEY_MGMT_OWE \<in> kck_sized"
    "WPA_KEY_MGMT_SAE_EXT_KEY \<in> kck_sized" "WPA_KEY_MGMT_FT_SAE_EXT_KEY \<in> kck_sized"
    by (simp_all add: kck_sized_def akm_defs)
  show ?thesis
    unfolding wpa_eapol_key_mic_def
    by (intro mic_if) (use c k in \<open>auto simp: mic_lens lib_mic(2) [OF assms(1)] hmac_mic(1) by_len_mic [OF assms(1)]\<close>)
qed

lemma kck_16: "wpa_mic_len akm n \<noteq> 0 \<Longrightarrow> 32 \<le> n \<Longrightarrow> 16 \<le> wpa_kck_len akm n"
  by (auto simp: wpa_mic_len_def wpa_kck_len_def akm_defs split: if_splits)

lemma kck_sized_len: "akm \<in> kck_sized \<Longrightarrow> wpa_mic_len akm pmk_len = wpa_kck_len akm pmk_len"
  unfolding kck_sized_def by (rule mic_len_kck)

lemma kck_mic:
  assumes "libs_ok H" "length key = wpa_kck_len akm pmk_len"
  shows "mic_ok (wpa_mic_len akm pmk_len) (wpa_eapol_key_mic C H key akm 0 frame)"
proof -
  have "16 \<le> length key" if "takes_cmac C akm 0"
    using that assms(2) by (auto simp: takes_cmac_def wpa_kck_len_def akm_defs)
  then have "mic_ok (if akm \<in> kck_sized then length key else wpa_mic_len akm pmk_len) (wpa_eapol_key_mic C H key akm 0 frame)"
    using akm_defined_mic [OF assms(1), of C akm key] by blast
  then show ?thesis using kck_sized_len [of akm pmk_len] assms(2) by (cases "akm \<in> kck_sized") simp_all
qed

lemma version_mic:
  assumes "libs_ok H" "sha1_fits key" "sha1_fits frame" "ver \<noteq> 0" "ver = 3 \<Longrightarrow> 16 \<le> length key"
  shows "mic_ok 16 (wpa_eapol_key_mic C H key akm ver frame)"
  unfolding wpa_eapol_key_mic_def using lib_mic(1) [OF assms(1)] hmac_mic(2) [of 16] cmac_mic assms(2-5) by simp

lemma takes_cmac_mic:
  assumes "takes_cmac C akm ver" "key \<noteq> []"
  shows "wpa_eapol_key_mic C H key akm ver frame = Some (cmac_kck key frame)"
proof (cases "ver = 3")
  case True
  then show ?thesis unfolding wpa_eapol_key_mic_def if_not_P [OF assms(2)] by simp
next
  case False
  then have v: "ver = 0" and c: "CONFIG_SAE C \<and> akm \<in> {WPA_KEY_MGMT_SAE, WPA_KEY_MGMT_FT_SAE}"
    using assms(1) by (simp_all add: takes_cmac_def)
  show ?thesis unfolding wpa_eapol_key_mic_def if_not_P [OF assms(2)] if_P [OF c] v by simp
qed

lemma no_kck: "wpa_eapol_key_mic C H [] akm ver frame = Some (Ret (- 1))"
  by (simp add: wpa_eapol_key_mic_def)

text \<open>HMAC-SHA-1 and CMAC do not fail.\<close>

lemma mic_computed:
  assumes "sha1_fits key" "sha1_fits frame" "key \<noteq> []"
  shows "ver = 2 \<Longrightarrow> \<exists>mic. wpa_eapol_key_mic C H key akm ver frame = Some (Ok mic)"
    "takes_cmac C akm ver \<Longrightarrow> 16 \<le> length key \<Longrightarrow> \<exists>mic. wpa_eapol_key_mic C H key akm ver frame = Some (Ok mic)"
proof -
  show "ver = 2 \<Longrightarrow> \<exists>mic. wpa_eapol_key_mic C H key akm ver frame = Some (Ok mic)"
    using assms by (simp add: wpa_eapol_key_mic_def Hmac.hmac_sha1_def hmac_sha1_vector_rfc)
  show "takes_cmac C akm ver \<Longrightarrow> 16 \<le> length key \<Longrightarrow> \<exists>mic. wpa_eapol_key_mic C H key akm ver frame = Some (Ok mic)"
    using takes_cmac_mic [OF _ assms(3), of C akm ver H frame] cmac_kck_ok [of key frame] by auto
qed

end
