(* ===== verification/KeyProps.thy ===== *)
theory KeyProps
  imports WpaKeys
begin

text \<open>
  The properties of hashing, key derivation and the keys of the four-way handshake, with their instances.
\<close>

unbundle bit_operations_syntax

text \<open>A build and the libraries of the instances.\<close>

definition sample_key_build :: key_build where
  "sample_key_build = \<lparr>CONFIG_IEEE80211R = True, CONFIG_SHA384 = False, CONFIG_SAE = True, CONFIG_FILS = False, CONFIG_OWE = True,
    CONFIG_DPP = False, CONFIG_DPP2 = False, CONFIG_PASN = False, CONFIG_OCV = False, CONFIG_SAE_PK = False, CONFIG_NO_TKIP = False,
    CONFIG_SHA512 = False, CONFIG_SUITEB = False, CONFIG_SUITEB192 = False, CONFIG_FIPS = False\<rparr>"

definition no_libs :: libs where
  "no_libs = \<lparr>lib_hmac_md5 = \<lambda>_ _. None, lib_hmac_sha384 = \<lambda>_ _. None, lib_hmac_sha512 = \<lambda>_ _. None,
    lib_sha384_prf = \<lambda>_ _ _ _. None, lib_sha512_prf = \<lambda>_ _ _ _. None\<rparr>"

text \<open>
  C15: On any stack contents \<open>sha256_vector\<close> returns the SHA-256 of FIPS 180-4 over the concatenated elements, whose constants are
  computed from the roots of the first primes, and
  \<open>sha1_vector\<close> the SHA-1 when no element is longer than \<open>2^32 - 64\<close> bytes; an element for which the fill of
  the buffer and the 32-bit length add up to \<open>2^32\<close> is copied behind the buffer.
\<close>

theorem sha_vectors_fips:
  assumes "length junk = 64"
  shows "sha256_vector_on junk es = Some (Ok (sha256 (concat es))) \<and>
    (list_all sha1_fits es \<longrightarrow> sha1_vector_on junk es = Some (Ok (sha1 (concat es))) \<and>
      (length (concat es) mod 64 \<noteq> 0 \<longrightarrow> length e = 2 ^ 32 - length (concat es) mod 64 \<longrightarrow>
        sha1_vector_on junk (es @ [e]) = Some Fault))"
  using vector_on [OF assms, of es] sha1_vector_on_fits [OF assms, of es] sha1_vector_overflow [OF assms, of es e] by simp

theorem sha_vectors_fips_witness:
  "sha256_vector_on (replicate 64 7) [[97], [], [98, 99]] = Some (Ok (sha256 [97, 98, 99])) \<and>
    sha1_vector_on (replicate 64 7) [[97], [], [98, 99]] = Some (Ok (sha1 [97, 98, 99])) \<and>
    sha1_vector_on (replicate 64 7) [[97], [], [98, 99], replicate (2 ^ 32 - 3) 0] = Some Fault"
proof -
  have f: "list_all sha1_fits [[97], [], [98, 99]]" by (simp add: sha1_fits_def)
  have l: "length (concat [[97], [], [98, 99 :: u8]]) mod 64 = 3" by simp
  have "length (replicate (2 ^ 32 - 3) (0 :: u8)) = 2 ^ 32 - length (concat [[97], [], [98, 99 :: u8]]) mod 64"
    unfolding l by (rule length_replicate)
  then show ?thesis
    using sha_vectors_fips [of "replicate 64 7" "[[97], [], [98, 99]]" "replicate (2 ^ 32 - 3) 0"] f l
    by (simp del: replicate.simps)
qed

text \<open>
  C16: \<open>hmac_sha256_vector\<close> and \<open>hmac_sha1_vector\<close> compute HMAC (RFC 2104) of the concatenated elements, for keys of
  any length; they refuse more than 11 and more than 5 elements.
\<close>

theorem hmac_rfc2104:
  assumes "sha1_fits key" "list_all sha1_fits es"
  shows "hmac_sha256_vector key es = (if length es \<le> 11 then Some (Ok (rfc2104 sha256 key (concat es))) else Some (Ret (- 1))) \<and>
    hmac_sha1_vector key es = (if length es \<le> 5 then Some (Ok (rfc2104 sha1 key (concat es))) else Some (Ret (- 1)))"
  using hmac_sha256_vector_rfc [of key es] hmac_sha1_vector_rfc [OF assms] by auto

theorem hmac_rfc2104_witness:
  "hmac_sha1_vector (replicate 100 1) [[1], [2, 3]] =
    Some (Ok (let k = sha1 (replicate 100 1) @ replicate 44 0
      in sha1 (xor_bytes k (replicate 64 0x5c) @ sha1 (xor_bytes k (replicate 64 0x36) @ [1, 2, 3])))) \<and>
    hmac_sha256_vector [] (replicate 12 [0]) = Some (Ret (- 1))"
proof -
  have "rfc2104_key sha1 (replicate 100 1) = sha1 (replicate 100 1) @ replicate 44 0"
    by (simp add: rfc2104_key_def length_sha1 Let_def del: replicate.simps)
  then show ?thesis
    using hmac_rfc2104 [of "replicate 100 1" "[[1], [2, 3]]"] hmac_rfc2104 [of "[]" "replicate 12 [0]"]
    by (simp add: sha1_fits_def rfc2104_def list_all_iff Let_def)
qed

text \<open>
  C17: The key derivations return exactly the bytes of their standards at the beginning of the output buffer and leave the rest
  of it: \<open>sha256_prf_bits\<close> the KDF and \<open>sha1_prf\<close> the PRF of IEEE 802.11, \<open>pbkdf2_sha1\<close> PBKDF2 of RFC 8018.
\<close>

theorem key_derivation_standards:
  assumes "sha1_fits key" "sha1_fits (label @ [0])" "sha1_fits data"
  shows "((bits + 7) div 8 \<le> length buf \<longrightarrow>
      sha256_prf_bits key label data buf bits = Some (Ok (kdf_sha256 key label data bits @ drop ((bits + 7) div 8) buf))) \<and>
    (n \<le> length buf \<longrightarrow> sha1_prf key label data buf n = Some (Ok (key_stream (prf_block key label data) 20 n @ drop n buf)) \<and>
      pbkdf2_sha1 key data iterations buf n = Some (Ok (key_stream (pbkdf2_T key data iterations) 20 n @ drop n buf)))"
  using prf_bits_kdf [of bits buf key label data] sha1_prf_stream [OF assms, of n buf] pbkdf2_stream [OF assms(1,3), of n buf iterations] by simp

theorem key_derivation_standards_witness:
  "sha256_prf_bits [1] [2] [3] [0, 0, 0, 0, 0] 12 =
      Some (Ok (let h = rfc2104 sha256 [1] [1, 0, 2, 3, 12, 0] in [h ! 0, h ! 1 AND 0xf0, 0, 0, 0])) \<and>
    pbkdf2_sha1 [112] [115] 2 [7, 7] 1 =
      Some (Ok [hd (xor_bytes (rfc2104 sha1 [112] [115, 0, 0, 0, 1]) (rfc2104 sha1 [112] (rfc2104 sha1 [112] [115, 0, 0, 0, 1]))), 7])"
proof -
  have f: "sha1_fits [x]" "sha1_fits ([x] @ [y])" for x y by (simp_all add: sha1_fits_def)
  obtain a t where t: "rfc2104 sha256 [1] [1, 0, 2, 3, 12, 0] = a # t" "length t = 31"
    using length_rfc(1) [of "[1]" "[1, 0, 2, 3, 12, 0]"] by (cases "rfc2104 sha256 [1] [1, 0, 2, 3, 12, 0]") simp_all
  then obtain b r where h: "rfc2104 sha256 [1] [1, 0, 2, 3, 12, 0] = a # b # r" by (cases t) simp_all
  have "(4080 :: u8) = 240" by simp
  then have four: "x AND 4080 = x AND 240" for x :: u8 by (rule arg_cong)
  have "kdf_sha256 [1] [2] [3] 12 = [a, b AND 0xf0]"
    using h by (simp add: four kdf_sha256_def key_stream_def blocks_def kdf_block_def WPA_PUT_LE16_def)
  moreover have "key_stream (pbkdf2_T [112] [115] 2) 20 1 = [hd (pbkdf2_T [112] [115] 2 0)]"
  proof -
    have "pbkdf2_T [112] [115] 2 0 \<noteq> []" using length_T [of "[112]" "[115]" 2 0] by force
    then show ?thesis by (simp add: key_stream_def blocks_def take_Suc)
  qed
  moreover have "pbkdf2_T [112] [115] 2 0 =
      xor_bytes (rfc2104 sha1 [112] [115, 0, 0, 0, 1]) (rfc2104 sha1 [112] (rfc2104 sha1 [112] [115, 0, 0, 0, 1]))"
    by (simp add: pbkdf2_T_def pbkdf2_U_def WPA_PUT_BE32_def upt_conv_Cons numeral_2_eq_2)
  ultimately show ?thesis
    using key_derivation_standards [of "[1]" "[2]" "[3]" 12 "[0, 0, 0, 0, 0]" 0 0, OF f(1) f(2) f(1)] h
      key_derivation_standards [of "[112]" "[2]" "[115]" 0 "[7, 7]" 1 2, OF f(1) f(2) f(1)] by simp
qed

text \<open>
  C14: The access point and the station derive the same keys although each names its own address and nonce first:
  \<open>wpa_pmk_to_ptk\<close> does not depend on the order of the addresses nor on that of the nonces.
\<close>

theorem wpa_ptk_symmetric:
  assumes "6 \<le> length a" "6 \<le> length b" "32 \<le> length m" "32 \<le> length n"
  shows "wpa_pmk_to_ptk C H key label a b m n akm cipher z kdk_len = wpa_pmk_to_ptk C H key label b a n m akm cipher z kdk_len \<and>
    wpa_pmk_to_ptk C H key label a b m n akm cipher z kdk_len = wpa_pmk_to_ptk C H key label a b n m akm cipher z kdk_len"
  unfolding wpa_pmk_to_ptk_def min_max_swap [OF assms(1,2)] min_max_swap [OF assms(3,4)] by simp

theorem wpa_ptk_symmetric_witness:
  "wpa_pmk_to_ptk sample_key_build no_libs [5] [] [1, 2, 3, 4, 5, 6] [1, 2, 3, 4, 5, 7] (replicate 32 1) (replicate 32 9)
      WPA_KEY_MGMT_PSK WPA_CIPHER_CCMP [] 0 =
    wpa_pmk_to_ptk sample_key_build no_libs [5] [] [1, 2, 3, 4, 5, 7] [1, 2, 3, 4, 5, 6] (replicate 32 9) (replicate 32 1)
      WPA_KEY_MGMT_PSK WPA_CIPHER_CCMP [] 0"
  using wpa_ptk_symmetric [of "[1, 2, 3, 4, 5, 6]" "[1, 2, 3, 4, 5, 7]" "replicate 32 1" "replicate 32 9"] by (simp del: replicate.simps)

text \<open>
  C13: For a PMK of at most 64 bytes \<open>wpa_pmk_to_ptk\<close> stays inside \<open>tmp\<close> and the members of the PTK: it fails, or the PTK is
  split into KCK, KEK, TK and KDK of the lengths of the suite.  It fails on an empty PMK, an unknown cipher, a long
  \<open>z\<close> or KDK; for the suites of SHA-1 and of SHA-256 the bytes are the PRF or KDF over the ordered addresses and nonces.
\<close>

theorem wpa_ptk_derivation:
  fixes C :: key_build and akm cipher :: u32 and z :: bytes and kdk_len :: nat
  assumes "libs_ok H" "length key \<le> 64" "length label < 2 ^ 32 - 64" "6 \<le> length a1" "6 \<le> length a2" "32 \<le> length n1" "32 \<le> length n2"
    "akm \<noteq> WPA_KEY_MGMT_OWE OR WPA_KEY_MGMT_PSK_SHA256"
  defines "res \<equiv> wpa_pmk_to_ptk C H key label a1 a2 n1 n2 akm cipher z kdk_len"
    and "kck_len \<equiv> wpa_kck_len akm (length key)" and "kek_len \<equiv> wpa_kek_len akm (length key)" and "tk_len \<equiv> wpa_cipher_key_len cipher"
    and "data \<equiv> min_max 6 a1 a2 @ min_max 32 n1 n2 @ z"
  defines "len \<equiv> kck_len + kek_len + tk_len + kdk_len"
  shows "(res = Some (Ret (- 1)) \<or> (\<exists>out. length out = len \<and> res = Some (Ok (split_ptk out kck_len kek_len tk_len kdk_len)))) \<and>
    (\<not> ptk_args_ok key cipher z kdk_len \<longrightarrow> res = Some (Ret (- 1))) \<and>
    (ptk_args_ok key cipher z kdk_len \<and> \<not> wpa_key_mgmt_sha384 akm \<and> wpa_key_mgmt_sha256 akm \<longrightarrow>
      res = Some (Ok (split_ptk (kdf_sha256 key label data (len * 8)) kck_len kek_len tk_len kdk_len))) \<and>
    (ptk_args_ok key cipher z kdk_len \<and> \<not> wpa_key_mgmt_sha384 akm \<and> \<not> wpa_key_mgmt_sha256 akm \<and>
        akm \<notin> {WPA_KEY_MGMT_OWE, WPA_KEY_MGMT_DPP} \<and> \<not> wpa_key_mgmt_sae_ext_key akm \<longrightarrow>
      res = Some (Ok (split_ptk (key_stream (prf_block key label data) 20 len) kck_len kek_len tk_len kdk_len)))"
proof (cases "ptk_args_ok key cipher z kdk_len")
  case False
  then show ?thesis using refused unfolding res_def by blast
next
  case True
  have w: "(CONFIG_OWE C \<and> akm = WPA_KEY_MGMT_OWE OR WPA_KEY_MGMT_PSK_SHA256) = False" using assms(8) by simp
  note der = derived [OF True assms(2), where C = C and akm = akm and aa = a1 and sa = a2 and an = n1 and sn = n2
      and label = label and H = H, unfolded w if_False, folded data_def kck_len_def kek_len_def tk_len_def, folded len_def res_def]
  have z: "length z \<le> 66" "kdk_len \<le> 32" using True by (simp_all add: ptk_args_ok_def)
  have n: "len \<le> 160" using ptk_lens [OF assms(2), of akm] ptk_lens(3) [of 0 cipher] z by (simp add: len_def kck_len_def kek_len_def tk_len_def)
  have fits: "sha1_fits key" "sha1_fits (label @ [0])" "sha1_fits data"
    using assms(2-7) z by (simp_all add: sha1_fits_def data_def length_min_max)
  note p = into_tmp_prf1 [OF n fits] into_tmp_prf256 [OF n, of key label data]
  have l: "length (key_stream (prf_block key label data) 20 len) = len" by (rule length_key_stream) simp_all
  have 1: "res = Some (Ret (- 1)) \<or> (\<exists>out. length out = len \<and> res = Some (Ok (split_ptk out kck_len kek_len tk_len kdk_len)))"
    using ptk_prf_result [OF assms(1) n fits, of C akm False] der by blast
  have 2: "res = Some (Ok (split_ptk (kdf_sha256 key label data (len * 8)) kck_len kek_len tk_len kdk_len))"
    if "\<not> wpa_key_mgmt_sha384 akm" "wpa_key_mgmt_sha256 akm"
    by (rule der(1) [OF _ refl length_kdf]) (use that p(2) in \<open>simp add: ptk_prf_def Let_def\<close>)
  have 3: "res = Some (Ok (split_ptk (key_stream (prf_block key label data) 20 len) kck_len kek_len tk_len kdk_len))"
    if "\<not> wpa_key_mgmt_sha384 akm" "\<not> wpa_key_mgmt_sha256 akm" "akm \<notin> {WPA_KEY_MGMT_OWE, WPA_KEY_MGMT_DPP}" "\<not> wpa_key_mgmt_sae_ext_key akm"
    by (rule der(1) [OF _ refl l]) (use that p(1) in \<open>simp add: ptk_prf_def Let_def\<close>)
  show ?thesis using True 1 2 3 by blast
qed

text \<open>A network with a pre-shared key and CCMP: 16 bytes each of KCK, KEK and TK.\<close>

theorem wpa_ptk_derivation_witness:
  "wpa_pmk_to_ptk sample_key_build no_libs (replicate 32 5) [80] [2, 0, 0, 0, 0, 0] [1, 0, 0, 0, 0, 0] (replicate 32 1) (replicate 32 9)
      WPA_KEY_MGMT_PSK WPA_CIPHER_CCMP [] 0 =
    Some (Ok (split_ptk (key_stream (prf_block (replicate 32 5) [80]
      ([1, 0, 0, 0, 0, 0, 2, 0, 0, 0, 0, 0] @ replicate 32 1 @ replicate 32 9)) 20 48) 16 16 16 0))"
proof -
  have k: "wpa_kck_len WPA_KEY_MGMT_PSK 32 = 16" "wpa_kek_len WPA_KEY_MGMT_PSK 32 = 16" "wpa_cipher_key_len WPA_CIPHER_CCMP = 16"
    "WPA_KEY_MGMT_PSK \<noteq> WPA_KEY_MGMT_OWE OR WPA_KEY_MGMT_PSK_SHA256"
    by (simp_all add: wpa_kck_len_def wpa_kek_len_def wpa_cipher_key_len_def akm_defs cipher_defs)
  have c: "\<not> wpa_key_mgmt_sha384 WPA_KEY_MGMT_PSK" "\<not> wpa_key_mgmt_sha256 WPA_KEY_MGMT_PSK" "\<not> wpa_key_mgmt_sae_ext_key WPA_KEY_MGMT_PSK"
    "WPA_KEY_MGMT_PSK \<notin> {WPA_KEY_MGMT_OWE, WPA_KEY_MGMT_DPP}"
    by (simp_all add: wpa_key_mgmt_sha384_def wpa_key_mgmt_sha256_def wpa_key_mgmt_sae_ext_key_def akm_defs)
  have a: "ptk_args_ok (replicate 32 5) WPA_CIPHER_CCMP [] 0" by (simp add: ptk_args_ok_def k del: replicate.simps)
  have l: "libs_ok no_libs" by (simp add: libs_ok_def no_libs_def)
  have m: "min_max 6 [2, 0, 0, 0, 0, 0] [1, 0, 0, 0, 0, 0] = [1, 0, 0, 0, 0, 0, 2, 0, 0, 0, 0, 0]"
      "min_max 32 (replicate 32 1) (replicate 32 9) = replicate 32 1 @ replicate 32 9"
    using min_max_replicate [of 1 9 31] by (simp_all add: min_max_def get_bytes_def del: replicate.simps)
  show ?thesis
    using wpa_ptk_derivation [OF l, of "replicate 32 5" "[80]" "[2, 0, 0, 0, 0, 0]" "[1, 0, 0, 0, 0, 0]" "replicate 32 1" "replicate 32 9"
        WPA_KEY_MGMT_PSK sample_key_build WPA_CIPHER_CCMP "[]" 0] k c a m
    by (simp del: replicate.simps)
qed

text \<open>
  C18: \<open>wpa_eapol_key_mic\<close> always returns.  It reads out of bounds exactly when it computes a CMAC with a non-empty key of fewer
  than 16 bytes (its length is not passed on to the CMAC); an empty key is refused.  A MIC by version (1, 2 or 3) has 16
  bytes; a MIC defined by the AKM (version 0) has the length that \<open>wpa_mic_len\<close> announces for the suite when the key has the
  length of the KCK.  With a key HMAC-SHA-1 always delivers a MIC, and so does CMAC with 16 bytes of key.
\<close>

theorem wpa_mic_length:
  assumes "libs_ok H" "sha1_fits key" "sha1_fits frame"
  shows "\<exists>r. wpa_eapol_key_mic C H key akm ver frame = Some r \<and>
    (r = Fault \<longleftrightarrow> takes_cmac C akm ver \<and> key \<noteq> [] \<and> length key < 16) \<and> (key = [] \<longrightarrow> r = Ret (- 1)) \<and>
    (\<forall>mic. r = Ok mic \<longrightarrow> (ver \<noteq> 0 \<longrightarrow> length mic = 16) \<and>
      (ver = 0 \<and> length key = wpa_kck_len akm pmk_len \<longrightarrow> length mic = wpa_mic_len akm pmk_len)) \<and>
    (key \<noteq> [] \<and> (ver = 2 \<or> takes_cmac C akm ver \<and> 16 \<le> length key) \<longrightarrow> (\<exists>mic. r = Ok mic))"
proof -
  let ?r = "wpa_eapol_key_mic C H key akm ver frame"
  consider "key = []" | "key \<noteq> []" "takes_cmac C akm ver" "length key < 16" | "key \<noteq> []" "takes_cmac C akm ver \<Longrightarrow> 16 \<le> length key" by force
  then show ?thesis
  proof cases
    case 1
    then show ?thesis by (simp add: no_kck)
  next
    case 2
    then show ?thesis using takes_cmac_mic [OF 2(2,1), of H frame] takes_cmac_def [of C akm 2] by (auto simp: cmac_kck_def)
  next
    case 3
    have "\<exists>n. mic_ok n ?r \<and> (ver \<noteq> 0 \<longrightarrow> n = 16)"
      using 3(2) version_mic [OF assms, of ver] akm_defined_mic [OF assms(1), of C akm key] by (cases "ver = 0") (auto simp: takes_cmac_def)
    moreover have "mic_ok (wpa_mic_len akm pmk_len) ?r" if "ver = 0 \<and> length key = wpa_kck_len akm pmk_len"
      using kck_mic [OF assms(1)] that by simp
    moreover note mic_computed(1) [OF assms(2,3) 3(1), of ver C H akm] mic_computed(2) [OF assms(2,3) 3(1), of C akm ver H]
    ultimately show ?thesis using 3 by (auto simp: mic_ok_def)
  qed
qed

text \<open>OWE with a PMK of 32 bytes; the CMAC of version 3 with a key of 8 bytes.\<close>

theorem wpa_mic_length_witness:
  "\<exists>mic. wpa_eapol_key_mic sample_key_build no_libs (replicate 16 3) WPA_KEY_MGMT_OWE 0 [1, 2] = Some (Ok mic) \<and> length mic = 16 \<and>
    wpa_eapol_key_mic sample_key_build no_libs (replicate 8 3) WPA_KEY_MGMT_PSK 3 [1, 2] = Some Fault"
proof -
  have k: "length (replicate 16 (3 :: u8)) = wpa_kck_len WPA_KEY_MGMT_OWE 32" "wpa_mic_len WPA_KEY_MGMT_OWE 32 = 16"
    by (simp_all add: wpa_kck_len_def wpa_mic_len_def akm_defs del: replicate.simps)
  have ok: "libs_ok no_libs" "sha1_fits (replicate 16 3)" "sha1_fits [1, 2]"
    by (simp_all add: libs_ok_def no_libs_def sha1_fits_def del: replicate.simps)
  obtain r where r: "wpa_eapol_key_mic sample_key_build no_libs (replicate 16 3) WPA_KEY_MGMT_OWE 0 [1, 2] = Some r"
      "\<And>mic. r = Ok mic \<Longrightarrow> length mic = 16"
    using wpa_mic_length [OF ok, of sample_key_build WPA_KEY_MGMT_OWE 0 32] k by (auto simp del: replicate.simps)
  moreover have "wpa_eapol_key_mic sample_key_build no_libs (replicate 16 3) WPA_KEY_MGMT_OWE 0 [1, 2] =
      mic_by_len no_libs True True (replicate 16 3) [1, 2]"
    by (simp add: wpa_eapol_key_mic_def sample_key_build_def akm_defs del: replicate.simps)
  moreover have "mic_by_len no_libs True True (replicate 16 3) [1, 2] = Some (Ok (take 16 (rfc2104 sha256 (replicate 16 3) [1, 2])))"
    by (simp add: mic_by_len_def Hmac.hmac_sha256_def hmac_sha256_vector_rfc del: replicate.simps)
  moreover have "wpa_eapol_key_mic sample_key_build no_libs (replicate 8 3) WPA_KEY_MGMT_PSK 3 [1, 2] = Some Fault"
  proof -
    have "sha1_fits (replicate 8 3)" "takes_cmac sample_key_build WPA_KEY_MGMT_PSK 3" "replicate 8 (3 :: u8) \<noteq> []"
      by (simp_all add: sha1_fits_def takes_cmac_def del: replicate.simps)
    then show ?thesis
      using wpa_mic_length [OF ok(1) _ ok(3), of "replicate 8 3" sample_key_build WPA_KEY_MGMT_PSK 3] by auto
  qed
  ultimately show ?thesis by auto
qed

end
