(* ===== verification/KdeParse.thy ===== *)
theory KdeParse
  imports RsnInsert
begin

text \<open>
  The elements in the Key Data field of an EAPOL-Key frame: \<open>wpa_parse_kde_ies\<close> with \<open>wpa_parse_generic\<close> and
  \<open>wpa_parse_vendor_specific\<close> of \<open>src/mininet-wifi/hostap/src/common/wpa_common.c\<close>.  Positions are offsets into the
  field; a read behind its end is \<open>None\<close>, and that this does not happen, and that everything found lies inside the
  field, are theorems.
\<close>

section \<open>What is found\<close>

text \<open>
  The members of \<open>struct wpa_eapol_ie_parse\<close>.  A member is the offset it points to and the length that belongs to it:
  the member \<open>.._len\<close>, or the number of bytes its guard has found where there is no such member.  The bit maps
  \<open>valid_mlo_..\<close> are set together with the pointers of their links.
\<close>

datatype kde_member =
    K_wpa_ie | K_rsn_ie | K_pmkid | K_key_id | K_gtk | K_mac_addr | K_igtk | K_bigtk | K_mdie | K_ftie
  | K_ip_addr_req | K_ip_addr_alloc | K_transition_disable | K_dpp_kde | K_oci | K_rsnxe
  | K_reassoc_deadline | K_key_lifetime | K_lnkid | K_ext_capab | K_supp_rates | K_ext_supp_rates
  | K_ht_capabilities | K_vht_capabilities | K_he_capabilities | K_he_6ghz_capabilities | K_eht_capabilities
  | K_supp_channels | K_supp_oper_classes | K_ssid | K_wmm | K_rsn_selection
  | K_rsne_override | K_rsne_override_2 | K_rsnxe_override
  | K_mlo_gtk nat | K_mlo_igtk nat | K_mlo_bigtk nat | K_mlo_link nat | K_rsn_override_link nat

record wpa_eapol_ie_parse =
  kde_at :: "kde_member \<Rightarrow> (nat \<times> nat) option"
  qosinfo :: u8
  aid :: u16

definition no_kde :: wpa_eapol_ie_parse where
  "no_kde = \<lparr>kde_at = \<lambda>_. None, qosinfo = 0, aid = 0\<rparr>"

definition set_kde :: "kde_member \<Rightarrow> nat \<Rightarrow> nat \<Rightarrow> wpa_eapol_ie_parse \<Rightarrow> wpa_eapol_ie_parse" where
  "set_kde m off n ie = ie\<lparr>kde_at := (kde_at ie)(m \<mapsto> (off, n))\<rparr>"

definition RSN_KEY_DATA_GROUPKEY :: u32 where "RSN_KEY_DATA_GROUPKEY = 0x000fac01"
definition RSN_KEY_DATA_MAC_ADDR :: u32 where "RSN_KEY_DATA_MAC_ADDR = 0x000fac03"
definition RSN_KEY_DATA_PMKID :: u32 where "RSN_KEY_DATA_PMKID = 0x000fac04"
definition RSN_KEY_DATA_IGTK :: u32 where "RSN_KEY_DATA_IGTK = 0x000fac09"
definition RSN_KEY_DATA_KEYID :: u32 where "RSN_KEY_DATA_KEYID = 0x000fac0a"
definition RSN_KEY_DATA_OCI :: u32 where "RSN_KEY_DATA_OCI = 0x000fac0d"
definition RSN_KEY_DATA_BIGTK :: u32 where "RSN_KEY_DATA_BIGTK = 0x000fac0e"
definition RSN_KEY_DATA_MLO_GTK :: u32 where "RSN_KEY_DATA_MLO_GTK = 0x000fac10"
definition RSN_KEY_DATA_MLO_IGTK :: u32 where "RSN_KEY_DATA_MLO_IGTK = 0x000fac11"
definition RSN_KEY_DATA_MLO_BIGTK :: u32 where "RSN_KEY_DATA_MLO_BIGTK = 0x000fac12"
definition RSN_KEY_DATA_MLO_LINK :: u32 where "RSN_KEY_DATA_MLO_LINK = 0x000fac13"
definition WFA_KEY_DATA_IP_ADDR_REQ :: u32 where "WFA_KEY_DATA_IP_ADDR_REQ = 0x506f9a04"
definition WFA_KEY_DATA_IP_ADDR_ALLOC :: u32 where "WFA_KEY_DATA_IP_ADDR_ALLOC = 0x506f9a05"
definition WFA_KEY_DATA_TRANSITION_DISABLE :: u32 where "WFA_KEY_DATA_TRANSITION_DISABLE = 0x506f9a20"
definition WFA_KEY_DATA_DPP :: u32 where "WFA_KEY_DATA_DPP = 0x506f9a21"
definition WFA_KEY_DATA_RSN_OVERRIDE_LINK :: u32 where "WFA_KEY_DATA_RSN_OVERRIDE_LINK = 0x506f9a2d"
definition RSN_SELECTION_IE_VENDOR_TYPE :: u32 where "RSN_SELECTION_IE_VENDOR_TYPE = 0x506f9a2c"
definition MAX_NUM_MLD_LINKS :: nat where "MAX_NUM_MLD_LINKS = 15"

lemmas kde_defs = RSN_KEY_DATA_GROUPKEY_def RSN_KEY_DATA_MAC_ADDR_def RSN_KEY_DATA_PMKID_def RSN_KEY_DATA_IGTK_def
  RSN_KEY_DATA_KEYID_def RSN_KEY_DATA_OCI_def RSN_KEY_DATA_BIGTK_def RSN_KEY_DATA_MLO_GTK_def RSN_KEY_DATA_MLO_IGTK_def
  RSN_KEY_DATA_MLO_BIGTK_def RSN_KEY_DATA_MLO_LINK_def WFA_KEY_DATA_IP_ADDR_REQ_def WFA_KEY_DATA_IP_ADDR_ALLOC_def
  WFA_KEY_DATA_TRANSITION_DISABLE_def WFA_KEY_DATA_DPP_def WFA_KEY_DATA_RSN_OVERRIDE_LINK_def
  RSN_SELECTION_IE_VENDOR_TYPE_def RSNE_OVERRIDE_IE_VENDOR_TYPE_def RSNE_OVERRIDE_2_IE_VENDOR_TYPE_def
  RSNXE_OVERRIDE_IE_VENDOR_TYPE_def WPA_OUI_TYPE_def

section \<open>The parser\<close>

definition rd32 :: "bytes \<Rightarrow> nat \<Rightarrow> u32 option" where
  "rd32 buf off = (if off + 4 \<le> length buf then Some (WPA_GET_BE32 (drop off buf)) else None)"

text \<open>The element at \<open>pos\<close>; the result is 0, 1 for the end mark and 2 for an element that is not known.\<close>

definition link_kde :: "(nat \<Rightarrow> kde_member) \<Rightarrow> nat \<Rightarrow> nat \<Rightarrow> nat \<Rightarrow> wpa_eapol_ie_parse \<Rightarrow> (int \<times> wpa_eapol_ie_parse) option" where
  "link_kde M link_id p left ie =
    Some (if link_id \<ge> MAX_NUM_MLD_LINKS then (2, ie) else (0, set_kde (M link_id) p left ie))"

definition wpa_parse_generic :: "bytes \<Rightarrow> nat \<Rightarrow> wpa_eapol_ie_parse \<Rightarrow> (int \<times> wpa_eapol_ie_parse) option" where
  "wpa_parse_generic buf pos ie = do {
     l \<leftarrow> rd8 buf (pos + 1);
     let len = unat l;
     let dlen = 2 + len;
     if len = 0 then Some (1, ie)
     else if len < 4 then Some (2, ie)
     else do {
       selector \<leftarrow> rd32 buf (pos + 2);
       let p = pos + 6;
       let left = len - 4;
       let found = (\<lambda>m off n. Some (0, set_kde m off n ie));
       wpa \<leftarrow> (if left \<ge> 2 \<and> selector = WPA_OUI_TYPE
         then do { b0 \<leftarrow> rd8 buf p; b1 \<leftarrow> rd8 buf (p + 1); Some (b0 = 1 \<and> b1 = 0) } else Some False);
       if wpa then found K_wpa_ie pos dlen
       else if left \<ge> PMKID_LEN \<and> selector = RSN_KEY_DATA_PMKID then found K_pmkid p PMKID_LEN
       else if left \<ge> 2 \<and> selector = RSN_KEY_DATA_KEYID then found K_key_id p 2
       else if left > 2 \<and> selector = RSN_KEY_DATA_GROUPKEY then found K_gtk p left
       else if left \<ge> 6 \<and> selector = RSN_KEY_DATA_MAC_ADDR then found K_mac_addr p 6
       else if left > 2 \<and> selector = RSN_KEY_DATA_IGTK then found K_igtk p left
       else if left > 2 \<and> selector = RSN_KEY_DATA_BIGTK then found K_bigtk p left
       else if left \<ge> 1 \<and> selector = WFA_KEY_DATA_IP_ADDR_REQ then found K_ip_addr_req p 1
       else if left \<ge> 12 \<and> selector = WFA_KEY_DATA_IP_ADDR_ALLOC then found K_ip_addr_alloc p 12
       else if left > 2 \<and> selector = RSN_KEY_DATA_OCI then found K_oci p left
       else if left \<ge> 1 \<and> selector = WFA_KEY_DATA_TRANSITION_DISABLE then found K_transition_disable p left
       else if left \<ge> 2 \<and> selector = WFA_KEY_DATA_DPP then found K_dpp_kde p left
       else if left \<ge> 7 \<and> selector = RSN_KEY_DATA_MLO_GTK then
         do { b \<leftarrow> rd8 buf p; link_kde K_mlo_gtk (unat (drop_bit 4 (b AND 0xf0))) p left ie }
       else if left \<ge> 9 \<and> selector = RSN_KEY_DATA_MLO_IGTK then
         do { b \<leftarrow> rd8 buf (p + 8); link_kde K_mlo_igtk (unat (drop_bit 4 (b AND 0xf0))) p left ie }
       else if left \<ge> 9 \<and> selector = RSN_KEY_DATA_MLO_BIGTK then
         do { b \<leftarrow> rd8 buf (p + 8); link_kde K_mlo_bigtk (unat (drop_bit 4 (b AND 0xf0))) p left ie }
       else if left \<ge> 7 \<and> selector = RSN_KEY_DATA_MLO_LINK then
         do { b \<leftarrow> rd8 buf p; link_kde K_mlo_link (unat (b AND 0x0f)) p left ie }
       else if left \<ge> 1 \<and> selector = WFA_KEY_DATA_RSN_OVERRIDE_LINK then
         do { b \<leftarrow> rd8 buf p; link_kde K_rsn_override_link (unat b) p left ie }
       else if selector = RSNE_OVERRIDE_IE_VENDOR_TYPE then found K_rsne_override pos dlen
       else if selector = RSNE_OVERRIDE_2_IE_VENDOR_TYPE then found K_rsne_override_2 pos dlen
       else if selector = RSNXE_OVERRIDE_IE_VENDOR_TYPE then found K_rsnxe_override pos dlen
       else if selector = RSN_SELECTION_IE_VENDOR_TYPE then found K_rsn_selection p left
       else Some (2, ie)
     }
   }"

text \<open>\<open>oui == OUI_MICROSOFT && pos[5] == WMM_OUI_TYPE\<close> is the selector \<open>00 50 f2 02\<close>; the subtypes are 0 and 1.\<close>

definition wpa_parse_vendor_specific :: "bytes \<Rightarrow> nat \<Rightarrow> wpa_eapol_ie_parse \<Rightarrow> wpa_eapol_ie_parse option" where
  "wpa_parse_vendor_specific buf pos ie = do {
     l \<leftarrow> rd8 buf (pos + 1);
     if l < 4 then Some ie
     else do {
       sel \<leftarrow> rd32 buf (pos + 2);
       if sel = 0x0050f202 \<and> l > 4 then do {
         sub \<leftarrow> rd8 buf (pos + 6);
         Some (if sub = 0 \<or> sub = 1 then set_kde K_wmm (pos + 2) (unat l) ie else ie)
       }
       else Some ie
     }
   }"

text \<open>
  One element that is not vendor specific.  The identifiers without a name of their own are those of
  \<open>ieee802_11_defs.h\<close>: 54 mobility domain, 55 fast BSS transition, 56 timeout interval (1 the reassociation deadline, 2 the
  key lifetime), 101 link, 127 extended capabilities, 1 and 50 rates, 45 HT, 197 AID, 191 VHT, 255 extension (35 HE, 59 HE of
  6 GHz, 108 EHT; the byte they are told by is read from length 3 on), 46 QoS, 36 channels, 59 operating classes, 0 SSID; the lengths are the sizes of their structures.
\<close>

definition parse_element :: "bytes \<Rightarrow> nat \<Rightarrow> u8 \<Rightarrow> nat \<Rightarrow> wpa_eapol_ie_parse \<Rightarrow> wpa_eapol_ie_parse option" where
  "parse_element buf pos eid len ie =
    (let dlen = 2 + len; found = (\<lambda>m off n. Some (set_kde m off n ie)); ext = (\<lambda>n i. eid = 255 \<and> len \<ge> 1 + n \<and> rd8 buf (pos + 2) = Some i)
     in if eid = WLAN_EID_RSN then found K_rsn_ie pos dlen
     else if eid = WLAN_EID_RSNX then found K_rsnxe pos dlen
     else if eid = 54 then found K_mdie pos dlen
     else if eid = 55 then found K_ftie pos dlen
     else if eid = 56 \<and> len \<ge> 5 then do {
       b \<leftarrow> rd8 buf (pos + 2);
       if b = 1 then found K_reassoc_deadline pos dlen else if b = 2 then found K_key_lifetime pos dlen else Some ie
     }
     else if eid = 101 then (if len \<ge> 18 then found K_lnkid pos dlen else Some ie)
     else if eid = 127 then found K_ext_capab pos dlen
     else if eid = 1 then found K_supp_rates pos dlen
     else if eid = 50 then found K_ext_supp_rates pos dlen
     else if eid = 45 \<and> len \<ge> 26 then found K_ht_capabilities (pos + 2) 26
     else if eid = 197 then
       (if len \<ge> 2 then do { v \<leftarrow> WPA_GET_LE16 (drop (pos + 2) buf); Some (ie\<lparr>aid := fst v AND 0x3fff\<rparr>) } else Some ie)
     else if eid = 191 \<and> len \<ge> 12 then found K_vht_capabilities (pos + 2) 12
     else if eid = 255 \<and> len \<ge> 3 \<and> rd8 buf (pos + 2) = None then None
     else if ext 17 35 then found K_he_capabilities (pos + 3) (len - 1)
     else if ext 2 59 then found K_he_6ghz_capabilities (pos + 3) 2
     else if ext 11 108 then found K_eht_capabilities (pos + 3) (len - 1)
     else if eid = 46 \<and> len \<ge> 1 then do { b \<leftarrow> rd8 buf (pos + 2); Some (ie\<lparr>qosinfo := b\<rparr>) }
     else if eid = 36 then found K_supp_channels (pos + 2) len
     else if eid = 59 then (if len \<ge> 2 \<and> len \<le> 253 then found K_supp_oper_classes (pos + 2) len else Some ie)
     else if eid = 0 then found K_ssid (pos + 2) len
     else Some ie)"

function parse_kde_loop :: "bytes \<Rightarrow> nat \<Rightarrow> wpa_eapol_ie_parse \<Rightarrow> (int \<times> wpa_eapol_ie_parse) option" where
  "parse_kde_loop buf pos ie =
    (if length buf - pos > 1 then do {
       eid \<leftarrow> rd8 buf pos;
       l \<leftarrow> rd8 buf (pos + 1);
       if eid = 0xdd \<and> (pos = length buf - 1 \<or> l = 0) then Some (0, ie)
       else if 2 + unat l > length buf - pos then Some (- 1, ie)
       else if eid = WLAN_EID_VENDOR_SPECIFIC then do {
         (ret, ie) \<leftarrow> wpa_parse_generic buf pos ie;
         if ret = 1 then Some (0, ie)
         else do {
           ie \<leftarrow> (if ret = 2 then wpa_parse_vendor_specific buf pos ie else Some ie);
           parse_kde_loop buf (pos + 2 + unat l) ie
         }
       }
       else do { ie \<leftarrow> parse_element buf pos eid (unat l) ie; parse_kde_loop buf (pos + 2 + unat l) ie }
     }
     else Some (0, ie))"
  by auto
termination by (relation "measure (\<lambda>(buf, pos, ie). length buf - pos)") auto

declare parse_kde_loop.simps [simp del]

definition wpa_parse_kde_ies :: "bytes \<Rightarrow> (int \<times> wpa_eapol_ie_parse) option" where
  "wpa_parse_kde_ies buf = parse_kde_loop buf 0 no_kde"

text \<open>The bytes of a member, \<open>None\<close> for \<open>NULL\<close>.\<close>

definition kde_bytes :: "bytes \<Rightarrow> wpa_eapol_ie_parse \<Rightarrow> kde_member \<Rightarrow> bytes option" where
  "kde_bytes buf ie m = map_option (\<lambda>(off, n). get_bytes buf off n) (kde_at ie m)"

section \<open>Everything found lies inside the field\<close>

definition kde_inside :: "bytes \<Rightarrow> wpa_eapol_ie_parse \<Rightarrow> bool" where
  "kde_inside buf ie \<longleftrightarrow> (\<forall>m off n. kde_at ie m = Some (off, n) \<longrightarrow> off + n \<le> length buf)"

lemma inside_no_kde: "kde_inside buf no_kde"
  by (simp add: kde_inside_def no_kde_def)

lemma inside_set [intro]: "kde_inside buf ie \<Longrightarrow> off + n \<le> length buf \<Longrightarrow> kde_inside buf (set_kde m off n ie)"
  by (auto simp: kde_inside_def set_kde_def)

lemma inside_upd [intro]: "kde_inside buf ie \<Longrightarrow> kde_inside buf (ie\<lparr>aid := a\<rparr>)" "kde_inside buf ie \<Longrightarrow> kde_inside buf (ie\<lparr>qosinfo := b\<rparr>)"
  by (auto simp: kde_inside_def)

lemma rd8_in: "i < length buf \<Longrightarrow> rd8 buf i = Some (buf ! i)"
  by (simp add: rd8_def)

lemma rd32_in: "i + 4 \<le> length buf \<Longrightarrow> rd32 buf i = Some (WPA_GET_BE32 (drop i buf))"
  by (simp add: rd32_def)

text \<open>A member points into the element it is found in.\<close>

definition good :: "bytes \<Rightarrow> (int \<times> wpa_eapol_ie_parse) option \<Rightarrow> bool" where
  "good buf r \<longleftrightarrow> (\<exists>ret ie. r = Some (ret, ie) \<and> kde_inside buf ie)"

definition good' :: "bytes \<Rightarrow> wpa_eapol_ie_parse option \<Rightarrow> bool" where
  "good' buf r \<longleftrightarrow> (\<exists>ie. r = Some ie \<and> kde_inside buf ie)"

lemma good_if [intro!]:
  "(c \<Longrightarrow> good buf a) \<Longrightarrow> (\<not> c \<Longrightarrow> good buf b) \<Longrightarrow> good buf (if c then a else b)"
  "(c \<Longrightarrow> good' buf a') \<Longrightarrow> (\<not> c \<Longrightarrow> good' buf b') \<Longrightarrow> good' buf (if c then a' else b')"
  by simp_all

lemma good_leaf [intro]:
  "kde_inside buf ie \<Longrightarrow> good buf (Some (ret, ie))" "kde_inside buf ie \<Longrightarrow> good' buf (Some ie)"
  by (simp_all add: good_def good'_def)

lemma good_bind [intro]:
  "i < length buf \<Longrightarrow> good buf (f (buf ! i)) \<Longrightarrow> good buf (rd8 buf i \<bind> f)"
  "i < length buf \<Longrightarrow> good' buf (f' (buf ! i)) \<Longrightarrow> good' buf (rd8 buf i \<bind> f')"
  by (simp_all add: rd8_in)

lemma good_link [intro]: "kde_inside buf ie \<Longrightarrow> p + left \<le> length buf \<Longrightarrow> good buf (link_kde M n p left ie)"
  by (auto simp: link_kde_def)

lemma generic_inside:
  assumes "pos + 2 + unat (buf ! (pos + 1)) \<le> length buf" "kde_inside buf ie"
  shows "good buf (wpa_parse_generic buf pos ie)"
proof -
  have wpa: "(if 2 \<le> left \<and> s then do { b0 \<leftarrow> rd8 buf p; b1 \<leftarrow> rd8 buf (p + 1); Some (b0 = 1 \<and> b1 = 0) } else Some False) =
      Some (2 \<le> left \<and> s \<and> buf ! p = 1 \<and> buf ! (p + 1) = 0)" if "p + left \<le> length buf" for left p s
    using that by (auto simp: rd8_in)
  show ?thesis
  proof (cases "unat (buf ! (pos + 1)) < 4")
    case True
    then show ?thesis using assms unfolding wpa_parse_generic_def by (auto simp: rd8_in Let_def good_def)
  next
    case False
    have l: "rd8 buf (pos + 1) = Some (buf ! (pos + 1))" "rd32 buf (pos + 2) = Some (WPA_GET_BE32 (drop (pos + 2) buf))"
      using assms False by (simp_all add: rd8_in rd32_in)
    define n where "n = unat (buf ! (pos + 1))"
    have b: "pos + 6 + (n - 4) \<le> length buf" "pos + (2 + n) \<le> length buf" using assms False by (simp_all add: n_def)
    show ?thesis
      unfolding wpa_parse_generic_def l Let_def Option.bind.simps n_def [symmetric] wpa [OF b(1)]
      by (intro good_if good_leaf good_link good_bind inside_set assms(2)) (use b in \<open>unfold PMKID_LEN_def, linarith | (elim conjE, linarith)\<close>)+
  qed
qed

lemma vendor_inside:
  assumes "pos + 2 + unat (buf ! (pos + 1)) \<le> length buf" "kde_inside buf ie"
  shows "good' buf (wpa_parse_vendor_specific buf pos ie)"
  using assms unfolding wpa_parse_vendor_specific_def
  by (auto simp: rd8_in rd32_in Let_def word_less_nat_alt good'_def)

lemma element_inside:
  assumes "pos + 2 + len \<le> length buf" "kde_inside buf ie"
  shows "good' buf (parse_element buf pos eid len ie)"
proof -
  have v: "good' buf (WPA_GET_LE16 (drop (pos + 2) buf) \<bind> (\<lambda>v. Some (ie\<lparr>aid := fst v AND 0x3fff\<rparr>)))" if "2 \<le> len"
  proof -
    have "2 \<le> length (drop (pos + 2) buf)" using assms(1) that by simp
    then obtain v where "WPA_GET_LE16 (drop (pos + 2) buf) = Some v" using le16.get_in by blast
    then show ?thesis using assms(2) by (auto simp: good'_def)
  qed
  have e: "good' buf None" if "eid = 255 \<and> 3 \<le> len \<and> rd8 buf (pos + 2) = None"
    using that rd8_in [of "pos + 2" buf] assms(1) by simp
  show ?thesis
    unfolding parse_element_def Let_def using assms
    by (intro good_if good_leaf good_bind inside_set inside_upd v e) simp_all
qed

text \<open>The parser returns 0 or -1 and never leaves the field.\<close>

lemma parse_kde_loop_inside:
  "kde_inside buf ie \<Longrightarrow> \<exists>ret ie'. parse_kde_loop buf pos ie = Some (ret, ie') \<and> ret \<in> {0, - 1} \<and> kde_inside buf ie'"
proof (induction buf pos ie rule: parse_kde_loop.induct)
  case (1 buf pos ie)
  show ?case
  proof (cases "length buf - pos > 1 \<and> \<not> (buf ! pos = 0xdd \<and> (pos = length buf - 1 \<or> buf ! (pos + 1) = 0)) \<and>
      2 + unat (buf ! (pos + 1)) \<le> length buf - pos")
    case False
    then show ?thesis using "1.prems" by (subst parse_kde_loop.simps) (auto simp: rd8_in)
  next
    case True
    then have r: "rd8 buf pos = Some (buf ! pos)" "rd8 buf (pos + 1) = Some (buf ! (pos + 1))"
      and in_field: "pos + 2 + unat (buf ! (pos + 1)) \<le> length buf" by (auto simp: rd8_in)
    obtain ret ie1 where g: "wpa_parse_generic buf pos ie = Some (ret, ie1)" "kde_inside buf ie1"
      using generic_inside [OF in_field "1.prems"] by (auto simp: good_def)
    obtain ie2 where v: "wpa_parse_vendor_specific buf pos ie1 = Some ie2" "kde_inside buf ie2"
      using vendor_inside [OF in_field g(2)] by (auto simp: good'_def)
    obtain ie3 where e: "parse_element buf pos (buf ! pos) (unat (buf ! (pos + 1))) ie = Some ie3" "kde_inside buf ie3"
      using element_inside [OF in_field "1.prems"] by (auto simp: good'_def)
    show ?thesis
    proof (cases "buf ! pos = WLAN_EID_VENDOR_SPECIFIC")
      case vs: True
      have IH: "\<exists>ret' ie'. parse_kde_loop buf (pos + 2 + unat (buf ! (pos + 1))) (if ret = 2 then ie2 else ie1) = Some (ret', ie') \<and>
          ret' \<in> {0, - 1} \<and> kde_inside buf ie'" if "ret \<noteq> 1"
        by (rule "1.IH"(1) [OF _ r(1,2) _ _ vs _ refl]) (use True vs g v that in auto)
      show ?thesis
        using True r vs g v IH by (subst parse_kde_loop.simps) auto
    next
      case False
      have IH: "\<exists>ret' ie'. parse_kde_loop buf (pos + 2 + unat (buf ! (pos + 1))) ie3 = Some (ret', ie') \<and>
          ret' \<in> {0, - 1} \<and> kde_inside buf ie'"
        by (rule "1.IH"(2) [OF _ r(1,2) _ _ False e]) (use True in auto)
      show ?thesis using True r False e IH by (subst parse_kde_loop.simps) auto
    qed
  qed
qed

lemma parse_kde_ies_inside:
  obtains ret ie where "wpa_parse_kde_ies buf = Some (ret, ie)" "ret \<in> {0, - 1}" "kde_inside buf ie"
  using parse_kde_loop_inside [OF inside_no_kde] unfolding wpa_parse_kde_ies_def by blast

section \<open>Elements built by \<open>wpa_add_kde\<close>\<close>

text \<open>The selector of the KDE a member is sent in, and the data it can have.\<close>

fun kde_kind :: "kde_member \<Rightarrow> u32 \<times> (bytes \<Rightarrow> bool)" where
  "kde_kind K_pmkid = (RSN_KEY_DATA_PMKID, \<lambda>d. length d = PMKID_LEN)"
| "kde_kind K_key_id = (RSN_KEY_DATA_KEYID, \<lambda>d. length d = 2)"
| "kde_kind K_gtk = (RSN_KEY_DATA_GROUPKEY, \<lambda>d. 2 < length d)"
| "kde_kind K_mac_addr = (RSN_KEY_DATA_MAC_ADDR, \<lambda>d. length d = 6)"
| "kde_kind K_igtk = (RSN_KEY_DATA_IGTK, \<lambda>d. 2 < length d)"
| "kde_kind K_bigtk = (RSN_KEY_DATA_BIGTK, \<lambda>d. 2 < length d)"
| "kde_kind K_ip_addr_req = (WFA_KEY_DATA_IP_ADDR_REQ, \<lambda>d. length d = 1)"
| "kde_kind K_ip_addr_alloc = (WFA_KEY_DATA_IP_ADDR_ALLOC, \<lambda>d. length d = 12)"
| "kde_kind K_oci = (RSN_KEY_DATA_OCI, \<lambda>d. 2 < length d)"
| "kde_kind K_transition_disable = (WFA_KEY_DATA_TRANSITION_DISABLE, \<lambda>d. 1 \<le> length d)"
| "kde_kind K_dpp_kde = (WFA_KEY_DATA_DPP, \<lambda>d. 2 \<le> length d)"
| "kde_kind (K_mlo_gtk n) = (RSN_KEY_DATA_MLO_GTK, \<lambda>d. 7 \<le> length d \<and> n < 15 \<and> unat (drop_bit 4 (d ! 0 AND 0xf0)) = n)"
| "kde_kind (K_mlo_igtk n) = (RSN_KEY_DATA_MLO_IGTK, \<lambda>d. 9 \<le> length d \<and> n < 15 \<and> unat (drop_bit 4 (d ! 8 AND 0xf0)) = n)"
| "kde_kind (K_mlo_bigtk n) = (RSN_KEY_DATA_MLO_BIGTK, \<lambda>d. 9 \<le> length d \<and> n < 15 \<and> unat (drop_bit 4 (d ! 8 AND 0xf0)) = n)"
| "kde_kind (K_mlo_link n) = (RSN_KEY_DATA_MLO_LINK, \<lambda>d. 7 \<le> length d \<and> n < 15 \<and> unat (d ! 0 AND 0x0f) = n)"
| "kde_kind (K_rsn_override_link n) = (WFA_KEY_DATA_RSN_OVERRIDE_LINK, \<lambda>d. 1 \<le> length d \<and> n < 15 \<and> unat (d ! 0) = n)"
| "kde_kind _ = (0, \<lambda>_. False)"

definition kde_ok :: "kde_member \<times> bytes \<Rightarrow> bool" where
  "kde_ok = (\<lambda>(m, d). snd (kde_kind m) d \<and> length d \<le> 251)"

definition kde_enc :: "kde_member \<times> bytes \<Rightarrow> bytes" where
  "kde_enc = (\<lambda>(m, d). wpa_add_kde (fst (kde_kind m)) d None 0)"

text \<open>The padding before a key wrap.\<close>

definition is_padding :: "bytes \<Rightarrow> bool" where
  "is_padding pad \<longleftrightarrow> pad = [] \<or> (\<exists>k. pad = 0xdd # replicate k 0)"

lemma add_kde_split: "wpa_add_kde s a (Some b) (length b) = wpa_add_kde s (a @ b) None 0"
  by (simp add: wpa_add_kde_def)

lemma kde_layout:
  assumes "buf = pre @ kde_enc (m, d) @ post" "kde_ok (m, d)"
  shows "rd8 buf (length pre) = Some 0xdd" "rd8 buf (length pre + 1) = Some (of_nat (4 + length d))"
    "unat (of_nat (4 + length d) :: u8) = 4 + length d" "rd32 buf (length pre + 2) = Some (fst (kde_kind m))"
    "i < length d \<Longrightarrow> rd8 buf (length pre + 6 + i) = Some (d ! i)"
    "length buf = length pre + 6 + length d + length post"
    "get_bytes buf (length pre + 6) (length d) = d"
proof -
  have b: "buf = pre @ [0xdd, of_nat (4 + length d)] @ WPA_PUT_BE32 (fst (kde_kind m)) @ d @ post"
    using assms(1) by (simp add: kde_enc_def wpa_add_kde_def WLAN_EID_VENDOR_SPECIFIC_def)
  have drops: "drop (length pre + 2) buf = WPA_PUT_BE32 (fst (kde_kind m)) @ d @ post" "drop (length pre + 6) buf = d @ post"
    by (simp_all add: b WPA_PUT_BE32_def)
  show len: "length buf = length pre + 6 + length d + length post" by (simp add: b byte_simps)
  show "rd8 buf (length pre) = Some 0xdd" "rd8 buf (length pre + 1) = Some (of_nat (4 + length d))"
    by (simp_all add: rd8_def b nth_append)
  show "unat (of_nat (4 + length d) :: u8) = 4 + length d"
    using assms(2) by (simp only: unat_of_nat) (simp add: kde_ok_def)
  show "rd32 buf (length pre + 2) = Some (fst (kde_kind m))" using len by (simp only: rd32_def drops WPA_GET_BE32_PUT) simp
  show "get_bytes buf (length pre + 6) (length d) = d" by (simp add: get_bytes_def drops)
  have "buf ! (length pre + 6 + i) = (d @ post) ! i" using nth_drop [of "length pre + 6" buf i] drops(2) len by simp
  then show "i < length d \<Longrightarrow> rd8 buf (length pre + 6 + i) = Some (d ! i)" using len by (simp add: rd8_def nth_append)
qed

lemma generic_kde:
  assumes "buf = pre @ kde_enc (m, d) @ post" "kde_ok (m, d)"
  shows "wpa_parse_generic buf (length pre) ie = Some (0, set_kde m (length pre + 6) (length d) ie)"
proof -
  note l = kde_layout [OF assms]
  have d: "snd (kde_kind m) d" using assms(2) by (simp add: kde_ok_def)
  then have "d \<noteq> []" by (cases m) (auto simp: PMKID_LEN_def)
  then have d0: "rd8 buf (length pre + 6) = Some (d ! 0)" using l(5) [of 0] by simp
  show ?thesis
    unfolding wpa_parse_generic_def l(2) l(4) Let_def Option.bind.simps l(3)
    using d d0 l(5) [of 8]
    by (cases m) (simp_all add: kde_defs link_kde_def MAX_NUM_MLD_LINKS_def PMKID_LEN_def add.assoc)
qed

text \<open>The field is parsed element by element.\<close>

lemma loop_kde:
  assumes "buf = pre @ kde_enc (m, d) @ post" "kde_ok (m, d)"
  shows "parse_kde_loop buf (length pre) ie =
    parse_kde_loop buf (length (pre @ kde_enc (m, d))) (set_kde m (length pre + 6) (length d) ie)"
proof -
  note l = kde_layout [OF assms]
  have n: "length (pre @ kde_enc (m, d)) = length pre + 2 + (4 + length d)" by (simp add: kde_enc_def wpa_add_kde_def byte_simps)
  have l': "4 + length d \<le> 255" "of_nat (4 + length d) \<noteq> (0 :: u8)" using l(3) assms(2) by (auto simp: kde_ok_def)
  show ?thesis
    unfolding n by (subst parse_kde_loop.simps)
      (use l(1,2,6) l' in \<open>simp add: l(3) generic_kde [OF assms] WLAN_EID_VENDOR_SPECIFIC_def del: of_nat_add\<close>)
qed

lemma loop_padding: "is_padding pad \<Longrightarrow> parse_kde_loop (pre @ pad) (length pre) ie = Some (0, ie)"
  by (subst parse_kde_loop.simps) (auto simp: is_padding_def rd8_def nth_append nth_Cons split: nat.split)

lemma bytes_set: "get_bytes buf off n = d \<Longrightarrow> kde_bytes buf (set_kde m off n ie) = (kde_bytes buf ie)(m \<mapsto> d)"
  by (auto simp: kde_bytes_def set_kde_def)

lemma loop_kdes:
  assumes "\<forall>i\<in>set items. kde_ok i" "is_padding pad" "buf = pre @ concat (map kde_enc items) @ pad"
  shows "\<exists>ie'. parse_kde_loop buf (length pre) ie = Some (0, ie') \<and>
    kde_bytes buf ie' = kde_bytes buf ie ++ map_of (rev items)"
  using assms(1,3)
proof (induction items arbitrary: pre ie)
  case Nil
  then show ?case using loop_padding [OF assms(2)] by auto
next
  case (Cons i items)
  obtain m d where i: "i = (m, d)" by fastforce
  have b: "buf = pre @ kde_enc (m, d) @ (concat (map kde_enc items) @ pad)" and ok: "kde_ok (m, d)" using Cons.prems i by simp_all
  obtain ie' where ie': "parse_kde_loop buf (length (pre @ kde_enc (m, d))) (set_kde m (length pre + 6) (length d) ie) = Some (0, ie')"
      "kde_bytes buf ie' = kde_bytes buf (set_kde m (length pre + 6) (length d) ie) ++ map_of (rev items)"
    using Cons.IH [of "pre @ kde_enc (m, d)" "set_kde m (length pre + 6) (length d) ie"] Cons.prems b by auto
  show ?case
    using ie' loop_kde [OF b ok, of ie] bytes_set [OF kde_layout(7) [OF b ok], of m ie] i by (auto simp: map_add_def fun_eq_iff split: option.split)
qed

lemma parse_kdes:
  assumes "\<forall>i\<in>set items. kde_ok i" "is_padding pad" "buf = concat (map kde_enc items) @ pad"
  obtains ie where "wpa_parse_kde_ies buf = Some (0, ie)" "kde_bytes buf ie = map_of (rev items)"
proof -
  have "kde_bytes buf no_kde = Map.empty" by (simp add: kde_bytes_def no_kde_def fun_eq_iff)
  then show ?thesis using loop_kdes [OF assms(1,2), of buf "[]" no_kde] assms(3) that by (auto simp: wpa_parse_kde_ies_def)
qed

end
