(* ===== verification/EapolKey.thy ===== *)
theory EapolKey
  imports KdeParse WpaKeys AesWrap AesSiv Rc4
begin

text \<open>
  The EAPOL-Key frames of the authenticator: \<open>__wpa_send_eapol\<close> and \<open>wpa_verify_key_mic\<close> of
  \<open>src/mininet-wifi/hostap/src/ap/wpa_auth.c\<close>, on the key wrap, SIV, RC4, the integrity code and the element parser.
  \<open>Fault\<close> is a write behind the frame, \<open>None\<close> a call that does not return.  CONFIG_TESTING_OPTIONS is not set.
\<close>

unbundle bit_operations_syntax

section \<open>The state a frame is made from\<close>

record eapol_build = key_build +
  CONFIG_NO_RC4 :: bool

definition WPA_KEY_INFO_KEY_TYPE :: u32 where "WPA_KEY_INFO_KEY_TYPE = 0x8"
definition WPA_KEY_INFO_MIC :: u32 where "WPA_KEY_INFO_MIC = 0x100"
definition WPA_KEY_INFO_ENCR_KEY_DATA :: u32 where "WPA_KEY_INFO_ENCR_KEY_DATA = 0x1000"
definition WPA_VERSION_WPA2 :: nat where "WPA_VERSION_WPA2 = 2"

lemmas key_info_defs = WPA_KEY_INFO_KEY_TYPE_def WPA_KEY_INFO_MIC_def WPA_KEY_INFO_ENCR_KEY_DATA_def

text \<open>
  The members of \<open>struct wpa_state_machine\<close>, its group and its authenticator's configuration that the function uses.
  \<open>sm_key_replay\<close> holds the last RSNA_MAX_EAPOL_RETRIES counters, the latest first.
\<close>

record eapol_key_sm =
  sm_wpa_key_mgmt :: u32
  sm_pmk_len :: nat
  sm_pairwise :: u32
  sm_wpa :: nat
  sm_PTK :: wpa_ptk
  sm_PTK_valid :: bool
  sm_key_replay :: "(bytes \<times> bool) list"
  sm_group_counter :: bytes
  sm_eapol_version :: u8
  sm_wpa_group :: u32

text \<open>\<open>inc_byte_array\<close>: the last byte first, as long as a byte wraps to 0.\<close>

fun inc_rev :: "bytes \<Rightarrow> bytes" where
  "inc_rev [] = []"
| "inc_rev (b # bs) = (if b + 1 \<noteq> 0 then (b + 1) # bs else (b + 1) # inc_rev bs)"

definition inc_byte_array :: "bytes \<Rightarrow> bytes" where
  "inc_byte_array counter = rev (inc_rev (rev counter))"

text \<open>\<open>for (i = RSNA_MAX_EAPOL_RETRIES - 1; i > 0; i--) ..\<close>: the new counter in front, the oldest one drops out.\<close>

definition next_replay :: "(bytes \<times> bool) list \<Rightarrow> (bytes \<times> bool) list" where
  "next_replay r = (inc_byte_array (fst (hd r)), True) # butlast r"

section \<open>The frame\<close>

definition key_descr_version :: "u32 \<Rightarrow> u32 \<Rightarrow> nat \<Rightarrow> nat" where
  "key_descr_version akm cipher force_version =
    (if force_version \<noteq> 0 then force_version
     else if wpa_use_akm_defined akm then 0
     else if wpa_use_cmac akm then 3
     else if cipher \<noteq> WPA_CIPHER_TKIP then 2
     else 1)"

text \<open>The test for a key wrap, and the bytes it adds; the 77 bytes of \<open>struct wpa_eapol_key\<close> follow the 4 of \<open>hdr\<close>.\<close>

definition uses_wrap :: "u32 \<Rightarrow> nat \<Rightarrow> bool" where
  "uses_wrap akm version \<longleftrightarrow> version = 2 \<or> wpa_use_aes_key_wrap akm \<or> version = 3"

definition wrap_pad_len :: "nat \<Rightarrow> nat" where
  "wrap_pad_len n = (if n mod 8 \<noteq> 0 then 8 - n mod 8 else 0)"

definition padded_key_data :: "bytes \<Rightarrow> nat \<Rightarrow> nat \<Rightarrow> bytes" where
  "padded_key_data kde pad_len key_data_len =
    (let pos = kde @ (if pad_len \<noteq> 0 then [0xdd] else []) in pos @ replicate (key_data_len - length pos) 0)"

text \<open>The key information and the length of the key.\<close>

definition key_info_field :: "eapol_key_sm \<Rightarrow> u32 \<Rightarrow> nat \<Rightarrow> u32 \<Rightarrow> bool \<Rightarrow> u32" where
  "key_info_field sm key_info version keyidx encr =
    (let key_info = key_info OR of_nat version;
         key_info = (if encr \<and> sm_wpa sm = WPA_VERSION_WPA2 then key_info OR WPA_KEY_INFO_ENCR_KEY_DATA else key_info)
     in if sm_wpa sm \<noteq> WPA_VERSION_WPA2 then key_info OR push_bit 4 keyidx else key_info)"

definition key_length_field :: "eapol_key_sm \<Rightarrow> u32 \<Rightarrow> nat" where
  "key_length_field sm key_info =
    (let is_pairwise = (key_info AND WPA_KEY_INFO_KEY_TYPE \<noteq> 0); alg = (if is_pairwise then sm_pairwise sm else sm_wpa_group sm)
     in if sm_wpa sm = WPA_VERSION_WPA2 \<and> \<not> is_pairwise then 0 else wpa_cipher_key_len alg)"

text \<open>\<open>hdr\<close> and \<open>key\<close>; the frame is allocated zeroed.\<close>

definition key_header :: "eapol_key_sm \<Rightarrow> nat \<Rightarrow> u32 \<Rightarrow> nat \<Rightarrow> bytes \<Rightarrow> bytes option \<Rightarrow> bytes \<Rightarrow> bytes option \<Rightarrow> bytes" where
  "key_header sm len key_info key_length counter nonce iv key_rsc =
    [sm_eapol_version sm, 3] @ WPA_PUT_BE16 (of_nat (len - 4)) @
    [if sm_wpa sm = WPA_VERSION_WPA2 then 2 else 254] @ WPA_PUT_BE16 (ucast key_info) @ WPA_PUT_BE16 (of_nat key_length) @
    counter @ (case nonce of None \<Rightarrow> replicate 32 0 | Some n \<Rightarrow> get_bytes n 0 32) @ iv @
    (case key_rsc of None \<Rightarrow> replicate 8 0 | Some r \<Rightarrow> get_bytes r 0 8) @ replicate 8 0"

text \<open>What the branches on \<open>kde\<close> write: key data length, key data, IV, and the group's counter; \<open>Ret\<close> is their early return.\<close>

definition key_data_field :: "eapol_build \<Rightarrow> (nat \<Rightarrow> bool) \<Rightarrow> eapol_key_sm \<Rightarrow> nat \<Rightarrow> nat \<Rightarrow> nat \<Rightarrow> nat \<Rightarrow> (bytes \<Rightarrow> bytes) \<Rightarrow> bytes option \<Rightarrow> bool \<Rightarrow>
    (nat \<times> bytes \<times> bytes \<times> bytes) outcome option" where
  "key_data_field C heap sm version mic_len pad_len key_data_len header kde encr =
    (let kek = ptk_kek (sm_PTK sm); iv0 = replicate 16 0; ctr = sm_group_counter sm
     in case kde of
          None \<Rightarrow> Some (Ok (0, [], iv0, ctr))
        | Some kde \<Rightarrow>
            if \<not> encr then Some (Ok (length kde, kde, iv0, ctr))
            else if CONFIG_FILS C \<and> mic_len = 0 then
              let n = 16 + length kde
              in Some (or_fail (- 1) (aes_siv_encrypt kek (length kek) kde [header iv0 @ WPA_PUT_BE16 (of_nat n)])
                   (\<lambda>c. Ok (n, c, iv0, ctr)))
            else if \<not> heap key_data_len then Some (Ret (- 1))
            else
              let buf = padded_key_data kde pad_len key_data_len
              in if uses_wrap (sm_wpa_key_mgmt sm) version then
                   let (r, c) = aes_wrap kek (length kek) ((key_data_len - 8) div 8) buf
                   in Some (if r \<noteq> 0 then Ret (- 1) else Ok (key_data_len, c, iv0, ctr))
                 else if \<not> CONFIG_NO_RC4 C \<and> \<not> CONFIG_FIPS C \<and> length kek = 16 then
                   let iv = get_bytes ctr (32 - 16) 16
                   in do {
                        r \<leftarrow> rc4_skip (iv @ kek) 256 (get_bytes buf 0 key_data_len);
                        Some (case r of Fault \<Rightarrow> Fault | Ret _ \<Rightarrow> Ret (- 1) | Ok c \<Rightarrow> Ok (key_data_len, c, iv, inc_byte_array ctr))
                      }
                 else Some (Ret (- 1)))"

text \<open>From the key data to the frame that is sent: the zeroed rest of the allocation, the MIC.\<close>

definition finish_frame :: "eapol_build \<Rightarrow> libs \<Rightarrow> eapol_key_sm \<Rightarrow> u32 \<Rightarrow> nat \<Rightarrow> nat \<Rightarrow> nat \<Rightarrow> bytes \<Rightarrow> nat \<Rightarrow> bytes \<Rightarrow>
    (bytes option \<times> eapol_key_sm) outcome option" where
  "finish_frame C H sm key_info version mic_len len header n key_data =
    (let used = header @ replicate mic_len 0 @ WPA_PUT_BE16 (of_nat n) @ key_data;
         frame = used @ replicate (len - length used) 0
     in if length used > len then Some Fault
        else if key_info AND WPA_KEY_INFO_MIC = 0 then Some (Ok (Some frame, sm))
        else if \<not> sm_PTK_valid sm \<or> mic_len = 0 then Some (Ok (None, sm))
        else do {
          r \<leftarrow> wpa_eapol_key_mic (key_build.truncate C) H (ptk_kck (sm_PTK sm)) (sm_wpa_key_mgmt sm) version frame;
          Some (case r of
            Fault \<Rightarrow> Fault
          | Ret _ \<Rightarrow> Ok (None, sm)
          | Ok mic \<Rightarrow> if 81 + length mic > len then Fault else Ok (Some (put_bytes frame 81 mic), sm))
        })"

text \<open>
  \<open>__wpa_send_eapol\<close>: the frame handed to \<open>wpa_auth_send_eapol\<close>, if any, and the state left.  \<open>heap n\<close> says whether
  an allocation of \<open>n\<close> bytes succeeds; a \<open>kde\<close> of \<open>None\<close> is \<open>NULL\<close> with length 0.
\<close>

definition send_eapol_key :: "eapol_build \<Rightarrow> libs \<Rightarrow> (nat \<Rightarrow> bool) \<Rightarrow> eapol_key_sm \<Rightarrow> u32 \<Rightarrow> bytes option \<Rightarrow> bytes option \<Rightarrow> bytes option \<Rightarrow>
    u32 \<Rightarrow> bool \<Rightarrow> nat \<Rightarrow> (bytes option \<times> eapol_key_sm) outcome option" where
  "send_eapol_key C H heap sm key_info key_rsc nonce kde keyidx encr force_version =
    (let akm = sm_wpa_key_mgmt sm;
         mic_len = wpa_mic_len akm (sm_pmk_len sm);
         version = key_descr_version akm (sm_pairwise sm) force_version;
         kde_len = (case kde of None \<Rightarrow> 0 | Some k \<Rightarrow> length k);
         wrapped = (uses_wrap akm version \<and> encr);
         pad_len = (if wrapped then wrap_pad_len kde_len else 0);
         key_data_len = kde_len + (if wrapped then pad_len + 8 else 0);
         len = 4 + (77 + mic_len + 2) + key_data_len + (if mic_len = 0 \<and> encr then 16 else 0)
     in if \<not> heap len then Some (Ok (None, sm))
        else
          let info = key_info_field sm key_info version keyidx encr;
              key_length = key_length_field sm key_info;
              sm = sm\<lparr>sm_key_replay := next_replay (sm_key_replay sm)\<rparr>;
              header = (\<lambda>iv. key_header sm len info key_length (fst (hd (sm_key_replay sm))) nonce iv key_rsc)
          in do {
            r \<leftarrow> key_data_field C heap sm version mic_len pad_len key_data_len header kde encr;
            case r of
              Fault \<Rightarrow> Some Fault
            | Ret _ \<Rightarrow> Some (Ok (None, sm))
            | Ok (n, key_data, iv, ctr) \<Rightarrow>
                finish_frame C H (sm\<lparr>sm_group_counter := ctr\<rparr>) info version mic_len len (header iv) n key_data
          })"

text \<open>
  \<open>wpa_verify_key_mic\<close>: 0 or -1.  The MIC field is cleared for the computation and restored afterwards.
\<close>

definition wpa_verify_key_mic :: "eapol_build \<Rightarrow> libs \<Rightarrow> u32 \<Rightarrow> nat \<Rightarrow> wpa_ptk \<Rightarrow> bytes \<Rightarrow> int outcome option" where
  "wpa_verify_key_mic C H akm n ptk frame =
    (let mic_len = wpa_mic_len akm n
     in if length frame < 4 + 77 then Some (Ok (- 1))
        else if length frame < 81 + mic_len then Some Fault
        else
          let version = unat (frame ! 6 AND 7);
              mic = get_bytes frame 81 mic_len;
              cleared = put_bytes frame 81 (replicate mic_len 0)
          in do {
            r \<leftarrow> wpa_eapol_key_mic (key_build.truncate C) H (ptk_kck ptk) akm version cleared;
            Some (case r of
              Fault \<Rightarrow> Fault
            | Ret _ \<Rightarrow> Ok (- 1)
            | Ok mic' \<Rightarrow> if 81 + length mic' > length frame then Fault
                else Ok (if mic = get_bytes (put_bytes cleared 81 mic') 81 mic_len then 0 else - 1))
          })"

section \<open>The replay counter\<close>

lemma length_inc_rev [simp]: "length (inc_rev bs) = length bs"
  by (induction bs) auto

lemma unat_inc: "unat (b + 1 :: u8) = (unat b + 1) mod 256"
  using unat_word_ariths(1) [of b 1] by simp

lemma le_nat_inc_rev: "le_nat (inc_rev bs) = (le_nat bs + 1) mod 256 ^ length bs"
proof (induction bs)
  case (Cons b bs)
  have b: "unat b < 256" using unsigned_less [of b] by simp
  have l: "le_nat bs < 256 ^ length bs" by (rule le_nat_less)
  show ?case
  proof (cases "b + 1 = 0")
    case True
    then have "unat b = 255" using unat_inc [of b] b by (auto simp: mod_Suc split: if_splits)
    then have "(le_nat (b # bs) + 1) mod 256 ^ length (b # bs) = 256 * (le_nat bs + 1) mod (256 * 256 ^ length bs)" by simp
    also have "\<dots> = 256 * ((le_nat bs + 1) mod 256 ^ length bs)" by (rule mult_mod_right [symmetric])
    finally show ?thesis using True Cons by simp
  next
    case False
    then have "unat b \<noteq> 255" using unat_inc [of b] unat_eq_0 [of "b + 1"] by auto
    then have "unat (b + 1) = unat b + 1" "unat b + 1 < 256" using unat_inc [of b] b by (simp, linarith)
    moreover have "256 * (le_nat bs + 1) \<le> 256 * 256 ^ length bs" using l by (intro mult_le_mono2) simp
    ultimately show ?thesis using False by simp
  qed
qed simp

lemma inc_byte_array_nat: "be_nat (inc_byte_array c) = (be_nat c + 1) mod 256 ^ length c"
  by (simp add: inc_byte_array_def be_nat_rev le_nat_inc_rev be_nat_le_nat)

lemma length_inc_byte_array [simp]: "length (inc_byte_array c) = length c"
  by (simp add: inc_byte_array_def)

section \<open>The fields\<close>

lemma length_padded: "length kde + (if pad_len \<noteq> 0 then 1 else 0) \<le> n \<Longrightarrow> length (padded_key_data kde pad_len n) = n"
  by (auto simp: padded_key_data_def Let_def split: if_splits)

lemma wrap_pad_len: "(n + wrap_pad_len n) mod 8 = 0" "wrap_pad_len n < 8"
  unfolding wrap_pad_len_def by presburger+

lemma siv_result:
  "aes_siv_encrypt key n pw aad = Ret (- 1) \<or> (\<exists>c. aes_siv_encrypt key n pw aad = Ok c \<and> length c = 16 + length pw)"
proof (cases "length aad > 5 \<or> (n \<noteq> 32 \<and> n \<noteq> 48 \<and> n \<noteq> 64)")
  case False
  then have h: "n div 2 \<in> {16, 24, 32}" by auto
  obtain v where v: "aes_s2v key (n div 2) (aad @ [pw]) = Ok v" "length v = 16" by (rule aes_s2v_ok [OF h])
  obtain x where "aes_ctr_encrypt (drop (n div 2) key) (n div 2) (siv_ctr v) pw = (0, x)" "length x = length pw"
    by (rule aes_ctr_ok [OF h])
  then show ?thesis using v False by (simp add: aes_siv_encrypt_def Let_def)
qed (auto simp: aes_siv_encrypt_def)

lemma wrap_result:
  assumes "length plain \<ge> 8 * n"
  shows "(fst (aes_wrap kek len n plain) \<noteq> 0) \<or> (\<exists>c. aes_wrap kek len n plain = (0, c) \<and> length c = 8 * n + 8)"
proof (cases "aes_encrypt_init kek len")
  case None
  then show ?thesis by (simp add: aes_wrap_def)
next
  case (Some e)
  then have l: "len \<in> {16, 24, 32}" using aes_encrypt_init_None [of kek len] by auto
  have "aes_wrap kek len n plain = aes_wrap kek len n (take (8 * n) plain)" by (simp add: aes_wrap_def)
  then show ?thesis using aes_wrap_ok [OF l, of "take (8 * n) plain" n kek] assms by auto
qed

text \<open>The room for the key data, and what is left over of it: the key wrap is counted for SIV, too.\<close>

definition key_room :: "eapol_key_sm \<Rightarrow> nat \<Rightarrow> nat \<Rightarrow> bool \<Rightarrow> nat" where
  "key_room sm version n encr =
    (n + (if uses_wrap (sm_wpa_key_mgmt sm) version \<and> encr then wrap_pad_len n + 8 else 0))"

lemma key_data_result:
  fixes sm :: eapol_key_sm and k :: bytes and version :: nat and encr :: bool
  defines "w \<equiv> uses_wrap (sm_wpa_key_mgmt sm) version \<and> encr"
  assumes ctr: "length (sm_group_counter sm) = 32" and k: "length k < 2 ^ 16" and fils: "mic_len = 0 \<longrightarrow> CONFIG_FILS C"
  defines "pad \<equiv> (if w then wrap_pad_len (length k) else 0)"
  assumes r_def: "r = key_data_field C heap sm version mic_len pad (key_room sm version (length k) encr) header (Some k) encr"
  shows "r = Some (Ret (- 1)) \<or> (\<exists>n c iv ctr. r = Some (Ok (n, c, iv, ctr)) \<and> length c = n \<and> length iv = 16 \<and> length ctr = 32 \<and>
    n = (if encr \<and> mic_len = 0 then 16 + length k else key_room sm version (length k) encr))"
proof -
  have p: "length (padded_key_data k pad (key_room sm version (length k) encr)) = key_room sm version (length k) encr"
    by (rule length_padded) (auto simp: pad_def w_def key_room_def)
  have m: "(length k + wrap_pad_len (length k)) div 8 * 8 = length k + wrap_pad_len (length k)"
    using wrap_pad_len(1) [of "length k"] by (simp add: mod_0_imp_dvd)
  have w8: "8 * ((key_room sm version (length k) encr - 8) div 8) + 8 = key_room sm version (length k) encr" if w
    using that m by (simp add: w_def key_room_def)
  consider "\<not> encr" | "encr" "mic_len = 0" | "encr" "mic_len \<noteq> 0" "\<not> heap (key_room sm version (length k) encr)"
    | "encr" "mic_len \<noteq> 0" "heap (key_room sm version (length k) encr)" by blast
  then show ?thesis
  proof cases
    case 4
    let ?p = "padded_key_data k pad (key_room sm version (length k) encr)"
    show ?thesis
    proof (cases w)
      case True
      let ?a = "aes_wrap (ptk_kek (sm_PTK sm)) (length (ptk_kek (sm_PTK sm))) ((key_room sm version (length k) encr - 8) div 8) ?p"
      have "fst ?a \<noteq> 0 \<or> (\<exists>c. ?a = (0, c) \<and> length c = key_room sm version (length k) encr)"
        using wrap_result [of "(key_room sm version (length k) encr - 8) div 8" ?p] p w8 [OF True] by auto
      then show ?thesis using 4 True ctr unfolding r_def key_data_field_def w_def by (auto simp: Let_def split: prod.splits)
    next
      case False
      have "rc4_skip (iv @ ptk_kek (sm_PTK sm)) 256 d = Some (Ok (rc4_apply (iv @ ptk_kek (sm_PTK sm)) 256 d))"
        if "length (ptk_kek (sm_PTK sm)) = 16" "length d < 2 ^ 16" for iv d
        by (rule rc4_skip_ok) (use that in auto)
      then show ?thesis using 4 False ctr k p unfolding r_def key_data_field_def w_def
        by (auto simp: Let_def length_get_bytes key_room_def)
    qed
  next
    case 2
    let ?s = "aes_siv_encrypt (ptk_kek (sm_PTK sm)) (length (ptk_kek (sm_PTK sm))) k
      [header (replicate 16 0) @ WPA_PUT_BE16 (of_nat (16 + length k))]"
    have e: "r = Some (or_fail (- 1) ?s (\<lambda>c. Ok (16 + length k, c, replicate 16 0, sm_group_counter sm)))"
      using 2 fils by (simp add: r_def key_data_field_def Let_def)
    have "?s = Ret (- 1) \<or> (\<exists>c. ?s = Ok c \<and> length c = 16 + length k)" by (rule siv_result)
    then show ?thesis using 2 ctr by (auto simp: e simp del: of_nat_add)
  qed (use ctr in \<open>auto simp: r_def key_data_field_def Let_def key_room_def\<close>)
qed

lemma length_header:
  assumes "length counter = 8" "length iv = 16" "\<forall>n. nonce = Some n \<longrightarrow> 32 \<le> length n" "\<forall>r. rsc = Some r \<longrightarrow> 8 \<le> length r"
  shows "length (key_header sm len info kl counter nonce iv rsc) = 81"
  using assms by (auto simp: key_header_def byte_simps split: option.split)

section \<open>What is sent\<close>

definition send_ok :: "eapol_build \<Rightarrow> libs \<Rightarrow> eapol_key_sm \<Rightarrow> bytes option \<Rightarrow> bytes option \<Rightarrow> bytes \<Rightarrow> nat \<Rightarrow> bool" where
  "send_ok C H sm key_rsc nonce k force_version \<longleftrightarrow>
    libs_ok H \<and> length (sm_group_counter sm) = 32 \<and> sm_key_replay sm \<noteq> [] \<and> length (fst (hd (sm_key_replay sm))) = 8 \<and>
    length (ptk_kck (sm_PTK sm)) = wpa_kck_len (sm_wpa_key_mgmt sm) (sm_pmk_len sm) \<and> 32 \<le> sm_pmk_len sm \<and> sm_pmk_len sm \<le> 64 \<and>
    (\<forall>r. key_rsc = Some r \<longrightarrow> 8 \<le> length r) \<and> (\<forall>n. nonce = Some n \<longrightarrow> 32 \<le> length n) \<and> length k < 65000 \<and>
    (wpa_key_mgmt_fils (sm_wpa_key_mgmt sm) \<longrightarrow> CONFIG_FILS C) \<and>
    (force_version = 0 \<or> 16 \<le> wpa_mic_len (sm_wpa_key_mgmt sm) (sm_pmk_len sm))"

abbreviation send_version :: "eapol_key_sm \<Rightarrow> nat \<Rightarrow> nat" where
  "send_version sm \<equiv> key_descr_version (sm_wpa_key_mgmt sm) (sm_pairwise sm)"

abbreviation send_mic_len :: "eapol_key_sm \<Rightarrow> nat" where
  "send_mic_len sm \<equiv> wpa_mic_len (sm_wpa_key_mgmt sm) (sm_pmk_len sm)"

definition frame_len :: "eapol_key_sm \<Rightarrow> nat \<Rightarrow> nat \<Rightarrow> bool \<Rightarrow> nat" where
  "frame_len sm version n encr = 83 + send_mic_len sm + key_room sm version n encr + (if send_mic_len sm = 0 \<and> encr then 16 else 0)"

definition sent_header :: "eapol_key_sm \<Rightarrow> u32 \<Rightarrow> bytes option \<Rightarrow> bytes option \<Rightarrow> nat \<Rightarrow> u32 \<Rightarrow> bool \<Rightarrow> nat \<Rightarrow> bytes \<Rightarrow> bytes" where
  "sent_header sm key_info key_rsc nonce n keyidx encr version iv =
    key_header (sm\<lparr>sm_key_replay := next_replay (sm_key_replay sm)\<rparr>) (frame_len sm version n encr)
      (key_info_field sm key_info version keyidx encr) (key_length_field sm key_info)
      (inc_byte_array (fst (hd (sm_key_replay sm)))) nonce iv key_rsc"

lemma fils_mic_len: "wpa_mic_len akm n = 0 \<Longrightarrow> wpa_key_mgmt_fils akm \<or> n < 2"
  by (auto simp: wpa_mic_len_def wpa_key_mgmt_fils_def akm_defs split: if_splits)

lemma mic_len_16: "\<not> wpa_use_akm_defined akm \<Longrightarrow> 16 \<le> wpa_mic_len akm n"
  by (auto simp: wpa_mic_len_def wpa_use_akm_defined_def wpa_key_mgmt_fils_def wpa_key_mgmt_sae_def akm_defs split: if_splits)

lemma send_facts:
  assumes "send_ok C H sm key_rsc nonce k force_version"
  shows "send_mic_len sm = 0 \<longrightarrow> CONFIG_FILS C" "length iv = 16 \<Longrightarrow> length (sent_header sm info key_rsc nonce n keyidx encr version iv) = 81"
    "length (sm_group_counter sm) = 32" "length k < 2 ^ 16"
    "force_version = 0 \<or> 16 \<le> send_mic_len sm" "send_version sm force_version = 0 \<or> 16 \<le> send_mic_len sm"
    "key_room sm version (length k) encr < 65016" "send_mic_len sm \<le> 32"
proof -
  show "send_mic_len sm = 0 \<longrightarrow> CONFIG_FILS C" using assms fils_mic_len [of "sm_wpa_key_mgmt sm" "sm_pmk_len sm"] by (auto simp: send_ok_def)
  show "length iv = 16 \<Longrightarrow> length (sent_header sm info key_rsc nonce n keyidx encr version iv) = 81"
    unfolding sent_header_def by (rule length_header) (use assms in \<open>auto simp: send_ok_def\<close>)
  show "length (sm_group_counter sm) = 32" "length k < 2 ^ 16" "force_version = 0 \<or> 16 \<le> send_mic_len sm"
    using assms by (simp_all add: send_ok_def)
  then show "send_version sm force_version = 0 \<or> 16 \<le> send_mic_len sm"
    using mic_len_16 [of "sm_wpa_key_mgmt sm" "sm_pmk_len sm"] by (auto simp: key_descr_version_def)
  show "key_room sm version (length k) encr < 65016"
    using wrap_pad_len(2) [of "length k"] assms by (simp add: key_room_def send_ok_def)
  have "sm_pmk_len sm \<le> 64" using assms by (simp add: send_ok_def)
  then have "sm_pmk_len sm div 2 \<le> 32" by simp
  then show "send_mic_len sm \<le> 32" by (simp add: wpa_mic_len_def)
qed

text \<open>The MIC of a frame that is sent.\<close>

lemma send_mic:
  assumes "send_ok C H sm key_rsc nonce k fv" "length frame \<le> 100000" "send_mic_len sm \<noteq> 0"
  obtains x where "wpa_eapol_key_mic B H (ptk_kck (sm_PTK sm)) (sm_wpa_key_mgmt sm) (send_version sm fv) frame = Some (Ret x)"
  | mic where "wpa_eapol_key_mic B H (ptk_kck (sm_PTK sm)) (sm_wpa_key_mgmt sm) (send_version sm fv) frame = Some (Ok mic)"
      "length mic \<le> send_mic_len sm"
proof -
  let ?r = "wpa_eapol_key_mic B H (ptk_kck (sm_PTK sm)) (sm_wpa_key_mgmt sm) (send_version sm fv) frame"
  have h: "libs_ok H" "length (ptk_kck (sm_PTK sm)) = wpa_kck_len (sm_wpa_key_mgmt sm) (sm_pmk_len sm)" using assms(1) by (simp_all add: send_ok_def)
  have f: "sha1_fits (ptk_kck (sm_PTK sm))" "sha1_fits frame"
    using assms(1,2) ptk_lens(1) [of "sm_pmk_len sm" "sm_wpa_key_mgmt sm"] by (simp_all add: sha1_fits_def send_ok_def)
  have k: "16 \<le> length (ptk_kck (sm_PTK sm))" using assms(1,3) kck_16 [of "sm_wpa_key_mgmt sm" "sm_pmk_len sm"] by (simp add: send_ok_def)
  have "\<exists>n. mic_ok n ?r \<and> n \<le> send_mic_len sm"
    using kck_mic [OF h, of B frame] version_mic [OF h(1) f _ k] send_facts(6) [OF assms(1)]
    by (cases "send_version sm fv = 0") (auto intro: exI [of _ 16])
  then show ?thesis using that by (cases ?r) (auto simp: mic_ok_def split: outcome.splits intro: outcome.exhaust)
qed

text \<open>The branches of a call.\<close>

definition sent_field :: "eapol_build \<Rightarrow> (nat \<Rightarrow> bool) \<Rightarrow> eapol_key_sm \<Rightarrow> u32 \<Rightarrow> bytes option \<Rightarrow> bytes option \<Rightarrow> bytes \<Rightarrow> u32 \<Rightarrow> bool \<Rightarrow> nat \<Rightarrow>
    (nat \<times> bytes \<times> bytes \<times> bytes) outcome option" where
  "sent_field C heap sm key_info key_rsc nonce k keyidx encr version =
    key_data_field C heap (sm\<lparr>sm_key_replay := next_replay (sm_key_replay sm)\<rparr>) version (send_mic_len sm)
      (if uses_wrap (sm_wpa_key_mgmt sm) version \<and> encr then wrap_pad_len (length k) else 0) (key_room sm version (length k) encr)
      (sent_header sm key_info key_rsc nonce (length k) keyidx encr version) (Some k) encr"

lemma hd_next: "fst (hd (next_replay r)) = inc_byte_array (fst (hd r))"
  by (simp add: next_replay_def)

lemma send_unfold:
  assumes v: "v = send_version sm fv" and ml: "ml = send_mic_len sm" and len: "len = frame_len sm v (length k) encr" and "heap len"
  shows "send_eapol_key C H heap sm key_info rsc nonce (Some k) keyidx encr fv =
    do {
      r \<leftarrow> sent_field C heap sm key_info rsc nonce k keyidx encr v;
      case r of
        Fault \<Rightarrow> Some Fault
      | Ret _ \<Rightarrow> Some (Ok (None, sm\<lparr>sm_key_replay := next_replay (sm_key_replay sm)\<rparr>))
      | Ok (n, c, iv, ctr) \<Rightarrow>
          finish_frame C H (sm\<lparr>sm_key_replay := next_replay (sm_key_replay sm), sm_group_counter := ctr\<rparr>)
            (key_info_field sm key_info v keyidx encr) v ml len (sent_header sm key_info rsc nonce (length k) keyidx encr v iv) n c
    }"
proof -
  define wr where "wr \<longleftrightarrow> uses_wrap (sm_wpa_key_mgmt sm) v \<and> encr"
  have room: "length k + (if wr then (if wr then wrap_pad_len (length k) else 0) + 8 else 0) = key_room sm v (length k) encr"
    by (simp add: key_room_def wr_def)
  have l: "4 + (77 + ml + 2) + key_room sm v (length k) encr + (if ml = 0 \<and> encr then 16 else 0) = len"
    by (simp add: len frame_len_def ml)
  show ?thesis
    unfolding send_eapol_key_def Let_def option.case v [symmetric] ml [symmetric] wr_def [symmetric] room l sent_field_def sent_header_def [abs_def]
    unfolding len using assms(4) by (cases wr) (simp_all add: hd_next len)
qed

text \<open>The frame around the MIC field \<open>m\<close>.\<close>

definition frame_of :: "bytes \<Rightarrow> bytes \<Rightarrow> nat \<Rightarrow> bytes \<Rightarrow> nat \<Rightarrow> bytes" where
  "frame_of header m n c len = header @ m @ WPA_PUT_BE16 (of_nat n) @ c @ replicate (len - (83 + length m + length c)) 0"

definition zmic :: "nat \<Rightarrow> bytes \<Rightarrow> bytes" where
  "zmic mic_len mic = mic @ replicate (mic_len - length mic) 0"

lemma put_mic:
  assumes "length header = 81" "length mic \<le> length m" "length m = mic_len" "\<forall>i<mic_len. length mic \<le> i \<longrightarrow> m ! i = 0"
  shows "put_bytes (frame_of header m n c len) 81 mic = frame_of header (zmic mic_len mic) n c len"
proof -
  have "drop (length mic) m = replicate (mic_len - length mic) 0"
    by (rule nth_equalityI) (use assms in auto)
  then show ?thesis using assms(1-3) by (simp add: put_bytes_def frame_of_def zmic_def)
qed

lemma length_zmic [simp]: "length mic \<le> n \<Longrightarrow> length (zmic n mic) = n"
  by (simp add: zmic_def)

lemma zmic_Nil: "zmic n [] = replicate n 0"
  by (simp add: zmic_def)

lemma length_frame_of: "length header = 81 \<Longrightarrow> 83 + length m + length c \<le> len \<Longrightarrow> length (frame_of header m n c len) = len"
  by (simp add: frame_of_def byte_simps)

lemma finish_result:
  assumes "length header = 81" "length c = n" "83 + ml + n \<le> len"
    and M: "M = wpa_eapol_key_mic (key_build.truncate C) H (ptk_kck (sm_PTK sm)) (sm_wpa_key_mgmt sm) v (frame_of header (zmic ml []) n c len)"
    and m: "ml \<noteq> 0 \<Longrightarrow> (\<exists>x. M = Some (Ret x)) \<or> (\<exists>mic. M = Some (Ok mic) \<and> length mic \<le> ml)"
  shows "finish_frame C H sm info v ml len header n c =
    (if info AND WPA_KEY_INFO_MIC = 0 then Some (Ok (Some (frame_of header (zmic ml []) n c len), sm))
     else if \<not> sm_PTK_valid sm \<or> ml = 0 then Some (Ok (None, sm))
     else case M of Some (Ok mic) \<Rightarrow> Some (Ok (Some (frame_of header (zmic ml mic) n c len), sm)) | _ \<Rightarrow> Some (Ok (None, sm)))"
proof -
  have f: "(header @ replicate ml 0 @ WPA_PUT_BE16 (of_nat n) @ c) @
      replicate (len - length (header @ replicate ml 0 @ WPA_PUT_BE16 (of_nat n) @ c)) 0 = frame_of header (zmic ml []) n c len"
    using assms(1) by (simp add: frame_of_def zmic_def byte_simps)
  have "\<not> len < length (header @ replicate ml 0 @ WPA_PUT_BE16 (of_nat n) @ c)" using assms(1-3) by (simp add: byte_simps)
  then have e: "finish_frame C H sm info v ml len header n c =
    (if info AND WPA_KEY_INFO_MIC = 0 then Some (Ok (Some (frame_of header (zmic ml []) n c len), sm))
     else if \<not> sm_PTK_valid sm \<or> ml = 0 then Some (Ok (None, sm))
     else do {
       r \<leftarrow> M;
       Some (case r of Fault \<Rightarrow> Fault | Ret _ \<Rightarrow> Ok (None, sm)
         | Ok mic \<Rightarrow> if 81 + length mic > len then Fault else Ok (Some (put_bytes (frame_of header (zmic ml []) n c len) 81 mic), sm))
     })"
    unfolding finish_frame_def Let_def f M by simp
  have p: "put_bytes (frame_of header (zmic ml []) n c len) 81 mic = frame_of header (zmic ml mic) n c len" if "length mic \<le> ml" for mic
    by (rule put_mic) (use assms(1) that in \<open>simp_all add: zmic_def\<close>)
  show ?thesis
  proof (cases "ml = 0")
    case True
    then show ?thesis unfolding e by simp
  next
    case False
    show ?thesis unfolding e using m [OF False] by (elim disjE exE conjE) (use assms(3) p in simp_all)
  qed
qed

lemma send_cases:
  assumes v: "v = send_version sm fv" and ml: "ml = send_mic_len sm" and len: "len = frame_len sm v (length k) encr"
    and ok: "send_ok C H sm rsc nonce k fv" and "heap len"
    and send: "send = send_eapol_key C H heap sm key_info rsc nonce (Some k) keyidx encr fv"
  obtains (none) sm' where "send = Some (Ok (None, sm'))" "sm_key_replay sm' = next_replay (sm_key_replay sm)"
    "sent_field C heap sm key_info rsc nonce k keyidx encr v = Some (Ret (- 1)) \<or> \<not> sm_PTK_valid sm \<or> ml = 0 \<or>
      (\<exists>f x. length f \<le> 100000 \<and> wpa_eapol_key_mic (key_build.truncate C) H (ptk_kck (sm_PTK sm)) (sm_wpa_key_mgmt sm) v f = Some (Ret x))"
  | (sent) n c iv ctr m where
    "sent_field C heap sm key_info rsc nonce k keyidx encr v = Some (Ok (n, c, iv, ctr))" "length c = n" "length iv = 16"
    "n = (if encr \<and> ml = 0 then 16 + length k else key_room sm v (length k) encr)" "length m = ml"
    "send = Some (Ok (Some (frame_of (sent_header sm key_info rsc nonce (length k) keyidx encr v iv) m n c len),
      sm\<lparr>sm_key_replay := next_replay (sm_key_replay sm), sm_group_counter := ctr\<rparr>))"
    "key_info_field sm key_info v keyidx encr AND WPA_KEY_INFO_MIC \<noteq> 0 \<Longrightarrow> ml \<noteq> 0 \<and> (\<exists>mic. length mic \<le> ml \<and> m = zmic ml mic \<and>
      wpa_eapol_key_mic (key_build.truncate C) H (ptk_kck (sm_PTK sm)) (sm_wpa_key_mgmt sm) v
        (frame_of (sent_header sm key_info rsc nonce (length k) keyidx encr v iv) (zmic ml []) n c len) = Some (Ok mic))"
proof -
  let ?sm = "sm\<lparr>sm_key_replay := next_replay (sm_key_replay sm)\<rparr>"
  note facts = send_facts [OF ok]
  note u = send [unfolded send_unfold [where heap = heap, OF v ml len \<open>heap len\<close>]]
  let ?F = "sent_field C heap sm key_info rsc nonce k keyidx encr v"
  have room: "key_room ?sm v (length k) encr = key_room sm v (length k) encr" by (simp add: key_room_def)
  have "?F = Some (Ret (- 1)) \<or> (\<exists>n c iv ctr. ?F = Some (Ok (n, c, iv, ctr)) \<and> length c = n \<and> length iv = 16 \<and> length ctr = 32 \<and>
      n = (if encr \<and> ml = 0 then 16 + length k else key_room sm v (length k) encr))"
  proof -
    have "?F = key_data_field C heap ?sm v ml (if uses_wrap (sm_wpa_key_mgmt ?sm) v \<and> encr then wrap_pad_len (length k) else 0)
        (key_room ?sm v (length k) encr) (sent_header sm key_info rsc nonce (length k) keyidx encr v) (Some k) encr"
      unfolding room by (simp add: sent_field_def ml)
    from key_data_result [OF _ facts(4) _ this] show ?thesis using facts(1,3) unfolding room ml by simp
  qed
  then consider "?F = Some (Ret (- 1))" | n c iv ctr where "?F = Some (Ok (n, c, iv, ctr))" "length c = n" "length iv = 16"
      "n = (if encr \<and> ml = 0 then 16 + length k else key_room sm v (length k) encr)" by blast
  then show ?thesis
  proof cases
    case 1
    then show ?thesis using none u by simp
  next
    case 2
    let ?h = "sent_header sm key_info rsc nonce (length k) keyidx encr v iv"
    let ?sm' = "sm\<lparr>sm_key_replay := next_replay (sm_key_replay sm), sm_group_counter := ctr\<rparr>"
    let ?M = "wpa_eapol_key_mic (key_build.truncate C) H (ptk_kck (sm_PTK sm)) (sm_wpa_key_mgmt sm) v (frame_of ?h (zmic ml []) n c len)"
    have h: "length ?h = 81" by (rule facts(2) [OF 2(3)])
    have le: "83 + ml + n \<le> len" using 2(4) by (auto simp: len frame_len_def ml key_room_def)
    have "(if send_mic_len sm = 0 \<and> encr then 16 else 0) \<le> (16 :: nat)" by simp
    then have "len \<le> 100000" using facts(7) [of v encr] facts(8) unfolding len frame_len_def by linarith
    then have f: "length (frame_of ?h (zmic ml []) n c len) \<le> 100000" using le 2(2) h by (subst length_frame_of) simp_all
    have m: "(\<exists>x. ?M = Some (Ret x)) \<or> (\<exists>mic. ?M = Some (Ok mic) \<and> length mic \<le> ml)" if "ml \<noteq> 0"
      using send_mic [OF ok f, of "key_build.truncate C"] that unfolding ml v by blast
    have s: "send = finish_frame C H ?sm' (key_info_field sm key_info v keyidx encr) v ml len ?h n c"
      using u 2(1) by simp
    have e: "send = (if key_info_field sm key_info v keyidx encr AND WPA_KEY_INFO_MIC = 0
        then Some (Ok (Some (frame_of ?h (zmic ml []) n c len), ?sm'))
      else if \<not> sm_PTK_valid ?sm' \<or> ml = 0 then Some (Ok (None, ?sm'))
      else case ?M of Some (Ok mic) \<Rightarrow> Some (Ok (Some (frame_of ?h (zmic ml mic) n c len), ?sm')) | _ \<Rightarrow> Some (Ok (None, ?sm')))"
      unfolding s by (rule finish_result) (use h 2(2) le m in simp_all)
    show ?thesis
    proof (cases "key_info_field sm key_info v keyidx encr AND WPA_KEY_INFO_MIC = 0")
      case True
      then show ?thesis using e by (intro sent [OF 2, of "zmic ml []"]) simp_all
    next
      case False
      show ?thesis
      proof (cases "\<not> sm_PTK_valid sm \<or> ml = 0 \<or> (\<exists>x. ?M = Some (Ret x))")
        case True
        then have "send = Some (Ok (None, ?sm'))" using e False by (elim disjE exE) simp_all
        then show ?thesis by (rule none) (use True f in \<open>auto intro: exI [of _ "frame_of ?h (zmic ml []) n c len"]\<close>)
      next
        case valid: False
        then obtain mic where mic: "?M = Some (Ok mic)" "length mic \<le> ml" using m by auto
        then have "send = Some (Ok (Some (frame_of ?h (zmic ml mic) n c len), ?sm'))" using e False valid by simp
        then show ?thesis using mic valid by (intro sent [OF 2, of "zmic ml mic"]) auto
      qed
    qed
  qed
qed

section \<open>The receiving side\<close>

lemma frame_of_parts:
  assumes "length header = 81" "length m = ml" "n < 2 ^ 16"
  shows "take 81 (frame_of header m n c len) = header" "get_bytes (frame_of header m n c len) 81 ml = m"
    "be_nat (get_bytes (frame_of header m n c len) (81 + ml) 2) = n"
    "length c = n \<Longrightarrow> get_bytes (frame_of header m n c len) (83 + ml) n = c"
proof -
  have "drop (81 + ml) (frame_of header m n c len) = WPA_PUT_BE16 (of_nat n) @ c @ replicate (len - (83 + length m + length c)) 0"
    using assms by (simp add: frame_of_def)
  moreover have "be_nat (WPA_PUT_BE16 (of_nat n)) = n"
  proof -
    have u: "unat (of_nat n :: u16) = n" using assms(3) by (simp add: unsigned_of_nat take_bit_eq_mod)
    have "unat (drop_bit 8 (of_nat n :: u16)) = n div 256" using unat_drop_bit_eq [of 8 "of_nat n :: u16"] by (simp only: u) (simp add: drop_bit_eq_div)
    then have "unat (ucast (drop_bit 8 (of_nat n :: u16)) :: u8) = n div 256" "unat (ucast (of_nat n :: u16) :: u8) = n mod 256"
      using assms(3) u by (simp_all only: unsigned_ucast_eq) (simp_all add: take_bit_eq_mod less_mult_imp_div_less)
    then show ?thesis by (simp add: be_nat_def WPA_PUT_BE16_def)
  qed
  ultimately show "be_nat (get_bytes (frame_of header m n c len) (81 + ml) 2) = n" by (simp add: get_bytes_def byte_simps)
  show "take 81 (frame_of header m n c len) = header" "get_bytes (frame_of header m n c len) 81 ml = m"
    using assms by (simp_all add: frame_of_def get_bytes_def)
  have "drop (83 + ml) (frame_of header m n c len) = c @ replicate (len - (83 + length m + length c)) 0"
    using assms by (simp add: frame_of_def WPA_PUT_BE16_def)
  then show "length c = n \<Longrightarrow> get_bytes (frame_of header m n c len) (83 + ml) n = c" by (simp add: get_bytes_def)
qed

lemma verify_sent:
  assumes "length header = 81" "length c = n" "83 + ml + n \<le> len" "ml = wpa_mic_len akm pn" "length mic \<le> ml"
    and "unat (header ! 6 AND 7) = v"
    and mic: "wpa_eapol_key_mic (key_build.truncate C) H (ptk_kck ptk) akm v (frame_of header (zmic ml []) n c len) = Some (Ok mic)"
  shows "wpa_verify_key_mic C H akm pn ptk (frame_of header (zmic ml mic) n c len) = Some (Ok 0)"
proof -
  let ?f = "frame_of header (zmic ml mic) n c len"
  have l: "length ?f = len" by (rule length_frame_of) (use assms in simp_all)
  have v: "unat (?f ! 6 AND 7) = v" using assms(1,6) by (simp add: frame_of_def nth_append)
  have z: "put_bytes ?f 81 (replicate ml 0) = frame_of header (zmic ml []) n c len"
    using assms(1,5) by (simp add: frame_of_def put_bytes_def zmic_def)
  have p: "put_bytes (frame_of header (zmic ml []) n c len) 81 mic = ?f"
    by (rule put_mic) (use assms(1,5) in \<open>simp_all add: zmic_def\<close>)
  have g: "get_bytes ?f 81 ml = zmic ml mic" using assms(1,5) by (simp add: frame_of_def get_bytes_def)
  show ?thesis
    using assms(3,5) by (simp add: wpa_verify_key_mic_def Let_def assms(4) [symmetric] l v z mic p g)
qed

lemma info_version:
  assumes "key_info AND 7 = 0" "v < 8"
  shows "unat ((ucast (ucast (key_info_field sm key_info v keyidx encr) :: u16) :: u8) AND 7) = v"
proof -
  have p: "push_bit 4 keyidx AND 7 = (0 :: u32)"
  proof -
    have "push_bit 4 keyidx AND 7 = take_bit 3 (push_bit 4 keyidx)" by (simp only: take_bit_eq_mask mask_eq_exp_minus_1) simp
    also have "\<dots> = 0" by (simp only: take_bit_push_bit) simp
    finally show ?thesis .
  qed
  have v: "v \<in> {0, 1, 2, 3, 4, 5, 6, 7}" using assms(2) by auto
  have "key_info_field sm key_info v keyidx encr AND 7 = of_nat v AND 7"
    using assms(1) p by (simp add: key_info_field_def Let_def WPA_KEY_INFO_ENCR_KEY_DATA_def bit.conj_disj_distrib2)
  also have "\<dots> = of_nat v" using v by auto
  finally have i: "key_info_field sm key_info v keyidx encr AND 7 = of_nat v" .
  have "ucast (ucast x :: u16) AND (7 :: u8) = ucast (x AND 7)" for x :: u32
    by (rule bit_word_eqI) (auto simp: bit_simps)
  then show ?thesis using v by (auto simp: i)
qed

lemma header_bytes:
  assumes "send_ok C H sm rsc nonce k fv" "length iv = 16"
    and h_def: "h = sent_header sm key_info rsc nonce n keyidx encr v iv"
  shows "h ! 6 = ucast (ucast (key_info_field sm key_info v keyidx encr) :: u16)" "get_bytes h 9 8 = inc_byte_array (fst (hd (sm_key_replay sm)))"
    "get_bytes h 49 16 = iv" "get_bytes h 2 2 = WPA_PUT_BE16 (of_nat (frame_len sm v n encr - 4))"
proof -
  have l: "length (fst (hd (sm_key_replay sm))) = 8" "\<forall>x. nonce = Some x \<longrightarrow> 32 \<le> length x" using assms(1) by (simp_all add: send_ok_def)
  then have x: "length (case nonce of None \<Rightarrow> replicate 32 0 | Some n \<Rightarrow> get_bytes n 0 32) = 32"
    by (auto simp: length_get_bytes split: option.split)
  show "h ! 6 = ucast (ucast (key_info_field sm key_info v keyidx encr) :: u16)" "get_bytes h 9 8 = inc_byte_array (fst (hd (sm_key_replay sm)))"
    "get_bytes h 2 2 = WPA_PUT_BE16 (of_nat (frame_len sm v n encr - 4))"
    using l by (simp_all add: h_def sent_header_def key_header_def WPA_PUT_BE16_def get_bytes_def)
  show "get_bytes h 49 16 = iv" using l(1) x assms(2) by (simp add: h_def sent_header_def key_header_def WPA_PUT_BE16_def get_bytes_def)
qed

section \<open>The key data\<close>

lemma wrap_inverse:
  assumes "aes_wrap kek len n plain = (0, c)"
  shows "8 * n \<le> length plain \<Longrightarrow> aes_unwrap kek len n c = (0, take (8 * n) plain)"
proof -
  assume l: "8 * n \<le> length plain"
  obtain e where e: "aes_encrypt_init kek len = Some e" using assms by (cases "aes_encrypt_init kek len") (auto simp: aes_wrap_def)
  then obtain d where d: "aes_decrypt_init kek len = Some d" using aes.d_init_iff [of kek len] by auto
  have "aes_wrap kek len n (take (8 * n) plain) = (0, c)" using assms by (simp add: aes_wrap_def)
  then show ?thesis using aes_unwrap_wrap_ctx [OF e d, of "take (8 * n) plain" n] l by simp
qed

lemma siv_inverse:
  assumes "aes_siv_encrypt key n pw aad = Ok c"
  shows "aes_siv_decrypt key n c aad = Ok pw"
proof -
  have ok: "\<not> (length aad > 5 \<or> (n \<noteq> 32 \<and> n \<noteq> 48 \<and> n \<noteq> 64))" using assms by (auto simp: aes_siv_encrypt_def split: if_splits)
  then have h: "n div 2 \<in> {16, 24, 32}" by auto
  obtain v where v: "aes_s2v key (n div 2) (aad @ [pw]) = Ok v" "length v = 16" by (rule aes_s2v_ok [OF h])
  obtain x where x: "aes_ctr_encrypt (drop (n div 2) key) (n div 2) (siv_ctr v) pw = (0, x)"
      "aes_ctr_encrypt (drop (n div 2) key) (n div 2) (siv_ctr v) x = (0, pw)" by (rule aes_ctr_ok [OF h])
  have "c = v @ x" using assms ok v x by (simp add: aes_siv_encrypt_def Let_def)
  then show ?thesis using ok v x by (simp add: aes_siv_decrypt_def Let_def)
qed

lemma padded_take:
  "take (n + wrap_pad_len n) (padded_key_data k (wrap_pad_len n) (n + wrap_pad_len n + 8)) =
    k @ (if wrap_pad_len n = 0 then [] else 0xdd # replicate (wrap_pad_len n - 1) 0)" if "length k = n"
  using that by (cases "wrap_pad_len n") (simp_all add: padded_key_data_def Let_def take_Cons' min_def)

text \<open>What a receiver with the KEK reads out of the key data field.\<close>

lemma field_inverse:
  assumes "sent_field C heap sm key_info rsc nonce k keyidx encr v = Some (Ok (n, c, iv, ctr))" "send_mic_len sm = 0 \<longrightarrow> CONFIG_FILS C"
  defines "kek \<equiv> ptk_kek (sm_PTK sm)" and "ml \<equiv> send_mic_len sm"
  shows "\<not> encr \<Longrightarrow> c = k"
    "encr \<Longrightarrow> ml = 0 \<Longrightarrow> aes_siv_decrypt kek (length kek) c
        [sent_header sm key_info rsc nonce (length k) keyidx encr v iv @ WPA_PUT_BE16 (of_nat n)] = Ok k"
    "encr \<Longrightarrow> ml \<noteq> 0 \<Longrightarrow> uses_wrap (sm_wpa_key_mgmt sm) v \<Longrightarrow>
      \<exists>pad. is_padding pad \<and> length pad < 8 \<and> aes_unwrap kek (length kek) (n div 8 - 1) c = (0, k @ pad)"
    "encr \<Longrightarrow> ml \<noteq> 0 \<Longrightarrow> \<not> uses_wrap (sm_wpa_key_mgmt sm) v \<Longrightarrow> rc4_skip (iv @ kek) 256 c = Some (Ok k)"
proof -
  note f = assms(1) [unfolded sent_field_def key_data_field_def Let_def]
  show "\<not> encr \<Longrightarrow> c = k" using f by simp
  show "aes_siv_decrypt kek (length kek) c [sent_header sm key_info rsc nonce (length k) keyidx encr v iv @ WPA_PUT_BE16 (of_nat n)] = Ok k"
    if "encr" "ml = 0" using f that assms(2) by (auto simp: or_fail_Ok_iff kek_def ml_def intro: siv_inverse)
  show "\<exists>pad. is_padding pad \<and> length pad < 8 \<and> aes_unwrap kek (length kek) (n div 8 - 1) c = (0, k @ pad)"
    if that: "encr" "ml \<noteq> 0" "uses_wrap (sm_wpa_key_mgmt sm) v"
  proof -
    let ?p = "wrap_pad_len (length k)" let ?r = "length k + ?p + 8"
    have room: "key_room sm v (length k) encr = ?r" using that by (simp add: key_room_def)
    have w: "aes_wrap kek (length kek) ((?r - 8) div 8) (padded_key_data k ?p ?r) = (0, c)" "n = ?r"
      using f that unfolding room by (auto simp: kek_def ml_def split: prod.splits if_splits)
    have m: "8 * ((?r - 8) div 8) = length k + ?p" "n div 8 - 1 = (?r - 8) div 8"
      using wrap_pad_len(1) [of "length k"] w(2) by (simp_all add: mod_0_imp_dvd)
    have l: "8 * ((?r - 8) div 8) \<le> length (padded_key_data k ?p ?r)" by (subst length_padded) (auto simp: m)
    let ?pad = "if ?p = 0 then [] else 0xdd # replicate (?p - 1) (0 :: u8)"
    have "aes_unwrap kek (length kek) (n div 8 - 1) c = (0, k @ ?pad)"
      using wrap_inverse [OF w(1) l] padded_take [OF refl, of k] unfolding m by simp
    moreover have "is_padding ?pad" "length ?pad < 8" using wrap_pad_len(2) [of "length k"] by (auto simp: is_padding_def)
    ultimately show ?thesis by blast
  qed
  show "rc4_skip (iv @ kek) 256 c = Some (Ok k)" if "encr" "ml \<noteq> 0" "\<not> uses_wrap (sm_wpa_key_mgmt sm) v"
  proof -
    have "padded_key_data k 0 (length k) = k" by (simp add: padded_key_data_def)
    moreover have "key_room sm v (length k) encr = length k" using that by (simp add: key_room_def)
    ultimately have "rc4_skip (iv @ kek) 256 k = Some (Ok c)" "length kek = 16"
      using f that by (auto simp: kek_def ml_def get_bytes_def split: if_splits outcome.splits bind_splits)
    then show ?thesis using rc4_skip_inverse [of "iv @ kek" 256 k c] by fastforce
  qed
qed

lemma send_no_heap: "\<not> heap (frame_len sm (send_version sm fv) (length k) encr) \<Longrightarrow>
    send_eapol_key C H heap sm key_info rsc nonce (Some k) keyidx encr fv = Some (Ok (None, sm))"
proof -
  assume h: "\<not> heap (frame_len sm (send_version sm fv) (length k) encr)"
  let ?v = "send_version sm fv"
  define wr where "wr \<longleftrightarrow> uses_wrap (sm_wpa_key_mgmt sm) ?v \<and> encr"
  have "4 + (77 + send_mic_len sm + 2) + (length k + (if wr then (if wr then wrap_pad_len (length k) else 0) + 8 else 0)) +
      (if send_mic_len sm = 0 \<and> encr then 16 else 0) = frame_len sm ?v (length k) encr"
    by (simp add: frame_len_def key_room_def wr_def)
  then show ?thesis using h unfolding send_eapol_key_def Let_def option.case wr_def [symmetric] by (simp only: not_False_eq_True if_True)
qed

end
