(* ===== verification/EapolProps.thy ===== *)
theory EapolProps
  imports EapolKey KeyProps
begin

text \<open>
  Results on EAPOL-Key frames: what \<open>__wpa_send_eapol\<close> sends is well formed, is accepted by \<open>wpa_verify_key_mic\<close> and
  read back by \<open>wpa_parse_kde_ies\<close>; the parser of key data elements on arbitrary bytes.
\<close>

section \<open>Sending succeeds\<close>

lemma field_sent:
  assumes "uses_wrap (sm_wpa_key_mgmt sm) v" "encr" "send_mic_len sm \<noteq> 0" "length (ptk_kek (sm_PTK sm)) \<in> {16, 24, 32}"
    "heap (key_room sm v (length k) encr)"
  shows "sent_field C heap sm key_info rsc nonce k keyidx encr v \<noteq> Some (Ret x)"
proof -
  let ?kek = "ptk_kek (sm_PTK sm)"
  have e: "fst (aes_wrap ?kek (length ?kek) n p) = 0" for n p
    using assms(4) aes_encrypt_init_None [of ?kek "length ?kek"] by (auto simp: aes_wrap_def Let_def split: option.split)
  show ?thesis
    using assms(1-3,5) e by (simp add: sent_field_def key_data_field_def Let_def case_prod_beta)
qed

lemma mic_sent:
  assumes "16 \<le> length key" "v \<in> {2, 3}" "sha1_fits key" "sha1_fits f"
  shows "wpa_eapol_key_mic B H key akm v f \<noteq> Some (Ret x)"
proof -
  have "key \<noteq> []" using assms(1) by auto
  then show ?thesis
    using mic_computed(1) [OF assms(3,4), of v B H akm] mic_computed(2) [OF assms(3,4), of B akm v H] assms(1,2)
    by (auto simp: takes_cmac_def)
qed

lemma fils_wrapped: "uses_wrap WPA_KEY_MGMT_FILS_SHA256 v" "wpa_mic_len WPA_KEY_MGMT_FILS_SHA256 n = 0"
  by (simp_all add: uses_wrap_def wpa_use_aes_key_wrap_def wpa_key_mgmt_sha256_def wpa_mic_len_def akm_defs)

lemma frame_is_sent:
  assumes ok: "send_ok C H sm rsc nonce k fv" and "\<forall>n. heap n" "uses_wrap (sm_wpa_key_mgmt sm) (send_version sm fv)" "encr"
    "send_mic_len sm \<noteq> 0" "send_version sm fv \<in> {2, 3}" "sm_PTK_valid sm" "length (ptk_kek (sm_PTK sm)) \<in> {16, 24, 32}"
  obtains frame sm' where "send_eapol_key C H heap sm key_info rsc nonce (Some k) keyidx encr fv = Some (Ok (Some frame, sm'))"
proof -
  let ?v = "send_version sm fv"
  have heap: "heap (frame_len sm ?v (length k) encr)" using assms(2) by simp
  show ?thesis
  proof (cases rule: send_cases [where heap = heap and key_info = key_info and keyidx = keyidx, OF refl refl refl ok heap refl, case_names none sent])
    case (none sm')
    have "sent_field C heap sm key_info rsc nonce k keyidx encr ?v \<noteq> Some (Ret (- 1))"
      by (rule field_sent) (use assms in auto)
    then obtain f x where f: "length f \<le> 100000"
        "wpa_eapol_key_mic (key_build.truncate C) H (ptk_kck (sm_PTK sm)) (sm_wpa_key_mgmt sm) ?v f = Some (Ret x)"
      using none(3) assms by (elim disjE exE conjE) simp_all
    have "16 \<le> length (ptk_kck (sm_PTK sm))" "length (ptk_kck (sm_PTK sm)) \<le> 32"
      using ok assms(5) kck_16 [of "sm_wpa_key_mgmt sm" "sm_pmk_len sm"] ptk_lens(1) [of "sm_pmk_len sm" "sm_wpa_key_mgmt sm"]
      by (auto simp: send_ok_def)
    then show ?thesis using f mic_sent [of "ptk_kck (sm_PTK sm)" ?v f] assms by (simp add: sha1_fits_def)
  qed (rule that)
qed

lemma be_nat_BE16: "n < 2 ^ 16 \<Longrightarrow> be_nat (WPA_PUT_BE16 (of_nat n)) = n"
  using frame_of_parts(3) [of "replicate 81 0" "[]" 0 n "[]" 0] by (simp add: frame_of_def get_bytes_def byte_simps)

section \<open>Results\<close>

text \<open>
  C20: \<open>__wpa_send_eapol\<close> returns and stays inside the frame it allocates.  When the frame is allocated the replay counter
  moves on by one, and a frame that is sent carries it, has the announced length and ends with the announced key data,
  except that frames encrypted with AES-SIV are longer by the padding and the 8 bytes of a key wrap that is not done: at
  least 8 bytes for FILS with SHA-256.  With memory, a valid PTK, a KEK of an AES key, and HMAC-SHA-1 or CMAC a frame with
  wrapped key data is sent.
\<close>

theorem eapol_key_frame_layout:
  assumes ok: "send_ok C H sm rsc nonce k fv"
  shows "\<exists>r sm'. send_eapol_key C H heap sm key_info rsc nonce (Some k) keyidx encr fv = Some (Ok (r, sm')) \<and>
    (if heap (frame_len sm (send_version sm fv) (length k) encr) then sm_key_replay sm' = next_replay (sm_key_replay sm) else r = None \<and> sm' = sm) \<and>
    (\<forall>frame. r = Some frame \<longrightarrow>
      length frame = frame_len sm (send_version sm fv) (length k) encr \<and> be_nat (get_bytes frame 2 2) = length frame - 4 \<and>
      be_nat (get_bytes frame 9 8) = (be_nat (fst (hd (sm_key_replay sm))) + 1) mod 2 ^ 64 \<and>
      length frame = 83 + send_mic_len sm + be_nat (get_bytes frame (81 + send_mic_len sm) 2) +
        (if encr \<and> send_mic_len sm = 0 then key_room sm (send_version sm fv) (length k) encr - length k else 0) \<and>
      (encr \<and> sm_wpa_key_mgmt sm = WPA_KEY_MGMT_FILS_SHA256 \<longrightarrow> 83 + be_nat (get_bytes frame 81 2) + 8 \<le> length frame)) \<and>
    ((\<forall>n. heap n) \<and> uses_wrap (sm_wpa_key_mgmt sm) (send_version sm fv) \<and> encr \<and> send_mic_len sm \<noteq> 0 \<and> send_version sm fv \<in> {2, 3} \<and>
      sm_PTK_valid sm \<and> length (ptk_kek (sm_PTK sm)) \<in> {16, 24, 32} \<longrightarrow> r \<noteq> None)"
proof (cases "heap (frame_len sm (send_version sm fv) (length k) encr)")
  case False
  then show ?thesis by (auto simp: send_no_heap)
next
  case True
  let ?v = "send_version sm fv" let ?ml = "send_mic_len sm" let ?len = "frame_len sm ?v (length k) encr"
  note facts = send_facts [OF ok]
  show ?thesis
  proof (cases rule: send_cases [where heap = heap and key_info = key_info and keyidx = keyidx, OF refl refl refl ok True refl, case_names none sent])
    case (none sm')
    have "\<not> ((\<forall>n. heap n) \<and> uses_wrap (sm_wpa_key_mgmt sm) ?v \<and> encr \<and> ?ml \<noteq> 0 \<and> ?v \<in> {2, 3} \<and> sm_PTK_valid sm \<and>
        length (ptk_kek (sm_PTK sm)) \<in> {16, 24, 32})"
      using frame_is_sent [OF ok, of heap encr key_info keyidx] none(1) by fastforce
    then show ?thesis using none True by auto
  next
    case (sent n c iv ctr m)
    let ?h = "sent_header sm key_info rsc nonce (length k) keyidx encr ?v iv"
    let ?f = "frame_of ?h m n c ?len"
    note hb = header_bytes [OF ok sent(3) refl, of key_info "length k" keyidx encr ?v]
    have h: "length ?h = 81" by (rule facts(2) [OF sent(3)])
    have le: "?len = 83 + ?ml + n + (if encr \<and> ?ml = 0 then key_room sm ?v (length k) encr - length k else 0)"
      using sent(4) by (auto simp: frame_len_def key_room_def)
    have n: "n < 2 ^ 16" using sent(4) facts(4) facts(7) [of ?v encr] ok by (auto simp: send_ok_def split: if_splits)
    have l: "length ?f = ?len" by (rule length_frame_of) (use h le sent(2,5) in simp_all)
    have "(if ?ml = 0 \<and> encr then 16 else 0) \<le> (16 :: nat)" by simp
    then have len: "?len - 4 < 2 ^ 16" using facts(7) [of ?v encr] facts(8) unfolding frame_len_def by simp
    have pre: "get_bytes ?f i j = get_bytes ?h i j" if "i + j \<le> 81" for i j
      using that h by (simp add: frame_of_def get_bytes_def)
    have c: "length (fst (hd (sm_key_replay sm))) = 8" using ok by (simp add: send_ok_def)
    have room: "8 + length k \<le> key_room sm ?v (length k) encr" if "encr" "sm_wpa_key_mgmt sm = WPA_KEY_MGMT_FILS_SHA256"
      using that fils_wrapped(1) by (simp add: key_room_def)
    show ?thesis
      using sent(6) True l le pre [of 2 2] pre [of 9 8] hb(2,4) be_nat_BE16 [OF len] frame_of_parts(3) [OF h sent(5) n, of c ?len]
        inc_byte_array_nat [of "fst (hd (sm_key_replay sm))"] c room fils_wrapped(2)
      by auto
  qed
qed

text \<open>A group key message under PSK: HMAC-SHA-1 and the key wrap.\<close>

definition sample_eapol_build :: eapol_build where
  "sample_eapol_build = key_build.extend sample_key_build (eapol_build.fields False)"

definition sample_sm :: eapol_key_sm where
  "sample_sm = \<lparr>sm_wpa_key_mgmt = WPA_KEY_MGMT_PSK, sm_pmk_len = 32, sm_pairwise = WPA_CIPHER_CCMP, sm_wpa = WPA_VERSION_WPA2,
    sm_PTK = \<lparr>ptk_kck = replicate 16 1, ptk_kek = replicate 16 2, ptk_tk = replicate 16 3, ptk_kdk = [], ptk_len = 48\<rparr>,
    sm_PTK_valid = True, sm_key_replay = replicate 4 ([255, 255, 255, 255, 255, 255, 255, 255], False), sm_group_counter = replicate 32 0,
    sm_eapol_version = 2, sm_wpa_group = WPA_CIPHER_CCMP\<rparr>"

definition sample_kdes :: "(kde_member \<times> bytes) list" where
  "sample_kdes = [(K_gtk, [1, 0, 7, 8, 9]), (K_igtk, [4, 0, 0])]"

lemma sample_ok:
  "send_ok sample_eapol_build no_libs sample_sm None None (concat (map kde_enc sample_kdes)) 0"
  "send_version sample_sm 0 = 2" "send_mic_len sample_sm = 16" "uses_wrap (sm_wpa_key_mgmt sample_sm) 2"
  "length (ptk_kek (sm_PTK sample_sm)) = 16" "sm_PTK_valid sample_sm" "\<forall>i\<in>set sample_kdes. kde_ok i"
  by (simp_all add: send_ok_def sample_sm_def sample_kdes_def libs_ok_def no_libs_def wpa_kck_len_def wpa_mic_len_def akm_defs
      kde_enc_def kde_ok_def wpa_add_kde_def byte_simps wpa_key_mgmt_fils_def key_descr_version_def wpa_use_akm_defined_def wpa_use_cmac_def
      wpa_key_mgmt_sae_def wpa_key_mgmt_suite_b_def wpa_key_mgmt_ft_def WPA_KEY_MGMT_FT_def wpa_key_mgmt_sha256_def cipher_defs uses_wrap_def)

theorem eapol_key_frame_layout_witness:
  "\<exists>frame sm'. send_eapol_key sample_eapol_build no_libs (\<lambda>_. True) sample_sm 0x1c8 None None (Some (concat (map kde_enc sample_kdes))) 0 True 0 =
      Some (Ok (Some frame, sm')) \<and> length frame = 131 \<and> be_nat (get_bytes frame 9 8) = 0"
proof -
  let ?k = "concat (map kde_enc sample_kdes)"
  have k: "length ?k = 20" by (simp add: sample_kdes_def kde_enc_def wpa_add_kde_def byte_simps)
  have len: "frame_len sample_sm 2 20 True = 131" using sample_ok(3,4) by (simp add: frame_len_def key_room_def wrap_pad_len_def)
  have c: "be_nat (fst (hd (sm_key_replay sample_sm))) = 2 ^ 64 - 1" by (simp add: sample_sm_def be_nat_def)
  obtain r sm' where r: "send_eapol_key sample_eapol_build no_libs (\<lambda>_. True) sample_sm 0x1c8 None None (Some ?k) 0 True 0 = Some (Ok (r, sm'))"
      "r \<noteq> None" "\<And>frame. r = Some frame \<Longrightarrow> length frame = 131 \<and> be_nat (get_bytes frame 9 8) = 0"
    using eapol_key_frame_layout [where heap = "\<lambda>_. True" and key_info = "0x1c8" and keyidx = 0 and encr = True, OF sample_ok(1)]
      sample_ok(2-6) k len c by auto
  then show ?thesis by auto
qed

text \<open>
  C19: What \<open>__wpa_send_eapol\<close> sends is read back: \<open>wpa_verify_key_mic\<close> accepts a frame with a MIC under the same PTK, and
  with the KEK the key data of the frame are the ones sent, for plain key data, AES-SIV, RC4 and the key wrap; after the
  key wrap a padding follows which \<open>wpa_parse_kde_ies\<close> skips, so that it finds exactly the elements that
  \<open>wpa_add_kde\<close> has built, the last one of every kind.
\<close>

theorem eapol_key_roundtrip:
  assumes ok: "send_ok C H sm rsc nonce k fv" "fv < 8" "key_info AND 7 = 0"
    and send: "send_eapol_key C H heap sm key_info rsc nonce (Some k) keyidx encr fv = Some (Ok (Some frame, sm'))"
  shows "let ml = send_mic_len sm; wrapped = uses_wrap (sm_wpa_key_mgmt sm) (send_version sm fv); kek = ptk_kek (sm_PTK sm);
      n = be_nat (get_bytes frame (81 + ml) 2); data = get_bytes frame (83 + ml) n
    in (key_info AND WPA_KEY_INFO_MIC \<noteq> 0 \<longrightarrow>
          wpa_verify_key_mic C H (sm_wpa_key_mgmt sm) (sm_pmk_len sm) (sm_PTK sm) frame = Some (Ok 0)) \<and>
      (\<not> encr \<longrightarrow> data = k) \<and>
      (encr \<and> ml = 0 \<longrightarrow> aes_siv_decrypt kek (length kek) data [take 83 frame] = Ok k) \<and>
      (encr \<and> ml \<noteq> 0 \<and> \<not> wrapped \<longrightarrow> rc4_skip (get_bytes frame 49 16 @ kek) 256 data = Some (Ok k)) \<and>
      (encr \<and> ml \<noteq> 0 \<and> wrapped \<longrightarrow> (\<exists>pad. length pad < 8 \<and> aes_unwrap kek (length kek) (n div 8 - 1) data = (0, k @ pad) \<and>
        (\<forall>items. (\<forall>i\<in>set items. kde_ok i) \<and> k = concat (map kde_enc items) \<longrightarrow>
          (\<exists>ie. wpa_parse_kde_ies (k @ pad) = Some (0, ie) \<and> kde_bytes (k @ pad) ie = map_of (rev items)))))"
proof (cases "heap (frame_len sm (send_version sm fv) (length k) encr)")
  case False
  then show ?thesis using send by (simp add: send_no_heap)
next
  case True
  let ?v = "send_version sm fv" let ?ml = "send_mic_len sm" let ?len = "frame_len sm ?v (length k) encr"
  note facts = send_facts [OF ok(1)]
  have v: "?v < 8" using ok(2) by (simp add: key_descr_version_def)
  have mic: "key_info_field sm key_info ?v keyidx encr AND WPA_KEY_INFO_MIC \<noteq> 0" if "key_info AND WPA_KEY_INFO_MIC \<noteq> 0"
    using that by (auto simp: key_info_field_def Let_def bit.conj_disj_distrib2 or_eq_0_iff)
  show ?thesis
  proof (cases rule: send_cases [where heap = heap and key_info = key_info and keyidx = keyidx, OF refl refl refl ok(1) True refl,
        case_names none sent])
    case (none sm')
    then show ?thesis using send by simp
  next
    case (sent n c iv ctr m)
    let ?h = "sent_header sm key_info rsc nonce (length k) keyidx encr ?v iv"
    note hb = header_bytes [OF ok(1) sent(3) refl, of key_info "length k" keyidx encr ?v]
    have h: "length ?h = 81" by (rule facts(2) [OF sent(3)])
    have f: "frame = frame_of ?h m n c ?len" using sent(6) send by simp
    have n: "n < 2 ^ 16" using sent(4) facts(4) facts(7) [of ?v encr] ok by (auto simp: send_ok_def split: if_splits)
    have le: "83 + ?ml + n \<le> ?len" using sent(4) by (auto simp: frame_len_def key_room_def)
    note parts = frame_of_parts [OF h sent(5) n, of c ?len, folded f]
    note inv = field_inverse [OF sent(1) facts(1)]
    have iv: "get_bytes frame 49 16 = iv" using hb(3) h by (simp add: f frame_of_def get_bytes_def)
    have hd83: "take 83 frame = ?h @ WPA_PUT_BE16 (of_nat n)" if "?ml = 0"
      using that h sent(5) by (simp add: f frame_of_def WPA_PUT_BE16_def)
    have ver: "wpa_verify_key_mic C H (sm_wpa_key_mgmt sm) (sm_pmk_len sm) (sm_PTK sm) frame = Some (Ok 0)"
      if has_mic: "key_info AND WPA_KEY_INFO_MIC \<noteq> 0"
    proof -
      obtain mic where m: "length mic \<le> ?ml" "m = zmic ?ml mic" "wpa_eapol_key_mic (key_build.truncate C) H (ptk_kck (sm_PTK sm))
          (sm_wpa_key_mgmt sm) ?v (frame_of ?h (zmic ?ml []) n c ?len) = Some (Ok mic)"
        using sent(7) [OF mic [OF has_mic]] by blast
      show ?thesis unfolding f m(2)
        by (rule verify_sent [OF h sent(2) le refl m(1) _ m(3)]) (simp only: hb(1) info_version [OF ok(3) v])
    qed
    have kdes: "\<exists>ie. wpa_parse_kde_ies (k @ pad) = Some (0, ie) \<and> kde_bytes (k @ pad) ie = map_of (rev items)"
      if "is_padding pad" "\<forall>i\<in>set items. kde_ok i" "k = concat (map kde_enc items)" for pad items
      using parse_kdes [OF that(2,1) refl] that(3) by metis
    have wrap: "\<exists>pad. length pad < 8 \<and> aes_unwrap (ptk_kek (sm_PTK sm)) (length (ptk_kek (sm_PTK sm))) (n div 8 - 1) c = (0, k @ pad) \<and>
        (\<forall>items. (\<forall>i\<in>set items. kde_ok i) \<and> k = concat (map kde_enc items) \<longrightarrow>
          (\<exists>ie. wpa_parse_kde_ies (k @ pad) = Some (0, ie) \<and> kde_bytes (k @ pad) ie = map_of (rev items)))"
      if "encr" "?ml \<noteq> 0" "uses_wrap (sm_wpa_key_mgmt sm) ?v"
      using inv(3) [OF that] kdes by blast
    show ?thesis
      unfolding Let_def parts(3) parts(4) [OF sent(2)] iv
      using ver inv(1,2,4) hd83 wrap by auto
  qed
qed

theorem eapol_key_roundtrip_witness:
  "\<exists>frame sm' pad ie. send_eapol_key sample_eapol_build no_libs (\<lambda>_. True) sample_sm 0x1c8 None None
      (Some (concat (map kde_enc sample_kdes))) 0 True 0 = Some (Ok (Some frame, sm')) \<and>
    wpa_verify_key_mic sample_eapol_build no_libs WPA_KEY_MGMT_PSK 32 (sm_PTK sample_sm) frame = Some (Ok 0) \<and>
    aes_unwrap (replicate 16 2) 16 (be_nat (get_bytes frame 97 2) div 8 - 1) (get_bytes frame 99 (be_nat (get_bytes frame 97 2))) =
      (0, concat (map kde_enc sample_kdes) @ pad) \<and>
    wpa_parse_kde_ies (concat (map kde_enc sample_kdes) @ pad) = Some (0, ie) \<and>
    kde_bytes (concat (map kde_enc sample_kdes) @ pad) ie K_gtk = Some [1, 0, 7, 8, 9]"
proof -
  let ?k = "concat (map kde_enc sample_kdes)"
  obtain frame sm' where f: "send_eapol_key sample_eapol_build no_libs (\<lambda>_. True) sample_sm 0x1c8 None None (Some ?k) 0 True 0 =
      Some (Ok (Some frame, sm'))"
    by (rule frame_is_sent [OF sample_ok(1), of "\<lambda>_. True" True]) (use sample_ok(2-6) in auto)
  have i: "(0x1c8 :: u32) AND 7 = 0" "(0x1c8 :: u32) AND WPA_KEY_INFO_MIC \<noteq> 0" by (simp_all add: WPA_KEY_INFO_MIC_def)
  have s: "sm_wpa_key_mgmt sample_sm = WPA_KEY_MGMT_PSK" "sm_pmk_len sample_sm = 32" "ptk_kek (sm_PTK sample_sm) = replicate 16 2"
    by (simp_all add: sample_sm_def)
  have g: "map_of (rev sample_kdes) K_gtk = Some [1, 0, 7, 8, 9]" by (simp add: sample_kdes_def)
  have "\<exists>pad. aes_unwrap (replicate 16 2) 16 (be_nat (get_bytes frame 97 2) div 8 - 1) (get_bytes frame 99 (be_nat (get_bytes frame 97 2))) =
      (0, ?k @ pad) \<and> (\<exists>ie. wpa_parse_kde_ies (?k @ pad) = Some (0, ie) \<and> kde_bytes (?k @ pad) ie = map_of (rev sample_kdes))"
    "wpa_verify_key_mic sample_eapol_build no_libs WPA_KEY_MGMT_PSK 32 (sm_PTK sample_sm) frame = Some (Ok 0)"
    using eapol_key_roundtrip [OF sample_ok(1) _ i(1) f] sample_ok(2-7) i(2) s by (auto simp: Let_def simp del: replicate.simps)
  then show ?thesis using f g by metis
qed

text \<open>
  C21: On any bytes \<open>wpa_parse_kde_ies\<close> returns 0 or -1 without a read behind its buffer, and everything it points to lies
  inside; on elements built by \<open>wpa_add_kde\<close>, with the padding of a key wrap or without, it returns 0 and finds exactly
  these elements, the last one of every kind.
\<close>

theorem kde_parse_correct:
  "(\<exists>ret ie. wpa_parse_kde_ies buf = Some (ret, ie) \<and> ret \<in> {0, - 1} \<and> kde_inside buf ie) \<and>
   ((\<forall>i\<in>set items. kde_ok i) \<and> is_padding pad \<and> buf = concat (map kde_enc items) @ pad \<longrightarrow>
     (\<exists>ie. wpa_parse_kde_ies buf = Some (0, ie) \<and> kde_bytes buf ie = map_of (rev items)))"
  using parse_kde_ies_inside [of buf] parse_kdes [of items pad buf] by metis

theorem kde_parse_correct_witness:
  "\<exists>ie. wpa_parse_kde_ies (concat (map kde_enc sample_kdes) @ [0xdd, 0, 0]) = Some (0, ie) \<and>
     kde_bytes (concat (map kde_enc sample_kdes) @ [0xdd, 0, 0]) ie K_igtk = Some [4, 0, 0]"
proof -
  have "is_padding [0xdd, 0, 0]" by (auto simp: is_padding_def intro: exI [of _ 2] simp: numeral_eq_Suc)
  then show ?thesis
    using kde_parse_correct [of "concat (map kde_enc sample_kdes) @ [0xdd, 0, 0]" sample_kdes "[0xdd, 0, 0]"] sample_ok(7)
    by (auto simp: sample_kdes_def)
qed

end
