(* ===== verification/HtbTree.thy ===== *)
theory HtbTree
  imports Prelude "HOL-Library.Tree"
begin

text \<open>
  The search trees of \<open>sch_htb.c\<close>.  A class hangs in kernel red-black trees by embedded nodes; the
  qdisc walks such a tree from the root, goes right when a test holds and left otherwise, and links the
  node where it falls out (\<open>htb_add_to_id_tree\<close>, \<open>htb_add_to_wait_tree\<close>), or searches it
  (\<open>htb_id_find_next_upper\<close>).  The walks are defined on binary trees; the rebalancing
  \<open>rb_insert_color\<close> of the kernel is a parameter that keeps the in-order sequence.  The rest of the
  model keeps the in-order sequence only; the lemmas here are the refinement between the two.
  The loops \<open>while (mask) { prio = ffz(~mask); mask &= ~(1 << prio); ... }\<close> over a priority mask
  are \<open>for_prios\<close>.
\<close>

section \<open>Walking a tree\<close>

fun rb_descend :: "('a \<Rightarrow> bool) \<Rightarrow> 'a \<Rightarrow> 'a tree \<Rightarrow> 'a tree" where
  "rb_descend goes c Leaf = Node Leaf c Leaf"
| "rb_descend goes c (Node l d r) =
    (if goes d then Node l d (rb_descend goes c r) else Node (rb_descend goes c l) d r)"

definition link_before :: "('a \<Rightarrow> bool) \<Rightarrow> 'a \<Rightarrow> 'a list \<Rightarrow> 'a list" where
  "link_before goes c xs = takeWhile goes xs @ c # dropWhile goes xs"

lemma link_before_simps [simp]:
  "link_before goes c [] = [c]"
  "link_before goes c (d # xs) = (if goes d then d # link_before goes c xs else c # d # xs)"
  by (simp_all add: link_before_def)

lemma set_link_before [simp]: "set (link_before goes c xs) = insert c (set xs)"
  by (induction xs) auto

lemma link_before_not_Nil [simp]: "link_before goes c xs \<noteq> []"
  by (cases xs) simp_all

lemma distinct_link_before [simp]: "distinct (link_before goes c xs) = (c \<notin> set xs \<and> distinct xs)"
  by (induction xs) auto

lemma link_before_append:
  "link_before goes c (xs @ ys) = (if \<forall>d\<in>set xs. goes d then xs @ link_before goes c ys else link_before goes c xs @ ys)"
  by (induction xs) auto

lemma link_before_all: "\<forall>d\<in>set xs. goes d \<Longrightarrow> link_before goes c xs = xs @ [c]"
  by (induction xs) auto

lemma link_before_cong: "(\<And>d. d \<in> set xs \<Longrightarrow> goes d = goes' d) \<Longrightarrow> link_before goes c xs = link_before goes' c xs"
  by (induction xs) auto

lemma inorder_rb_descend:
  assumes "sorted_wrt (\<lambda>a b. goes b \<longrightarrow> goes a) (inorder t)"
  shows "inorder (rb_descend goes c t) = link_before goes c (inorder t)"
  using assms
proof (induction t)
  case (Node l d r)
  then show ?case by (auto simp: link_before_append link_before_all sorted_wrt_append)
qed simp

fun rb_search :: "('a \<Rightarrow> 'k::linorder) \<Rightarrow> 'k \<Rightarrow> 'a option \<Rightarrow> 'a tree \<Rightarrow> 'a option" where
  "rb_search key k best Leaf = best"
| "rb_search key k best (Node l d r) =
    (if key d < k then rb_search key k best r
     else if k < key d then rb_search key k (Some d) l
     else Some d)"

definition first_upper :: "('a \<Rightarrow> 'k::linorder) \<Rightarrow> 'k \<Rightarrow> 'a list \<Rightarrow> 'a option" where
  "first_upper key k xs = find (\<lambda>d. k \<le> key d) xs"

lemma find_append: "find P (xs @ ys) = (case find P xs of None \<Rightarrow> find P ys | Some x \<Rightarrow> Some x)"
  by (induction xs) auto

lemma rb_search_inorder:
  assumes "sorted_wrt (\<lambda>a b. key a < key b) (inorder t)"
  shows "rb_search key k best t = (case first_upper key k (inorder t) of None \<Rightarrow> best | Some d \<Rightarrow> Some d)"
  using assms
proof (induction t arbitrary: best)
  case (Node l d r)
  have l: "find (\<lambda>d. k \<le> key d) (inorder l) = None" if "key d \<le> k"
    using Node.prems that by (auto simp: find_None_iff sorted_wrt_append not_le dest: order.strict_trans1)
  show ?case
    using Node l by (auto simp: first_upper_def find_append sorted_wrt_append not_less split: option.splits)
qed (simp add: first_upper_def)

lemma first_upper_in: "first_upper key k xs = Some d \<Longrightarrow> d \<in> set xs \<and> k \<le> key d"
  by (auto simp: first_upper_def find_Some_iff)

section \<open>Trees ordered by a key of the class\<close>

text \<open>
  What both kinds of tree promise: the test of the walk agrees with the order of the tree, so that
  linking keeps the order.  The id trees and the wait queues are the two instances.
\<close>

locale walk =
  fixes goes :: "'a \<Rightarrow> 'a \<Rightarrow> bool" and before :: "'a \<Rightarrow> 'a \<Rightarrow> bool"
  assumes right_before: "goes d c \<Longrightarrow> before d c"
    and left_before: "\<not> goes d c \<Longrightarrow> before c d"
    and before_trans: "before a b \<Longrightarrow> before b c \<Longrightarrow> before a c"
    and right_down: "before a b \<Longrightarrow> goes b c \<Longrightarrow> goes a c"
begin

lemma sorted_link: "sorted_wrt before xs \<Longrightarrow> sorted_wrt before (link_before (\<lambda>d. goes d c) c xs)"
proof (induction xs)
  case (Cons d xs)
  show ?case
  proof (cases "goes d c")
    case True
    then show ?thesis using Cons right_before by simp
  next
    case False
    then have "before c d" by (rule left_before)
    then show ?thesis using False Cons.prems before_trans by auto
  qed
qed simp

lemma walk_sorted: "sorted_wrt before xs \<Longrightarrow> sorted_wrt (\<lambda>a b. goes b c \<longrightarrow> goes a c) xs"
  using right_down by (blast intro: sorted_wrt_mono_rel [rotated])

lemma descend_link:
  "sorted_wrt before (inorder t) \<Longrightarrow> inorder (rb_descend (\<lambda>d. goes d c) c t) = link_before (\<lambda>d. goes d c) c (inorder t)"
  by (rule inorder_rb_descend) (rule walk_sorted)

lemma sorted_remove1: "sorted_wrt before xs \<Longrightarrow> sorted_wrt before (remove1 c xs)"
proof (induction xs)
  case (Cons d xs)
  then show ?case using set_remove1_subset [of c xs] by auto
qed simp

end

interpretation id_tree: walk "\<lambda>d c. key d < (key c :: 'k::linorder)" "\<lambda>d c. key d \<le> key c"
  by unfold_locales auto

interpretation wait_tree: walk "\<lambda>d c. key d \<le> (key c :: 'k::linorder)" "\<lambda>d c. key d \<le> key c"
  by unfold_locales auto

section \<open>Successors\<close>

fun rb_next :: "'a list \<Rightarrow> 'a \<Rightarrow> 'a option" where
  "rb_next (c # d # xs) x = (if x = c then Some d else rb_next (d # xs) x)"
| "rb_next _ x = None"

lemma rb_next_in: "rb_next xs x = Some y \<Longrightarrow> y \<in> set xs"
  by (induction xs x rule: rb_next.induct) (auto split: if_splits)

lemma rb_next_neq: "distinct xs \<Longrightarrow> rb_next xs x = Some y \<Longrightarrow> y \<noteq> x"
  by (induction xs x rule: rb_next.induct) (auto split: if_splits dest: rb_next_in)

section \<open>Priority masks\<close>

definition ffz :: "u32 \<Rightarrow> nat" where
  "ffz w = length (takeWhile (bit w) [0..<32])"

definition prio_bit :: "nat \<Rightarrow> u32" where
  "prio_bit r = push_bit r 1"

definition prios_of :: "u32 \<Rightarrow> nat list" where
  "prios_of m = filter (bit m) [0..<32]"

lemma bit_prio_bit [simp]: "bit (prio_bit r) i \<longleftrightarrow> i = r \<and> r < 32"
  by (auto simp: prio_bit_def bit_simps)

lemma set_prios_of [simp]: "set (prios_of m) = {r. bit m r}"
  using bit_imp_le_length [of m] by (fastforce simp: prios_of_def)

lemma distinct_prios_of [simp]: "distinct (prios_of m)"
  by (simp add: prios_of_def)

lemma mask_zero_iff: "m = 0 \<longleftrightarrow> (\<forall>r. \<not> bit (m :: u32) r)"
  by (metis bit_0_eq bot_apply bot_bool_def bit_eqI)

lemma ffz_not:
  assumes "m \<noteq> 0"
  shows "ffz (NOT m) < 32" "bit m (ffz (NOT m))" "i < ffz (NOT m) \<Longrightarrow> \<not> bit m i"
proof -
  let ?P = "bit (NOT m)"
  obtain k where k: "bit m k" using assms by (auto simp: mask_zero_iff)
  then have k32: "k < 32" using bit_imp_le_length by fastforce
  have "\<not> ?P k" using k by (simp add: bit_simps)
  then have ex: "\<exists>x \<in> set [0..<32]. \<not> ?P x" using k32 by auto
  show lt: "ffz (NOT m) < 32"
  proof (rule ccontr)
    assume "\<not> ffz (NOT m) < 32"
    then have "takeWhile ?P [0..<32] = [0..<32]"
      by (metis ffz_def length_takeWhile_le le_antisym length_upt diff_zero linorder_not_less takeWhile_eq_take take_all)
    then show False using ex by (metis takeWhile_eq_all_conv)
  qed
  have "\<not> ?P ([0..<32] ! ffz (NOT m))"
    unfolding ffz_def by (rule nth_length_takeWhile) (use lt in \<open>simp add: ffz_def\<close>)
  then show "bit m (ffz (NOT m))" using lt by (simp add: bit_simps)
  show "\<not> bit m i" if "i < ffz (NOT m)"
  proof -
    have "takeWhile ?P [0..<32] ! i \<in> set (takeWhile ?P [0..<32])" using that by (auto simp: ffz_def)
    moreover have "takeWhile ?P [0..<32] ! i = i" using that lt by (simp add: takeWhile_nth ffz_def)
    ultimately have "?P i" by (metis set_takeWhileD)
    then show ?thesis by (simp add: bit_simps)
  qed
qed

lemma bit_clear [simp]: "bit (m AND NOT (prio_bit r)) i \<longleftrightarrow> bit (m :: u32) i \<and> i \<noteq> r"
  using bit_imp_le_length [of m i] by (auto simp: bit_simps)

lemma prios_of_step:
  assumes "m \<noteq> 0"
  shows "prios_of m = ffz (NOT m) # prios_of (m AND NOT (prio_bit (ffz (NOT m))))"
proof -
  let ?r = "ffz (NOT m)"
  have split: "[0..<32] = [0..<?r] @ ?r # [Suc ?r..<32]"
    using ffz_not(1) [OF assms] upt_add_eq_append [of 0 ?r "32 - ?r"] by (simp add: upt_conv_Cons)
  have no: "filter (bit m) [0..<?r] = []" "filter (\<lambda>i. bit m i \<and> i \<noteq> ?r) [0..<?r] = []"
    using ffz_not(3) [OF assms] by (auto simp: filter_empty_conv)
  have eq: "filter (bit m) [Suc ?r..<32] = filter (\<lambda>i. bit m i \<and> i \<noteq> ?r) [Suc ?r..<32]"
    by (rule filter_cong) auto
  have b: "bit (m AND NOT (prio_bit ?r)) = (\<lambda>i. bit m i \<and> i \<noteq> ?r)" by (rule ext) simp
  have "filter (bit m) [0..<32] = ?r # filter (bit m) [Suc ?r..<32]"
    by (subst split) (simp only: filter_append filter.simps no ffz_not(2) [OF assms] append_Nil if_True)
  moreover have "filter (\<lambda>i. bit m i \<and> i \<noteq> ?r) [0..<32] = filter (\<lambda>i. bit m i \<and> i \<noteq> ?r) [Suc ?r..<32]"
    by (subst split) (simp only: filter_append filter.simps no append_Nil, simp)
  ultimately show ?thesis unfolding prios_of_def b eq by simp
qed

function for_prios :: "u32 \<Rightarrow> (nat \<Rightarrow> 's \<Rightarrow> 's) \<Rightarrow> 's \<Rightarrow> 's" where
  "for_prios m f s =
    (if m = 0 then s
     else for_prios (m AND NOT (prio_bit (ffz (NOT m)))) f (f (ffz (NOT m)) s))"
  by pat_completeness auto
termination
proof (relation "measure (\<lambda>(m, f, s). length (prios_of m))")
  show "((m AND NOT (prio_bit (ffz (NOT m))), f, f (ffz (NOT m)) s), m, f, s) \<in> measure (\<lambda>(m, f, s). length (prios_of m))"
    if "m \<noteq> 0" for m and f :: "nat \<Rightarrow> 's \<Rightarrow> 's" and s
    using prios_of_step [OF that] by simp
qed simp

declare for_prios.simps [simp del]

lemma for_prios_fold: "for_prios m f s = fold f (prios_of m) s"
proof (induction m f s rule: for_prios.induct)
  case (1 m f s)
  show ?case
  proof (cases "m = 0")
    case True
    then show ?thesis by (subst for_prios.simps) (simp add: prios_of_def)
  next
    case False
    then have "for_prios m f s = fold f (prios_of (m AND NOT (prio_bit (ffz (NOT m))))) (f (ffz (NOT m)) s)"
      using 1 by (subst for_prios.simps) simp
    also have "\<dots> = fold f (prios_of m) s"
      using False by (subst (2) prios_of_step) simp_all
    finally show ?thesis .
  qed
qed

end
