(* ===== verification/HtbClass.thy ===== *)
theory HtbClass
  imports HtbTree
begin

text \<open>
  Classes of the hierarchical token bucket scheduler \<open>util/sch_htb-ofbuf/sch_htb.c\<close>: the records of
  \<open>struct htb_class\<close> and \<open>struct htb_sched\<close>, feed trees, rows and wait queues, the mode of a class,
  the token accounting and the event queue.  A class pointer is a natural number, memory is the field
  \<open>cls\<close>; the search trees are their in-order lists (see \<open>HtbTree\<close>); the two variants of the union
  \<open>un\<close> are separate fields, used at level 0 and above.  The inner qdisc of a leaf has the type
  \<open>'q\<close>; what the kernel supplies is collected in \<open>htb_env\<close>.  \<open>long\<close> values are integers.
\<close>

section \<open>State\<close>

abbreviation TC_HTB_NUMPRIO :: nat where "TC_HTB_NUMPRIO \<equiv> 8"
abbreviation TC_HTB_MAXDEPTH :: nat where "TC_HTB_MAXDEPTH \<equiv> 8"

type_synonym cid = nat

datatype htb_cmode = HTB_CANT_SEND | HTB_MAY_BORROW | HTB_CAN_SEND

text \<open>The values of the enumeration order the modes.\<close>

fun cmode_val :: "htb_cmode \<Rightarrow> nat" where
  "cmode_val HTB_CANT_SEND = 0"
| "cmode_val HTB_MAY_BORROW = 1"
| "cmode_val HTB_CAN_SEND = 2"

instantiation htb_cmode :: linorder
begin

definition less_eq_htb_cmode :: "htb_cmode \<Rightarrow> htb_cmode \<Rightarrow> bool" where
  "less_eq_htb_cmode a b \<longleftrightarrow> cmode_val a \<le> cmode_val b"

definition less_htb_cmode :: "htb_cmode \<Rightarrow> htb_cmode \<Rightarrow> bool" where
  "less_htb_cmode a b \<longleftrightarrow> cmode_val a < cmode_val b"

instance
proof
  show "a \<le> b \<Longrightarrow> b \<le> a \<Longrightarrow> a = b" for a b :: htb_cmode
    by (cases a; cases b) (simp_all add: less_eq_htb_cmode_def)
qed (auto simp: less_eq_htb_cmode_def less_htb_cmode_def)

end

record skb =
  skb_id :: nat
  priority :: u32
  pkt_len :: int

record 'q htb_class =
  classid :: u32
  parent :: "cid option"
  level :: nat
  children :: nat
  refcnt :: int
  prio :: int
  quantum :: int
  leaf_q :: 'q
  deficit :: "nat \<Rightarrow> int"
  feed :: "nat \<Rightarrow> cid list"
  iptr :: "nat \<Rightarrow> cid option"
  last_ptr_id :: "nat \<Rightarrow> u32"
  node :: "nat \<Rightarrow> bool"
  pq_node :: bool
  pq_key :: int
  prio_activity :: u32
  cmode :: htb_cmode
  cfilter_list :: "nat option"
  filter_cnt :: int
  rate :: "nat option"
  ceil :: "nat option"
  buffer :: int
  cbuffer :: int
  mbuffer :: int
  tokens :: int
  ctokens :: int
  t_c :: int
  bpackets :: nat
  bbytes :: int
  xlends :: nat
  xborrows :: nat

record 'q htb_sched =
  clhash :: "cid list"
  cls :: "cid \<Rightarrow> 'q htb_class"
  drops :: "nat \<Rightarrow> cid list"
  row :: "nat \<Rightarrow> nat \<Rightarrow> cid list"
  row_mask :: "nat \<Rightarrow> u32"
  rptr :: "nat \<Rightarrow> nat \<Rightarrow> cid option"
  rlast_ptr_id :: "nat \<Rightarrow> nat \<Rightarrow> u32"
  wait_pq :: "nat \<Rightarrow> cid list"
  near_ev_cache :: "nat \<Rightarrow> int"
  defcls :: u32
  filter_list :: "nat option"
  rate2quantum :: int
  now :: int
  direct_queue :: "skb list"
  direct_qlen :: int
  direct_pkts :: int
  ofbuf :: "skb list"
  ofbuf_queued :: int
  warned :: bool
  handle :: u32
  qlen :: int
  qdrops :: nat
  overlimits :: nat
  skb_refs :: "nat \<Rightarrow> int"
  faults :: nat

record 'q htb_env =
  htb_hysteresis :: bool
  qdisc_l2t :: "nat option \<Rightarrow> int \<Rightarrow> int"
  psched_tdiff_bounded :: "int \<Rightarrow> int \<Rightarrow> int \<Rightarrow> int"
  PSCHED_TICKS_PER_SEC :: int
  leaf_enqueue :: "skb \<Rightarrow> 'q \<Rightarrow> int \<times> 'q"
  leaf_dequeue :: "'q \<Rightarrow> skb option \<times> 'q"
  leaf_drop :: "'q \<Rightarrow> nat \<times> 'q"
  leaf_reset :: "'q \<Rightarrow> 'q"
  leaf_qlen :: "'q \<Rightarrow> nat"
  tc_classify :: "skb \<Rightarrow> nat \<Rightarrow> int \<times> cid option \<times> u32"
  notifies :: "nat \<Rightarrow> bool"

definition upd :: "cid \<Rightarrow> ('q htb_class \<Rightarrow> 'q htb_class) \<Rightarrow> 'q htb_sched \<Rightarrow> 'q htb_sched" where
  "upd c f q = q\<lparr>cls := (cls q)(c := f (cls q c))\<rparr>"

text \<open>
  \<open>faults\<close> counts what must not happen: a warning of \<open>htb_safe_rb_erase\<close>, and in \<open>HtbQdisc\<close> a tree that is
  walked although it is empty, a step from a null pointer and an overrun of the search stack.
\<close>

definition fault :: "'q htb_sched \<Rightarrow> 'q htb_sched" where
  "fault q = q\<lparr>faults := Suc (faults q)\<rparr>"

definition htb_find :: "u32 \<Rightarrow> 'q htb_sched \<Rightarrow> cid option" where
  "htb_find h q = find (\<lambda>c. classid (cls q c) = h) (clhash q)"

section \<open>Trees of classes\<close>

definition htb_add_to_id_tree :: "(cid \<Rightarrow> u32) \<Rightarrow> cid \<Rightarrow> cid list \<Rightarrow> cid list" where
  "htb_add_to_id_tree idof c xs = link_before (\<lambda>d. idof d < idof c) c xs"

definition ids :: "'q htb_sched \<Rightarrow> cid \<Rightarrow> u32" where
  "ids q c = classid (cls q c)"

definition keys :: "'q htb_sched \<Rightarrow> cid \<Rightarrow> int" where
  "keys q c = pq_key (cls q c)"

definition add_to_feed :: "cid \<Rightarrow> cid \<Rightarrow> nat \<Rightarrow> 'q htb_sched \<Rightarrow> 'q htb_sched" where
  "add_to_feed p c r q =
    upd c (\<lambda>x. x\<lparr>node := (node x)(r := True)\<rparr>)
      (upd p (\<lambda>x. x\<lparr>feed := (feed x)(r := htb_add_to_id_tree (ids q) c (feed x r))\<rparr>) q)"

definition add_to_row :: "nat \<Rightarrow> cid \<Rightarrow> nat \<Rightarrow> 'q htb_sched \<Rightarrow> 'q htb_sched" where
  "add_to_row l c r q =
    upd c (\<lambda>x. x\<lparr>node := (node x)(r := True)\<rparr>)
      (q\<lparr>row := (row q)(l := (row q l)(r := htb_add_to_id_tree (ids q) c (row q l r)))\<rparr>)"

definition htb_add_to_wait_tree :: "cid \<Rightarrow> int \<Rightarrow> 'q htb_sched \<Rightarrow> 'q htb_sched" where
  "htb_add_to_wait_tree c delay q =
    (let l = level (cls q c);
         k = now q + delay;
         key = (if k = now q then k + 1 else k);
         q = upd c (\<lambda>x. x\<lparr>pq_key := key, pq_node := True\<rparr>) q;
         q = (if near_ev_cache q l > key then q\<lparr>near_ev_cache := (near_ev_cache q)(l := key)\<rparr> else q)
     in q\<lparr>wait_pq := (wait_pq q)(l := link_before (\<lambda>d. keys q d \<le> key) c (wait_pq q l))\<rparr>)"

text \<open>\<open>htb_safe_rb_erase\<close> on the three kinds of roots; an empty node only warns.\<close>

definition erase_feed :: "cid \<Rightarrow> cid \<Rightarrow> nat \<Rightarrow> 'q htb_sched \<Rightarrow> 'q htb_sched" where
  "erase_feed p c r q =
    (if \<not> node (cls q c) r then fault q
     else upd c (\<lambda>x. x\<lparr>node := (node x)(r := False)\<rparr>)
       (upd p (\<lambda>x. x\<lparr>feed := (feed x)(r := remove1 c (feed x r))\<rparr>) q))"

definition erase_row :: "nat \<Rightarrow> cid \<Rightarrow> nat \<Rightarrow> 'q htb_sched \<Rightarrow> 'q htb_sched" where
  "erase_row l c r q =
    (if \<not> node (cls q c) r then fault q
     else upd c (\<lambda>x. x\<lparr>node := (node x)(r := False)\<rparr>)
       (q\<lparr>row := (row q)(l := (row q l)(r := remove1 c (row q l r)))\<rparr>))"

definition erase_pq :: "nat \<Rightarrow> cid \<Rightarrow> 'q htb_sched \<Rightarrow> 'q htb_sched" where
  "erase_pq l c q =
    (if \<not> pq_node (cls q c) then fault q
     else upd c (\<lambda>x. x\<lparr>pq_node := False\<rparr>)
       (q\<lparr>wait_pq := (wait_pq q)(l := remove1 c (wait_pq q l))\<rparr>))"

definition htb_next_rb_node :: "cid list \<Rightarrow> cid option \<Rightarrow> cid option" where
  "htb_next_rb_node tree n = (case n of None \<Rightarrow> None | Some c \<Rightarrow> rb_next tree c)"

definition htb_add_class_to_row :: "cid \<Rightarrow> u32 \<Rightarrow> 'q htb_sched \<Rightarrow> 'q htb_sched" where
  "htb_add_class_to_row c msk q =
    (let l = level (cls q c)
     in for_prios msk (add_to_row l c) (q\<lparr>row_mask := (row_mask q)(l := row_mask q l OR msk)\<rparr>))"

definition remove_row_prio :: "nat \<Rightarrow> cid \<Rightarrow> nat \<Rightarrow> u32 \<times> 'q htb_sched \<Rightarrow> u32 \<times> 'q htb_sched" where
  "remove_row_prio l c r s =
    (let (m, q) = s;
         q = (if rptr q l r = Some c
              then q\<lparr>rptr := (rptr q)(l := (rptr q l)(r := htb_next_rb_node (row q l r) (rptr q l r)))\<rparr> else q);
         q = erase_row l c r q
     in (if row q l r = [] then m OR prio_bit r else m, q))"

definition htb_remove_class_from_row :: "cid \<Rightarrow> u32 \<Rightarrow> 'q htb_sched \<Rightarrow> 'q htb_sched" where
  "htb_remove_class_from_row c msk q =
    (let l = level (cls q c); (m, q) = for_prios msk (remove_row_prio l c) (0, q)
     in q\<lparr>row_mask := (row_mask q)(l := row_mask q l AND NOT m)\<rparr>)"

section \<open>The feed chain\<close>

text \<open>The body of the inner loop of \<open>htb_activate_prios\<close>, over the new mask and the state.\<close>

definition activate_prio :: "cid \<Rightarrow> cid \<Rightarrow> nat \<Rightarrow> u32 \<times> 'q htb_sched \<Rightarrow> u32 \<times> 'q htb_sched" where
  "activate_prio p c r s =
    (let (msk, q) = s
     in (if feed (cls q p) r \<noteq> [] then msk AND NOT (prio_bit r) else msk, add_to_feed p c r q))"

text \<open>
  The outer loop climbs from a class to its parent; the tree has at most \<open>TC_HTB_MAXDEPTH\<close> levels,
  so this many rounds reach its end.
\<close>

fun activate_loop :: "nat \<Rightarrow> cid \<Rightarrow> u32 \<Rightarrow> 'q htb_sched \<Rightarrow> 'q htb_sched" where
  "activate_loop 0 c msk q = q"
| "activate_loop (Suc n) c msk q =
    (if cmode (cls q c) = HTB_MAY_BORROW \<and> parent (cls q c) \<noteq> None \<and> msk \<noteq> 0 then
       let p = the (parent (cls q c));
           (msk, q) = for_prios msk (activate_prio p c) (msk, q);
           q = upd p (\<lambda>x. x\<lparr>prio_activity := prio_activity x OR msk\<rparr>) q
       in activate_loop n p msk q
     else if cmode (cls q c) = HTB_CAN_SEND \<and> msk \<noteq> 0 then htb_add_class_to_row c msk q
     else q)"

definition htb_activate_prios :: "cid \<Rightarrow> 'q htb_sched \<Rightarrow> 'q htb_sched" where
  "htb_activate_prios c q = activate_loop TC_HTB_MAXDEPTH c (prio_activity (cls q c)) q"

definition deactivate_prio :: "cid \<Rightarrow> cid \<Rightarrow> nat \<Rightarrow> u32 \<times> 'q htb_sched \<Rightarrow> u32 \<times> 'q htb_sched" where
  "deactivate_prio p c r s =
    (let (msk, q) = s;
         q = (if iptr (cls q p) r = Some c
              then upd p (\<lambda>x. x\<lparr>last_ptr_id := (last_ptr_id x)(r := classid (cls q c)), iptr := (iptr x)(r := None)\<rparr>) q
              else q);
         q = erase_feed p c r q
     in (if feed (cls q p) r = [] then msk OR prio_bit r else msk, q))"

fun deactivate_loop :: "nat \<Rightarrow> cid \<Rightarrow> u32 \<Rightarrow> 'q htb_sched \<Rightarrow> 'q htb_sched" where
  "deactivate_loop 0 c msk q = q"
| "deactivate_loop (Suc n) c msk q =
    (if cmode (cls q c) = HTB_MAY_BORROW \<and> parent (cls q c) \<noteq> None \<and> msk \<noteq> 0 then
       let p = the (parent (cls q c));
           (msk, q) = for_prios msk (deactivate_prio p c) (0, q);
           q = upd p (\<lambda>x. x\<lparr>prio_activity := prio_activity x AND NOT msk\<rparr>) q
       in deactivate_loop n p msk q
     else if cmode (cls q c) = HTB_CAN_SEND \<and> msk \<noteq> 0 then htb_remove_class_from_row c msk q
     else q)"

definition htb_deactivate_prios :: "cid \<Rightarrow> 'q htb_sched \<Rightarrow> 'q htb_sched" where
  "htb_deactivate_prios c q = deactivate_loop TC_HTB_MAXDEPTH c (prio_activity (cls q c)) q"

section \<open>Modes\<close>

definition htb_lowater :: "'q htb_env \<Rightarrow> 'q htb_class \<Rightarrow> int" where
  "htb_lowater E x = (if htb_hysteresis E then (if cmode x \<noteq> HTB_CANT_SEND then - cbuffer x else 0) else 0)"

definition htb_hiwater :: "'q htb_env \<Rightarrow> 'q htb_class \<Rightarrow> int" where
  "htb_hiwater E x = (if htb_hysteresis E then (if cmode x = HTB_CAN_SEND then - buffer x else 0) else 0)"

definition htb_class_mode :: "'q htb_env \<Rightarrow> 'q htb_class \<Rightarrow> int \<Rightarrow> htb_cmode \<times> int" where
  "htb_class_mode E x diff =
    (if ctokens x + diff < htb_lowater E x then (HTB_CANT_SEND, - (ctokens x + diff))
     else if tokens x + diff \<ge> htb_hiwater E x then (HTB_CAN_SEND, diff)
     else (HTB_MAY_BORROW, - (tokens x + diff)))"

definition set_cmode :: "cid \<Rightarrow> htb_cmode \<Rightarrow> 'q htb_sched \<Rightarrow> 'q htb_sched" where
  "set_cmode c m q = upd c (\<lambda>x. x\<lparr>cmode := m\<rparr>) q"

definition htb_change_class_mode :: "'q htb_env \<Rightarrow> cid \<Rightarrow> int \<Rightarrow> 'q htb_sched \<Rightarrow> int \<times> 'q htb_sched" where
  "htb_change_class_mode E c diff q =
    (let (new_mode, diff) = htb_class_mode E (cls q c) diff
     in if new_mode = cmode (cls q c) then (diff, q)
        else if prio_activity (cls q c) \<noteq> 0 then
          let q = (if cmode (cls q c) \<noteq> HTB_CANT_SEND then htb_deactivate_prios c q else q);
              q = set_cmode c new_mode q;
              q = (if new_mode \<noteq> HTB_CANT_SEND then htb_activate_prios c q else q)
          in (diff, q)
        else (diff, set_cmode c new_mode q))"

definition htb_activate :: "cid \<Rightarrow> 'q htb_sched \<Rightarrow> 'q htb_sched" where
  "htb_activate c q =
    (if prio_activity (cls q c) = 0 then
       let q = upd c (\<lambda>x. x\<lparr>prio_activity := prio_bit (nat (prio x))\<rparr>) q;
           q = htb_activate_prios c q;
           r = nat (prio (cls q c))
       in q\<lparr>drops := (drops q)(r := drops q r @ [c])\<rparr>
     else q)"

definition htb_deactivate :: "cid \<Rightarrow> 'q htb_sched \<Rightarrow> 'q htb_sched" where
  "htb_deactivate c q =
    (let q = htb_deactivate_prios c q;
         q = upd c (\<lambda>x. x\<lparr>prio_activity := 0\<rparr>) q
     in q\<lparr>drops := (\<lambda>r. removeAll c (drops q r))\<rparr>)"

section \<open>Tokens\<close>

definition htb_accnt_tokens :: "'q htb_env \<Rightarrow> int \<Rightarrow> int \<Rightarrow> 'q htb_class \<Rightarrow> 'q htb_class" where
  "htb_accnt_tokens E bytes diff x =
    (let toks = diff + tokens x;
         toks = (if toks > buffer x then buffer x else toks);
         toks = toks - qdisc_l2t E (rate x) bytes;
         toks = (if toks \<le> - mbuffer x then 1 - mbuffer x else toks)
     in x\<lparr>tokens := toks\<rparr>)"

definition htb_accnt_ctokens :: "'q htb_env \<Rightarrow> int \<Rightarrow> int \<Rightarrow> 'q htb_class \<Rightarrow> 'q htb_class" where
  "htb_accnt_ctokens E bytes diff x =
    (let toks = diff + ctokens x;
         toks = (if toks > cbuffer x then cbuffer x else toks);
         toks = toks - qdisc_l2t E (ceil x) bytes;
         toks = (if toks \<le> - mbuffer x then 1 - mbuffer x else toks)
     in x\<lparr>ctokens := toks\<rparr>)"

definition bstats_update :: "skb \<Rightarrow> 'q htb_class \<Rightarrow> 'q htb_class" where
  "bstats_update s x = x\<lparr>bpackets := Suc (bpackets x), bbytes := bbytes x + pkt_len s\<rparr>"

text \<open>One round of \<open>htb_charge_class\<close>: the accounting of a class, and its change of mode.\<close>

definition charge_tokens :: "'q htb_env \<Rightarrow> int \<Rightarrow> nat \<Rightarrow> skb \<Rightarrow> 'q htb_class \<Rightarrow> 'q htb_class" where
  "charge_tokens E time lv s x =
    (let diff = psched_tdiff_bounded E time (t_c x) (mbuffer x);
         x = (if level x \<ge> lv
              then htb_accnt_tokens E (pkt_len s) diff (if level x = lv then x\<lparr>xlends := Suc (xlends x)\<rparr> else x)
              else x\<lparr>xborrows := Suc (xborrows x), tokens := tokens x + diff\<rparr>)
     in (htb_accnt_ctokens E (pkt_len s) diff x)\<lparr>t_c := time\<rparr>)"

definition charge_mode :: "'q htb_env \<Rightarrow> cid \<Rightarrow> 'q htb_sched \<Rightarrow> 'q htb_sched" where
  "charge_mode E c q =
    (let old_mode = cmode (cls q c);
         (diff, q) = htb_change_class_mode E c 0 q
     in if old_mode \<noteq> cmode (cls q c) then
          let q = (if old_mode \<noteq> HTB_CAN_SEND then erase_pq (level (cls q c)) c q else q)
          in if cmode (cls q c) \<noteq> HTB_CAN_SEND then htb_add_to_wait_tree c diff q else q
        else q)"

fun charge_loop :: "'q htb_env \<Rightarrow> nat \<Rightarrow> cid option \<Rightarrow> nat \<Rightarrow> skb \<Rightarrow> 'q htb_sched \<Rightarrow> 'q htb_sched" where
  "charge_loop E n None lv s q = q"
| "charge_loop E 0 (Some c) lv s q = q"
| "charge_loop E (Suc n) (Some c) lv s q =
    (let q = upd c (charge_tokens E (now q) lv s) q;
         q = charge_mode E c q;
         q = (if level (cls q c) \<noteq> 0 then upd c (bstats_update s) q else q)
     in charge_loop E n (parent (cls q c)) lv s q)"

definition htb_charge_class :: "'q htb_env \<Rightarrow> cid \<Rightarrow> nat \<Rightarrow> skb \<Rightarrow> 'q htb_sched \<Rightarrow> 'q htb_sched" where
  "htb_charge_class E c lv s q = charge_loop E TC_HTB_MAXDEPTH (Some c) lv s q"

section \<open>Events\<close>

text \<open>
  \<open>htb_do_events\<close> stops when \<open>jiffies\<close> has passed the deadline; \<open>budget\<close> is the number of times the
  test \<open>time_before(jiffies, stop_at)\<close> succeeds in this call.
\<close>

fun htb_do_events :: "'q htb_env \<Rightarrow> nat \<Rightarrow> nat \<Rightarrow> 'q htb_sched \<Rightarrow> int \<times> 'q htb_sched" where
  "htb_do_events E l 0 q = (now q, q\<lparr>warned := True\<rparr>)"
| "htb_do_events E l (Suc budget) q =
    (if wait_pq q l = [] then (0, q)
     else let c = hd (wait_pq q l)
       in if pq_key (cls q c) > now q then (pq_key (cls q c), q)
          else let q = erase_pq l c q;
                   diff = psched_tdiff_bounded E (now q) (t_c (cls q c)) (mbuffer (cls q c));
                   (diff, q) = htb_change_class_mode E c diff q;
                   q = (if cmode (cls q c) \<noteq> HTB_CAN_SEND then htb_add_to_wait_tree c diff q else q)
            in htb_do_events E l budget q)"

end
