(* ===== verification/HtbClimb.thy ===== *)
theory HtbClimb
  imports HtbChain
begin

text \<open>
  What the climbing loops \<open>htb_activate_prios\<close> and \<open>htb_deactivate_prios\<close> do to the invariants of
  \<open>HtbChain\<close>: they attach or detach the class and the ancestors whose feed becomes non-empty or
  empty, and nothing else.  The eight rounds of the model always reach the end of the chain.
\<close>

section \<open>Frames\<close>

lemma rest_simps [simp]:
  "rest (x\<lparr>node := n\<rparr>) = rest x" "rest (x\<lparr>feed := f\<rparr>) = rest x" "rest (x\<lparr>iptr := i\<rparr>) = rest x"
  "rest (x\<lparr>last_ptr_id := l\<rparr>) = rest x" "rest (x\<lparr>prio_activity := a\<rparr>) = rest x"
  by (simp_all add: rest_def)

lemma srest_upd: "rest (f (cls q c)) = rest (cls q c) \<Longrightarrow> srest (upd c f q) = srest q"
  by (auto simp: srest_def upd_def intro!: arg_cong2 [where f = "\<lambda>k q. q\<lparr>cls := k, row := _, row_mask := _, rptr := _\<rparr>"])

lemma srest_simps [simp]:
  "srest (q\<lparr>row := a\<rparr>) = srest q" "srest (q\<lparr>row_mask := b\<rparr>) = srest q" "srest (q\<lparr>rptr := e\<rparr>) = srest q"
  by (simp_all add: srest_def)

lemma srest_closed:
  "srest (fed p c A q) = srest q" "srest (unfed p c A q) = srest q"
  "srest (rowed l c A q) = srest q" "srest (unrowed l c A q) = srest q"
  by (simp_all add: fed_def unfed_def rowed_def unrowed_def srest_upd)

text \<open>The fields the invariants read.\<close>

definition lview :: "'q htb_class \<Rightarrow> _" where
  "lview x = (classid x, parent x, level x, cmode x, feed x, iptr x, node x)"

definition aview :: "'q htb_class \<Rightarrow> _" where
  "aview x = (prio_activity x, level x, feed x)"

lemma linked_ok_cong:
  assumes "\<And>x. lview (cls q' x) = lview (cls q x)" "row q' = row q" "row_mask q' = row_mask q" "rptr q' = rptr q"
  shows "linked_ok att q' = linked_ok att q"
proof -
  have "ids q' x = ids q x" "parent (cls q' x) = parent (cls q x)" "level (cls q' x) = level (cls q x)"
    "cmode (cls q' x) = cmode (cls q x)" "feed (cls q' x) = feed (cls q x)" "iptr (cls q' x) = iptr (cls q x)"
    "node (cls q' x) = node (cls q x)" for x
    using assms(1) [of x] by (simp_all add: lview_def ids_def)
  then show ?thesis using assms(2-4) by (simp add: linked_ok_def tree_ok_def in_feed_def in_row_def)
qed

lemma linked_ok_att:
  assumes "linked_ok att q" "\<And>p r x. in_feed att' q p r x = in_feed att q p r x" "\<And>l r x. in_row att' q l r x = in_row att q l r x"
  shows "linked_ok att' q"
proof -
  have "in_feed att' q p r = in_feed att q p r" "in_row att' q l r = in_row att q l r" for p l r
    using assms(2,3) by (simp_all add: fun_eq_iff)
  then show ?thesis using assms(1) by (simp add: linked_ok_def)
qed

lemma act_ok_cong: "(\<And>x. aview (cls q' x) = aview (cls q x)) \<Longrightarrow> act_ok q' = act_ok q"
  by (simp add: act_ok_def aview_def)

lemma act_okD:
  assumes "act_ok q"
  shows "bit (prio_activity (cls q p)) r \<Longrightarrow> r < TC_HTB_NUMPRIO"
    "level (cls q p) = 0 \<Longrightarrow> feed (cls q p) r = []"
    "level (cls q p) \<noteq> 0 \<Longrightarrow> bit (prio_activity (cls q p)) r \<longleftrightarrow> feed (cls q p) r \<noteq> []"
  using assms by (auto simp: act_ok_def)

lemma tree_wfD:
  assumes "tree_wf q" "c \<in> set (clhash q)"
  shows "level (cls q c) < TC_HTB_MAXDEPTH"
    "parent (cls q c) = Some p \<Longrightarrow> p \<in> set (clhash q)"
    "parent (cls q c) = Some p \<Longrightarrow> level (cls q c) < level (cls q p)"
  using assms by (auto simp: tree_wf_def)

text \<open>\<open>R\<close> marks ancestors of \<open>c\<close>; the rest of the state is unchanged.\<close>

definition ancestral :: "cid \<Rightarrow> 'q htb_sched \<Rightarrow> (cid \<Rightarrow> nat \<Rightarrow> bool) \<Rightarrow> bool" where
  "ancestral c q R \<longleftrightarrow> (\<forall>x r. R x r \<longrightarrow> x \<in> set (clhash q) \<and> level (cls q c) < level (cls q x))"

definition climb_ok :: "cid \<Rightarrow> (cid \<Rightarrow> nat \<Rightarrow> bool) \<Rightarrow> 'q htb_sched \<Rightarrow> bool" where
  "climb_ok c att q \<longleftrightarrow> linked_ok att q \<and> act_ok q \<and> tree_wf q \<and> c \<in> set (clhash q) \<and>
    (\<forall>x r. level (cls q c) < level (cls q x) \<longrightarrow> (att x r \<longleftrightarrow> bit (prio_activity (cls q x)) r))"

section \<open>Activation\<close>

lemma add_row_frame:
  "srest (htb_add_class_to_row c m q) = srest q"
  "prio_activity (cls (htb_add_class_to_row c m q) x) = prio_activity (cls q x)"
  "feed (cls (htb_add_class_to_row c m q) x) = feed (cls q x)"
  by (simp_all add: row_add_eq srest_closed) (simp_all add: rowed_def)

lemma add_row_act: "act_ok (htb_add_class_to_row c m q) = act_ok q"
proof (rule act_ok_cong)
  show "aview (cls (htb_add_class_to_row c m q) x) = aview (cls q x)" for x
    using srest_classes(3) [OF add_row_frame(1), of c m q x] by (simp add: aview_def add_row_frame fun_eq_iff)
qed

definition act_step :: "cid \<Rightarrow> cid \<Rightarrow> u32 \<Rightarrow> u32 \<Rightarrow> 'q htb_sched \<Rightarrow> 'q htb_sched" where
  "act_step p c m mk q = upd p (\<lambda>x. x\<lparr>prio_activity := prio_activity x OR mk\<rparr>) (fed p c {r. bit m r} q)"

lemma activate_loop_step:
  assumes "cmode (cls q c) = HTB_MAY_BORROW" "parent (cls q c) = Some p" "m \<noteq> 0" "p \<noteq> c"
  obtains mk where "activate_loop (Suc n) c m q = activate_loop n p mk (act_step p c m mk q)"
    "\<And>r. bit mk r \<longleftrightarrow> bit m r \<and> feed (cls q p) r = []"
proof -
  obtain mk where mk: "fold (activate_prio p c) (prios_of m) (m, q) = (mk, fed p c {r. bit m r} q)"
    "\<forall>s. bit mk s \<longleftrightarrow> bit m s \<and> \<not> (s \<in> set (prios_of m) \<and> feed (cls q p) s \<noteq> [])"
    using activate_fold [OF assms(4) distinct_prios_of, of m m q] by auto
  have "activate_loop (Suc n) c m q = activate_loop n p mk (act_step p c m mk q)"
    using assms mk(1) by (simp add: for_prios_fold act_step_def Let_def)
  moreover have "bit mk r \<longleftrightarrow> bit m r \<and> feed (cls q p) r = []" for r using mk(2) by auto
  ultimately show thesis by (rule that)
qed

lemma act_step_fields:
  assumes "p \<noteq> c"
  shows "srest (act_step p c m mk q) = srest q"
    "bit (prio_activity (cls (act_step p c m mk q) x)) r \<longleftrightarrow> bit (prio_activity (cls q x)) r \<or> x = p \<and> bit mk r"
    "feed (cls (act_step p c m mk q) x) r =
      (if x = p \<and> bit m r then htb_add_to_id_tree (ids q) c (feed (cls q p) r) else feed (cls q x) r)"
    "linked_ok att (act_step p c m mk q) = linked_ok att (fed p c {r. bit m r} q)"
proof -
  show "srest (act_step p c m mk q) = srest q" by (simp add: act_step_def srest_upd srest_closed)
  show "linked_ok att (act_step p c m mk q) = linked_ok att (fed p c {r. bit m r} q)"
    by (rule linked_ok_cong) (simp_all add: act_step_def lview_def)
qed (use assms in \<open>auto simp: act_step_def fed_def bit_or_iff\<close>)

lemma act_step_ok:
  assumes "climb_ok c att q" "cmode (cls q c) = HTB_MAY_BORROW" "parent (cls q c) = Some p"
    "\<And>r. bit m r \<Longrightarrow> \<not> att c r \<and> r < TC_HTB_NUMPRIO"
    and mk: "\<And>r. bit mk r \<longleftrightarrow> bit m r \<and> feed (cls q p) r = []"
  defines "q' \<equiv> act_step p c m mk q"
  shows "climb_ok p (attach c {r. bit m r} att) q'" "\<And>r. bit mk r \<Longrightarrow> \<not> attach c {r. bit m r} att p r \<and> r < TC_HTB_NUMPRIO"
proof -
  have c: "linked_ok att q" "act_ok q" "tree_wf q" "c \<in> set (clhash q)"
    "\<And>x r. level (cls q c) < level (cls q x) \<Longrightarrow> att x r \<longleftrightarrow> bit (prio_activity (cls q x)) r"
    using assms(1) by (auto simp: climb_ok_def)
  have p: "p \<in> set (clhash q)" "level (cls q c) < level (cls q p)" "p \<noteq> c"
    using tree_wfD [OF c(3,4)] assms(3) by auto
  note fs = act_step_fields [OF p(3), where m = m and mk = mk and q = q, folded q'_def]
  note sc = srest_classes [OF fs(1)] srest_fields [OF fs(1)]
  have "act_ok q'"
    using c(2) p(2) assms(4) unfolding act_ok_def sc fs
    by (auto simp: mk htb_add_to_id_tree_def)
  moreover have "linked_ok (attach c {r. bit m r} att) q'"
    unfolding fs by (rule linked_fed [OF c(1) assms(2,3) p(3)]) (use assms(4) in auto)
  moreover have "tree_wf q'" using c(3) tree_wf_srest [OF fs(1)] by simp
  ultimately show "climb_ok p (attach c {r. bit m r} att) q'"
    using p c(5) unfolding climb_ok_def sc fs by (auto simp: attach_def)
  show "\<not> attach c {r. bit m r} att p r \<and> r < TC_HTB_NUMPRIO" if "bit mk r" for r
    using that p c(5) [of p r] act_okD(3) [OF c(2), of p r] assms(4) by (auto simp: mk attach_def)
qed

lemma activate_chain:
  assumes "climb_ok c att q" "TC_HTB_MAXDEPTH \<le> n + level (cls q c)"
    "\<And>r. bit m r \<Longrightarrow> \<not> att c r \<and> r < TC_HTB_NUMPRIO"
  shows "\<exists>R. ancestral c q R \<and> srest (activate_loop n c m q) = srest q \<and>
    linked_ok (\<lambda>x r. att x r \<or> x = c \<and> bit m r \<or> R x r) (activate_loop n c m q) \<and> act_ok (activate_loop n c m q) \<and>
    (\<forall>x r. bit (prio_activity (cls (activate_loop n c m q) x)) r \<longleftrightarrow> bit (prio_activity (cls q x)) r \<or> R x r)"
  using assms
proof (induction n arbitrary: c m q att)
  case 0
  then show ?case using tree_wfD(1) [of q c] by (simp add: climb_ok_def)
next
  case (Suc n)
  have c: "linked_ok att q" "act_ok q" "tree_wf q" "c \<in> set (clhash q)" using Suc.prems(1) by (auto simp: climb_ok_def)
  consider (up) p where "cmode (cls q c) = HTB_MAY_BORROW" "parent (cls q c) = Some p" "m \<noteq> 0"
    | (row) "cmode (cls q c) = HTB_CAN_SEND" "m \<noteq> 0"
    | (stop) "activate_loop (Suc n) c m q = q" "m = 0 \<or> cmode (cls q c) \<noteq> HTB_CAN_SEND"
      "m = 0 \<or> cmode (cls q c) \<noteq> HTB_MAY_BORROW \<or> parent (cls q c) = None"
    by (cases "parent (cls q c)"; cases "cmode (cls q c)"; cases "m = 0") auto
  then show ?case
  proof cases
    case up
    have p: "level (cls q c) < level (cls q p)" "p \<noteq> c" using tree_wfD(3) [OF c(3,4) up(2)] by auto
    obtain mk where loop: "activate_loop (Suc n) c m q = activate_loop n p mk (act_step p c m mk q)"
      and mk: "\<And>r. bit mk r \<longleftrightarrow> bit m r \<and> feed (cls q p) r = []"
      using activate_loop_step [OF up p(2)] by metis
    let ?q = "act_step p c m mk q"
    note fs = act_step_fields [OF p(2), where m = m and mk = mk and q = q]
    note sc = srest_classes [OF fs(1)] srest_fields [OF fs(1)]
    have fuel: "TC_HTB_MAXDEPTH \<le> n + level (cls ?q p)" using Suc.prems(2) p(1) unfolding sc by simp
    note ok = act_step_ok [OF Suc.prems(1) up(1,2), of m mk, OF Suc.prems(3) mk]
    obtain R where R: "ancestral p ?q R" "srest (activate_loop n p mk ?q) = srest ?q"
      "linked_ok (\<lambda>x r. attach c {r. bit m r} att x r \<or> x = p \<and> bit mk r \<or> R x r) (activate_loop n p mk ?q)"
      "act_ok (activate_loop n p mk ?q)"
      "\<forall>x r. bit (prio_activity (cls (activate_loop n p mk ?q) x)) r \<longleftrightarrow> bit (prio_activity (cls ?q x)) r \<or> R x r"
      using Suc.IH [OF ok(1) fuel, of mk] ok(2) by blast
    let ?R = "\<lambda>x r. x = p \<and> bit mk r \<or> R x r"
    have "ancestral c q ?R" using R(1) p(1) tree_wfD(2) [OF c(3,4) up(2)] unfolding ancestral_def sc by fastforce
    moreover have "(\<lambda>x r. att x r \<or> x = c \<and> bit m r \<or> ?R x r) = (\<lambda>x r. attach c {r. bit m r} att x r \<or> x = p \<and> bit mk r \<or> R x r)"
      by (auto simp: attach_def fun_eq_iff)
    ultimately show ?thesis using R(2-5) loop fs(1,2) by (intro exI [of _ ?R]) simp
  next
    case row
    then have loop: "activate_loop (Suc n) c m q = htb_add_class_to_row c m q" by simp
    have "(\<lambda>x r. att x r \<or> x = c \<and> bit m r \<or> False) = attach c {r. bit m r} att"
      by (auto simp: attach_def fun_eq_iff)
    moreover have "act_ok (htb_add_class_to_row c m q)"
      using c(2) by (simp add: add_row_act)
    ultimately show ?thesis
      using linked_add_row [OF c(1) row(1)] Suc.prems(3) unfolding loop
      by (intro exI [of _ "\<lambda>_ _. False"]) (simp add: ancestral_def add_row_frame)
  next
    case stop
    have "linked_ok (\<lambda>x r. att x r \<or> x = c \<and> bit m r \<or> False) q"
      by (rule linked_ok_att [OF c(1)]) (use stop(2,3) in \<open>auto simp: in_feed_def in_row_def\<close>)
    then show ?thesis using c(2) unfolding stop(1) by (intro exI [of _ "\<lambda>_ _. False"]) (simp add: ancestral_def)
  qed
qed

section \<open>Deactivation\<close>

lemma linked_nodes:
  assumes "linked_ok att q" "att c r" "cmode (cls q c) = HTB_CAN_SEND \<or> cmode (cls q c) = HTB_MAY_BORROW \<and> parent (cls q c) \<noteq> None"
  shows "node (cls q c) r"
proof -
  have "c \<in> set (row q (level (cls q c)) r) \<or> (\<exists>p. c \<in> set (feed (cls q p) r))"
    using assms by (auto simp: mem_feed mem_row in_feed_def in_row_def)
  then show ?thesis
    using linked_feed [OF assms(1)] linked_row [OF assms(1)] by (auto simp: tree_ok_def)
qed

lemma row_remove:
  assumes "linked_ok att q" "cmode (cls q c) = HTB_CAN_SEND" "\<And>r. bit m r \<Longrightarrow> att c r"
  defines "q' \<equiv> htb_remove_class_from_row c m q"
  shows "srest q' = srest q" "prio_activity (cls q' x) = prio_activity (cls q x)" "act_ok q' = act_ok q"
    "linked_ok (detach c {r. bit m r} att) q'"
proof -
  let ?l = "level (cls q c)" and ?A = "{r. bit m r}"
  have "\<forall>r\<in>set (prios_of m). node (cls q c) r \<and> r < 32"
    using linked_nodes [OF assms(1) assms(3)] assms(2) bit_imp_le_length [of m] by auto
  then obtain mk where mk: "fold (remove_row_prio ?l c) (prios_of m) (0, q) = (mk, unrowed ?l c ?A q)"
    "\<forall>s. bit mk s \<longleftrightarrow> s \<in> ?A \<and> remove1 c (row q ?l s) = []"
    using remove_row_fold [OF distinct_prios_of, of m q c ?l 0] by auto
  have q': "q' = (unrowed ?l c ?A q)\<lparr>row_mask := (row_mask q)(?l := row_mask q ?l AND NOT mk)\<rparr>"
    using mk(1) by (simp add: q'_def htb_remove_class_from_row_def for_prios_fold Let_def unrowed_def)
  show "linked_ok (detach c ?A att) q'" unfolding q' by (rule linked_unrowed [OF assms(1,2) refl mk(2)])
  show "srest q' = srest q" by (simp add: q' srest_closed)
  show "prio_activity (cls q' x) = prio_activity (cls q x)" by (simp add: q' unrowed_def)
  show "act_ok q' = act_ok q" by (rule act_ok_cong) (simp add: q' unrowed_def aview_def)
qed

definition deact_step :: "cid \<Rightarrow> cid \<Rightarrow> u32 \<Rightarrow> u32 \<Rightarrow> 'q htb_sched \<Rightarrow> 'q htb_sched" where
  "deact_step p c m mk q = upd p (\<lambda>x. x\<lparr>prio_activity := prio_activity x AND NOT mk\<rparr>) (unfed p c {r. bit m r} q)"

lemma deactivate_loop_step:
  assumes "cmode (cls q c) = HTB_MAY_BORROW" "parent (cls q c) = Some p" "m \<noteq> 0" "p \<noteq> c"
    "\<And>r. bit m r \<Longrightarrow> node (cls q c) r"
  obtains mk where "deactivate_loop (Suc n) c m q = deactivate_loop n p mk (deact_step p c m mk q)"
    "\<And>r. bit mk r \<longleftrightarrow> bit m r \<and> remove1 c (feed (cls q p) r) = []"
proof -
  have "\<forall>r\<in>set (prios_of m). node (cls q c) r \<and> r < 32"
    using assms(5) bit_imp_le_length [of m] by auto
  then obtain mk where mk: "fold (deactivate_prio p c) (prios_of m) (0, q) = (mk, unfed p c {r. bit m r} q)"
    "\<forall>s. bit mk s \<longleftrightarrow> s \<in> {r. bit m r} \<and> remove1 c (feed (cls q p) s) = []"
    using deactivate_fold [OF assms(4) distinct_prios_of, of m q 0] by auto
  have "deactivate_loop (Suc n) c m q = deactivate_loop n p mk (deact_step p c m mk q)"
    using assms mk(1) by (simp add: for_prios_fold deact_step_def Let_def)
  moreover have "bit mk r \<longleftrightarrow> bit m r \<and> remove1 c (feed (cls q p) r) = []" for r using mk(2) by auto
  ultimately show thesis by (rule that)
qed

lemma deact_step_fields:
  assumes "p \<noteq> c"
  shows "srest (deact_step p c m mk q) = srest q"
    "bit (prio_activity (cls (deact_step p c m mk q) x)) r \<longleftrightarrow> bit (prio_activity (cls q x)) r \<and> \<not> (x = p \<and> bit mk r)"
    "feed (cls (deact_step p c m mk q) x) r = (if x = p \<and> bit m r then remove1 c (feed (cls q p) r) else feed (cls q x) r)"
    "linked_ok att (deact_step p c m mk q) = linked_ok att (unfed p c {r. bit m r} q)"
proof -
  show "srest (deact_step p c m mk q) = srest q" by (simp add: deact_step_def srest_upd srest_closed)
  show "linked_ok att (deact_step p c m mk q) = linked_ok att (unfed p c {r. bit m r} q)"
    by (rule linked_ok_cong) (simp_all add: deact_step_def lview_def)
  have "bit (prio_activity (cls q p)) r \<Longrightarrow> r < 32" using bit_imp_le_length [of "prio_activity (cls q p)" r] by simp
  then show "bit (prio_activity (cls (deact_step p c m mk q) x)) r \<longleftrightarrow> bit (prio_activity (cls q x)) r \<and> \<not> (x = p \<and> bit mk r)"
    using assms by (auto simp: deact_step_def unfed_def bit_and_iff bit_not_iff)
qed (use assms in \<open>auto simp: deact_step_def unfed_def\<close>)

lemma deact_step_ok:
  assumes "climb_ok c att q" "cmode (cls q c) = HTB_MAY_BORROW" "parent (cls q c) = Some p"
    "\<And>r. bit m r \<Longrightarrow> att c r"
    and mk: "\<And>r. bit mk r \<longleftrightarrow> bit m r \<and> remove1 c (feed (cls q p) r) = []"
  defines "q' \<equiv> deact_step p c m mk q"
  shows "linked_ok (detach c {r. bit m r} att) q'" "act_ok q'" "tree_wf q'"
    "\<And>r. bit mk r \<Longrightarrow> detach c {r. bit m r} att p r"
    "\<And>x r. level (cls q p) < level (cls q x) \<Longrightarrow> detach c {r. bit m r} att x r \<longleftrightarrow> bit (prio_activity (cls q' x)) r"
proof -
  have c: "linked_ok att q" "act_ok q" "tree_wf q" "c \<in> set (clhash q)"
    "\<And>x r. level (cls q c) < level (cls q x) \<Longrightarrow> att x r \<longleftrightarrow> bit (prio_activity (cls q x)) r"
    using assms(1) by (auto simp: climb_ok_def)
  have p: "p \<in> set (clhash q)" "level (cls q c) < level (cls q p)" "p \<noteq> c"
    using tree_wfD [OF c(3,4)] assms(3) by auto
  have inf: "bit m r \<Longrightarrow> c \<in> set (feed (cls q p) r)" for r
    using assms(2-4) by (simp add: mem_feed [OF c(1)] in_feed_def)
  note fs = deact_step_fields [OF p(3), where m = m and mk = mk and q = q, folded q'_def]
  note sc = srest_classes [OF fs(1)] srest_fields [OF fs(1)]
  show "linked_ok (detach c {r. bit m r} att) q'"
    unfolding fs by (rule linked_unfed [OF c(1) assms(2,3) p(3)])
  show "tree_wf q'" using c(3) tree_wf_srest [OF fs(1)] by simp
  show "act_ok q'"
    unfolding act_ok_def sc fs
  proof (intro allI conjI)
    fix x r
    show "bit (prio_activity (cls q x)) r \<and> \<not> (x = p \<and> bit mk r) \<longrightarrow> r < TC_HTB_NUMPRIO"
      using act_okD(1) [OF c(2)] by blast
    let ?f = "if x = p \<and> bit m r then remove1 c (feed (cls q p) r) else feed (cls q x) r"
    show "if level (cls q x) = 0 then ?f = [] else (bit (prio_activity (cls q x)) r \<and> \<not> (x = p \<and> bit mk r)) = (?f \<noteq> [])"
      using act_okD(2,3) [OF c(2), of x r] p(2) inf [of r] by (cases "x = p") (auto simp: mk)
  qed
  show "detach c {r. bit m r} att p r" if "bit mk r" for r
    using that p c(5) [of p r] act_okD(3) [OF c(2), of p r] inf [of r] by (auto simp: mk detach_def)
  show "detach c {r. bit m r} att x r \<longleftrightarrow> bit (prio_activity (cls q' x)) r" if "level (cls q p) < level (cls q x)" for x r
    using that p c(5) [of x r] unfolding fs by (auto simp: detach_def)
qed

lemma deactivate_chain:
  assumes "climb_ok c att q" "TC_HTB_MAXDEPTH \<le> n + level (cls q c)" "\<And>r. bit m r \<Longrightarrow> att c r"
  shows "\<exists>R. ancestral c q R \<and> (\<forall>x r. R x r \<longrightarrow> bit m r) \<and> srest (deactivate_loop n c m q) = srest q \<and>
    linked_ok (\<lambda>x r. att x r \<and> \<not> (x = c \<and> bit m r) \<and> \<not> R x r) (deactivate_loop n c m q) \<and> act_ok (deactivate_loop n c m q) \<and>
    (\<forall>x r. bit (prio_activity (cls (deactivate_loop n c m q) x)) r \<longleftrightarrow> bit (prio_activity (cls q x)) r \<and> \<not> R x r)"
  using assms
proof (induction n arbitrary: c m q att)
  case 0
  then show ?case using tree_wfD(1) [of q c] by (simp add: climb_ok_def)
next
  case (Suc n)
  have c: "linked_ok att q" "act_ok q" "tree_wf q" "c \<in> set (clhash q)" using Suc.prems(1) by (auto simp: climb_ok_def)
  consider (up) p where "cmode (cls q c) = HTB_MAY_BORROW" "parent (cls q c) = Some p" "m \<noteq> 0"
    | (row) "cmode (cls q c) = HTB_CAN_SEND" "m \<noteq> 0"
    | (stop) "deactivate_loop (Suc n) c m q = q" "m = 0 \<or> cmode (cls q c) \<noteq> HTB_CAN_SEND"
      "m = 0 \<or> cmode (cls q c) \<noteq> HTB_MAY_BORROW \<or> parent (cls q c) = None"
    by (cases "parent (cls q c)"; cases "cmode (cls q c)"; cases "m = 0") auto
  then show ?case
  proof cases
    case up
    have p: "level (cls q c) < level (cls q p)" "p \<noteq> c" "p \<in> set (clhash q)" using tree_wfD [OF c(3,4)] up(2) by auto
    have nodes: "bit m r \<Longrightarrow> node (cls q c) r" for r
      using linked_nodes [OF c(1) Suc.prems(3)] up by simp
    obtain mk where loop: "deactivate_loop (Suc n) c m q = deactivate_loop n p mk (deact_step p c m mk q)"
      and mk: "\<And>r. bit mk r \<longleftrightarrow> bit m r \<and> remove1 c (feed (cls q p) r) = []"
      using deactivate_loop_step [OF up p(2) nodes] by metis
    let ?q = "deact_step p c m mk q"
    note fs = deact_step_fields [OF p(2), where m = m and mk = mk and q = q]
    note sc = srest_classes [OF fs(1)] srest_fields [OF fs(1)]
    note ok = deact_step_ok [OF Suc.prems(1) up(1,2), of m mk, OF Suc.prems(3) mk]
    have fuel: "TC_HTB_MAXDEPTH \<le> n + level (cls ?q p)" using Suc.prems(2) p(1) unfolding sc by simp
    have "climb_ok p (detach c {r. bit m r} att) ?q" unfolding climb_ok_def sc using ok p(3) by blast
    moreover have "bit mk r \<Longrightarrow> detach c {r. bit m r} att p r" for r using ok(4) by blast
    ultimately obtain R where R: "ancestral p ?q R" "\<forall>x r. R x r \<longrightarrow> bit mk r" "srest (deactivate_loop n p mk ?q) = srest ?q"
      "linked_ok (\<lambda>x r. detach c {r. bit m r} att x r \<and> \<not> (x = p \<and> bit mk r) \<and> \<not> R x r) (deactivate_loop n p mk ?q)"
      "act_ok (deactivate_loop n p mk ?q)"
      "\<forall>x r. bit (prio_activity (cls (deactivate_loop n p mk ?q) x)) r \<longleftrightarrow> bit (prio_activity (cls ?q x)) r \<and> \<not> R x r"
      using Suc.IH [OF _ fuel, of "detach c {r. bit m r} att" mk] by (elim exE conjE meta_impE) blast
    let ?R = "\<lambda>x r. x = p \<and> bit mk r \<or> R x r"
    have "ancestral c q ?R \<and> (\<forall>x r. ?R x r \<longrightarrow> bit m r)" using R(1,2) p(1,3) mk unfolding ancestral_def sc by fastforce
    moreover have "(\<lambda>x r. att x r \<and> \<not> (x = c \<and> bit m r) \<and> \<not> ?R x r) =
        (\<lambda>x r. detach c {r. bit m r} att x r \<and> \<not> (x = p \<and> bit mk r) \<and> \<not> R x r)"
      by (auto simp: detach_def fun_eq_iff)
    ultimately show ?thesis using R(3-6) loop fs(1,2) by (intro exI [of _ ?R]) simp
  next
    case row
    then have loop: "deactivate_loop (Suc n) c m q = htb_remove_class_from_row c m q" by simp
    have "(\<lambda>x r. att x r \<and> \<not> (x = c \<and> bit m r) \<and> \<not> False) = detach c {r. bit m r} att"
      by (auto simp: detach_def fun_eq_iff)
    then show ?thesis
      using row_remove [OF c(1) row(1) Suc.prems(3), of m] c(2) unfolding loop
      by (intro exI [of _ "\<lambda>_ _. False"]) (simp add: ancestral_def)
  next
    case stop
    have "linked_ok (\<lambda>x r. att x r \<and> \<not> (x = c \<and> bit m r) \<and> \<not> False) q"
      by (rule linked_ok_att [OF c(1)]) (use stop(2,3) in \<open>auto simp: in_feed_def in_row_def\<close>)
    then show ?thesis using c(2) unfolding stop(1) by (intro exI [of _ "\<lambda>_ _. False"]) (simp add: ancestral_def)
  qed
qed

end
