(* ===== verification/HtbMode.thy ===== *)
theory HtbMode
  imports HtbClimb
begin

text \<open>
  The invariant \<open>settled\<close> of the scheduler between two operations: the feed trees and rows hold
  exactly the active classes their modes demand (\<open>linked_ok\<close>, \<open>act_ok\<close>), every live class that may not
  send is in the wait queue of its level and no other, the drop lists hold the active leaves, and no
  erasure has warned.  It is kept by changes of mode, activation, deactivation, charging and the event
  loop.
\<close>

section \<open>The invariant\<close>

definition attached :: "'q htb_sched \<Rightarrow> cid \<Rightarrow> nat \<Rightarrow> bool" where
  "attached q c r \<longleftrightarrow> bit (prio_activity (cls q c)) r"

definition dead_ok :: "'q htb_sched \<Rightarrow> bool" where
  "dead_ok q \<longleftrightarrow> (\<forall>c. c \<notin> set (clhash q) \<longrightarrow> prio_activity (cls q c) = 0)"

definition base_ok :: "'q htb_sched \<Rightarrow> bool" where
  "base_ok q \<longleftrightarrow> linked_ok (attached q) q \<and> act_ok q \<and> tree_wf q \<and> dead_ok q"

text \<open>As \<open>base_ok\<close>, but \<open>c\<close> is taken out of all trees.\<close>

definition unlinked :: "cid \<Rightarrow> 'q htb_sched \<Rightarrow> bool" where
  "unlinked c q \<longleftrightarrow> linked_ok (\<lambda>x r. attached q x r \<and> x \<noteq> c) q \<and> act_ok q \<and> tree_wf q \<and> dead_ok q"

definition waits_ok :: "(cid \<Rightarrow> bool) \<Rightarrow> 'q htb_sched \<Rightarrow> bool" where
  "waits_ok W q \<longleftrightarrow> (\<forall>l. (\<forall>c. c \<in> set (wait_pq q l) \<longleftrightarrow> level (cls q c) = l \<and> W c) \<and> distinct (wait_pq q l) \<and>
    sorted_wrt (\<lambda>c d. keys q c \<le> keys q d) (wait_pq q l) \<and> (\<forall>c\<in>set (wait_pq q l). pq_node (cls q c)))"

definition waiting :: "'q htb_sched \<Rightarrow> cid \<Rightarrow> bool" where
  "waiting q c \<longleftrightarrow> c \<in> set (clhash q) \<and> cmode (cls q c) \<noteq> HTB_CAN_SEND"

definition drops_ok :: "'q htb_sched \<Rightarrow> bool" where
  "drops_ok q \<longleftrightarrow> (\<forall>r c. c \<in> set (drops q r) \<longleftrightarrow> level (cls q c) = 0 \<and> bit (prio_activity (cls q c)) r) \<and>
    (\<forall>c r r'. level (cls q c) = 0 \<longrightarrow> bit (prio_activity (cls q c)) r \<longrightarrow> bit (prio_activity (cls q c)) r' \<longrightarrow> r = r')"

definition kids :: "'q htb_sched \<Rightarrow> cid \<Rightarrow> cid set" where
  "kids q c = {d \<in> set (clhash q). parent (cls q d) = Some c}"

definition family_ok :: "'q htb_sched \<Rightarrow> bool" where
  "family_ok q \<longleftrightarrow> distinct (clhash q) \<and>
    (\<forall>c\<in>set (clhash q). 0 \<le> prio (cls q c) \<and> prio (cls q c) < int TC_HTB_NUMPRIO \<and>
      children (cls q c) = card (kids q c) \<and>
      (level (cls q c) = 0 \<longleftrightarrow> children (cls q c) = 0))"

definition settled :: "'q htb_sched \<Rightarrow> bool" where
  "settled q \<longleftrightarrow> base_ok q \<and> waits_ok (waiting q) q \<and> drops_ok q \<and> family_ok q \<and> faults q = 0"

lemma family_ok_cong:
  assumes "clhash q' = clhash q" "\<And>x. prio (cls q' x) = prio (cls q x)" "\<And>x. children (cls q' x) = children (cls q x)"
    "\<And>x. level (cls q' x) = level (cls q x)" "\<And>x. parent (cls q' x) = parent (cls q x)"
  shows "family_ok q' = family_ok q"
proof -
  have "kids q' = kids q" by (simp add: kids_def assms fun_eq_iff)
  then show ?thesis by (simp add: family_ok_def assms)
qed

section \<open>Linking a class\<close>

lemma u32_eqI: "(\<And>r. bit a r = bit b r) \<Longrightarrow> a = (b :: u32)"
  by (rule bit_eqI) simp

definition below_same :: "cid \<Rightarrow> 'q htb_sched \<Rightarrow> 'q htb_sched \<Rightarrow> bool" where
  "below_same c q q' \<longleftrightarrow> srest q' = srest q \<and>
    (\<forall>x. \<not> level (cls q c) < level (cls q x) \<longrightarrow> prio_activity (cls q' x) = prio_activity (cls q x))"

lemma base_unlinked:
  assumes "base_ok q" "prio_activity (cls q c) = 0"
  shows "unlinked c q"
proof -
  have "(\<lambda>x r. attached q x r \<and> x \<noteq> c) = attached q" using assms(2) by (auto simp: attached_def fun_eq_iff)
  then show ?thesis using assms(1) by (simp add: base_ok_def unlinked_def)
qed

lemma deactivate_prios_ok:
  assumes "base_ok q" "c \<in> set (clhash q)"
  shows "unlinked c (htb_deactivate_prios c q)" "below_same c q (htb_deactivate_prios c q)"
    "\<not> bit (prio_activity (cls q c)) r \<Longrightarrow> attached (htb_deactivate_prios c q) x r = attached q x r"
proof -
  let ?q = "htb_deactivate_prios c q" and ?m = "prio_activity (cls q c)"
  have "climb_ok c (attached q) q" using assms by (simp add: climb_ok_def base_ok_def attached_def)
  then obtain R where R: "ancestral c q R \<and> (\<forall>x r. R x r \<longrightarrow> bit ?m r)" "srest ?q = srest q"
    "linked_ok (\<lambda>x r. attached q x r \<and> \<not> (x = c \<and> bit ?m r) \<and> \<not> R x r) ?q" "act_ok ?q"
    "\<And>x r. bit (prio_activity (cls ?q x)) r \<longleftrightarrow> bit (prio_activity (cls q x)) r \<and> \<not> R x r"
    using deactivate_chain [of c "attached q" q TC_HTB_MAXDEPTH ?m]
    unfolding htb_deactivate_prios_def by (auto simp: attached_def)
  have Rc: "R x r \<Longrightarrow> x \<in> set (clhash q) \<and> level (cls q c) < level (cls q x)" for x r
    using R(1) unfolding ancestral_def by blast
  have "(\<lambda>x r. attached q x r \<and> \<not> (x = c \<and> bit ?m r) \<and> \<not> R x r) = (\<lambda>x r. attached ?q x r \<and> x \<noteq> c)"
    using R(5) by (auto simp: attached_def fun_eq_iff)
  moreover have "dead_ok ?q"
    using assms(1) R(5) srest_fields(1) [OF R(2)] by (auto simp: base_ok_def dead_ok_def mask_zero_iff)
  moreover have "tree_wf ?q" using assms(1) tree_wf_srest [OF R(2)] by (simp add: base_ok_def)
  ultimately show "unlinked c ?q" using R(3,4) by (simp add: unlinked_def)
  show "below_same c q ?q" using R(2,5) Rc by (auto simp: below_same_def intro!: u32_eqI)
  show "\<not> bit ?m r \<Longrightarrow> attached ?q x r = attached q x r" using R(1,5) by (auto simp: attached_def)
qed

lemma activate_prios_ok:
  assumes "unlinked c q" "c \<in> set (clhash q)"
  shows "base_ok (htb_activate_prios c q)" "below_same c q (htb_activate_prios c q)"
proof -
  let ?q = "htb_activate_prios c q" and ?m = "prio_activity (cls q c)" and ?att = "\<lambda>x r. attached q x r \<and> x \<noteq> c"
  have "climb_ok c ?att q" using assms by (auto simp: climb_ok_def unlinked_def attached_def)
  moreover have "bit ?m r \<Longrightarrow> r < TC_HTB_NUMPRIO" for r using assms(1) act_okD(1) by (auto simp: unlinked_def)
  ultimately obtain R where R: "ancestral c q R" "srest ?q = srest q"
    "linked_ok (\<lambda>x r. ?att x r \<or> x = c \<and> bit ?m r \<or> R x r) ?q" "act_ok ?q"
    "\<And>x r. bit (prio_activity (cls ?q x)) r \<longleftrightarrow> bit (prio_activity (cls q x)) r \<or> R x r"
    using activate_chain [of c ?att q TC_HTB_MAXDEPTH ?m]
    unfolding htb_activate_prios_def by auto
  have Rc: "R x r \<Longrightarrow> x \<in> set (clhash q) \<and> level (cls q c) < level (cls q x)" for x r
    using R(1) unfolding ancestral_def by blast
  have "(\<lambda>x r. ?att x r \<or> x = c \<and> bit ?m r \<or> R x r) = attached ?q"
    using R(5) by (auto simp: attached_def fun_eq_iff)
  moreover have "dead_ok ?q"
    using assms(1) R(5) Rc srest_fields(1) [OF R(2)] by (auto simp: unlinked_def dead_ok_def mask_zero_iff)
  moreover have "tree_wf ?q" using assms(1) tree_wf_srest [OF R(2)] by (simp add: unlinked_def)
  ultimately show "base_ok ?q" using R(3,4) by (simp add: base_ok_def)
  show "below_same c q ?q" using R(2,5) Rc by (auto simp: below_same_def intro!: u32_eqI)
qed

section \<open>Changing the mode\<close>

text \<open>Updates of fields that \<open>base_ok\<close> does not read.\<close>

definition bview :: "'q htb_class \<Rightarrow> _" where
  "bview x = (lview x, prio_activity x)"

lemma base_ok_cong:
  assumes "\<And>x. bview (cls q' x) = bview (cls q x)" "row q' = row q" "row_mask q' = row_mask q" "rptr q' = rptr q"
    "clhash q' = clhash q"
  shows "base_ok q' = base_ok q" "unlinked c q' = unlinked c q"
proof -
  have l: "lview (cls q' x) = lview (cls q x)" and a: "prio_activity (cls q' x) = prio_activity (cls q x)" for x
    using assms(1) [of x] by (simp_all add: bview_def)
  have f: "parent (cls q' x) = parent (cls q x)" "level (cls q' x) = level (cls q x)" "feed (cls q' x) = feed (cls q x)" for x
    using l [of x] by (simp_all add: lview_def)
  have "attached q' = attached q" by (simp add: attached_def fun_eq_iff a)
  moreover have "linked_ok att q' = linked_ok att q" for att by (rule linked_ok_cong [OF l assms(2-4)])
  moreover have "act_ok q' = act_ok q" by (rule act_ok_cong) (simp add: aview_def a f)
  moreover have "tree_wf q' = tree_wf q" "dead_ok q' = dead_ok q" by (simp_all add: tree_wf_def dead_ok_def a f assms(5))
  ultimately show "base_ok q' = base_ok q" "unlinked c q' = unlinked c q" by (simp_all add: base_ok_def unlinked_def)
qed

lemma unlinked_set_cmode:
  assumes "unlinked c q"
  shows "unlinked c (set_cmode c m q)"
proof -
  let ?q = "set_cmode c m q" and ?att = "\<lambda>x r. attached q x r \<and> x \<noteq> c"
  have q: "attached ?q = attached q" "row ?q = row q" "row_mask ?q = row_mask q" "rptr ?q = rptr q" "clhash ?q = clhash q"
    by (simp_all add: set_cmode_def attached_def fun_eq_iff)
  have x: "feed (cls ?q x) = feed (cls q x)" "iptr (cls ?q x) = iptr (cls q x)" "node (cls ?q x) = node (cls q x)"
    "level (cls ?q x) = level (cls q x)" "parent (cls ?q x) = parent (cls q x)" "ids ?q x = ids q x"
    "prio_activity (cls ?q x) = prio_activity (cls q x)" for x
    by (simp_all add: set_cmode_def ids_def)
  have "in_feed ?att ?q p r = in_feed ?att q p r" "in_row ?att ?q l r = in_row ?att q l r" for p l r
    by (auto simp: in_feed_def in_row_def fun_eq_iff set_cmode_def)
  then have "linked_ok ?att ?q = linked_ok ?att q" by (simp add: linked_ok_def tree_ok_def q x)
  moreover have "act_ok ?q = act_ok q" "tree_wf ?q = tree_wf q" "dead_ok ?q = dead_ok q"
    by (simp_all add: act_ok_def tree_wf_def dead_ok_def q x)
  ultimately show ?thesis using assms by (simp add: unlinked_def q(1))
qed

lemma unlinked_cant_send:
  assumes "unlinked c q" "cmode (cls q c) = HTB_CANT_SEND"
  shows "base_ok q"
proof -
  have "linked_ok (attached q) q"
    by (rule linked_ok_att [of "\<lambda>x r. attached q x r \<and> x \<noteq> c"])
      (use assms in \<open>auto simp: unlinked_def in_feed_def in_row_def\<close>)
  then show ?thesis using assms(1) by (simp add: base_ok_def unlinked_def)
qed

lemma cant_send_unlinked:
  assumes "base_ok q" "cmode (cls q c) = HTB_CANT_SEND"
  shows "unlinked c q"
proof -
  have "linked_ok (\<lambda>x r. attached q x r \<and> x \<noteq> c) q"
    by (rule linked_ok_att [of "attached q"]) (use assms in \<open>auto simp: base_ok_def in_feed_def in_row_def\<close>)
  then show ?thesis using assms(1) by (simp add: base_ok_def unlinked_def)
qed

definition mode_set :: "cid \<Rightarrow> htb_cmode \<Rightarrow> 'q htb_sched \<Rightarrow> 'q htb_sched \<Rightarrow> bool" where
  "mode_set c m q q' \<longleftrightarrow> srest q' = srest (set_cmode c m q) \<and>
    (\<forall>x. \<not> level (cls q c) < level (cls q x) \<longrightarrow> prio_activity (cls q' x) = prio_activity (cls q x))"

lemma srest_set_cmode: "srest q = srest q' \<Longrightarrow> srest (set_cmode c m q) = srest (set_cmode c m q')"
proof -
  assume eq: "srest q = srest q'"
  have "rest (cls (set_cmode c m q) x) = rest (cls (set_cmode c m q') x)" for x
    using srest_cls [OF eq, of x] by (cases "cls q x"; cases "cls q' x") (auto simp: set_cmode_def rest_def)
  then show ?thesis
    using eq by (cases q; cases q') (simp add: srest_def set_cmode_def upd_def fun_eq_iff)
qed

lemma set_cmode_same: "cmode (cls q c) = m \<Longrightarrow> set_cmode c m q = q"
  by (cases q) (auto simp: set_cmode_def upd_def fun_eq_iff)

lemma level_set_cmode [simp]: "level (cls (set_cmode c m q) x) = level (cls q x)"
  "prio_activity (cls (set_cmode c m q) x) = prio_activity (cls q x)" "clhash (set_cmode c m q) = clhash q"
  "cmode (cls (set_cmode c m q) c) = m"
  by (simp_all add: set_cmode_def)

lemma change_mode_ok:
  fixes q :: "'q htb_sched" and E :: "'q htb_env" and diff :: int
  assumes "base_ok q" "c \<in> set (clhash q)"
  defines "m \<equiv> fst (htb_class_mode E (cls q c) diff)" and "q' \<equiv> snd (htb_change_class_mode E c diff q)"
  shows "base_ok q'" "mode_set c m q q'" "fst (htb_change_class_mode E c diff q) = snd (htb_class_mode E (cls q c) diff)"
proof -
  show "fst (htb_change_class_mode E c diff q) = snd (htb_class_mode E (cls q c) diff)"
    by (simp add: htb_change_class_mode_def Let_def split: prod.split)
  let ?q1 = "if cmode (cls q c) \<noteq> HTB_CANT_SEND then htb_deactivate_prios c q else q"
  let ?q2 = "set_cmode c m ?q1"
  let ?q3 = "if m \<noteq> HTB_CANT_SEND then htb_activate_prios c ?q2 else ?q2"
  consider (same) "m = cmode (cls q c)" "q' = q"
    | (active) "m \<noteq> cmode (cls q c)" "q' = ?q3"
    | (idle) "m \<noteq> cmode (cls q c)" "prio_activity (cls q c) = 0" "q' = set_cmode c m q"
  proof -
    obtain d where "htb_class_mode E (cls q c) diff = (m, d)" unfolding m_def by (metis prod.collapse)
    then show thesis using that unfolding q'_def htb_change_class_mode_def Let_def
      by (cases "m = cmode (cls q c)"; cases "prio_activity (cls q c) = 0") simp_all
  qed
  then have "base_ok q' \<and> mode_set c m q q'"
  proof cases
    case same
    then show ?thesis using assms(1) by (simp add: mode_set_def set_cmode_same)
  next
    case active
    have u1: "unlinked c ?q1" and b1: "below_same c q ?q1"
      using deactivate_prios_ok [OF assms(1,2)] cant_send_unlinked [OF assms(1), of c] by (auto simp: below_same_def)
    have s1: "srest ?q1 = srest q" using b1 by (simp only: below_same_def)
    have u2: "unlinked c ?q2" by (rule unlinked_set_cmode [OF u1])
    have c2: "c \<in> set (clhash ?q2)" using assms(2) srest_fields(1) [OF s1] by simp
    have "base_ok ?q3 \<and> below_same c ?q2 ?q3"
      using activate_prios_ok [OF u2 c2] unlinked_cant_send [OF u2] by (simp add: below_same_def)
    moreover have "level (cls ?q2 x) = level (cls q x)" for x using srest_classes(3) [OF s1] by simp
    ultimately show ?thesis
      using b1 srest_set_cmode [OF s1, of c m] unfolding active(2) mode_set_def below_same_def by simp
  next
    case idle
    have u: "unlinked c q" by (rule base_unlinked [OF assms(1) idle(2)])
    have "attached (set_cmode c m q) = (\<lambda>x r. attached (set_cmode c m q) x r \<and> x \<noteq> c)"
      using idle(2) by (auto simp: attached_def fun_eq_iff)
    then have "base_ok (set_cmode c m q)"
      using unlinked_set_cmode [OF u, of m] by (simp add: base_ok_def unlinked_def)
    then show ?thesis using idle(3) by (simp add: mode_set_def)
  qed
  then show "base_ok q'" "mode_set c m q q'" by auto
qed

section \<open>The wait queues\<close>

lemma waits_ok_cong:
  assumes "wait_pq q' = wait_pq q" "\<And>x. level (cls q' x) = level (cls q x)" "\<And>x. pq_key (cls q' x) = pq_key (cls q x)"
    "\<And>x. pq_node (cls q' x) = pq_node (cls q x)"
  shows "waits_ok W q' = waits_ok W q"
  using assms by (simp add: waits_ok_def keys_def)

lemma mode_set_fields:
  assumes "mode_set c m q q'"
  shows "wait_pq q' = wait_pq q" "level (cls q' x) = level (cls q x)" "pq_key (cls q' x) = pq_key (cls q x)"
    "pq_node (cls q' x) = pq_node (cls q x)" "clhash q' = clhash q" "drops q' = drops q" "faults q' = faults q"
    "cmode (cls q' x) = (if x = c then m else cmode (cls q x))" "now q' = now q"
    "children (cls q' x) = children (cls q x)" "parent (cls q' x) = parent (cls q x)" "prio (cls q' x) = prio (cls q x)"
  using srest_classes [of q' "set_cmode c m q" x] srest_fields [of q' "set_cmode c m q"] assms
  by (simp_all add: mode_set_def set_cmode_def)

lemma mode_set_ok:
  assumes "mode_set c m q q'"
  shows "waits_ok W q' = waits_ok W q" "drops_ok q \<Longrightarrow> c \<in> set (clhash q) \<Longrightarrow> drops_ok q'" "family_ok q' = family_ok q"
proof -
  note fs = mode_set_fields [OF assms]
  show "waits_ok W q' = waits_ok W q" by (rule waits_ok_cong) (simp_all add: fs)
  have "level (cls q x) = 0 \<Longrightarrow> prio_activity (cls q' x) = prio_activity (cls q x)" for x
    using assms by (simp add: mode_set_def)
  then show "drops_ok q'" if "drops_ok q"
    using that by (auto simp: drops_ok_def fs)
  show "family_ok q' = family_ok q" by (rule family_ok_cong) (simp_all add: fs)
qed

lemma sorted_keys_upd:
  "c \<notin> set xs \<Longrightarrow> sorted_wrt (\<lambda>a b. keys (upd c f q) a \<le> keys (upd c f q) b) xs = sorted_wrt (\<lambda>a b. keys q a \<le> keys q b) xs"
  by (induction xs) (auto simp: keys_def)

lemma erase_pq_ok:
  fixes q :: "'q htb_sched"
  assumes "waits_ok W q" "W c"
  defines "q' \<equiv> erase_pq (level (cls q c)) c q"
  shows "waits_ok (\<lambda>x. W x \<and> x \<noteq> c) q'" "faults q' = faults q"
proof -
  have w: "c \<in> set (wait_pq q (level (cls q c)))" "pq_node (cls q c)" using assms(1,2) by (auto simp: waits_ok_def)
  show "faults q' = faults q" using w by (simp add: erase_pq_def q'_def)
  have e: "wait_pq q' k = (if k = level (cls q c) then remove1 c (wait_pq q k) else wait_pq q k)"
    "keys q' = keys q" "level (cls q' x) = level (cls q x)" "pq_node (cls q' x) = (x \<noteq> c \<and> pq_node (cls q x))" for k x
    using w by (auto simp: erase_pq_def keys_def fun_eq_iff q'_def)
  have "sorted_wrt (\<lambda>c d. keys q c \<le> keys q d) (wait_pq q' k)" for k
    using assms(1) wait_tree.sorted_remove1 [of "keys q" "wait_pq q k" c]
    by (cases "k = level (cls q c)") (simp_all add: waits_ok_def e)
  then show "waits_ok (\<lambda>x. W x \<and> x \<noteq> c) q'"
    using assms(1) by (auto simp: waits_ok_def e)
qed

definition new_key :: "int \<Rightarrow> 'q htb_sched \<Rightarrow> int" where
  "new_key delay q = (if delay = 0 then now q + 1 else now q + delay)"

lemma add_to_wait_tree_fields:
  fixes q :: "'q htb_sched"
  defines "q' \<equiv> \<lambda>c delay (q :: 'q htb_sched). htb_add_to_wait_tree c delay q"
  shows "wait_pq (q' c delay q) k = (if k = level (cls q c)
      then link_before (\<lambda>d. keys (q' c delay q) d \<le> keys (q' c delay q) c) c (wait_pq q k) else wait_pq q k)"
    "keys (q' c delay q) x = (if x = c then new_key delay q else keys q x)"
    "pq_node (cls (q' c delay q) x) = (x = c \<or> pq_node (cls q x))"
    "bview (cls (q' c delay q) x) = bview (cls q x)" "row (q' c delay q) = row q" "row_mask (q' c delay q) = row_mask q"
    "rptr (q' c delay q) = rptr q" "clhash (q' c delay q) = clhash q" "drops (q' c delay q) = drops q"
    "faults (q' c delay q) = faults q" "now (q' c delay q) = now q"
    "level (cls (q' c delay q) x) = level (cls q x)" "children (cls (q' c delay q) x) = children (cls q x)"
    "parent (cls (q' c delay q) x) = parent (cls q x)" "prio (cls (q' c delay q) x) = prio (cls q x)"
    "cmode (cls (q' c delay q) x) = cmode (cls q x)" "prio_activity (cls (q' c delay q) x) = prio_activity (cls q x)"
  by (auto simp: q'_def htb_add_to_wait_tree_def Let_def new_key_def keys_def bview_def lview_def)

lemma add_to_wait_tree_ok:
  assumes "waits_ok W q" "\<not> W c"
  shows "waits_ok (\<lambda>x. W x \<or> x = c) (htb_add_to_wait_tree c delay q)"
proof -
  let ?q = "htb_add_to_wait_tree c delay q" and ?l = "level (cls q c)"
  note fs = add_to_wait_tree_fields [of c delay q]
  have c: "c \<notin> set (wait_pq q k)" for k using assms by (auto simp: waits_ok_def)
  have s: "sorted_wrt (\<lambda>a b. keys ?q a \<le> keys ?q b) (wait_pq q k)" for k
  proof -
    have "sorted_wrt (\<lambda>a b. keys q a \<le> keys q b) (wait_pq q k)" using assms by (simp add: waits_ok_def)
    then show ?thesis by (rule sorted_wrt_mono_rel [rotated]) (use c [of k] in \<open>auto simp: fs(2)\<close>)
  qed
  have "sorted_wrt (\<lambda>a b. keys ?q a \<le> keys ?q b) (wait_pq ?q k)" for k
    using s [of k] wait_tree.sorted_link [of "keys ?q" "wait_pq q k" c]
    by (cases "k = ?l") (simp_all add: fs(1))
  moreover have "distinct (wait_pq ?q k)" for k using assms(1) c [of k] by (simp add: fs(1) waits_ok_def)
  ultimately show ?thesis using assms by (auto simp: waits_ok_def fs)
qed

section \<open>What the operations on modes leave alone\<close>

definition same_queues :: "'q htb_sched \<Rightarrow> 'q htb_sched \<Rightarrow> bool" where
  "same_queues q q' \<longleftrightarrow> clhash q' = clhash q \<and> qlen q' = qlen q \<and> ofbuf q' = ofbuf q \<and> ofbuf_queued q' = ofbuf_queued q \<and>
    direct_queue q' = direct_queue q \<and> now q' = now q \<and> handle q' = handle q \<and> defcls q' = defcls q \<and> filter_list q' = filter_list q \<and>
    (\<forall>x. parent (cls q' x) = parent (cls q x) \<and> level (cls q' x) = level (cls q x) \<and> leaf_q (cls q' x) = leaf_q (cls q x) \<and>
      classid (cls q' x) = classid (cls q x) \<and> cfilter_list (cls q' x) = cfilter_list (cls q x))"

lemma same_queues_refl [simp]: "same_queues q q"
  by (simp add: same_queues_def)

lemma same_queues_trans [trans]: "same_queues q q' \<Longrightarrow> same_queues q' q'' \<Longrightarrow> same_queues q q''"
  by (simp add: same_queues_def)

lemma same_queuesD:
  assumes "same_queues q q'"
  shows "clhash q' = clhash q" "qlen q' = qlen q" "ofbuf q' = ofbuf q" "ofbuf_queued q' = ofbuf_queued q"
    "direct_queue q' = direct_queue q" "now q' = now q" "parent (cls q' x) = parent (cls q x)"
    "level (cls q' x) = level (cls q x)" "leaf_q (cls q' x) = leaf_q (cls q x)"
    "handle q' = handle q" "defcls q' = defcls q" "filter_list q' = filter_list q"
    "classid (cls q' x) = classid (cls q x)" "cfilter_list (cls q' x) = cfilter_list (cls q x)"
  using assms by (simp_all add: same_queues_def)

lemma srest_same_queues: "srest q' = srest q \<Longrightarrow> same_queues q q'"
  by (simp add: same_queues_def srest_fields [of q' q] srest_classes [of q' q])

lemma upd_same_queues:
  "parent (f (cls q c)) = parent (cls q c) \<Longrightarrow> level (f (cls q c)) = level (cls q c) \<Longrightarrow> leaf_q (f (cls q c)) = leaf_q (cls q c) \<Longrightarrow>
    classid (f (cls q c)) = classid (cls q c) \<Longrightarrow> cfilter_list (f (cls q c)) = cfilter_list (cls q c) \<Longrightarrow> same_queues q (upd c f q)"
  by (simp add: same_queues_def)

lemma mode_set_same_queues: "mode_set c m q q' \<Longrightarrow> same_queues q q'"
  using same_queues_trans [OF upd_same_queues srest_same_queues, of "\<lambda>x. x\<lparr>cmode := m\<rparr>" q c q']
  by (simp add: mode_set_def set_cmode_def)

lemma add_to_wait_tree_same_queues: "same_queues q (htb_add_to_wait_tree c delay q)"
  by (simp add: same_queues_def htb_add_to_wait_tree_def Let_def)

lemma erase_pq_same_queues: "same_queues q (erase_pq l c q)"
  by (simp add: same_queues_def erase_pq_def fault_def)

text \<open>The fields \<open>settled\<close> reads.\<close>

definition sview :: "'q htb_class \<Rightarrow> _" where
  "sview x = (bview x, pq_key x, pq_node x, prio x, children x)"

definition strees :: "'q htb_sched \<Rightarrow> _" where
  "strees q = (row q, row_mask q, rptr q, clhash q, wait_pq q, drops q, faults q)"

lemma settled_cong:
  assumes "\<And>x. sview (cls q' x) = sview (cls q x)" "strees q' = strees q"
  shows "settled q' = settled q"
proof -
  have b: "bview (cls q' x) = bview (cls q x)" for x using assms(1) [of x] by (simp add: sview_def)
  have f: "pq_key (cls q' x) = pq_key (cls q x)" "pq_node (cls q' x) = pq_node (cls q x)" "prio (cls q' x) = prio (cls q x)"
    "children (cls q' x) = children (cls q x)" "level (cls q' x) = level (cls q x)" "parent (cls q' x) = parent (cls q x)"
    "cmode (cls q' x) = cmode (cls q x)" "prio_activity (cls q' x) = prio_activity (cls q x)" for x
    using assms(1) [of x] by (simp_all add: sview_def bview_def lview_def)
  have s: "row q' = row q" "row_mask q' = row_mask q" "rptr q' = rptr q" "clhash q' = clhash q" "wait_pq q' = wait_pq q"
    "drops q' = drops q" "faults q' = faults q"
    using assms(2) by (simp_all add: strees_def)
  have w: "waiting q' = waiting q" by (simp add: waiting_def fun_eq_iff f s)
  have "waits_ok W q' = waits_ok W q" for W by (rule waits_ok_cong) (simp_all add: f s)
  moreover have "drops_ok q' = drops_ok q" by (simp add: drops_ok_def f s)
  moreover have "family_ok q' = family_ok q" by (rule family_ok_cong) (simp_all add: f s)
  ultimately show ?thesis using base_ok_cong(1) [OF b s(1-4)] by (simp add: settled_def w s)
qed

lemma settled_upd: "sview (f (cls q c)) = sview (cls q c) \<Longrightarrow> settled (upd c f q) = settled q"
  by (rule settled_cong) (simp_all add: strees_def)

section \<open>Charging\<close>

text \<open>A state in which \<open>c\<close> is out of the wait queues, and what entering it settles.\<close>

definition out_of_wait :: "cid \<Rightarrow> 'q htb_sched \<Rightarrow> bool" where
  "out_of_wait c q \<longleftrightarrow> base_ok q \<and> waits_ok (\<lambda>x. waiting q x \<and> x \<noteq> c) q \<and> drops_ok q \<and> family_ok q \<and> faults q = 0 \<and>
    c \<in> set (clhash q)"

definition wait_if_needed :: "cid \<Rightarrow> int \<Rightarrow> 'q htb_sched \<Rightarrow> 'q htb_sched" where
  "wait_if_needed c d q = (if cmode (cls q c) \<noteq> HTB_CAN_SEND then htb_add_to_wait_tree c d q else q)"

lemma wait_if_needed_ok:
  assumes "out_of_wait c q"
  shows "settled (wait_if_needed c d q)" "same_queues q (wait_if_needed c d q)"
proof -
  have pre: "base_ok q" "waits_ok (\<lambda>x. waiting q x \<and> x \<noteq> c) q" "drops_ok q" "family_ok q" "faults q = 0" "c \<in> set (clhash q)"
    using assms by (simp_all add: out_of_wait_def)
  let ?q = "htb_add_to_wait_tree c d q"
  note wf = add_to_wait_tree_fields [of c d q]
  show "settled (wait_if_needed c d q)"
  proof (cases "cmode (cls q c) = HTB_CAN_SEND")
    case True
    then have "waiting q = (\<lambda>x. waiting q x \<and> x \<noteq> c)" by (auto simp: waiting_def fun_eq_iff)
    then show ?thesis using True pre by (simp add: settled_def wait_if_needed_def)
  next
    case False
    have wq: "waiting ?q = (\<lambda>x. (waiting q x \<and> x \<noteq> c) \<or> x = c)"
      using False pre(6) by (auto simp: waiting_def wf fun_eq_iff)
    have "base_ok ?q" using pre(1) base_ok_cong(1) [of ?q q] by (simp add: wf)
    moreover have "waits_ok (waiting ?q) ?q" unfolding wq by (rule add_to_wait_tree_ok [OF pre(2)]) simp
    moreover have "drops_ok ?q" using pre(3) by (simp add: drops_ok_def wf)
    moreover have "family_ok ?q" using pre(4) family_ok_cong [of ?q q] by (simp add: wf)
    ultimately show ?thesis using False pre(5) by (simp add: settled_def wait_if_needed_def wf)
  qed
  show "same_queues q (wait_if_needed c d q)"
    by (simp add: wait_if_needed_def add_to_wait_tree_same_queues)
qed

lemma mode_set_out:
  assumes "mode_set c m q q'" "base_ok q'" "out_of_wait c q"
  shows "out_of_wait c q'"
proof -
  note fs = mode_set_fields [OF assms(1)] and ok = mode_set_ok [OF assms(1)]
  have "(\<lambda>x. waiting q' x \<and> x \<noteq> c) = (\<lambda>x. waiting q x \<and> x \<noteq> c)" by (auto simp: waiting_def fs fun_eq_iff)
  then show ?thesis using assms(2,3) ok by (simp add: out_of_wait_def fs)
qed

lemma erase_pq_fields:
  "bview (cls (erase_pq l c q) x) = bview (cls q x)" "row (erase_pq l c q) = row q" "row_mask (erase_pq l c q) = row_mask q"
  "rptr (erase_pq l c q) = rptr q" "clhash (erase_pq l c q) = clhash q" "drops (erase_pq l c q) = drops q"
  "level (cls (erase_pq l c q) x) = level (cls q x)" "prio (cls (erase_pq l c q) x) = prio (cls q x)"
  "children (cls (erase_pq l c q) x) = children (cls q x)" "parent (cls (erase_pq l c q) x) = parent (cls q x)"
  "cmode (cls (erase_pq l c q) x) = cmode (cls q x)" "prio_activity (cls (erase_pq l c q) x) = prio_activity (cls q x)"
  by (simp_all add: erase_pq_def bview_def lview_def fault_def)

lemma erase_pq_out:
  fixes q :: "'q htb_sched"
  assumes "base_ok q" "waits_ok W q" "W c" "\<And>x. x \<noteq> c \<Longrightarrow> W x = waiting q x" "drops_ok q" "family_ok q" "faults q = 0"
    "c \<in> set (clhash q)"
  shows "out_of_wait c (erase_pq (level (cls q c)) c q)"
proof -
  let ?q = "erase_pq (level (cls q c)) c q"
  note fs = erase_pq_fields [of "level (cls q c)" c q]
  have "(\<lambda>x. waiting ?q x \<and> x \<noteq> c) = (\<lambda>x. W x \<and> x \<noteq> c)" using assms(4) by (auto simp: waiting_def fun_eq_iff fs)
  moreover have "base_ok ?q" using assms(1) base_ok_cong(1) [of ?q q] by (simp add: fs)
  moreover have "drops_ok ?q" using assms(5) by (simp add: drops_ok_def fs)
  moreover have "family_ok ?q" using assms(6) family_ok_cong [of ?q q] by (simp add: fs)
  ultimately show ?thesis using erase_pq_ok [OF assms(2,3)] assms(7,8) by (simp add: out_of_wait_def fs)
qed

lemma charge_mode_ok:
  assumes "settled q" "c \<in> set (clhash q)"
  shows "settled (charge_mode E c q)" "same_queues q (charge_mode E c q)"
proof -
  obtain d q' where ch: "htb_change_class_mode E c 0 q = (d, q')" by (cases "htb_change_class_mode E c 0 q")
  let ?m = "fst (htb_class_mode E (cls q c) 0)"
  have s: "base_ok q" "waits_ok (waiting q) q" "drops_ok q" "family_ok q" "faults q = 0"
    using assms(1) by (simp_all add: settled_def)
  have b: "base_ok q'" and ms: "mode_set c ?m q q'"
    using change_mode_ok(1,2) [OF s(1) assms(2), of E 0] by (simp_all add: ch)
  note fs = mode_set_fields [OF ms] and ok = mode_set_ok [OF ms]
  have w: "waits_ok (waiting q) q'" "drops_ok q'" "family_ok q'" "faults q' = 0" "c \<in> set (clhash q')"
    using s assms(2) ok by (simp_all add: fs)
  define q2 where "q2 = (if cmode (cls q c) \<noteq> HTB_CAN_SEND then erase_pq (level (cls q' c)) c q' else q')"
  have eq: "charge_mode E c q = (if cmode (cls q c) = ?m then q' else wait_if_needed c d q2)"
    by (simp add: charge_mode_def ch fs wait_if_needed_def erase_pq_fields q2_def Let_def)
  have o2: "out_of_wait c q2"
  proof (cases "cmode (cls q c) = HTB_CAN_SEND")
    case True
    then have "(\<lambda>x. waiting q' x \<and> x \<noteq> c) = waiting q" by (auto simp: waiting_def fs fun_eq_iff)
    then show ?thesis using True b w by (simp add: out_of_wait_def q2_def)
  next
    case False
    then show ?thesis using erase_pq_out [OF b w(1) _ _ w(2-5)] assms(2) by (simp add: waiting_def fs q2_def)
  qed
  have "settled q'" if "cmode (cls q c) = ?m"
  proof -
    have "waiting q' = waiting q" using that by (simp add: waiting_def fs fun_eq_iff)
    then show ?thesis using b w by (simp add: settled_def)
  qed
  then show "settled (charge_mode E c q)" unfolding eq using wait_if_needed_ok(1) [OF o2] by simp
  have "same_queues q' q2" by (simp add: q2_def erase_pq_same_queues)
  then have "same_queues q q2" using same_queues_trans [OF mode_set_same_queues [OF ms]] by blast
  then show "same_queues q (charge_mode E c q)"
    unfolding eq using mode_set_same_queues [OF ms] wait_if_needed_ok(2) [OF o2] same_queues_trans by auto
qed

lemma charge_tokens_fields:
  "sview (charge_tokens E t lv s x) = sview x" "level (charge_tokens E t lv s x) = level x"
  "parent (charge_tokens E t lv s x) = parent x" "leaf_q (charge_tokens E t lv s x) = leaf_q x"
  "classid (charge_tokens E t lv s x) = classid x" "cfilter_list (charge_tokens E t lv s x) = cfilter_list x"
  by (simp_all add: charge_tokens_def htb_accnt_tokens_def htb_accnt_ctokens_def Let_def sview_def bview_def lview_def)

lemma bstats_update_fields:
  "sview (bstats_update s x) = sview x" "level (bstats_update s x) = level x"
  "parent (bstats_update s x) = parent x" "leaf_q (bstats_update s x) = leaf_q x"
  "classid (bstats_update s x) = classid x" "cfilter_list (bstats_update s x) = cfilter_list x"
  by (simp_all add: bstats_update_def sview_def bview_def lview_def)

lemma settled_tree_wf: "settled q \<Longrightarrow> tree_wf q"
  by (simp add: settled_def base_ok_def)

lemma charge_loop_ok:
  assumes "settled q" "\<And>c. co = Some c \<Longrightarrow> c \<in> set (clhash q)"
  shows "settled (charge_loop E n co lv s q) \<and> same_queues q (charge_loop E n co lv s q)"
  using assms
proof (induction E n co lv s q rule: charge_loop.induct)
  case (3 E n c lv s q)
  let ?q1 = "upd c (charge_tokens E (now q) lv s) q"
  let ?q2 = "charge_mode E c ?q1"
  let ?q3 = "if level (cls ?q2 c) \<noteq> 0 then upd c (bstats_update s) ?q2 else ?q2"
  have 1: "settled ?q1" "same_queues q ?q1"
    using "3.prems"(1) by (simp_all add: settled_upd charge_tokens_fields upd_same_queues)
  then have c1: "c \<in> set (clhash ?q1)" using "3.prems"(2) by (simp add: same_queuesD(1))
  have 2: "settled ?q2" "same_queues q ?q2"
    using charge_mode_ok [OF 1(1) c1] same_queues_trans [OF 1(2)] by auto
  have 3: "settled ?q3" "same_queues q ?q3"
    using 2 same_queues_trans [OF 2(2) upd_same_queues, of "bstats_update s" c]
    by (simp_all add: settled_upd bstats_update_fields)
  have p: "x \<in> set (clhash ?q3)" if "parent (cls ?q3 c) = Some x" for x
    using that tree_wfD(2) [OF settled_tree_wf [OF 3(1)], of c x] "3.prems"(2) same_queuesD(1) [OF 3(2)] by simp
  have "settled (charge_loop E n (parent (cls ?q3 c)) lv s ?q3) \<and> same_queues ?q3 (charge_loop E n (parent (cls ?q3 c)) lv s ?q3)"
    using "3.IH" [OF refl refl refl 3(1) p] by blast
  then show ?case using same_queues_trans [OF 3(2)] by (simp add: Let_def)
qed auto

lemma charge_class_ok:
  assumes "settled q" "c \<in> set (clhash q)"
  shows "settled (htb_charge_class E c lv s q)" "same_queues q (htb_charge_class E c lv s q)"
  using charge_loop_ok [of q "Some c" E TC_HTB_MAXDEPTH lv s] assms by (simp_all add: htb_charge_class_def)

section \<open>Events\<close>

lemma do_events_step:
  "htb_do_events E l (Suc n) q =
    (if wait_pq q l = [] then (0, q)
     else let c = hd (wait_pq q l)
       in if pq_key (cls q c) > now q then (pq_key (cls q c), q)
          else let q1 = erase_pq l c q; diff = psched_tdiff_bounded E (now q1) (t_c (cls q1 c)) (mbuffer (cls q1 c));
                   ch = htb_change_class_mode E c diff q1
            in htb_do_events E l n (wait_if_needed c (fst ch) (snd ch)))"
  by (simp add: wait_if_needed_def Let_def split: prod.split)

lemma waits_hd:
  assumes "settled q" "wait_pq q l \<noteq> []"
  shows "level (cls q (hd (wait_pq q l))) = l" "waiting q (hd (wait_pq q l))"
  using assms hd_in_set [OF assms(2)] by (auto simp: settled_def waits_ok_def)

text \<open>One event: the class leaves its queue, changes its mode and may wait again.\<close>

lemma event_ok:
  fixes q :: "'q htb_sched"
  assumes "settled q" "waiting q c"
  defines "q1 \<equiv> erase_pq (level (cls q c)) c q"
  shows "settled (wait_if_needed c d (snd (htb_change_class_mode E c diff q1)))"
    "same_queues q (wait_if_needed c d (snd (htb_change_class_mode E c diff q1)))"
proof -
  have s: "base_ok q" "waits_ok (waiting q) q" "drops_ok q" "family_ok q" "faults q = 0" "c \<in> set (clhash q)"
    using assms(1,2) by (simp_all add: settled_def waiting_def)
  have o1: "out_of_wait c q1" unfolding q1_def by (rule erase_pq_out [OF s(1,2) assms(2) refl s(3-6)])
  then have b: "base_ok q1" "c \<in> set (clhash q1)" by (simp_all add: out_of_wait_def)
  note ch = change_mode_ok(1,2) [OF b, of E diff]
  have "same_queues q q1" by (simp add: q1_def erase_pq_same_queues)
  note sq = same_queues_trans [OF this mode_set_same_queues [OF ch(2)]]
  have o2: "out_of_wait c (snd (htb_change_class_mode E c diff q1))" by (rule mode_set_out [OF ch(2,1) o1])
  show "settled (wait_if_needed c d (snd (htb_change_class_mode E c diff q1)))"
    "same_queues q (wait_if_needed c d (snd (htb_change_class_mode E c diff q1)))"
    using wait_if_needed_ok [OF o2, of d] same_queues_trans [OF sq] by auto
qed

lemma do_events_ok: "settled q \<Longrightarrow> settled (snd (htb_do_events E l n q)) \<and> same_queues q (snd (htb_do_events E l n q))"
proof (induction n arbitrary: q)
  case 0
  have "settled (q\<lparr>warned := True\<rparr>) = settled q" by (rule settled_cong) (simp_all add: strees_def)
  then show ?case using 0 by (simp add: same_queues_def)
next
  case (Suc n)
  show ?case
  proof (cases "wait_pq q l = [] \<or> pq_key (cls q (hd (wait_pq q l))) > now q")
    case True
    then show ?thesis using Suc.prems by (auto simp: do_events_step Let_def simp del: htb_do_events.simps)
  next
    case False
    let ?c = "hd (wait_pq q l)"
    let ?q1 = "erase_pq l ?c q"
    let ?diff = "psched_tdiff_bounded E (now ?q1) (t_c (cls ?q1 ?c)) (mbuffer (cls ?q1 ?c))"
    let ?ch = "htb_change_class_mode E ?c ?diff ?q1"
    let ?q2 = "wait_if_needed ?c (fst ?ch) (snd ?ch)"
    have 2: "settled ?q2" "same_queues q ?q2"
      using event_ok [OF Suc.prems, of ?c "fst ?ch" E ?diff] waits_hd [OF Suc.prems, of l] False by simp_all
    have "htb_do_events E l (Suc n) q = htb_do_events E l n ?q2"
      using False by (simp only: do_events_step Let_def) simp
    then show ?thesis using Suc.IH [OF 2(1)] same_queues_trans [OF 2(2)] by simp
  qed
qed

section \<open>Activating and deactivating a leaf\<close>

lemma below_same_ok:
  assumes "below_same c q q'"
  shows "waits_ok W q' = waits_ok W q" "waiting q' = waiting q" "family_ok q' = family_ok q" "drops q' = drops q"
    "faults q' = faults q" "level (cls q' x) = level (cls q x)" "prio (cls q' x) = prio (cls q x)" "clhash q' = clhash q"
    "level (cls q x) = 0 \<Longrightarrow> prio_activity (cls q' x) = prio_activity (cls q x)" "same_queues q q'"
proof -
  have s: "srest q' = srest q" using assms(1) by (simp add: below_same_def)
  note sc = srest_classes [OF s] srest_fields [OF s]
  show "waits_ok W q' = waits_ok W q" by (rule waits_ok_cong) (simp_all add: sc)
  show "waiting q' = waiting q" by (simp add: waiting_def sc fun_eq_iff)
  show "family_ok q' = family_ok q" by (rule family_ok_cong) (simp_all add: sc)
  show "level (cls q x) = 0 \<Longrightarrow> prio_activity (cls q' x) = prio_activity (cls q x)"
    using assms(1) by (simp add: below_same_def)
  show "same_queues q q'" by (rule srest_same_queues [OF s])
  show "drops q' = drops q" "faults q' = faults q" "level (cls q' x) = level (cls q x)" "prio (cls q' x) = prio (cls q x)"
    "clhash q' = clhash q"
    by (simp_all add: sc)
qed

lemma deactivate_ok:
  assumes "settled q" "c \<in> set (clhash q)" "level (cls q c) = 0"
  shows "settled (htb_deactivate c q)" "same_queues q (htb_deactivate c q)"
    "prio_activity (cls (htb_deactivate c q) c) = 0"
    "\<not> bit (prio_activity (cls q c)) r \<Longrightarrow> row (htb_deactivate c q) l r = [] \<longleftrightarrow> row q l r = []"
    "level (cls q y) = 0 \<Longrightarrow> y \<noteq> c \<Longrightarrow> prio_activity (cls (htb_deactivate c q) y) = prio_activity (cls q y)"
proof -
  have s: "base_ok q" "waits_ok (waiting q) q" "drops_ok q" "family_ok q" "faults q = 0"
    using assms(1) by (simp_all add: settled_def)
  let ?q1 = "htb_deactivate_prios c q" and ?q = "htb_deactivate c q"
  have u: "unlinked c ?q1" and bs: "below_same c q ?q1" using deactivate_prios_ok [OF s(1) assms(2)] by auto
  note bo = below_same_ok [OF bs]
  have x: "cls ?q x = (if x = c then (cls ?q1 c)\<lparr>prio_activity := 0\<rparr> else cls ?q1 x)" for x
    by (simp add: htb_deactivate_def Let_def)
  have q: "row ?q = row ?q1" "row_mask ?q = row_mask ?q1" "rptr ?q = rptr ?q1" "clhash ?q = clhash ?q1"
    "wait_pq ?q = wait_pq ?q1" "faults ?q = faults ?q1" "drops ?q = (\<lambda>r. removeAll c (drops ?q1 r))"
    by (simp_all add: htb_deactivate_def Let_def)
  have "linked_ok (attached ?q) ?q"
  proof -
    have "attached ?q = (\<lambda>x r. attached ?q1 x r \<and> x \<noteq> c)" by (auto simp: attached_def x fun_eq_iff)
    moreover have "linked_ok att ?q = linked_ok att ?q1" for att
      by (rule linked_ok_cong) (simp_all add: q x lview_def)
    ultimately show ?thesis using u by (simp add: unlinked_def)
  qed
  moreover have "act_ok ?q" using u assms(3) bo(6) [of c] by (auto simp: unlinked_def act_ok_def x)
  moreover have "tree_wf ?q" "dead_ok ?q"
  proof -
    have "level (cls ?q y) = level (cls ?q1 y)" "parent (cls ?q y) = parent (cls ?q1 y)" for y by (simp_all add: x)
    then show "tree_wf ?q" using u by (simp add: unlinked_def tree_wf_def q)
    show "dead_ok ?q" using u by (simp add: unlinked_def dead_ok_def x q)
  qed
  moreover have "waits_ok (waiting ?q) ?q"
  proof -
    have "waiting ?q = waiting ?q1" by (simp add: waiting_def x q fun_eq_iff)
    moreover have "waits_ok W ?q = waits_ok W ?q1" for W by (rule waits_ok_cong) (simp_all add: x q)
    ultimately show ?thesis using s(2) bo(1,2) by simp
  qed
  moreover have "drops_ok ?q" using s(3) bo(9) by (auto simp: drops_ok_def x q bo(4,6))
  moreover have "family_ok ?q"
    using s(4) bo(3) family_ok_cong [of ?q ?q1] by (simp add: x q)
  ultimately show "settled ?q" using s(5) bo(5) by (simp add: settled_def base_ok_def q)
  have "same_queues ?q1 ?q" by (simp add: same_queues_def htb_deactivate_def Let_def)
  then show "same_queues q ?q" by (rule same_queues_trans [OF bo(10)])
  show "prio_activity (cls ?q c) = 0" by (simp add: x)
  show "level (cls q y) = 0 \<Longrightarrow> y \<noteq> c \<Longrightarrow> prio_activity (cls ?q y) = prio_activity (cls q y)" using bo(9) [of y] by (simp add: x)
  show "row ?q l r = [] \<longleftrightarrow> row q l r = []" if "\<not> bit (prio_activity (cls q c)) r"
  proof -
    have "in_row (\<lambda>x r. attached ?q1 x r \<and> x \<noteq> c) ?q1 l r y = in_row (attached q) q l r y" for y
      using deactivate_prios_ok(3) [OF s(1) assms(2) that, of y] that bs srest_classes(4) [of ?q1 q y] bo(6) [of y]
      by (auto simp: in_row_def below_same_def attached_def)
    moreover have "linked_ok (\<lambda>x r. attached ?q1 x r \<and> x \<noteq> c) ?q1" "linked_ok (attached q) q"
      using u s(1) by (simp_all add: unlinked_def base_ok_def)
    ultimately have "y \<in> set (row ?q1 l r) \<longleftrightarrow> y \<in> set (row q l r)" for y by (simp add: mem_row)
    then have "set (row ?q1 l r) = set (row q l r)" by blast
    then show ?thesis unfolding q(1) by (metis set_empty)
  qed
qed

lemma activate_ok:
  assumes "settled q" "c \<in> set (clhash q)" "level (cls q c) = 0"
  shows "settled (htb_activate c q)" "same_queues q (htb_activate c q)"
proof -
  have s: "base_ok q" "waits_ok (waiting q) q" "drops_ok q" "family_ok q" "faults q = 0"
    using assms(1) by (simp_all add: settled_def)
  define k where "k = nat (prio (cls q c))"
  have k: "k < TC_HTB_NUMPRIO" using s(4) assms(2) by (auto simp: family_ok_def k_def)
  define q1 where "q1 = upd c (\<lambda>x. x\<lparr>prio_activity := prio_bit (nat (prio x))\<rparr>) q"
  define q2 where "q2 = htb_activate_prios c q1"
  have x: "cls q1 x = (if x = c then (cls q c)\<lparr>prio_activity := prio_bit k\<rparr> else cls q x)" for x
    by (simp add: q1_def k_def)
  have f: "lview (cls q1 y) = lview (cls q y)" "level (cls q1 y) = level (cls q y)" "feed (cls q1 y) = feed (cls q y)"
    "parent (cls q1 y) = parent (cls q y)" "prio (cls q1 y) = prio (cls q y)" for y
    by (simp_all add: x lview_def)
  have c1: "c \<in> set (clhash q1)" using assms(2) by (simp add: q1_def)
  have "settled (htb_activate c q) \<and> same_queues q (htb_activate c q)"
  proof (cases "prio_activity (cls q c) = 0")
    case True
    have "unlinked c q1"
    proof -
      have "(\<lambda>x r. attached q1 x r \<and> x \<noteq> c) = attached q" using True by (auto simp: attached_def x fun_eq_iff)
      moreover have "linked_ok att q1 = linked_ok att q" for att
        by (rule linked_ok_cong) (simp_all add: f, simp_all add: q1_def)
      moreover have "act_ok q1" using s(1) assms(3) k unfolding act_ok_def f by (auto simp: base_ok_def act_ok_def x)
      moreover have "tree_wf q1" using s(1) by (simp add: base_ok_def tree_wf_def f) (simp add: q1_def)
      moreover have "dead_ok q1" using s(1) assms(2) by (auto simp: base_ok_def dead_ok_def x) (simp_all add: q1_def)
      ultimately show ?thesis using s(1) by (simp add: unlinked_def base_ok_def)
    qed
    note u = activate_prios_ok [OF this c1, folded q2_def]
    note bo = below_same_ok [OF u(2)]
    have sv: "waits_ok W q1 = waits_ok W q" "waiting q1 = waiting q" "family_ok q1 = family_ok q" "same_queues q q1" for W
      subgoal by (rule waits_ok_cong) (simp_all add: q1_def)
      subgoal by (simp add: q1_def waiting_def fun_eq_iff)
      subgoal by (rule family_ok_cong) (simp_all add: q1_def)
      subgoal by (simp add: q1_def upd_same_queues)
      done
    let ?q3 = "q2\<lparr>drops := (drops q2)(k := drops q2 k @ [c])\<rparr>"
    have eq: "htb_activate c q = ?q3"
      using True bo(7) [of c] by (simp add: htb_activate_def Let_def q1_def [symmetric] q2_def [symmetric] f k_def)
    have "base_ok ?q3" using u(1) base_ok_cong(1) [of ?q3 q2] by simp
    moreover have "waits_ok (waiting ?q3) ?q3"
    proof -
      have "waiting ?q3 = waiting q2" by (simp add: waiting_def fun_eq_iff)
      moreover have "waits_ok W ?q3 = waits_ok W q2" for W by (rule waits_ok_cong) simp_all
      ultimately show ?thesis using s(2) bo(1,2) sv by simp
    qed
    moreover have "drops_ok ?q3"
    proof -
      have d: "drops q2 = drops q" using bo(4) by (simp add: q1_def)
      have a: "level (cls q y) = 0 \<Longrightarrow> prio_activity (cls q2 y) = (if y = c then prio_bit k else prio_activity (cls q y))" for y
        using bo(9) [of y] f(2) [of y] by (cases "y = c") (simp_all add: x)
      show ?thesis
        using s(3) True k assms(3) by (auto simp: drops_ok_def d bo(6) f a split: if_splits)
    qed
    moreover have "family_ok ?q3" using s(4) bo(3) sv(3) family_ok_cong [of ?q3 q2] by simp
    moreover have "faults ?q3 = 0" using s(5) bo(5) by (simp add: q1_def)
    ultimately have "settled ?q3" by (simp add: settled_def)
    moreover have "same_queues q2 ?q3" by (simp add: same_queues_def)
    ultimately show ?thesis unfolding eq using same_queues_trans [OF same_queues_trans [OF sv(4) bo(10)]] by simp
  qed (use assms(1) in \<open>simp add: htb_activate_def\<close>)
  then show "settled (htb_activate c q)" "same_queues q (htb_activate c q)" by auto
qed

end
