(* ===== verification/HtbQdisc.thy ===== *)
theory HtbQdisc
  imports HtbClass "HOL-Library.Monad_Syntax"
begin

text \<open>
  The queueing discipline of \<open>util/sch_htb-ofbuf/sch_htb.c\<close> on top of \<open>HtbClass\<close>: classification,
  enqueueing with the overflow buffer (\<open>OFBUF\<close>), the round robin search of a leaf, dequeueing, dropping
  and resetting, and the class operations.  \<open>CONFIG_NET_CLS_ACT\<close> is set.  Loops that the code does not
  bound (the filter chain, the scan of a row) are partial functions with \<open>None\<close> for not returning.
\<close>

section \<open>Constants of the kernel\<close>

definition NET_XMIT_SUCCESS :: int where "NET_XMIT_SUCCESS = 0"
definition NET_XMIT_DROP :: int where "NET_XMIT_DROP = 1"
definition NET_XMIT_STOLEN :: int where "NET_XMIT_STOLEN = 0x10000"
definition NET_XMIT_BYPASS :: int where "NET_XMIT_BYPASS = 0x20000"
definition TC_ACT_SHOT :: int where "TC_ACT_SHOT = 2"
definition TC_ACT_STOLEN :: int where "TC_ACT_STOLEN = 4"
definition TC_ACT_QUEUED :: int where "TC_ACT_QUEUED = 5"

section \<open>Classification\<close>

datatype htb_class_result = HTB_DIRECT | No_class int | Leaf_class cid

text \<open>The loop over the filter chains: \<open>None\<close> when the filters send the packet round for ever.\<close>

datatype filter_result = Filter_break | Filter_result htb_class_result

partial_function (option) htb_filter_loop ::
    "'q htb_env \<Rightarrow> skb \<Rightarrow> 'q htb_sched \<Rightarrow> nat option \<Rightarrow> filter_result option" where
  "htb_filter_loop E s q tcf =
    (case tcf of
      None \<Rightarrow> Some Filter_break
    | Some f \<Rightarrow>
        (let (result, cl, cid) = tc_classify E s f in
         if result < 0 then Some Filter_break
         else if result = TC_ACT_QUEUED \<or> result = TC_ACT_STOLEN then Some (Filter_result (No_class (NET_XMIT_SUCCESS + NET_XMIT_STOLEN)))
         else if result = TC_ACT_SHOT then Some (Filter_result (No_class (NET_XMIT_SUCCESS + NET_XMIT_BYPASS)))
         else if cl = None \<and> cid = handle q then Some (Filter_result HTB_DIRECT)
         else (case (if cl = None then htb_find cid q else cl) of
             None \<Rightarrow> Some Filter_break
           | Some c \<Rightarrow>
               if level (cls q c) = 0 then Some (Filter_result (Leaf_class c))
               else htb_filter_loop E s q (cfilter_list (cls q c)))))"

definition htb_default_class :: "'q htb_sched \<Rightarrow> htb_class_result" where
  "htb_default_class q =
    (case htb_find ((handle q AND 0xFFFF0000) OR (defcls q AND 0xFFFF)) q of
      None \<Rightarrow> HTB_DIRECT
    | Some c \<Rightarrow> if level (cls q c) \<noteq> 0 then HTB_DIRECT else Leaf_class c)"

definition htb_classify :: "'q htb_env \<Rightarrow> skb \<Rightarrow> 'q htb_sched \<Rightarrow> htb_class_result option" where
  "htb_classify E s q =
    (if priority s = handle q then Some HTB_DIRECT
     else if \<exists>c. htb_find (priority s) q = Some c \<and> level (cls q c) = 0 then
       Some (Leaf_class (the (htb_find (priority s) q)))
     else do {
       r \<leftarrow> htb_filter_loop E s q (filter_list q);
       Some (case r of Filter_result x \<Rightarrow> x | Filter_break \<Rightarrow> htb_default_class q)
     })"

section \<open>Enqueueing\<close>

text \<open>\<open>skb_get\<close> and \<open>kfree_skb\<close> are functions of the kernel outside the repository: they take and drop a reference to a packet.\<close>

definition skb_get :: "skb \<Rightarrow> 'q htb_sched \<Rightarrow> 'q htb_sched" where
  "skb_get s q = q\<lparr>skb_refs := (skb_refs q)(skb_id s := skb_refs q (skb_id s) + 1)\<rparr>"

definition kfree_skb :: "skb \<Rightarrow> 'q htb_sched \<Rightarrow> 'q htb_sched" where
  "kfree_skb s q = q\<lparr>skb_refs := (skb_refs q)(skb_id s := skb_refs q (skb_id s) - 1)\<rparr>"

definition qlen_incr :: "'q htb_sched \<Rightarrow> 'q htb_sched" where
  "qlen_incr q = q\<lparr>qlen := qlen q + 1\<rparr>"

definition direct_enqueue :: "skb \<Rightarrow> 'q htb_sched \<Rightarrow> int \<times> 'q htb_sched" where
  "direct_enqueue s q =
    (if int (length (direct_queue q)) < direct_qlen q
     then (NET_XMIT_SUCCESS, qlen_incr (q\<lparr>direct_queue := direct_queue q @ [s], direct_pkts := direct_pkts q + 1\<rparr>))
     else (NET_XMIT_DROP, (kfree_skb s q)\<lparr>qdrops := Suc (qdrops q)\<rparr>))"

definition ofbuf_add :: "skb \<Rightarrow> 'q htb_sched \<Rightarrow> 'q htb_sched" where
  "ofbuf_add s q = q\<lparr>ofbuf := ofbuf q @ [s], ofbuf_queued := ofbuf_queued q + 1\<rparr>"

definition leaf_enqueue_in :: "'q htb_env \<Rightarrow> skb \<Rightarrow> cid \<Rightarrow> 'q htb_sched \<Rightarrow> 'q htb_sched" where
  "leaf_enqueue_in E s c q =
    (let q = skb_get s q;
         (ret, lq) = leaf_enqueue E s (leaf_q (cls q c));
         q = upd c (\<lambda>x. x\<lparr>leaf_q := lq\<rparr>) q
     in qlen_incr
          (if ret \<noteq> NET_XMIT_SUCCESS then ofbuf_add s q
           else kfree_skb s (htb_activate c (upd c (bstats_update s) q))))"

definition htb_enqueue :: "'q htb_env \<Rightarrow> skb \<Rightarrow> 'q htb_sched \<Rightarrow> (int \<times> 'q htb_sched) option" where
  "htb_enqueue E s q = do {
     cl \<leftarrow> htb_classify E s q;
     Some (case cl of
       HTB_DIRECT \<Rightarrow> direct_enqueue s q
     | No_class ret \<Rightarrow>
         (ret, kfree_skb s (if ret = NET_XMIT_SUCCESS + NET_XMIT_BYPASS then q\<lparr>qdrops := Suc (qdrops q)\<rparr> else q))
     | Leaf_class c \<Rightarrow> (NET_XMIT_SUCCESS, leaf_enqueue_in E s c q))
   }"

section \<open>The round robin search\<close>

text \<open>
  \<open>htb_lookup_leaf\<close> keeps a stack of trees with references to their current pointer and saved id: the
  row of a level, and feed trees of inner classes.
\<close>

datatype tree_loc = Row_tree nat | Feed_tree cid

fun loc_tree :: "'q htb_sched \<Rightarrow> nat \<Rightarrow> tree_loc \<Rightarrow> cid list" where
  "loc_tree q r (Row_tree l) = row q l r"
| "loc_tree q r (Feed_tree c) = feed (cls q c) r"

fun loc_ptr :: "'q htb_sched \<Rightarrow> nat \<Rightarrow> tree_loc \<Rightarrow> cid option" where
  "loc_ptr q r (Row_tree l) = rptr q l r"
| "loc_ptr q r (Feed_tree c) = iptr (cls q c) r"

fun loc_id :: "'q htb_sched \<Rightarrow> nat \<Rightarrow> tree_loc \<Rightarrow> u32" where
  "loc_id q r (Row_tree l) = rlast_ptr_id q l r"
| "loc_id q r (Feed_tree c) = last_ptr_id (cls q c) r"

fun set_ptr :: "nat \<Rightarrow> tree_loc \<Rightarrow> cid option \<Rightarrow> 'q htb_sched \<Rightarrow> 'q htb_sched" where
  "set_ptr r (Row_tree l) p q = q\<lparr>rptr := (rptr q)(l := (rptr q l)(r := p))\<rparr>"
| "set_ptr r (Feed_tree c) p q = upd c (\<lambda>x. x\<lparr>iptr := (iptr x)(r := p)\<rparr>) q"

fun clear_id :: "nat \<Rightarrow> tree_loc \<Rightarrow> 'q htb_sched \<Rightarrow> 'q htb_sched" where
  "clear_id r (Row_tree l) q = q\<lparr>rlast_ptr_id := (rlast_ptr_id q)(l := (rlast_ptr_id q l)(r := 0))\<rparr>"
| "clear_id r (Feed_tree c) q = upd c (\<lambda>x. x\<lparr>last_ptr_id := (last_ptr_id x)(r := 0)\<rparr>) q"

definition htb_id_find_next_upper :: "'q htb_sched \<Rightarrow> cid list \<Rightarrow> u32 \<Rightarrow> cid option" where
  "htb_id_find_next_upper q tree i = first_upper (ids q) i tree"

definition recover_ptr :: "nat \<Rightarrow> tree_loc \<Rightarrow> 'q htb_sched \<Rightarrow> 'q htb_sched" where
  "recover_ptr r sp q =
    clear_id r sp
      (if loc_ptr q r sp = None \<and> loc_id q r sp \<noteq> 0
       then set_ptr r sp (htb_id_find_next_upper q (loc_tree q r sp) (loc_id q r sp)) q else q)"

text \<open>
  Faults are a walk in an empty tree, the warning for a lost pointer on the way up, and a push beyond
  the array \<open>stk[TC_HTB_MAXDEPTH]\<close>.
\<close>

fun htb_lookup_loop :: "nat \<Rightarrow> nat \<Rightarrow> tree_loc list \<Rightarrow> 'q htb_sched \<Rightarrow> cid option \<times> 'q htb_sched" where
  "htb_lookup_loop 0 r stk q = (None, q)"
| "htb_lookup_loop (Suc n) r [] q = (None, fault q)"
| "htb_lookup_loop (Suc n) r (sp # stk) q =
    (let q = recover_ptr r sp q
     in case loc_ptr q r sp of
       None \<Rightarrow>
         (if loc_tree q r sp = [] then (None, fault q)
          else let q = set_ptr r sp (Some (hd (loc_tree q r sp))) q
            in case stk of
              [] \<Rightarrow> htb_lookup_loop n r [sp] q
            | up # _ \<Rightarrow>
                if loc_ptr q r up = None then (None, fault q)
                else htb_lookup_loop n r stk (set_ptr r up (htb_next_rb_node (loc_tree q r up) (loc_ptr q r up)) q))
     | Some c \<Rightarrow>
         if level (cls q c) = 0 then (Some c, q)
         else if length (sp # stk) \<ge> TC_HTB_MAXDEPTH then (None, fault q)
         else htb_lookup_loop n r (Feed_tree c # sp # stk) q)"

definition htb_lookup_leaf :: "nat \<Rightarrow> nat \<Rightarrow> 'q htb_sched \<Rightarrow> cid option \<times> 'q htb_sched" where
  "htb_lookup_leaf l r q = (if row q l r = [] then (None, fault q) else htb_lookup_loop 65535 r [Row_tree l] q)"

section \<open>Dequeueing\<close>

text \<open>Advancing the pointer that led to the leaf \<open>c\<close>; it must not be null.\<close>

definition leaf_loc :: "nat \<Rightarrow> cid \<Rightarrow> 'q htb_sched \<Rightarrow> tree_loc" where
  "leaf_loc l c q = (if l \<noteq> 0 then Feed_tree (the (parent (cls q c))) else Row_tree 0)"

definition advance_ptr :: "nat \<Rightarrow> nat \<Rightarrow> cid \<Rightarrow> 'q htb_sched \<Rightarrow> 'q htb_sched" where
  "advance_ptr l r c q =
    (let sp = leaf_loc l c q
     in if l \<noteq> 0 \<and> parent (cls q c) = None \<or> loc_ptr q r sp = None then fault q
        else set_ptr r sp (htb_next_rb_node (loc_tree q r sp) (loc_ptr q r sp)) q)"

text \<open>
  The scan of \<open>htb_dequeue_tree\<close>: it skips and deactivates empty leaves, then dequeues; the result is
  the packet, the leaf it came from and the state.  A leaf qdisc that keeps its packets is passed over
  until the scan is back at its start.
\<close>

partial_function (option) htb_scan ::
    "'q htb_env \<Rightarrow> nat \<times> nat \<Rightarrow> cid option \<times> cid option \<Rightarrow> 'q htb_sched \<Rightarrow> ((skb \<times> cid) option \<times> 'q htb_sched) option" where
  "htb_scan E lr sc q =
    (if snd sc = None then Some (None, q)
     else let l = fst lr; r = snd lr; start = fst sc; c = the (snd sc) in
       if leaf_qlen E (leaf_q (cls q c)) = 0 then
         (let q1 = htb_deactivate c q in
          if \<not> bit (row_mask q1 l) r then Some (None, q1)
          else let (nxt, q2) = htb_lookup_leaf l r q1
            in htb_scan E lr (if start = Some c then nxt else start, nxt) q2)
       else
         (let (pkt, lq) = leaf_dequeue E (leaf_q (cls q c));
              q1 = upd c (\<lambda>x. x\<lparr>leaf_q := lq\<rparr>) q
          in if pkt \<noteq> None then Some (Some (the pkt, c), q1)
             else let (nxt, q2) = htb_lookup_leaf l r (advance_ptr l r c q1)
               in if nxt = start then Some (None, q2) else htb_scan E lr (start, nxt) q2))"

text \<open>What follows a successful scan: the deficit, the empty leaf and the charge.\<close>

definition htb_take :: "'q htb_env \<Rightarrow> nat \<Rightarrow> nat \<Rightarrow> skb \<Rightarrow> cid \<Rightarrow> 'q htb_sched \<Rightarrow> 'q htb_sched" where
  "htb_take E l r s c q =
    (let q = upd c (\<lambda>x. x\<lparr>deficit := (deficit x)(l := deficit x l - pkt_len s)\<rparr>) q;
         q = (if deficit (cls q c) l < 0
              then advance_ptr l r c (upd c (\<lambda>x. x\<lparr>deficit := (deficit x)(l := deficit x l + quantum x)\<rparr>) q)
              else q);
         q = (if leaf_qlen E (leaf_q (cls q c)) = 0 then htb_deactivate c q else q)
     in htb_charge_class E c l s q)"

definition htb_dequeue_tree :: "'q htb_env \<Rightarrow> nat \<Rightarrow> nat \<Rightarrow> 'q htb_sched \<Rightarrow> (skb option \<times> 'q htb_sched) option" where
  "htb_dequeue_tree E r l q =
    (let (cl, q) = htb_lookup_leaf l r q
     in do {
       (res, q) \<leftarrow> htb_scan E (l, r) (cl, cl) q;
       Some (case res of None \<Rightarrow> (None, q) | Some (s, c) \<Rightarrow> (Some s, htb_take E l r s c q))
     })"

text \<open>The priorities of a row in the order of \<open>ffz\<close>, from a snapshot of its mask.\<close>

fun dequeue_prios :: "'q htb_env \<Rightarrow> nat \<Rightarrow> nat list \<Rightarrow> 'q htb_sched \<Rightarrow> (skb option \<times> 'q htb_sched) option" where
  "dequeue_prios E l [] q = Some (None, q)"
| "dequeue_prios E l (r # rs) q = do {
     (s, q) \<leftarrow> htb_dequeue_tree E r l q;
     (case s of None \<Rightarrow> dequeue_prios E l rs q | Some _ \<Rightarrow> Some (s, q))
   }"

definition level_events :: "'q htb_env \<Rightarrow> nat \<Rightarrow> nat \<Rightarrow> 'q htb_sched \<Rightarrow> int \<times> 'q htb_sched" where
  "level_events E budget l q =
    (if now q \<ge> near_ev_cache q l then
       let (event, q) = htb_do_events E l budget q;
           event = (if event = 0 then now q + PSCHED_TICKS_PER_SEC E else event)
       in (event, q\<lparr>near_ev_cache := (near_ev_cache q)(l := event)\<rparr>)
     else (near_ev_cache q l, q))"

fun dequeue_levels :: "'q htb_env \<Rightarrow> (nat \<Rightarrow> nat) \<Rightarrow> nat list \<Rightarrow> int \<times> 'q htb_sched \<Rightarrow> (skb option \<times> int \<times> 'q htb_sched) option" where
  "dequeue_levels E budget [] s = Some (None, s)"
| "dequeue_levels E budget (l # ls) (next_event, q) =
    (let (event, q) = level_events E (budget l) l q;
         next_event = (if next_event > event then event else next_event)
     in do {
       (s, q) \<leftarrow> dequeue_prios E l (prios_of (row_mask q l)) q;
       (case s of None \<Rightarrow> dequeue_levels E budget ls (next_event, q) | Some _ \<Rightarrow> Some (s, next_event, q))
     })"

text \<open>
  The overflow buffer after a packet has left: the \<open>r\<close>-th packet is enqueued again, the others are freed.
  \<open>i\<close> counts the packets; one that overflows again is met once more at the tail.
\<close>

partial_function (option) ofbuf_drain :: "'q htb_env \<Rightarrow> nat \<times> nat \<Rightarrow> 'q htb_sched \<Rightarrow> 'q htb_sched option" where
  "ofbuf_drain E ri q =
    (if ofbuf q = [] then Some q
     else let pkt = hd (ofbuf q); q1 = q\<lparr>ofbuf := tl (ofbuf q)\<rparr>
       in do {
         q2 \<leftarrow> (if snd ri = fst ri then map_option snd (htb_enqueue E pkt q1) else Some (kfree_skb pkt q1));
         ofbuf_drain E (fst ri, Suc (snd ri)) q2
       })"

definition dequeue_done :: "'q htb_env \<Rightarrow> nat \<Rightarrow> 'q htb_sched \<Rightarrow> 'q htb_sched option" where
  "dequeue_done E random q =
    (let q = q\<lparr>qlen := qlen q - 1\<rparr>
     in if ofbuf_queued q > 0
        then map_option (\<lambda>q. q\<lparr>ofbuf_queued := 0\<rparr>) (ofbuf_drain E (random mod nat (ofbuf_queued q), 0) q)
        else Some q)"

text \<open>
  \<open>time\<close> is \<open>psched_get_time()\<close>, \<open>random\<close> is \<open>net_random()\<close> and \<open>budget\<close> the event budget of each level;
  the watchdog and the work queue are outside the model.
\<close>

definition htb_dequeue :: "'q htb_env \<Rightarrow> int \<Rightarrow> nat \<Rightarrow> (nat \<Rightarrow> nat) \<Rightarrow> 'q htb_sched \<Rightarrow> (skb option \<times> 'q htb_sched) option" where
  "htb_dequeue E time random budget q =
    (if direct_queue q \<noteq> [] then
       map_option (Pair (Some (hd (direct_queue q)))) (dequeue_done E random (q\<lparr>direct_queue := tl (direct_queue q)\<rparr>))
     else if qlen q = 0 then Some (None, q)
     else do {
       let q = q\<lparr>now := time\<rparr>;
       (s, _, q) \<leftarrow> dequeue_levels E budget [0..<TC_HTB_MAXDEPTH] (time + 5 * PSCHED_TICKS_PER_SEC E, q);
       (case s of
         None \<Rightarrow> Some (None, q\<lparr>overlimits := Suc (overlimits q)\<rparr>)
       | Some _ \<Rightarrow> map_option (Pair s) (dequeue_done E random q))
     })"

end
