(* ===== verification/HtbLookup.thy ===== *)
theory HtbLookup
  imports HtbMode HtbQdisc
begin

text \<open>
  The round robin search \<open>htb_lookup_leaf\<close> of \<open>HtbQdisc\<close>: it only moves pointers and keeps \<open>settled\<close>, so
  it never walks an empty tree, never loses a pointer on the way up and never overruns its stack
  (all of these would count as faults); the leaf it returns is active and its parent's pointer, or the
  row's, stands on it.
\<close>

section \<open>Moving pointers\<close>

definition noptr :: "'q htb_class \<Rightarrow> 'q htb_class" where
  "noptr x = x\<lparr>iptr := (\<lambda>_. None), last_ptr_id := (\<lambda>_. 0)\<rparr>"

definition snoptr :: "'q htb_sched \<Rightarrow> 'q htb_sched" where
  "snoptr q = q\<lparr>cls := (\<lambda>x. noptr (cls q x)), rptr := (\<lambda>_ _. None), rlast_ptr_id := (\<lambda>_ _. 0)\<rparr>"

definition moved :: "'q htb_sched \<Rightarrow> 'q htb_sched \<Rightarrow> bool" where
  "moved q q' \<longleftrightarrow> snoptr q' = snoptr q"

lemma moved_refl [simp]: "moved q q"
  by (simp add: moved_def)

lemma moved_trans [trans]: "moved q q' \<Longrightarrow> moved q' q'' \<Longrightarrow> moved q q''"
  by (simp add: moved_def)

lemma moved_cls: "moved q q' \<Longrightarrow> noptr (cls q' x) = noptr (cls q x)"
  unfolding moved_def by (drule arg_cong [where f = cls]) (simp add: snoptr_def fun_eq_iff)

lemma noptr_eqD:
  assumes "noptr x = noptr y"
  shows "parent x = parent y" "level x = level y" "cmode x = cmode y" "feed x = feed y" "prio_activity x = prio_activity y"
    "leaf_q x = leaf_q y" "classid x = classid y" "node x = node y" "pq_key x = pq_key y" "pq_node x = pq_node y"
    "prio x = prio y" "children x = children y" "cfilter_list x = cfilter_list y"
  using assms by (cases x; cases y; simp add: noptr_def)+

lemmas moved_classes = noptr_eqD [OF moved_cls]

lemma moved_fields:
  assumes "moved q q'"
  shows "row q' = row q" "row_mask q' = row_mask q" "clhash q' = clhash q" "drops q' = drops q" "wait_pq q' = wait_pq q"
    "faults q' = faults q" "qlen q' = qlen q" "ofbuf q' = ofbuf q" "ofbuf_queued q' = ofbuf_queued q"
    "direct_queue q' = direct_queue q" "now q' = now q" "handle q' = handle q" "defcls q' = defcls q" "filter_list q' = filter_list q"
  using assms unfolding moved_def by (cases q; cases q'; simp add: snoptr_def)+

lemma moved_same_queues: "moved q q' \<Longrightarrow> same_queues q q'"
  by (simp add: same_queues_def moved_fields moved_classes)

lemma moved_set_ptr: "moved q (set_ptr r sp p q)"
  by (cases sp) (auto simp: moved_def snoptr_def noptr_def upd_def intro!: htb_sched.fold_congs)

lemma moved_clear_id: "moved q (clear_id r sp q)"
  by (cases sp) (auto simp: moved_def snoptr_def noptr_def upd_def intro!: htb_sched.fold_congs)

lemma loc_tree_moved: "moved q q' \<Longrightarrow> loc_tree q' r sp = loc_tree q r sp"
  by (cases sp) (simp_all add: moved_fields moved_classes)

lemma loc_ptr_set_ptr [simp]: "loc_ptr (set_ptr r sp p q) r sp' = (if sp' = sp then p else loc_ptr q r sp')"
  by (cases sp; cases sp') auto

lemma loc_ptr_clear_id [simp]: "loc_ptr (clear_id r sp q) r sp' = loc_ptr q r sp'"
  by (cases sp; cases sp') auto

text \<open>A moved state is settled when its pointers stand on their trees.\<close>

lemma tree_ok_ptr:
  assumes "tree_ok q mem r pt xs" "\<And>c. mem' c = mem c" "\<And>c. ids q' c = ids q c" "\<And>c. node (cls q' c) r = node (cls q c) r"
    "\<And>c. pt' = Some c \<Longrightarrow> c \<in> set xs"
  shows "tree_ok q' mem' r pt' xs"
  using assms by (auto simp: tree_ok_def)

lemma settled_moved:
  assumes "settled q" "moved q q'" "\<And>r sp c. loc_ptr q' r sp = Some c \<Longrightarrow> c \<in> set (loc_tree q' r sp)"
  shows "settled q'"
proof -
  note mc = moved_classes [OF assms(2)] and mf = moved_fields [OF assms(2)]
  have ids: "ids q' x = ids q x" for x by (simp add: ids_def mc)
  have att: "attached q' = attached q" by (simp add: attached_def fun_eq_iff mc)
  have inf: "in_feed (attached q) q' p r x = in_feed (attached q) q p r x" "in_row (attached q) q' l r x = in_row (attached q) q l r x"
    for p l r x
    by (simp_all add: in_feed_def in_row_def mc)
  have l: "linked_ok (attached q) q" using assms(1) by (simp add: settled_def base_ok_def)
  have "tree_ok q' (in_feed (attached q) q' p r) r (iptr (cls q' p) r) (feed (cls q p) r)" for p r
    by (rule tree_ok_ptr [OF linked_feed [OF l]]) (use assms(3) [of r "Feed_tree p"] in \<open>simp_all add: inf ids mc\<close>)
  moreover have "tree_ok q' (in_row (attached q) q' k r) r (rptr q' k r) (row q k r)" for k r
    by (rule tree_ok_ptr [OF linked_row [OF l]]) (use assms(3) [of r "Row_tree k"] in \<open>simp_all add: inf ids mc mf\<close>)
  ultimately have "linked_ok (attached q') q'" using l by (simp add: linked_ok_def att mc mf)
  moreover have "act_ok q' = act_ok q" "tree_wf q' = tree_wf q" "dead_ok q' = dead_ok q" "drops_ok q' = drops_ok q"
    by (simp_all add: act_ok_def tree_wf_def dead_ok_def drops_ok_def mc mf)
  moreover have "family_ok q' = family_ok q" by (rule family_ok_cong) (simp_all add: mc mf)
  moreover have "waiting q' = waiting q" by (simp add: waiting_def fun_eq_iff mc mf)
  moreover have "waits_ok W q' = waits_ok W q" for W by (rule waits_ok_cong) (simp_all add: mc mf)
  ultimately show ?thesis using assms(1) by (simp add: settled_def base_ok_def mf)
qed

lemma settled_linked: "settled q \<Longrightarrow> linked_ok (attached q) q"
  by (simp add: settled_def base_ok_def)

lemma settled_ptr:
  assumes "settled q" "loc_ptr q r sp = Some c"
  shows "c \<in> set (loc_tree q r sp)"
proof -
  have t: "tree_ok q mem r (Some c) xs \<Longrightarrow> c \<in> set xs" for mem xs by (auto simp: tree_ok_def)
  show ?thesis
    using assms(2) linked_feed [OF settled_linked [OF assms(1)]] linked_row [OF settled_linked [OF assms(1)]] t
    by (cases sp) (simp_all, metis+)
qed

lemma loc_ptr_other: "r' \<noteq> r \<Longrightarrow> loc_ptr (set_ptr r sp p q) r' sp' = loc_ptr q r' sp'"
  by (cases sp; cases sp') auto

lemma loc_ptr_clear_other: "loc_ptr (clear_id r sp q) r' sp' = loc_ptr q r' sp'"
  by (cases sp; cases sp') auto

lemma settled_set_ptr:
  assumes "settled q" "\<And>c. p = Some c \<Longrightarrow> c \<in> set (loc_tree q r sp)"
  shows "settled (set_ptr r sp p q)"
proof (rule settled_moved [OF assms(1) moved_set_ptr])
  fix r' sp' c
  assume a: "loc_ptr (set_ptr r sp p q) r' sp' = Some c"
  show "c \<in> set (loc_tree (set_ptr r sp p q) r' sp')"
    using a assms(2) [of c] settled_ptr [OF assms(1), of r' sp' c] unfolding loc_tree_moved [OF moved_set_ptr]
    by (cases "r' = r"; cases "sp' = sp") (auto simp: loc_ptr_other)
qed

lemma settled_clear_id: "settled q \<Longrightarrow> settled (clear_id r sp q)"
  by (rule settled_moved [OF _ moved_clear_id])
    (auto simp: loc_ptr_clear_other loc_tree_moved [OF moved_clear_id] intro: settled_ptr)

lemma recover_ptr_ok:
  assumes "settled q"
  shows "settled (recover_ptr r sp q)" "moved q (recover_ptr r sp q)"
    "sp' \<noteq> sp \<Longrightarrow> loc_ptr (recover_ptr r sp q) r sp' = loc_ptr q r sp'"
proof -
  let ?p = "htb_id_find_next_upper q (loc_tree q r sp) (loc_id q r sp)"
  have "settled (set_ptr r sp ?p q)"
    by (rule settled_set_ptr [OF assms]) (auto simp: htb_id_find_next_upper_def dest: first_upper_in)
  then show "settled (recover_ptr r sp q)" using assms by (simp add: recover_ptr_def settled_clear_id)
  show "moved q (recover_ptr r sp q)"
    using moved_trans [OF moved_set_ptr moved_clear_id] by (auto simp: recover_ptr_def moved_clear_id)
  show "sp' \<noteq> sp \<Longrightarrow> loc_ptr (recover_ptr r sp q) r sp' = loc_ptr q r sp'" by (simp add: recover_ptr_def)
qed

section \<open>The path on the stack\<close>

fun loc_level :: "'q htb_sched \<Rightarrow> tree_loc \<Rightarrow> nat" where
  "loc_level q (Row_tree l) = Suc l"
| "loc_level q (Feed_tree c) = level (cls q c)"

fun path_ok :: "'q htb_sched \<Rightarrow> nat \<Rightarrow> nat \<Rightarrow> tree_loc list \<Rightarrow> bool" where
  "path_ok q l r [] = False"
| "path_ok q l r [sp] = (sp = Row_tree l)"
| "path_ok q l r (sp # up # stk) =
    (\<exists>c. sp = Feed_tree c \<and> loc_ptr q r up = Some c \<and> level (cls q c) \<noteq> 0 \<and> path_ok q l r (up # stk))"

lemma tree_member:
  assumes "settled q" "c \<in> set (loc_tree q r sp)"
  shows "attached q c r" "c \<in> set (clhash q)" "level (cls q c) < loc_level q sp"
    "sp = Feed_tree p \<Longrightarrow> parent (cls q c) = Some p" "sp = Row_tree l \<Longrightarrow> level (cls q c) = l"
proof -
  note l = settled_linked [OF assms(1)]
  have m: "case sp of Row_tree k \<Rightarrow> in_row (attached q) q k r c | Feed_tree p \<Rightarrow> in_feed (attached q) q p r c"
    using assms(2) mem_feed [OF l] mem_row [OF l] by (cases sp) simp_all
  then show a: "attached q c r" by (auto simp: in_row_def in_feed_def split: tree_loc.splits)
  then have "prio_activity (cls q c) \<noteq> 0" by (auto simp: attached_def)
  then show h: "c \<in> set (clhash q)" using assms(1) by (auto simp: settled_def base_ok_def dead_ok_def)
  show "level (cls q c) < loc_level q sp"
    using m tree_wfD(3) [OF settled_tree_wf [OF assms(1)] h] by (auto simp: in_row_def in_feed_def split: tree_loc.splits)
  show "sp = Feed_tree p \<Longrightarrow> parent (cls q c) = Some p" "sp = Row_tree l \<Longrightarrow> level (cls q c) = l"
    using m by (auto simp: in_row_def in_feed_def)
qed

lemma inner_feed:
  assumes "settled q" "attached q c r" "level (cls q c) \<noteq> 0"
  shows "feed (cls q c) r \<noteq> []"
  using assms act_okD(3) by (auto simp: settled_def base_ok_def attached_def)

lemma path_levels:
  assumes "settled q" "path_ok q l r stk"
  shows "sorted_wrt (<) (map (loc_level q) stk)" "\<forall>sp\<in>set stk. 1 \<le> loc_level q sp \<and> loc_level q sp \<le> Suc l"
    "row q l r \<noteq> [] \<Longrightarrow> \<forall>sp\<in>set stk. loc_tree q r sp \<noteq> []"
proof -
  have "sorted_wrt (<) (map (loc_level q) stk) \<and> (\<forall>sp\<in>set stk. 1 \<le> loc_level q sp \<and> loc_level q sp \<le> Suc l) \<and>
    (row q l r \<noteq> [] \<longrightarrow> (\<forall>sp\<in>set stk. loc_tree q r sp \<noteq> []))"
    using assms(2)
  proof (induction stk rule: induct_list012)
    case (3 sp up stk)
    then obtain c where c: "sp = Feed_tree c" "loc_ptr q r up = Some c" "level (cls q c) \<noteq> 0" "path_ok q l r (up # stk)" by auto
    have m: "c \<in> set (loc_tree q r up)" by (rule settled_ptr [OF assms(1) c(2)])
    have lt: "level (cls q c) < loc_level q up" and at: "attached q c r" using tree_member(1,3) [OF assms(1) m] by auto
    note IH = "3.IH"(2) [OF c(4)]
    have "\<forall>sp'\<in>set (up # stk). loc_level q up \<le> loc_level q sp'" using IH by auto
    then show ?case using IH lt c(1,3) inner_feed [OF assms(1) at c(3)] by fastforce
  qed auto
  then show "sorted_wrt (<) (map (loc_level q) stk)" "\<forall>sp\<in>set stk. 1 \<le> loc_level q sp \<and> loc_level q sp \<le> Suc l"
    "row q l r \<noteq> [] \<Longrightarrow> \<forall>sp\<in>set stk. loc_tree q r sp \<noteq> []" by auto
qed

lemma path_distinct: "settled q \<Longrightarrow> path_ok q l r (sp # stk) \<Longrightarrow> sp \<notin> set stk"
  using path_levels(1) [of q l r "sp # stk"] by auto

lemma strict_sorted_distinct: "sorted_wrt (<) xs \<Longrightarrow> distinct (xs :: nat list)"
  by (induction xs) auto

lemma path_length:
  assumes "settled q" "path_ok q l r (sp # stk)" "l < TC_HTB_MAXDEPTH" "loc_ptr q r sp = Some c" "level (cls q c) \<noteq> 0"
  shows "length (sp # stk) < TC_HTB_MAXDEPTH"
proof -
  have p: "path_ok q l r (Feed_tree c # sp # stk)" using assms by simp
  have "distinct (map (loc_level q) (Feed_tree c # sp # stk))"
    using path_levels(1) [OF assms(1) p] by (rule strict_sorted_distinct)
  moreover have "set (map (loc_level q) (Feed_tree c # sp # stk)) \<subseteq> {1..8}"
    using path_levels(2) [OF assms(1) p] assms(3) by fastforce
  ultimately have "length (map (loc_level q) (Feed_tree c # sp # stk)) \<le> card {1..8 :: nat}"
    by (metis card_mono distinct_card finite_atLeastAtMost)
  then show ?thesis by simp
qed

lemma path_ok_cong:
  assumes "moved q q'" "\<And>sp. sp \<in> set (tl stk) \<Longrightarrow> loc_ptr q' r sp = loc_ptr q r sp" "path_ok q l r stk"
  shows "path_ok q' l r stk"
  using assms(2,3)
proof (induction stk rule: induct_list012)
  case (3 sp up stk)
  then show ?case by (auto simp: moved_classes [OF assms(1)])
qed auto

lemma path_ok_Cons: "path_ok q l r (sp # stk) \<Longrightarrow> stk \<noteq> [] \<Longrightarrow> path_ok q l r stk"
  by (cases stk) auto

section \<open>The search\<close>

text \<open>The pointer of the parent, or of the row at level 0, stands on the active leaf \<open>c\<close>.\<close>

definition found_ok :: "'q htb_sched \<Rightarrow> nat \<Rightarrow> nat \<Rightarrow> cid \<Rightarrow> bool" where
  "found_ok q l r c \<longleftrightarrow> level (cls q c) = 0 \<and> attached q c r \<and> c \<in> set (clhash q) \<and> (l \<noteq> 0 \<longrightarrow> parent (cls q c) \<noteq> None) \<and>
    loc_ptr q r (leaf_loc l c q) = Some c"

lemma found_at_top:
  assumes "settled q" "path_ok q l r (sp # stk)" "loc_ptr q r sp = Some c" "level (cls q c) = 0"
  shows "found_ok q l r c"
proof -
  have m: "c \<in> set (loc_tree q r sp)" by (rule settled_ptr [OF assms(1,3)])
  note tm = tree_member [OF assms(1) m]
  show ?thesis
  proof (cases sp)
    case (Row_tree k)
    then have "stk = []" using assms(2) by (cases stk) auto
    then have "k = l" using Row_tree assms(2) by simp
    then have "l = 0" using tm(5) [OF Row_tree] assms(4) by simp
    then show ?thesis using tm(1,2) assms(3,4) Row_tree \<open>k = l\<close> by (simp add: found_ok_def leaf_loc_def)
  next
    case (Feed_tree p)
    then obtain up stk' where stk: "stk = up # stk'" using assms(2) by (cases stk) auto
    have "p \<in> set (loc_tree q r up)" using assms(2) Feed_tree stk settled_ptr [OF assms(1)] by auto
    then have "level (cls q p) < loc_level q up" using tree_member(3) [OF assms(1)] by blast
    moreover have "level (cls q p) \<noteq> 0" using assms(2) Feed_tree stk by auto
    moreover have "loc_level q up \<le> Suc l" using path_levels(2) [OF assms(1,2)] stk by auto
    ultimately have "l \<noteq> 0" by simp
    then show ?thesis using tm(1,2) tm(4) [OF Feed_tree] assms(3,4) Feed_tree by (simp add: found_ok_def leaf_loc_def)
  qed
qed

lemma lookup_loop_ok:
  assumes "settled q" "path_ok q l r stk" "row q l r \<noteq> []" "l < TC_HTB_MAXDEPTH" "htb_lookup_loop n r stk q = (res, q')"
  shows "settled q' \<and> moved q q' \<and> (\<forall>c. res = Some c \<longrightarrow> found_ok q' l r c)"
  using assms
proof (induction n arbitrary: stk q)
  case (Suc n)
  then obtain sp stk' where stk: "stk = sp # stk'" by (cases stk) auto
  define q1 where "q1 = recover_ptr r sp q"
  have 1: "settled q1" "moved q q1" "\<And>sp'. sp' \<noteq> sp \<Longrightarrow> loc_ptr q1 r sp' = loc_ptr q r sp'"
    unfolding q1_def using recover_ptr_ok [OF Suc.prems(1)] by auto
  have d: "sp \<notin> set stk'" using path_distinct Suc.prems(1,2) stk by blast
  have p1: "path_ok q1 l r (sp # stk')"
  proof (rule path_ok_cong [OF 1(2)])
    show "loc_ptr q1 r sp' = loc_ptr q r sp'" if "sp' \<in> set (tl (sp # stk'))" for sp'
      using that d 1(3) [of sp'] by auto
  qed (use Suc.prems(2) stk in simp)
  have r1: "row q1 l r \<noteq> []" using Suc.prems(3) moved_fields(1) [OF 1(2)] by simp
  show ?case
  proof (cases "loc_ptr q1 r sp")
    case (Some c)
    show ?thesis
    proof (cases "level (cls q1 c) = 0")
      case True
      then have "res = Some c" "q' = q1" using Suc.prems(5) Some by (simp_all add: stk q1_def [symmetric])
      then show ?thesis using 1 found_at_top [OF 1(1) p1 Some True] by simp
    next
      case False
      have len: "length (sp # stk') < TC_HTB_MAXDEPTH" by (rule path_length [OF 1(1) p1 Suc.prems(4) Some False])
      have "htb_lookup_loop n r (Feed_tree c # sp # stk') q1 = (res, q')"
        using Suc.prems(5) Some False len by (simp add: stk q1_def [symmetric])
      moreover have "path_ok q1 l r (Feed_tree c # sp # stk')" using p1 Some False by simp
      ultimately show ?thesis using Suc.IH [OF 1(1) _ r1 Suc.prems(4)] moved_trans [OF 1(2)] by blast
    qed
  next
    case None
    define q2 where "q2 = set_ptr r sp (Some (hd (loc_tree q1 r sp))) q1"
    have ne: "loc_tree q1 r sp \<noteq> []" using path_levels(3) [OF 1(1) p1 r1] by simp
    have 2: "settled q2" "moved q q2"
      unfolding q2_def using settled_set_ptr [OF 1(1), of "Some (hd (loc_tree q1 r sp))" r sp] hd_in_set [OF ne]
        moved_trans [OF 1(2) moved_set_ptr] by simp_all
    have lp2: "loc_ptr q2 r sp' = loc_ptr q1 r sp'" if "sp' \<noteq> sp" for sp' using that by (simp add: q2_def)
    have p2: "path_ok q2 l r (sp # stk')"
      by (rule path_ok_cong [of q1]) (use p1 lp2 d in \<open>auto simp: q2_def moved_set_ptr\<close>)
    have r2: "row q2 l r \<noteq> []" using Suc.prems(3) moved_fields(1) [OF 2(2)] by simp
    show ?thesis
    proof (cases stk')
      case Nil
      then have "htb_lookup_loop n r [sp] q2 = (res, q')"
        using Suc.prems(5) None ne by (simp add: stk q1_def [symmetric] q2_def [symmetric])
      then show ?thesis using Suc.IH [OF 2(1) _ r2 Suc.prems(4)] p2 Nil moved_trans [OF 2(2)] by blast
    next
      case (Cons up stk'')
      then obtain c where c: "loc_ptr q2 r up = Some c" using p2 by auto
      define q3 where "q3 = set_ptr r up (htb_next_rb_node (loc_tree q2 r up) (loc_ptr q2 r up)) q2"
      have 3: "settled q3" "moved q q3"
        unfolding q3_def using settled_set_ptr [OF 2(1)] moved_trans [OF 2(2) moved_set_ptr]
        by (auto simp: htb_next_rb_node_def dest: rb_next_in split: option.splits)
      have "path_ok q2 l r stk'" by (rule path_ok_Cons [OF p2]) (simp add: Cons)
      then have p3: "path_ok q3 l r stk'"
        using path_distinct [OF 2(1)] Cons by (intro path_ok_cong [of q2 q3]) (auto simp: q3_def moved_set_ptr)
      have r3: "row q3 l r \<noteq> []" using Suc.prems(3) moved_fields(1) [OF 3(2)] by simp
      have "htb_lookup_loop n r stk' q3 = (res, q')"
        using Suc.prems(5) None ne Cons c by (simp add: stk q1_def [symmetric] q2_def [symmetric] q3_def)
      then show ?thesis using Suc.IH [OF 3(1) p3 r3 Suc.prems(4)] moved_trans [OF 3(2)] by blast
    qed
  qed
qed auto

lemma lookup_leaf_ok:
  assumes "settled q" "row q l r \<noteq> []" "l < TC_HTB_MAXDEPTH" "htb_lookup_leaf l r q = (res, q')"
  shows "settled q'" "moved q q'" "res = Some c \<Longrightarrow> found_ok q' l r c"
  using lookup_loop_ok [OF assms(1) _ assms(2,3), of "[Row_tree l]" 65535 res q'] assms(2,4)
  by (simp_all add: htb_lookup_leaf_def)

end
