(* ===== verification/HtbServe.thy ===== *)
theory HtbServe
  imports HtbLookup
begin

text \<open>
  Enqueueing and dequeueing keep \<open>settled\<close>, and what they do to the number of packets: \<open>backlog\<close> counts
  the packets of the leaves, \<open>stored\<close> all packets of the qdisc.  A packet queue is an interface, the locale
  \<open>packet_queue\<close>: the direct queue of the qdisc is an instance, and the leaves are assumed to be one.
\<close>

section \<open>Packet queues\<close>

locale packet_queue =
  fixes enq :: "skb \<Rightarrow> 's \<Rightarrow> int \<times> 's" and deq :: "'s \<Rightarrow> skb option \<times> 's" and len :: "'s \<Rightarrow> nat"
  assumes enq_ok: "enq s x = (NET_XMIT_SUCCESS, x') \<Longrightarrow> len x' = Suc (len x)"
    and enq_fail: "enq s x = (e, x') \<Longrightarrow> e \<noteq> NET_XMIT_SUCCESS \<Longrightarrow> len x' = len x"
    and deq_some: "deq x = (Some s, x') \<Longrightarrow> len x = Suc (len x')"
    and deq_none: "deq x = (None, x') \<Longrightarrow> len x' = len x"
begin

lemma enq_len: "len (snd (enq s x)) = len x + (if fst (enq s x) = NET_XMIT_SUCCESS then 1 else 0)"
  using enq_ok [of s x "snd (enq s x)"] enq_fail [of s x "fst (enq s x)" "snd (enq s x)"]
  by (cases "enq s x") auto

lemma deq_len: "len x = len (snd (deq x)) + (if fst (deq x) = None then 0 else 1)"
  using deq_some [of x "the (fst (deq x))" "snd (deq x)"] deq_none [of x "snd (deq x)"]
  by (cases "deq x") auto

lemma deq_empty: "len x = 0 \<Longrightarrow> fst (deq x) = None"
  using deq_len [of x] by (auto split: if_splits)

end

definition direct_dequeue :: "'q htb_sched \<Rightarrow> skb option \<times> 'q htb_sched" where
  "direct_dequeue q =
    (case direct_queue q of [] \<Rightarrow> (None, q) | s # ss \<Rightarrow> (Some s, q\<lparr>direct_queue := ss\<rparr>))"

interpretation direct: packet_queue direct_enqueue direct_dequeue "\<lambda>q. length (direct_queue q)"
  by unfold_locales
    (auto simp: direct_enqueue_def direct_dequeue_def NET_XMIT_SUCCESS_def NET_XMIT_DROP_def qlen_incr_def kfree_skb_def
      split: if_splits list.splits)

abbreviation leaf_queues :: "'q htb_env \<Rightarrow> bool" where
  "leaf_queues E \<equiv> packet_queue (leaf_enqueue E) (leaf_dequeue E) (leaf_qlen E)"

section \<open>Counting packets\<close>

definition leaves :: "'q htb_sched \<Rightarrow> cid set" where
  "leaves q = {c \<in> set (clhash q). level (cls q c) = 0}"

definition backlog :: "'q htb_env \<Rightarrow> 'q htb_sched \<Rightarrow> nat" where
  "backlog E q = (\<Sum>c\<in>leaves q. leaf_qlen E (leaf_q (cls q c)))"

definition stored :: "'q htb_env \<Rightarrow> 'q htb_sched \<Rightarrow> nat" where
  "stored E q = length (direct_queue q) + backlog E q + length (ofbuf q)"

text \<open>How far the counter \<open>sch->q.qlen\<close> is above the number of packets.\<close>

definition excess :: "'q htb_env \<Rightarrow> 'q htb_sched \<Rightarrow> int" where
  "excess E q = qlen q - int (stored E q)"

lemma finite_leaves [simp]: "finite (leaves q)"
  by (simp add: leaves_def)

lemma same_queues_counts:
  assumes "same_queues q q'"
  shows "leaves q' = leaves q" "backlog E q' = backlog E q" "stored E q' = stored E q" "excess E q' = excess E q"
proof -
  show l: "leaves q' = leaves q" by (simp add: leaves_def same_queuesD [OF assms])
  show b: "backlog E q' = backlog E q" by (simp add: backlog_def l same_queuesD [OF assms])
  show "stored E q' = stored E q" by (simp add: stored_def b same_queuesD [OF assms])
  then show "excess E q' = excess E q" by (simp add: excess_def same_queuesD [OF assms])
qed

text \<open>Replacing the qdisc of one leaf.\<close>

definition set_leaf :: "cid \<Rightarrow> 'q \<Rightarrow> 'q htb_sched \<Rightarrow> 'q htb_sched" where
  "set_leaf c lq q = upd c (\<lambda>x. x\<lparr>leaf_q := lq\<rparr>) q"

lemma set_leaf_fields [simp]:
  "leaf_q (cls (set_leaf c lq q) x) = (if x = c then lq else leaf_q (cls q x))"
  "level (cls (set_leaf c lq q) x) = level (cls q x)" "parent (cls (set_leaf c lq q) x) = parent (cls q x)"
  "prio_activity (cls (set_leaf c lq q) x) = prio_activity (cls q x)" "classid (cls (set_leaf c lq q) x) = classid (cls q x)"
  "cfilter_list (cls (set_leaf c lq q) x) = cfilter_list (cls q x)" "handle (set_leaf c lq q) = handle q"
  "defcls (set_leaf c lq q) = defcls q" "filter_list (set_leaf c lq q) = filter_list q"
  "clhash (set_leaf c lq q) = clhash q" "direct_queue (set_leaf c lq q) = direct_queue q" "ofbuf (set_leaf c lq q) = ofbuf q"
  "ofbuf_queued (set_leaf c lq q) = ofbuf_queued q" "qlen (set_leaf c lq q) = qlen q" "now (set_leaf c lq q) = now q"
  "row (set_leaf c lq q) = row q" "row_mask (set_leaf c lq q) = row_mask q"
  by (simp_all add: set_leaf_def)

lemma leaves_set_leaf [simp]: "leaves (set_leaf c lq q) = leaves q"
  by (simp add: leaves_def)

lemma settled_set_leaf [simp]: "settled (set_leaf c lq q) = settled q"
  unfolding set_leaf_def by (rule settled_upd) (simp add: sview_def bview_def lview_def)

lemma backlog_set_leaf:
  assumes "c \<in> leaves q"
  shows "int (backlog E (set_leaf c lq q)) = int (backlog E q) + int (leaf_qlen E lq) - int (leaf_qlen E (leaf_q (cls q c)))"
  using assms by (simp add: backlog_def sum.remove [of "leaves q" c])

lemma found_set_leaf [simp]: "found_ok (set_leaf c lq q) l r d = found_ok q l r d"
proof -
  have "loc_ptr (set_leaf c lq q) r sp = loc_ptr q r sp" for sp by (cases sp) (simp_all add: set_leaf_def)
  then show ?thesis by (simp add: found_ok_def attached_def leaf_loc_def)
qed

text \<open>What classification reads.\<close>

definition same_filters :: "'q htb_sched \<Rightarrow> 'q htb_sched \<Rightarrow> bool" where
  "same_filters q q' \<longleftrightarrow> clhash q' = clhash q \<and> handle q' = handle q \<and> defcls q' = defcls q \<and> filter_list q' = filter_list q \<and>
    (\<forall>x. level (cls q' x) = level (cls q x) \<and> classid (cls q' x) = classid (cls q x) \<and> cfilter_list (cls q' x) = cfilter_list (cls q x))"

lemma same_filters_refl [simp]: "same_filters q q"
  by (simp add: same_filters_def)

lemma same_filters_trans [trans]: "same_filters q q' \<Longrightarrow> same_filters q' q'' \<Longrightarrow> same_filters q q''"
  by (simp add: same_filters_def)

lemma same_queues_filters: "same_queues q q' \<Longrightarrow> same_filters q q'"
  by (simp add: same_filters_def same_queues_def)

text \<open>What the scan keeps: everything but trees, pointers and the contents of leaves.\<close>

definition kept :: "'q htb_sched \<Rightarrow> 'q htb_sched \<Rightarrow> bool" where
  "kept q q' \<longleftrightarrow> clhash q' = clhash q \<and> qlen q' = qlen q \<and> ofbuf q' = ofbuf q \<and> ofbuf_queued q' = ofbuf_queued q \<and>
    direct_queue q' = direct_queue q \<and> (\<forall>x. parent (cls q' x) = parent (cls q x) \<and> level (cls q' x) = level (cls q x)) \<and>
    same_filters q q'"

lemma kept_refl [simp]: "kept q q"
  by (simp add: kept_def)

lemma kept_trans [trans]: "kept q q' \<Longrightarrow> kept q' q'' \<Longrightarrow> kept q q''"
  by (simp add: kept_def same_filters_def)

lemma same_queues_kept: "same_queues q q' \<Longrightarrow> kept q q'"
  by (simp add: kept_def same_queues_def same_filters_def)

lemma set_leaf_kept [simp]: "kept q (set_leaf c lq q)"
  by (simp add: kept_def same_filters_def)

lemma found_leaf: "found_ok q l r c \<Longrightarrow> c \<in> leaves q"
  by (simp add: found_ok_def leaves_def)

section \<open>The scan\<close>

lemma advance_ptr_ok:
  assumes "settled q" "found_ok q l r c"
  shows "settled (advance_ptr l r c q)" "moved q (advance_ptr l r c q)"
proof -
  have p: "loc_ptr q r (leaf_loc l c q) = Some c" "\<not> (l \<noteq> 0 \<and> parent (cls q c) = None)"
    using assms(2) by (auto simp: found_ok_def)
  have eq: "advance_ptr l r c q = set_ptr r (leaf_loc l c q) (rb_next (loc_tree q r (leaf_loc l c q)) c) q"
    using p by (auto simp: advance_ptr_def Let_def htb_next_rb_node_def)
  show "settled (advance_ptr l r c q)" unfolding eq by (rule settled_set_ptr [OF assms(1)]) (rule rb_next_in)
  show "moved q (advance_ptr l r c q)" unfolding eq by (rule moved_set_ptr)
qed

lemma found_row:
  assumes "settled q" "row q l r \<noteq> []" "kept q q'" "moved q q'"
  shows "row q' l r \<noteq> []"
  using assms(2) moved_fields(1) [OF assms(4)] by simp

text \<open>The result of a scan of row \<open>(l, r)\<close>.\<close>

definition scanned :: "'q htb_env \<Rightarrow> nat \<times> nat \<Rightarrow> (skb \<times> cid) option \<Rightarrow> 'q htb_sched \<Rightarrow> 'q htb_sched \<Rightarrow> bool" where
  "scanned E lr res q q' \<longleftrightarrow> settled q' \<and> kept q q' \<and> (\<forall>r'. r' \<noteq> snd lr \<longrightarrow> row q' (fst lr) r' = [] \<longleftrightarrow> row q (fst lr) r' = []) \<and>
    (\<forall>s c. res = Some (s, c) \<longrightarrow> found_ok q' (fst lr) (snd lr) c) \<and>
    (leaf_queues E \<longrightarrow> backlog E q = backlog E q' + (if res = None then 0 else 1))"

lemma scanned_after:
  assumes "scanned E lr res q1 q'" "kept q q1" "backlog E q1 = backlog E q"
    "\<And>r'. r' \<noteq> snd lr \<Longrightarrow> row q1 (fst lr) r' = [] \<longleftrightarrow> row q (fst lr) r' = []"
  shows "scanned E lr res q q'"
  using assms kept_trans [OF assms(2)] by (simp add: scanned_def)

lemma deactivate_row:
  assumes "settled q" "found_ok q l r c" "r' \<noteq> r"
  shows "row (htb_deactivate c q) l r' = [] \<longleftrightarrow> row q l r' = []"
proof (rule deactivate_ok(4) [OF assms(1)])
  show "c \<in> set (clhash q)" "level (cls q c) = 0" using assms(2) by (simp_all add: found_ok_def)
  show "\<not> bit (prio_activity (cls q c)) r'"
    using assms by (auto simp: found_ok_def attached_def settled_def drops_ok_def)
qed

definition scan_pre :: "nat \<times> nat \<Rightarrow> cid option \<times> cid option \<Rightarrow> 'q htb_sched \<Rightarrow> bool" where
  "scan_pre lr sc q \<longleftrightarrow> settled q \<and> fst lr < TC_HTB_MAXDEPTH \<and> row q (fst lr) (snd lr) \<noteq> [] \<and>
    (\<forall>c. snd sc = Some c \<longrightarrow> found_ok q (fst lr) (snd lr) c)"

lemma scan_pre_lookup:
  assumes "settled q" "l < TC_HTB_MAXDEPTH" "row q l r \<noteq> []" "htb_lookup_leaf l r q = (nxt, q')"
  shows "scan_pre (l, r) (start, nxt) q'" "same_queues q q'" "row q' = row q"
  using lookup_leaf_ok(1,2) [OF assms(1,3,2,4)] lookup_leaf_ok(3) [OF assms(1,3,2,4)] assms(2,3)
  by (auto simp: scan_pre_def moved_fields moved_same_queues)

lemma scanned_stop: "settled q \<Longrightarrow> scanned E lr None q q"
  by (simp add: scanned_def)

text \<open>The three ways on from a leaf: it is empty, it gives a packet, it keeps its packets.\<close>

lemma scan_empty:
  assumes "scan_pre (l, r) (start, Some c) q"
  defines "q1 \<equiv> htb_deactivate c q"
  shows "\<not> bit (row_mask q1 l) r \<Longrightarrow> scanned E (l, r) None q q1"
    "bit (row_mask q1 l) r \<Longrightarrow> htb_lookup_leaf l r q1 = (nxt, q2) \<Longrightarrow> scan_pre (l, r) (start', nxt) q2"
    "bit (row_mask q1 l) r \<Longrightarrow> htb_lookup_leaf l r q1 = (nxt, q2) \<Longrightarrow> scanned E (l, r) res q2 q' \<Longrightarrow> scanned E (l, r) res q q'"
proof -
  have s: "settled q" and f: "found_ok q l r c" and l: "l < TC_HTB_MAXDEPTH" using assms(1) by (simp_all add: scan_pre_def)
  have 1: "settled q1" "same_queues q q1"
    using deactivate_ok(1,2) [OF s, of c] f by (simp_all add: found_ok_def q1_def)
  have rw: "r' \<noteq> r \<Longrightarrow> row q1 l r' = [] \<longleftrightarrow> row q l r' = []" for r'
    using deactivate_row [OF s f] by (simp add: q1_def)
  note c = same_queues_counts(2) [OF 1(2)] and k = same_queues_kept [OF 1(2)]
  show "scanned E (l, r) None q q1" by (rule scanned_after [OF scanned_stop [OF 1(1)] k c]) (simp add: rw)
  assume b: "bit (row_mask q1 l) r" and lk: "htb_lookup_leaf l r q1 = (nxt, q2)"
  then have ne: "row q1 l r \<noteq> []" using linked_mask [OF settled_linked [OF 1(1)]] by blast
  note lo = scan_pre_lookup [OF 1(1) l ne lk]
  show "scan_pre (l, r) (start', nxt) q2" by (rule lo(1))
  show "scanned E (l, r) res q q'" if "scanned E (l, r) res q2 q'"
    by (rule scanned_after [OF that]) (use lo(2,3) k c same_queues_counts(2) [OF lo(2)] rw in \<open>auto intro: kept_trans same_queues_kept\<close>)
qed

lemma scan_some:
  assumes "scan_pre (l, r) (start, Some c) q" "leaf_dequeue E (leaf_q (cls q c)) = (Some s, lq)"
  shows "scanned E (l, r) (Some (s, c)) q (set_leaf c lq q)"
proof -
  have s: "settled q" and f: "found_ok q l r c" using assms(1) by (simp_all add: scan_pre_def)
  have "backlog E q = backlog E (set_leaf c lq q) + 1" if "leaf_queues E"
    using backlog_set_leaf [OF found_leaf [OF f], of E lq] packet_queue.deq_some [OF that assms(2)] by simp
  then show ?thesis using s f by (simp add: scanned_def)
qed

lemma scan_keeps:
  assumes "scan_pre (l, r) (start, Some c) q" "leaf_dequeue E (leaf_q (cls q c)) = (None, lq)"
    "htb_lookup_leaf l r (advance_ptr l r c (set_leaf c lq q)) = (nxt, q2)"
  shows "scan_pre (l, r) (start', nxt) q2" "scanned E (l, r) res q2 q' \<Longrightarrow> scanned E (l, r) res q q'"
proof -
  let ?q0 = "set_leaf c lq q"
  have s: "settled ?q0" and f: "found_ok ?q0 l r c" and l: "l < TC_HTB_MAXDEPTH" and ne: "row ?q0 l r \<noteq> []"
    using assms(1) by (simp_all add: scan_pre_def)
  note a = advance_ptr_ok [OF s f]
  have ne1: "row (advance_ptr l r c ?q0) l r \<noteq> []" using ne moved_fields(1) [OF a(2)] by simp
  note lo = scan_pre_lookup [OF a(1) l ne1 assms(3)]
  show "scan_pre (l, r) (start', nxt) q2" by (rule lo(1))
  assume sc: "scanned E (l, r) res q2 q'"
  have sq: "same_queues ?q0 q2" using same_queues_trans [OF moved_same_queues [OF a(2)] lo(2)] .
  have k: "kept q q2" using kept_trans [OF set_leaf_kept same_queues_kept [OF sq]] .
  have rw: "row q2 = row q" using lo(3) moved_fields(1) [OF a(2)] by simp
  show "scanned E (l, r) res q q'"
  proof (cases "leaf_queues E")
    case True
    have "found_ok q l r c" using assms(1) by (simp add: scan_pre_def)
    then have "backlog E ?q0 = backlog E q"
      using backlog_set_leaf [OF found_leaf, of q l r c E lq] packet_queue.deq_none [OF True assms(2)] by simp
    then show ?thesis
      using scanned_after [OF sc k] same_queues_counts(2) [OF sq, of E] rw by simp
  next
    case False
    then show ?thesis using sc kept_trans [OF k] rw by (simp add: scanned_def)
  qed
qed

lemma scan_ok:
  assumes "htb_scan E lr sc q = Some y" "scan_pre lr sc q"
  shows "scanned E lr (fst y) q (snd y)"
  using assms
proof (induct arbitrary: rule: htb_scan.raw_induct [rotated, consumes 1, case_names step])
  case (step scan E lr sc q y)
  obtain l r where lr: "lr = (l, r)" by (cases lr)
  obtain start cl where sc: "sc = (start, cl)" by (cases sc)
  have s: "settled q" using step(3) by (simp add: scan_pre_def)
  show ?case
  proof (cases cl)
    case None
    then show ?thesis using step(2) s by (auto simp: sc intro: scanned_stop)
  next
    case (Some c)
    have pre: "scan_pre (l, r) (start, Some c) q" using step(3) by (simp add: lr sc Some)
    show ?thesis
    proof (cases "leaf_qlen E (leaf_q (cls q c)) = 0")
      case True
      let ?q1 = "htb_deactivate c q"
      obtain nxt q2 where lk: "htb_lookup_leaf l r ?q1 = (nxt, q2)" by (cases "htb_lookup_leaf l r ?q1")
      note em = scan_empty [OF pre]
      show ?thesis
      proof (cases "bit (row_mask ?q1 l) r")
        case False
        then have "y = (None, ?q1)" using step(2) True by (simp add: lr sc Some Let_def)
        then show ?thesis using em(1) [OF False] by (simp add: lr)
      next
        case bt: True
        then have "scan E lr (if start = Some c then nxt else start, nxt) q2 = Some y"
          using step(2) True lk by (simp add: lr sc Some Let_def)
        then have "scanned E lr (fst y) q2 (snd y)" using step(1) em(2) [OF bt lk] by (simp add: lr)
        then show ?thesis using em(3) [OF bt lk] by (simp add: lr)
      qed
    next
      case False
      obtain pkt lq where dq: "leaf_dequeue E (leaf_q (cls q c)) = (pkt, lq)" by (cases "leaf_dequeue E (leaf_q (cls q c))")
      show ?thesis
      proof (cases pkt)
        case (Some s')
        then have "y = (Some (s', c), set_leaf c lq q)" using step(2) False dq \<open>cl = Some c\<close> by (simp add: lr sc Let_def set_leaf_def)
        then show ?thesis using scan_some [OF pre] dq Some by (simp add: lr)
      next
        case None
        let ?q1 = "advance_ptr l r c (set_leaf c lq q)"
        obtain nxt q2 where lk: "htb_lookup_leaf l r ?q1 = (nxt, q2)" by (cases "htb_lookup_leaf l r ?q1")
        note kp = scan_keeps [OF pre dq [unfolded None] lk]
        have y: "(if nxt = start then Some (None, q2) else scan E lr (start, nxt) q2) = Some y"
          using step(2) False dq None lk \<open>cl = Some c\<close> by (simp add: lr sc Let_def set_leaf_def)
        show ?thesis
        proof (cases "nxt = start")
          case True
          then have "y = (None, q2)" using y by simp
          then show ?thesis using kp(2) [OF scanned_stop] kp(1) by (simp add: lr scan_pre_def)
        next
          case False
          then have "scanned E lr (fst y) q2 (snd y)" using y step(1) kp(1) by (simp add: lr)
          then show ?thesis using kp(2) by (simp add: lr)
        qed
      qed
    qed
  qed
qed

section \<open>Dequeueing\<close>

definition set_deficit :: "cid \<Rightarrow> (nat \<Rightarrow> int) \<Rightarrow> 'q htb_sched \<Rightarrow> 'q htb_sched" where
  "set_deficit c d q = upd c (\<lambda>x. x\<lparr>deficit := d\<rparr>) q"

lemma set_deficit_ok [simp]:
  "settled (set_deficit c d q) = settled q" "same_queues q (set_deficit c d q)" "found_ok (set_deficit c d q) l r x = found_ok q l r x"
proof -
  show "settled (set_deficit c d q) = settled q"
    unfolding set_deficit_def by (rule settled_upd) (simp add: sview_def bview_def lview_def)
  show "same_queues q (set_deficit c d q)" by (simp add: set_deficit_def upd_same_queues)
  have "loc_ptr (set_deficit c d q) r sp = loc_ptr q r sp" for sp by (cases sp) (simp_all add: set_deficit_def)
  then show "found_ok (set_deficit c d q) l r x = found_ok q l r x"
    by (simp add: found_ok_def attached_def leaf_loc_def, simp add: set_deficit_def)
qed

lemma take_ok:
  assumes "settled q" "found_ok q l r c"
  shows "settled (htb_take E l r s c q)" "same_queues q (htb_take E l r s c q)"
proof -
  define q1 where "q1 = set_deficit c ((deficit (cls q c))(l := deficit (cls q c) l - pkt_len s)) q"
  define q2 where "q2 = (if deficit (cls q1 c) l < 0
    then advance_ptr l r c (set_deficit c ((deficit (cls q1 c))(l := deficit (cls q1 c) l + quantum (cls q1 c))) q1) else q1)"
  define q3 where "q3 = (if leaf_qlen E (leaf_q (cls q2 c)) = 0 then htb_deactivate c q2 else q2)"
  have eq: "htb_take E l r s c q = htb_charge_class E c l s q3"
    by (simp add: htb_take_def Let_def q1_def q2_def q3_def set_deficit_def upd_def)
  have 1: "settled q1" "same_queues q q1" "found_ok q1 l r c" using assms by (simp_all add: q1_def)
  let ?d = "set_deficit c ((deficit (cls q1 c))(l := deficit (cls q1 c) l + quantum (cls q1 c))) q1"
  have a: "settled (advance_ptr l r c ?d)" "moved ?d (advance_ptr l r c ?d)"
    using advance_ptr_ok [of ?d l r c] 1 by simp_all
  have "same_queues q (advance_ptr l r c ?d)"
    by (rule same_queues_trans [OF same_queues_trans [OF 1(2) set_deficit_ok(2)] moved_same_queues [OF a(2)]])
  then have 2: "settled q2" "same_queues q q2" using 1 a(1) by (simp_all add: q2_def)
  have c2: "c \<in> set (clhash q2)" "level (cls q2 c) = 0"
    using assms(2) by (simp_all add: found_ok_def same_queuesD [OF 2(2)])
  have 3: "settled q3" "same_queues q q3"
    using 2 deactivate_ok(1,2) [OF 2(1) c2] same_queues_trans [OF 2(2)] by (auto simp: q3_def)
  have "c \<in> set (clhash q3)" using assms(2) by (simp add: found_ok_def same_queuesD [OF 3(2)])
  then show "settled (htb_take E l r s c q)" "same_queues q (htb_take E l r s c q)"
    unfolding eq using charge_class_ok [OF 3(1)] same_queues_trans [OF 3(2)] by auto
qed

text \<open>A step of the dequeue loops: what it keeps, and the packet it takes from the leaves.\<close>

definition served :: "'q htb_env \<Rightarrow> skb option \<Rightarrow> 'q htb_sched \<Rightarrow> 'q htb_sched \<Rightarrow> bool" where
  "served E s q q' \<longleftrightarrow> settled q' \<and> kept q q' \<and> (leaf_queues E \<longrightarrow> backlog E q = backlog E q' + (if s = None then 0 else 1))"

lemma served_refl: "settled q \<Longrightarrow> served E None q q"
  by (simp add: served_def)

lemma served_trans: "served E None q q1 \<Longrightarrow> served E s q1 q2 \<Longrightarrow> served E s q q2"
  by (auto simp: served_def intro: kept_trans)

lemma same_queues_served: "settled q' \<Longrightarrow> same_queues q q' \<Longrightarrow> served E None q q'"
  by (simp add: served_def same_queues_kept same_queues_counts)

lemma dequeue_tree_ok:
  assumes "htb_dequeue_tree E r l q = Some (s, q')" "settled q" "l < TC_HTB_MAXDEPTH" "row q l r \<noteq> []"
  shows "served E s q q'" "s = None \<Longrightarrow> r' \<noteq> r \<Longrightarrow> row q' l r' = [] \<longleftrightarrow> row q l r' = []"
proof -
  obtain cl q1 where lk: "htb_lookup_leaf l r q = (cl, q1)" by (cases "htb_lookup_leaf l r q")
  obtain res q2 where sc: "htb_scan E (l, r) (cl, cl) q1 = Some (res, q2)"
    and y: "(s, q') = (case res of None \<Rightarrow> (None, q2) | Some (s, c) \<Rightarrow> (Some s, htb_take E l r s c q2))"
    using assms(1) lk by (auto simp: htb_dequeue_tree_def bind_eq_Some_conv split: option.splits)
  note lo = scan_pre_lookup [OF assms(2,3,4) lk]
  have d: "scanned E (l, r) res q1 q2" using scan_ok [OF sc lo(1)] by simp
  have d': "scanned E (l, r) res q q2"
    by (rule scanned_after [OF d]) (use lo(2,3) same_queues_counts(2) [OF lo(2)] in \<open>auto intro: same_queues_kept\<close>)
  show "served E s q q'"
  proof (cases res)
    case (Some sc)
    obtain k c where kc: "sc = (k, c)" by (cases sc)
    have f: "settled q2" "found_ok q2 l r c" using d' Some kc by (auto simp: scanned_def)
    note t = take_ok [OF f, of E k]
    show ?thesis
      using d' y t(1) same_queues_counts(2) [OF t(2)] kept_trans [of q q2] same_queues_kept [OF t(2)]
      by (auto simp: Some kc served_def scanned_def)
  qed (use d' y in \<open>auto simp: served_def scanned_def\<close>)
  show "row q' l r' = [] \<longleftrightarrow> row q l r' = []" if "s = None" "r' \<noteq> r"
    using that d' y by (auto simp: scanned_def split: option.splits)
qed

lemma dequeue_prios_ok:
  assumes "dequeue_prios E l rs q = Some (s, q')" "settled q" "l < TC_HTB_MAXDEPTH" "distinct rs" "\<forall>r\<in>set rs. row q l r \<noteq> []"
  shows "served E s q q'"
  using assms
proof (induction rs arbitrary: q)
  case Nil
  then show ?case by (simp add: served_refl)
next
  case (Cons r rs)
  obtain s1 q1 where t: "htb_dequeue_tree E r l q = Some (s1, q1)"
    and y: "(case s1 of None \<Rightarrow> dequeue_prios E l rs q1 | Some _ \<Rightarrow> Some (s1, q1)) = Some (s, q')"
    using Cons.prems(1) by (auto simp: bind_eq_Some_conv)
  have ne: "row q l r \<noteq> []" using Cons.prems(5) by simp
  note dt = dequeue_tree_ok [OF t Cons.prems(2,3) ne]
  show ?case
  proof (cases s1)
    case None
    have "\<forall>r'\<in>set rs. row q1 l r' \<noteq> []"
    proof
      fix r' assume "r' \<in> set rs"
      then have "r' \<noteq> r" "row q l r' \<noteq> []" using Cons.prems(4,5) by auto
      then show "row q1 l r' \<noteq> []" using dt(2) [OF None] by blast
    qed
    then have "served E s q1 q'"
      using Cons.IH [of q1] y None dt(1) Cons.prems(3,4) by (simp add: served_def)
    then show ?thesis using dt(1) None served_trans by blast
  next
    case (Some a)
    then show ?thesis using y dt(1) by auto
  qed
qed

lemma level_events_ok:
  assumes "settled q"
  shows "settled (snd (level_events E n l q))" "same_queues q (snd (level_events E n l q))"
proof -
  obtain ev q1 where d: "htb_do_events E l n q = (ev, q1)" by (cases "htb_do_events E l n q")
  have 1: "settled q1" "same_queues q q1" using do_events_ok [OF assms, of E l n] d by auto
  have c: "settled (q1\<lparr>near_ev_cache := k\<rparr>) = settled q1" for k by (rule settled_cong) (simp_all add: strees_def)
  have s: "same_queues q (q1\<lparr>near_ev_cache := k\<rparr>)" for k using 1(2) by (simp add: same_queues_def)
  show "settled (snd (level_events E n l q))" "same_queues q (snd (level_events E n l q))"
    using assms 1(1) c s by (simp_all add: level_events_def d Let_def)
qed

lemma dequeue_levels_ok:
  assumes "dequeue_levels E budget ls (ev, q) = Some (s, ev', q')" "settled q" "\<forall>l\<in>set ls. l < TC_HTB_MAXDEPTH"
  shows "served E s q q'"
  using assms
proof (induction ls arbitrary: ev q)
  case Nil
  then show ?case by (simp add: served_refl)
next
  case (Cons l ls)
  obtain e1 q1 where le: "level_events E (budget l) l q = (e1, q1)" by (cases "level_events E (budget l) l q")
  have 1: "settled q1" "same_queues q q1" using level_events_ok [OF Cons.prems(2), of E "budget l" l] le by auto
  obtain s2 q2 where p: "dequeue_prios E l (prios_of (row_mask q1 l)) q1 = Some (s2, q2)"
    and y: "(case s2 of None \<Rightarrow> dequeue_levels E budget ls (if ev > e1 then e1 else ev, q2)
      | Some _ \<Rightarrow> Some (s2, if ev > e1 then e1 else ev, q2)) = Some (s, ev', q')"
    using Cons.prems(1) le by (auto simp: bind_eq_Some_conv Let_def)
  have "\<forall>r\<in>set (prios_of (row_mask q1 l)). row q1 l r \<noteq> []" using linked_mask [OF settled_linked [OF 1(1)]] by simp
  then have sv: "served E s2 q1 q2" using dequeue_prios_ok [OF p 1(1)] Cons.prems(3) by simp
  then have sv': "served E s2 q q2" using served_trans [OF same_queues_served [OF 1]] by blast
  show ?case
  proof (cases s2)
    case None
    then have "served E s q2 q'" using Cons.IH y sv' Cons.prems(3) by (simp add: served_def)
    then show ?thesis using served_trans sv' None by blast
  next
    case (Some a)
    then show ?thesis using y sv' by auto
  qed
qed

end
