(* ===== verification/HtbQueue.thy ===== *)
theory HtbQueue
  imports HtbServe
begin

text \<open>
  The entry points \<open>htb_enqueue\<close> and \<open>htb_dequeue\<close> with the overflow buffer: they keep \<open>settled\<close>, and
  the accounting of \<open>sch->q.qlen\<close>.  A packet in the overflow buffer was counted when it arrived; the drain
  enqueues one of the packets again, which counts it twice, and frees the others without counting them
  off, so each drained packet leaves the counter one too high.
\<close>

section \<open>Enqueueing\<close>

text \<open>Filters point to live classes: a class with filters bound to it cannot be deleted.\<close>

definition filters_ok :: "'q htb_env \<Rightarrow> 'q htb_sched \<Rightarrow> bool" where
  "filters_ok E q \<longleftrightarrow> (\<forall>s f v c i. tc_classify E s f = (v, Some c, i) \<longrightarrow> c \<in> set (clhash q))"

lemma htb_find_Some: "htb_find h q = Some c \<Longrightarrow> c \<in> set (clhash q) \<and> classid (cls q c) = h"
  by (auto simp: htb_find_def find_Some_iff)

lemma filter_loop_leaf:
  assumes "htb_filter_loop E s q tcf = Some res" "filters_ok E q" "res = Filter_result (Leaf_class c)"
  shows "c \<in> leaves q"
  using assms
proof (induct arbitrary: rule: htb_filter_loop.raw_induct [rotated, consumes 1, case_names step])
  case (step loop E s q tcf res)
  obtain f where f: "tcf = Some f" using step(2,4) by (cases tcf) auto
  obtain v cl i where t: "tc_classify E s f = (v, cl, i)" by (cases "tc_classify E s f")
  have cl: "cl = Some d \<Longrightarrow> d \<in> set (clhash q)" for d using step(3) t unfolding filters_ok_def by blast
  have d: "(if cl = None then htb_find i q else cl) = Some d \<Longrightarrow> d \<in> set (clhash q)" for d
    using cl htb_find_Some by (auto split: if_splits)
  show ?case
    using step(2,4) step(1) [OF _ step(3)] d unfolding f
    by (auto simp: t Let_def leaves_def split: if_splits option.splits)
qed

lemma classify_leaf:
  assumes "htb_classify E s q = Some (Leaf_class c)" "filters_ok E q"
  shows "c \<in> leaves q"
proof -
  have f: "htb_find h q = Some d \<Longrightarrow> level (cls q d) = 0 \<Longrightarrow> d \<in> leaves q" for h d
    by (simp add: leaves_def htb_find_Some)
  have df: "htb_default_class q = Leaf_class c \<Longrightarrow> c \<in> leaves q"
    using f by (auto simp: htb_default_class_def split: option.splits if_splits)
  show ?thesis
    using assms f df filter_loop_leaf [OF _ assms(2) refl, of s "filter_list q" c]
    by (auto simp: htb_classify_def bind_eq_Some_conv split: if_splits) (auto split: filter_result.splits)
qed

definition of_ok :: "'q htb_sched \<Rightarrow> bool" where
  "of_ok q \<longleftrightarrow> ofbuf_queued q = int (length (ofbuf q))"

text \<open>What an enqueueing keeps.\<close>

definition enqueued :: "'q htb_env \<Rightarrow> skb \<Rightarrow> 'q htb_sched \<Rightarrow> 'q htb_sched \<Rightarrow> bool" where
  "enqueued E s q q' \<longleftrightarrow> settled q' \<and> clhash q' = clhash q \<and> same_filters q q' \<and> (of_ok q \<longrightarrow> of_ok q') \<and>
    (ofbuf q' = ofbuf q \<or> ofbuf q' = ofbuf q @ [s]) \<and> (leaf_queues E \<longrightarrow> excess E q' = excess E q)"

text \<open>Updates of the counters and buffers outside the class structure.\<close>

lemma outer_settled [simp]:
  "settled (q\<lparr>qlen := a\<rparr>) = settled q" "settled (q\<lparr>ofbuf := b\<rparr>) = settled q" "settled (q\<lparr>ofbuf_queued := c\<rparr>) = settled q"
  "settled (q\<lparr>direct_queue := d\<rparr>) = settled q" "settled (q\<lparr>direct_pkts := a\<rparr>) = settled q" "settled (q\<lparr>qdrops := n\<rparr>) = settled q"
  "settled (q\<lparr>skb_refs := e\<rparr>) = settled q" "settled (q\<lparr>now := a\<rparr>) = settled q" "settled (q\<lparr>overlimits := n\<rparr>) = settled q"
  by (rule settled_cong; simp add: strees_def)+

lemma leaves_update [simp]:
  "leaves (q\<lparr>qlen := a\<rparr>) = leaves q" "leaves (q\<lparr>ofbuf := b\<rparr>) = leaves q" "leaves (q\<lparr>ofbuf_queued := c\<rparr>) = leaves q"
  "leaves (q\<lparr>direct_queue := d\<rparr>) = leaves q" "leaves (q\<lparr>direct_pkts := a\<rparr>) = leaves q" "leaves (q\<lparr>qdrops := n\<rparr>) = leaves q"
  "leaves (q\<lparr>skb_refs := e\<rparr>) = leaves q" "leaves (q\<lparr>now := a\<rparr>) = leaves q" "leaves (q\<lparr>overlimits := n\<rparr>) = leaves q"
  by (simp_all add: leaves_def)

lemma backlog_update [simp]:
  "backlog E (q\<lparr>qlen := a\<rparr>) = backlog E q" "backlog E (q\<lparr>ofbuf := b\<rparr>) = backlog E q" "backlog E (q\<lparr>ofbuf_queued := c\<rparr>) = backlog E q"
  "backlog E (q\<lparr>direct_queue := d\<rparr>) = backlog E q" "backlog E (q\<lparr>direct_pkts := a\<rparr>) = backlog E q" "backlog E (q\<lparr>qdrops := n\<rparr>) = backlog E q"
  "backlog E (q\<lparr>skb_refs := e\<rparr>) = backlog E q" "backlog E (q\<lparr>now := a\<rparr>) = backlog E q" "backlog E (q\<lparr>overlimits := n\<rparr>) = backlog E q"
  by (simp_all add: backlog_def)

lemma same_filters_update [simp]:
  "same_filters q0 (q\<lparr>qlen := a\<rparr>) = same_filters q0 q" "same_filters q0 (q\<lparr>ofbuf := b\<rparr>) = same_filters q0 q"
  "same_filters q0 (q\<lparr>ofbuf_queued := c\<rparr>) = same_filters q0 q" "same_filters q0 (q\<lparr>direct_queue := d\<rparr>) = same_filters q0 q"
  "same_filters q0 (q\<lparr>direct_pkts := a\<rparr>) = same_filters q0 q" "same_filters q0 (q\<lparr>qdrops := n\<rparr>) = same_filters q0 q"
  "same_filters q0 (q\<lparr>skb_refs := e\<rparr>) = same_filters q0 q" "same_filters q0 (q\<lparr>now := a\<rparr>) = same_filters q0 q"
  by (simp_all add: same_filters_def)

lemma leaf_enqueue_in_eq:
  "leaf_enqueue_in E s c q =
    (let ret = fst (leaf_enqueue E s (leaf_q (cls q c))); q1 = set_leaf c (snd (leaf_enqueue E s (leaf_q (cls q c)))) (skb_get s q)
     in qlen_incr (if ret \<noteq> NET_XMIT_SUCCESS then ofbuf_add s q1
       else kfree_skb s (htb_activate c (upd c (bstats_update s) q1))))"
  by (simp add: leaf_enqueue_in_def set_leaf_def skb_get_def Let_def split: prod.split)

lemma leaf_enqueue_in_ok:
  assumes "settled q" "c \<in> leaves q"
  shows "enqueued E s q (leaf_enqueue_in E s c q)"
proof -
  define lq where "lq = leaf_enqueue E s (leaf_q (cls q c))"
  define q1 where "q1 = set_leaf c (snd lq) (skb_get s q)"
  define q2 where "q2 = htb_activate c (upd c (bstats_update s) q1)"
  have lv: "c \<in> set (clhash q)" "level (cls q c) = 0" using assms(2) by (simp_all add: leaves_def)
  have 1: "settled q1" using assms(1) by (simp add: q1_def skb_get_def)
  have "settled (upd c (bstats_update s) q1)" using 1 by (simp add: settled_upd bstats_update_fields)
  moreover have "same_queues q1 (upd c (bstats_update s) q1)" by (simp add: upd_same_queues bstats_update_fields)
  ultimately have 2: "settled q2" "same_queues q1 q2"
    using activate_ok [of "upd c (bstats_update s) q1" c] lv same_queues_trans
    by (auto simp: q2_def q1_def skb_get_def bstats_update_fields)
  have b: "int (backlog E q1) = int (backlog E q) + (if fst lq = NET_XMIT_SUCCESS then 1 else 0)" if "leaf_queues E"
  proof -
    have q: "backlog E (skb_get s q) = backlog E q" "c \<in> leaves (skb_get s q)" "leaf_q (cls (skb_get s q) c) = leaf_q (cls q c)"
      using assms(2) by (simp_all add: skb_get_def)
    show ?thesis
      using backlog_set_leaf [OF q(2), of E "snd lq"] packet_queue.enq_len [OF that, of s "leaf_q (cls q c)"] q(1,3)
      by (simp add: q1_def lq_def)
  qed
  have f1: "qlen q1 = qlen q" "direct_queue q1 = direct_queue q" "ofbuf q1 = ofbuf q" "ofbuf_queued q1 = ofbuf_queued q" "clhash q1 = clhash q"
    by (simp_all add: q1_def skb_get_def)
  have sf: "same_filters q q1" by (simp add: q1_def skb_get_def same_filters_def)
  then have sf2: "same_filters q q2" using same_filters_trans same_queues_filters [OF 2(2)] by blast
  show ?thesis
  proof (cases "fst lq = NET_XMIT_SUCCESS")
    case True
    then have eq: "leaf_enqueue_in E s c q = qlen_incr (kfree_skb s q2)"
      by (simp add: leaf_enqueue_in_eq Let_def lq_def [symmetric] q1_def [symmetric] q2_def)
    show ?thesis
      using 2 b True f1 sf2 same_queues_counts(2) [OF 2(2), of E] same_queuesD [OF 2(2)] unfolding eq
      by (simp add: enqueued_def qlen_incr_def kfree_skb_def of_ok_def excess_def stored_def)
  next
    case False
    then have eq: "leaf_enqueue_in E s c q = qlen_incr (ofbuf_add s q1)"
      by (simp add: leaf_enqueue_in_eq Let_def lq_def [symmetric] q1_def [symmetric])
    show ?thesis
      using 1 b False f1 sf unfolding eq
      by (simp add: enqueued_def qlen_incr_def ofbuf_add_def of_ok_def excess_def stored_def)
  qed
qed

lemma enqueue_ok:
  assumes "htb_enqueue E s q = Some (ret, q')" "settled q" "filters_ok E q"
  shows "enqueued E s q q'"
proof -
  obtain cl where cl: "htb_classify E s q = Some cl" and y: "(ret, q') = (case cl of HTB_DIRECT \<Rightarrow> direct_enqueue s q
      | No_class ret \<Rightarrow> (ret, kfree_skb s (if ret = NET_XMIT_SUCCESS + NET_XMIT_BYPASS then q\<lparr>qdrops := Suc (qdrops q)\<rparr> else q))
      | Leaf_class c \<Rightarrow> (NET_XMIT_SUCCESS, leaf_enqueue_in E s c q))"
    using assms(1) by (auto simp: htb_enqueue_def bind_eq_Some_conv)
  show ?thesis
  proof (cases cl)
    case HTB_DIRECT
    then show ?thesis
      using y assms(2)
      by (auto simp: direct_enqueue_def qlen_incr_def kfree_skb_def enqueued_def of_ok_def excess_def stored_def split: if_splits)
  next
    case (No_class r)
    then show ?thesis
      using y assms(2) by (simp add: kfree_skb_def enqueued_def of_ok_def excess_def stored_def)
  next
    case (Leaf_class c)
    then show ?thesis using y leaf_enqueue_in_ok [OF assms(2) classify_leaf] cl assms(3) by simp
  qed
qed

section \<open>The drain of the overflow buffer\<close>

definition drained :: "'q htb_env \<Rightarrow> nat \<times> nat \<Rightarrow> 'q htb_sched \<Rightarrow> 'q htb_sched \<Rightarrow> bool" where
  "drained E ri q q' \<longleftrightarrow> settled q' \<and> clhash q' = clhash q \<and> ofbuf q' = [] \<and>
    (leaf_queues E \<longrightarrow> excess E q + int (length (ofbuf q)) \<le> excess E q' \<and>
      excess E q' \<le> excess E q + int (length (ofbuf q)) + (if snd ri \<le> fst ri then 1 else 0))"

lemma drain_ok:
  assumes "ofbuf_drain E ri q = Some q'" "settled q" "filters_ok E q"
  shows "drained E ri q q'"
  using assms
proof (induct arbitrary: rule: ofbuf_drain.raw_induct [rotated, consumes 1, case_names step])
  case (step loop E ri q q')
  show ?case
  proof (cases "ofbuf q")
    case Nil
    then show ?thesis using step(2,3) by (simp add: drained_def)
  next
    case (Cons pkt rest)
    define q1 where "q1 = q\<lparr>ofbuf := rest\<rparr>"
    obtain q2 where q2: "(if snd ri = fst ri then map_option snd (htb_enqueue E pkt q1) else Some (kfree_skb pkt q1)) = Some q2"
      and y: "loop E (fst ri, Suc (snd ri)) q2 = Some q'"
      using step(2) Cons by (auto simp: Let_def bind_eq_Some_conv q1_def [symmetric])
    have 1: "settled q1" "filters_ok E q1" "excess E q1 = excess E q + 1" "clhash q1 = clhash q" "ofbuf q1 = rest"
      using step(3,4) Cons by (simp_all add: q1_def filters_ok_def excess_def stored_def)
    have 2: "settled q2" "clhash q2 = clhash q" "leaf_queues E \<Longrightarrow> excess E q2 = excess E q + 1"
      "ofbuf q2 = rest \<or> snd ri = fst ri \<and> ofbuf q2 = rest @ [pkt]"
    proof -
      have "enqueued E pkt q1 q2 \<or> q2 = kfree_skb pkt q1 \<and> snd ri \<noteq> fst ri"
        using q2 enqueue_ok [OF _ 1(1,2)] by (auto split: if_splits)
      then show "settled q2" "clhash q2 = clhash q" "leaf_queues E \<Longrightarrow> excess E q2 = excess E q + 1"
        "ofbuf q2 = rest \<or> snd ri = fst ri \<and> ofbuf q2 = rest @ [pkt]"
        using 1 q2 by (auto simp: enqueued_def kfree_skb_def excess_def stored_def split: if_splits)
    qed
    have "filters_ok E q2" using step(4) 2(2) by (simp add: filters_ok_def)
    then have d: "drained E (fst ri, Suc (snd ri)) q2 q'" using step(1) [OF y 2(1)] by blast
    show ?thesis
      using d 2 Cons by (auto simp: drained_def split: if_splits)
  qed
qed

section \<open>Dequeueing\<close>

text \<open>
  The effect of the path from the label \<open>ok:\<close> on: without overflow packets the counter stays as exact as it
  was, with \<open>n\<close> of them it gains \<open>n\<close>, or one more when the chosen packet overflows again.
\<close>

definition leak :: "'q htb_env \<Rightarrow> nat \<Rightarrow> int \<Rightarrow> int \<Rightarrow> bool" where
  "leak E n a b \<longleftrightarrow> (if n = 0 then b = a else a + int n \<le> b \<and> b \<le> a + int n + 1)"

lemma dequeue_done_ok:
  assumes "dequeue_done E random q = Some q'" "settled q" "filters_ok E q" "of_ok q"
  shows "settled q'" "clhash q' = clhash q" "of_ok q'" "ofbuf q' = []"
    "leaf_queues E \<Longrightarrow> leak E (length (ofbuf q)) (excess E q - 1) (excess E q')"
proof -
  define q1 where "q1 = q\<lparr>qlen := qlen q - 1\<rparr>"
  have 1: "settled q1" "filters_ok E q1" "excess E q1 = excess E q - 1" "ofbuf q1 = ofbuf q" "ofbuf_queued q1 = int (length (ofbuf q))"
    using assms(2-4) by (simp_all add: q1_def filters_ok_def excess_def stored_def of_ok_def)
  have "settled q' \<and> clhash q' = clhash q \<and> of_ok q' \<and> ofbuf q' = [] \<and>
    (leaf_queues E \<longrightarrow> leak E (length (ofbuf q)) (excess E q - 1) (excess E q'))"
  proof (cases "ofbuf q")
    case Nil
    then have "q' = q1" using assms(1) 1(5) by (simp add: dequeue_done_def q1_def [symmetric] Let_def)
    then show ?thesis using 1 Nil by (simp add: of_ok_def leak_def) (simp add: q1_def)
  next
    case (Cons a b)
    obtain q2 where q2: "ofbuf_drain E (random mod length (ofbuf q), 0) q1 = Some q2" "q' = q2\<lparr>ofbuf_queued := 0\<rparr>"
      using assms(1) 1(5) Cons by (auto simp: dequeue_done_def q1_def [symmetric] Let_def nat_add_distrib)
    have d: "drained E (random mod length (ofbuf q), 0) q1 q2" by (rule drain_ok [OF q2(1) 1(1,2)])
    have "clhash q1 = clhash q" by (simp add: q1_def)
    moreover have "excess E q' = excess E q2" by (simp add: q2(2) excess_def stored_def)
    ultimately show ?thesis
      using d 1 Cons by (auto simp: drained_def q2(2) of_ok_def leak_def split: if_splits)
  qed
  then show "settled q'" "clhash q' = clhash q" "of_ok q'" "ofbuf q' = []"
    "leaf_queues E \<Longrightarrow> leak E (length (ofbuf q)) (excess E q - 1) (excess E q')" by auto
qed

lemma dequeue_ok:
  assumes "htb_dequeue E time random budget q = Some (s, q')" "settled q" "filters_ok E q" "of_ok q"
  shows "settled q'" "clhash q' = clhash q" "of_ok q'"
    "leaf_queues E \<Longrightarrow> leak E (if s = None then 0 else length (ofbuf q)) (excess E q) (excess E q')"
proof -
  have "settled q' \<and> clhash q' = clhash q \<and> of_ok q' \<and>
    (leaf_queues E \<longrightarrow> leak E (if s = None then 0 else length (ofbuf q)) (excess E q) (excess E q'))"
  proof (cases "direct_queue q")
    case (Cons d ds)
    let ?q1 = "q\<lparr>direct_queue := ds\<rparr>"
    have dn: "dequeue_done E random ?q1 = Some q'" "s = Some d" using assms(1) Cons by (auto simp: htb_dequeue_def)
    have "settled ?q1" "filters_ok E ?q1" "of_ok ?q1" "excess E ?q1 = excess E q + 1"
      using assms(2-4) Cons by (simp_all add: filters_ok_def of_ok_def excess_def stored_def)
    then show ?thesis using dequeue_done_ok [OF dn(1)] dn(2) by simp
  next
    case Nil
    show ?thesis
    proof (cases "qlen q = 0")
      case True
      then show ?thesis using assms Nil by (simp add: htb_dequeue_def leak_def)
    next
      case False
      let ?q0 = "q\<lparr>now := time\<rparr>"
      obtain ev q1 where l: "dequeue_levels E budget [0..<TC_HTB_MAXDEPTH] (time + 5 * PSCHED_TICKS_PER_SEC E, ?q0) = Some (s, ev, q1)"
        and y: "(case s of None \<Rightarrow> q' = q1\<lparr>overlimits := Suc (overlimits q1)\<rparr> | Some _ \<Rightarrow> dequeue_done E random q1 = Some q')"
        using assms(1) Nil False by (auto simp: htb_dequeue_def bind_eq_Some_conv split: option.splits)
      have sv: "served E s ?q0 q1" using dequeue_levels_ok [OF l] assms(2) by simp
      then have k: "settled q1" "kept ?q0 q1" by (simp_all add: served_def)
      have 1: "filters_ok E q1" "of_ok q1" "ofbuf q1 = ofbuf q" "clhash q1 = clhash q"
        using k(2) assms(3,4) by (simp_all add: kept_def filters_ok_def of_ok_def)
      have e: "excess E q1 = excess E q + (if s = None then 0 else 1)" if "leaf_queues E"
        using sv that by (simp add: served_def kept_def excess_def stored_def)
      show ?thesis
      proof (cases s)
        case None
        then show ?thesis using y k(1) 1 e by (simp add: leak_def of_ok_def excess_def stored_def)
      next
        case (Some a)
        then show ?thesis using y dequeue_done_ok [OF _ k(1) 1(1,2), of random q'] 1 e by simp
      qed
    qed
  qed
  then show "settled q'" "clhash q' = clhash q" "of_ok q'"
    "leaf_queues E \<Longrightarrow> leak E (if s = None then 0 else length (ofbuf q)) (excess E q) (excess E q')" by auto
qed

end
