(* ===== verification/HtbAdmin.thy ===== *)
theory HtbAdmin
  imports HtbQdisc
begin

text \<open>
  The control side of \<open>util/sch_htb-ofbuf/sch_htb.c\<close>: creation and reset of the qdisc, dropping, grafting,
  and creating, changing and deleting classes.  Netlink parsing, memory, rate tables and estimators are
  the kernel's: what they return is in the request \<open>htb_req\<close>.
\<close>

section \<open>Creation, dropping and reset\<close>

definition EINVAL :: int where "EINVAL = 22"
definition ENOBUFS :: int where "ENOBUFS = 105"
definition EBUSY :: int where "EBUSY = 16"

record htb_glob =
  g_version :: u32
  g_rate2quantum :: u32
  g_defcls :: u32

definition HTB_VER :: u32 where "HTB_VER = 0x30011"

text \<open>\<open>blank\<close> is the memory of the classes; none is live yet.\<close>

definition htb_init :: "(cid \<Rightarrow> 'q htb_class) \<Rightarrow> u32 \<Rightarrow> bool \<Rightarrow> int \<Rightarrow> htb_glob option \<Rightarrow> int \<Rightarrow> int \<Rightarrow> int + 'q htb_sched" where
  "htb_init blank hnd opt parse gopt hash_err tx_queue_len =
    (if \<not> opt then Inl (- EINVAL)
     else if parse < 0 then Inl parse
     else case gopt of
       None \<Rightarrow> Inl (- EINVAL)
     | Some g \<Rightarrow>
         if g_version g \<noteq> drop_bit 16 HTB_VER then Inl (- EINVAL)
         else if hash_err < 0 then Inl hash_err
         else Inr \<lparr>clhash = [], cls = blank, drops = (\<lambda>_. []), row = (\<lambda>_ _. []), row_mask = (\<lambda>_. 0), rptr = (\<lambda>_ _. None),
           rlast_ptr_id = (\<lambda>_ _. 0), wait_pq = (\<lambda>_. []), near_ev_cache = (\<lambda>_. 0), defcls = g_defcls g, filter_list = None,
           rate2quantum = (if sint (g_rate2quantum g) < 1 then 1 else sint (g_rate2quantum g)), now = 0,
           direct_queue = [], direct_qlen = (if tx_queue_len < 2 then 2 else tx_queue_len), direct_pkts = 0,
           ofbuf = [], ofbuf_queued = 0, warned = False, handle = hnd, qlen = 0, qdrops = 0, overlimits = 0,
           skb_refs = (\<lambda>_. 0), faults = 0\<rparr>)"

fun drop_from :: "'q htb_env \<Rightarrow> cid list \<Rightarrow> 'q htb_sched \<Rightarrow> nat \<times> 'q htb_sched" where
  "drop_from E [] q = (0, q)"
| "drop_from E (c # cs) q =
    (let (len, lq) = leaf_drop E (leaf_q (cls q c));
         q = upd c (\<lambda>x. x\<lparr>leaf_q := lq\<rparr>) q
     in if len \<noteq> 0 then
          let q = q\<lparr>qlen := qlen q - 1\<rparr>
          in (len, if leaf_qlen E (leaf_q (cls q c)) = 0 then htb_deactivate c q else q)
        else drop_from E cs q)"

fun drop_prios :: "'q htb_env \<Rightarrow> nat list \<Rightarrow> 'q htb_sched \<Rightarrow> nat \<times> 'q htb_sched" where
  "drop_prios E [] q = (0, q)"
| "drop_prios E (r # rs) q =
    (let (len, q) = drop_from E (drops q r) q in if len \<noteq> 0 then (len, q) else drop_prios E rs q)"

definition htb_drop :: "'q htb_env \<Rightarrow> 'q htb_sched \<Rightarrow> nat \<times> 'q htb_sched" where
  "htb_drop E q = drop_prios E (rev [0..<TC_HTB_NUMPRIO]) q"

text \<open>Clearing \<open>un.inner\<close> clears the deficits too, which lie in the same bytes of the union.\<close>

definition memset_inner :: "'q htb_class \<Rightarrow> 'q htb_class" where
  "memset_inner x = x\<lparr>feed := (\<lambda>_. []), iptr := (\<lambda>_. None), last_ptr_id := (\<lambda>_. 0), deficit := (\<lambda>_. 0)\<rparr>"

definition reset_class :: "'q htb_env \<Rightarrow> 'q htb_class \<Rightarrow> 'q htb_class" where
  "reset_class E x =
    (if level x \<noteq> 0 then memset_inner x else x\<lparr>leaf_q := leaf_reset E (leaf_q x)\<rparr>)
      \<lparr>prio_activity := 0, cmode := HTB_CAN_SEND\<rparr>"

definition htb_reset :: "'q htb_env \<Rightarrow> 'q htb_sched \<Rightarrow> 'q htb_sched" where
  "htb_reset E q =
    q\<lparr>cls := (\<lambda>c. if c \<in> set (clhash q) then reset_class E (cls q c) else cls q c),
      direct_queue := [], qlen := 0, ofbuf := [], ofbuf_queued := 0,
      row := (\<lambda>_ _. []), row_mask := (\<lambda>_. 0), wait_pq := (\<lambda>_. []), rptr := (\<lambda>_ _. None), drops := (\<lambda>_. [])\<rparr>"

section \<open>Leaf qdiscs\<close>

definition htb_qlen_notify :: "'q htb_env \<Rightarrow> cid \<Rightarrow> 'q htb_sched \<Rightarrow> 'q htb_sched" where
  "htb_qlen_notify E c q = (if leaf_qlen E (leaf_q (cls q c)) = 0 then htb_deactivate c q else q)"

text \<open>
  \<open>qdisc_tree_decrease_qlen\<close> of the kernel takes \<open>n\<close> packets off the counters above a leaf qdisc and calls
  \<open>htb_qlen_notify\<close> through the class operations; whether it does for this \<open>n\<close> is \<open>notifies\<close>.  The function is not in the
  repository: this states its documented effect on the scheduler.
\<close>

definition qdisc_tree_decrease_qlen :: "'q htb_env \<Rightarrow> cid \<Rightarrow> nat \<Rightarrow> 'q htb_sched \<Rightarrow> 'q htb_sched" where
  "qdisc_tree_decrease_qlen E c n q =
    (let q = (if notifies E n then htb_qlen_notify E c q else q) in q\<lparr>qlen := qlen q - int n\<rparr>)"

definition htb_graft :: "'q htb_env \<Rightarrow> cid \<Rightarrow> 'q option \<Rightarrow> 'q htb_sched \<Rightarrow> (int + 'q) \<times> 'q htb_sched" where
  "htb_graft E c new q =
    (if level (cls q c) \<noteq> 0 then (Inl (- EINVAL), q)
     else case new of
       None \<Rightarrow> (Inl (- ENOBUFS), q)
     | Some lq \<Rightarrow>
         (let old = leaf_q (cls q c); q = upd c (\<lambda>x. x\<lparr>leaf_q := lq\<rparr>) q
          in (Inr (leaf_reset E old), qdisc_tree_decrease_qlen E c (leaf_qlen E old) q)))"

definition htb_leaf :: "cid \<Rightarrow> 'q htb_sched \<Rightarrow> 'q option" where
  "htb_leaf c q = (if level (cls q c) = 0 then Some (leaf_q (cls q c)) else None)"

section \<open>References\<close>

definition htb_get :: "u32 \<Rightarrow> 'q htb_sched \<Rightarrow> cid option \<times> 'q htb_sched" where
  "htb_get i q =
    (case htb_find i q of None \<Rightarrow> (None, q) | Some c \<Rightarrow> (Some c, upd c (\<lambda>x. x\<lparr>refcnt := refcnt x + 1\<rparr>) q))"

text \<open>The rate tables and filters of a destroyed class are released; its memory is not reused before a \<open>kzalloc\<close>.\<close>

definition htb_destroy_class :: "cid \<Rightarrow> 'q htb_sched \<Rightarrow> 'q htb_sched" where
  "htb_destroy_class c q = upd c (\<lambda>x. x\<lparr>rate := None, ceil := None, cfilter_list := None\<rparr>) q"

text \<open>The result tells whether the class was freed.\<close>

definition htb_put :: "cid \<Rightarrow> 'q htb_sched \<Rightarrow> bool \<times> 'q htb_sched" where
  "htb_put c q =
    (let q = upd c (\<lambda>x. x\<lparr>refcnt := refcnt x - 1\<rparr>) q
     in if refcnt (cls q c) = 0 then (True, htb_destroy_class c q) else (False, q))"

definition htb_destroy :: "'q htb_sched \<Rightarrow> 'q htb_sched" where
  "htb_destroy q =
    (let cs = clhash q;
         q = q\<lparr>filter_list := None\<rparr>;
         q = fold (\<lambda>c. upd c (\<lambda>x. x\<lparr>cfilter_list := None\<rparr>)) cs q;
         q = fold htb_destroy_class cs q
     in q\<lparr>clhash := [], direct_queue := [], ofbuf := [], ofbuf_queued := 0\<rparr>)"

definition htb_bind_filter :: "u32 \<Rightarrow> 'q htb_sched \<Rightarrow> cid option \<times> 'q htb_sched" where
  "htb_bind_filter i q =
    (case htb_find i q of None \<Rightarrow> (None, q) | Some c \<Rightarrow> (Some c, upd c (\<lambda>x. x\<lparr>filter_cnt := filter_cnt x + 1\<rparr>) q))"

definition htb_unbind_filter :: "cid option \<Rightarrow> 'q htb_sched \<Rightarrow> 'q htb_sched" where
  "htb_unbind_filter co q = (case co of None \<Rightarrow> q | Some c \<Rightarrow> upd c (\<lambda>x. x\<lparr>filter_cnt := filter_cnt x - 1\<rparr>) q)"

definition htb_find_tcf :: "cid option \<Rightarrow> 'q htb_sched \<Rightarrow> nat option" where
  "htb_find_tcf co q = (case co of Some c \<Rightarrow> cfilter_list (cls q c) | None \<Rightarrow> filter_list q)"

section \<open>Inspection\<close>

text \<open>The walk over the classes: \<open>fn\<close> returns its result and its own state; \<open>stop\<close> and \<open>count\<close> are the walker's.\<close>

fun walk_loop :: "(cid \<Rightarrow> 'a \<Rightarrow> int \<times> 'a) \<Rightarrow> nat \<Rightarrow> cid list \<Rightarrow> nat \<times> 'a \<Rightarrow> bool \<times> nat \<times> 'a" where
  "walk_loop fn skp [] (count, a) = (False, count, a)"
| "walk_loop fn skp (c # cs) (count, a) =
    (if count < skp then walk_loop fn skp cs (Suc count, a)
     else let (r, a) = fn c a
       in if r < 0 then (True, count, a) else walk_loop fn skp cs (Suc count, a))"

definition htb_walk :: "(cid \<Rightarrow> 'a \<Rightarrow> int \<times> 'a) \<Rightarrow> nat \<Rightarrow> bool \<Rightarrow> nat \<times> 'a \<Rightarrow> 'q htb_sched \<Rightarrow> bool \<times> nat \<times> 'a" where
  "htb_walk fn skp stop s q = (if stop then (True, s) else walk_loop fn skp (clhash q) s)"

record htb_dump_glob =
  dg_direct_pkts :: u32
  dg_version :: u32
  dg_rate2quantum :: u32
  dg_defcls :: u32

text \<open>The contents of the messages; packing them into the netlink buffer is the kernel's.\<close>

definition htb_dump :: "'q htb_sched \<Rightarrow> htb_dump_glob" where
  "htb_dump q = \<lparr>dg_direct_pkts = word_of_int (direct_pkts q), dg_version = HTB_VER,
    dg_rate2quantum = word_of_int (rate2quantum q), dg_defcls = defcls q\<rparr>"

record htb_dump_cls =
  dc_parent :: u32
  dc_handle :: u32
  dc_rate :: "nat option"
  dc_buffer :: u32
  dc_ceil :: "nat option"
  dc_cbuffer :: u32
  dc_quantum :: u32
  dc_prio :: u32
  dc_level :: u32

definition htb_dump_class :: "cid \<Rightarrow> 'q htb_sched \<Rightarrow> htb_dump_cls" where
  "htb_dump_class c q =
    (let x = cls q c
     in \<lparr>dc_parent = (case parent x of Some p \<Rightarrow> classid (cls q p) | None \<Rightarrow> 0xFFFFFFFF), dc_handle = classid x,
       dc_rate = rate x, dc_buffer = word_of_int (buffer x), dc_ceil = ceil x, dc_cbuffer = word_of_int (cbuffer x),
       dc_quantum = word_of_int (quantum x), dc_prio = word_of_int (prio x), dc_level = of_nat (level x)\<rparr>)"

section \<open>Deleting a class\<close>

definition htb_parent_last_child :: "cid \<Rightarrow> 'q htb_sched \<Rightarrow> bool" where
  "htb_parent_last_child c q = (case parent (cls q c) of None \<Rightarrow> False | Some p \<Rightarrow> \<not> children (cls q p) > 1)"

definition htb_parent_to_leaf :: "cid \<Rightarrow> 'q \<Rightarrow> int \<Rightarrow> 'q htb_sched \<Rightarrow> 'q htb_sched" where
  "htb_parent_to_leaf c new_q time q =
    (let p = the (parent (cls q c));
         q = (if cmode (cls q p) \<noteq> HTB_CAN_SEND then erase_pq (level (cls q p)) p q else q)
     in upd p (\<lambda>x. (memset_inner x)\<lparr>level := 0, leaf_q := new_q, tokens := buffer x, ctokens := cbuffer x,
          t_c := time, cmode := HTB_CAN_SEND\<rparr>) q)"

text \<open>Removal from the hash table and from the count of the parent.\<close>

definition unhash :: "cid \<Rightarrow> 'q htb_sched \<Rightarrow> 'q htb_sched" where
  "unhash c q =
    (let q = q\<lparr>clhash := removeAll c (clhash q)\<rparr>
     in case parent (cls q c) of None \<Rightarrow> q | Some p \<Rightarrow> upd p (\<lambda>x. x\<lparr>children := children x - 1\<rparr>) q)"

definition htb_delete :: "'q htb_env \<Rightarrow> cid \<Rightarrow> 'q \<Rightarrow> int \<Rightarrow> 'q htb_sched \<Rightarrow> int \<times> 'q htb_sched" where
  "htb_delete E c new_q time q =
    (if children (cls q c) \<noteq> 0 \<or> filter_cnt (cls q c) \<noteq> 0 then (- EBUSY, q)
     else
       let last_child = (level (cls q c) = 0 \<and> htb_parent_last_child c q);
           q = (if level (cls q c) = 0 then
                  let n = leaf_qlen E (leaf_q (cls q c))
                  in qdisc_tree_decrease_qlen E c n (upd c (\<lambda>x. x\<lparr>leaf_q := leaf_reset E (leaf_q x)\<rparr>) q)
                else q);
           q = unhash c q;
           q = (if prio_activity (cls q c) \<noteq> 0 then htb_deactivate c q else q);
           q = (if cmode (cls q c) \<noteq> HTB_CAN_SEND then erase_pq (level (cls q c)) c q else q);
           q = (if last_child then htb_parent_to_leaf c new_q time q else q)
       in (0, upd c (\<lambda>x. x\<lparr>refcnt := refcnt x - 1\<rparr>) q))"

section \<open>Creating and changing a class\<close>

record htb_opt =
  o_buffer :: u32
  o_cbuffer :: u32
  o_quantum :: u32
  o_prio :: u32

record 'q htb_req =
  opt_given :: bool
  parse_err :: int
  parms :: "htb_opt option"
  rtab :: "(nat \<times> u32) option"
  ctab :: "nat option"
  allocated :: "cid option"
  rate_given :: bool
  est_err :: int
  new_q :: 'q
  req_time :: int

text \<open>A leaf becomes an inner class; its packets are lost.\<close>

definition parent_to_inner :: "'q htb_env \<Rightarrow> cid \<Rightarrow> 'q htb_sched \<Rightarrow> 'q htb_sched" where
  "parent_to_inner E p q =
    (let n = leaf_qlen E (leaf_q (cls q p));
         q = qdisc_tree_decrease_qlen E p n (upd p (\<lambda>x. x\<lparr>leaf_q := leaf_reset E (leaf_q x)\<rparr>) q);
         q = (if prio_activity (cls q p) \<noteq> 0 then htb_deactivate p q else q);
         q = (if cmode (cls q p) \<noteq> HTB_CAN_SEND then set_cmode p HTB_CAN_SEND (erase_pq 0 p q) else q);
         top = (case parent (cls q p) of None \<Rightarrow> TC_HTB_MAXDEPTH | Some g \<Rightarrow> level (cls q g))
     in upd p (\<lambda>x. memset_inner (x\<lparr>level := top - 1\<rparr>)) q)"

definition fresh_class :: "'q htb_env \<Rightarrow> u32 \<Rightarrow> cid option \<Rightarrow> htb_opt \<Rightarrow> 'q \<Rightarrow> int \<Rightarrow> 'q htb_class" where
  "fresh_class E i par hopt lq time =
    \<lparr>classid = i, parent = par, level = 0, children = 0, refcnt = 1, prio = 0, quantum = 0, leaf_q = lq,
      deficit = (\<lambda>_. 0), feed = (\<lambda>_. []), iptr = (\<lambda>_. None), last_ptr_id = (\<lambda>_. 0), node = (\<lambda>_. False), pq_node = False,
      pq_key = 0, prio_activity = 0, cmode = HTB_CAN_SEND, cfilter_list = None, filter_cnt = 0, rate = None, ceil = None,
      buffer = 0, cbuffer = 0, mbuffer = 60 * PSCHED_TICKS_PER_SEC E, tokens = uint (o_buffer hopt),
      ctokens = uint (o_cbuffer hopt), t_c = time, bpackets = 0, bbytes = 0, xlends = 0, xborrows = 0\<rparr>"

definition clamp_quantum :: "htb_opt \<Rightarrow> int \<Rightarrow> int" where
  "clamp_quantum hopt k =
    (let k = (if o_quantum hopt = 0 \<and> k < 1000 then 1000 else k);
         k = (if o_quantum hopt = 0 \<and> k > 200000 then 200000 else k)
     in if o_quantum hopt \<noteq> 0 then sint (o_quantum hopt) else k)"

definition set_params :: "int \<Rightarrow> htb_opt \<Rightarrow> nat \<times> u32 \<Rightarrow> nat \<Rightarrow> 'q htb_class \<Rightarrow> 'q htb_class" where
  "set_params r2q hopt rt ct x =
    (let x = (if level x = 0 then
                x\<lparr>quantum := clamp_quantum hopt (sint (word_of_int (uint (snd rt) div r2q) :: u32)),
                  prio := (if sint (o_prio hopt) \<ge> int TC_HTB_NUMPRIO then int TC_HTB_NUMPRIO - 1 else sint (o_prio hopt))\<rparr>
              else x)
     in x\<lparr>buffer := uint (o_buffer hopt), cbuffer := uint (o_cbuffer hopt), rate := Some (fst rt), ceil := Some ct\<rparr>)"

definition insert_class :: "'q htb_env \<Rightarrow> u32 \<Rightarrow> cid option \<Rightarrow> htb_opt \<Rightarrow> 'q htb_req \<Rightarrow> cid \<Rightarrow> 'q htb_sched \<Rightarrow> 'q htb_sched" where
  "insert_class E i par hopt rq c q =
    (let q = (case par of None \<Rightarrow> q | Some p \<Rightarrow> if level (cls q p) = 0 then parent_to_inner E p q else q);
         q = upd c (\<lambda>_. fresh_class E i par hopt (new_q rq) (req_time rq)) q;
         q = q\<lparr>clhash := c # clhash q\<rparr>
     in case par of None \<Rightarrow> q | Some p \<Rightarrow> upd p (\<lambda>x. x\<lparr>children := Suc (children x)\<rparr>) q)"

definition too_deep :: "cid option \<Rightarrow> 'q htb_sched \<Rightarrow> bool" where
  "too_deep par q =
    (case par of None \<Rightarrow> False | Some p \<Rightarrow> (case parent (cls q p) of None \<Rightarrow> False | Some g \<Rightarrow> level (cls q g) < 2))"

definition htb_change_class ::
    "'q htb_env \<Rightarrow> u32 \<Rightarrow> u32 \<Rightarrow> cid option \<Rightarrow> 'q htb_req \<Rightarrow> 'q htb_sched \<Rightarrow> (int + cid) \<times> 'q htb_sched" where
  "htb_change_class E i parentid arg rq q =
    (if \<not> opt_given rq then (Inl (- EINVAL), q)
     else if parse_err rq < 0 then (Inl (parse_err rq), q)
     else if parms rq = None then (Inl (- EINVAL), q)
     else
       let par = (if parentid = 0xFFFFFFFF then None else htb_find parentid q); hopt = the (parms rq)
       in if rtab rq = None \<or> ctab rq = None then (Inl (- EINVAL), q)
          else
            let setp = (\<lambda>c. upd c (set_params (rate2quantum q) hopt (the (rtab rq)) (the (ctab rq))))
            in case arg of
              None \<Rightarrow>
                if i = 0 \<or> (i XOR handle q) AND 0xFFFF0000 \<noteq> 0 \<or> htb_find i q \<noteq> None then (Inl (- EINVAL), q)
                else if too_deep par q then (Inl (- EINVAL), q)
                else (case allocated rq of
                    None \<Rightarrow> (Inl (- ENOBUFS), q)
                  | Some c \<Rightarrow>
                      if est_err rq \<noteq> 0 then (Inl (est_err rq), q)
                      else (Inr c, setp c (insert_class E i par hopt rq c q)))
            | Some c \<Rightarrow> if rate_given rq \<and> est_err rq \<noteq> 0 then (Inl (est_err rq), q) else (Inr c, setp c q))"

end
