(* ===== verification/HtbTopology.thy ===== *)
theory HtbTopology
  imports HtbQueue HtbAdmin
begin

text \<open>
  The operations of \<open>HtbAdmin\<close> keep \<open>settled\<close>: dropping, resetting and grafting, and the operations on
  the class tree, where a leaf becomes an inner class with its first child and a leaf again when it
  loses its last one.
\<close>

section \<open>Dropping, resetting, grafting\<close>

lemma drops_leaves: "settled q \<Longrightarrow> c \<in> set (drops q r) \<Longrightarrow> c \<in> leaves q"
  by (auto simp: settled_def drops_ok_def base_ok_def dead_ok_def leaves_def)

lemma leavesD: "c \<in> leaves q \<Longrightarrow> c \<in> set (clhash q) \<and> level (cls q c) = 0"
  by (simp add: leaves_def)

lemma deactivate_leaf:
  "settled q \<Longrightarrow> c \<in> leaves q \<Longrightarrow> settled (htb_deactivate c q) \<and> same_queues q (htb_deactivate c q)"
  using deactivate_ok(1,2) leavesD by blast

lemma drop_from_ok:
  "settled q \<Longrightarrow> \<forall>c\<in>set cs. c \<in> leaves q \<Longrightarrow>
    settled (snd (drop_from E cs q)) \<and> clhash (snd (drop_from E cs q)) = clhash q \<and>
    ofbuf (snd (drop_from E cs q)) = ofbuf q \<and> ofbuf_queued (snd (drop_from E cs q)) = ofbuf_queued q \<and>
    (fst (drop_from E cs q) = 0 \<longrightarrow> leaves (snd (drop_from E cs q)) = leaves q)"
proof (induction cs arbitrary: q)
  case (Cons c cs)
  obtain len lq where d: "leaf_drop E (leaf_q (cls q c)) = (len, lq)" by (cases "leaf_drop E (leaf_q (cls q c))")
  let ?q1 = "set_leaf c lq q"
  have 1: "settled ?q1" "c \<in> leaves ?q1" "clhash ?q1 = clhash q" using Cons.prems by auto
  let ?q2 = "?q1\<lparr>qlen := qlen ?q1 - 1\<rparr>"
  have "settled (htb_deactivate c ?q2) \<and> same_queues ?q2 (htb_deactivate c ?q2)"
    by (rule deactivate_leaf) (use 1 in simp_all)
  then show ?case
    using 1 Cons.IH [OF 1(1)] Cons.prems d by (auto simp: set_leaf_def [symmetric] Let_def same_queuesD)
qed simp

lemma drop_prios_ok:
  "settled q \<Longrightarrow> settled (snd (drop_prios E rs q)) \<and> clhash (snd (drop_prios E rs q)) = clhash q \<and>
    ofbuf (snd (drop_prios E rs q)) = ofbuf q \<and> ofbuf_queued (snd (drop_prios E rs q)) = ofbuf_queued q"
proof (induction rs arbitrary: q)
  case (Cons r rs)
  obtain len q1 where d: "drop_from E (drops q r) q = (len, q1)" by (cases "drop_from E (drops q r) q")
  have "settled q1" "clhash q1 = clhash q" "ofbuf q1 = ofbuf q" "ofbuf_queued q1 = ofbuf_queued q"
    using drop_from_ok [OF Cons.prems, of "drops q r" E] drops_leaves [OF Cons.prems] d by auto
  then show ?case using Cons.IH [of q1] by (simp add: d)
qed simp

lemma reset_ok:
  assumes "settled q"
  shows "settled (htb_reset E q)" "clhash (htb_reset E q) = clhash q"
proof -
  let ?q = "htb_reset E q"
  have f: "prio_activity (cls ?q x) = 0" "feed (cls ?q x) r = []" "iptr (cls ?q x) r = None" "level (cls ?q x) = level (cls q x)"
    "parent (cls ?q x) = parent (cls q x)" "children (cls ?q x) = children (cls q x)" "prio (cls ?q x) = prio (cls q x)"
    "x \<in> set (clhash q) \<Longrightarrow> cmode (cls ?q x) = HTB_CAN_SEND" for x r
  proof -
    have d: "x \<notin> set (clhash q) \<Longrightarrow> prio_activity (cls q x) = 0"
      using assms by (simp add: settled_def base_ok_def dead_ok_def)
    show "prio_activity (cls ?q x) = 0" using d by (simp add: htb_reset_def reset_class_def)
    have a: "feed (cls q x) r = []" if "prio_activity (cls q x) = 0 \<or> level (cls q x) = 0"
      using that assms act_okD(2,3) [of q x r] by (cases "level (cls q x) = 0") (auto simp: settled_def base_ok_def)
    have i: "iptr (cls q x) r = None" if "feed (cls q x) r = []"
      using that settled_ptr [OF assms, of r "Feed_tree x"] by (cases "iptr (cls q x) r") auto
    show "feed (cls ?q x) r = []" using a d by (auto simp: htb_reset_def reset_class_def memset_inner_def)
    show "iptr (cls ?q x) r = None" using a i d by (auto simp: htb_reset_def reset_class_def memset_inner_def)
  qed (auto simp: htb_reset_def reset_class_def memset_inner_def)
  have g: "clhash ?q = clhash q" "row ?q l r = []" "row_mask ?q l = 0" "wait_pq ?q l = []" "rptr ?q l r = None" "drops ?q r = []"
    "faults ?q = faults q" for l r
    by (simp_all add: htb_reset_def)
  have "linked_ok (attached ?q) ?q"
    by (simp add: linked_ok_def tree_ok_def in_feed_def in_row_def attached_def f g)
  moreover have "act_ok ?q" "tree_wf ?q = tree_wf q" "dead_ok ?q" "drops_ok ?q"
    by (simp_all add: act_ok_def tree_wf_def dead_ok_def drops_ok_def f g)
  moreover have "waits_ok (waiting ?q) ?q" by (auto simp: waits_ok_def waiting_def f g)
  moreover have "family_ok ?q = family_ok q" by (rule family_ok_cong) (simp_all add: f g)
  ultimately show "settled ?q" using assms by (simp add: settled_def base_ok_def g)
  show "clhash ?q = clhash q" by (rule g)
qed

lemma decrease_qlen_ok:
  fixes E :: "'q htb_env" and n :: nat
  assumes "settled q" "c \<in> leaves q"
  defines "q' \<equiv> qdisc_tree_decrease_qlen E c n q"
  shows "settled q'" "leaves q' = leaves q" "clhash q' = clhash q" "ofbuf q' = ofbuf q" "ofbuf_queued q' = ofbuf_queued q"
    "parent (cls q' x) = parent (cls q x)" "level (cls q' x) = level (cls q x)"
proof -
  have "settled (htb_qlen_notify E c q) \<and> same_queues q (htb_qlen_notify E c q)"
    using assms(1) deactivate_leaf [OF assms(1,2)] by (simp add: htb_qlen_notify_def)
  then show "settled q'" "leaves q' = leaves q" "clhash q' = clhash q" "ofbuf q' = ofbuf q" "ofbuf_queued q' = ofbuf_queued q"
    "parent (cls q' x) = parent (cls q x)" "level (cls q' x) = level (cls q x)"
    using assms(1) by (auto simp: q'_def qdisc_tree_decrease_qlen_def Let_def same_queuesD same_queues_counts(1))
qed

lemma graft_ok:
  assumes "settled q" "c \<in> set (clhash q)"
  shows "settled (snd (htb_graft E c new q))" "of_ok q \<Longrightarrow> of_ok (snd (htb_graft E c new q))"
proof -
  have "settled (snd (htb_graft E c new q)) \<and> (of_ok q \<longrightarrow> of_ok (snd (htb_graft E c new q)))"
  proof (cases "level (cls q c) = 0 \<and> new \<noteq> None")
    case True
    then obtain lq where lq: "new = Some lq" by auto
    have "c \<in> leaves (set_leaf c lq q)" using True assms(2) by (simp add: leaves_def)
    note d = decrease_qlen_ok [OF _ this, of E "leaf_qlen E (leaf_q (cls q c))"]
    show ?thesis
      using d(1,4,5) assms(1) True by (simp add: htb_graft_def lq set_leaf_def [symmetric] Let_def of_ok_def)
  next
    case False
    then show ?thesis using assms(1) by (cases new) (auto simp: htb_graft_def)
  qed
  then show "settled (snd (htb_graft E c new q))" "of_ok q \<Longrightarrow> of_ok (snd (htb_graft E c new q))" by auto
qed

section \<open>Changing the level of a class\<close>

text \<open>\<open>settled\<close> where the classes of \<open>S\<close> may have the wrong level for their number of children.\<close>

definition family_but :: "cid set \<Rightarrow> 'q htb_sched \<Rightarrow> bool" where
  "family_but S q \<longleftrightarrow> distinct (clhash q) \<and>
    (\<forall>c\<in>set (clhash q). 0 \<le> prio (cls q c) \<and> prio (cls q c) < int TC_HTB_NUMPRIO \<and>
      children (cls q c) = card (kids q c) \<and>
      (c \<notin> S \<longrightarrow> (level (cls q c) = 0 \<longleftrightarrow> children (cls q c) = 0)))"

lemma family_ok_but: "family_ok q = family_but {} q"
  by (simp add: family_ok_def family_but_def)

lemma family_but_cong:
  assumes "family_but S q" "clhash q' = clhash q" "\<And>x. prio (cls q' x) = prio (cls q x)"
    "\<And>x. children (cls q' x) = children (cls q x)" "\<And>x. parent (cls q' x) = parent (cls q x)"
    "\<And>x. x \<notin> S \<Longrightarrow> level (cls q' x) = level (cls q x)"
  shows "family_but S q'"
proof -
  have "kids q' = kids q" by (simp add: kids_def assms(2,5) fun_eq_iff)
  then show ?thesis using assms by (simp add: family_but_def)
qed

text \<open>A class outside all trees: it is inactive, does not wait and has no live children.\<close>

definition alone :: "cid \<Rightarrow> 'q htb_sched \<Rightarrow> bool" where
  "alone p q \<longleftrightarrow> base_ok q \<and> waits_ok (\<lambda>x. waiting q x \<and> x \<noteq> p) q \<and> drops_ok q \<and> faults q = 0 \<and>
    prio_activity (cls q p) = 0 \<and> kids q p = {}"

lemma alone_trees:
  assumes "alone p q"
  shows "feed (cls q p) r = []" "iptr (cls q p) r = None" "p \<notin> set (feed (cls q x) r)" "p \<notin> set (row q l r)"
    "p \<notin> set (wait_pq q l)" "p \<notin> set (drops q r)"
proof -
  have l: "linked_ok (attached q) q" "dead_ok q" using assms by (simp_all add: alone_def base_ok_def)
  have "c \<notin> set (feed (cls q p) r)" for c
  proof
    assume "c \<in> set (feed (cls q p) r)"
    then have "parent (cls q c) = Some p" "attached q c r" using mem_feed [OF l(1)] by (simp_all add: in_feed_def)
    moreover from this have "c \<in> set (clhash q)" using l(2) by (auto simp: dead_ok_def attached_def)
    ultimately show False using assms by (auto simp: alone_def kids_def)
  qed
  then show f: "feed (cls q p) r = []" by (metis list.set_intros(1) neq_Nil_conv)
  then show "iptr (cls q p) r = None"
    using linked_feed [OF l(1), of p r] by (cases "iptr (cls q p) r") (simp_all add: tree_ok_def)
  have "\<not> attached q p r" using assms by (simp add: alone_def attached_def)
  then show "p \<notin> set (feed (cls q x) r)" "p \<notin> set (row q l r)"
    using mem_feed [OF l(1)] mem_row [OF l(1)] by (simp_all add: in_feed_def in_row_def)
  show "p \<notin> set (wait_pq q l)" using assms by (simp add: alone_def waits_ok_def)
  show "p \<notin> set (drops q r)" using assms by (simp add: alone_def drops_ok_def)
qed

text \<open>Giving a class outside all trees new contents: a new level, or a new life.\<close>

definition replace_class :: "cid \<Rightarrow> 'q htb_class \<Rightarrow> cid list \<Rightarrow> 'q htb_sched \<Rightarrow> 'q htb_sched" where
  "replace_class p x h q = (upd p (\<lambda>_. x) q)\<lparr>clhash := h\<rparr>"

lemma replace_trees:
  assumes "alone p q" "feed x = (\<lambda>_. [])" "iptr x = (\<lambda>_. None)" "prio_activity x = 0"
  shows "linked_ok (attached (replace_class p x h q)) (replace_class p x h q)"
proof -
  let ?q = "replace_class p x h q"
  have l: "linked_ok (attached q) q" using assms(1) by (simp add: alone_def base_ok_def)
  have pa: "prio_activity (cls q p) = 0" using assms(1) by (simp add: alone_def)
  note at = alone_trees [OF assms(1)]
  have e: "row ?q = row q" "row_mask ?q = row_mask q" "rptr ?q = rptr q"
    "cls ?q y = (if y = p then x else cls q y)" for y
    by (simp_all add: replace_class_def)
  have att: "attached ?q = attached q" using assms(4) pa by (auto simp: attached_def fun_eq_iff e)
  have np: "\<not> attached q p r" for r using pa by (simp add: attached_def)
  have t: "tree_ok ?q mem' r pt xs" if "tree_ok q mem r pt xs" "p \<notin> set xs" "\<And>c. mem' c = mem c" for mem mem' r pt xs
  proof -
    have "sorted_wrt (\<lambda>c d. ids ?q c \<le> ids ?q d) xs = sorted_wrt (\<lambda>c d. ids q c \<le> ids q d) xs"
      using that(2) by (induction xs) (auto simp: ids_def e)
    then show ?thesis using that by (auto simp: tree_ok_def e)
  qed
  have "tree_ok ?q (in_feed (attached q) ?q y r) r (iptr (cls ?q y) r) (feed (cls ?q y) r)" for y r
  proof -
    have "tree_ok ?q (in_feed (attached q) ?q y r) r (iptr (cls q y) r) (feed (cls q y) r)"
      by (rule t [OF linked_feed [OF l] at(3)]) (use np in \<open>auto simp: in_feed_def e\<close>)
    then show ?thesis using at(1,2) [of r] assms(2,3) by (auto simp: e)
  qed
  moreover have "tree_ok ?q (in_row (attached q) ?q k r) r (rptr q k r) (row q k r)" for k r
    by (rule t [OF linked_row [OF l] at(4)]) (use np in \<open>auto simp: in_row_def e\<close>)
  ultimately show ?thesis using l by (simp add: linked_ok_def att e)
qed

lemma replace_ok:
  assumes "alone p q" "feed x = (\<lambda>_. [])" "iptr x = (\<lambda>_. None)" "prio_activity x = 0" "cmode x = HTB_CAN_SEND"
    "set h = insert p (set (clhash q))" "level x < TC_HTB_MAXDEPTH"
    "\<And>g. parent x = Some g \<Longrightarrow> g \<in> set (clhash q) \<and> g \<noteq> p \<and> level x < level (cls q g)"
  defines "q' \<equiv> replace_class p x h q"
  shows "base_ok q'" "waits_ok (waiting q') q'" "drops_ok q'" "faults q' = 0"
proof -
  have b: "base_ok q" "waits_ok (\<lambda>y. waiting q y \<and> y \<noteq> p) q" "drops_ok q" "faults q = 0" "prio_activity (cls q p) = 0" "kids q p = {}"
    using assms(1) by (simp_all add: alone_def)
  note at = alone_trees [OF assms(1)]
  have e: "wait_pq q' = wait_pq q" "drops q' = drops q" "faults q' = faults q" "clhash q' = h"
    "cls q' y = (if y = p then x else cls q y)" for y
    by (simp_all add: q'_def replace_class_def)
  have "act_ok q'" using b(1) assms(2,4) by (auto simp: base_ok_def act_ok_def e)
  moreover have "tree_wf q'"
    using b(1,6) assms(6-8) by (auto simp: base_ok_def tree_wf_def e kids_def)
  moreover have "dead_ok q'" using b(1) assms(4,6) by (auto simp: base_ok_def dead_ok_def e)
  moreover have "linked_ok (attached q') q'" unfolding q'_def by (rule replace_trees [OF assms(1-4)])
  ultimately show "base_ok q'" by (simp add: base_ok_def)
  have w: "waiting q' y \<longleftrightarrow> waiting q y \<and> y \<noteq> p" for y using assms(5,6) by (auto simp: waiting_def e)
  show "waits_ok (waiting q') q'"
    unfolding waits_ok_def e
  proof (intro allI conjI ballI)
    fix k
    have wk: "\<And>c. c \<in> set (wait_pq q k) \<longleftrightarrow> level (cls q c) = k \<and> waiting q c \<and> c \<noteq> p" "distinct (wait_pq q k)"
      "sorted_wrt (\<lambda>c d. keys q c \<le> keys q d) (wait_pq q k)" "\<And>c. c \<in> set (wait_pq q k) \<Longrightarrow> pq_node (cls q c)"
      using b(2) by (auto simp: waits_ok_def)
    show "c \<in> set (wait_pq q k) \<longleftrightarrow> level (if c = p then x else cls q c) = k \<and> waiting q' c" for c
      using wk(1) [of c] w [of c] by auto
    show "distinct (wait_pq q k)" by (rule wk)
    show "sorted_wrt (\<lambda>c d. keys q' c \<le> keys q' d) (wait_pq q k)"
      by (rule sorted_wrt_mono_rel [OF _ wk(3)]) (use at(5) [of k] in \<open>auto simp: keys_def e\<close>)
    show "pq_node (if c = p then x else cls q c)" if "c \<in> set (wait_pq q k)" for c
      using wk(1,4) [of c] that by auto
  qed
  show "drops_ok q'" using b(3,5) at(6) assms(4) by (auto simp: drops_ok_def e)
  show "faults q' = 0" using b(4) by (simp add: e)
qed

section \<open>Taking a leaf out of all trees\<close>

definition isolate :: "cid \<Rightarrow> 'q htb_sched \<Rightarrow> 'q htb_sched" where
  "isolate c q =
    (let q = (if prio_activity (cls q c) \<noteq> 0 then htb_deactivate c q else q)
     in if cmode (cls q c) \<noteq> HTB_CAN_SEND then erase_pq (level (cls q c)) c q else q)"

lemma settled_unfold:
  assumes "settled q"
  shows "base_ok q" "waits_ok (waiting q) q" "drops_ok q" "family_ok q" "faults q = 0"
  using assms by (simp_all add: settled_def)

lemma no_kids: "family_ok q \<Longrightarrow> c \<in> leaves q \<Longrightarrow> kids q c = {}"
  by (auto simp: family_ok_def leaves_def kids_def)

lemma same_queues_kids: "same_queues q q' \<Longrightarrow> kids q' = kids q"
  by (simp add: kids_def fun_eq_iff same_queuesD)

definition unwait :: "cid \<Rightarrow> 'q htb_sched \<Rightarrow> 'q htb_sched" where
  "unwait c q = (if cmode (cls q c) \<noteq> HTB_CAN_SEND then erase_pq (level (cls q c)) c q else q)"

lemma unwait_ok:
  assumes "base_ok q" "waits_ok (waiting q) q" "drops_ok q" "faults q = 0" "c \<in> set (clhash q)" "prio_activity (cls q c) = 0"
    "kids q c = {}"
  shows "alone c (unwait c q)" "same_queues q (unwait c q)"
proof -
  show "same_queues q (unwait c q)" by (simp add: unwait_def erase_pq_same_queues)
  show "alone c (unwait c q)"
  proof (cases "cmode (cls q c) = HTB_CAN_SEND")
    case True
    then have "waiting q = (\<lambda>x. waiting q x \<and> x \<noteq> c)" by (auto simp: waiting_def fun_eq_iff)
    then show ?thesis using True assms by (simp add: alone_def unwait_def)
  next
    case False
    let ?q = "erase_pq (level (cls q c)) c q"
    note fs = erase_pq_fields [of "level (cls q c)" c q]
    have w: "waiting q c" using False assms(5) by (simp add: waiting_def)
    have "waiting ?q = waiting q" by (simp add: waiting_def fun_eq_iff fs)
    moreover have "base_ok ?q" using assms(1) base_ok_cong(1) [of ?q q] by (simp add: fs)
    moreover have "drops_ok ?q" using assms(3) by (simp add: drops_ok_def fs)
    moreover have "kids ?q c = {}" using assms(7) by (simp add: same_queues_kids [OF erase_pq_same_queues])
    ultimately show ?thesis
      using erase_pq_ok [OF assms(2) w] assms(4,6) False by (simp add: alone_def fs unwait_def)
  qed
qed

lemma unwait_family: "family_but S q \<Longrightarrow> family_but S (unwait c q)"
  by (erule family_but_cong) (simp_all add: unwait_def erase_pq_fields)

lemma isolate_ok:
  assumes "settled q" "c \<in> leaves q"
  shows "alone c (isolate c q)" "family_ok (isolate c q)" "same_queues q (isolate c q)"
proof -
  define q1 where "q1 = (if prio_activity (cls q c) \<noteq> 0 then htb_deactivate c q else q)"
  have 1: "settled q1" "same_queues q q1" using assms(1) deactivate_leaf [OF assms] by (auto simp: q1_def)
  have pa: "prio_activity (cls q1 c) = 0" using deactivate_ok(3) [OF assms(1)] leavesD [OF assms(2)] by (simp add: q1_def)
  note s = settled_unfold [OF 1(1)]
  have lv: "c \<in> set (clhash q1)" "c \<in> leaves q1"
    using leavesD [OF assms(2)] by (simp_all add: same_queuesD [OF 1(2)] leaves_def)
  note u = unwait_ok [OF s(1,2,3,5) lv(1) pa no_kids [OF s(4) lv(2)]]
  have "isolate c q = unwait c q1" by (simp add: isolate_def unwait_def q1_def Let_def)
  then show "alone c (isolate c q)" "family_ok (isolate c q)" "same_queues q (isolate c q)"
    using u same_queues_trans [OF 1(2) u(2)] s(4) unwait_family by (simp_all add: family_ok_but)
qed

lemma upd_replace: "upd p f q = replace_class p (f (cls q p)) (clhash q) q"
  by (simp add: replace_class_def upd_def)

section \<open>Inserting a class\<close>

definition settled_but :: "cid set \<Rightarrow> 'q htb_sched \<Rightarrow> bool" where
  "settled_but S q \<longleftrightarrow> base_ok q \<and> waits_ok (waiting q) q \<and> drops_ok q \<and> family_but S q \<and> faults q = 0"

lemma settled_but_empty: "settled_but {} q = settled q"
  by (simp add: settled_but_def settled_def family_ok_but)

lemma reset_leaf_eq: "upd p (\<lambda>x. x\<lparr>leaf_q := leaf_reset E (leaf_q x)\<rparr>) q = set_leaf p (leaf_reset E (leaf_q (cls q p))) q"
  by (simp add: set_leaf_def upd_def)

lemma parent_to_inner_ok:
  assumes "settled q" "p \<in> leaves q" "\<And>g. parent (cls q p) = Some g \<Longrightarrow> 2 \<le> level (cls q g)"
  shows "settled_but {p} (parent_to_inner E p q)" "level (cls (parent_to_inner E p q) p) \<noteq> 0"
    "clhash (parent_to_inner E p q) = clhash q" "ofbuf (parent_to_inner E p q) = ofbuf q"
    "ofbuf_queued (parent_to_inner E p q) = ofbuf_queued q"
proof -
  define q0 where "q0 = set_leaf p (leaf_reset E (leaf_q (cls q p))) q"
  define q1 where "q1 = qdisc_tree_decrease_qlen E p (leaf_qlen E (leaf_q (cls q p))) q0"
  define q2 where "q2 = isolate p q1"
  define top where "top = (case parent (cls q2 p) of None \<Rightarrow> TC_HTB_MAXDEPTH | Some g \<Rightarrow> level (cls q2 g))"
  define x where "x = memset_inner ((cls q2 p)\<lparr>cmode := HTB_CAN_SEND, level := top - 1\<rparr>)"
  define q3 where "q3 = replace_class p x (clhash q2) q2"
  have 0: "settled q0" "p \<in> leaves q0" using assms(1,2) by (simp_all add: q0_def)
  note d = decrease_qlen_ok [OF 0, of E "leaf_qlen E (leaf_q (cls q p))", folded q1_def]
  have l1: "p \<in> leaves q1" using 0 d(2) by simp
  note i = isolate_ok [OF d(1) l1, folded q2_def]
  note sq = same_queuesD [OF i(3)]
  have lv: "level (cls q2 y) = level (cls q y)" "parent (cls q2 y) = parent (cls q y)" "clhash q2 = clhash q" for y
    by (simp_all add: sq d q0_def)
  have eq: "parent_to_inner E p q = q3"
  proof -
    have l0: "level (cls q2 p) = 0" "level (cls q1 p) = 0" using leavesD [OF l1] sq(8) by simp_all
    have "(if cmode (cls q p) \<noteq> HTB_CAN_SEND then set_cmode p HTB_CAN_SEND (erase_pq 0 p q) else q)
        = set_cmode p HTB_CAN_SEND (if cmode (cls q p) \<noteq> HTB_CAN_SEND then erase_pq 0 p q else q)" for q :: "'a htb_sched"
      by (simp add: set_cmode_same)
    moreover have "level (cls (htb_deactivate p q1) p) = 0"
      using deactivate_leaf [OF d(1) l1] l0(2) same_queuesD(8) [of q1 "htb_deactivate p q1" p] by simp
    ultimately have "parent_to_inner E p q =
        upd p (\<lambda>x. memset_inner (x\<lparr>level := top - 1\<rparr>)) (set_cmode p HTB_CAN_SEND q2)"
      using l0 by (simp add: parent_to_inner_def Let_def reset_leaf_eq q0_def [symmetric] q1_def [symmetric] q2_def isolate_def top_def
        lv set_cmode_def split: option.splits)
    then show ?thesis by (simp add: q3_def x_def replace_class_def upd_def set_cmode_def)
  qed
  have top: "2 \<le> top" "top \<le> 8" "parent (cls q2 p) = Some g \<Longrightarrow> top = level (cls q2 g)" for g
  proof -
    show "2 \<le> top" using assms(3) by (auto simp: top_def lv split: option.split)
    have "parent (cls q p) = Some g \<Longrightarrow> level (cls q g) < 8" for g
      using tree_wfD(1) [OF settled_tree_wf [OF assms(1)]] tree_wfD(2) [OF settled_tree_wf [OF assms(1)]] leavesD [OF assms(2)] by blast
    then show "top \<le> 8" by (auto simp: top_def lv split: option.split intro: less_imp_le)
    show "parent (cls q2 p) = Some g \<Longrightarrow> top = level (cls q2 g)" by (simp add: top_def)
  qed
  have par: "g \<in> set (clhash q2) \<and> g \<noteq> p \<and> level x < level (cls q2 g)" if g: "parent x = Some g" for g
  proof -
    have g': "parent (cls q2 p) = Some g" using g by (simp add: x_def memset_inner_def)
    then have "g \<in> set (clhash q2)" "level (cls q2 p) < level (cls q2 g)"
      using tree_wfD(2,3) [OF settled_tree_wf [OF assms(1)], of p g] leavesD [OF assms(2)] by (simp_all add: lv)
    then show ?thesis using top(1,3) g' by (auto simp: x_def memset_inner_def)
  qed
  have x: "feed x = (\<lambda>_. [])" "iptr x = (\<lambda>_. None)" "prio_activity x = 0" "cmode x = HTB_CAN_SEND" "level x = top - 1"
    "prio x = prio (cls q2 p)" "children x = children (cls q2 p)" "parent x = parent (cls q2 p)"
    using i(1) by (simp_all add: x_def memset_inner_def alone_def)
  have h: "set (clhash q2) = insert p (set (clhash q2))" using leavesD [OF assms(2)] lv(3) by auto
  note r = replace_ok [OF i(1) x(1-4) h _ par, folded q3_def]
  have "family_but {p} q3"
    by (rule family_but_cong [of "{p}" q2]) (use i(2) x in \<open>auto simp: family_ok_but family_but_def q3_def replace_class_def\<close>)
  then show "settled_but {p} (parent_to_inner E p q)" using r top(1,2) x(5) by (simp add: settled_but_def eq)
  show "level (cls (parent_to_inner E p q) p) \<noteq> 0" using top(1) x(5) by (simp add: eq q3_def replace_class_def)
  show "clhash (parent_to_inner E p q) = clhash q" by (simp add: eq q3_def replace_class_def lv)
  show "ofbuf (parent_to_inner E p q) = ofbuf q" "ofbuf_queued (parent_to_inner E p q) = ofbuf_queued q"
    by (simp_all add: eq q3_def replace_class_def sq d q0_def)
qed

text \<open>The new class itself: \<open>S\<close> is empty, or holds the parent that has just become an inner class.\<close>

definition attach_class :: "cid \<Rightarrow> 'q htb_class \<Rightarrow> cid option \<Rightarrow> 'q htb_sched \<Rightarrow> 'q htb_sched" where
  "attach_class c x par q =
    (let q = replace_class c x (c # clhash q) q
     in case par of None \<Rightarrow> q | Some p \<Rightarrow> upd p (\<lambda>x. x\<lparr>children := Suc (children x)\<rparr>) q)"

lemma upd_children_settled:
  fixes q :: "'q htb_sched" and k :: "'q htb_class \<Rightarrow> nat" and p :: cid
  assumes "base_ok q" "waits_ok (waiting q) q" "drops_ok q" "faults q = 0"
  defines "q' \<equiv> upd p (\<lambda>x. x\<lparr>children := k x\<rparr>) q"
  shows "base_ok q'" "waits_ok (waiting q') q'" "drops_ok q'" "faults q' = 0"
proof -
  have e: "bview (cls q' x) = bview (cls q x)" "level (cls q' x) = level (cls q x)" "cmode (cls q' x) = cmode (cls q x)"
    "pq_key (cls q' x) = pq_key (cls q x)" "pq_node (cls q' x) = pq_node (cls q x)" "prio_activity (cls q' x) = prio_activity (cls q x)" for x
    by (simp_all add: q'_def bview_def lview_def)
  show "base_ok q'" using assms(1) base_ok_cong(1) [of q' q] e(1) by (simp add: q'_def)
  have "waiting q' = waiting q" by (simp add: waiting_def fun_eq_iff e) (simp add: q'_def)
  moreover have "waits_ok W q' = waits_ok W q" for W by (rule waits_ok_cong) (simp_all add: e, simp add: q'_def)
  ultimately show "waits_ok (waiting q') q'" using assms(2) by simp
  show "drops_ok q'" using assms(3) by (simp add: drops_ok_def e) (simp add: q'_def)
  show "faults q' = 0" using assms(4) by (simp add: q'_def)
qed

lemma attach_class_ok:
  assumes "settled_but S q" "c \<notin> set (clhash q)" "S \<subseteq> set_option par"
    "\<And>p. par = Some p \<Longrightarrow> p \<in> set (clhash q) \<and> level (cls q p) \<noteq> 0"
    "feed x = (\<lambda>_. [])" "iptr x = (\<lambda>_. None)" "prio_activity x = 0" "cmode x = HTB_CAN_SEND" "level x = 0"
    "parent x = par" "children x = 0" "0 \<le> prio x" "prio x < int TC_HTB_NUMPRIO"
  shows "settled (attach_class c x par q)"
proof -
  have b: "base_ok q" "waits_ok (waiting q) q" "drops_ok q" "family_but S q" "faults q = 0"
    using assms(1) by (simp_all add: settled_but_def)
  define q1 where "q1 = replace_class c x (c # clhash q) q"
  have wf: "tree_wf q" "dead_ok q" using b(1) by (simp_all add: base_ok_def)
  have "alone c q"
  proof -
    have "waiting q = (\<lambda>y. waiting q y \<and> y \<noteq> c)" using assms(2) by (auto simp: waiting_def fun_eq_iff)
    moreover have "kids q c = {}" using tree_wfD(2) [OF wf(1)] assms(2) by (auto simp: kids_def)
    ultimately show ?thesis using b wf(2) assms(2) by (simp add: alone_def dead_ok_def)
  qed
  then have 1: "base_ok q1" "waits_ok (waiting q1) q1" "drops_ok q1" "faults q1 = 0"
    using replace_ok [of c q x "c # clhash q"] assms(2,4-10) by (auto simp: q1_def)
  have e: "clhash q1 = c # clhash q" "cls q1 y = (if y = c then x else cls q y)" for y
    by (simp_all add: q1_def replace_class_def)
  have k1: "kids q1 y = kids q y \<union> (if par = Some y then {c} else {})" if "y \<in> set (clhash q1)" for y
    using assms(2,10) by (auto simp: kids_def e)
  have kc: "kids q1 c = {}" "par \<noteq> Some c"
    using assms(2,4,10) tree_wfD(2) [OF wf(1)] by (auto simp: kids_def e)
  have fin: "finite (kids q y)" "c \<notin> kids q y" for y using assms(2) by (simp_all add: kids_def)
  have fam: "prio (cls q y) \<ge> 0 \<and> prio (cls q y) < int TC_HTB_NUMPRIO \<and> children (cls q y) = card (kids q y) \<and>
      (y \<notin> S \<longrightarrow> (level (cls q y) = 0 \<longleftrightarrow> children (cls q y) = 0))" if "y \<in> set (clhash q)" for y
    using b(4) that by (simp add: family_but_def)
  have dist: "distinct (c # clhash q)" using b(4) assms(2) by (simp add: family_but_def)
  show ?thesis
  proof (cases par)
    case None
    have "family_ok q1"
      unfolding family_ok_def
    proof (intro conjI ballI)
      fix y assume y: "y \<in> set (clhash q1)"
      show "0 \<le> prio (cls q1 y)" "prio (cls q1 y) < int TC_HTB_NUMPRIO" "children (cls q1 y) = card (kids q1 y)"
        "level (cls q1 y) = 0 \<longleftrightarrow> children (cls q1 y) = 0"
        using y fam [of y] kc(1) k1 [OF y] assms(3,9,11-13) None by (auto simp: e)
    qed (use dist e in simp)
    then show ?thesis using 1 None by (simp add: attach_class_def q1_def [symmetric] settled_def)
  next
    case (Some p)
    define q2 where "q2 = upd p (\<lambda>x. x\<lparr>children := Suc (children x)\<rparr>) q1"
    have p: "p \<in> set (clhash q)" "level (cls q p) \<noteq> 0" "p \<noteq> c" using assms(2,4) Some by auto
    have e2: "clhash q2 = c # clhash q" "cls q2 y = (if y = p then (cls q p)\<lparr>children := Suc (children (cls q p))\<rparr> else cls q1 y)" for y
      using p(3) by (simp_all add: q2_def e)
    have k2: "kids q2 y = kids q1 y" for y using p(3) by (auto simp: kids_def e e2)
    have "family_ok q2"
      unfolding family_ok_def
    proof (intro conjI ballI)
      fix y assume y: "y \<in> set (clhash q2)"
      have y1: "y \<in> set (clhash q1)" using y by (simp add: e e2)
      show "0 \<le> prio (cls q2 y)" "prio (cls q2 y) < int TC_HTB_NUMPRIO"
        using y fam [of y] assms(12,13) p by (auto simp: e e2)
      show "children (cls q2 y) = card (kids q2 y)"
        using y fam [of y] fam [OF p(1)] k1 [OF y1] kc fin [of y] assms(11) Some by (auto simp: e e2 k2)
      show "level (cls q2 y) = 0 \<longleftrightarrow> children (cls q2 y) = 0"
        using y fam [of y] assms(3,9,11) p Some by (auto simp: e e2)
    qed (use dist e2 in simp)
    then show ?thesis
      using upd_children_settled [OF 1, of p "\<lambda>x. Suc (children x)"] Some
      by (simp add: attach_class_def q1_def [symmetric] q2_def [symmetric] settled_def Let_def)
  qed
qed

lemma insert_class_ok:
  assumes "settled q" "c \<notin> set (clhash q)" "\<And>p. par = Some p \<Longrightarrow> p \<in> set (clhash q)" "\<not> too_deep par q"
  shows "settled (insert_class E i par hopt rq c q)" "of_ok q \<Longrightarrow> of_ok (insert_class E i par hopt rq c q)"
    "clhash (insert_class E i par hopt rq c q) = c # clhash q"
proof -
  define q1 where "q1 = (case par of None \<Rightarrow> q | Some p \<Rightarrow> if level (cls q p) = 0 then parent_to_inner E p q else q)"
  let ?x = "fresh_class E i par hopt (new_q rq) (req_time rq)"
  have eq: "insert_class E i par hopt rq c q = attach_class c ?x par q1"
    by (cases par) (simp_all add: insert_class_def attach_class_def q1_def replace_class_def Let_def)
  have "\<exists>S. S \<subseteq> set_option par \<and> settled_but S q1 \<and> clhash q1 = clhash q \<and> ofbuf q1 = ofbuf q \<and> ofbuf_queued q1 = ofbuf_queued q \<and>
    (\<forall>p. par = Some p \<longrightarrow> level (cls q1 p) \<noteq> 0)"
  proof (cases "\<exists>p. par = Some p \<and> level (cls q p) = 0")
    case True
    then obtain p where p: "par = Some p" "level (cls q p) = 0" by auto
    have "p \<in> leaves q" using assms(3) p by (simp add: leaves_def)
    moreover have "parent (cls q p) = Some g \<Longrightarrow> 2 \<le> level (cls q g)" for g
      using assms(4) p by (auto simp: too_deep_def split: option.splits)
    ultimately show ?thesis using parent_to_inner_ok [OF assms(1), of p E] p by (auto simp: q1_def)
  next
    case False
    then have "q1 = q" by (auto simp: q1_def split: option.splits)
    then show ?thesis using assms(1) False by (intro exI [of _ "{}"]) (simp add: settled_but_empty)
  qed
  then obtain S where S: "S \<subseteq> set_option par" "settled_but S q1" "clhash q1 = clhash q" "ofbuf q1 = ofbuf q"
    "ofbuf_queued q1 = ofbuf_queued q" "\<And>p. par = Some p \<Longrightarrow> level (cls q1 p) \<noteq> 0" by blast
  show "settled (insert_class E i par hopt rq c q)"
    unfolding eq by (rule attach_class_ok [OF S(2) _ S(1)]) (use assms(2,3) S(3,6) in \<open>auto simp: fresh_class_def\<close>)
  show "of_ok q \<Longrightarrow> of_ok (insert_class E i par hopt rq c q)" "clhash (insert_class E i par hopt rq c q) = c # clhash q"
    using S(3-5) unfolding eq by (auto simp: attach_class_def replace_class_def of_ok_def Let_def split: option.split)
qed

lemma settled_set_prio:
  assumes "settled q" "\<And>x. sview (f x) = sview (x\<lparr>prio := prio (f x)\<rparr>)" "0 \<le> prio (f (cls q c))" "prio (f (cls q c)) < int TC_HTB_NUMPRIO"
  shows "settled (upd c f q)"
proof -
  let ?q = "upd c f q"
  have s: "sview (f (cls q c)) = sview ((cls q c)\<lparr>prio := prio (f (cls q c))\<rparr>)" by (rule assms(2))
  have e: "bview (cls ?q y) = bview (cls q y)" "pq_key (cls ?q y) = pq_key (cls q y)" "pq_node (cls ?q y) = pq_node (cls q y)"
    "children (cls ?q y) = children (cls q y)" for y
    using s by (simp_all add: sview_def bview_def lview_def)
  have l: "level (cls ?q y) = level (cls q y)" "cmode (cls ?q y) = cmode (cls q y)" "parent (cls ?q y) = parent (cls q y)"
    "prio_activity (cls ?q y) = prio_activity (cls q y)" for y
    using e(1) [of y] by (simp_all add: bview_def lview_def)
  note b = settled_unfold [OF assms(1)]
  have "base_ok ?q" using b(1) base_ok_cong(1) [of ?q q] e(1) by simp
  moreover have "waiting ?q = waiting q" using l(2) by (simp add: waiting_def fun_eq_iff)
  moreover have "waits_ok W ?q = waits_ok W q" for W by (rule waits_ok_cong) (use e l in simp_all)
  moreover have "drops_ok ?q" using b(3) l(1,4) by (simp add: drops_ok_def)
  moreover have "family_ok ?q"
  proof -
    have "kids ?q = kids q" using l(3) by (simp add: kids_def fun_eq_iff)
    moreover have "prio (cls ?q y) \<ge> 0 \<and> prio (cls ?q y) < int TC_HTB_NUMPRIO" if "y \<in> set (clhash q)" for y
      using b(4) that assms(3,4) by (simp add: family_ok_def)
    ultimately show ?thesis using b(4) e(4) l(1) unfolding family_ok_def by simp
  qed
  ultimately show ?thesis using b by (simp add: settled_def)
qed

lemma set_params_ok:
  assumes "settled q" "c \<in> set (clhash q)" "sint (o_prio hopt) \<ge> 0"
  shows "settled (upd c (set_params r2q hopt rt ct) q)"
proof (rule settled_set_prio [OF assms(1)])
  have p: "0 \<le> prio (cls q c) \<and> prio (cls q c) < int TC_HTB_NUMPRIO"
    using assms(1,2) by (simp add: settled_def family_ok_def)
  show "0 \<le> prio (set_params r2q hopt rt ct (cls q c))" "prio (set_params r2q hopt rt ct (cls q c)) < int TC_HTB_NUMPRIO"
    using p assms(3) by (auto simp: set_params_def Let_def)
  show "sview (set_params r2q hopt rt ct x) = sview (x\<lparr>prio := prio (set_params r2q hopt rt ct x)\<rparr>)" for x
    by (simp add: set_params_def sview_def bview_def lview_def Let_def)
qed

text \<open>
  The request of \<open>htb_change_class\<close> allocates unused memory, and changes a live class.  \<open>prio_in_range\<close> is a
  restriction that the code does not check (\<open>cl->prio = hopt->prio\<close> with an unsigned \<open>hopt->prio\<close>): a priority
  of \<open>2^31\<close> or more is stored as a negative number, which later is a negative shift count and array index.
\<close>

definition request_ok :: "cid option \<Rightarrow> 'q htb_req \<Rightarrow> 'q htb_sched \<Rightarrow> bool" where
  "request_ok arg rq q \<longleftrightarrow> (\<forall>c. arg = Some c \<longrightarrow> c \<in> set (clhash q)) \<and>
    (\<forall>c. allocated rq = Some c \<longrightarrow> c \<notin> set (clhash q))"

definition prio_in_range :: "'q htb_req \<Rightarrow> bool" where
  "prio_in_range rq \<longleftrightarrow> (\<forall>h. parms rq = Some h \<longrightarrow> uint (o_prio h) < 2 ^ 31)"

lemma sint_nonneg_iff: "0 \<le> sint (w :: u32) \<longleftrightarrow> uint w < 2 ^ 31"
proof -
  have w: "uint w < 2 ^ LENGTH(32)" "0 \<le> uint w" by (rule unsigned_less, rule unsigned_greater_eq)
  have "uint w div 2 ^ 31 = (if uint w < 2 ^ 31 then 0 else 1)"
  proof (cases "uint w < 2 ^ 31")
    case False
    have "uint w div 2 ^ 31 = 1" by (rule int_div_pos_eq [where r = "uint w - 2 ^ 31"]) (use w False in simp_all)
    then show ?thesis using False by simp
  qed (use w in simp)
  then have "bit (uint w) 31 \<longleftrightarrow> 2 ^ 31 \<le> uint w" by (simp add: bit_iff_odd not_less split: if_splits)
  then show ?thesis by (simp add: sint_uint signed_take_bit_nonnegative_iff not_le)
qed

definition req_parent :: "u32 \<Rightarrow> 'q htb_sched \<Rightarrow> cid option" where
  "req_parent parentid q = (if parentid = 0xFFFFFFFF then None else htb_find parentid q)"

lemma change_class_cases:
  fixes q :: "'q htb_sched"
  defines "par \<equiv> \<lambda>parentid (q :: 'q htb_sched). req_parent parentid q"
  obtains (err) "snd (htb_change_class E i parentid arg rq q) = q"
    | (new) c hopt where "snd (htb_change_class E i parentid arg rq q) = upd c (set_params (rate2quantum q) hopt (the (rtab rq)) (the (ctab rq)))
          (insert_class E i (par parentid q) hopt rq c q)"
        "parms rq = Some hopt" "allocated rq = Some c" "\<not> too_deep (par parentid q) q"
    | (old) c hopt where "snd (htb_change_class E i parentid arg rq q) = upd c (set_params (rate2quantum q) hopt (the (rtab rq)) (the (ctab rq))) q"
        "parms rq = Some hopt" "arg = Some c"
proof -
  let ?r = "htb_change_class E i parentid arg rq q"
  consider (none) "parms rq = None" | (some) hopt where "parms rq = Some hopt" by (cases "parms rq")
  then show thesis
  proof cases
    case none
    then have "snd ?r = q" by (simp add: htb_change_class_def)
    then show thesis by (rule err)
  next
    case (some hopt)
    show thesis
    proof (cases arg)
      case None
      show thesis
      proof (cases "snd ?r = q")
        case False
        then obtain c where c: "allocated rq = Some c" using None some
          by (cases "allocated rq") (auto simp: htb_change_class_def Let_def)
        have "\<not> too_deep (par parentid q) q \<and> snd ?r = upd c (set_params (rate2quantum q) hopt (the (rtab rq)) (the (ctab rq)))
            (insert_class E i (par parentid q) hopt rq c q)"
          using False c None some by (simp add: htb_change_class_def Let_def par_def req_parent_def split: if_splits)
        then show thesis using new some c by blast
      qed (rule err)
    next
      case (Some c)
      have "snd ?r = q \<or> snd ?r = upd c (set_params (rate2quantum q) hopt (the (rtab rq)) (the (ctab rq))) q"
        using Some some by (simp add: htb_change_class_def Let_def)
      then show thesis using err old some Some by blast
    qed
  qed
qed

lemma change_class_ok:
  assumes "settled q" "of_ok q" "request_ok arg rq q" "prio_in_range rq"
  shows "settled (snd (htb_change_class E i parentid arg rq q))" "of_ok (snd (htb_change_class E i parentid arg rq q))"
proof -
  have par: "req_parent parentid q = Some p \<Longrightarrow> p \<in> set (clhash q)" for p by (auto simp: req_parent_def htb_find_Some split: if_splits)
  have "settled (snd (htb_change_class E i parentid arg rq q)) \<and> of_ok (snd (htb_change_class E i parentid arg rq q))"
  proof (cases rule: change_class_cases [of E i parentid arg rq q])
    case err
    then show ?thesis using assms by simp
  next
    case (new c hopt)
    have c: "c \<notin> set (clhash q)" "sint (o_prio hopt) \<ge> 0"
      using assms(3,4) new(2,3) by (auto simp: request_ok_def prio_in_range_def sint_nonneg_iff)
    note i = insert_class_ok [OF assms(1) c(1) par new(4), of E i hopt rq]
    show ?thesis using set_params_ok [OF i(1), of c hopt] i(2,3) assms(2) c(2) unfolding new(1) by (simp add: of_ok_def)
  next
    case (old c hopt)
    have c: "c \<in> set (clhash q)" "sint (o_prio hopt) \<ge> 0"
      using assms(3,4) old(2,3) by (auto simp: request_ok_def prio_in_range_def sint_nonneg_iff)
    show ?thesis using set_params_ok [OF assms(1) c] assms(2) unfolding old(1) by (simp add: of_ok_def)
  qed
  then show "settled (snd (htb_change_class E i parentid arg rq q))" "of_ok (snd (htb_change_class E i parentid arg rq q))" by auto
qed

text \<open>The priority a request leaves in a leaf, whatever it asks for.\<close>

lemma change_class_prio:
  assumes "htb_change_class E i parentid (Some c) rq q = (Inr d, q')" "parms rq = Some h" "level (cls q c) = 0"
  shows "d = c \<and> prio (cls q' c) = min 7 (sint (o_prio h))"
  using assms by (auto simp: htb_change_class_def set_params_def upd_def Let_def split: if_splits)

section \<open>Deleting a class\<close>

text \<open>
  \<open>htb_delete\<close> takes the class out of the hash table before it deactivates it; neither the deactivation
  nor the erasure reads the table or the number of children, so they commute with it.
\<close>

definition relabel :: "cid list \<Rightarrow> cid option \<Rightarrow> nat \<Rightarrow> 'q htb_sched \<Rightarrow> 'q htb_sched" where
  "relabel h po k q = (case po of None \<Rightarrow> q\<lparr>clhash := h\<rparr> | Some p \<Rightarrow> upd p (\<lambda>x. x\<lparr>children := k\<rparr>) (q\<lparr>clhash := h\<rparr>))"

definition child_set :: "cid option \<Rightarrow> nat \<Rightarrow> cid \<Rightarrow> 'q htb_class \<Rightarrow> 'q htb_class" where
  "child_set po k x c = (if po = Some x then c\<lparr>children := k\<rparr> else c)"

lemma relabel_fields [simp]:
  "cls (relabel h po k q) x = child_set po k x (cls q x)" "row (relabel h po k q) = row q" "row_mask (relabel h po k q) = row_mask q"
  "rptr (relabel h po k q) = rptr q" "wait_pq (relabel h po k q) = wait_pq q" "drops (relabel h po k q) = drops q"
  "faults (relabel h po k q) = faults q" "clhash (relabel h po k q) = h" "ofbuf (relabel h po k q) = ofbuf q"
  "ofbuf_queued (relabel h po k q) = ofbuf_queued q"
  by (auto simp: relabel_def child_set_def split: option.split)

lemma child_set_fields [simp]:
  "feed (child_set po k x c) = feed c" "iptr (child_set po k x c) = iptr c" "node (child_set po k x c) = node c"
  "pq_node (child_set po k x c) = pq_node c" "cmode (child_set po k x c) = cmode c" "parent (child_set po k x c) = parent c"
  "level (child_set po k x c) = level c" "classid (child_set po k x c) = classid c"
  "prio_activity (child_set po k x c) = prio_activity c" "prio (child_set po k x c) = prio c"
  "pq_key (child_set po k x c) = pq_key c" "children (child_set po k x c) = (if po = Some x then k else children c)"
  by (simp_all add: child_set_def)

lemma relabel_upd:
  "(\<And>x. f (x\<lparr>children := k\<rparr>) = (f x)\<lparr>children := k\<rparr>) \<Longrightarrow> upd c f (relabel h po k q) = relabel h po k (upd c f q)"
  by (rule sched_eqI) (auto simp: relabel_def child_set_def split: option.split)

lemma relabel_rows:
  "(relabel h po k q)\<lparr>row := a\<rparr> = relabel h po k (q\<lparr>row := a\<rparr>)" "(relabel h po k q)\<lparr>row_mask := b\<rparr> = relabel h po k (q\<lparr>row_mask := b\<rparr>)"
  "(relabel h po k q)\<lparr>rptr := d\<rparr> = relabel h po k (q\<lparr>rptr := d\<rparr>)" "(relabel h po k q)\<lparr>drops := g\<rparr> = relabel h po k (q\<lparr>drops := g\<rparr>)"
  "(relabel h po k q)\<lparr>wait_pq := j\<rparr> = relabel h po k (q\<lparr>wait_pq := j\<rparr>)" "fault (relabel h po k q) = relabel h po k (fault q)"
  by (simp_all add: relabel_def upd_def fault_def split: option.split)

lemma relabel_fold:
  assumes "\<And>r m q. f r (m, relabel h po k q) = map_prod id (relabel h po k) (f r (m, q))"
  shows "fold f rs (m, relabel h po k q) = map_prod id (relabel h po k) (fold f rs (m, q))"
proof (induction rs arbitrary: m q)
  case (Cons r rs)
  obtain m' q' where "f r (m, q) = (m', q')" by (cases "f r (m, q)")
  then show ?case using assms [of r m q] Cons.IH [of m' q'] by simp
qed simp

lemma relabel_deactivate_prio: "deactivate_prio p c r (m, relabel h po k q) = map_prod id (relabel h po k) (deactivate_prio p c r (m, q))"
  by (simp add: deactivate_prio_def erase_feed_def Let_def relabel_upd relabel_rows)

lemma relabel_remove_row: "remove_row_prio l c r (m, relabel h po k q) = map_prod id (relabel h po k) (remove_row_prio l c r (m, q))"
  by (simp add: remove_row_prio_def erase_row_def Let_def relabel_upd relabel_rows)

lemmas relabel_folds = relabel_fold [of "deactivate_prio p c" for p c, OF relabel_deactivate_prio]
  relabel_fold [of "remove_row_prio l c" for l c, OF relabel_remove_row]

lemma relabel_remove_class: "htb_remove_class_from_row c m (relabel h po k q) = relabel h po k (htb_remove_class_from_row c m q)"
  by (simp add: htb_remove_class_from_row_def for_prios_fold relabel_folds relabel_rows Let_def split: prod.split)

lemma relabel_deactivate_loop: "deactivate_loop n c m (relabel h po k q) = relabel h po k (deactivate_loop n c m q)"
proof (induction n arbitrary: c m q)
  case (Suc n)
  let ?p = "the (parent (cls q c))"
  obtain m1 q1 where 1: "fold (deactivate_prio ?p c) (prios_of m) (0, q) = (m1, q1)" by (cases "fold (deactivate_prio ?p c) (prios_of m) (0, q)")
  have "for_prios m (deactivate_prio ?p c) (0, q) = (m1, q1)"
    "for_prios m (deactivate_prio ?p c) (0, relabel h po k q) = (m1, relabel h po k q1)"
    using 1 by (simp_all add: for_prios_fold relabel_folds)
  then show ?case by (cases "parent (cls q c)") (simp_all add: relabel_remove_class relabel_upd Suc.IH Let_def)
qed simp

lemma relabel_deactivate: "htb_deactivate c (relabel h po k q) = relabel h po k (htb_deactivate c q)"
  by (simp add: htb_deactivate_def htb_deactivate_prios_def relabel_deactivate_loop relabel_upd relabel_rows Let_def)

lemma relabel_erase_pq: "erase_pq l c (relabel h po k q) = relabel h po k (erase_pq l c q)"
  by (simp add: erase_pq_def relabel_upd relabel_rows)

lemma relabel_isolate: "isolate c (relabel h po k q) = relabel h po k (isolate c q)"
proof -
  have "(if b then htb_deactivate c (relabel h po k q) else relabel h po k q) = relabel h po k (if b then htb_deactivate c q else q)" for b
    by (simp add: relabel_deactivate)
  then show ?thesis by (simp add: isolate_def Let_def relabel_erase_pq)
qed

lemma unhash_relabel:
  "unhash c q = relabel (removeAll c (clhash q)) (parent (cls q c)) (children (cls q (the (parent (cls q c)))) - 1) q"
  by (cases "parent (cls q c)") (simp_all add: unhash_def relabel_def Let_def upd_def)

lemma unhashed_ok:
  assumes "alone c q" "family_ok q" "c \<in> leaves q"
  defines "po \<equiv> parent (cls q c)"
  defines "q' \<equiv> relabel (removeAll c (clhash q)) po (children (cls q (the po)) - 1) q"
  shows "settled_but (set_option po) q'" "children (cls q' (the po)) \<noteq> 0 \<or> po = None \<Longrightarrow> settled q'"
    "kids q' x = kids q x - {c}"
proof -
  have a: "base_ok q" "waits_ok (\<lambda>x. waiting q x \<and> x \<noteq> c) q" "drops_ok q" "faults q = 0" "prio_activity (cls q c) = 0" "kids q c = {}"
    using assms(1) by (simp_all add: alone_def)
  have e: "cls q' x = child_set po (children (cls q (the po)) - 1) x (cls q x)" "clhash q' = removeAll c (clhash q)"
    "row q' = row q" "row_mask q' = row_mask q" "rptr q' = rptr q" "wait_pq q' = wait_pq q" "drops q' = drops q" "faults q' = faults q" for x
    by (simp_all add: q'_def)
  show k: "kids q' x = kids q x - {c}" for x by (auto simp: kids_def e)
  have "attached q' = attached q" by (simp add: attached_def fun_eq_iff e)
  moreover have "linked_ok att q' = linked_ok att q" for att by (rule linked_ok_cong) (simp_all add: e lview_def)
  moreover have "act_ok q' = act_ok q" by (rule act_ok_cong) (simp add: e aview_def)
  moreover have "tree_wf q'" using a(1,6) by (auto simp: base_ok_def tree_wf_def e kids_def)
  moreover have "dead_ok q'" using a(1,5) by (auto simp: base_ok_def dead_ok_def e)
  ultimately have b: "base_ok q'" using a(1) by (simp add: base_ok_def)
  have "waiting q' = (\<lambda>x. waiting q x \<and> x \<noteq> c)" by (auto simp: waiting_def e fun_eq_iff)
  moreover have "waits_ok W q' = waits_ok W q" for W by (rule waits_ok_cong) (simp_all add: e)
  ultimately have w: "waits_ok (waiting q') q'" using a(2) by simp
  have d: "drops_ok q'" using a(3) by (simp add: drops_ok_def e)
  have f: "family_but (set_option po) q'"
    unfolding family_but_def
  proof (intro conjI ballI)
    fix x assume x: "x \<in> set (clhash q')"
    have fx: "0 \<le> prio (cls q x)" "prio (cls q x) < int TC_HTB_NUMPRIO" "children (cls q x) = card (kids q x)"
      "level (cls q x) = 0 \<longleftrightarrow> children (cls q x) = 0"
      using assms(2) x by (auto simp: family_ok_def e)
    show "0 \<le> prio (cls q' x)" "prio (cls q' x) < int TC_HTB_NUMPRIO" using fx by (simp_all add: e)
    have "c \<in> kids q x \<longleftrightarrow> po = Some x" using leavesD [OF assms(3)] by (simp add: kids_def po_def)
    moreover have "finite (kids q x)" by (simp add: kids_def)
    ultimately show "children (cls q' x) = card (kids q' x)" using fx(3) by (auto simp: e k card_Diff_singleton_if)
    show "x \<notin> set_option po \<longrightarrow> (level (cls q' x) = 0) = (children (cls q' x) = 0)" using fx(4) by (auto simp: e)
  qed (use assms(2) in \<open>simp add: e family_ok_def distinct_removeAll\<close>)
  show sb: "settled_but (set_option po) q'" using a(4) b w d f by (simp add: settled_but_def e)
  show "settled q'" if c0: "children (cls q' (the po)) \<noteq> 0 \<or> po = None"
  proof -
    have "family_but {} q'"
      unfolding family_but_def
    proof (intro conjI ballI impI)
      fix x assume x: "x \<in> set (clhash q')"
      have "level (cls q' x) \<noteq> 0" if "po = Some x"
        using tree_wfD(3) [of q c x] that a(1) leavesD [OF assms(3)] by (simp add: e po_def base_ok_def)
      then show "(level (cls q' x) = 0) = (children (cls q' x) = 0)"
        using f x c0 by (cases "po = Some x") (auto simp: family_but_def)
    qed (use f in \<open>auto simp: family_but_def\<close>)
    then show ?thesis using sb by (simp add: settled_but_def settled_def family_ok_but)
  qed
qed

lemma parent_to_leaf_ok:
  assumes "settled_but {p} q" "parent (cls q c) = Some p" "p \<in> set (clhash q)" "kids q p = {}" "level (cls q p) \<noteq> 0"
  shows "settled (htb_parent_to_leaf c lq time q)" "ofbuf (htb_parent_to_leaf c lq time q) = ofbuf q"
    "ofbuf_queued (htb_parent_to_leaf c lq time q) = ofbuf_queued q" "clhash (htb_parent_to_leaf c lq time q) = clhash q"
proof -
  have b: "base_ok q" "waits_ok (waiting q) q" "drops_ok q" "family_but {p} q" "faults q = 0"
    using assms(1) by (simp_all add: settled_but_def)
  have l: "linked_ok (attached q) q" "act_ok q" "dead_ok q" "tree_wf q" using b(1) by (simp_all add: base_ok_def)
  have "feed (cls q p) r = []" for r
  proof (rule ccontr)
    assume "feed (cls q p) r \<noteq> []"
    then obtain d where "d \<in> set (feed (cls q p) r)" by (cases "feed (cls q p) r") auto
    then have "parent (cls q d) = Some p" "prio_activity (cls q d) \<noteq> 0"
      using mem_feed [OF l(1)] by (auto simp: in_feed_def attached_def)
    then show False using l(3) assms(4) by (auto simp: dead_ok_def kids_def)
  qed
  then have pa: "prio_activity (cls q p) = 0" using act_okD(3) [OF l(2) assms(5)] by (simp add: mask_zero_iff)
  define q1 where "q1 = unwait p q"
  note u = unwait_ok [OF b(1,2,3,5) assms(3) pa assms(4), folded q1_def]
  define x where "x = (memset_inner (cls q1 p))\<lparr>level := 0, leaf_q := lq, tokens := buffer (cls q1 p), ctokens := cbuffer (cls q1 p),
    t_c := time, cmode := HTB_CAN_SEND\<rparr>"
  define q2 where "q2 = replace_class p x (clhash q1) q1"
  have eq: "htb_parent_to_leaf c lq time q = q2"
    using assms(2) by (simp add: htb_parent_to_leaf_def q2_def x_def q1_def unwait_def replace_class_def upd_def Let_def)
  have x: "feed x = (\<lambda>_. [])" "iptr x = (\<lambda>_. None)" "prio_activity x = 0" "cmode x = HTB_CAN_SEND" "level x = 0"
    "prio x = prio (cls q1 p)" "children x = children (cls q1 p)" "parent x = parent (cls q1 p)"
    using u(1) by (simp_all add: x_def memset_inner_def alone_def)
  have h: "set (clhash q1) = insert p (set (clhash q1))" using assms(3) same_queuesD(1) [OF u(2)] by auto
  have par: "g \<in> set (clhash q1) \<and> g \<noteq> p \<and> level x < level (cls q1 g)" if "parent x = Some g" for g
    using that tree_wfD(2,3) [OF l(4) assms(3), of g] same_queuesD [OF u(2)] x(5,8) by auto
  note r = replace_ok [OF u(1) x(1-4) h _ par, folded q2_def]
  have fb: "family_but {p} q1" using unwait_family [OF b(4)] by (simp add: q1_def)
  have "family_ok q2"
    unfolding family_ok_but
  proof -
    have "family_but {p} q2"
      by (rule family_but_cong [OF fb]) (use x in \<open>auto simp: q2_def replace_class_def\<close>)
    moreover have "children (cls q2 p) = 0"
    proof -
      have "children (cls q1 p) = card (kids q1 p)" using fb assms(3) same_queuesD(1) [OF u(2)] by (simp add: family_but_def)
      then show ?thesis using assms(4) same_queues_kids [OF u(2)] x(7) by (simp add: q2_def replace_class_def)
    qed
    moreover have "level (cls q2 p) = 0" using x(5) by (simp add: q2_def replace_class_def)
    ultimately show "family_but {} q2" by (auto simp: family_but_def)
  qed
  then show "settled (htb_parent_to_leaf c lq time q)" using r x(5) by (simp add: settled_def eq)
  show "ofbuf (htb_parent_to_leaf c lq time q) = ofbuf q" "ofbuf_queued (htb_parent_to_leaf c lq time q) = ofbuf_queued q"
    "clhash (htb_parent_to_leaf c lq time q) = clhash q"
    by (simp_all add: eq q2_def replace_class_def same_queuesD [OF u(2)])
qed

lemma delete_ok:
  assumes "settled q" "of_ok q" "c \<in> set (clhash q)"
  shows "settled (snd (htb_delete E c lq time q))" "of_ok (snd (htb_delete E c lq time q))"
proof -
  have rc: "settled (upd c (\<lambda>x. x\<lparr>refcnt := refcnt x - 1\<rparr>) q) = settled q" for q :: "'a htb_sched"
    by (rule settled_upd) (simp add: sview_def bview_def lview_def)
  have "settled (snd (htb_delete E c lq time q)) \<and> of_ok (snd (htb_delete E c lq time q))"
  proof (cases "children (cls q c) \<noteq> 0 \<or> filter_cnt (cls q c) \<noteq> 0")
    case True
    then show ?thesis using assms by (simp add: htb_delete_def)
  next
    case False
    have lv: "c \<in> leaves q" using False assms(1,3) by (simp add: settled_def family_ok_def leaves_def)
    define last where "last = htb_parent_last_child c q"
    define q0 where "q0 = set_leaf c (leaf_reset E (leaf_q (cls q c))) q"
    define q1 where "q1 = qdisc_tree_decrease_qlen E c (leaf_qlen E (leaf_q (cls q c))) q0"
    define q2 where "q2 = isolate c q1"
    define q3 where "q3 = relabel (removeAll c (clhash q2)) (parent (cls q2 c)) (children (cls q2 (the (parent (cls q2 c)))) - 1) q2"
    have 0: "settled q0" "c \<in> leaves q0" using assms(1) lv by (simp_all add: q0_def)
    note d = decrease_qlen_ok [OF 0, of E "leaf_qlen E (leaf_q (cls q c))", folded q1_def]
    have l1: "c \<in> leaves q1" using 0 d(2) by simp
    note i = isolate_ok [OF d(1) l1, folded q2_def]
    note sq = same_queuesD [OF i(3)]
    have l2: "c \<in> leaves q2" using l1 same_queues_counts(1) [OF i(3)] by simp
    note u = unhashed_ok [OF i(1,2) l2, folded q3_def]
    have par: "parent (cls q2 c) = parent (cls q c)" by (simp add: sq d q0_def)
    have ch: "children (cls q2 y) = children (cls q y)" if "y \<in> set (clhash q)" for y
    proof -
      have "kids q2 = kids q" by (simp add: kids_def fun_eq_iff sq d q0_def)
      then show ?thesis using that i(2) assms(1) by (simp add: family_ok_def settled_def sq d q0_def)
    qed
    have un: "isolate c (unhash c q1) = q3"
    proof -
      have "children (cls q1 y) = children (cls q2 y)" if "y \<in> set (clhash q1)" for y
      proof -
        have "kids q2 = kids q1" by (rule same_queues_kids [OF i(3)])
        then show ?thesis using that i(2) d(1) by (simp add: family_ok_def settled_def sq)
      qed
      moreover have "p \<in> set (clhash q1)" if "parent (cls q1 c) = Some p" for p
        using tree_wfD(2) [OF settled_tree_wf [OF d(1)] _ that] leavesD [OF l1] by simp
      ultimately show ?thesis
        unfolding unhash_relabel relabel_isolate q2_def [symmetric] q3_def
        by (cases "parent (cls q1 c)") (simp_all add: sq relabel_def)
    qed
    define q4 where "q4 = (if last then htb_parent_to_leaf c lq time q3 else q3)"
    have eq: "snd (htb_delete E c lq time q) = upd c (\<lambda>x. x\<lparr>refcnt := refcnt x - 1\<rparr>) q4"
      using False leavesD [OF lv] un
      by (simp add: htb_delete_def Let_def isolate_def reset_leaf_eq q0_def [symmetric] q1_def [symmetric] last_def q4_def)
    have s4: "settled q4 \<and> ofbuf q4 = ofbuf q \<and> ofbuf_queued q4 = ofbuf_queued q"
    proof (cases "parent (cls q c)")
      case None
      then have "settled q3" using u(2) par by simp
      then show ?thesis using None by (simp add: q4_def last_def htb_parent_last_child_def q3_def sq d q0_def)
    next
      case (Some p)
      have p: "p \<in> set (clhash q)" "p \<noteq> c"
        using tree_wfD(2,3) [OF settled_tree_wf [OF assms(1)] assms(3) Some] by auto
      have c3: "children (cls q3 p) = children (cls q p) - 1" using par Some ch [OF p(1)] by (simp add: q3_def)
      show ?thesis
      proof (cases last)
        case True
        have "children (cls q p) \<le> 1" using True Some by (simp add: last_def htb_parent_last_child_def)
        then have "card (kids q2 p) \<le> 1" using i(2) p(1) ch [OF p(1)] by (simp add: family_ok_def sq d q0_def)
        moreover have "c \<in> kids q2 p" using par Some leavesD [OF l2] by (simp add: kids_def)
        moreover have "finite (kids q2 p)" by (simp add: kids_def)
        ultimately have "kids q2 p = {c}" using card_le_Suc0_iff_eq [of "kids q2 p"] by auto
        then have k: "kids q3 p = {}" using u(3) by simp
        have sb: "settled_but {p} q3" using u(1) par Some by simp
        have p3: "parent (cls q3 c) = Some p" "p \<in> set (clhash q3)" "level (cls q3 p) \<noteq> 0"
          using par Some p tree_wfD(3) [OF settled_tree_wf [OF assms(1)] assms(3) Some] by (simp_all add: q3_def sq d q0_def)
        show ?thesis
          using parent_to_leaf_ok [OF sb p3(1,2) k p3(3), of lq time] True by (simp add: q4_def q3_def sq d q0_def)
      next
        case False
        then have "children (cls q3 p) \<noteq> 0" using Some c3 by (simp add: last_def htb_parent_last_child_def)
        then have "settled q3" using u(2) par Some by simp
        then show ?thesis using False by (simp add: q4_def q3_def sq d q0_def)
      qed
    qed
    then show ?thesis using assms(2) unfolding eq rc by (simp add: of_ok_def)
  qed
  then show "settled (snd (htb_delete E c lq time q))" "of_ok (snd (htb_delete E c lq time q))" by auto
qed

end
