(* ===== verification/HtbShaping.thy ===== *)
theory HtbShaping
  imports HtbTopology
begin

text \<open>
  What the token buckets and modes of \<open>sch_htb.c\<close> promise: the thresholds and wake-up times of
  \<open>htb_class_mode\<close>, conformance of a class to its ceiling, and the end of the event loop.
\<close>

section \<open>Modes and wake-up times\<close>

definition waters_ok :: "'q htb_class \<Rightarrow> bool" where
  "waters_ok x \<longleftrightarrow> 0 \<le> buffer x \<and> 0 \<le> cbuffer x"

lemma lowater_le: "waters_ok x \<Longrightarrow> htb_lowater E x \<le> 0"
  by (simp add: htb_lowater_def waters_ok_def)

lemma hiwater_le: "waters_ok x \<Longrightarrow> htb_hiwater E x \<le> 0"
  by (simp add: htb_hiwater_def waters_ok_def)

lemma class_mode_cases:
  obtains "htb_class_mode E x d = (HTB_CANT_SEND, - (ctokens x + d))" "ctokens x + d < htb_lowater E x"
  | "htb_class_mode E x d = (HTB_CAN_SEND, d)" "ctokens x + d \<ge> htb_lowater E x" "tokens x + d \<ge> htb_hiwater E x"
  | "htb_class_mode E x d = (HTB_MAY_BORROW, - (tokens x + d))" "ctokens x + d \<ge> htb_lowater E x" "tokens x + d < htb_hiwater E x"
  by (cases "ctokens x + d < htb_lowater E x"; cases "tokens x + d \<ge> htb_hiwater E x") (auto simp: htb_class_mode_def intro: that)

lemma class_mode_mono: "d \<le> d' \<Longrightarrow> fst (htb_class_mode E x d) \<le> fst (htb_class_mode E x d')"
  by (auto simp: htb_class_mode_def less_eq_htb_cmode_def)

lemma class_mode_delay_pos:
  assumes "waters_ok x" "fst (htb_class_mode E x d) \<noteq> HTB_CAN_SEND"
  shows "0 < snd (htb_class_mode E x d)"
  using assms lowater_le [OF assms(1), of E] hiwater_le [OF assms(1), of E]
  by (cases rule: class_mode_cases [of E x d]) auto

lemma class_mode_wakeup:
  assumes "waters_ok x" "htb_class_mode E x d = (m, w)" "m \<noteq> HTB_CAN_SEND"
  shows "0 < w" "m < fst (htb_class_mode E x (d + w))"
    "\<not> htb_hysteresis E \<Longrightarrow> 0 \<le> t \<Longrightarrow> t < w \<Longrightarrow> fst (htb_class_mode E x (d + t)) = m"
proof -
  note lo = lowater_le [OF assms(1), of E] and hi = hiwater_le [OF assms(1), of E]
  show w: "0 < w" using class_mode_delay_pos [OF assms(1), of E d] assms(2,3) by simp
  show "m < fst (htb_class_mode E x (d + w))"
    using assms(2,3) lo hi w by (cases rule: class_mode_cases [of E x d]) (auto simp: htb_class_mode_def less_htb_cmode_def)
  show "fst (htb_class_mode E x (d + t)) = m" if "\<not> htb_hysteresis E" "0 \<le> t" "t < w"
    using assms(2,3) that by (cases rule: class_mode_cases [of E x d]) (auto simp: htb_class_mode_def htb_lowater_def htb_hiwater_def)
qed

section \<open>Conformance to the ceiling\<close>

text \<open>
  A history of a class: each charge has the mode of the class at that moment, the time, the level that
  is charged and the packet.
\<close>

type_synonym charge = "htb_cmode \<times> int \<times> nat \<times> skb"

definition charge_at :: "'q htb_env \<Rightarrow> charge \<Rightarrow> 'q htb_class \<Rightarrow> 'q htb_class" where
  "charge_at E h x = (case h of (m, t, lv, s) \<Rightarrow> charge_tokens E t lv s (x\<lparr>cmode := m\<rparr>))"

definition may_send :: "'q htb_env \<Rightarrow> charge \<Rightarrow> 'q htb_class \<Rightarrow> bool" where
  "may_send E h x =
    (case h of (m, t, lv, s) \<Rightarrow> t_c x \<le> t \<and>
      fst (htb_class_mode E (x\<lparr>cmode := m\<rparr>) (psched_tdiff_bounded E t (t_c x) (mbuffer x))) \<noteq> HTB_CANT_SEND)"

fun allowed :: "'q htb_env \<Rightarrow> charge list \<Rightarrow> 'q htb_class \<Rightarrow> bool" where
  "allowed E [] x = True"
| "allowed E (h # hs) x = (may_send E h x \<and> allowed E hs (charge_at E h x))"

definition cost :: "'q htb_env \<Rightarrow> 'q htb_class \<Rightarrow> charge \<Rightarrow> int" where
  "cost E x h = qdisc_l2t E (ceil x) (pkt_len (snd (snd (snd h))))"

definition slack :: "'q htb_env \<Rightarrow> 'q htb_class \<Rightarrow> int" where
  "slack E x = (if htb_hysteresis E then cbuffer x else 0)"

text \<open>\<open>psched_tdiff_bounded(t1, t2, bound)\<close> is the smaller of \<open>t1 - t2\<close> and \<open>bound\<close>.\<close>

definition tdiff_ok :: "'q htb_env \<Rightarrow> bool" where
  "tdiff_ok E \<longleftrightarrow> (\<forall>a b k. psched_tdiff_bounded E a b k = min (a - b) k)"

lemma charge_at_fields:
  "cbuffer (charge_at E h x) = cbuffer x" "buffer (charge_at E h x) = buffer x" "mbuffer (charge_at E h x) = mbuffer x"
  "ceil (charge_at E h x) = ceil x" "t_c (charge_at E h x) = fst (snd h)"
  by (cases h; simp add: charge_at_def charge_tokens_def htb_accnt_tokens_def htb_accnt_ctokens_def Let_def)+

lemma charge_at_ctokens:
  "ctokens (charge_at E (m, t, lv, s) x) =
    (let toks = min (psched_tdiff_bounded E t (t_c x) (mbuffer x) + ctokens x) (cbuffer x) - qdisc_l2t E (ceil x) (pkt_len s)
     in if toks \<le> - mbuffer x then 1 - mbuffer x else toks)"
  by (simp add: charge_at_def charge_tokens_def htb_accnt_tokens_def htb_accnt_ctokens_def Let_def min_def)

text \<open>An allowed charge: the floor of the bucket is not reached, so the tokens account for every cost.\<close>

lemma allowed_charge:
  assumes "may_send E h x" "tdiff_ok E" "waters_ok x" "0 \<le> cost E x h" "cost E x h + slack E x < mbuffer x"
  shows "ctokens (charge_at E h x) \<le> ctokens x + (t_c (charge_at E h x) - t_c x) - cost E x h"
    "- slack E x - cost E x h \<le> ctokens (charge_at E h x)" "ctokens (charge_at E h x) \<le> cbuffer x"
proof -
  obtain m t lv s where h: "h = (m, t, lv, s)" by (cases h) auto
  let ?d = "psched_tdiff_bounded E t (t_c x) (mbuffer x)"
  have d: "?d = min (t - t_c x) (mbuffer x)" using assms(2) by (simp add: tdiff_ok_def)
  have "htb_lowater E (x\<lparr>cmode := m\<rparr>) \<le> ctokens x + ?d"
    using assms(1) by (simp add: may_send_def h htb_class_mode_def split: if_splits)
  moreover have "- slack E x \<le> htb_lowater E (x\<lparr>cmode := m\<rparr>)"
    using assms(3) by (simp add: htb_lowater_def slack_def waters_ok_def)
  ultimately have lo: "- slack E x \<le> ctokens x + ?d" by simp
  have cb: "- slack E x \<le> cbuffer x" using assms(3) by (simp add: slack_def waters_ok_def)
  have c: "cost E x h = qdisc_l2t E (ceil x) (pkt_len s)" by (simp add: cost_def h)
  show "ctokens (charge_at E h x) \<le> ctokens x + (t_c (charge_at E h x) - t_c x) - cost E x h"
    "- slack E x - cost E x h \<le> ctokens (charge_at E h x)" "ctokens (charge_at E h x) \<le> cbuffer x"
    using lo cb assms(4,5) d unfolding charge_at_fields unfolding h charge_at_ctokens c [unfolded h, symmetric] Let_def
    by (auto simp: min_def split: if_splits)
qed

lemma ceil_conformance:
  assumes "allowed E hs x" "tdiff_ok E" "waters_ok x" "ctokens x \<le> cbuffer x" "- slack E x - M \<le> ctokens x"
    "\<And>h. h \<in> set hs \<Longrightarrow> 0 \<le> cost E x h \<and> cost E x h \<le> M" "M + slack E x < mbuffer x" "0 \<le> M"
  shows "(\<Sum>h\<leftarrow>hs. cost E x h) \<le> ctokens x + slack E x + M + (t_c (fold (charge_at E) hs x) - t_c x)"
  using assms
proof (induction hs arbitrary: x)
  case (Cons h hs)
  let ?y = "charge_at E h x"
  have f: "cost E ?y = cost E x" "slack E ?y = slack E x" "waters_ok ?y = waters_ok x" "mbuffer ?y = mbuffer x" "cbuffer ?y = cbuffer x"
    by (simp_all add: cost_def slack_def waters_ok_def charge_at_fields fun_eq_iff)
  have ch: "0 \<le> cost E x h" "cost E x h \<le> M" "may_send E h x" using Cons.prems(1,6) by auto
  note a = allowed_charge [OF ch(3) Cons.prems(2,3) ch(1)]
  have m: "cost E x h + slack E x < mbuffer x" using ch(2) Cons.prems(7) by simp
  have "(\<Sum>h\<leftarrow>hs. cost E ?y h) \<le> ctokens ?y + slack E ?y + M + (t_c (fold (charge_at E) hs ?y) - t_c ?y)"
  proof (rule Cons.IH)
    show "allowed E hs ?y" using Cons.prems(1) by simp
    show "waters_ok ?y" "ctokens ?y \<le> cbuffer ?y" "M + slack E ?y < mbuffer ?y" "- slack E ?y - M \<le> ctokens ?y"
      using Cons.prems(3,7) a(2,3) [OF m] ch(2) by (simp_all add: f)
    show "0 \<le> cost E ?y k \<and> cost E ?y k \<le> M" if "k \<in> set hs" for k using Cons.prems(6) [of k] that by (simp add: f)
  qed (fact Cons.prems)+
  then show ?case using a(1) [OF m] by (simp add: f)
qed simp

section \<open>The event loop\<close>

definition due :: "nat \<Rightarrow> 'q htb_sched \<Rightarrow> cid set" where
  "due l q = {c \<in> set (wait_pq q l). pq_key (cls q c) \<le> now q}"

definition depths_ok :: "'q htb_sched \<Rightarrow> bool" where
  "depths_ok q \<longleftrightarrow> (\<forall>c\<in>set (clhash q). waters_ok (cls q c))"

lemma srest_warned: "srest q = srest q' \<Longrightarrow> warned q = warned q'"
  by (cases q; cases q') (simp add: srest_def)

lemma mode_set_buckets:
  assumes "mode_set c m q q'"
  shows "buffer (cls q' x) = buffer (cls q x)" "cbuffer (cls q' x) = cbuffer (cls q x)" "warned q' = warned q"
proof -
  have s: "srest q' = srest (set_cmode c m q)" using assms by (simp add: mode_set_def)
  show "buffer (cls q' x) = buffer (cls q x)" "cbuffer (cls q' x) = cbuffer (cls q x)"
    using srest_classes(14,15) [OF s, of x] by (simp_all add: set_cmode_def)
  show "warned q' = warned q" using srest_warned [OF s] by (simp add: set_cmode_def)
qed

lemma wait_if_needed_fields:
  "set (wait_pq (wait_if_needed c d q) l) =
    (if cmode (cls q c) \<noteq> HTB_CAN_SEND \<and> l = level (cls q c) then insert c (set (wait_pq q l)) else set (wait_pq q l))"
  "pq_key (cls (wait_if_needed c d q) x) = (if x = c \<and> cmode (cls q c) \<noteq> HTB_CAN_SEND then new_key d q else pq_key (cls q x))"
  "warned (wait_if_needed c d q) = warned q" "now (wait_if_needed c d q) = now q"
  "buffer (cls (wait_if_needed c d q) x) = buffer (cls q x)" "cbuffer (cls (wait_if_needed c d q) x) = cbuffer (cls q x)"
proof -
  note wf = add_to_wait_tree_fields [of c d q]
  show "set (wait_pq (wait_if_needed c d q) l) =
    (if cmode (cls q c) \<noteq> HTB_CAN_SEND \<and> l = level (cls q c) then insert c (set (wait_pq q l)) else set (wait_pq q l))"
    by (auto simp: wait_if_needed_def wf(1))
  show "pq_key (cls (wait_if_needed c d q) x) = (if x = c \<and> cmode (cls q c) \<noteq> HTB_CAN_SEND then new_key d q else pq_key (cls q x))"
    using wf(2) by (simp add: wait_if_needed_def keys_def)
qed (auto simp: wait_if_needed_def htb_add_to_wait_tree_def Let_def)

lemma erase_pq_more:
  "wait_pq (erase_pq l c q) k = (if k = l \<and> pq_node (cls q c) then remove1 c (wait_pq q l) else wait_pq q k)"
  "pq_key (cls (erase_pq l c q) x) = pq_key (cls q x)" "warned (erase_pq l c q) = warned q" "now (erase_pq l c q) = now q"
  "buffer (cls (erase_pq l c q) x) = buffer (cls q x)" "cbuffer (cls (erase_pq l c q) x) = cbuffer (cls q x)"
  "level (cls (erase_pq l c q) x) = level (cls q x)"
  by (auto simp: erase_pq_def fault_def)

lemma event_due:
  fixes q :: "'q htb_sched" and E :: "'q htb_env"
  assumes "settled q" "depths_ok q" "wait_pq q l \<noteq> []" "c = hd (wait_pq q l)"
  defines "q1 \<equiv> erase_pq l c q"
  defines "ch \<equiv> htb_change_class_mode E c (psched_tdiff_bounded E (now q1) (t_c (cls q1 c)) (mbuffer (cls q1 c))) q1"
  defines "q' \<equiv> wait_if_needed c (fst ch) (snd ch)"
  shows "due l q' = due l q - {c}" "depths_ok q'" "warned q' = warned q" "settled q'" "same_queues q q'"
proof -
  let ?d = "psched_tdiff_bounded E (now q1) (t_c (cls q1 c)) (mbuffer (cls q1 c))"
  let ?m = "fst (htb_class_mode E (cls q1 c) ?d)"
  have c: "level (cls q c) = l" "waiting q c" using waits_hd [OF assms(1,3)] assms(4) by auto
  note ev = event_ok [OF assms(1) c(2), where E = E and diff = ?d and d = "fst ch", unfolded c(1), folded q1_def, folded ch_def, folded q'_def]
  show "settled q'" "same_queues q q'" by (rule ev)+
  have w: "distinct (wait_pq q l)" "pq_node (cls q c)"
    using assms(1) hd_in_set [OF assms(3)] by (simp_all add: settled_def waits_ok_def assms(4))
  have s: "base_ok q" "waits_ok (waiting q) q" "drops_ok q" "family_ok q" "faults q = 0" "c \<in> set (clhash q)"
    using assms(1) c(2) by (simp_all add: settled_def waiting_def)
  have o1: "out_of_wait c q1" unfolding q1_def c(1) [symmetric] by (rule erase_pq_out [OF s(1,2) c(2) refl s(3-6)])
  then have b1: "base_ok q1" "c \<in> set (clhash q1)" by (simp_all add: out_of_wait_def)
  note cm = change_mode_ok [OF b1, where E = E and diff = ?d, folded ch_def]
  note fs = mode_set_fields [OF cm(2)] and bk = mode_set_buckets [OF cm(2)]
  note e = erase_pq_more [where l = l and c = c and q = q, folded q1_def]
  have "waters_ok (cls q1 c)" using assms(2) s(6) by (simp add: depths_ok_def waters_ok_def e)
  then have pos: "?m \<noteq> HTB_CAN_SEND \<Longrightarrow> 0 < fst ch" using class_mode_delay_pos [of "cls q1 c" E ?d] cm(3) by simp
  note wn = wait_if_needed_fields [where c = c and d = "fst ch" and q = "snd ch", folded q'_def]
  have key: "?m \<noteq> HTB_CAN_SEND \<Longrightarrow> now q < new_key (fst ch) (snd ch)" using pos by (simp add: new_key_def fs e)
  have set: "set (wait_pq q' l) = (if ?m \<noteq> HTB_CAN_SEND then insert c (set (wait_pq q l) - {c}) else set (wait_pq q l) - {c})"
    using w c(1) by (simp add: wn(1) fs e)
  show "due l q' = due l q - {c}"
    using key by (auto simp: due_def set wn(2,4) fs e)
  show "depths_ok q'"
    using assms(2) same_queuesD(1) [OF ev(2)] by (simp add: depths_ok_def waters_ok_def wn bk e)
  show "warned q' = warned q" by (simp add: wn bk e)
qed

lemma do_events_complete:
  assumes "settled q" "depths_ok q" "card (due l q) < n" "htb_do_events E l n q = (ev, q')"
  shows "due l q' = {} \<and> warned q' = warned q \<and>
    (wait_pq q' l = [] \<and> ev = 0 \<or> wait_pq q' l \<noteq> [] \<and> now q < ev \<and> (\<forall>c\<in>set (wait_pq q' l). ev \<le> pq_key (cls q' c)))"
  using assms
proof (induction n arbitrary: q)
  case (Suc n)
  let ?c = "hd (wait_pq q l)"
  have srt: "sorted_wrt (\<lambda>c d. keys q c \<le> keys q d) (wait_pq q l)" using Suc.prems(1) by (simp add: settled_def waits_ok_def)
  consider (empty) "wait_pq q l = []" | (later) "wait_pq q l \<noteq> []" "pq_key (cls q ?c) > now q"
    | (now) "wait_pq q l \<noteq> []" "pq_key (cls q ?c) \<le> now q" by fastforce
  then show ?case
  proof cases
    case empty
    then show ?thesis using Suc.prems(4) by (auto simp: due_def)
  next
    case later
    have "pq_key (cls q ?c) \<le> pq_key (cls q c)" if "c \<in> set (wait_pq q l)" for c
      using srt that later(1) by (cases "wait_pq q l") (auto simp: keys_def)
    then show ?thesis using Suc.prems(4) later by (auto simp: due_def Let_def) (metis not_less order.trans)+
  next
    case now
    let ?q1 = "erase_pq l ?c q"
    let ?ch = "htb_change_class_mode E ?c (psched_tdiff_bounded E (now ?q1) (t_c (cls ?q1 ?c)) (mbuffer (cls ?q1 ?c))) ?q1"
    let ?q2 = "wait_if_needed ?c (fst ?ch) (snd ?ch)"
    note d = event_due [OF Suc.prems(1,2) now(1) refl, of E]
    have eq: "htb_do_events E l (Suc n) q = htb_do_events E l n ?q2"
      using now by (simp only: do_events_step Let_def) simp
    have "?c \<in> due l q" using now by (simp add: due_def)
    moreover have "finite (due l q)" by (simp add: due_def)
    ultimately have "card (due l ?q2) < n" using Suc.prems(3) d(1) by simp (metis One_nat_def card_Diff_singleton card_gt_0_iff diff_Suc_1 diff_less_mono empty_iff less_eq_Suc_le)
    then show ?thesis using Suc.IH [OF d(4,2)] Suc.prems(4) eq d(3) same_queuesD(6) [OF d(5)] by simp
  qed
qed simp

end
