(* ===== verification/HtbReach.thy ===== *)
theory HtbReach
  imports HtbShaping
begin

text \<open>
  The qdisc of \<open>sch_htb.c\<close> as a transition system: the operations the kernel calls, in any order and with
  any leaf qdiscs and filters, and what holds in every state they reach.
\<close>

section \<open>Reachable schedulers\<close>

text \<open>
  The environment may differ from step to step, since filters, leaf qdiscs and the module parameter
  \<open>htb_hysteresis\<close> change at run time.  A request to create or change a class is a step when its priority is
  below \<open>2^31\<close> (\<open>prio_in_range\<close>); the code has no such check, so the reachable schedulers here are the ones of a
  user space that keeps to this range.
\<close>

text \<open>The kernel attaches and removes filter chains through the pointer that \<open>htb_find_tcf\<close> returns.\<close>

definition set_tcf :: "cid option \<Rightarrow> nat option \<Rightarrow> 'q htb_sched \<Rightarrow> 'q htb_sched" where
  "set_tcf co f q = (case co of Some c \<Rightarrow> upd c (\<lambda>x. x\<lparr>cfilter_list := f\<rparr>) q | None \<Rightarrow> q\<lparr>filter_list := f\<rparr>)"

inductive htb_step :: "'q htb_sched \<Rightarrow> 'q htb_sched \<Rightarrow> bool" where
  enqueue: "filters_ok E q \<Longrightarrow> htb_enqueue E s q = Some (ret, q') \<Longrightarrow> htb_step q q'"
| dequeue: "filters_ok E q \<Longrightarrow> htb_dequeue E time random budget q = Some (res, q') \<Longrightarrow> htb_step q q'"
| drop: "htb_step q (snd (htb_drop E q))"
| reset: "htb_step q (htb_reset E q)"
| qlen_notify: "c \<in> leaves q \<Longrightarrow> htb_step q (htb_qlen_notify E c q)"
| graft: "c \<in> set (clhash q) \<Longrightarrow> htb_step q (snd (htb_graft E c new q))"
| get: "htb_step q (snd (htb_get i q))"
| put: "htb_step q (snd (htb_put c q))"
| bind_filter: "htb_step q (snd (htb_bind_filter i q))"
| unbind_filter: "htb_step q (htb_unbind_filter co q)"
| set_tcf: "htb_step q (set_tcf co f q)"
| change_class: "request_ok arg rq q \<Longrightarrow> prio_in_range rq \<Longrightarrow> htb_step q (snd (htb_change_class E i parentid arg rq q))"
| delete: "c \<in> set (clhash q) \<Longrightarrow> htb_step q (snd (htb_delete E c lq time q))"

text \<open>Memory that has not been a class yet.\<close>

definition blank_ok :: "(cid \<Rightarrow> 'q htb_class) \<Rightarrow> bool" where
  "blank_ok blank \<longleftrightarrow> (\<forall>c. prio_activity (blank c) = 0 \<and> feed (blank c) = (\<lambda>_. []) \<and> iptr (blank c) = (\<lambda>_. None))"

inductive htb_reach :: "'q htb_sched \<Rightarrow> bool" where
  init: "blank_ok blank \<Longrightarrow> htb_init blank hnd opt parse gopt err txq = Inr q \<Longrightarrow> htb_reach q"
| step: "htb_reach q \<Longrightarrow> htb_step q q' \<Longrightarrow> htb_reach q'"

lemma init_settled:
  assumes "blank_ok blank" "htb_init blank hnd opt parse gopt err txq = Inr q"
  shows "settled q" "of_ok q"
proof -
  have q: "clhash q = []" "cls q = blank" "drops q = (\<lambda>_. [])" "row q = (\<lambda>_ _. [])" "row_mask q = (\<lambda>_. 0)" "rptr q = (\<lambda>_ _. None)"
    "wait_pq q = (\<lambda>_. [])" "faults q = 0" "ofbuf q = []" "ofbuf_queued q = 0"
    using assms(2) by (auto simp: htb_init_def split: if_splits option.splits)
  have b: "prio_activity (blank c) = 0" "feed (blank c) r = []" "iptr (blank c) r = None" for c r
    using assms(1) by (simp_all add: blank_ok_def)
  show "settled q"
    by (simp add: settled_def base_ok_def linked_ok_def tree_ok_def in_feed_def in_row_def attached_def act_ok_def tree_wf_def
      dead_ok_def waits_ok_def waiting_def drops_ok_def family_ok_def q b)
  show "of_ok q" by (simp add: of_ok_def q)
qed

lemma count_settled:
  assumes "\<And>x. sview (f x) = sview x"
  shows "settled (upd c f q) = settled q" "of_ok (upd c f q) = of_ok q"
proof -
  show "settled (upd c f q) = settled q" by (simp add: settled_upd assms)
  show "of_ok (upd c f q) = of_ok q" by (simp add: of_ok_def upd_def)
qed

lemma step_settled:
  assumes "htb_step q q'" "settled q" "of_ok q"
  shows "settled q' \<and> of_ok q'"
  using assms(1)
proof (cases rule: htb_step.cases)
  case (enqueue E s ret)
  then show ?thesis using enqueue_ok [OF enqueue(2) assms(2) enqueue(1)] assms(3) by (simp add: enqueued_def)
next
  case (dequeue E time random budget res)
  then show ?thesis using dequeue_ok [OF dequeue(2) assms(2) dequeue(1) assms(3)] by simp
next
  case (drop E)
  then show ?thesis using drop_prios_ok [OF assms(2)] assms(3) by (simp add: htb_drop_def of_ok_def)
next
  case (reset E)
  then show ?thesis using reset_ok(1) [OF assms(2)] by (simp add: htb_reset_def of_ok_def)
next
  case (qlen_notify c E)
  then show ?thesis
    using deactivate_leaf [OF assms(2) qlen_notify(2)] same_queuesD(3,4) [of q q'] assms(2,3)
    by (auto simp: htb_qlen_notify_def of_ok_def)
next
  case (graft c E new)
  then show ?thesis using graft_ok [OF assms(2) graft(2)] assms(3) by simp
next
  case (get i)
  then show ?thesis using assms(2,3) by (auto simp: htb_get_def count_settled sview_def bview_def lview_def split: option.splits)
next
  case (put c)
  then show ?thesis using assms(2,3) by (simp add: htb_put_def htb_destroy_class_def Let_def count_settled sview_def bview_def lview_def)
next
  case (bind_filter i)
  then show ?thesis using assms(2,3) by (auto simp: htb_bind_filter_def count_settled sview_def bview_def lview_def split: option.splits)
next
  case (unbind_filter co)
  then show ?thesis using assms(2,3) by (auto simp: htb_unbind_filter_def count_settled sview_def bview_def lview_def split: option.splits)
next
  case (set_tcf co f)
  have "settled (q\<lparr>filter_list := f\<rparr>) = settled q" by (rule settled_cong) (simp_all add: strees_def)
  then show ?thesis using assms(2,3) by (auto simp: set_tcf set_tcf_def count_settled of_ok_def sview_def bview_def lview_def split: option.splits)
next
  case (change_class arg rq E i parentid)
  then show ?thesis using change_class_ok [OF assms(2,3) change_class(2,3)] by simp
next
  case (delete c E lq time)
  then show ?thesis using delete_ok [OF assms(2,3)] by simp
qed

lemma reach_settled: "htb_reach q \<Longrightarrow> settled q \<and> of_ok q"
  by (induction rule: htb_reach.induct) (simp_all add: init_settled step_settled)

section \<open>What reachability gives\<close>

lemma settled_trees:
  assumes "settled q"
  shows "c \<in> set (feed (cls q p) r) \<longleftrightarrow> parent (cls q c) = Some p \<and> cmode (cls q c) = HTB_MAY_BORROW \<and> bit (prio_activity (cls q c)) r"
    "c \<in> set (row q l r) \<longleftrightarrow> level (cls q c) = l \<and> cmode (cls q c) = HTB_CAN_SEND \<and> bit (prio_activity (cls q c)) r"
    "c \<in> set (wait_pq q l) \<longleftrightarrow> c \<in> set (clhash q) \<and> level (cls q c) = l \<and> cmode (cls q c) \<noteq> HTB_CAN_SEND"
    "bit (row_mask q l) r \<longleftrightarrow> row q l r \<noteq> []"
    "level (cls q p) \<noteq> 0 \<Longrightarrow> bit (prio_activity (cls q p)) r \<longleftrightarrow> feed (cls q p) r \<noteq> []"
    "distinct (row q l r)" "sorted_wrt (\<lambda>c d. pq_key (cls q c) \<le> pq_key (cls q d)) (wait_pq q l)"
    "iptr (cls q p) r = Some c \<Longrightarrow> c \<in> set (feed (cls q p) r)" "rptr q l r = Some c \<Longrightarrow> c \<in> set (row q l r)" "faults q = 0"
proof -
  have s: "linked_ok (attached q) q" "act_ok q" "waits_ok (waiting q) q"
    using assms by (simp_all add: settled_def base_ok_def)
  show "c \<in> set (feed (cls q p) r) \<longleftrightarrow> parent (cls q c) = Some p \<and> cmode (cls q c) = HTB_MAY_BORROW \<and> bit (prio_activity (cls q c)) r"
    "iptr (cls q p) r = Some c \<Longrightarrow> c \<in> set (feed (cls q p) r)"
    using linked_feed [OF s(1), of p r] unfolding tree_ok_def by (simp_all add: in_feed_def attached_def) blast
  show "c \<in> set (row q l r) \<longleftrightarrow> level (cls q c) = l \<and> cmode (cls q c) = HTB_CAN_SEND \<and> bit (prio_activity (cls q c)) r"
    "distinct (row q l r)" "rptr q l r = Some c \<Longrightarrow> c \<in> set (row q l r)"
    using linked_row [OF s(1), of l r] unfolding tree_ok_def by (simp_all add: in_row_def attached_def) blast
  show "c \<in> set (wait_pq q l) \<longleftrightarrow> c \<in> set (clhash q) \<and> level (cls q c) = l \<and> cmode (cls q c) \<noteq> HTB_CAN_SEND"
    "sorted_wrt (\<lambda>c d. pq_key (cls q c) \<le> pq_key (cls q d)) (wait_pq q l)"
    using s(3) unfolding waits_ok_def by (auto simp: waiting_def keys_def)
  show "level (cls q p) \<noteq> 0 \<Longrightarrow> bit (prio_activity (cls q p)) r \<longleftrightarrow> feed (cls q p) r \<noteq> []"
    using s(2) unfolding act_ok_def by metis
  show "bit (row_mask q l) r \<longleftrightarrow> row q l r \<noteq> []" by (rule linked_mask [OF s(1)])
  show "faults q = 0" using assms by (simp add: settled_def)
qed

end
