(* ===== verification/HtbExample.thy ===== *)
theory HtbExample
  imports HtbReach
begin

text \<open>
  A concrete scheduler of one class, run through the operations of the model: an overflow with its drain,
  and a packet that is dequeued from the tree and throttles its class.
\<close>

section \<open>A small scheduler\<close>

text \<open>
  One class \<open>1:1\<close> with a leaf queue of a single packet under the qdisc \<open>1:0\<close>; packets with the priority
  \<open>1:1\<close> go to the class, those with \<open>1:0\<close> to the direct queue.
\<close>

definition unit_env :: "skb list htb_env" where
  "unit_env = \<lparr>htb_hysteresis = False, qdisc_l2t = (\<lambda>_ n. n), psched_tdiff_bounded = (\<lambda>a b k. min (a - b) k),
    PSCHED_TICKS_PER_SEC = 1000, leaf_enqueue = (\<lambda>s x. if x = [] then (NET_XMIT_SUCCESS, [s]) else (NET_XMIT_DROP, x)),
    leaf_dequeue = (\<lambda>x. case x of [] \<Rightarrow> (None, []) | s # ss \<Rightarrow> (Some s, ss)),
    leaf_drop = (\<lambda>x. case x of [] \<Rightarrow> (0, []) | s # ss \<Rightarrow> (1, ss)), leaf_reset = (\<lambda>_. []), leaf_qlen = length,
    tc_classify = (\<lambda>_ _. (- 1, None, 0)), notifies = (\<lambda>_. False)\<rparr>"

definition unit_opt :: htb_opt where
  "unit_opt = \<lparr>o_buffer = 100, o_cbuffer = 100, o_quantum = 1000, o_prio = 0\<rparr>"

definition unit_class :: "skb list htb_class" where
  "unit_class = fresh_class unit_env 0x10001 None unit_opt [] 0"

definition unit_init :: "skb list htb_sched" where
  "unit_init = projr (htb_init (\<lambda>_. unit_class) 0x10000 True 0
    (Some \<lparr>g_version = 3, g_rate2quantum = 10, g_defcls = 0\<rparr>) 0 2)"

definition unit_req :: "skb list htb_req" where
  "unit_req = \<lparr>opt_given = True, parse_err = 0, parms = Some unit_opt, rtab = Some (0, 1000), ctab = Some 0, allocated = Some 1,
    rate_given = False, est_err = 0, new_q = [], req_time = 0\<rparr>"

definition unit_skb :: "nat \<Rightarrow> u32 \<Rightarrow> skb" where
  "unit_skb i p = \<lparr>skb_id = i, priority = p, pkt_len = 10\<rparr>"

definition unit_sched :: "skb list htb_sched" where
  "unit_sched = snd (htb_change_class unit_env 0x10001 0xFFFFFFFF None unit_req unit_init)"

definition unit_send :: "nat \<Rightarrow> u32 \<Rightarrow> skb list htb_sched \<Rightarrow> skb list htb_sched" where
  "unit_send i p q = snd (the (htb_enqueue unit_env (unit_skb i p) q))"

lemma unit_queues: "leaf_queues unit_env"
  by unfold_locales (auto simp: unit_env_def NET_XMIT_SUCCESS_def NET_XMIT_DROP_def split: if_splits list.splits)

lemma unit_filters: "filters_ok unit_env q"
  by (simp add: filters_ok_def unit_env_def)

lemma unit_init_eq:
  "htb_init (\<lambda>_. unit_class) 0x10000 True 0 (Some \<lparr>g_version = 3, g_rate2quantum = 10, g_defcls = 0\<rparr>) 0 2 = Inr unit_init"
  by (simp add: unit_init_def htb_init_def HTB_VER_def drop_bit_eq_div)

lemma unit_init_reach: "htb_reach unit_init"
  by (rule htb_reach.init [OF _ unit_init_eq]) (simp add: blank_ok_def unit_class_def fresh_class_def)

lemma unit_sched_reach: "htb_reach unit_sched"
  unfolding unit_sched_def
  by (rule htb_reach.step [OF unit_init_reach], rule htb_step.change_class)
    (simp_all add: request_ok_def prio_in_range_def unit_req_def unit_init_def unit_opt_def htb_init_def HTB_VER_def drop_bit_eq_div)

text \<open>The class is there, and sends without filters.\<close>

definition unit_view :: "skb list htb_sched \<Rightarrow> bool" where
  "unit_view q \<longleftrightarrow> clhash q = [1] \<and> handle q = 0x10000 \<and> classid (cls q 1) = 0x10001 \<and> level (cls q 1) = 0"

lemma unit_sched_view: "unit_view unit_sched" "leaf_q (cls unit_sched 1) = []" "qlen unit_sched = 0" "ofbuf unit_sched = []"
    "direct_queue unit_sched = []" "direct_qlen unit_sched = 2" "prio_activity (cls unit_sched 1) = 0" "cmode (cls unit_sched 1) = HTB_CAN_SEND"
    "buffer (cls unit_sched 1) = 100"
  by (simp_all add: unit_view_def unit_sched_def htb_change_class_def unit_req_def unit_init_def unit_opt_def htb_init_def
    HTB_VER_def drop_bit_eq_div htb_find_def too_deep_def insert_class_def set_params_def fresh_class_def upd_def Let_def)

lemma unit_classify:
  assumes "unit_view q"
  shows "htb_classify unit_env (unit_skb i 0x10001) q = Some (Leaf_class 1)" "htb_classify unit_env (unit_skb i 0x10000) q = Some HTB_DIRECT"
  using assms by (simp_all add: unit_view_def htb_classify_def unit_skb_def htb_find_def)

lemma unit_send_class:
  assumes "unit_view q"
  shows "unit_send i 0x10001 q = leaf_enqueue_in unit_env (unit_skb i 0x10001) 1 q"
    "htb_enqueue unit_env (unit_skb i 0x10001) q = Some (NET_XMIT_SUCCESS, unit_send i 0x10001 q)"
  by (simp_all add: unit_send_def htb_enqueue_def unit_classify [OF assms])

lemma unit_send_direct:
  assumes "unit_view q"
  shows "unit_send i 0x10000 q = snd (direct_enqueue (unit_skb i 0x10000) q)"
    "htb_enqueue unit_env (unit_skb i 0x10000) q = Some (direct_enqueue (unit_skb i 0x10000) q)"
  by (simp_all add: unit_send_def htb_enqueue_def unit_classify [OF assms])

text \<open>The class takes the first packet; the second one overflows; the third one is a direct packet.\<close>

definition unit_one :: "skb list htb_sched" where
  "unit_one = unit_send 1 0x10001 unit_sched"

definition unit_two :: "skb list htb_sched" where
  "unit_two = unit_send 2 0x10001 unit_one"

definition unit_three :: "skb list htb_sched" where
  "unit_three = unit_send 3 0x10000 unit_two"

lemma prios_of_1: "prios_of 1 = [0]"
proof -
  have "sorted (prios_of 1)" "distinct (prios_of 1)" "set (prios_of 1) = {0}"
    by (auto simp: prios_of_def bit_1_iff intro!: sorted_filter [of "\<lambda>x. x", simplified])
  then show ?thesis using sorted_distinct_set_unique [of "prios_of 1" "[0]"] by simp
qed

lemma activate_free_class:
  assumes "prio_activity (cls q c) = 0" "prio (cls q c) = 0" "cmode (cls q c) = HTB_CAN_SEND" "level (cls q c) = 0"
  shows "htb_activate c q =
    (let q = add_to_row 0 c 0 (upd c (\<lambda>x. x\<lparr>prio_activity := 1\<rparr>) q\<lparr>row_mask := (row_mask q)(0 := row_mask q 0 OR 1)\<rparr>)
     in q\<lparr>drops := (drops q)(0 := drops q 0 @ [c])\<rparr>)"
proof -
  have loop: "activate_loop TC_HTB_MAXDEPTH c m x = htb_add_class_to_row c m x"
    if "cmode (cls x c) = HTB_CAN_SEND" "m \<noteq> 0" for m and x :: "'a htb_sched"
  proof -
    have "TC_HTB_MAXDEPTH = Suc 7" by simp
    then show ?thesis using that by (simp only: activate_loop.simps) simp
  qed
  show ?thesis
    using assms by (simp add: htb_activate_def htb_activate_prios_def loop htb_add_class_to_row_def for_prios_fold prios_of_1
      add_to_row_def upd_def prio_bit_def Let_def)
qed

lemma unit_one_view: "unit_view unit_one" "leaf_q (cls unit_one 1) = [unit_skb 1 0x10001]" "qlen unit_one = 1" "ofbuf unit_one = []"
    "ofbuf_queued unit_one = 0"
    "direct_queue unit_one = []" "direct_qlen unit_one = 2" "prio_activity (cls unit_one 1) = 1" "row unit_one 0 0 = [1]"
    "cmode (cls unit_one 1) = HTB_CAN_SEND"
  unfolding unit_one_def unit_send_class(1) [OF unit_sched_view(1)]
  by (simp_all add: leaf_enqueue_in_def unit_view_def unit_sched_def htb_change_class_def unit_req_def unit_init_def unit_opt_def htb_init_def
    HTB_VER_def drop_bit_eq_div htb_find_def too_deep_def insert_class_def set_params_def fresh_class_def upd_def Let_def
    unit_env_def skb_get_def qlen_incr_def kfree_skb_def bstats_update_def activate_free_class htb_add_to_id_tree_def add_to_row_def link_before_def)

lemma unit_two_view: "unit_view unit_two" "leaf_q (cls unit_two 1) = [unit_skb 1 0x10001]" "qlen unit_two = 2"
    "ofbuf unit_two = [unit_skb 2 0x10001]" "ofbuf_queued unit_two = 1" "direct_queue unit_two = []" "direct_qlen unit_two = 2"
  using unit_one_view
  unfolding unit_two_def unit_send_class(1) [OF unit_one_view(1)]
  by (simp_all add: leaf_enqueue_in_def unit_view_def unit_env_def skb_get_def qlen_incr_def ofbuf_add_def upd_def Let_def
    NET_XMIT_SUCCESS_def NET_XMIT_DROP_def)

lemma unit_three_view: "unit_view unit_three" "leaf_q (cls unit_three 1) = [unit_skb 1 0x10001]" "qlen unit_three = 3"
    "ofbuf unit_three = [unit_skb 2 0x10001]" "ofbuf_queued unit_three = 1" "direct_queue unit_three = [unit_skb 3 0x10000]"
    "leaves unit_three = {1}"
  using unit_two_view
  unfolding unit_three_def unit_send_direct(1) [OF unit_two_view(1)]
  by (auto simp: direct_enqueue_def unit_view_def qlen_incr_def leaves_def)

lemma unit_reach: "htb_reach unit_one" "htb_reach unit_two" "htb_reach unit_three"
proof -
  show one: "htb_reach unit_one"
    using htb_reach.step [OF unit_sched_reach] htb_step.enqueue [OF unit_filters unit_send_class(2) [OF unit_sched_view(1)]]
    by (simp add: unit_one_def)
  show two: "htb_reach unit_two"
    using htb_reach.step [OF one] htb_step.enqueue [OF unit_filters unit_send_class(2) [OF unit_one_view(1)]] by (simp add: unit_two_def)
  show "htb_reach unit_three"
    using htb_reach.step [OF two] htb_step.enqueue [OF unit_filters, of "unit_skb 3 0x10000" unit_two]
      unit_send_direct [OF unit_two_view(1)] by (metis prod.collapse unit_three_def)
qed

text \<open>
  The direct packet leaves; the overflow packet is enqueued again, overflows again and is freed: three
  packets were counted, one has left, one is stored, and the counter says three.
\<close>

definition unit_requeued :: "skb list htb_sched" where
  "unit_requeued = leaf_enqueue_in unit_env (unit_skb 2 0x10001) 1
    (unit_three\<lparr>direct_queue := [], qlen := 2, ofbuf := []\<rparr>)"

lemma unit_requeued_view: "ofbuf unit_requeued = [unit_skb 2 0x10001]" "qlen unit_requeued = 3" "direct_queue unit_requeued = []"
    "clhash unit_requeued = [1]" "level (cls unit_requeued 1) = 0" "leaf_q (cls unit_requeued 1) = [unit_skb 1 0x10001]"
  using unit_three_view
  by (simp_all add: unit_requeued_def leaf_enqueue_in_def unit_view_def unit_env_def skb_get_def qlen_incr_def ofbuf_add_def upd_def
    Let_def NET_XMIT_SUCCESS_def NET_XMIT_DROP_def)

definition unit_four :: "skb list htb_sched" where
  "unit_four = (kfree_skb (unit_skb 2 0x10001) (unit_requeued\<lparr>ofbuf := []\<rparr>))\<lparr>ofbuf_queued := 0\<rparr>"

lemma unit_dequeue: "htb_dequeue unit_env 0 0 (\<lambda>_. 0) unit_three = Some (Some (unit_skb 3 0x10000), unit_four)"
proof -
  let ?q = "unit_three\<lparr>direct_queue := [], qlen := 2\<rparr>"
  have view: "unit_view (?q\<lparr>ofbuf := []\<rparr>)" using unit_three_view(1) by (simp add: unit_view_def)
  have e: "htb_enqueue unit_env (unit_skb 2 0x10001) (?q\<lparr>ofbuf := []\<rparr>) = Some (NET_XMIT_SUCCESS, unit_requeued)"
    by (simp add: htb_enqueue_def unit_classify(1) [OF view] unit_requeued_def)
  have "ofbuf_drain unit_env (0, 0) ?q = ofbuf_drain unit_env (0, 1) unit_requeued"
    by (subst ofbuf_drain.simps) (simp add: unit_three_view e)
  also have "\<dots> = ofbuf_drain unit_env (0, 2) (kfree_skb (unit_skb 2 0x10001) (unit_requeued\<lparr>ofbuf := []\<rparr>))"
    by (subst ofbuf_drain.simps) (simp add: unit_requeued_view numeral_2_eq_2)
  also have "\<dots> = Some (kfree_skb (unit_skb 2 0x10001) (unit_requeued\<lparr>ofbuf := []\<rparr>))"
    by (subst ofbuf_drain.simps) (simp add: kfree_skb_def)
  finally have "ofbuf_drain unit_env (0, 0) ?q = Some (kfree_skb (unit_skb 2 0x10001) (unit_requeued\<lparr>ofbuf := []\<rparr>))" .
  then show ?thesis
    by (simp add: htb_dequeue_def dequeue_done_def unit_three_view unit_four_def)
qed

lemma unit_leaves: "leaves unit_requeued = {1}"
  using unit_requeued_view by (auto simp: leaves_def)

lemma unit_excess: "excess unit_env unit_three = 0" "excess unit_env unit_four = 2"
  using unit_three_view unit_requeued_view unit_leaves
  by (simp_all add: excess_def stored_def backlog_def unit_four_def kfree_skb_def unit_env_def)

definition unit_burst :: "charge list" where
  "unit_burst = [(HTB_CAN_SEND, 5, 0, unit_skb 1 0), (HTB_CAN_SEND, 7, 0, unit_skb 2 0), (HTB_CAN_SEND, 9, 0, unit_skb 3 0)]"

definition unit_ready :: "skb list htb_class" where
  "unit_ready = set_params 10 unit_opt (0, 1000) 0 unit_class"

section \<open>A throttled class\<close>

lemma eight: "TC_HTB_MAXDEPTH = Suc 7"
  by simp

lemma lookup_single:
  assumes "row q l r = [c]" "rptr q l r = None" "rlast_ptr_id q l r = 0" "level (cls q c) = 0"
  shows "htb_lookup_leaf l r q = (Some c, clear_id r (Row_tree l) (set_ptr r (Row_tree l) (Some c) (clear_id r (Row_tree l) q)))"
proof -
  have "htb_lookup_loop (Suc (Suc n)) r [Row_tree l] q =
      (Some c, clear_id r (Row_tree l) (set_ptr r (Row_tree l) (Some c) (clear_id r (Row_tree l) q)))" for n
    using assms by (simp add: recover_ptr_def Let_def)
  from this [of 65533] show ?thesis using assms(1) by (simp add: htb_lookup_leaf_def)
qed

lemma deactivate_free_class:
  assumes "prio_activity (cls q c) = 1" "cmode (cls q c) = HTB_CAN_SEND" "level (cls q c) = 0" "node (cls q c) 0" "row q 0 0 = [c]"
  shows "htb_deactivate c q =
    (let q = snd (remove_row_prio 0 c 0 (0, q)); q = upd c (\<lambda>x. x\<lparr>prio_activity := 0\<rparr>) (q\<lparr>row_mask := (row_mask q)(0 := row_mask q 0 AND NOT 1)\<rparr>)
     in q\<lparr>drops := (\<lambda>r. removeAll c (drops q r))\<rparr>)"
proof -
  have loop: "deactivate_loop TC_HTB_MAXDEPTH c 1 q = htb_remove_class_from_row c 1 q"
    using assms(2) by (simp only: eight deactivate_loop.simps) simp
  have "fst (remove_row_prio 0 c 0 (0, q)) = 1"
    using assms(4,5) by (simp add: remove_row_prio_def erase_row_def upd_def prio_bit_def Let_def)
  then obtain q1 where "remove_row_prio 0 c 0 (0, q) = (1, q1)" by (metis prod.collapse)
  then show ?thesis
    using assms(1,3) by (simp add: htb_deactivate_def htb_deactivate_prios_def loop htb_remove_class_from_row_def for_prios_fold prios_of_1
      upd_def Let_def)
qed

lemma charge_tokens_class:
  "parent (charge_tokens E t lv s x) = parent x" "prio_activity (charge_tokens E t lv s x) = prio_activity x"
  "level (charge_tokens E t lv s x) = level x" "cmode (charge_tokens E t lv s x) = cmode x"
  by (simp_all add: charge_tokens_def htb_accnt_tokens_def htb_accnt_ctokens_def Let_def)

lemma charge_mode_throttle:
  assumes "prio_activity (cls q c) = 0" "cmode (cls q c) = HTB_CAN_SEND" "htb_class_mode E (cls q c) 0 = (HTB_CANT_SEND, w)"
  shows "charge_mode E c q = htb_add_to_wait_tree c w (set_cmode c HTB_CANT_SEND q)"
  using assms by (simp add: charge_mode_def htb_change_class_mode_def set_cmode_def upd_def)

lemma charge_single:
  fixes E :: "'q htb_env" and q :: "'q htb_sched" and lv :: nat and s :: skb and c :: cid
  assumes "parent (cls q c) = None" "prio_activity (cls q c) = 0" "level (cls q c) = 0" "cmode (cls q c) = HTB_CAN_SEND"
  defines "q1 \<equiv> upd c (charge_tokens E (now q) lv s) q"
  assumes w: "htb_class_mode E (cls q1 c) 0 = (HTB_CANT_SEND, w)"
  shows "htb_charge_class E c lv s q = htb_add_to_wait_tree c w (set_cmode c HTB_CANT_SEND q1)"
proof -
  have f: "prio_activity (cls q1 c) = 0" "cmode (cls q1 c) = HTB_CAN_SEND" "parent (cls q1 c) = None" "level (cls q1 c) = 0"
    using assms(1-4) by (simp_all add: q1_def upd_def charge_tokens_class)
  note m = charge_mode_throttle [OF f(1,2) w]
  define q2 where "q2 = charge_mode E c q1"
  have 2: "parent (cls q2 c) = None" "level (cls q2 c) = 0"
    using f(3,4) by (simp_all add: q2_def m htb_add_to_wait_tree_def set_cmode_def upd_def Let_def)
  have loop: "charge_loop E (Suc n) (Some c) lv s q = q2" for n
    using 2 by (simp only: charge_loop.simps Let_def q1_def [symmetric] q2_def [symmetric]) simp
  show ?thesis unfolding htb_charge_class_def eight loop q2_def m ..
qed

text \<open>A packet of 150 units throttles the class until the time 50.\<close>

definition unit_big :: skb where
  "unit_big = \<lparr>skb_id = 9, priority = 0x10001, pkt_len = 150\<rparr>"

definition unit_loaded :: "skb list htb_sched" where
  "unit_loaded = leaf_enqueue_in unit_env unit_big 1 unit_sched"

lemma unit_loaded_view: "leaf_q (cls unit_loaded 1) = [unit_big]" "qlen unit_loaded = 1" "ofbuf unit_loaded = []"
    "ofbuf_queued unit_loaded = 0" "direct_queue unit_loaded = []" "prio_activity (cls unit_loaded 1) = 1" "row unit_loaded 0 0 = [1]"
    "row_mask unit_loaded 0 = 1" "rptr unit_loaded 0 0 = None" "rlast_ptr_id unit_loaded 0 0 = 0" "wait_pq unit_loaded 0 = []"
    "near_ev_cache unit_loaded 0 = 0" "node (cls unit_loaded 1) 0" "quantum (cls unit_loaded 1) = 1000" "deficit (cls unit_loaded 1) 0 = 0"
    "cmode (cls unit_loaded 1) = HTB_CAN_SEND" "level (cls unit_loaded 1) = 0" "parent (cls unit_loaded 1) = None"
    "tokens (cls unit_loaded 1) = 100" "ctokens (cls unit_loaded 1) = 100" "buffer (cls unit_loaded 1) = 100" "cbuffer (cls unit_loaded 1) = 100"
    "mbuffer (cls unit_loaded 1) = 60000" "t_c (cls unit_loaded 1) = 0" "clhash unit_loaded = [1]"
  unfolding unit_loaded_def
  by (simp_all add: leaf_enqueue_in_def unit_view_def unit_sched_def htb_change_class_def unit_req_def unit_init_def unit_opt_def htb_init_def
    HTB_VER_def drop_bit_eq_div htb_find_def too_deep_def insert_class_def set_params_def fresh_class_def upd_def Let_def
    unit_env_def skb_get_def qlen_incr_def kfree_skb_def bstats_update_def activate_free_class htb_add_to_id_tree_def add_to_row_def link_before_def
    clamp_quantum_def)

lemma unit_loaded_reach: "htb_reach unit_loaded"
proof -
  have "htb_enqueue unit_env unit_big unit_sched = Some (NET_XMIT_SUCCESS, unit_loaded)"
    using unit_sched_view(1) by (simp add: htb_enqueue_def htb_classify_def unit_view_def unit_big_def htb_find_def unit_loaded_def)
  then show ?thesis by (rule htb_reach.step [OF unit_sched_reach htb_step.enqueue [OF unit_filters]])
qed

lemma scan_first:
  assumes "leaf_qlen E (leaf_q (cls q c)) \<noteq> 0" "leaf_dequeue E (leaf_q (cls q c)) = (Some s, lq)"
  shows "htb_scan E lr (start, Some c) q = Some (Some (s, c), upd c (\<lambda>x. x\<lparr>leaf_q := lq\<rparr>) q)"
  using assms by (subst htb_scan.simps) (simp add: Let_def)

definition unit_scanned :: "skb list htb_sched" where
  "unit_scanned =
    upd 1 (\<lambda>x. x\<lparr>leaf_q := []\<rparr>) (clear_id 0 (Row_tree 0) (set_ptr 0 (Row_tree 0) (Some 1) (clear_id 0 (Row_tree 0)
      (unit_loaded\<lparr>now := 0, near_ev_cache := (near_ev_cache unit_loaded)(0 := 1000)\<rparr>))))"

definition unit_paid :: "skb list htb_sched" where
  "unit_paid = htb_deactivate 1 (advance_ptr 0 0 1 (upd 1 (\<lambda>x. x\<lparr>deficit := (deficit x)(0 := 850)\<rparr>) unit_scanned))"

definition unit_throttled :: "skb list htb_sched" where
  "unit_throttled =
    htb_add_to_wait_tree 1 50 (set_cmode 1 HTB_CANT_SEND (upd 1 (charge_tokens unit_env 0 0 unit_big) unit_paid))"

lemma unit_paid_view: "now unit_paid = 0" "parent (cls unit_paid 1) = None" "prio_activity (cls unit_paid 1) = 0" "level (cls unit_paid 1) = 0"
    "cmode (cls unit_paid 1) = HTB_CAN_SEND" "tokens (cls unit_paid 1) = 100" "ctokens (cls unit_paid 1) = 100"
    "buffer (cls unit_paid 1) = 100" "cbuffer (cls unit_paid 1) = 100" "mbuffer (cls unit_paid 1) = 60000" "t_c (cls unit_paid 1) = 0"
    "wait_pq unit_paid 0 = []" "qlen unit_paid = 1" "ofbuf_queued unit_paid = 0" "clhash unit_paid = [1]" "near_ev_cache unit_paid 0 = 1000"
  using unit_loaded_view
  by (simp_all add: unit_paid_def unit_scanned_def advance_ptr_def leaf_loc_def htb_next_rb_node_def upd_def Let_def
    deactivate_free_class remove_row_prio_def erase_row_def)

lemma unit_take: "htb_take unit_env 0 0 unit_big 1 unit_scanned = unit_throttled"
proof -
  have d: "deficit (cls unit_scanned 1) 0 = 0" "quantum (cls unit_scanned 1) = 1000" "leaf_q (cls unit_scanned 1) = []"
    using unit_loaded_view by (simp_all add: unit_scanned_def upd_def)
  have e: "upd 1 (\<lambda>x. x\<lparr>deficit := (deficit x)(0 := deficit x 0 + quantum x)\<rparr>)
      (upd 1 (\<lambda>x. x\<lparr>deficit := (deficit x)(0 := deficit x 0 - pkt_len unit_big)\<rparr>) unit_scanned) =
    upd 1 (\<lambda>x. x\<lparr>deficit := (deficit x)(0 := 850)\<rparr>) unit_scanned"
    using d by (simp add: upd_def unit_big_def)
  define q1 where "q1 = advance_ptr 0 0 1 (upd 1 (\<lambda>x. x\<lparr>deficit := (deficit x)(0 := 850)\<rparr>) unit_scanned)"
  have "leaf_q (cls q1 1) = []"
    using d(3) by (simp add: q1_def advance_ptr_def upd_def leaf_loc_def fault_def Let_def)
  then have l: "leaf_qlen unit_env (leaf_q (cls q1 1)) = 0" by (simp add: unit_env_def)
  have n: "deficit (cls (upd 1 (\<lambda>x. x\<lparr>deficit := (deficit x)(0 := deficit x 0 - pkt_len unit_big)\<rparr>) unit_scanned) 1) 0 < 0"
    using d(1) by (simp add: upd_def unit_big_def)
  have "htb_take unit_env 0 0 unit_big 1 unit_scanned = htb_charge_class unit_env 1 0 unit_big unit_paid"
    unfolding htb_take_def Let_def if_P [OF n] e q1_def [symmetric] if_P [OF l] unit_paid_def ..
  also have "\<dots> = unit_throttled"
    unfolding unit_throttled_def
    by (subst charge_single) (use unit_paid_view in \<open>simp_all add: upd_def charge_tokens_def htb_accnt_tokens_def htb_accnt_ctokens_def
      unit_env_def htb_class_mode_def htb_lowater_def Let_def unit_big_def\<close>)
  finally show ?thesis .
qed

definition unit_checked :: "skb list htb_sched" where
  "unit_checked = unit_loaded\<lparr>now := 0, near_ev_cache := (near_ev_cache unit_loaded)(0 := 1000)\<rparr>"

lemma unit_checked_view: "row unit_checked 0 0 = [1]" "row_mask unit_checked 0 = 1" "rptr unit_checked 0 0 = None"
    "rlast_ptr_id unit_checked 0 0 = 0" "level (cls unit_checked 1) = 0"
  using unit_loaded_view by (simp_all add: unit_checked_def)

lemma unit_dequeue_tree: "htb_dequeue_tree unit_env 0 0 unit_checked = Some (Some unit_big, unit_throttled)"
proof -
  define q1 where "q1 = clear_id 0 (Row_tree 0) (set_ptr 0 (Row_tree 0) (Some 1) (clear_id 0 (Row_tree 0) unit_checked))"
  have "htb_lookup_leaf 0 0 unit_checked = (Some 1, q1)"
    unfolding q1_def by (rule lookup_single) (rule unit_checked_view)+
  moreover have "htb_scan unit_env (0, 0) (Some 1, Some 1) q1 = Some (Some (unit_big, 1), unit_scanned)"
    unfolding unit_scanned_def unit_checked_def [symmetric] q1_def [symmetric]
    by (rule scan_first) (use unit_loaded_view(1) in \<open>simp_all add: q1_def unit_checked_def unit_env_def\<close>)
  ultimately show ?thesis by (simp add: htb_dequeue_tree_def unit_take [simplified])
qed

lemma unit_throttled_view: "cmode (cls unit_throttled 1) = HTB_CANT_SEND" "wait_pq unit_throttled 0 = [1]" "pq_key (cls unit_throttled 1) = 50"
    "ctokens (cls unit_throttled 1) = - 50" "tokens (cls unit_throttled 1) = - 50" "buffer (cls unit_throttled 1) = 100"
    "cbuffer (cls unit_throttled 1) = 100" "clhash unit_throttled = [1]" "ofbuf_queued unit_throttled = 0" "qlen unit_throttled = 1"
  using unit_paid_view
  by (simp_all add: unit_throttled_def htb_add_to_wait_tree_def set_cmode_def charge_tokens_def htb_accnt_tokens_def htb_accnt_ctokens_def upd_def
    unit_env_def unit_big_def Let_def link_before_def)

lemma unit_dequeue_big:
  "htb_dequeue unit_env 0 0 (\<lambda>_. 1) unit_loaded = Some (Some unit_big, unit_throttled\<lparr>qlen := 0\<rparr>)"
proof -
  have ev: "level_events unit_env 1 0 (unit_loaded\<lparr>now := 0\<rparr>) = (1000, unit_checked)"
    using unit_loaded_view by (simp add: level_events_def unit_checked_def unit_env_def)
  have "dequeue_prios unit_env 0 (prios_of (row_mask unit_checked 0)) unit_checked = Some (Some unit_big, unit_throttled)"
    by (simp add: unit_checked_view(2) prios_of_1 unit_dequeue_tree)
  then have "dequeue_levels unit_env (\<lambda>_. 1) (0 # ls) (n, unit_loaded\<lparr>now := 0\<rparr>) = Some (Some unit_big, min n 1000, unit_throttled)" for ls n
    using ev by simp
  moreover have "[0..<TC_HTB_MAXDEPTH] = 0 # [1..<TC_HTB_MAXDEPTH]" using upt_conv_Cons [of 0 TC_HTB_MAXDEPTH] by simp
  ultimately show ?thesis
    using unit_loaded_view by (simp add: htb_dequeue_def dequeue_done_def unit_throttled_view)
qed

section \<open>A filter that leads back to its class\<close>

text \<open>Class \<open>1:1\<close> gets a child \<open>1:2\<close>, and the filter 1, which selects \<open>1:1\<close>, at the root and at \<open>1:1\<close> itself.\<close>

definition unit_parent :: "skb list htb_sched" where
  "unit_parent = snd (htb_change_class unit_env 0x10002 0x10001 None (unit_req\<lparr>allocated := Some 2\<rparr>) unit_sched)"

definition unit_loop :: "skb list htb_sched" where
  "unit_loop = set_tcf (Some 1) (Some 1) (set_tcf None (Some 1) unit_parent)"

definition loop_env :: "skb list htb_env" where
  "loop_env = unit_env\<lparr>tc_classify := (\<lambda>_ _. (0, Some 1, 0))\<rparr>"

lemma unit_parent_view: "handle unit_parent = 0x10000" "clhash unit_parent = [2, 1]" "level (cls unit_parent 1) = 7"
    "level (cls unit_parent 2) = 0" "classid (cls unit_parent 1) = 0x10001" "classid (cls unit_parent 2) = 0x10002"
  by (simp_all add: unit_parent_def unit_sched_def htb_change_class_def unit_req_def unit_init_def unit_opt_def htb_init_def
    HTB_VER_def drop_bit_eq_div htb_find_def too_deep_def insert_class_def set_params_def fresh_class_def parent_to_inner_def
    memset_inner_def qdisc_tree_decrease_qlen_def unit_env_def upd_def Let_def)

lemma unit_loop_reach: "htb_reach unit_loop"
proof -
  have "clhash unit_sched = [1]" using unit_sched_view(1) by (simp add: unit_view_def)
  then have "htb_step unit_sched unit_parent"
    unfolding unit_parent_def by (intro htb_step.change_class) (simp_all add: request_ok_def prio_in_range_def unit_req_def unit_opt_def)
  then show ?thesis
    unfolding unit_loop_def using unit_sched_reach htb_reach.step htb_step.set_tcf by metis
qed

end
