(* ===== verification/HtbReturn.thy ===== *)
theory HtbReturn
  imports HtbQueue
begin

text \<open>
  Enqueueing and dequeueing return.  The loops of \<open>sch_htb.c\<close> without a bound of their own are the filter
  chain of \<open>htb_classify\<close>, the scan of \<open>htb_dequeue_tree\<close> and the drain of the overflow buffer.  The filter
  chain ends if the filters are ordered and runs for ever if a filter leads back to its own class; the scan
  deactivates a leaf in every round that delivers nothing; the drain enqueues one packet only.
\<close>

section \<open>Filter chains\<close>

text \<open>A filter that selects an inner class has a larger number than the filters of that class.\<close>

definition filters_ordered :: "'q htb_env \<Rightarrow> 'q htb_sched \<Rightarrow> bool" where
  "filters_ordered E q \<longleftrightarrow> (\<forall>s f v cl i c g. tc_classify E s f = (v, cl, i) \<longrightarrow> 0 \<le> v \<longrightarrow>
    (if cl = None then htb_find i q else cl) = Some c \<longrightarrow> level (cls q c) \<noteq> 0 \<longrightarrow> cfilter_list (cls q c) = Some g \<longrightarrow> g < f)"

lemma same_filters_ordered:
  assumes "same_filters q q'"
  shows "filters_ordered E q' = filters_ordered E q"
proof -
  have "htb_find i q' = htb_find i q" for i using assms by (simp add: htb_find_def same_filters_def)
  then show ?thesis using assms by (simp add: filters_ordered_def same_filters_def)
qed

lemma same_filters_ok: "same_filters q q' \<Longrightarrow> filters_ok E q' = filters_ok E q"
  by (simp add: filters_ok_def same_filters_def)

lemma filter_loop_returns:
  assumes "filters_ordered E q"
  shows "htb_filter_loop E s q tcf \<noteq> None"
proof (induction "case tcf of None \<Rightarrow> 0 | Some f \<Rightarrow> Suc f" arbitrary: tcf rule: less_induct)
  case less
  show ?case
  proof (cases tcf)
    case None
    then show ?thesis by (subst htb_filter_loop.simps) simp
  next
    case (Some f)
    obtain v cl i where t: "tc_classify E s f = (v, cl, i)" by (cases "tc_classify E s f")
    have "htb_filter_loop E s q (cfilter_list (cls q c)) \<noteq> None"
      if "0 \<le> v" "(if cl = None then htb_find i q else cl) = Some c" "level (cls q c) \<noteq> 0" for c
      using that t assms less unfolding Some filters_ordered_def by (cases "cfilter_list (cls q c)") auto
    then show ?thesis unfolding Some by (subst htb_filter_loop.simps) (auto simp: t Let_def split: option.splits if_splits)
  qed
qed

lemma classify_returns: "filters_ordered E q \<Longrightarrow> htb_classify E s q \<noteq> None"
  using filter_loop_returns [of E q s "filter_list q"] by (auto simp: htb_classify_def)

lemma enqueue_returns:
  assumes "filters_ordered E q"
  obtains ret q' where "htb_enqueue E s q = Some (ret, q')"
proof -
  have "htb_enqueue E s q \<noteq> None" using classify_returns [OF assms, of s] by (auto simp: htb_enqueue_def)
  then show thesis using that by auto
qed

text \<open>A filter that hands the packet on to an inner class.\<close>

definition hands_on :: "'q htb_env \<Rightarrow> skb \<Rightarrow> 'q htb_sched \<Rightarrow> nat \<Rightarrow> cid \<Rightarrow> bool" where
  "hands_on E s q f c \<longleftrightarrow> (case tc_classify E s f of (v, cl, i) \<Rightarrow>
    0 \<le> v \<and> v \<notin> {TC_ACT_QUEUED, TC_ACT_STOLEN, TC_ACT_SHOT} \<and> cl = Some c \<and> level (cls q c) \<noteq> 0)"

lemma filter_loop_step: "hands_on E s q f c \<Longrightarrow> htb_filter_loop E s q (Some f) = htb_filter_loop E s q (cfilter_list (cls q c))"
  by (subst htb_filter_loop.simps) (auto simp: hands_on_def Let_def)

lemma filter_loop_cycle:
  assumes "htb_filter_loop E s q tcf = Some y" "tcf = Some f" "hands_on E s q f c" "cfilter_list (cls q c) = Some f"
  shows False
  using assms
proof (induct arbitrary: rule: htb_filter_loop.raw_induct [rotated, consumes 1, case_names step])
  case (step loop E s q tcf y)
  then have "loop E s q (Some f) = Some y" by (auto simp: hands_on_def Let_def)
  then show ?case using step(1) step(4,5) by blast
qed

text \<open>
  The root filter hands a packet without a leaf of its own on to an inner class, whose filter selects the class again.
\<close>

definition filter_cycle :: "'q htb_env \<Rightarrow> skb \<Rightarrow> 'q htb_sched \<Rightarrow> bool" where
  "filter_cycle E s q \<longleftrightarrow> priority s \<noteq> handle q \<and> (\<forall>d. htb_find (priority s) q = Some d \<longrightarrow> level (cls q d) \<noteq> 0) \<and>
    (\<exists>f c g. filter_list q = Some f \<and> hands_on E s q f c \<and> cfilter_list (cls q c) = Some g \<and> hands_on E s q g c)"

lemma enqueue_cycle:
  assumes "filter_cycle E s q"
  shows "htb_enqueue E s q = None"
proof -
  obtain f c g where f: "filter_list q = Some f" "hands_on E s q f c" "cfilter_list (cls q c) = Some g" "hands_on E s q g c"
    using assms by (auto simp: filter_cycle_def)
  have "htb_filter_loop E s q (Some g) = None"
    using filter_loop_cycle [OF _ refl f(4,3)] by (cases "htb_filter_loop E s q (Some g)") blast+
  then have "htb_filter_loop E s q (filter_list q) = None" using filter_loop_step [OF f(2)] f(1,3) by simp
  then show ?thesis using assms by (auto simp: filter_cycle_def htb_enqueue_def htb_classify_def)
qed

section \<open>The scan\<close>

text \<open>A leaf that has packets delivers one: the leaf qdiscs do not shape traffic themselves.\<close>

definition work_conserving :: "'q htb_env \<Rightarrow> bool" where
  "work_conserving E \<longleftrightarrow> (\<forall>x. leaf_qlen E x \<noteq> 0 \<longrightarrow> fst (leaf_dequeue E x) \<noteq> None)"

definition active_leaves :: "'q htb_sched \<Rightarrow> cid set" where
  "active_leaves q = {c \<in> leaves q. prio_activity (cls q c) \<noteq> 0}"

lemma finite_active [simp]: "finite (active_leaves q)"
  by (simp add: active_leaves_def)

lemma found_active:
  assumes "found_ok q l r c"
  shows "c \<in> active_leaves q"
proof -
  have "prio_activity (cls q c) \<noteq> 0" using assms by (auto simp: found_ok_def attached_def)
  then show ?thesis using found_leaf [OF assms] by (simp add: active_leaves_def)
qed

lemma deactivate_active:
  assumes "settled q" "c \<in> leaves q"
  shows "active_leaves (htb_deactivate c q) = active_leaves q - {c}"
proof -
  have "c \<in> set (clhash q)" "level (cls q c) = 0" using assms(2) by (simp_all add: leaves_def)
  note d = deactivate_ok [OF assms(1) this]
  have "prio_activity (cls (htb_deactivate c q) x) = (if x = c then 0 else prio_activity (cls q x))" if "x \<in> leaves q" for x
    using that d(3) d(5) [of x] by (simp add: leaves_def)
  then show ?thesis by (auto simp: active_leaves_def same_queues_counts(1) [OF d(2)] split: if_splits)
qed

lemma moved_active: "moved q q' \<Longrightarrow> active_leaves q' = active_leaves q"
  by (simp add: active_leaves_def leaves_def moved_classes moved_fields)

lemma scan_returns:
  assumes "scan_pre lr sc q" "work_conserving E"
  shows "htb_scan E lr sc q \<noteq> None"
  using assms(1)
proof (induction "card (active_leaves q)" arbitrary: q sc rule: less_induct)
  case less
  obtain l r where lr: "lr = (l, r)" by (cases lr)
  obtain start cl where sc: "sc = (start, cl)" by (cases sc)
  show ?case
  proof (cases cl)
    case None
    then show ?thesis by (subst htb_scan.simps) (simp add: sc)
  next
    case (Some c)
    have pre: "scan_pre (l, r) (start, Some c) q" using less.prems by (simp add: lr sc Some)
    then have s: "settled q" and f: "found_ok q l r c" and l: "l < TC_HTB_MAXDEPTH" by (simp_all add: scan_pre_def)
    show ?thesis
    proof (cases "leaf_qlen E (leaf_q (cls q c)) = 0")
      case True
      let ?q1 = "htb_deactivate c q"
      have s1: "settled ?q1" using deactivate_ok(1) [OF s] f by (simp add: found_ok_def)
      obtain nxt q2 where lk: "htb_lookup_leaf l r ?q1 = (nxt, q2)" by (cases "htb_lookup_leaf l r ?q1")
      have "htb_scan E lr (start', nxt) q2 \<noteq> None" if b: "bit (row_mask ?q1 l) r" for start'
      proof (rule less.hyps)
        have ne: "row ?q1 l r \<noteq> []" using b linked_mask [OF settled_linked [OF s1]] by blast
        have "active_leaves q2 = active_leaves q - {c}"
          using moved_active [OF lookup_leaf_ok(2) [OF s1 ne l lk]] deactivate_active [OF s found_leaf [OF f]] by simp
        then show "card (active_leaves q2) < card (active_leaves q)"
          using found_active [OF f] by (simp add: card_Diff1_less del: card_Diff_insert)
        show "scan_pre lr (start', nxt) q2" using scan_empty(2) [OF pre b lk] by (simp add: lr)
      qed
      then show ?thesis using True lk by (subst htb_scan.simps) (simp add: lr sc Some Let_def)
    next
      case False
      then obtain s' lq where "leaf_dequeue E (leaf_q (cls q c)) = (Some s', lq)"
        using assms(2) unfolding work_conserving_def by (cases "leaf_dequeue E (leaf_q (cls q c))") fastforce
      then show ?thesis using False by (subst htb_scan.simps) (simp add: lr sc Some Let_def)
    qed
  qed
qed

section \<open>The drain\<close>

lemma drain_returns:
  assumes "settled q" "filters_ok E q" "filters_ordered E q"
  shows "ofbuf_drain E ri q \<noteq> None"
  using assms
proof (induction "length (ofbuf q) + (if snd ri \<le> fst ri then 1 else 0)" arbitrary: q ri rule: less_induct)
  case less
  show ?case
  proof (cases "ofbuf q")
    case Nil
    then show ?thesis by (subst ofbuf_drain.simps) simp
  next
    case (Cons pkt rest)
    define q1 where "q1 = q\<lparr>ofbuf := rest\<rparr>"
    have sf: "same_filters q q1" by (simp add: q1_def)
    then have 1: "settled q1" "filters_ok E q1" "filters_ordered E q1"
      using less.prems by (simp_all add: same_filters_ok same_filters_ordered) (simp add: q1_def)
    obtain ret q3 where e: "htb_enqueue E pkt q1 = Some (ret, q3)" using enqueue_returns [OF 1(3)] .
    define q2 where "q2 = (if snd ri = fst ri then q3 else kfree_skb pkt q1)"
    have en: "enqueued E pkt q1 q3" by (rule enqueue_ok [OF e 1(1,2)])
    have "same_filters q1 q2" using en by (simp add: q2_def enqueued_def kfree_skb_def)
    then have 2: "settled q2" "filters_ok E q2" "filters_ordered E q2" "length (ofbuf q2) \<le> length rest + (if snd ri = fst ri then 1 else 0)"
      using en 1 by (auto simp: same_filters_ok same_filters_ordered) (auto simp: q2_def enqueued_def kfree_skb_def q1_def)
    have "length (ofbuf q2) + (if Suc (snd ri) \<le> fst ri then 1 else 0) < length (ofbuf q) + (if snd ri \<le> fst ri then 1 else 0)"
      using 2(4) Cons by (auto split: if_splits)
    then have "ofbuf_drain E (fst ri, Suc (snd ri)) q2 \<noteq> None" using less.hyps [of q2 "(fst ri, Suc (snd ri))"] 2(1-3) by auto
    then show ?thesis
      using Cons e by (subst ofbuf_drain.simps) (auto simp: Let_def q1_def [symmetric] q2_def)
  qed
qed

section \<open>Dequeueing\<close>

lemma dequeue_tree_returns:
  assumes "settled q" "l < TC_HTB_MAXDEPTH" "row q l r \<noteq> []" "work_conserving E"
  obtains s q' where "htb_dequeue_tree E r l q = Some (s, q')"
proof -
  obtain cl q1 where lk: "htb_lookup_leaf l r q = (cl, q1)" by (cases "htb_lookup_leaf l r q")
  have "htb_scan E (l, r) (cl, cl) q1 \<noteq> None"
    using scan_returns [OF scan_pre_lookup(1) [OF assms(1-3) lk] assms(4)] .
  then have "htb_dequeue_tree E r l q \<noteq> None" using lk by (auto simp: htb_dequeue_tree_def)
  then show thesis using that by auto
qed

lemma dequeue_prios_returns:
  assumes "settled q" "l < TC_HTB_MAXDEPTH" "distinct rs" "\<forall>r\<in>set rs. row q l r \<noteq> []" "work_conserving E"
  shows "dequeue_prios E l rs q \<noteq> None"
  using assms(1,3,4)
proof (induction rs arbitrary: q)
  case (Cons r rs)
  have ne: "row q l r \<noteq> []" using Cons.prems by simp
  obtain s q1 where t: "htb_dequeue_tree E r l q = Some (s, q1)" using dequeue_tree_returns [OF Cons.prems(1) assms(2) ne assms(5)] .
  note dt = dequeue_tree_ok [OF t Cons.prems(1) assms(2) ne]
  have "dequeue_prios E l rs q1 \<noteq> None" if "s = None"
  proof (rule Cons.IH)
    show "settled q1" using dt(1) by (simp add: served_def)
    show "\<forall>r'\<in>set rs. row q1 l r' \<noteq> []"
    proof
      fix r' assume "r' \<in> set rs"
      then have "r' \<noteq> r" "row q l r' \<noteq> []" using Cons.prems by auto
      then show "row q1 l r' \<noteq> []" using dt(2) [OF that] by blast
    qed
  qed (use Cons.prems in simp)
  then show ?case by (cases s) (auto simp: t)
qed simp

lemma dequeue_levels_returns:
  assumes "settled q" "\<forall>l\<in>set ls. l < TC_HTB_MAXDEPTH" "work_conserving E"
  shows "dequeue_levels E budget ls (ev, q) \<noteq> None"
  using assms(1,2)
proof (induction ls arbitrary: ev q)
  case (Cons l ls)
  obtain e1 q1 where le: "level_events E (budget l) l q = (e1, q1)" by (cases "level_events E (budget l) l q")
  have 1: "settled q1" using level_events_ok(1) [OF Cons.prems(1), of E "budget l" l] le by auto
  let ?rs = "prios_of (row_mask q1 l)"
  have rs: "l < TC_HTB_MAXDEPTH" "distinct ?rs" "\<forall>r\<in>set ?rs. row q1 l r \<noteq> []"
    using Cons.prems linked_mask [OF settled_linked [OF 1]] by simp_all
  obtain s2 q2 where p: "dequeue_prios E l ?rs q1 = Some (s2, q2)" using dequeue_prios_returns [OF 1 rs assms(3)] by auto
  have "served E s2 q1 q2" by (rule dequeue_prios_ok [OF p 1 rs])
  then have "dequeue_levels E budget ls (ev', q2) \<noteq> None" for ev' using Cons.IH [of q2] Cons.prems(2) by (simp add: served_def)
  then show ?case by (cases s2) (auto simp: le p Let_def)
qed simp

lemma dequeue_done_returns:
  assumes "settled q" "filters_ok E q" "filters_ordered E q"
  shows "dequeue_done E random q \<noteq> None"
proof -
  let ?q = "q\<lparr>qlen := qlen q - 1\<rparr>"
  have sf: "same_filters q ?q" by simp
  then have "ofbuf_drain E ri ?q \<noteq> None" for ri
    using assms by (intro drain_returns) (simp_all add: same_filters_ok [OF sf] same_filters_ordered [OF sf])
  then show ?thesis by (simp add: dequeue_done_def Let_def)
qed

lemma dequeue_returns:
  assumes "settled q" "filters_ok E q" "filters_ordered E q" "work_conserving E"
  shows "htb_dequeue E time random budget q \<noteq> None"
proof -
  have dn: "dequeue_done E random q1 \<noteq> None" if "settled q1" "same_filters q q1" for q1
    using that assms by (intro dequeue_done_returns) (simp_all add: same_filters_ok same_filters_ordered)
  have direct: "dequeue_done E random (q\<lparr>direct_queue := d\<rparr>) \<noteq> None" for d using assms(1) by (intro dn) simp_all
  let ?q0 = "q\<lparr>now := time\<rparr>" and ?t = "time + 5 * PSCHED_TICKS_PER_SEC E"
  obtain s ev q1 where l: "dequeue_levels E budget [0..<TC_HTB_MAXDEPTH] (?t, ?q0) = Some (s, ev, q1)"
    using dequeue_levels_returns [of ?q0 "[0..<TC_HTB_MAXDEPTH]" E budget ?t] assms(1,4) by auto
  have sv: "served E s ?q0 q1" using dequeue_levels_ok [OF l] assms(1) by simp
  then have "same_filters ?q0 q1" by (simp add: served_def kept_def)
  then have "same_filters q q1" using same_filters_trans [of q ?q0] by simp
  then have "dequeue_done E random q1 \<noteq> None" using dn sv by (simp add: served_def)
  then show ?thesis using direct by (cases s) (auto simp: htb_dequeue_def l)
qed

end
