(* ===== verification/HtbProps.thy ===== *)
theory HtbProps
  imports HtbExample HtbReturn
begin

text \<open>The properties of the hierarchical token bucket scheduler, with their instances on the small scheduler.\<close>

section \<open>Properties\<close>

text \<open>
  C1: In every reachable scheduler (priorities below \<open>2^31\<close>) the trees hold exactly what they should: a class is in the feed tree of
  its parent for a priority exactly when it borrows and is active there, in a row exactly when it may send
  by itself and is active there, and in the wait queue of its level exactly when it is live and may not
  send; the wait queue is ordered by wake-up time, a row has no duplicates, the masks tell which trees are
  not empty and the round-robin pointers point into their trees.
\<close>

theorem htb_trees_exact:
  assumes "htb_reach q"
  shows "(c \<in> set (feed (cls q p) r) \<longleftrightarrow> parent (cls q c) = Some p \<and> cmode (cls q c) = HTB_MAY_BORROW \<and> bit (prio_activity (cls q c)) r) \<and>
    (c \<in> set (row q l r) \<longleftrightarrow> level (cls q c) = l \<and> cmode (cls q c) = HTB_CAN_SEND \<and> bit (prio_activity (cls q c)) r) \<and>
    (c \<in> set (wait_pq q l) \<longleftrightarrow> c \<in> set (clhash q) \<and> level (cls q c) = l \<and> cmode (cls q c) \<noteq> HTB_CAN_SEND) \<and>
    sorted_wrt (\<lambda>c d. pq_key (cls q c) \<le> pq_key (cls q d)) (wait_pq q l) \<and> distinct (row q l r) \<and>
    (bit (row_mask q l) r \<longleftrightarrow> row q l r \<noteq> []) \<and>
    (level (cls q p) \<noteq> 0 \<longrightarrow> bit (prio_activity (cls q p)) r = (feed (cls q p) r \<noteq> [])) \<and>
    (iptr (cls q p) r = Some c \<longrightarrow> c \<in> set (feed (cls q p) r)) \<and> (rptr q l r = Some c \<longrightarrow> c \<in> set (row q l r))"
  using settled_trees [of q] reach_settled [OF assms] by simp

text \<open>The class of the small scheduler with one packet is in the row of level 0 and priority 0.\<close>

theorem htb_trees_exact_witness:
  "row unit_one 0 0 = [1] \<and> bit (row_mask unit_one 0) 0 \<and> 1 \<notin> set (wait_pq unit_one 0) \<and> 1 \<notin> set (feed (cls unit_one 0) 0)"
  using htb_trees_exact [OF unit_reach(1), of 1 0 0 0] unit_one_view by simp

text \<open>
  C4: No reachable scheduler (priorities below \<open>2^31\<close>) has run into a fault: no node is erased from a tree it is not in, no empty tree
  is searched, no null pointer is stepped and the stack of eight trees in \<open>htb_lookup_leaf\<close> is not
  overrun, whatever the leaf qdiscs and filters return.
\<close>

theorem htb_never_faults:
  assumes "htb_reach q" "htb_step q q'"
  shows "faults q' = 0"
  using reach_settled [OF htb_reach.step [OF assms]] settled_trees(10) by blast

theorem htb_never_faults_witness: "faults unit_four = 0"
  by (rule htb_never_faults [OF unit_reach(3) htb_step.dequeue [OF unit_filters unit_dequeue]])

text \<open>
  C2: The counter \<open>sch->q.qlen\<close> against the packets that are really stored (in the direct queue, the leaves
  and the overflow buffer): enqueueing keeps the difference, and so does dequeueing while the overflow
  buffer is empty; a dequeueing that delivers a packet and drains \<open>n\<close> overflow packets raises the
  difference by \<open>n\<close> or \<open>n + 1\<close>: these packets stay counted although they are gone.
\<close>

theorem htb_ofbuf_leak:
  assumes "htb_reach q" "leaf_queues E" "filters_ok E q"
  shows "(htb_enqueue E s q = Some (ret, q1) \<longrightarrow> excess E q1 = excess E q) \<and>
    (htb_dequeue E time random budget q = Some (res, q2) \<longrightarrow>
      leak E (if res = None then 0 else length (ofbuf q)) (excess E q) (excess E q2))"
  using enqueue_ok [OF _ _ assms(3), of s ret q1] dequeue_ok(4) [OF _ _ assms(3), of time random budget res q2]
    reach_settled [OF assms(1)] assms(2) by (auto simp: enqueued_def)

theorem htb_ofbuf_leak_witness:
  "excess unit_env unit_three = 0 \<and> length (ofbuf unit_three) = 1 \<and> stored unit_env unit_four = 1 \<and> qlen unit_four = 3 \<and>
    leak unit_env 1 0 (excess unit_env unit_four)"
proof -
  have "leak unit_env 1 (excess unit_env unit_three) (excess unit_env unit_four)"
    using htb_ofbuf_leak [OF unit_reach(3) unit_queues unit_filters, of "unit_skb 1 0" 0 unit_three 0 0 "\<lambda>_. 0" "Some (unit_skb 3 0x10000)" unit_four]
      unit_dequeue unit_three_view(4) by simp
  moreover have "qlen unit_four = 3" by (simp add: unit_four_def unit_requeued_view kfree_skb_def)
  moreover from this have "stored unit_env unit_four = 1" using unit_excess(2) by (simp add: excess_def)
  ultimately show ?thesis using unit_excess unit_three_view(4) by simp
qed

text \<open>
  C6: The class hierarchy of every scheduler reached by requests with priorities below \<open>2^31\<close> is well formed: a
  live class lies on one of the eight levels, its parent is live and on a higher level, every priority it is active
  for is one of the eight, \<open>children\<close> is the number of its live children and it is a leaf (level 0) exactly when it
  has none.  Its own priority is below eight; a request that changes a leaf stores the requested priority cut to
  seven from above only, so that a priority of \<open>2^31\<close> or more, which the code accepts, becomes a negative one.
\<close>

theorem htb_hierarchy:
  assumes "htb_reach q" "c \<in> set (clhash q)"
  shows "distinct (clhash q) \<and> level (cls q c) < TC_HTB_MAXDEPTH \<and> prio (cls q c) < int TC_HTB_NUMPRIO \<and>
    (\<forall>p. parent (cls q c) = Some p \<longrightarrow> p \<in> set (clhash q) \<and> level (cls q c) < level (cls q p)) \<and>
    (\<forall>r. bit (prio_activity (cls q c)) r \<longrightarrow> r < TC_HTB_NUMPRIO) \<and>
    children (cls q c) = card {d \<in> set (clhash q). parent (cls q d) = Some c} \<and> (level (cls q c) = 0 \<longleftrightarrow> children (cls q c) = 0) \<and>
    (htb_change_class E i parentid (Some c) rq q = (Inr d, q') \<and> parms rq = Some h \<and> children (cls q c) = 0 \<longrightarrow>
      d = c \<and> prio (cls q' c) = min 7 (sint (o_prio h)) \<and> (prio (cls q' c) < 0 \<longleftrightarrow> 2 ^ 31 \<le> uint (o_prio h)))"
proof -
  have s: "tree_wf q" "act_ok q" "family_ok q" using reach_settled [OF assms(1)] by (simp_all add: settled_def base_ok_def)
  have "distinct (clhash q) \<and> level (cls q c) < TC_HTB_MAXDEPTH \<and> prio (cls q c) < int TC_HTB_NUMPRIO \<and>
    (\<forall>p. parent (cls q c) = Some p \<longrightarrow> p \<in> set (clhash q) \<and> level (cls q c) < level (cls q p)) \<and>
    (\<forall>r. bit (prio_activity (cls q c)) r \<longrightarrow> r < TC_HTB_NUMPRIO) \<and>
    children (cls q c) = card {d \<in> set (clhash q). parent (cls q d) = Some c} \<and> (level (cls q c) = 0 \<longleftrightarrow> children (cls q c) = 0)"
    using s assms(2) unfolding tree_wf_def act_ok_def family_ok_def kids_def by blast
  moreover from this have "d = c \<and> prio (cls q' c) = min 7 (sint (o_prio h)) \<and> (prio (cls q' c) < 0 \<longleftrightarrow> 2 ^ 31 \<le> uint (o_prio h))"
    if "htb_change_class E i parentid (Some c) rq q = (Inr d, q') \<and> parms rq = Some h \<and> children (cls q c) = 0"
    using that change_class_prio [of E i parentid c rq q d q' h] sint_nonneg_iff [of "o_prio h"] by auto
  ultimately show ?thesis by blast
qed

text \<open>The class of the small scheduler, and a request that gives it the priority \<open>2^31\<close>.\<close>

theorem htb_hierarchy_witness:
  "1 \<in> set (clhash unit_three) \<and> level (cls unit_three 1) = 0 \<and> children (cls unit_three 1) = 0 \<and> parent (cls unit_three 1) \<noteq> Some 1 \<and>
    prio (cls (snd (htb_change_class unit_env 0x10001 0xFFFFFFFF (Some 1) (unit_req\<lparr>parms := Some (unit_opt\<lparr>o_prio := 0x80000000\<rparr>)\<rparr>) unit_three)) 1) < 0"
proof -
  let ?rq = "unit_req\<lparr>parms := Some (unit_opt\<lparr>o_prio := 0x80000000\<rparr>)\<rparr>"
  have h: "clhash unit_three = [1]" "level (cls unit_three 1) = 0" using unit_three_view(1) by (simp_all add: unit_view_def)
  obtain d q' where q': "htb_change_class unit_env 0x10001 0xFFFFFFFF (Some 1) ?rq unit_three = (Inr d, q')"
    by (simp add: htb_change_class_def unit_req_def Let_def)
  have "prio (cls q' 1) < 0" "children (cls unit_three 1) = 0" "parent (cls unit_three 1) \<noteq> Some 1"
    using htb_hierarchy [OF unit_reach(3), where c = 1 and E = unit_env and i = "0x10001" and parentid = "0xFFFFFFFF" and rq = ?rq and d = d
        and q' = q' and h = "unit_opt\<lparr>o_prio := 0x80000000\<rparr>"] h q' by auto
  then show ?thesis using h q' by simp
qed

text \<open>
  C3: Conformance to the ceiling: let a class be charged only at times when \<open>htb_class_mode\<close> does not
  say \<open>HTB_CANT_SEND\<close>.  Then the total cost of its packets at the ceiling rate is at most the elapsed time plus
  its tokens at the start, the slack of the hysteresis and the cost of one packet, provided the packets fit into
  the bucket \<open>mbuffer\<close>, so that its floor is not reached.
\<close>

theorem htb_ceil_conformance:
  assumes "allowed E hs x" "tdiff_ok E" "waters_ok x" "ctokens x \<le> cbuffer x" "- slack E x - M \<le> ctokens x"
    "\<forall>h\<in>set hs. 0 \<le> cost E x h \<and> cost E x h \<le> M" "M + slack E x < mbuffer x" "0 \<le> M"
  shows "(\<Sum>h\<leftarrow>hs. cost E x h) \<le> ctokens x + slack E x + M + (t_c (fold (charge_at E) hs x) - t_c x)"
  by (rule ceil_conformance [OF assms(1-5) _ assms(7,8)]) (use assms(6) in blast)

theorem htb_ceil_conformance_witness:
  "allowed unit_env unit_burst unit_ready \<and> (\<Sum>h\<leftarrow>unit_burst. cost unit_env unit_ready h) = 30 \<and>
    (\<Sum>h\<leftarrow>unit_burst. cost unit_env unit_ready h) \<le> 100 + 0 + 10 + (9 - 0)"
proof -
  note d = unit_ready_def set_params_def clamp_quantum_def unit_class_def fresh_class_def unit_opt_def unit_env_def Let_def
  have h: "allowed unit_env unit_burst unit_ready" "waters_ok unit_ready" "tdiff_ok unit_env"
    by (simp_all add: d unit_burst_def may_send_def htb_class_mode_def htb_lowater_def htb_hiwater_def
      charge_at_def charge_tokens_def htb_accnt_tokens_def htb_accnt_ctokens_def unit_skb_def waters_ok_def tdiff_ok_def)
  have f: "ctokens unit_ready = 100" "cbuffer unit_ready = 100" "mbuffer unit_ready = 60000" "slack unit_env unit_ready = 0" "t_c unit_ready = 0"
    by (simp_all add: d slack_def)
  have c: "cost unit_env unit_ready h = pkt_len (snd (snd (snd h)))" for h by (simp add: cost_def unit_env_def)
  have s: "(\<Sum>h\<leftarrow>unit_burst. cost unit_env unit_ready h) = 30" "\<forall>h\<in>set unit_burst. cost unit_env unit_ready h = 10"
    by (simp_all add: c unit_burst_def unit_skb_def)
  have "t_c (fold (charge_at unit_env) unit_burst unit_ready) = 9" by (simp add: unit_burst_def charge_at_fields)
  then show ?thesis using htb_ceil_conformance [of unit_env unit_burst unit_ready 10] h s f by simp
qed

text \<open>
  The wake-up time of \<open>htb_class_mode\<close> is right: when a class may not send freely, the returned delay is
  positive and after it the mode is better; without hysteresis the mode stays as it is until then.
\<close>

theorem htb_class_mode_wakeup:
  assumes "waters_ok x" "htb_class_mode E x d = (m, w)" "m \<noteq> HTB_CAN_SEND"
  shows "0 < w \<and> m < fst (htb_class_mode E x (d + w)) \<and>
    (\<not> htb_hysteresis E \<longrightarrow> (\<forall>t. 0 \<le> t \<and> t < w \<longrightarrow> fst (htb_class_mode E x (d + t)) = m))"
  using class_mode_wakeup [OF assms] by blast

theorem htb_class_mode_wakeup_witness:
  "htb_class_mode unit_env (unit_ready\<lparr>ctokens := - 50\<rparr>) 20 = (HTB_CANT_SEND, 30) \<and>
    HTB_CANT_SEND < fst (htb_class_mode unit_env (unit_ready\<lparr>ctokens := - 50\<rparr>) 50)"
proof -
  have h: "waters_ok (unit_ready\<lparr>ctokens := - 50\<rparr>)" "htb_class_mode unit_env (unit_ready\<lparr>ctokens := - 50\<rparr>) 20 = (HTB_CANT_SEND, 30)"
    by (simp_all add: waters_ok_def unit_ready_def set_params_def unit_class_def fresh_class_def unit_opt_def unit_env_def Let_def
      htb_class_mode_def htb_lowater_def)
  show ?thesis using htb_class_mode_wakeup [OF h] h(2) by simp
qed

text \<open>
  C7: The event loop of a level is complete: if its budget covers the classes that are due, it changes the
  mode of every one of them and none is due afterwards; it does not warn about too many events, and it
  returns 0 for an empty wait queue and otherwise the earliest wake-up time of the classes left, which is
  in the future.
\<close>

theorem htb_events_complete:
  assumes "htb_reach q" "depths_ok q" "card (due l (q\<lparr>now := time\<rparr>)) < budget"
    "htb_do_events E l budget (q\<lparr>now := time\<rparr>) = (ev, q')"
  shows "due l q' = {} \<and> warned q' = warned q \<and>
    (wait_pq q' l = [] \<and> ev = 0 \<or> wait_pq q' l \<noteq> [] \<and> time < ev \<and> (\<forall>c\<in>set (wait_pq q' l). ev \<le> pq_key (cls q' c)))"
  using do_events_complete [of "q\<lparr>now := time\<rparr>" l budget E ev q'] reach_settled [OF assms(1)] assms(2-4)
  by (simp add: depths_ok_def)

text \<open>The wait queue of the throttled scheduler at the time 60.\<close>

theorem htb_events_complete_witness:
  "due 0 (unit_throttled\<lparr>qlen := 0, now := 60\<rparr>) = {1} \<and>
    due 0 (snd (htb_do_events unit_env 0 2 (unit_throttled\<lparr>qlen := 0, now := 60\<rparr>))) = {} \<and>
    cmode (cls unit_throttled 1) = HTB_CANT_SEND"
proof -
  let ?q = "unit_throttled\<lparr>qlen := 0\<rparr>"
  have r: "htb_reach ?q" by (rule htb_reach.step [OF unit_loaded_reach htb_step.dequeue [OF unit_filters unit_dequeue_big]])
  have d: "due 0 (?q\<lparr>now := 60\<rparr>) = {1}" using unit_throttled_view by (auto simp: due_def)
  have "depths_ok ?q" using unit_throttled_view by (simp add: depths_ok_def waters_ok_def)
  then show ?thesis
    using htb_events_complete [OF r, of 0 60 2 unit_env] d unit_throttled_view(1) by (simp add: prod_eq_iff)
qed

text \<open>
  C5: The loops of the qdisc end: in every reachable scheduler enqueueing returns when the filter chains are ordered
  (a filter that selects an inner class is numbered above the filters of that class), and so does dequeueing,
  with its scan of empty leaves and the drain of the overflow buffer, when the leaf qdiscs give out the packets they have.
  When the root filter hands a packet on to an inner class whose filter selects this class again, enqueueing does not return.
\<close>

theorem htb_returns:
  assumes "htb_reach q" "filters_ok E q"
  shows "(filters_ordered E q \<longrightarrow> (\<exists>ret q'. htb_enqueue E s q = Some (ret, q'))) \<and>
    (filters_ordered E q \<and> work_conserving E \<longrightarrow> (\<exists>res q'. htb_dequeue E time random budget q = Some (res, q'))) \<and>
    (filter_cycle E s q \<longrightarrow> htb_enqueue E s q = None)"
proof -
  have "\<exists>ret q'. htb_enqueue E s q = Some (ret, q')" if "filters_ordered E q" using enqueue_returns [OF that, of s] by blast
  moreover have "htb_dequeue E time random budget q \<noteq> None" if "filters_ordered E q" "work_conserving E"
    using reach_settled [OF assms(1)] by (intro dequeue_returns assms(2) that) blast
  ultimately show ?thesis using enqueue_cycle [of E s q] by auto
qed

theorem htb_returns_witness:
  "(\<exists>res q'. htb_dequeue unit_env 7 1 (\<lambda>_. 1) unit_two = Some (res, q')) \<and>
    htb_reach unit_loop \<and> htb_enqueue loop_env (unit_skb 1 0) unit_loop = None"
proof -
  have "filters_ordered unit_env unit_two" "work_conserving unit_env"
    by (auto simp: filters_ordered_def work_conserving_def unit_env_def split: list.splits)
  with htb_returns [OF unit_reach(2) unit_filters, of "unit_skb 1 0" 7 1 "\<lambda>_. 1"]
  have 1: "\<exists>res q'. htb_dequeue unit_env 7 1 (\<lambda>_. 1) unit_two = Some (res, q')" by blast
  have v: "filter_list unit_loop = Some 1" "cfilter_list (cls unit_loop 1) = Some 1" "level (cls unit_loop 1) = 7" "handle unit_loop = 0x10000"
      "htb_find 0 unit_loop = None" "1 \<in> set (clhash unit_loop)"
    using unit_parent_view by (simp_all add: unit_loop_def set_tcf_def htb_find_def)
  have "hands_on loop_env (unit_skb 1 0) unit_loop 1 1"
    using v(3) by (simp add: hands_on_def loop_env_def TC_ACT_QUEUED_def TC_ACT_STOLEN_def TC_ACT_SHOT_def)
  then have "filter_cycle loop_env (unit_skb 1 0) unit_loop"
    unfolding filter_cycle_def using v by (intro conjI exI [of _ 1]) (simp_all add: unit_skb_def)
  moreover have "filters_ok loop_env unit_loop" using v(6) by (simp add: filters_ok_def loop_env_def)
  ultimately show ?thesis using 1 unit_loop_reach htb_returns [OF unit_loop_reach, of loop_env "unit_skb 1 0"] by blast
qed

end
