(* ===== verification/HtbInspect.thy ===== *)
theory HtbInspect
  imports HtbTopology
begin

text \<open>
  What the inspection of the scheduler reports: the walk over the classes, the dumps, and the state after
  its destruction.
\<close>

lemma walk_loop_all:
  assumes "\<And>c a. 0 \<le> fst (fn c a)"
  shows "walk_loop fn skp cs (n, a) =
    (False, n + length cs, fold (\<lambda>c a. snd (fn c a)) (drop (skp - n) cs) a)"
proof (induction cs arbitrary: n a)
  case (Cons c cs)
  show ?case
  proof (cases "n < skp")
    case True
    then obtain k where "skp - n = Suc k" "skp - Suc n = k" using Suc_diff_Suc by metis
    then show ?thesis using True Cons.IH by simp
  next
    case False
    then show ?thesis using assms [of c a] Cons.IH by (cases "fn c a") simp
  qed
qed simp

lemma walk_collects: "htb_walk (\<lambda>c a. (0, a @ [c])) 0 False (0, []) q = (False, length (clhash q), clhash q)"
proof -
  have "fold (\<lambda>c a. a @ [c]) cs a = a @ cs" for cs a :: "nat list" by (induction cs arbitrary: a) simp_all
  then show ?thesis by (simp add: htb_walk_def walk_loop_all)
qed

lemma dump_init:
  assumes "htb_init blank hnd opt parse (Some g) err txq = Inr q" "1 \<le> sint (g_rate2quantum g)"
  shows "dg_defcls (htb_dump q) = g_defcls g" "dg_rate2quantum (htb_dump q) = g_rate2quantum g" "dg_direct_pkts (htb_dump q) = 0"
  using assms by (auto simp: htb_dump_def htb_init_def split: if_splits)

lemma dump_set_params:
  assumes "htb_change_class E i parentid arg rq q = (Inr c, q')" "parms rq = Some hopt"
  shows "dc_buffer (htb_dump_class c q') = o_buffer hopt" "dc_cbuffer (htb_dump_class c q') = o_cbuffer hopt"
    "dc_ceil (htb_dump_class c q') = ctab rq" "dc_rate (htb_dump_class c q') = map_option fst (rtab rq)"
  using assms
  by (auto simp: htb_change_class_def htb_dump_class_def set_params_def upd_def Let_def split: if_splits option.splits)

lemma destroy_empty:
  "clhash (htb_destroy q) = []" "direct_queue (htb_destroy q) = []" "ofbuf (htb_destroy q) = []" "ofbuf_queued (htb_destroy q) = 0"
  by (simp_all add: htb_destroy_def Let_def)

end
