(* ===== verification/Spec2Isabelle.thy ===== *)
theory Spec2Isabelle
  imports Aes AesWrap AesModes Omac1 AesEax AesSiv AesCcm AesGcm Milenage Rc4 Mnexec EapolPort PmksaRefine RsnProps KeyProps EapolProps HtbProps HtbInspect
begin

section \<open>Overview\<close>

text \<open>
  The repository is Mininet-WiFi, an emulator of wireless networks, with the changes of a project on network
  slicing.  Its Python code sets up nodes, links and queues; the work is done by C programs, and these are what
  this development verifies (all paths are relative to \<open>src/mininet-wifi\<close>):
  \<^item> \<open>mnexec.c\<close> starts every process of an emulated node in the namespaces, control group and scheduling class
    of that node;
  \<^item> \<open>util/sch_htb-ofbuf/sch_htb.c\<close> is the kernel's hierarchical token bucket scheduler (HTB) with an overflow
    buffer, which shapes the links and gives each slice its share of the bandwidth;
  \<^item> \<open>hostap\<close> is the access point of the emulation.  Modelled are the cryptography its keys and frames rest on
    (\<open>hostap/src/crypto\<close>), the processing of RSN information elements up to the admission of a station
    (\<open>hostap/src/common/wpa_common.c\<close>, \<open>hostap/src/ap/wpa_auth_ie.c\<close>), the IEEE 802.1X authenticator
    that opens the port of an admitted station (\<open>hostap/src/eapol_auth\<close>) and the PMKSA cache that lets a
    station skip authentication (\<open>hostap/src/ap/pmksa_cache_auth.c\<close>).

  The parts meet as in the code: admission looks PMKIDs up in the PMKSA cache and remembers the entry; a
  cached entry lets the authenticator skip the EAP exchange; the PMKIDs are computed with keyed hashes; the AES
  modes call the block cipher through \<open>aes_encrypt_init\<close>, \<open>aes_encrypt\<close> and their inverses.
\<close>

section \<open>How the code is represented\<close>

text \<open>
  \<^item> Integers of a fixed width are words of that width (\<open>u8\<close>, \<open>u16\<close>, \<open>u32\<close>, \<open>u64\<close> in \<open>Prelude\<close>),
    so arithmetic wraps as in C.  Lengths of buffers (\<open>size_t\<close>) are natural numbers, and where the code narrows
    a length the narrowing is written out.  Times, tokens and counters of HTB (\<open>long\<close>, \<open>int\<close>) are integers, that
    is, their overflow is outside the model, and so are the times of the PMKSA cache.
  \<^item> Structures are records with the fields of the code, enumerations are datatypes with its constructors,
    arrays are lists.  Where the code can leave a buffer or follow a bad pointer, the model says so: the value
    \<open>Fault\<close> of the type \<open>outcome\<close> (\<open>Prelude\<close>; \<open>Ret\<close> is an early return, \<open>Ok\<close> the normal continuation), the
    result \<open>None\<close> of a read in the element parsers, or the flag that \<open>fault\<close> sets in the scheduler.  That this
    does not happen, or exactly when it does, is a theorem.
  \<^item> Pointers are kept where sharing matters: the PMKSA cache is a store of entries that are linked into the list by
    expiration and into a hash chain at once; the classes of HTB are numbers into a memory \<open>cls\<close>.
  \<^item> Loops are recursive functions.  A loop without an evident bound is a \<open>partial_function (option)\<close>, where
    \<open>None\<close> means that it does not return (or, in the PMKSA cache, that it follows a dangling pointer): the filter
    loop of \<open>htb_classify\<close>, the scan of a row for a leaf, the drain of the overflow buffer, the loops of RC4, the loops over
    the data of SHA-256 and SHA-1, and the loops over the linked lists of the PMKSA cache.  The properties about these state that they return \<open>Some\<close>; for the loops of
    HTB this needs hypotheses on the filters and the leaf queues, which \<open>HtbReturn\<close> states.
  \<^item> Bounds the code has itself are kept: \<open>htb_lookup_loop\<close> makes at most 65535 steps on a stack of
    \<open>TC_HTB_MAXDEPTH = 8\<close> entries, and \<open>eapol_sm_step_run\<close> at most 100 passes.  The event loop of HTB runs until two
    jiffies have passed; how many events fit into them is the parameter \<open>budget\<close>.  The loops of HTB that climb from a
    class to its ancestors have \<open>TC_HTB_MAXDEPTH\<close> as fuel: the level rises with every step and is below 8 in every reachable
    scheduler (\<open>htb_hierarchy\<close>), so the fuel does not run out.
  \<^item> Code outside the repository is a parameter: the answers of the kernel to the system calls of \<open>mnexec\<close>,
    the leaf queues, filters, rate tables and clock of HTB (record \<open>htb_env\<close>), the results of the EAP server
    and of the hooks of the authenticator, random numbers, allocation, the keyed hashes that PMKIDs use
    (record \<open>hmacs\<close>), and the SHA-384, SHA-512 and MD5 functions of the key derivation (record \<open>libs\<close>).
\<close>

section \<open>Theories\<close>

text \<open>
  \<^bold>\<open>Foundations.\<close>  \<open>Prelude\<close>: words, bytes, big and little endian access as in \<open>hostap/src/utils/common.h\<close>,
  \<open>outcome\<close>, copies between buffers, lemma collections \<open>byte_simps\<close> and \<open>w32_simps\<close>.  \<open>Cstring\<close>: the
  functions of the C library on strings.

  \<^bold>\<open>Cryptography\<close> (\<open>hostap/src/crypto\<close>).  \<open>BlockCipher\<close> states what the modes rely on: the locale
  \<open>block_cipher\<close> (encryption returns blocks of 16 bytes) and its extension
  \<open>invertible_cipher\<close> (decryption inverts encryption).  \<open>AesTables\<close> and \<open>Aes\<close> model the table-driven
  cipher of \<open>aes-internal*.c\<close>; the tables are shown to be those of the standard's arithmetic, decryption is shown
  to invert encryption round by round, and the interpretation \<open>aes\<close> discharges both locales.  On top of it:
  \<open>AesWrap\<close> (\<open>aes-wrap.c\<close>, \<open>aes-unwrap.c\<close>), \<open>AesModes\<close> (\<open>aes-ctr.c\<close>, \<open>aes-cbc.c\<close>), \<open>Omac1\<close>
  (\<open>aes-omac1.c\<close>), \<open>AesEax\<close>, \<open>AesSiv\<close>, \<open>AesCcm\<close>, \<open>AesGcm\<close> and \<open>Milenage\<close> (the files of these names).
  For every authenticated mode it is shown that decryption accepts exactly what encryption produces; OMAC1 is
  shown equal to CMAC of the concatenated elements, and the loops of \<open>gf_mult\<close> to be the multiplication of a
  commutative ring.  \<open>Rc4\<close> models \<open>rc4.c\<close> with the 32-bit counters of its loops and shows it
  equal to the published cipher.

  \<^bold>\<open>Hashes and keys\<close> (\<open>hostap/src/crypto\<close> and \<open>wpa_common.c\<close>).  \<open>MdHash\<close>: absorbing blocks, padding and partly
  filled buffers, and the locale \<open>hash_vector\<close> (a function over element vectors that computes a hash of their
  concatenation), in which what HMAC needs is proved once.  \<open>Sha256\<close> (\<open>sha256-internal.c\<close>) and \<open>Sha1\<close>
  (\<open>sha1-internal.c\<close>) model the compression functions and buffers, show them equal to definitions
  after FIPS 180-4 (the constants of SHA-256 are computed there from roots of primes), and interpret the locale as \<open>sha256_hash\<close> and \<open>sha1_hash\<close>.  \<open>Hmac\<close>: \<open>sha256.c\<close>,
  \<open>sha1.c\<close>, \<open>sha256-prf.c\<close>, \<open>sha1-prf.c\<close>, \<open>sha1-pbkdf2.c\<close> beside definitions after RFC 2104, IEEE 802.11 and
  RFC 8018.  \<open>WpaKeys\<close>: \<open>wpa_pmk_to_ptk\<close> and \<open>wpa_eapol_key_mic\<close>.  \<open>KeyProps\<close>: the properties.

  \<^bold>\<open>EAPOL-Key frames\<close> (\<open>wpa_auth.c\<close> and \<open>wpa_common.c\<close>).  \<open>KdeParse\<close>: \<open>wpa_parse_kde_ies\<close>, the parser of the
  key data elements, that it stays in its buffer, and what it makes of elements built by \<open>wpa_add_kde\<close>.  \<open>EapolKey\<close>:
  \<open>__wpa_send_eapol\<close> (\<open>send_eapol_key\<close>: replay counter, header, key data in the clear or under SIV, RC4 or the key wrap, MIC)
  and \<open>wpa_verify_key_mic\<close>, over the record \<open>eapol_key_sm\<close> of the members they use; the lemma \<open>send_cases\<close> lists the
  outcomes of a call.  \<open>EapolProps\<close>: the properties, with a sample message.

  \<^bold>\<open>mnexec.\<close>  \<open>Mnexec\<close>: options, system calls in order, a trace of effects.  The inductive relation
  \<open>performed\<close> says what a successful option must have done.

  \<^bold>\<open>IEEE 802.1X.\<close>  \<open>EapolAuth\<close>: the six state machines of \<open>eapol_auth_sm.c\<close>, their step loop, timers
  and control interface over one record.  \<open>EapolPort\<close>: the transition relation \<open>eapol_trans\<close>,
  reachability, and by rule induction the invariant of the controlled port.

  \<^bold>\<open>PMKSA cache.\<close>  \<open>PmksaCache\<close>: the operations on the store.  \<open>PmksaRefine\<close>: \<open>chain\<close> reads a linked
  list off the store; the locale \<open>link\<close> proves the pointer loops once for any link field and is interpreted
  for the list (\<open>nl\<close>) and for the hash chains (\<open>hl\<close>); the operations refine those on a list sorted by
  expiration, and the invariant holds in every reachable cache.

  \<^bold>\<open>RSN elements.\<close>  \<open>RsnSuites\<close>: suites and selectors.  \<open>RsnIe\<close>: the parsers, with the locale \<open>field\<close>
  for values of a fixed length and its interpretations \<open>le16\<close> and \<open>sel\<close>.  \<open>RsnWrite\<close>: the writers.
  \<open>RsnRoundtrip\<close>: what the parsers make of written elements.  \<open>RsnInsert\<close>: \<open>wpa_insert_pmkid\<close>.
  \<open>RsnValidate\<close>: \<open>wpa_validate_wpa_ie\<close>, in the stages of the code.  \<open>RsnAdmit\<close>, \<open>RsnPolicy\<close> and \<open>RsnAccept\<close>:
  that it stays in bounds and keeps the cache well formed, what an admitted station has agreed to, and that a
  station answering with the access point's own element is admitted.  \<open>RsnProps\<close>: the properties, with a
  sample network.

  \<^bold>\<open>HTB.\<close>  \<open>HtbTree\<close>: the search trees as sequences in the order of their keys, with the locale \<open>walk\<close> for
  insertion and lookup under an ordering and its interpretations \<open>id_tree\<close> and \<open>wait_tree\<close>.  \<open>HtbClass\<close>:
  classes, modes (an instance of \<open>linorder\<close>), tokens, and activation and deactivation of priorities.
  \<open>HtbQdisc\<close>: classification, lookup, enqueueing, events and dequeueing.  \<open>HtbAdmin\<close>: creation, change, deletion,
  grafting, reset, destruction and dumps.  The invariant \<open>settled\<close> (feed trees and rows hold exactly the
  classes that mode and activity call for) is built in \<open>HtbChain\<close>, shown to survive the climbing loops in
  \<open>HtbClimb\<close> and changes of mode in \<open>HtbMode\<close>, the lookup in \<open>HtbLookup\<close>, enqueueing and dequeueing in
  \<open>HtbServe\<close> and \<open>HtbQueue\<close>, and the control side in \<open>HtbTopology\<close>.  \<open>HtbServe\<close> states what a leaf queue
  promises as the locale \<open>packet_queue\<close>, interpreted as \<open>direct\<close> on the direct queue of the scheduler itself.
  \<open>HtbShaping\<close>: token buckets and conformance.  \<open>HtbReach\<close>: the scheduler as a transition system;
  its environment may attach filters (\<open>set_tcf\<close>).  \<open>HtbReturn\<close>: on ordered
  filters and work-conserving leaf queues every loop ends, and on a filter cycle the classification does not.
  \<open>HtbExample\<close>: sample schedulers.  \<open>HtbProps\<close> and \<open>HtbInspect\<close>: the properties.
\<close>

section \<open>What the theorems show\<close>

text \<open>
  \<^item> HTB, under requests with priorities below \<open>2^31\<close> (\<open>prio_in_range\<close>; the code stores larger ones as negative
    numbers and does not check): in every reachable scheduler the trees are exact and the hierarchy is well formed, no step faults, the
    event loop handles all due classes, enqueueing and dequeueing return, and a class sends no more than its ceiling over any interval allows,
    up to its bucket and one packet.  The counter of stored packets is shown to drift with every drain of the overflow
    buffer: it counts a packet twice.
  \<^item> Admission: \<open>wpa_validate_wpa_ie\<close> returns without a fault on all inputs; an admitted station has agreed to the
    policy of the network, with one exception that is stated and witnessed; the access point's own element is admitted;
    elements are parsed back to what was written; the buffer for the own elements suffices.
  \<^item> Cryptography: round trips, authenticity as \<open>accepts exactly the outputs of\<close>, equivalence with reference
    definitions, and the inputs on which the code reads out of bounds or does not return.
  \<^item> Keys: hashes, HMAC and key derivations equal their standards; both sides derive the same pairwise keys, of the
    lengths of the suite and inside the buffers; the lengths for which \<open>SHA1Update\<close> leaves its buffer.
  \<^item> EAPOL-Key frames: what is sent stays in its allocation, verifies under the same PTK and is decrypted and parsed back to
    the elements put in; the replay counter advances; the parser stays in its buffer on all inputs.
  \<^item> Port control: the port follows the state of the machines, opens only after success or by administration,
    and cached keys override a port forced closed.
  \<^item> PMKSA cache: refinement of a sorted list, well-formedness of every reachable cache, completeness of lookups,
    exact expiration, and the exact effect of a RADIUS disconnect.
  \<^item> \<open>mnexec\<close>: the command runs only after all options succeeded in order, and effects stay within bounds.

  Properties with hypotheses come with a witness that applies them to concrete data.
\<close>

section \<open>Not modelled\<close>

text \<open>
  Of the modelled files: logging and text output (\<open>usage\<close>, the PMKSA listings, debug dumps), the module
  glue, watchdog, work queue and statistics copies of HTB, EAP callbacks and cloning of configurations in
  \<open>eapol_auth_sm.c\<close>, and in \<open>wpa_common.c\<close> the elements and key derivations of FT, FILS and PASN.
  The options \<open>CONFIG_IEEE80211BE\<close>, \<open>CONFIG_TESTING_OPTIONS\<close> and \<open>CONFIG_RSN_TESTING\<close> are taken as unset; the other build
  options of the element code are a record.

  Of the rest of the repository:
  \<^item> the handshakes, FT and SAE of the WPA authenticator (\<open>wpa_auth.c\<close>, \<open>wpa_auth_ft.c\<close>, \<open>sae.c\<close>), which run over
    timers and callbacks into libraries that are not in the repository; of \<open>wpa_auth.c\<close> only the two functions above are modelled;
  \<^item> frame handling of the access point (\<open>ieee802_11.c\<close>, \<open>hostapd.c\<close>, \<open>sta_info.c\<close>), tied to the driver
    interface;
  \<^item> the supplicant, the EAP methods, WPS, P2P, FST, DPP and PASN: the station side and separate protocols, which share no
    code with the modelled parts;
  \<^item> the optional internal TLS stack, and the wrappers of foreign cryptographic libraries;
  \<^item> drivers and netlink tools (\<open>drivers\<close>, \<open>iw\<close>), control interfaces, D-Bus, configuration files and RADIUS transport:
    messages and text whose meaning lies in the kernel or in peers;
  \<^item> utilities: of \<open>hostap/src/utils\<close> only what the modelled parts use;
  \<^item> tests, sniffers and fuzzers; vendor headers; and the copies of \<open>sch_htb.c\<close> and \<open>mnexec.c\<close> under \<open>mininet\<close>.
  The Python code configures these programs and is not C.
\<close>

end
